(* ===== verification/Prelude.thy ===== *)
theory Prelude
  imports Main "HOL-Library.Word" "HOL-Library.Monad_Syntax"
begin

text \<open>
  Shared types and lemmas. The platform modelled is the one the program is mainly used on:
  64-bit Linux with \<open>HAVE_PROCMEM\<close>, where \<open>ptr_t\<close>, \<open>ulong\<close> and \<open>size_t\<close>
  are 64 bits wide (\<open>src/src/lib/types.h\<close>). A C++ vector is a list; the element
  accesses are checked, and \<open>None\<close> stands for an out-of-range access, i.e. for an
  exception of \<open>at()\<close> or for undefined behaviour of \<open>operator[]\<close> and \<open>erase\<close>.
\<close>

type_synonym ptr = "64 word"
type_synonym u32 = "32 word"

abbreviation PTR_MAX :: ptr where "PTR_MAX \<equiv> - 1"

named_theorems vec_simps "facts about the checked vector accesses"

lemma unat_lt_64: "unat (w :: 64 word) < 18446744073709551616"
  using unsigned_less [where ?'b = 64 and w = w, where ?'a = nat] by simp

lemma unat_lt_32: "unat (w :: 32 word) < 4294967296"
  using unsigned_less [where ?'b = 32 and w = w, where ?'a = nat] by simp

subsection \<open>Checked vector accesses\<close>

definition vget :: "'a list \<Rightarrow> nat \<Rightarrow> 'a option" where
  "vget xs i = (if i < length xs then Some (xs ! i) else None)"

definition vset :: "'a list \<Rightarrow> nat \<Rightarrow> 'a \<Rightarrow> 'a list option" where
  "vset xs i x = (if i < length xs then Some (xs[i := x]) else None)"

definition verase :: "'a list \<Rightarrow> nat \<Rightarrow> 'a list option" where
  "verase xs i = (if i < length xs then Some (take i xs @ drop (Suc i) xs) else None)"

lemma vget_Some_iff [vec_simps]: "vget xs i = Some x \<longleftrightarrow> i < length xs \<and> x = xs ! i"
  by (auto simp: vget_def)

lemma vget_None_iff [vec_simps]: "vget xs i = None \<longleftrightarrow> length xs \<le> i"
  by (auto simp: vget_def)

lemma vset_Some_iff [vec_simps]: "vset xs i x = Some ys \<longleftrightarrow> i < length xs \<and> ys = xs[i := x]"
  by (auto simp: vset_def)

lemma verase_Some_iff [vec_simps]:
  "verase xs i = Some ys \<longleftrightarrow> i < length xs \<and> ys = take i xs @ drop (Suc i) xs"
  by (auto simp: verase_def)

lemma length_erase: "i < length xs \<Longrightarrow> length (take i xs @ drop (Suc i) xs) = length xs - 1"
  by simp

subsection \<open>Searching lists\<close>

text \<open>The index of the first, and of the last, element with a property.\<close>

fun index_first :: "('a \<Rightarrow> bool) \<Rightarrow> 'a list \<Rightarrow> nat option" where
  "index_first p [] = None"
| "index_first p (x # xs) = (if p x then Some 0 else map_option Suc (index_first p xs))"

fun index_last :: "('a \<Rightarrow> bool) \<Rightarrow> 'a list \<Rightarrow> nat option" where
  "index_last p [] = None"
| "index_last p (x # xs) =
     (case index_last p xs of Some i \<Rightarrow> Some (Suc i) | None \<Rightarrow> if p x then Some 0 else None)"

lemma index_first_None: "index_first p xs = None \<longleftrightarrow> (\<forall>x \<in> set xs. \<not> p x)"
  by (induction xs) auto

lemma index_first_append:
  "index_first p (xs @ ys) =
     (case index_first p xs of Some i \<Rightarrow> Some i
      | None \<Rightarrow> map_option ((+) (length xs)) (index_first p ys))"
proof (induction xs)
  case Nil
  then show ?case by (cases "index_first p ys") auto
next
  case (Cons x xs)
  then show ?case by (cases "index_first p xs"; cases "index_first p ys"; simp)
qed

lemma index_first_SomeD:
  "index_first p xs = Some i \<Longrightarrow> i < length xs \<and> p (xs ! i) \<and> (\<forall>j < i. \<not> p (xs ! j))"
proof (induction xs arbitrary: i)
  case (Cons x xs)
  then show ?case
    by (cases i) (auto split: if_splits simp: less_Suc_eq_0_disj)
qed simp

lemma index_first_skip:
  "\<forall>x \<in> set xs. \<not> p x \<Longrightarrow> p y \<Longrightarrow> index_first p (xs @ y # ys) = Some (length xs)"
  by (induction xs) auto

lemma index_last_None: "index_last p xs = None \<longleftrightarrow> (\<forall>x \<in> set xs. \<not> p x)"
  by (induction xs) (auto split: option.splits)

lemma index_last_SomeD:
  "index_last p xs = Some i \<Longrightarrow>
     i < length xs \<and> p (xs ! i) \<and> (\<forall>j. i < j \<and> j < length xs \<longrightarrow> \<not> p (xs ! j))"
proof (induction xs arbitrary: i)
  case (Cons x xs)
  show ?case
  proof (cases "index_last p xs")
    case None
    with Cons.prems show ?thesis
      by (auto split: if_splits simp: nth_Cons' index_last_None)
  next
    case (Some k)
    with Cons show ?thesis by (auto simp: nth_Cons split: nat.splits)
  qed
qed simp

lemma index_last_skip:
  assumes "p y" and "\<forall>x \<in> set ys. \<not> p x"
  shows "index_last p (xs @ y # ys) = Some (length xs)"
proof (induction xs)
  case Nil
  from assms(2) have "index_last p ys = None" by (simp add: index_last_None)
  with assms(1) show ?case by simp
qed simp

lemma takeWhile_stop: "x \<notin> set p \<Longrightarrow> takeWhile (\<lambda>a. a \<noteq> x) (p @ x # ys) = p"
  by (induction p) auto

lemma sum_list_map_update:
  fixes f :: "'a \<Rightarrow> nat"
  shows "i < length xs \<Longrightarrow>
    sum_list (map f (xs[i := y])) + f (xs ! i) = sum_list (map f xs) + f y"
proof (induction xs arbitrary: i)
  case (Cons x xs)
  then show ?case by (cases i) auto
qed simp

subsection \<open>Loops over a list that may fail\<close>

primrec fold_opt :: "('a \<Rightarrow> 'w \<Rightarrow> 'w option) \<Rightarrow> 'a list \<Rightarrow> 'w \<Rightarrow> 'w option" where
  "fold_opt f [] w = Some w"
| "fold_opt f (x # xs) w = f x w \<bind> fold_opt f xs"

lemma fold_opt_append: "fold_opt f (xs @ ys) w = fold_opt f xs w \<bind> fold_opt f ys"
  by (induction xs arbitrary: w) (auto split: bind_splits)

lemma fold_opt_snoc: "fold_opt f (xs @ [x]) w = fold_opt f xs w \<bind> f x"
  by (induction xs arbitrary: w) (auto split: bind_splits)

text \<open>A loop body that keeps an invariant and never fails gives a loop that does.\<close>

lemma fold_opt_inv:
  assumes "\<And>x w. x \<in> set xs \<Longrightarrow> I w \<Longrightarrow> \<exists>w'. f x w = Some w' \<and> I w'" "I w"
  shows "\<exists>w'. fold_opt f xs w = Some w' \<and> I w'"
  using assms
proof (induction xs arbitrary: w)
  case (Cons x xs)
  from Cons.prems obtain w1 where "f x w = Some w1" "I w1" by fastforce
  moreover have "\<exists>w'. fold_opt f xs w1 = Some w' \<and> I w'"
    using Cons.prems(1) \<open>I w1\<close> by (intro Cons.IH) auto
  ultimately show ?case by simp
qed simp

text \<open>The same where the invariant only has to hold for the results.\<close>

lemma fold_opt_pres:
  assumes "\<And>x w w'. x \<in> set xs \<Longrightarrow> I w \<Longrightarrow> f x w = Some w' \<Longrightarrow> I w'" "I w"
    "fold_opt f xs w = Some w'"
  shows "I w'"
  using assms
proof (induction xs arbitrary: w)
  case (Cons x xs)
  then show ?case by (auto simp: bind_eq_Some_conv)
qed simp

end
