(* ===== verification/CText.thy ===== *)
theory CText
  imports Prelude "HOL-Library.Char_ord"
begin

text \<open>
  The parts of the C string and stdio library that the sources use: NUL-terminated strings
  in character arrays, \<open>strchr\<close>, \<open>strrchr\<close>, \<open>strstr\<close>, \<open>basename\<close>, the integer
  conversions of \<open>sscanf\<close>/\<open>strtoul\<close>/\<open>strtol\<close> and those of \<open>printf\<close>. An array is a
  \<open>string\<close> of its bytes, NULs included.
\<close>

subsection \<open>Characters\<close>

abbreviation NUL :: char where "NUL \<equiv> CHR 0x00"
abbreviation NL :: char where "NL \<equiv> CHR 0x0A"
abbreviation TAB :: char where "TAB \<equiv> CHR 0x09"

definition c_isspace :: "char \<Rightarrow> bool" where
  "c_isspace c \<longleftrightarrow> c = CHR '' '' \<or> (9 \<le> (of_char c :: nat) \<and> (of_char c :: nat) \<le> 13)"

definition c_isdigit :: "char \<Rightarrow> bool" where
  "c_isdigit c \<longleftrightarrow> 48 \<le> (of_char c :: nat) \<and> (of_char c :: nat) \<le> 57"

definition c_isupper :: "char \<Rightarrow> bool" where
  "c_isupper c \<longleftrightarrow> 65 \<le> (of_char c :: nat) \<and> (of_char c :: nat) \<le> 90"

definition c_islower :: "char \<Rightarrow> bool" where
  "c_islower c \<longleftrightarrow> 97 \<le> (of_char c :: nat) \<and> (of_char c :: nat) \<le> 122"

definition c_isalpha :: "char \<Rightarrow> bool" where
  "c_isalpha c \<longleftrightarrow> c_isupper c \<or> c_islower c"

definition c_isalnum :: "char \<Rightarrow> bool" where
  "c_isalnum c \<longleftrightarrow> c_isalpha c \<or> c_isdigit c"

text \<open>The value of a digit in bases up to 36; 99 for any other character.\<close>

definition digit_val :: "char \<Rightarrow> nat" where
  "digit_val c = (if c_isdigit c then of_char c - 48
                  else if c_isupper c then of_char c - 55
                  else if c_islower c then of_char c - 87 else 99)"

definition is_digit :: "nat \<Rightarrow> char \<Rightarrow> bool" where
  "is_digit base c \<longleftrightarrow> digit_val c < base"

abbreviation c_isxdigit :: "char \<Rightarrow> bool" where "c_isxdigit c \<equiv> is_digit 16 c"

subsection \<open>NUL-terminated strings\<close>

definition cstr :: "string \<Rightarrow> string" where
  "cstr buf = takeWhile (\<lambda>c. c \<noteq> NUL) buf"

text \<open>\<open>strchr (buf + p, c)\<close> and \<open>strrchr (buf, c)\<close>, as indices into the array.\<close>

definition strchr :: "string \<Rightarrow> nat \<Rightarrow> char \<Rightarrow> nat option" where
  "strchr buf p c = map_option ((+) p) (index_first (\<lambda>x. x = c) (cstr (drop p buf)))"

definition strrchr :: "string \<Rightarrow> char \<Rightarrow> nat option" where
  "strrchr buf c = index_last (\<lambda>x. x = c) (cstr buf)"

definition is_prefix :: "'a list \<Rightarrow> 'a list \<Rightarrow> bool" where
  "is_prefix xs ys \<longleftrightarrow> take (length xs) ys = xs"

text \<open>\<open>strstr (s, pat)\<close>: the first position of \<open>pat\<close> in \<open>s\<close>.\<close>

fun strstr :: "string \<Rightarrow> string \<Rightarrow> nat option" where
  "strstr [] pat = (if pat = [] then Some 0 else None)"
| "strstr (c # s) pat =
     (if is_prefix pat (c # s) then Some 0 else map_option Suc (strstr s pat))"

text \<open>
  POSIX \<open>basename\<close> (\<open>libgen.h\<close>): trailing slashes are dropped, then everything up to the
  last slash; the empty path gives \<open>.\<close> and a path of slashes only gives \<open>/\<close>.
\<close>

definition c_basename :: "string \<Rightarrow> string" where
  "c_basename s =
     (if s = [] then ''.''
      else let t = dropWhile (\<lambda>c. c = CHR ''/'') (rev s)
           in if t = [] then ''/'' else rev (takeWhile (\<lambda>c. c \<noteq> CHR ''/'') t))"

subsection \<open>Integer conversions of scanf and strtoul\<close>

definition num_value :: "nat \<Rightarrow> string \<Rightarrow> nat" where
  "num_value base ds = foldl (\<lambda>a d. a * base + digit_val d) 0 ds"

text \<open>
  The subject sequence: optional white space, an optional sign, an optional \<open>0x\<close> in base 16
  (taken only in front of a hexadecimal digit) and the digits. \<open>None\<close> without any digit.
\<close>

definition scan_sign :: "string \<Rightarrow> bool \<times> string" where
  "scan_sign s = (case s of c # r \<Rightarrow> if c = CHR ''-'' then (True, r)
                                    else if c = CHR ''+'' then (False, r) else (False, s)
                  | [] \<Rightarrow> (False, s))"

definition skip_0x :: "nat \<Rightarrow> string \<Rightarrow> string" where
  "skip_0x base s = (case s of c # d # e # r \<Rightarrow>
       if base = 16 \<and> c = CHR ''0'' \<and> (d = CHR ''x'' \<or> d = CHR ''X'') \<and> is_digit 16 e
       then e # r else s
     | _ \<Rightarrow> s)"

definition scan_num :: "nat \<Rightarrow> string \<Rightarrow> (bool \<times> nat \<times> string) option" where
  "scan_num base s =
     (let (neg, s1) = scan_sign (dropWhile c_isspace s);
          s2 = skip_0x base s1;
          ds = takeWhile (is_digit base) s2
      in if ds = [] then None
         else Some (neg, num_value base ds, dropWhile (is_digit base) s2))"

text \<open>
  \<open>%lu\<close>, \<open>%lx\<close> (and \<open>strtoul\<close>): a value that does not fit gives \<open>ULONG_MAX\<close>, a minus
  sign negates in the unsigned type. \<open>%ld\<close>, \<open>%zd\<close> (and \<open>strtol\<close>) saturate at both ends.
\<close>

definition to_ulong :: "bool \<Rightarrow> nat \<Rightarrow> 64 word" where
  "to_ulong neg n = (if 2 ^ 64 \<le> n then - 1 else if neg then - of_nat n else of_nat n)"

definition to_long :: "bool \<Rightarrow> nat \<Rightarrow> 64 word" where
  "to_long neg n = (if neg then (if 2 ^ 63 < n then of_nat (2 ^ 63) else - of_nat n)
                    else (if 2 ^ 63 \<le> n then of_nat (2 ^ 63 - 1) else of_nat n))"

definition scan_ul :: "nat \<Rightarrow> string \<Rightarrow> (64 word \<times> string) option" where
  "scan_ul base s = map_option (\<lambda>(neg, n, r). (to_ulong neg n, r)) (scan_num base s)"

definition scan_l :: "nat \<Rightarrow> string \<Rightarrow> (64 word \<times> string) option" where
  "scan_l base s = map_option (\<lambda>(neg, n, r). (to_long neg n, r)) (scan_num base s)"

text \<open>\<open>%u\<close> and \<open>%x\<close> into a 32-bit integer keep the low 32 bits.\<close>

definition scan_u32 :: "nat \<Rightarrow> string \<Rightarrow> (u32 \<times> string) option" where
  "scan_u32 base s = map_option (\<lambda>(w, r). (ucast w, r)) (scan_ul base s)"

text \<open>A literal (non-space) part of a scanf format.\<close>

definition scan_lit :: "string \<Rightarrow> string \<Rightarrow> string option" where
  "scan_lit lit s = (if is_prefix lit s then Some (drop (length lit) s) else None)"

text \<open>\<open>SCN_PTR\<close>, i.e. \<open>"0x%lx"\<close>.\<close>

definition scan_ptr :: "string \<Rightarrow> (ptr \<times> string) option" where
  "scan_ptr s = scan_lit ''0x'' s \<bind> scan_ul 16"

text \<open>\<open>strtoul (s, NULL, base)\<close> for bases 10 and 16: 0 when there is no number.\<close>

definition strtoul :: "nat \<Rightarrow> string \<Rightarrow> 64 word" where
  "strtoul base s = (case scan_ul base s of Some (w, _) \<Rightarrow> w | None \<Rightarrow> 0)"

definition strtol :: "nat \<Rightarrow> string \<Rightarrow> 64 word" where
  "strtol base s = (case scan_l base s of Some (w, _) \<Rightarrow> w | None \<Rightarrow> 0)"

subsection \<open>Integer conversions of printf\<close>

definition digit_char :: "nat \<Rightarrow> char" where
  "digit_char n = char_of (if n < 10 then n + 48 else n + 87)"

fun digits :: "nat \<Rightarrow> nat \<Rightarrow> string" where
  "digits base n = (if base < 2 \<or> n < base then [digit_char n]
                    else digits base (n div base) @ [digit_char (n mod base)])"

declare digits.simps [simp del]

definition pr_dec :: "nat \<Rightarrow> string" where "pr_dec n = digits 10 n"

definition pr_hex :: "64 word \<Rightarrow> string" where "pr_hex w = digits 16 (unat w)"

text \<open>\<open>PRI_PTR\<close>, i.e. \<open>"0x%lx"\<close>.\<close>

definition pr_ptr :: "ptr \<Rightarrow> string" where "pr_ptr w = ''0x'' @ pr_hex w"

text \<open>\<open>%lu\<close>, \<open>%zu\<close> of a 64-bit value, \<open>%u\<close> of a 32-bit value and the signed \<open>%zd\<close>.\<close>

definition pr_ul :: "64 word \<Rightarrow> string" where "pr_ul w = pr_dec (unat w)"
definition pr_u32 :: "u32 \<Rightarrow> string" where "pr_u32 w = pr_dec (unat w)"
definition pr_zd :: "64 word \<Rightarrow> string" where
  "pr_zd w = (if w \<le> 0x7FFFFFFFFFFFFFFF then pr_dec (unat w) else CHR ''-'' # pr_dec (unat (- w)))"

subsection \<open>Printed numbers scan back\<close>

named_theorems ctext_simps "C strings and number conversions"

text \<open>What may follow a printed number so that a conversion stops behind it.\<close>

definition num_stop :: "string \<Rightarrow> bool" where
  "num_stop r \<longleftrightarrow> r = [] \<or> \<not> c_isalnum (hd r)"

lemma num_stop_simps [simp]:
  "num_stop []" "num_stop (CHR '';'' # r)" "num_stop (NL # r)" "num_stop (CHR '' '' # r)"
  "num_stop (NUL # r)"
  by (simp_all add: num_stop_def c_isalnum_def c_isalpha_def c_isupper_def c_islower_def
      c_isdigit_def)

lemma digit_val_char [simp]:
  assumes "n < 16" shows "digit_val (digit_char n) = n"
  using assms
  by (simp add: digit_val_def digit_char_def c_isdigit_def c_isupper_def c_islower_def)

lemma is_digit_char [simp]: "n < base \<Longrightarrow> base \<le> 16 \<Longrightarrow> is_digit base (digit_char n)"
  by (simp add: is_digit_def)

lemma is_digit_mono: "is_digit b c \<Longrightarrow> b \<le> b' \<Longrightarrow> is_digit b' c"
  by (simp add: is_digit_def)

lemma digits_not_Nil [simp]: "digits b n \<noteq> []"
  by (subst digits.simps) simp

lemma digits_are_digits:
  "2 \<le> b \<Longrightarrow> b \<le> 16 \<Longrightarrow> \<forall>c \<in> set (digits b n). is_digit b c"
proof (induction b n rule: digits.induct)
  case (1 b n)
  then show ?case by (auto simp: digits.simps [of b n])
qed

lemma num_value_snoc: "num_value b (ds @ [d]) = num_value b ds * b + digit_val d"
  by (simp add: num_value_def)

lemma num_value_digits: "2 \<le> b \<Longrightarrow> b \<le> 16 \<Longrightarrow> num_value b (digits b n) = n"
proof (induction b n rule: digits.induct)
  case (1 b n)
  show ?case
  proof (cases "n < b")
    case True
    with 1 show ?thesis by (simp add: digits.simps [of b n] num_value_def)
  next
    case False
    with 1 have "n mod b < 16" by (simp add: less_le_trans [OF mod_less_divisor])
    with 1 False show ?thesis
      by (simp add: digits.simps [of b n] num_value_snoc)
  qed
qed

lemma not_digit_sep: "\<not> c_isalnum c \<Longrightarrow> b \<le> 16 \<Longrightarrow> \<not> is_digit b c"
  by (simp add: is_digit_def digit_val_def c_isalnum_def c_isalpha_def)

lemma digit_not_special:
  assumes "is_digit 16 c"
  shows "\<not> c_isspace c" "c \<noteq> CHR ''-''" "c \<noteq> CHR ''+''" "c \<noteq> CHR ''x''" "c \<noteq> CHR ''X''"
    "c \<noteq> CHR '';''" "c \<noteq> NUL" "c \<noteq> NL"
  using assms
  by (auto simp: is_digit_def digit_val_def c_isspace_def c_isdigit_def c_isupper_def
      c_islower_def split: if_splits)

lemma num_stop_digits:
  assumes "num_stop r" "b \<le> 16"
  shows "takeWhile (is_digit b) r = []" "dropWhile (is_digit b) r = r"
  using assms by (cases r; simp add: num_stop_def not_digit_sep)+

lemma skip_0x_digits:
  assumes "\<forall>c \<in> set ds. is_digit 16 c" "num_stop r"
  shows "skip_0x b (ds @ r) = ds @ r"
proof -
  have hd_r: "r \<noteq> [] \<Longrightarrow> hd r \<noteq> CHR ''x'' \<and> hd r \<noteq> CHR ''X'' \<and> hd r \<noteq> CHR ''0''"
    using assms(2)
    by (auto simp: num_stop_def c_isalnum_def c_isalpha_def c_isupper_def c_islower_def
        c_isdigit_def)
  consider "ds = []" | d where "ds = [d]" | d e ds' where "ds = d # e # ds'"
    by (cases ds rule: remdups_adj.cases) auto
  then show ?thesis
  proof cases
    case 1
    with hd_r show ?thesis by (auto simp: skip_0x_def split: list.splits)
  next
    case 2
    with hd_r show ?thesis by (auto simp: skip_0x_def split: list.splits)
  next
    case 3
    with assms(1) have "e \<noteq> CHR ''x''" "e \<noteq> CHR ''X''" using digit_not_special by auto
    with 3 show ?thesis by (auto simp: skip_0x_def split: list.splits)
  qed
qed

lemma scan_num_digits:
  assumes "\<forall>c \<in> set ds. is_digit b c" "ds \<noteq> []" "num_stop r" "b \<le> 16"
  shows "scan_num b (ds @ r) = Some (False, num_value b ds, r)"
proof -
  from assms have all16: "\<forall>c \<in> set ds. is_digit 16 c" by (blast intro: is_digit_mono)
  obtain d ds' where ds: "ds = d # ds'" using assms(2) by (cases ds) auto
  with all16 have d: "is_digit 16 d" by simp
  have "scan_sign (dropWhile c_isspace (ds @ r)) = (False, ds @ r)"
    using ds digit_not_special [OF d] by (simp add: scan_sign_def)
  with assms show ?thesis
    by (simp add: scan_num_def skip_0x_digits [OF all16] num_stop_digits)
qed

lemma scan_num_pr_dec: "num_stop r \<Longrightarrow> scan_num 10 (pr_dec n @ r) = Some (False, n, r)"
  by (simp add: pr_dec_def scan_num_digits digits_are_digits num_value_digits)

lemma scan_num_pr_hex: "num_stop r \<Longrightarrow> scan_num 16 (pr_hex w @ r) = Some (False, unat w, r)"
  by (simp add: pr_hex_def scan_num_digits digits_are_digits num_value_digits)

lemma to_ulong_unat [simp]: "to_ulong False (unat (w :: 64 word)) = w"
  using unat_lt_64 [of w] by (simp add: to_ulong_def)

lemma scan_ul_pr_ul [ctext_simps]: "num_stop r \<Longrightarrow> scan_ul 10 (pr_ul w @ r) = Some (w, r)"
  by (simp add: scan_ul_def pr_ul_def scan_num_pr_dec)

lemma scan_ptr_pr_ptr [ctext_simps]: "num_stop r \<Longrightarrow> scan_ptr (pr_ptr w @ r) = Some (w, r)"
  by (simp add: scan_ptr_def pr_ptr_def scan_lit_def is_prefix_def scan_ul_def scan_num_pr_hex)

lemma scan_u32_pr_u32 [ctext_simps]:
  assumes "num_stop r" shows "scan_u32 10 (pr_u32 w @ r) = Some (w, r)"
proof -
  have "to_ulong False (unat w) = ucast w"
    using unat_lt_32 [of w] by (simp add: to_ulong_def)
  moreover have "ucast (ucast w :: 64 word) = w"
    by (rule bit_word_eqI) (simp add: bit_simps)
  ultimately show ?thesis
    using assms by (simp add: scan_u32_def scan_ul_def pr_u32_def scan_num_pr_dec)
qed

text \<open>Printed numbers contain neither separators nor string ends.\<close>

lemma pr_chars:
  "\<forall>c \<in> set (pr_dec n). is_digit 16 c" "\<forall>c \<in> set (pr_hex w). is_digit 16 c"
  using digits_are_digits [of 10 n] digits_are_digits [of 16 "unat w"]
  by (auto simp: pr_dec_def pr_hex_def intro: is_digit_mono [where b = 10])

definition plain_char :: "char \<Rightarrow> bool" where
  "plain_char c \<longleftrightarrow> c \<noteq> NUL \<and> c \<noteq> NL \<and> c \<noteq> CHR '';''"

lemma pr_plain [ctext_simps]:
  "\<forall>c \<in> set (pr_ul w). plain_char c" "\<forall>c \<in> set (pr_ptr w). plain_char c"
  "\<forall>c \<in> set (pr_u32 v). plain_char c" "\<forall>c \<in> set (pr_dec n). plain_char c"
  using pr_chars(1) [of "unat w"] pr_chars(2) [of w] pr_chars(1) [of "unat v"]
    pr_chars(1) [of n] digit_not_special
  by (auto simp: plain_char_def pr_ul_def pr_ptr_def pr_u32_def)

subsection \<open>Positions of separators\<close>

lemma cstr_append: "\<forall>c \<in> set xs. c \<noteq> NUL \<Longrightarrow> cstr (xs @ ys) = xs @ cstr ys"
  by (simp add: cstr_def)

lemma cstr_NUL [simp]: "cstr (NUL # ys) = []" "cstr [] = []"
  by (simp_all add: cstr_def)

lemma cstr_Cons: "c \<noteq> NUL \<Longrightarrow> cstr (c # ys) = c # cstr ys"
  by (simp add: cstr_def)

lemma cstr_no_NUL: "c \<in> set (cstr xs) \<Longrightarrow> c \<noteq> NUL"
  by (auto simp: cstr_def dest: set_takeWhileD)

lemma strchr_SomeD:
  assumes "strchr buf p c = Some i"
  shows "p \<le> i" "i < length buf" "buf ! i = c" "\<forall>j. p \<le> j \<and> j < i \<longrightarrow> buf ! j \<noteq> c \<and> buf ! j \<noteq> NUL"
proof -
  let ?s = "cstr (drop p buf)"
  from assms obtain k where k: "index_first (\<lambda>x. x = c) ?s = Some k" and i: "i = p + k"
    by (auto simp: strchr_def)
  note K = index_first_SomeD [OF k]
  have len: "length ?s \<le> length buf - p" using length_takeWhile_le [of _ "drop p buf"]
    by (simp add: cstr_def)
  have nth: "?s ! j = buf ! (p + j)" if "j < length ?s" for j
    using that len by (simp add: cstr_def takeWhile_nth)
  show "p \<le> i" using i by simp
  show "i < length buf" using K len i by linarith
  show "buf ! i = c" using K nth [of k] i by simp
  show "\<forall>j. p \<le> j \<and> j < i \<longrightarrow> buf ! j \<noteq> c \<and> buf ! j \<noteq> NUL"
  proof (intro allI impI)
    fix j assume j: "p \<le> j \<and> j < i"
    define m where "m = j - p"
    have m: "m < k" "m < length ?s" "j = p + m" using j i K by (auto simp: m_def)
    have "?s ! m \<noteq> NUL" using m by (metis cstr_no_NUL nth_mem)
    then show "buf ! j \<noteq> c \<and> buf ! j \<noteq> NUL" using K m nth by auto
  qed
qed

lemma strchr_skip:
  assumes "drop p buf = xs @ c # ys" "\<forall>x \<in> set xs. x \<noteq> c \<and> x \<noteq> NUL" "c \<noteq> NUL"
  shows "strchr buf p c = Some (p + length xs)"
  using assms by (simp add: strchr_def cstr_append cstr_Cons index_first_skip)

lemma strchr_None:
  assumes "c \<notin> set (cstr (drop p buf))" shows "strchr buf p c = None"
  using assms by (auto simp: strchr_def index_first_None)

end
