(* ===== verification/Cfgentry.thy ===== *)
theory Cfgentry
  imports CText
begin

text \<open>
  The data of the trainer (\<open>src/src/cfgentry.h\<close>, the runtime part of \<open>src/src/options.h\<close>
  and the queue of \<open>src/src/fifoparser.h\<close>). The program links these objects by raw pointers
  and shares them; here every kind of object lives in a table of the state \<open>world\<close> and a
  pointer is an index into it (\<open>None\<close> is \<open>NULL\<close>). A \<open>value_t\<close> union is its 8 bytes as a
  64-bit word, little endian; a \<open>char *\<close> buffer is the list of its bytes.
\<close>

type_synonym value_t = "64 word"
type_synonym byte = "8 word"

definition MEM_CHUNK :: nat where "MEM_CHUNK = 2048"
definition MAX_CHK_VALS :: nat where "MAX_CHK_VALS = 4"
definition MAX_CSTR :: nat where "MAX_CSTR = 128"

record cache_entry =
  ca_offs :: ptr
  ca_start :: ptr
  ca_data :: "byte list"
  ca_is_dirty :: bool

text \<open>The lists that own cache entries: static memory, stack, a library, a class, a pointer.\<close>

datatype cache_owner = COpt | CStack | CLib nat | CDyn nat | CPtr nat

type_synonym cache_ref = "cache_owner \<times> nat"

record lib_entry =
  l_name :: string
  l_start :: ptr
  l_cache_list :: "cache_entry list"
  l_is_loaded :: bool
  l_skip_val :: bool

record dump_entry =
  u_addr :: ptr
  u_mem_size :: "64 word"
  u_lib_name :: "string option"
  u_lib :: "nat option"

datatype grow_type = GROW_ADD | GROW_MUL

record grow_entry =
  g_size_min :: "64 word"
  g_size_max :: "64 word"
  g_type :: grow_type
  g_add :: u32
  g_code_addr :: ptr
  g_code_offs :: ptr
  g_stack_offs :: ptr
  g_lib :: "string option"

record dyn_essentials =
  e_mem_size :: "64 word"
  e_code_addr :: ptr
  e_code_offs :: ptr
  e_stack_offs :: ptr
  e_lib :: "string option"

record dynmem_entry = dyn_essentials +
  d_name :: string
  d_consts :: "dyn_essentials list"
  d_grow :: "grow_entry option"
  d_cfg_act :: "nat list"
  d_v_maddr :: "ptr list"
  d_v_msize :: "64 word list"
  d_num_alloc :: u32
  d_num_freed :: u32
  d_obj_idx :: u32
  d_pr_idx :: u32
  d_cache_list :: "cache_entry list"
  d_adp_size :: u32
  d_adp_addr :: ptr
  d_cfg_line :: u32

datatype ptr_e = PTR_INIT | PTR_SETTLED | PTR_DONE

record ptrmem_entry =
  p_name :: string
  p_mem_size :: "64 word"
  p_cfg :: "nat list"
  p_cfg_act :: "nat list"
  p_dynmem :: "nat option"
  p_v_state :: "ptr_e list"
  p_v_offs :: "ptr list"
  p_cache_list :: "cache_entry list"

datatype dynval_e = DYN_VAL_OFF | DYN_VAL_MIN | DYN_VAL_MAX | DYN_VAL_ADDR | DYN_VAL_WATCH
  | DYN_VAL_PTR_ONCE | DYN_VAL_PTR_ALWAYS

datatype check_e = CHECK_OFF | CHECK_LT | CHECK_GT | CHECK_EQ | CHECK_END

record val_type =
  t_lib_name :: "string option"
  t_lib :: "nat option"
  t_on_stack :: bool
  t_is_signed :: bool
  t_is_float :: bool
  t_is_cstr :: bool
  t_is_cstrp :: bool
  t_size :: int

text \<open>The size in bytes, as C divides: towards 0.\<close>

definition byte_size :: "int \<Rightarrow> int" where
  "byte_size n = (if n < 0 then - (- n div 8) else n div 8)"

lemma byte_size_pos [simp]: "0 \<le> n \<Longrightarrow> byte_size n = n div 8"
  by (simp add: byte_size_def)

record check_entry =
  k_addr :: ptr
  k_cfg_ref :: "nat option"
  k_is_objcheck :: bool
  k_is_heapchk :: bool
  k_check_obj_num :: bool
  k_type :: val_type
  k_check :: "check_e list"
  k_value :: "value_t list"
  k_cache :: "cache_ref option"
  k_cache_data :: nat

record cfg_entry =
  c_name :: string
  c_addr :: ptr
  c_type :: val_type
  c_check :: check_e
  c_dynval :: dynval_e
  c_val_addr :: ptr
  c_value :: value_t
  c_old_val :: value_t
  c_cstr :: "string option"
  c_val_set :: bool
  c_cfg_ref :: "nat option"
  c_cfg_ref_add :: "64 word"
  c_checks :: "check_entry list"
  c_dynmem :: "nat option"
  c_v_value :: "value_t list"
  c_v_oldval :: "value_t list"
  c_v_cstr :: "string option list"
  c_cache :: "cache_ref option"
  c_cache_data :: nat
  c_ptrmem :: "nat option"
  c_ptrtgt :: "nat option"

text \<open>The queue of allocation messages: \<open>size\<close> is the length of the data.\<close>

record mqueue =
  mq_data :: string
  mq_end :: nat

record world =
  w_cfg :: "cfg_entry list"
  w_cfg_act :: "nat list"
  w_dyn :: "dynmem_entry list"
  w_ptr :: "ptrmem_entry list"
  w_lib :: "lib_entry list"
  w_dump :: "dump_entry list"
  w_cache_list :: "cache_entry list"
  w_stack_cache :: "cache_entry list"
  w_mq :: mqueue
  w_pure_statmem :: bool
  w_val_on_stack :: bool
  w_heap_checks :: bool
  w_code_offs :: ptr
  w_stack_rstart :: ptr
  w_stack_rend :: ptr
  w_stack_end :: ptr
  w_heap_start :: ptr
  w_heap_end :: ptr

subsection \<open>Access through a pointer\<close>

text \<open>Change the object behind a pointer; \<open>None\<close> if the pointer is dangling or the change fails.\<close>

definition mod_cfg :: "nat \<Rightarrow> (cfg_entry \<Rightarrow> cfg_entry option) \<Rightarrow> world \<Rightarrow> world option" where
  "mod_cfg i f w = do {
     c \<leftarrow> vget (w_cfg w) i;
     c' \<leftarrow> f c;
     Some (w\<lparr>w_cfg := (w_cfg w)[i := c']\<rparr>) }"

definition mod_dyn :: "nat \<Rightarrow> (dynmem_entry \<Rightarrow> dynmem_entry option) \<Rightarrow> world \<Rightarrow> world option" where
  "mod_dyn i f w = do {
     d \<leftarrow> vget (w_dyn w) i;
     d' \<leftarrow> f d;
     Some (w\<lparr>w_dyn := (w_dyn w)[i := d']\<rparr>) }"

definition mod_ptr :: "nat \<Rightarrow> (ptrmem_entry \<Rightarrow> ptrmem_entry option) \<Rightarrow> world \<Rightarrow> world option" where
  "mod_ptr i f w = do {
     p \<leftarrow> vget (w_ptr w) i;
     p' \<leftarrow> f p;
     Some (w\<lparr>w_ptr := (w_ptr w)[i := p']\<rparr>) }"

end
