(* ===== verification/Fifoparser.thy ===== *)
theory Fifoparser
  imports CText
begin

unbundle bit_operations_syntax

text \<open>
  The message parser of the FIFO between the preloaded library and the trainer
  (\<open>src/src/fifoparser.cpp\<close>). A character buffer is the list of its bytes; its capacity is
  its length. The callbacks of \<open>struct parse_cb\<close> are functions on a client state \<open>'s\<close>,
  which also holds what the C callbacks reach through \<open>cfg\<close> and \<open>argp\<close>. The local
  variables for the parsed numbers are per message here: with one \<open>pmask\<close> for a whole call
  they are either always assigned before the callback or always 0.
\<close>

definition PARSE_S :: u32 where "PARSE_S = 1"
definition PARSE_C :: u32 where "PARSE_C = 2"
definition PARSE_O :: u32 where "PARSE_O = 4"

record post_parse =
  pp_ibuf :: string
  pp_pos :: nat
  pp_msg_end :: nat

record 's parse_cb =
  cb_mf :: "('s \<Rightarrow> post_parse \<Rightarrow> ptr \<Rightarrow> 64 word \<Rightarrow> ptr \<Rightarrow> ptr \<Rightarrow> ptr \<Rightarrow> 's) option"
  cb_ff :: "('s \<Rightarrow> ptr \<Rightarrow> 's) option"
  cb_lf :: "('s \<Rightarrow> string \<Rightarrow> 's) option"
  cb_sf :: "('s \<Rightarrow> ptr \<Rightarrow> 's) option"

subsection \<open>One message\<close>

text \<open>
  A result \<open>Inl p\<close> is the jump to \<open>parse_err\<close> with \<open>pstart - ibuf = p\<close>. \<open>fbind\<close> continues
  where there was no error.
\<close>

definition fbind :: "'e + 'a \<Rightarrow> ('a \<Rightarrow> 'e + 'b) \<Rightarrow> 'e + 'b" where
  "fbind r f = (case r of Inl e \<Rightarrow> Inl e | Inr a \<Rightarrow> f a)"

lemma fbind_simps [simp]: "fbind (Inl e) f = Inl e" "fbind (Inr a) f = f a"
  by (simp_all add: fbind_def)

text \<open>A field behind the next \<open>;\<close>: its tag character and a number.\<close>

definition parse_field ::
  "string \<Rightarrow> nat \<Rightarrow> char \<Rightarrow> (string \<Rightarrow> ('a \<times> string) option) \<Rightarrow> nat + ('a \<times> nat)" where
  "parse_field buf pstart tag conv =
     (case strchr buf pstart (CHR '';'') of
        None \<Rightarrow> Inl pstart
      | Some sep_pos \<Rightarrow>
          (let p = sep_pos + 1 in
           case cstr (drop p buf) of
             [] \<Rightarrow> Inl p
           | c # _ \<Rightarrow>
               if c \<noteq> tag then Inl p
               else (case conv (cstr (drop (p + 1) buf)) of
                       None \<Rightarrow> Inl (p + 1)
                     | Some (v, _) \<Rightarrow> Inr (v, p + 1))))"

definition opt_field ::
  "bool \<Rightarrow> string \<Rightarrow> nat \<Rightarrow> char \<Rightarrow> (string \<Rightarrow> (64 word \<times> string) option) \<Rightarrow>
     nat + (64 word \<times> nat)" where
  "opt_field wanted buf pstart tag conv =
     (if wanted then parse_field buf pstart tag conv else Inr (0, pstart))"

definition parse_m ::
  "('s \<Rightarrow> post_parse \<Rightarrow> ptr \<Rightarrow> 64 word \<Rightarrow> ptr \<Rightarrow> ptr \<Rightarrow> ptr \<Rightarrow> 's) \<Rightarrow> u32 \<Rightarrow> ptr \<Rightarrow>
     string \<Rightarrow> nat \<Rightarrow> nat \<Rightarrow> 's \<Rightarrow> nat + 's" where
  "parse_m mf pmask code_offs buf pstart msg_end s =
     (case scan_ptr (cstr (drop pstart buf)) of
        None \<Rightarrow> Inl pstart
      | Some (mem_addr, _) \<Rightarrow>
          fbind (opt_field (pmask AND PARSE_S \<noteq> 0) buf pstart (CHR ''s'') (scan_ul 10))
            (\<lambda>(mem_size, p1).
          fbind (opt_field (pmask AND PARSE_C \<noteq> 0) buf p1 (CHR ''c'') scan_ptr)
            (\<lambda>(code_addr, p2).
          fbind (opt_field (pmask AND PARSE_O \<noteq> 0) buf p2 (CHR ''o'') scan_ptr)
            (\<lambda>(stack_offs, p3).
          Inr (mf s \<lparr>pp_ibuf = buf, pp_pos = p3, pp_msg_end = msg_end\<rparr>
                 mem_addr mem_size code_offs code_addr stack_offs)))))"

definition parse_msg ::
  "'s parse_cb option \<Rightarrow> u32 \<Rightarrow> ptr \<Rightarrow> string \<Rightarrow> nat \<Rightarrow> nat \<Rightarrow> 's \<Rightarrow> nat + 's" where
  "parse_msg pcb pmask code_offs buf msg_start msg_end s =
     (case cstr (drop msg_start buf) of
        [] \<Rightarrow> Inl msg_start
      | ch # _ \<Rightarrow>
          let pstart = msg_start + 1 in
          if ch = CHR ''m'' then
            (case Option.bind pcb cb_mf of
               None \<Rightarrow> Inr s
             | Some mf \<Rightarrow> parse_m mf pmask code_offs buf pstart msg_end s)
          else if ch = CHR ''f'' then
            (case Option.bind pcb cb_ff of
               None \<Rightarrow> Inr s
             | Some ff \<Rightarrow>
                 (case scan_ptr (cstr (drop pstart buf)) of
                    None \<Rightarrow> Inl pstart
                  | Some (mem_addr, _) \<Rightarrow> Inr (ff s mem_addr)))
          else if ch = CHR ''l'' then
            (case Option.bind pcb cb_lf of
               None \<Rightarrow> Inr s
             | Some lf \<Rightarrow>
                 if pstart < length buf \<and> buf ! pstart = CHR '';''
                 then Inr (lf s (take (msg_end - (pstart + 1)) (drop (pstart + 1) buf)))
                 else Inl pstart)
          else if ch = CHR ''S'' then
            (case Option.bind pcb cb_sf of
               None \<Rightarrow> Inr s
             | Some sf \<Rightarrow>
                 (case scan_ptr (cstr (drop pstart buf)) of
                    None \<Rightarrow> Inl pstart
                  | Some (stack_end, _) \<Rightarrow>
                      if stack_end = 0 then Inr s else Inr (sf s stack_end)))
          else Inr s)"

subsection \<open>The message loop\<close>

text \<open>
  \<open>Fifo_ok ret ibuf ilen s\<close>: the function returned \<open>ret\<close>. \<open>Fifo_err p ibuf s\<close>: it returned 0
  through \<open>parse_err\<close>, with \<open>*ilen = 0\<close>. \<open>Fifo_undef\<close>: \<open>memmove\<close> or \<open>memset\<close> was called with a
  negative (hence huge) length or beyond the buffer.
\<close>

datatype 's fifo_res = Fifo_ok int string int 's | Fifo_err nat string 's | Fifo_undef

definition zero_front :: "nat \<Rightarrow> string \<Rightarrow> string" where
  "zero_front n buf = replicate n NUL @ drop n buf"

definition parse_error :: "nat \<Rightarrow> string \<Rightarrow> nat \<Rightarrow> 's \<Rightarrow> 's fifo_res" where
  "parse_error p buf tmp_ilen s =
     (if tmp_ilen \<le> length buf then Fifo_err p (zero_front tmp_ilen buf) s else Fifo_undef)"

text \<open>Move the rest of the \<open>n\<close> valid bytes to the front and zero what is behind it.\<close>

definition shift_front :: "nat \<Rightarrow> nat \<Rightarrow> string \<Rightarrow> string" where
  "shift_front t n buf = take (n - t) (drop t buf) @ replicate t NUL @ drop n buf"

function parse_fwd ::
  "'s parse_cb option \<Rightarrow> u32 \<Rightarrow> ptr \<Rightarrow> string \<Rightarrow> int \<Rightarrow> nat \<Rightarrow> 's \<Rightarrow> 's fifo_res" where
  "parse_fwd pcb pmask code_offs ibuf ilen tmp_ilen s =
     (case strchr ibuf 0 NL of
        None \<Rightarrow> Fifo_ok (int tmp_ilen) ibuf ilen s
      | Some msg_end \<Rightarrow>
          (case parse_msg pcb pmask code_offs ibuf 0 msg_end s of
             Inl p \<Rightarrow> parse_error p ibuf tmp_ilen s
           | Inr s' \<Rightarrow>
               (let t = msg_end + 1 in
                if int t \<le> ilen \<and> ilen \<le> int (length ibuf)
                then parse_fwd pcb pmask code_offs (shift_front t (nat ilen) ibuf)
                       (ilen - int t) t s'
                else Fifo_undef)))"
  by pat_completeness auto
termination
  by (relation "measure (\<lambda>(_, _, _, _, ilen, _, _). nat ilen)") auto

declare parse_fwd.simps [simp del]

text \<open>
  The reverse direction takes the message behind the last but one newline; the message is
  zeroed in place, so the visible string gets shorter in every round.
\<close>

lemma cstr_before_NUL: "length (cstr (xs @ NUL # ys)) \<le> length xs"
  by (induction xs) (auto simp: cstr_def)

lemma cstr_shorter: "length (cstr (take i buf @ NUL # ys)) \<le> i"
  using cstr_before_NUL [of "take i buf" ys] by simp

definition rev_msg_bounds :: "string \<Rightarrow> (nat \<times> nat) option" where
  "rev_msg_bounds ibuf =
     (case strrchr ibuf NL of
        None \<Rightarrow> None
      | Some msg_end \<Rightarrow>
          (case strrchr (ibuf[msg_end := NUL]) NL of
             None \<Rightarrow> None
           | Some m \<Rightarrow> Some (m + 1, msg_end)))"

definition zero_msg :: "nat \<Rightarrow> nat \<Rightarrow> string \<Rightarrow> string" where
  "zero_msg msg_start t buf =
     take msg_start buf @ replicate t NUL @ drop (msg_start + t) buf"

lemma cstr_upd_le: "length (cstr (buf[i := NUL])) \<le> length (cstr buf)"
  by (induction buf arbitrary: i) (auto simp: cstr_def split: nat.splits)

lemma strrchr_SomeD:
  assumes "strrchr buf c = Some i"
  shows "i < length (cstr buf)" "i < length buf" "buf ! i = c"
    "\<forall>j. i < j \<and> j < length (cstr buf) \<longrightarrow> buf ! j \<noteq> c"
proof -
  from assms have ix: "index_last (\<lambda>x. x = c) (cstr buf) = Some i" by (simp add: strrchr_def)
  note I = index_last_SomeD [OF ix]
  have le: "length (cstr buf) \<le> length buf" by (simp add: cstr_def length_takeWhile_le)
  have nth: "cstr buf ! j = buf ! j" if "j < length (cstr buf)" for j
    using that by (simp add: cstr_def takeWhile_nth)
  show "i < length (cstr buf)" using I by simp
  then show "i < length buf" using le by simp
  show "buf ! i = c" using I nth [of i] by simp
  show "\<forall>j. i < j \<and> j < length (cstr buf) \<longrightarrow> buf ! j \<noteq> c" using I nth by auto
qed

lemma rev_msg_boundsD:
  assumes "rev_msg_bounds ibuf = Some (a, b)"
  shows "0 < a" "a \<le> b" "b < length (cstr ibuf)"
proof -
  from assms obtain m where b: "strrchr ibuf NL = Some b"
    and m: "strrchr (ibuf[b := NUL]) NL = Some m" and a: "a = m + 1"
    by (auto simp: rev_msg_bounds_def split: option.splits)
  show "0 < a" using a by simp
  show "b < length (cstr ibuf)" using strrchr_SomeD [OF b] by simp
  have "length (cstr (ibuf[b := NUL])) \<le> b"
    using cstr_shorter [of b ibuf "drop (Suc b) ibuf"] strrchr_SomeD(2) [OF b]
    by (simp add: upd_conv_take_nth_drop)
  with strrchr_SomeD(1) [OF m] a show "a \<le> b" by linarith
qed

function parse_rev ::
  "'s parse_cb option \<Rightarrow> u32 \<Rightarrow> ptr \<Rightarrow> string \<Rightarrow> int \<Rightarrow> nat \<Rightarrow> 's \<Rightarrow> 's fifo_res" where
  "parse_rev pcb pmask code_offs ibuf ilen tmp_ilen s =
     (case rev_msg_bounds ibuf of
        None \<Rightarrow> Fifo_ok (int tmp_ilen) ibuf ilen s
      | Some (msg_start, msg_end) \<Rightarrow>
          (let ibuf1 = ibuf[msg_end := NUL] in
           case parse_msg pcb pmask code_offs ibuf1 msg_start msg_end s of
             Inl p \<Rightarrow> parse_error p ibuf1 tmp_ilen s
           | Inr s' \<Rightarrow>
               (let t = msg_end - msg_start + 1
                in parse_rev pcb pmask code_offs (zero_msg msg_start t ibuf1)
                     (ilen - int t) t s')))"
  by pat_completeness auto
termination
proof (relation "measure (\<lambda>(_, _, _, ibuf, _, _, _). length (cstr ibuf))")
  fix ibuf :: string and x msg_start msg_end ibuf1 y t
  assume "rev_msg_bounds ibuf = Some x" "(msg_start, msg_end) = x"
    and i1: "ibuf1 = ibuf[msg_end := NUL]"
    and t: "t = msg_end - msg_start + 1"
  then have b: "rev_msg_bounds ibuf = Some (msg_start, msg_end)" by simp
  note B = rev_msg_boundsD [OF b]
  have len: "length (cstr ibuf) \<le> length ibuf" by (simp add: cstr_def length_takeWhile_le)
  have "zero_msg msg_start t ibuf1 =
    take msg_start ibuf @ NUL # replicate (msg_end - msg_start) NUL @ drop (msg_start + t) ibuf1"
    using i1 t B by (simp add: zero_msg_def)
  moreover have "msg_start < length (cstr ibuf)" using B by linarith
  ultimately have "length (cstr (zero_msg msg_start t ibuf1)) \<le> msg_start"
    by (metis cstr_shorter)
  with \<open>msg_start < length (cstr ibuf)\<close>
  have "length (cstr (zero_msg msg_start t ibuf1)) < length (cstr ibuf)" by linarith
  then show "((pcb :: 's parse_cb option, pmask :: u32, code_offs :: ptr,
      zero_msg msg_start t ibuf1, ilen - int t, t, s' :: 's),
    (pcb, pmask, code_offs, ibuf, ilen, tmp_ilen, s)) \<in>
      measure (\<lambda>(_, _, _, ibuf, _, _, _). length (cstr ibuf))" for pcb pmask code_offs ilen s' tmp_ilen s
    by simp
qed simp

declare parse_rev.simps [simp del]

definition parse_dynmem_buf ::
  "'s parse_cb option \<Rightarrow> u32 \<Rightarrow> bool \<Rightarrow> ptr \<Rightarrow> string \<Rightarrow> int \<Rightarrow> nat \<Rightarrow> 's \<Rightarrow> 's fifo_res" where
  "parse_dynmem_buf pcb pmask reverse code_offs ibuf ilen tmp_ilen s =
     (if reverse then parse_rev pcb pmask code_offs ibuf (ilen + int tmp_ilen) tmp_ilen s
      else parse_fwd pcb pmask code_offs ibuf (ilen + int tmp_ilen) tmp_ilen s)"

subsection \<open>Reading from the FIFO and from the discovery file\<close>

text \<open>
  The static variables of \<open>read_dynmem_buf\<close>, and an open file or FIFO: its bytes and the
  position of the next \<open>read\<close>. For a FIFO the bytes are those that have been written so far,
  so that an empty rest is a \<open>read\<close> that returns 0 or -1.
\<close>

record fifo_static =
  fs_ilen :: int
  fs_ibuf :: string
  fs_offs :: int

record ffile =
  f_data :: string
  f_pos :: nat

definition PIPE_BUF :: nat where "PIPE_BUF = 4096"
definition REVERSE_FST :: int where "REVERSE_FST = - 2"
definition REVERSE_EOF :: int where "REVERSE_EOF = - 3"

definition fifo_static_init :: fifo_static where
  "fifo_static_init = \<lparr>fs_ilen = 0, fs_ibuf = replicate PIPE_BUF NUL, fs_offs = REVERSE_FST\<rparr>"

definition f_read :: "nat \<Rightarrow> ffile \<Rightarrow> string \<times> ffile" where
  "f_read n f = (let bs = take n (drop (f_pos f) (f_data f))
                 in (bs, f\<lparr>f_pos := f_pos f + length bs\<rparr>))"

definition overwrite :: "string \<Rightarrow> nat \<Rightarrow> string \<Rightarrow> string" where
  "overwrite buf p bs = take p buf @ bs @ drop (p + length bs) buf"

type_synonym 's read_res = "(int \<times> fifo_static \<times> ffile \<times> 's) option"

definition read_finish :: "fifo_static \<Rightarrow> ffile \<Rightarrow> 's fifo_res \<Rightarrow> 's read_res" where
  "read_finish st f r =
     (case r of
        Fifo_ok ret ibuf ilen s \<Rightarrow> Some (ret, st\<lparr>fs_ibuf := ibuf, fs_ilen := ilen\<rparr>, f, s)
      | Fifo_err p ibuf s \<Rightarrow> Some (0, st\<lparr>fs_ibuf := ibuf, fs_ilen := 0\<rparr>, f, s)
      | Fifo_undef \<Rightarrow> None)"

definition read_fwd ::
  "'s parse_cb option \<Rightarrow> u32 \<Rightarrow> ptr \<Rightarrow> fifo_static \<Rightarrow> ffile \<Rightarrow> 's \<Rightarrow> 's read_res" where
  "read_fwd pcb pmask code_offs st f s =
     (let max_read = length (fs_ibuf st) - 1 - nat (fs_ilen st);
          (bs, f') = f_read max_read f
      in if bs = [] then Some (- 1, st, f', s)
         else read_finish st f'
                (parse_dynmem_buf pcb pmask False code_offs
                   (overwrite (fs_ibuf st) (nat (fs_ilen st)) bs) (fs_ilen st) (length bs) s))"

text \<open>The local label \<open>parse_err\<close> of \<open>read_dynmem_buf\<close>: clear everything, return 0.\<close>

definition read_err :: "fifo_static \<Rightarrow> ffile \<Rightarrow> 's \<Rightarrow> 's read_res" where
  "read_err st f s =
     Some (0, st\<lparr>fs_ibuf := replicate (length (fs_ibuf st)) NUL, fs_ilen := 0\<rparr>, f, s)"

text \<open>
  First call in reverse direction: the stack end is the first line of the file. \<open>Inl\<close> is a
  return, \<open>Inr\<close> goes on with the file offset set to the end of the file.
\<close>

definition rev_first ::
  "'s parse_cb option \<Rightarrow> bool \<Rightarrow> nat \<Rightarrow> fifo_static \<Rightarrow> ffile \<Rightarrow> 's \<Rightarrow>
     's read_res + (fifo_static \<times> ffile \<times> 's)" where
  "rev_first pcb argp max_read st f s =
     (let (bs, f') = f_read max_read f;
          ibuf = overwrite (fs_ibuf st) 0 bs;
          st' = st\<lparr>fs_ibuf := ibuf\<rparr>;
          cont = (\<lambda>stack_end.
            Inr (st\<lparr>fs_ibuf := zero_front (length bs) ibuf, fs_offs := int (length (f_data f'))\<rparr>,
                 f'\<lparr>f_pos := length (f_data f')\<rparr>,
                 (case Option.bind pcb cb_sf of
                    Some sf \<Rightarrow> if stack_end = 0 then s else sf s stack_end
                  | None \<Rightarrow> s)))
      in if bs = [] \<and> argp then Inl (Some (- 1, st', f', s))
         else case cstr ibuf of
                [] \<Rightarrow> Inl (read_err st' f' s)
              | ch # r \<Rightarrow>
                  if ch = CHR ''S''
                  then (case scan_ptr r of
                          None \<Rightarrow> Inl (read_err st' f' s)
                        | Some (stack_end, _) \<Rightarrow> cont stack_end)
                  else cont 0)"

definition rev_next ::
  "'s parse_cb option \<Rightarrow> u32 \<Rightarrow> ptr \<Rightarrow> nat \<Rightarrow> fifo_static \<Rightarrow> ffile \<Rightarrow> 's \<Rightarrow> 's read_res" where
  "rev_next pcb pmask code_offs max_read0 st f s =
     (if fs_offs st \<le> 0 then Some (- 1, st, f, s)
      else
        let uoffs = nat (fs_offs st mod 2 ^ 32);
            more = max_read0 < uoffs;
            max_read = (if more then max_read0 else uoffs);
            pos = (if more then nat (fs_offs st) - max_read0 else 0);
            st1 = st\<lparr>fs_offs := if more then int pos else REVERSE_EOF\<rparr>;
            ilen = nat (fs_ilen st);
            ibuf1 = (if fs_ilen st = 0 then fs_ibuf st
                     else overwrite (fs_ibuf st) max_read (take ilen (fs_ibuf st)));
            (bs, f') = f_read max_read (f\<lparr>f_pos := pos\<rparr>);
            ibuf2 = overwrite ibuf1 0 bs
        in if bs = [] then Some (- 1, st1\<lparr>fs_ibuf := ibuf1\<rparr>, f', s)
           else read_finish st1 f'
                  (parse_dynmem_buf pcb pmask True code_offs ibuf2 (fs_ilen st) (length bs) s))"

text \<open>
  A negative or too large \<open>ilen\<close> makes \<open>max_read\<close> wrap around: \<open>read\<close> would write beyond the
  buffer (\<open>None\<close>).
\<close>

definition read_dynmem_buf ::
  "'s parse_cb option \<Rightarrow> bool \<Rightarrow> u32 \<Rightarrow> bool \<Rightarrow> ptr \<Rightarrow> fifo_static \<Rightarrow> ffile \<Rightarrow> 's \<Rightarrow>
     's read_res" where
  "read_dynmem_buf pcb argp pmask reverse code_offs st f s =
     (if fs_ilen st < 0 \<or> int (length (fs_ibuf st)) - 1 < fs_ilen st then None
      else
        let max_read = length (fs_ibuf st) - 1 - nat (fs_ilen st)
        in if \<not> reverse then read_fwd pcb pmask code_offs st f s
           else if fs_offs st = REVERSE_FST
           then (case rev_first pcb argp max_read st f s of
                   Inl r \<Rightarrow> r
                 | Inr (st', f', s') \<Rightarrow> rev_next pcb pmask code_offs max_read st' f' s')
           else rev_next pcb pmask code_offs max_read st f s)"

subsection \<open>The messages of the protocol\<close>

text \<open>
  The messages that libmemhack sends, and their text: an allocation with size and code
  address, a release, a loaded library and the end of the stack.
\<close>

datatype msg = MMalloc ptr "64 word" ptr | MFree ptr | MLib string | MStack ptr

fun msg_body :: "msg \<Rightarrow> string" where
  "msg_body (MMalloc a n c) = ''m'' @ pr_ptr a @ '';s'' @ pr_ul n @ '';c'' @ pr_ptr c"
| "msg_body (MFree a) = ''f'' @ pr_ptr a"
| "msg_body (MLib name) = ''l;'' @ name"
| "msg_body (MStack a) = ''S'' @ pr_ptr a"

definition render :: "msg \<Rightarrow> string" where "render m = msg_body m @ [NL]"

fun wf_msg :: "msg \<Rightarrow> bool" where
  "wf_msg (MLib name) \<longleftrightarrow> (\<forall>c \<in> set name. c \<noteq> NUL \<and> c \<noteq> NL)"
| "wf_msg (MStack a) \<longleftrightarrow> a \<noteq> 0"
| "wf_msg _ \<longleftrightarrow> True"

lemma pr_safe:
  "c \<in> set (pr_ptr a) \<Longrightarrow> c \<noteq> NUL \<and> c \<noteq> NL" "c \<in> set (pr_ul n) \<Longrightarrow> c \<noteq> NUL \<and> c \<noteq> NL"
  using pr_plain(2) [of a] pr_plain(1) [of n] by (simp_all add: plain_char_def)

lemma msg_body_chars: "wf_msg m \<Longrightarrow> c \<in> set (msg_body m) \<Longrightarrow> c \<noteq> NUL \<and> c \<noteq> NL"
  by (cases m) (auto dest: pr_safe)

lemma parse_field_at:
  assumes "drop p buf = xs @ CHR '';'' # tag # body" "\<forall>c \<in> set xs. plain_char c"
    "tag \<noteq> NUL" "conv (cstr body) = Some (v, r)"
  shows "parse_field buf p tag conv = Inr (v, p + length xs + 2)"
proof -
  have sep: "strchr buf p (CHR '';'') = Some (p + length xs)"
    using assms(1,2) by (intro strchr_skip) (auto simp: plain_char_def)
  have "drop (p + length xs + 1) buf = drop (length xs + 1) (drop p buf)" by (simp add: add.commute)
  then have d1: "drop (p + length xs + 1) buf = tag # body" by (simp add: assms(1))
  have "drop (p + length xs + 2) buf = drop (length xs + 2) (drop p buf)" by (simp add: add.commute)
  then have d2: "drop (p + length xs + 2) buf = body" by (simp add: assms(1))
  have d2': "drop (Suc (Suc (p + length xs))) buf = body" using d2 by simp
  show ?thesis
    using d1 d2' assms(3,4) by (simp add: parse_field_def sep Let_def cstr_Cons del: drop_drop)
qed

end
