(* ===== verification/Memmgmt.thy ===== *)
theory Memmgmt
  imports Cfgentry Fifoparser
begin

text \<open>
  Allocation and freeing of objects and values (\<open>src/src/memmgmt.cpp\<close>). Every operation is a
  function on the \<open>world\<close>; \<open>None\<close> is an access outside a vector or a buffer. Index
  variables are unbounded here (in the code \<open>u32\<close>; a vector never has \<open>2 ^ 32\<close> elements).
  The printed reports are not part of the state and are left out, so the flag
  \<open>process_kicked\<close> of \<open>free_dynmem\<close>, which only selects a report, is too.
\<close>

subsection \<open>Values per object\<close>

text \<open>Push the default old value, the wish value and a C string buffer for one more object.\<close>

definition push_val :: "cfg_entry \<Rightarrow> cfg_entry" where
  "push_val c = c\<lparr>
     c_v_oldval := c_v_oldval c @ [0],
     c_v_value := c_v_value c @ [c_value c],
     c_v_cstr := c_v_cstr c @
       [if t_is_cstrp (c_type c) \<or> t_is_cstr (c_type c)
        then Some (replicate (MAX_CSTR + 1) NUL) else None]\<rparr>"

definition push_ptr :: "ptrmem_entry \<Rightarrow> ptrmem_entry" where
  "push_ptr p = p\<lparr>p_v_state := p_v_state p @ [PTR_INIT], p_v_offs := p_v_offs p @ [0]\<rparr>"

definition alloc_ptrmem :: "nat \<Rightarrow> world \<Rightarrow> world option" where
  "alloc_ptrmem pi w = do {
     p \<leftarrow> vget (w_ptr w) pi;
     w1 \<leftarrow> mod_ptr pi (\<lambda>p. Some (push_ptr p)) w;
     fold_opt (\<lambda>k. mod_cfg k (\<lambda>c. Some (push_val c))) (p_cfg p) w1 }"

definition alloc_obj :: "nat \<Rightarrow> nat \<Rightarrow> world \<Rightarrow> world option" where
  "alloc_obj ci mem_idx w = do {
     c \<leftarrow> vget (w_cfg w) ci;
     if length (c_v_oldval c) \<le> mem_idx then do {
       w1 \<leftarrow> mod_cfg ci (\<lambda>c. Some (push_val c)) w;
       case c_ptrtgt c of None \<Rightarrow> Some w1 | Some pi \<Rightarrow> alloc_ptrmem pi w1 }
     else Some w }"

definition alloc_cfg :: "nat \<Rightarrow> world \<Rightarrow> world option" where
  "alloc_cfg ci w = do {
     c \<leftarrow> vget (w_cfg w) ci;
     case c_dynmem c of
       None \<Rightarrow> Some w
     | Some di \<Rightarrow> do {
         d \<leftarrow> vget (w_dyn w) di;
         fold_opt (alloc_obj ci) [0..<length (d_v_maddr d)] w } }"

definition alloc_dynmem :: "world \<Rightarrow> world option" where
  "alloc_dynmem w = fold_opt alloc_cfg [0..<length (w_cfg w)] w"

definition erase_val :: "nat \<Rightarrow> cfg_entry \<Rightarrow> cfg_entry option" where
  "erase_val idx c = do {
     ov \<leftarrow> verase (c_v_oldval c) idx;
     va \<leftarrow> verase (c_v_value c) idx;
     _ \<leftarrow> vget (c_v_cstr c) idx;
     cs \<leftarrow> verase (c_v_cstr c) idx;
     Some (c\<lparr>c_v_oldval := ov, c_v_value := va, c_v_cstr := cs\<rparr>) }"

definition erase_ptr :: "nat \<Rightarrow> ptrmem_entry \<Rightarrow> ptrmem_entry option" where
  "erase_ptr idx p = do {
     st \<leftarrow> verase (p_v_state p) idx;
     os \<leftarrow> verase (p_v_offs p) idx;
     Some (p\<lparr>p_v_state := st, p_v_offs := os\<rparr>) }"

definition free_ptrmem :: "nat \<Rightarrow> nat \<Rightarrow> world \<Rightarrow> world option" where
  "free_ptrmem pi idx w = do {
     p \<leftarrow> vget (w_ptr w) pi;
     w1 \<leftarrow> mod_ptr pi (erase_ptr idx) w;
     fold_opt (\<lambda>k. mod_cfg k (erase_val idx)) (p_cfg p) w1 }"

text \<open>
  The first loop of \<open>free_dynmem\<close> for one config entry: it walks over the addresses of the
  class; \<open>ov_idx\<close> stays where a value has been erased.
\<close>

primrec free_vals :: "nat \<Rightarrow> ptr list \<Rightarrow> nat \<Rightarrow> world \<Rightarrow> world option" where
  "free_vals ci [] ov_idx w = Some w"
| "free_vals ci (a # mvec) ov_idx w = do {
     c \<leftarrow> vget (w_cfg w) ci;
     if ov_idx < length (c_v_oldval c) then
       (if a = 0 then do {
          w1 \<leftarrow> mod_cfg ci (erase_val ov_idx) w;
          w2 \<leftarrow> (case c_ptrtgt c of None \<Rightarrow> Some w1 | Some pi \<Rightarrow> free_ptrmem pi ov_idx w1);
          free_vals ci mvec ov_idx w2 }
        else free_vals ci mvec (ov_idx + 1) w)
     else Some w }"

definition free_cfg :: "nat \<Rightarrow> world \<Rightarrow> world option" where
  "free_cfg ci w = do {
     c \<leftarrow> vget (w_cfg w) ci;
     case c_dynmem c of
       None \<Rightarrow> Some w
     | Some di \<Rightarrow> do { d \<leftarrow> vget (w_dyn w) di; free_vals ci (d_v_maddr d) 0 w } }"

text \<open>The second loop: erase the addresses that are 0, and their sizes.\<close>

function purge :: "nat \<Rightarrow> ptr list \<Rightarrow> 64 word list \<Rightarrow> (ptr list \<times> 64 word list) option" where
  "purge mem_idx mvec svec =
     (if mem_idx < length mvec then
        (if mvec ! mem_idx = 0 then
           (case verase svec mem_idx of
              None \<Rightarrow> None
            | Some svec' \<Rightarrow> purge mem_idx (take mem_idx mvec @ drop (Suc mem_idx) mvec) svec')
         else purge (mem_idx + 1) mvec svec)
      else Some (mvec, svec))"
  by pat_completeness auto
termination
  by (relation "measure (\<lambda>(i, m, s). length m - i)") auto

declare purge.simps [simp del]

definition purge_dyn :: "dynmem_entry \<Rightarrow> dynmem_entry option" where
  "purge_dyn d = do {
     (m, s) \<leftarrow> purge 0 (d_v_maddr d) (d_v_msize d);
     Some (d\<lparr>d_v_maddr := m, d_v_msize := s, d_num_freed := 0\<rparr>) }"

text \<open>
  The loops over the classes visit a class once per run of config entries that belong to it
  (\<open>dynmem == old_dynmem\<close>): the list of the classes in visiting order.
\<close>

fun dyn_visits :: "nat option \<Rightarrow> cfg_entry list \<Rightarrow> nat list" where
  "dyn_visits old [] = []"
| "dyn_visits old (c # cs) =
     (case c_dynmem c of
        None \<Rightarrow> dyn_visits old cs
      | Some di \<Rightarrow> if old = Some di then dyn_visits old cs else di # dyn_visits (Some di) cs)"

definition free_dynmem :: "world \<Rightarrow> world option" where
  "free_dynmem w = do {
     w1 \<leftarrow> fold_opt free_cfg [0..<length (w_cfg w)] w;
     fold_opt (\<lambda>di. mod_dyn di purge_dyn) (dyn_visits None (w_cfg w1)) w1 }"

text \<open>
  The counters reset by \<open>output_dynmem_changes\<close>; \<open>fails di\<close>: the stream is broken after the
  report about class \<open>di\<close>, which ends the function with -1.
\<close>

primrec output_dynmem_loop :: "(nat \<Rightarrow> bool) \<Rightarrow> nat list \<Rightarrow> world \<Rightarrow> (int \<times> world) option" where
  "output_dynmem_loop fails [] w = Some (0, w)"
| "output_dynmem_loop fails (di # dis) w =
     (if fails di then Some (- 1, w)
      else mod_dyn di (\<lambda>d. Some (d\<lparr>d_num_alloc := 0\<rparr>)) w \<bind> output_dynmem_loop fails dis)"

definition output_dynmem_changes :: "(nat \<Rightarrow> bool) \<Rightarrow> world \<Rightarrow> (int \<times> world) option" where
  "output_dynmem_changes fails w = output_dynmem_loop fails (dyn_visits None (w_cfg w)) w"

definition find_addr_idx :: "ptr list \<Rightarrow> ptr \<Rightarrow> nat option" where
  "find_addr_idx vec addr = index_first (\<lambda>a. a = addr) vec"

subsection \<open>The malloc queue\<close>

text \<open>
  \<open>remove_malloc_from_queue\<close> from a message start \<open>pstart - 1\<close> on. \<open>None\<close>: \<open>memmove\<close> with a
  negative length or beyond the buffer. The flag of the result is \<open>ret == 0\<close>.
\<close>

function rm_malloc_from :: "ptr \<Rightarrow> nat \<Rightarrow> mqueue \<Rightarrow> (bool \<times> mqueue) option" where
  "rm_malloc_from free_addr pstart mq =
     (case strchr (mq_data mq) pstart NL of
        None \<Rightarrow> Some (False, mq)
      | Some nl \<Rightarrow>
          (let msg_end = nl + 1 in
           case scan_ptr (cstr (drop pstart (mq_data mq))) of
             None \<Rightarrow> Some (False, mq)
           | Some (malloc_addr, _) \<Rightarrow>
               if malloc_addr = free_addr then
                 (let p = pstart - 1; len = int (mq_end mq) - int msg_end + 1 in
                  if int (mq_end mq) \<le> len then Some (False, mq)
                  else if len < 0 \<or> int (length (mq_data mq)) < int msg_end + len then None
                  else Some (True, mq\<lparr>
                    mq_data := overwrite (mq_data mq) p
                                 (take (nat len) (drop msg_end (mq_data mq))),
                    mq_end := mq_end mq - (msg_end - p)\<rparr>))
               else if mq_end mq \<le> msg_end + 1 then Some (False, mq)
               else rm_malloc_from free_addr (msg_end + 1) mq))"
  by pat_completeness auto
termination
proof (relation "measure (\<lambda>(_, pstart, mq). length (mq_data mq) - pstart)", goal_cases)
  case (2 free_addr pstart mq nl msg_end a malloc_addr r)
  from strchr_SomeD(1,2) [OF 2(1)] 2(2) show ?case by simp
qed simp

declare rm_malloc_from.simps [simp del]

definition remove_malloc_from_queue :: "mqueue \<Rightarrow> ptr \<Rightarrow> (bool \<times> mqueue) option" where
  "remove_malloc_from_queue mq free_addr =
     (if mq_end mq = 0 then Some (False, mq) else rm_malloc_from free_addr 1 mq)"

text \<open>
  \<open>snprintf (buf + p, n, "%s", str)\<close> with \<open>n\<close> the rest of the buffer: at most \<open>n - 1\<close>
  characters and a terminating NUL.
\<close>

definition snprintf_s :: "string \<Rightarrow> nat \<Rightarrow> string \<Rightarrow> string" where
  "snprintf_s buf p str =
     (if p < length buf then overwrite buf p (take (length buf - p - 1) str @ [NUL]) else buf)"

definition queue_msg :: "string \<Rightarrow> mqueue \<Rightarrow> mqueue option" where
  "queue_msg str mq =
     (let n = length (mq_data mq) - mq_end mq;
          np = length str;
          data = snprintf_s (mq_data mq) (mq_end mq) str
      in if int n - 1 < int np
         then do { data' \<leftarrow> vset data (mq_end mq + 1) NUL; Some (mq\<lparr>mq_data := data'\<rparr>) }
         else Some (mq\<lparr>mq_data := data, mq_end := mq_end mq + np\<rparr>))"

definition queue_dynmem_addr ::
  "post_parse \<Rightarrow> ptr \<Rightarrow> 64 word \<Rightarrow> ptr \<Rightarrow> ptr \<Rightarrow> ptr \<Rightarrow> world \<Rightarrow> world option" where
  "queue_dynmem_addr pp mem_addr mem_size code_offs code_addr stack_offs w =
     (if pp_msg_end pp + 1 < length (pp_ibuf pp)
      then do { mq \<leftarrow> queue_msg (cstr (take (pp_msg_end pp + 1) (pp_ibuf pp))) (w_mq w);
                Some (w\<lparr>w_mq := mq\<rparr>) }
      else None)"

subsection \<open>Callbacks on the object tables\<close>

primrec clear_addr_in :: "ptr \<Rightarrow> cfg_entry list \<Rightarrow> world \<Rightarrow> world option" where
  "clear_addr_in mem_addr [] w = Some w"
| "clear_addr_in mem_addr (c # cs) w =
     (case c_dynmem c of
        None \<Rightarrow> clear_addr_in mem_addr cs w
      | Some di \<Rightarrow> do {
          d \<leftarrow> vget (w_dyn w) di;
          case find_addr_idx (d_v_maddr d) mem_addr of
            None \<Rightarrow> clear_addr_in mem_addr cs w
          | Some idx \<Rightarrow>
              mod_dyn di (\<lambda>d. do {
                m \<leftarrow> vset (d_v_maddr d) idx 0;
                s \<leftarrow> vset (d_v_msize d) idx 0;
                Some (d\<lparr>d_v_maddr := m, d_v_msize := s, d_num_freed := d_num_freed d + 1\<rparr>) }) w })"

definition clear_dynmem_addr :: "ptr \<Rightarrow> world \<Rightarrow> world option" where
  "clear_dynmem_addr mem_addr w = do {
     (found, mq) \<leftarrow> remove_malloc_from_queue (w_mq w) mem_addr;
     if found then Some (w\<lparr>w_mq := mq\<rparr>) else clear_addr_in mem_addr (w_cfg w) w }"

text \<open>Which class an allocation from \<open>code_addr\<close> belongs to.\<close>

definition dyn_matches :: "dynmem_entry \<Rightarrow> ptr \<Rightarrow> bool" where
  "dyn_matches d code_addr =
     (case d_grow d of
        Some grow \<Rightarrow> e_code_addr d = code_addr \<or> g_code_addr grow = code_addr
      | None \<Rightarrow> e_code_addr d = code_addr \<or>
          list_ex (\<lambda>es. e_code_addr es = code_addr) (d_consts d))"

primrec alloc_addr_in :: "ptr \<Rightarrow> 64 word \<Rightarrow> ptr \<Rightarrow> cfg_entry list \<Rightarrow> world \<Rightarrow> world option" where
  "alloc_addr_in mem_addr mem_size code_addr [] w = Some w"
| "alloc_addr_in mem_addr mem_size code_addr (c # cs) w =
     (case c_dynmem c of
        None \<Rightarrow> alloc_addr_in mem_addr mem_size code_addr cs w
      | Some di \<Rightarrow> do {
          d \<leftarrow> vget (w_dyn w) di;
          if dyn_matches d code_addr
          then mod_dyn di (\<lambda>d. Some (d\<lparr>
                 d_v_maddr := d_v_maddr d @ [mem_addr],
                 d_v_msize := d_v_msize d @ [mem_size],
                 d_num_alloc := d_num_alloc d + 1\<rparr>)) w
          else alloc_addr_in mem_addr mem_size code_addr cs w })"

definition alloc_dynmem_addr ::
  "ptr \<Rightarrow> 64 word \<Rightarrow> ptr \<Rightarrow> ptr \<Rightarrow> ptr \<Rightarrow> world \<Rightarrow> world option" where
  "alloc_dynmem_addr mem_addr mem_size code_offs code_addr stack_offs w =
     alloc_addr_in mem_addr mem_size code_addr (w_cfg w) w"

text \<open>
  \<open>process_mallocs\<close> (\<open>src/src/ugtrain.cpp\<close>): parse the queue with \<open>alloc_dynmem_addr\<close> as the
  only callback, then empty it.
\<close>

definition mallocs_cb :: "world option parse_cb" where
  "mallocs_cb = \<lparr>cb_mf = Some (\<lambda>s pp a n co ca so. s \<bind> alloc_dynmem_addr a n co ca so),
                 cb_ff = None, cb_lf = None, cb_sf = None\<rparr>"

definition mq_reset :: "mqueue \<Rightarrow> mqueue" where
  "mq_reset mq = mq\<lparr>mq_end := 0, mq_data := replicate (length (mq_data mq)) NUL\<rparr>"

definition process_mallocs :: "u32 \<Rightarrow> world \<Rightarrow> world option" where
  "process_mallocs pmask w =
     (case parse_dynmem_buf (Some mallocs_cb) pmask False 0 (mq_data (w_mq w)) 0
             (mq_end (w_mq w)) (Some w) of
        Fifo_ok _ _ _ s \<Rightarrow> s \<bind> (\<lambda>w'. Some (w'\<lparr>w_mq := mq_reset (w_mq w')\<rparr>))
      | Fifo_err _ _ s \<Rightarrow> s \<bind> (\<lambda>w'. Some (w'\<lparr>w_mq := mq_reset (w_mq w')\<rparr>))
      | Fifo_undef \<Rightarrow> None)"

end
