(* ===== verification/Maps.thy ===== *)
theory Maps
  imports CText
begin

text \<open>
  The memory regions of a process (\<open>src/src/lib/maps_l.c\<close>, \<open>src/src/lib/maps.h\<close>): parsing
  \<open>/proc/$pid/maps\<close>, finding the regions that belong to one ELF file, and the stack end from
  \<open>/proc/$pid/stat\<close>. The contents of these files are arguments; \<open>calloc\<close> is taken to succeed.
  The list of regions is a HOL list here, \<open>Clist\<close> shows that the intrusive list is one.
\<close>

definition MAPS_MAX_PATH :: nat where "MAPS_MAX_PATH = 256"

record region_map =
  rm_start :: "64 word"
  rm_end :: "64 word"
  rm_read :: char
  rm_write :: char
  rm_exec :: char
  rm_cow :: char
  rm_file_path :: string

datatype region_type = REGION_TYPE_MISC | REGION_TYPE_CODE | REGION_TYPE_EXE
  | REGION_TYPE_HEAP | REGION_TYPE_STACK

record region =
  rg_start :: "64 word"
  rg_size :: "64 word"
  rg_type :: region_type
  rg_load_addr :: "64 word"
  rg_read :: bool
  rg_write :: bool
  rg_exec :: bool
  rg_shared :: bool
  rg_priv :: bool
  rg_id :: u32
  rg_file_path :: string

text \<open>The static variables of \<open>process_map\<close>: they keep their values between two scans.\<close>

record map_state =
  ms_code_path :: string
  ms_code_regions :: nat
  ms_exe_regions :: nat
  ms_is_exe :: bool
  ms_prev_end :: "64 word"
  ms_load_addr :: "64 word"
  ms_exe_load :: "64 word"

definition map_state_init :: map_state where
  "map_state_init = \<lparr>ms_code_path = '''', ms_code_regions = 0, ms_exe_regions = 0,
     ms_is_exe = False, ms_prev_end = 0, ms_load_addr = 0, ms_exe_load = 0\<rparr>"

text \<open>\<open>strncmp (a, b, n) == 0\<close> of two C strings.\<close>

definition strncmp_eq :: "nat \<Rightarrow> string \<Rightarrow> string \<Rightarrow> bool" where
  "strncmp_eq n a b \<longleftrightarrow> take n (a @ [NUL]) = take n (b @ [NUL])"

definition same_path :: "string \<Rightarrow> string \<Rightarrow> bool" where
  "same_path a b = strncmp_eq MAPS_MAX_PATH a b"

definition copy_path :: "string \<Rightarrow> string" where
  "copy_path p = take (MAPS_MAX_PATH - 1) p"

subsection \<open>Which ELF file a map belongs to\<close>

text \<open>Is the map another region of the ELF file seen last, or its end?\<close>

definition detect_end :: "region_map \<Rightarrow> map_state \<Rightarrow> map_state" where
  "detect_end m s =
     (if 0 < ms_code_regions s then
        (if rm_exec m = CHR ''x'' \<or>
            (\<not> same_path (rm_file_path m) (ms_code_path s) \<and>
             (rm_file_path m \<noteq> [] \<or> rm_start m \<noteq> ms_prev_end s)) \<or>
            4 \<le> ms_code_regions s
         then s\<lparr>ms_code_regions := 0, ms_is_exe := False,
                ms_exe_regions := (if 1 < ms_exe_regions s then 0 else ms_exe_regions s)\<rparr>
         else s\<lparr>ms_code_regions := ms_code_regions s + 1,
                ms_exe_regions := (if ms_is_exe s then ms_exe_regions s + 1 else ms_exe_regions s)\<rparr>)
      else s)"

definition detect_first :: "string \<Rightarrow> region_map \<Rightarrow> map_state \<Rightarrow> map_state" where
  "detect_first exe_path m s =
     (if ms_code_regions s = 0 then
        let s1 =
          (if rm_exec m = CHR ''x'' \<and> rm_file_path m \<noteq> [] then
             (let s' = (if same_path (rm_file_path m) exe_path
                        then s\<lparr>ms_exe_regions := 1, ms_exe_load := rm_start m, ms_is_exe := True\<rparr>
                        else s)
              in s'\<lparr>ms_code_regions := ms_code_regions s + 1,
                    ms_code_path := copy_path (rm_file_path m)\<rparr>)
           else if ms_exe_regions s = 1 \<and> rm_file_path m \<noteq> [] \<and> same_path (rm_file_path m) exe_path
           then s\<lparr>ms_exe_regions := ms_exe_regions s + 1, ms_code_regions := ms_exe_regions s + 1,
                  ms_load_addr := ms_exe_load s, ms_is_exe := True,
                  ms_code_path := copy_path (rm_file_path m)\<rparr>
           else s)
        in if ms_exe_regions s1 < 2 then s1\<lparr>ms_load_addr := rm_start m\<rparr> else s1
      else s)"

definition map_step :: "string \<Rightarrow> region_map \<Rightarrow> map_state \<Rightarrow> map_state" where
  "map_step exe_path m s =
     (detect_first exe_path m (detect_end m s))\<lparr>ms_prev_end := rm_end m\<rparr>"

subsection \<open>The regions\<close>

definition wanted :: "region_map \<Rightarrow> bool" where
  "wanted m \<longleftrightarrow> (rm_write m = CHR ''w'' \<or> rm_exec m = CHR ''x'') \<and> rm_read m = CHR ''r'' \<and>
     0 < rm_end m - rm_start m"

definition type_of :: "region_map \<Rightarrow> map_state \<Rightarrow> region_type" where
  "type_of m s =
     (if ms_is_exe s then REGION_TYPE_EXE
      else if 0 < ms_code_regions s then REGION_TYPE_CODE
      else if rm_file_path m = ''[heap]'' then REGION_TYPE_HEAP
      else if rm_file_path m = ''[stack]'' then REGION_TYPE_STACK
      else REGION_TYPE_MISC)"

definition new_region :: "region_map \<Rightarrow> map_state \<Rightarrow> u32 \<Rightarrow> region" where
  "new_region m s i = \<lparr>rg_start = rm_start m, rg_size = rm_end m - rm_start m,
     rg_type = type_of m s, rg_load_addr = ms_load_addr s, rg_read = True, rg_write = True,
     rg_exec = (rm_exec m = CHR ''x''), rg_shared = (rm_cow m = CHR ''s''),
     rg_priv = (rm_cow m = CHR ''p''), rg_id = i, rg_file_path = rm_file_path m\<rparr>"

definition process_map ::
  "string \<Rightarrow> region_map \<Rightarrow> map_state \<times> region list \<Rightarrow> map_state \<times> region list" where
  "process_map exe_path m st =
     (case st of (s, rlist) \<Rightarrow>
        let s' = map_step exe_path m s;
            i = (if rlist = [] then 0 else rg_id (last rlist) + 1)
        in (s', if wanted m then rlist @ [new_region m s' i] else rlist))"

subsection \<open>Parsing the lines of /proc/\$pid/maps\<close>

text \<open>
  The conversions behind the sixth only matter for the path, which is empty if one of them
  fails: \<open>"%lx-%lx %c%c%c%c %x %x:%x %u %[^\n]"\<close>.
\<close>

definition scan_char :: "string \<Rightarrow> (char \<times> string) option" where
  "scan_char s = (case s of [] \<Rightarrow> None | c # r \<Rightarrow> Some (c, r))"

definition scan_path :: "string \<Rightarrow> string option" where
  "scan_path s = do {
     (offs, s) \<leftarrow> scan_u32 16 s;
     (major, s) \<leftarrow> scan_u32 16 s;
     s \<leftarrow> scan_lit '':'' s;
     (minor, s) \<leftarrow> scan_u32 16 s;
     (inode, s) \<leftarrow> scan_u32 10 s;
     Some (takeWhile (\<lambda>c. c \<noteq> NL) (dropWhile c_isspace s)) }"

definition parse_map_line :: "string \<Rightarrow> region_map option" where
  "parse_map_line line = do {
     (start, s) \<leftarrow> scan_ul 16 line;
     s \<leftarrow> scan_lit ''-'' s;
     (fin, s) \<leftarrow> scan_ul 16 s;
     (r, s) \<leftarrow> scan_char (dropWhile c_isspace s);
     (w, s) \<leftarrow> scan_char s;
     (x, s) \<leftarrow> scan_char s;
     (p, s) \<leftarrow> scan_char s;
     Some \<lparr>rm_start = start, rm_end = fin, rm_read = r, rm_write = w, rm_exec = x, rm_cow = p,
           rm_file_path = (case scan_path s of Some path \<Rightarrow> path | None \<Rightarrow> [])\<rparr> }"

text \<open>\<open>getline\<close>: the lines of a file, newlines included.\<close>

fun lines :: "string \<Rightarrow> string list" where
  "lines [] = []"
| "lines (c # s) =
     (if c = NL then [NL] # lines s
      else case lines s of [] \<Rightarrow> [[c]]
           | l # ls \<Rightarrow> (c # l) # ls)"

text \<open>
  \<open>read_maps\<close> with a callback on a state: \<open>Inl\<close> is a callback result that stops the scan,
  \<open>None\<close> stands for -1 after a line that does not parse.
\<close>

primrec read_lines :: "(region_map \<Rightarrow> 'a \<Rightarrow> (int \<times> 'a)) \<Rightarrow> string list \<Rightarrow> 'a \<Rightarrow> int \<times> 'a" where
  "read_lines cb [] a = (0, a)"
| "read_lines cb (l # ls) a =
     (case parse_map_line l of
        None \<Rightarrow> (- 1, a)
      | Some m \<Rightarrow> (case cb m a of (ret, a') \<Rightarrow> if ret \<noteq> 0 then (ret, a') else read_lines cb ls a'))"

text \<open>\<open>maps\<close>: the contents of \<open>/proc/$pid/maps\<close>, \<open>None\<close> if it cannot be opened.\<close>

definition read_maps :: "(region_map \<Rightarrow> 'a \<Rightarrow> (int \<times> 'a)) \<Rightarrow> string option \<Rightarrow> 'a \<Rightarrow> int \<times> 'a" where
  "read_maps cb maps a = (case maps of None \<Rightarrow> (- 1, a) | Some txt \<Rightarrow> read_lines cb (lines txt) a)"

definition read_regions ::
  "string \<Rightarrow> string option \<Rightarrow> map_state \<times> region list \<Rightarrow> map_state \<times> region list" where
  "read_regions exe_path maps st =
     (case read_maps (\<lambda>m a. (0, process_map exe_path m a)) maps (fst st, []) of
        (ret, s, rlist) \<Rightarrow> (s, if ret \<noteq> 0 then [] else rlist))"

subsection \<open>Looking up regions\<close>

text \<open>PIE detection: the known static load addresses.\<close>

definition calc_exe_offs :: "64 word \<Rightarrow> ptr" where
  "calc_exe_offs map_start = (if map_start = 0x8048000 \<or> map_start = 0x400000 then 0 else map_start)"

fun find_stack_bounds :: "region list \<Rightarrow> ptr \<times> ptr \<Rightarrow> ptr \<times> ptr" where
  "find_stack_bounds [] b = b"
| "find_stack_bounds (r # rs) b =
     (if rg_type r \<noteq> REGION_TYPE_STACK then find_stack_bounds rs b
      else (rg_start r, rg_start r + rg_size r))"

fun find_heap_region :: "region list \<Rightarrow> ptr \<times> ptr \<Rightarrow> ptr \<times> ptr" where
  "find_heap_region [] b = b"
| "find_heap_region (r # rs) b =
     (if rg_type r \<noteq> REGION_TYPE_HEAP then find_heap_region rs b
      else (rg_start r, rg_start r + rg_size r))"

subsection \<open>The stack end from /proc/\$pid/stat\<close>

text \<open>The macro \<open>STRCHR\<close>: the text behind the next \<open>c\<close>; \<open>None\<close> is \<open>parse_err\<close>.\<close>

fun STRCHR :: "char \<Rightarrow> string \<Rightarrow> string option" where
  "STRCHR c [] = None"
| "STRCHR c (d # s) = (if d = NUL then None else if d = c then Some s else STRCHR c s)"

primrec STRCHR_n :: "nat \<Rightarrow> char \<Rightarrow> string \<Rightarrow> string option" where
  "STRCHR_n 0 c s = Some s"
| "STRCHR_n (Suc n) c s = STRCHR c s \<bind> STRCHR_n n c"

text \<open>\<open>strtoul\<close> with a check of \<open>errno\<close> (\<open>ERANGE\<close>).\<close>

definition strtoul_checked :: "string \<Rightarrow> 64 word option" where
  "strtoul_checked s = (case scan_num 10 s of
     None \<Rightarrow> Some 0
   | Some (neg, n, _) \<Rightarrow> if 2 ^ 64 \<le> n then None else Some (to_ulong neg n))"

definition stack_end_idx :: nat where "stack_end_idx = 27"

definition parse_stack_end :: "string \<Rightarrow> ptr option" where
  "parse_stack_end line = do {
     s \<leftarrow> STRCHR (CHR ''('') line;
     s \<leftarrow> STRCHR (CHR '')'') s;
     s \<leftarrow> STRCHR_n (stack_end_idx - 1) (CHR '' '') s;
     rest \<leftarrow> STRCHR (CHR '' '') s;
     strtoul_checked (takeWhile (\<lambda>c. c \<noteq> CHR '' '') s) }"

definition get_stack_end :: "string option \<Rightarrow> ptr \<Rightarrow> ptr \<Rightarrow> ptr" where
  "get_stack_end stat start fin =
     (case Option.bind stat parse_stack_end of
        None \<Rightarrow> start
      | Some stack_end \<Rightarrow>
          if stack_end < start \<or> fin < stack_end \<or>
             stack_end < start + drop_bit 1 (fin - start)
          then start else stack_end)"

subsection \<open>Copying the maps to a file\<close>

text \<open>
  \<open>write_maps_to_file\<close> reads and writes whole buffers: a short \<open>fread\<close> at the end of the file
  fills only the front of the buffer. The result is what has been written to the output file
  when no stream error occurs.
\<close>

function copy_chunks :: "nat \<Rightarrow> string \<Rightarrow> string \<Rightarrow> string" where
  "copy_chunks n buf content =
     (let chunk = take n content;
          buf' = chunk @ drop (length chunk) buf
      in if length chunk < n \<or> n = 0 then buf'
         else buf' @ copy_chunks n buf' (drop n content))"
  by pat_completeness auto
termination
  by (relation "measure (\<lambda>(n, buf, content). length content)") auto

declare copy_chunks.simps [simp del]

definition write_maps_to_file :: "string \<Rightarrow> string \<Rightarrow> string" where
  "write_maps_to_file buf maps = copy_chunks 4096 buf maps"

end
