(* ===== verification/FifoStream.thy ===== *)
theory FifoStream
  imports Fifoparser
begin

text \<open>
  What the message parser does for a whole byte stream: a client of the parser is given by
  its callbacks; the locale \<open>fifo_client\<close> only asks that the allocation callback looks at the
  message it is called for and not at the rest of the buffer. Under that contract any
  fragmentation of the stream into \<open>read\<close> calls delivers the same messages in the same order.
\<close>

text \<open>The effect of one message on the client.\<close>

fun deliver ::
  "('s \<Rightarrow> string \<Rightarrow> ptr \<Rightarrow> 64 word \<Rightarrow> ptr \<Rightarrow> ptr \<Rightarrow> ptr \<Rightarrow> 's) \<Rightarrow> ('s \<Rightarrow> ptr \<Rightarrow> 's) \<Rightarrow>
     ('s \<Rightarrow> string \<Rightarrow> 's) \<Rightarrow> ('s \<Rightarrow> ptr \<Rightarrow> 's) \<Rightarrow> ptr \<Rightarrow> 's \<Rightarrow> msg \<Rightarrow> 's" where
  "deliver mfm ff lf sf co s (MMalloc a n c) = mfm s (render (MMalloc a n c)) a n co c 0"
| "deliver mfm ff lf sf co s (MFree a) = ff s a"
| "deliver mfm ff lf sf co s (MLib name) = lf s name"
| "deliver mfm ff lf sf co s (MStack a) = sf s a"

text \<open>
  \<open>read_dynmem_fifo\<close> (\<open>src/src/ugtrain.cpp\<close>): read until nothing is left or a call returns 0
  after a parse error. Every further round has consumed at least one byte of the FIFO.
\<close>

lemma f_read_props:
  assumes "f_read n f = (bs, f')"
  shows "f_data f' = f_data f" "f_pos f' = f_pos f + length bs"
    "bs = take n (drop (f_pos f) (f_data f))" "length bs \<le> n"
    "bs \<noteq> [] \<Longrightarrow> f_pos f < length (f_data f)"
    "length (f_data f) - f_pos f' = length (drop (f_pos f) (f_data f)) - length bs"
  using assms by (auto simp: f_read_def Let_def)

lemma read_fwd_consumes:
  assumes "read_dynmem_buf pcb argp pmask False co st f s = Some (ret, st', f', s')" "0 < ret"
  shows "length (f_data f') - f_pos f' < length (f_data f) - f_pos f"
proof -
  obtain bs f1 where r: "f_read (length (fs_ibuf st) - 1 - nat (fs_ilen st)) f = (bs, f1)"
    by fastforce
  have "bs \<noteq> []" and "f' = f1"
    using assms r
    by (auto simp: read_dynmem_buf_def read_fwd_def read_finish_def Let_def
        split: if_splits fifo_res.splits)
  then have "0 < length bs" "f_pos f < length (f_data f)" "f_pos f' = f_pos f + length bs"
    "f_data f' = f_data f"
    using f_read_props(1,2,5) [OF r] by simp_all
  then show ?thesis by (simp add: diff_less_mono2)
qed

function read_dynmem_fifo ::
  "'s parse_cb option \<Rightarrow> u32 \<Rightarrow> fifo_static \<Rightarrow> ffile \<Rightarrow> 's \<Rightarrow> (fifo_static \<times> ffile \<times> 's) option"
where
  "read_dynmem_fifo pcb pmask st f s =
     (case read_dynmem_buf pcb True pmask False 0 st f s of
        None \<Rightarrow> None
      | Some (rbytes, st', f', s') \<Rightarrow>
          if 0 < rbytes then read_dynmem_fifo pcb pmask st' f' s' else Some (st', f', s'))"
  by pat_completeness auto
termination
proof (relation "measure (\<lambda>(_, _, _, f, _). length (f_data f) - f_pos f)", goal_cases)
  case (2 pcb pmask st f s a rbytes b st' c f' s')
  then have "read_dynmem_buf pcb True pmask False 0 st f s = Some (rbytes, st', f', s')" by simp
  from read_fwd_consumes [OF this] 2 show ?case by (cases b; cases c) simp
qed simp

declare read_dynmem_fifo.simps [simp del]

subsection \<open>Splitting a prefix of the stream at message ends\<close>

abbreviation stream :: "msg list \<Rightarrow> string" where
  "stream ms \<equiv> concat (map render ms)"

definition partial_msg :: "string \<Rightarrow> bool" where
  "partial_msg p \<longleftrightarrow> (\<forall>c \<in> set p. c \<noteq> NUL \<and> c \<noteq> NL)"

lemma length_render [simp]: "length (render m) = Suc (length (msg_body m))"
  by (simp add: render_def)

lemma stream_split:
  assumes "xs @ rest = stream ms @ pe" "\<forall>m \<in> set ms. wf_msg m" "partial_msg pe"
  shows "\<exists>ms1 ms2 p. ms = ms1 @ ms2 \<and> xs = stream ms1 @ p \<and> partial_msg p \<and>
     p @ rest = stream ms2 @ pe \<and>
     (ms2 \<noteq> [] \<longrightarrow> length p < length (render (hd ms2)))"
  using assms
proof (induction ms arbitrary: xs)
  case Nil
  then have "pe = xs @ rest" by simp
  with Nil.prems(3) have "partial_msg xs" by (simp add: partial_msg_def)
  with Nil show ?case by simp
next
  case (Cons m ms)
  show ?case
  proof (cases "length xs < length (render m)")
    case True
    have eq: "xs @ rest = msg_body m @ NL # (stream ms @ pe)"
      using Cons.prems(1) by (simp add: render_def [of m])
    have "xs = take (length xs) (msg_body m @ NL # (stream ms @ pe))"
      using eq by (metis append_eq_conv_conj)
    then have "xs = take (length xs) (msg_body m)" using True by simp
    then have "set xs \<subseteq> set (msg_body m)" by (metis set_take_subset)
    then have "partial_msg xs"
      using msg_body_chars [of m] Cons.prems(2) by (auto simp: partial_msg_def)
    with True Cons.prems show ?thesis
      by (intro exI [of _ "[]"] exI [of _ "m # ms"] exI [of _ xs]) simp
  next
    case False
    have "xs @ rest = render m @ (stream ms @ pe)" using Cons.prems(1) by simp
    then have "take (length (render m)) (xs @ rest) = render m"
      "drop (length (render m)) (xs @ rest) = stream ms @ pe" by (simp_all del: length_render)
    then have "take (length (render m)) xs = render m"
      "drop (length (render m)) xs @ rest = stream ms @ pe"
      using False by (simp_all del: length_render)
    then obtain xs' where xs: "xs = render m @ xs'" "xs' @ rest = stream ms @ pe"
      by (metis append_take_drop_id)
    from Cons.IH [OF xs(2)] Cons.prems obtain ms1 ms2 p where
      "ms = ms1 @ ms2" "xs' = stream ms1 @ p" "partial_msg p" "p @ rest = stream ms2 @ pe"
      "ms2 \<noteq> [] \<longrightarrow> length p < length (render (hd ms2))" by auto
    with xs show ?thesis
      by (intro exI [of _ "m # ms1"] exI [of _ ms2] exI [of _ p]) simp
  qed
qed

lemma shift_front_split:
  "shift_front (length a) (length (a @ b)) (a @ b @ replicate k NUL) =
     b @ replicate (k + length a) NUL"
  by (simp add: shift_front_def replicate_add [symmetric] add.commute)

lemma partial_short:
  assumes "p @ r = stream (m # ms) @ pe" "partial_msg p"
  shows "length p < length (render m)"
proof (rule ccontr)
  assume "\<not> length p < length (render m)"
  then have "take (length (render m)) (p @ r) = take (length (render m)) p" by simp
  moreover have "take (length (render m)) (p @ r) = render m" using assms(1) by simp
  ultimately have "set (render m) \<subseteq> set p" by (metis set_take_subset)
  then have "NL \<in> set p" by (simp add: render_def)
  then show False using assms(2) by (auto simp: partial_msg_def)
qed

text \<open>The static buffer holds exactly an incomplete message.\<close>

definition pending :: "nat \<Rightarrow> fifo_static \<Rightarrow> string \<Rightarrow> bool" where
  "pending n st p \<longleftrightarrow> fs_ibuf st = p @ replicate (n - length p) NUL \<and>
     fs_ilen st = int (length p) \<and> length p < n \<and> partial_msg p"

lemma pending_init: "pending PIPE_BUF fifo_static_init []"
  by (simp add: pending_def fifo_static_init_def partial_msg_def PIPE_BUF_def)

subsection \<open>A client of the parser\<close>

locale fifo_client =
  fixes mf :: "'s \<Rightarrow> post_parse \<Rightarrow> ptr \<Rightarrow> 64 word \<Rightarrow> ptr \<Rightarrow> ptr \<Rightarrow> ptr \<Rightarrow> 's"
    and mfm :: "'s \<Rightarrow> string \<Rightarrow> ptr \<Rightarrow> 64 word \<Rightarrow> ptr \<Rightarrow> ptr \<Rightarrow> ptr \<Rightarrow> 's"
    and ff :: "'s \<Rightarrow> ptr \<Rightarrow> 's"
    and lf :: "'s \<Rightarrow> string \<Rightarrow> 's"
    and sf :: "'s \<Rightarrow> ptr \<Rightarrow> 's"
  assumes mf_local: "pp_msg_end pp + 1 < length (pp_ibuf pp) \<Longrightarrow>
    mf s pp a n co ca so = mfm s (take (Suc (pp_msg_end pp)) (pp_ibuf pp)) a n co ca so"
begin

abbreviation cbs where
  "cbs \<equiv> Some \<lparr>cb_mf = Some mf, cb_ff = Some ff, cb_lf = Some lf, cb_sf = Some sf\<rparr>"

abbreviation dlv where "dlv \<equiv> deliver mfm ff lf sf"

abbreviation mask where "mask \<equiv> PARSE_S OR PARSE_C"

lemma parse_m_render:
  assumes "buf = render (MMalloc a n c) @ rest" "e = length (msg_body (MMalloc a n c))" "rest \<noteq> []"
  shows "parse_m mf mask co buf 1 e s = Inr (dlv co s (MMalloc a n c))"
proof -
  have m: "mask AND PARSE_S \<noteq> 0" "mask AND PARSE_C \<noteq> 0" "mask AND PARSE_O = 0"
    by (simp_all add: PARSE_S_def PARSE_C_def PARSE_O_def)
  let ?t1 = "pr_ul n @ '';c'' @ pr_ptr c @ NL # rest"
  let ?t2 = "pr_ptr c @ NL # rest"
  have b1: "drop 1 buf = pr_ptr a @ CHR '';'' # CHR ''s'' # ?t1"
    by (simp add: assms(1) render_def)
  have a1: "scan_ptr (cstr (drop 1 buf)) = Some (a, CHR '';'' # CHR ''s'' # cstr ?t1)"
    unfolding b1 using pr_safe by (simp add: cstr_append cstr_Cons scan_ptr_pr_ptr)
  have f1: "parse_field buf 1 (CHR ''s'') (scan_ul 10) = Inr (n, 1 + length (pr_ptr a) + 2)"
    by (rule parse_field_at [OF b1])
      (use pr_plain(2) pr_safe in \<open>simp_all add: cstr_append cstr_Cons scan_ul_pr_ul\<close>)
  let ?p1 = "1 + length (pr_ptr a) + 2"
  have b2: "drop ?p1 buf = pr_ul n @ CHR '';'' # CHR ''c'' # ?t2"
    by (simp add: assms(1) render_def)
  have f2: "parse_field buf ?p1 (CHR ''c'') scan_ptr = Inr (c, ?p1 + length (pr_ul n) + 2)"
    by (rule parse_field_at [OF b2])
      (use pr_plain(1) pr_safe in \<open>simp_all add: cstr_append cstr_Cons scan_ptr_pr_ptr\<close>)
  have e: "e + 1 < length buf" "take (Suc e) buf = render (MMalloc a n c)"
    using assms(3) by (simp_all add: assms(1,2) del: msg_body.simps)
  show ?thesis using m e f1 f2
    by (simp add: parse_m_def a1 opt_field_def mf_local del: One_nat_def)
qed

lemma parse_msg_render:
  assumes "buf = render m @ rest" "wf_msg m" "e = length (msg_body m)" "rest \<noteq> []"
  shows "parse_msg cbs mask co buf 0 e s = Inr (dlv co s m)"
proof (cases m)
  case (MMalloc a n c)
  then have "cstr (drop 0 buf) = CHR ''m'' # cstr (drop 1 buf)"
    using assms(1) by (simp add: render_def cstr_Cons)
  then show ?thesis using parse_m_render [of buf a n c rest e co s] assms MMalloc
    by (simp add: parse_msg_def Let_def)
next
  case (MFree a)
  have "drop 1 buf = pr_ptr a @ NL # rest" using assms(1) MFree by (simp add: render_def)
  then have "scan_ptr (cstr (drop 1 buf)) = Some (a, cstr (NL # rest))"
    using pr_safe by (simp add: cstr_append cstr_Cons scan_ptr_pr_ptr)
  then show ?thesis using assms(1) MFree
    by (simp add: parse_msg_def render_def cstr_Cons)
next
  case (MLib name)
  then show ?thesis using assms
    by (simp add: parse_msg_def render_def cstr_Cons)
next
  case (MStack a)
  have "drop 1 buf = pr_ptr a @ NL # rest" using assms(1) MStack by (simp add: render_def)
  then have "scan_ptr (cstr (drop 1 buf)) = Some (a, cstr (NL # rest))"
    using pr_safe by (simp add: cstr_append cstr_Cons scan_ptr_pr_ptr)
  then show ?thesis using assms MStack
    by (simp add: parse_msg_def render_def cstr_Cons)
qed

lemma parse_stream:
  assumes "\<forall>m \<in> set ms. wf_msg m" "partial_msg part"
    "ibuf = stream ms @ part @ replicate k NUL" "0 < k" "ilen = int (length (stream ms @ part))"
  shows "parse_fwd cbs mask co ibuf ilen tmp s =
    Fifo_ok (int (if ms = [] then tmp else length (render (last ms))))
      (part @ replicate (k + length (stream ms)) NUL) (int (length part)) (foldl (dlv co) s ms)"
  using assms
proof (induction ms arbitrary: ibuf ilen k tmp s)
  case Nil
  have "cstr ibuf = part @ cstr (replicate k NUL)"
    using Nil by (simp add: partial_msg_def cstr_append)
  then have "cstr ibuf = part" by (cases k) simp_all
  then have "strchr ibuf 0 NL = None"
    using Nil by (intro strchr_None) (auto simp: partial_msg_def)
  with Nil show ?case by (simp add: parse_fwd.simps)
next
  case (Cons m ms)
  let ?rest = "stream ms @ part @ replicate k NUL"
  let ?t = "length (msg_body m) + 1"
  have ib: "ibuf = render m @ ?rest" using Cons.prems by simp
  have "strchr ibuf 0 NL = Some (0 + length (msg_body m))"
    by (rule strchr_skip [where ys = ?rest])
      (use ib Cons.prems(1) msg_body_chars in \<open>auto simp: render_def\<close>)
  moreover have "parse_msg cbs mask co ibuf 0 (length (msg_body m)) s = Inr (dlv co s m)"
    using ib Cons.prems(1,4) by (intro parse_msg_render) (simp_all, cases k, simp_all)
  moreover have "shift_front ?t (nat ilen) ibuf = stream ms @ part @ replicate (k + ?t) NUL"
  proof -
    have "nat ilen = length (render m @ (stream ms @ part))"
      using Cons.prems(5) by (simp del: length_render)
    then show ?thesis
      using shift_front_split [of "render m" "stream ms @ part" k] ib by simp
  qed
  moreover have "int ?t \<le> ilen \<and> ilen \<le> int (length ibuf)"
    using ib Cons.prems(5) by simp
  moreover have "parse_fwd cbs mask co (stream ms @ part @ replicate (k + ?t) NUL)
      (ilen - int ?t) ?t (dlv co s m) =
    Fifo_ok (int (if ms = [] then ?t else length (render (last ms))))
      (part @ replicate (k + ?t + length (stream ms)) NUL) (int (length part))
      (foldl (dlv co) (dlv co s m) ms)"
    using Cons.prems by (intro Cons.IH) simp_all
  ultimately show ?case
    by (simp add: parse_fwd.simps [of _ _ _ ibuf] Let_def add.assoc)
qed

lemma read_step:
  assumes "pending n st p" "f_read (n - 1 - length p) f = (bs, f')" "bs \<noteq> []"
    "p @ bs = stream ms @ q" "\<forall>m \<in> set ms. wf_msg m" "partial_msg q"
  shows "\<exists>ret st'. read_dynmem_buf cbs argp mask False co st f s =
    Some (ret, st', f', foldl (dlv co) s ms) \<and> 0 < ret \<and> pending n st' q"
proof -
  let ?k = "n - length p - length bs"
  note R = f_read_props [OF assms(2)]
  have st: "fs_ibuf st = p @ replicate (n - length p) NUL" "fs_ilen st = int (length p)"
    "length p < n" using assms(1) by (simp_all add: pending_def)
  have bs: "length p + length bs < n" "0 < length bs" using R(4) assms(3) st(3) by (simp, simp)
  then have len: "length (stream ms) + length q < n"
    using assms(4) by (metis length_append)
  have ow: "overwrite (fs_ibuf st) (length p) bs = stream ms @ q @ replicate ?k NUL"
    using st bs assms(4) by (simp add: overwrite_def)
  have "parse_fwd cbs mask co (stream ms @ q @ replicate ?k NUL)
      (int (length p) + int (length bs)) (length bs) s =
    Fifo_ok (int (if ms = [] then length bs else length (render (last ms))))
      (q @ replicate (?k + length (stream ms)) NUL) (int (length q)) (foldl (dlv co) s ms)"
  proof (rule parse_stream)
    have "length (p @ bs) = length (stream ms @ q)" by (simp only: assms(4))
    then show "int (length p) + int (length bs) = int (length (stream ms @ q))" by simp
  qed (use assms bs in simp_all)
  moreover have "?k + length (stream ms) = n - length q"
  proof -
    have "length p + length bs = length (stream ms) + length q"
      by (metis assms(4) length_append)
    then show ?thesis using len by linarith
  qed
  moreover have "0 < (if ms = [] then length bs else length (render (last ms)))"
    using bs by simp
  ultimately show ?thesis
    using st bs assms(2) len assms(6) ow
    by (simp add: read_dynmem_buf_def read_fwd_def read_finish_def parse_dynmem_buf_def
        pending_def Let_def del: length_render)
qed

text \<open>
  Reassembly: whatever part of the stream is pending and whatever is in the FIFO, the loop of
  the trainer delivers all complete messages in order and keeps the incomplete rest.
\<close>

lemma read_fifo_stream:
  assumes "pending n st p" "p @ drop (f_pos f) (f_data f) = stream ms @ pe"
    "\<forall>m \<in> set ms. wf_msg m \<and> length (render m) < n" "partial_msg pe" "length pe < n"
    "f_pos f \<le> length (f_data f)"
  shows "\<exists>st' f'. read_dynmem_fifo cbs mask st f s = Some (st', f', foldl (dlv 0) s ms) \<and>
    pending n st' pe \<and> f_data f' = f_data f \<and> f_pos f' = length (f_data f)"
  using assms
proof (induction "length (f_data f) - f_pos f" arbitrary: st p f ms s rule: less_induct)
  case less
  note st = less.prems(1)
  let ?rest = "drop (f_pos f) (f_data f)"
  obtain bs f' where r: "f_read (n - 1 - length p) f = (bs, f')" by fastforce
  note R = f_read_props [OF r]
  have max: "length (fs_ibuf st) - 1 - nat (fs_ilen st) = n - 1 - length p"
    and in_range: "\<not> (fs_ilen st < 0 \<or> int (length (fs_ibuf st)) - 1 < fs_ilen st)"
    using st by (auto simp: pending_def)
  show ?case
  proof (cases "?rest = []")
    case True
    then have "ms = []" "pe = p"
      using less.prems(2) partial_short [of p ?rest] st
      by (cases ms; force simp: pending_def)+
    moreover have "bs = []" "f' = f" using R True less.prems(6) r by (auto simp: f_read_def)
    moreover have "f_pos f = length (f_data f)" using True less.prems(6) by simp
    ultimately show ?thesis
      using st r max in_range
      by (simp add: read_dynmem_fifo.simps [of _ _ st] read_dynmem_buf_def read_fwd_def Let_def)
  next
    case False
    have "length p < n - 1"
    proof (cases ms)
      case Nil
      then have "length p < length pe" using False less.prems(2)
        by (metis append_eq_append_conv_if append_Nil2 concat.simps(1) list.simps(8)
            self_append_conv2 append_is_Nil_conv length_append length_greater_0_conv less_add_same_cancel1)
      then show ?thesis using less.prems(5) by linarith
    next
      case (Cons m ms')
      then have "length p < length (render m)"
        using partial_short less.prems(2) st by (auto simp: pending_def simp del: length_render)
      moreover have "length (render m) < n" using less.prems(3) Cons by simp
      ultimately show ?thesis by linarith
    qed
    then have bs: "bs \<noteq> []" using R(3) False by auto
    have rest: "?rest = bs @ drop (f_pos f') (f_data f')"
      using R(1,2,3) by (metis append_take_drop_id drop_drop length_take min.absorb_iff2 add.commute
          append_same_eq append_take_drop_id length_append same_append_eq take_all_iff nle_le
          drop_all)
    then have "(p @ bs) @ drop (f_pos f') (f_data f') = stream ms @ pe"
      using less.prems(2) by simp
    from stream_split [OF this] less.prems(3,4) obtain ms1 ms2 q where
      sp: "ms = ms1 @ ms2" "p @ bs = stream ms1 @ q" "partial_msg q"
        "q @ drop (f_pos f') (f_data f') = stream ms2 @ pe" by blast
    have "\<forall>m \<in> set ms1. wf_msg m" using less.prems(3) sp(1) by simp
    from read_step [OF st r bs sp(2) this sp(3), of True 0 s] obtain ret st' where
      one: "read_dynmem_buf cbs True mask False 0 st f s = Some (ret, st', f', foldl (dlv 0) s ms1)"
        "0 < ret" "pending n st' q" by blast
    have "length (f_data f') - f_pos f' < length (f_data f) - f_pos f"
      by (rule read_fwd_consumes [OF one(1,2)])
    moreover have "f_pos f' \<le> length (f_data f')"
      using R(1,2,3) less.prems(6) by simp
    ultimately obtain st'' f'' where
      "read_dynmem_fifo cbs mask st' f' (foldl (dlv 0) s ms1) =
         Some (st'', f'', foldl (dlv 0) (foldl (dlv 0) s ms1) ms2)"
      "pending n st'' pe" "f_data f'' = f_data f'" "f_pos f'' = length (f_data f')"
      using less.hyps [OF _ one(3) sp(4), of "foldl (dlv 0) s ms1"] less.prems(3-5) sp(1)
      by auto
    with one R(1) sp(1) show ?thesis
      by (simp add: read_dynmem_fifo.simps [of _ _ st])
  qed
qed

end

end
