(* ===== verification/Aslr.thy ===== *)
theory Aslr
  imports Memmgmt Maps FifoStream
begin

text \<open>
  Address space layout randomisation (\<open>src/src/aslr.h\<close>, \<open>src/src/aslr.cpp\<close>): moving the
  configured addresses by the load address of the executable and of libraries, and by the stack
  end; the messages to the preloaded library; and the callbacks of the trainer for the FIFO.
  \<open>None\<close> is a dereferenced null pointer or a buffer overflow. The region lists are arguments.
\<close>

subsection \<open>Caches\<close>

definition cache_list :: "cache_owner \<Rightarrow> world \<Rightarrow> cache_entry list option" where
  "cache_list own w = (case own of
     COpt \<Rightarrow> Some (w_cache_list w)
   | CStack \<Rightarrow> Some (w_stack_cache w)
   | CLib i \<Rightarrow> map_option l_cache_list (vget (w_lib w) i)
   | CDyn i \<Rightarrow> map_option d_cache_list (vget (w_dyn w) i)
   | CPtr i \<Rightarrow> map_option p_cache_list (vget (w_ptr w) i))"

definition set_cache_list :: "cache_owner \<Rightarrow> cache_entry list \<Rightarrow> world \<Rightarrow> world" where
  "set_cache_list own cl w = (case own of
     COpt \<Rightarrow> w\<lparr>w_cache_list := cl\<rparr>
   | CStack \<Rightarrow> w\<lparr>w_stack_cache := cl\<rparr>
   | CLib i \<Rightarrow> w\<lparr>w_lib := (w_lib w)[i := (w_lib w ! i)\<lparr>l_cache_list := cl\<rparr>]\<rparr>
   | CDyn i \<Rightarrow> w\<lparr>w_dyn := (w_dyn w)[i := (w_dyn w ! i)\<lparr>d_cache_list := cl\<rparr>]\<rparr>
   | CPtr i \<Rightarrow> w\<lparr>w_ptr := (w_ptr w)[i := (w_ptr w ! i)\<lparr>p_cache_list := cl\<rparr>]\<rparr>)"

definition get_cache :: "cache_ref \<Rightarrow> world \<Rightarrow> cache_entry option" where
  "get_cache r w = cache_list (fst r) w \<bind> (\<lambda>cl. vget cl (snd r))"

definition mod_cache :: "cache_ref \<Rightarrow> (cache_entry \<Rightarrow> cache_entry) \<Rightarrow> world \<Rightarrow> world option" where
  "mod_cache r f w = do {
     cl \<leftarrow> cache_list (fst r) w;
     c \<leftarrow> vget cl (snd r);
     Some (set_cache_list (fst r) (cl[snd r := f c]) w) }"

text \<open>Change the cache address only once: the dirty flag says that it has been changed.\<close>

definition move_cache :: "cache_ref option \<Rightarrow> (ptr \<Rightarrow> ptr) \<Rightarrow> world \<Rightarrow> world option" where
  "move_cache r f w = do {
     r \<leftarrow> r;
     mod_cache r (\<lambda>c. if ca_is_dirty c then c
                      else c\<lparr>ca_is_dirty := True, ca_offs := f (ca_offs c)\<rparr>) w }"

definition get_check :: "nat \<Rightarrow> nat \<Rightarrow> world \<Rightarrow> check_entry option" where
  "get_check ci ki w = vget (w_cfg w) ci \<bind> (\<lambda>c. vget (c_checks c) ki)"

definition mod_check :: "nat \<Rightarrow> nat \<Rightarrow> (check_entry \<Rightarrow> check_entry) \<Rightarrow> world \<Rightarrow> world option" where
  "mod_check ci ki f w =
     mod_cfg ci (\<lambda>c. do { k \<leftarrow> vget (c_checks c) ki;
                           Some (c\<lparr>c_checks := (c_checks c)[ki := f k]\<rparr>) }) w"

definition clear_dirty :: "cache_entry \<Rightarrow> cache_entry" where
  "clear_dirty c = c\<lparr>ca_is_dirty := False\<rparr>"

subsection \<open>PIE handling for static memory\<close>

definition pie_check :: "ptr \<Rightarrow> nat \<Rightarrow> nat \<Rightarrow> world \<Rightarrow> world option" where
  "pie_check offs ci ki w = do {
     k \<leftarrow> get_check ci ki w;
     if t_on_stack (k_type k) \<or> t_lib (k_type k) \<noteq> None then Some w
     else do {
       w \<leftarrow> mod_check ci ki (\<lambda>k. k\<lparr>k_addr := k_addr k + offs\<rparr>) w;
       move_cache (k_cache k) (\<lambda>a. a + offs) w } }"

definition pie_cfg :: "ptr \<Rightarrow> nat \<Rightarrow> world \<Rightarrow> world option" where
  "pie_cfg offs ci w = do {
     c \<leftarrow> vget (w_cfg w) ci;
     if c_dynmem c \<noteq> None \<or> c_ptrmem c \<noteq> None then Some w
     else do {
       w \<leftarrow> (if t_on_stack (c_type c) \<or> t_lib (c_type c) \<noteq> None then Some w
             else do {
               w \<leftarrow> mod_cfg ci (\<lambda>c. Some (c\<lparr>c_addr := c_addr c + offs\<rparr>)) w;
               move_cache (c_cache c) (\<lambda>a. a + offs) w });
       fold_opt (pie_check offs ci) [0..<length (c_checks c)] w } }"

definition handle_statmem_pie :: "world \<Rightarrow> world option" where
  "handle_statmem_pie w = do {
     let offs = w_code_offs w;
     w \<leftarrow> fold_opt (pie_cfg offs) [0..<length (w_cfg w)] w;
     Some (w\<lparr>w_dump := map (\<lambda>u. if u_lib u \<noteq> None then u else u\<lparr>u_addr := u_addr u + offs\<rparr>) (w_dump w),
             w_cache_list := map clear_dirty (w_cache_list w)\<rparr>) }"

subsection \<open>PIC handling for static memory\<close>

text \<open>The library of a value, if its load address is known and has not been used yet.\<close>

definition pic_lib :: "nat option \<Rightarrow> world \<Rightarrow> lib_entry option option" where
  "pic_lib l w = (case l of
     None \<Rightarrow> Some None
   | Some li \<Rightarrow> do {
       le \<leftarrow> vget (w_lib w) li;
       Some (if l_start le = 0 \<or> l_is_loaded le then None else Some le) })"

text \<open>
  The address of a check is moved by the library of the config entry \<open>it\<close>, its cache by the
  library of the check: with a config entry without a library this is a null pointer access.
\<close>

definition pic_check :: "nat \<Rightarrow> nat \<Rightarrow> world \<Rightarrow> world option" where
  "pic_check ci ki w = do {
     c \<leftarrow> vget (w_cfg w) ci;
     k \<leftarrow> get_check ci ki w;
     le \<leftarrow> pic_lib (t_lib (k_type k)) w;
     case le of
       None \<Rightarrow> Some w
     | Some le \<Rightarrow> do {
         li \<leftarrow> t_lib (c_type c);
         it_lib \<leftarrow> vget (w_lib w) li;
         w \<leftarrow> mod_check ci ki (\<lambda>k. k\<lparr>k_addr := k_addr k + l_start it_lib\<rparr>) w;
         move_cache (k_cache k) (\<lambda>a. a + l_start le) w } }"

definition pic_cfg :: "nat \<Rightarrow> world \<Rightarrow> world option" where
  "pic_cfg ci w = do {
     c \<leftarrow> vget (w_cfg w) ci;
     if c_dynmem c \<noteq> None \<or> c_ptrmem c \<noteq> None then Some w
     else do {
       le \<leftarrow> pic_lib (t_lib (c_type c)) w;
       w \<leftarrow> (case le of
              None \<Rightarrow> Some w
            | Some le \<Rightarrow> do {
                w \<leftarrow> mod_cfg ci (\<lambda>c. Some (c\<lparr>c_addr := c_addr c + l_start le\<rparr>)) w;
                move_cache (c_cache c) (\<lambda>a. a + l_start le) w });
       fold_opt (pic_check ci) [0..<length (c_checks c)] w } }"

definition pic_dump :: "nat \<Rightarrow> world \<Rightarrow> world option" where
  "pic_dump ui w = do {
     u \<leftarrow> vget (w_dump w) ui;
     le \<leftarrow> pic_lib (u_lib u) w;
     case (le, u_lib u) of
       (Some le, Some li) \<Rightarrow>
         Some (w\<lparr>w_dump := (w_dump w)[ui := u\<lparr>u_addr := u_addr u + l_start le\<rparr>],
                 w_lib := (w_lib w)[li := le\<lparr>l_is_loaded := True\<rparr>]\<rparr>)
     | _ \<Rightarrow> Some w }"

definition pic_flags :: "bool \<Rightarrow> lib_entry \<Rightarrow> lib_entry" where
  "pic_flags late_pic le =
     (let dirty = list_ex ca_is_dirty (l_cache_list le)
      in le\<lparr>l_cache_list := map clear_dirty (l_cache_list le),
            l_is_loaded := (dirty \<or> l_is_loaded le),
            l_skip_val := (dirty \<and> late_pic \<or> l_skip_val le)\<rparr>)"

definition handle_statmem_pic :: "bool \<Rightarrow> world \<Rightarrow> world option" where
  "handle_statmem_pic late_pic w = do {
     w \<leftarrow> fold_opt pic_cfg [0..<length (w_cfg w)] w;
     w \<leftarrow> fold_opt pic_dump [0..<length (w_dump w)] w;
     Some (w\<lparr>w_lib := map (pic_flags late_pic) (w_lib w)\<rparr>) }"

subsection \<open>Finding libraries and the executable\<close>

primrec find_lib_for :: "region \<Rightarrow> lib_entry list \<Rightarrow> lib_entry list" where
  "find_lib_for r [] = []"
| "find_lib_for r (l # ls) =
     (if l_start l \<noteq> 0 \<or> strstr (rg_file_path r) (l_name l) = None then l # find_lib_for r ls
      else l\<lparr>l_start := rg_start r\<rparr> # ls)"

definition find_lib_regions :: "region list \<Rightarrow> world \<Rightarrow> world" where
  "find_lib_regions rlist w =
     w\<lparr>w_lib := fold (\<lambda>r ls. if rg_type r = REGION_TYPE_CODE \<and> rg_exec r then find_lib_for r ls else ls)
                  rlist (w_lib w)\<rparr>"

primrec find_lib_region :: "region list \<Rightarrow> string \<Rightarrow> ptr \<times> ptr" where
  "find_lib_region [] lib = (0, PTR_MAX)"
| "find_lib_region (r # rs) lib =
     (if \<not> rg_exec r \<or> rg_type r = REGION_TYPE_EXE then find_lib_region rs lib
      else if c_basename (rg_file_path r) = lib then (rg_start r, rg_start r + rg_size r)
      else find_lib_region rs lib)"

text \<open>Start, end and offset of the executable, all 0 if it is not found.\<close>

primrec find_exe_region :: "region list \<Rightarrow> ptr \<times> ptr \<times> ptr" where
  "find_exe_region [] = (0, 0, 0)"
| "find_exe_region (r # rs) =
     (if \<not> (rg_type r = REGION_TYPE_EXE \<and> rg_exec r) then find_exe_region rs
      else (rg_start r, rg_start r + rg_size r, calc_exe_offs (rg_start r)))"

subsection \<open>Messages to the preloaded library\<close>

definition lib_bounds :: "ptr \<Rightarrow> ptr \<Rightarrow> string" where
  "lib_bounds lib_start lib_end = pr_ptr lib_start @ '';'' @ pr_ptr lib_end @ [NL]"

text \<open>
  Appending with \<open>snprintf (obuf + osize, sizeof (obuf) - osize, ...)\<close>: once \<open>osize\<close> is
  larger than the buffer, the size wraps around and the next call overflows.
\<close>

definition emit :: "string \<Rightarrow> string \<Rightarrow> string option" where
  "emit acc s = (if length acc \<le> PIPE_BUF then Some (acc @ s) else None)"

text \<open>
  What \<open>write (ofd, obuf, osize)\<close> sends: with \<open>osize\<close> equal to the buffer size, the last
  character has become the terminating zero; beyond that the write reads behind the buffer.
\<close>

definition sent_text :: "string \<Rightarrow> string option" where
  "sent_text acc = (if length acc < PIPE_BUF then Some acc
     else if length acc = PIPE_BUF then Some (butlast acc @ [NUL]) else None)"

definition lib_offs :: "region list \<Rightarrow> ptr \<Rightarrow> string option \<Rightarrow> ptr" where
  "lib_offs rlist exe_offs lib = (case lib of
     None \<Rightarrow> exe_offs
   | Some l \<Rightarrow> if l = [] then exe_offs else fst (find_lib_region rlist l))"

fun aslr_consts :: "region list \<Rightarrow> ptr \<Rightarrow> dyn_essentials list \<Rightarrow> string \<Rightarrow>
    (dyn_essentials list \<times> string) option" where
  "aslr_consts rlist exe_offs [] acc = Some ([], acc)"
| "aslr_consts rlist exe_offs (e # es) acc = do {
     let offs = lib_offs rlist exe_offs (e_lib e);
     acc \<leftarrow> emit acc (pr_ptr offs @ '';'');
     (es, acc) \<leftarrow> aslr_consts rlist exe_offs es acc;
     Some (e\<lparr>e_code_addr := e_code_addr e + offs\<rparr> # es, acc) }"

definition aslr_dynmem :: "region list \<Rightarrow> ptr \<Rightarrow> dynmem_entry \<Rightarrow> string \<Rightarrow>
    (dynmem_entry \<times> string) option" where
  "aslr_dynmem rlist exe_offs d acc = do {
     let offs = lib_offs rlist exe_offs (e_lib d);
     acc \<leftarrow> emit acc (pr_ptr offs @ '';'');
     let d = d\<lparr>e_code_addr := e_code_addr d + offs\<rparr>;
     (es, acc) \<leftarrow> aslr_consts rlist exe_offs (d_consts d) acc;
     let d = d\<lparr>d_consts := es\<rparr>;
     case d_grow d of
       None \<Rightarrow> Some (d, acc)
     | Some g \<Rightarrow> do {
         let g_offs = lib_offs rlist exe_offs (g_lib g);
         acc \<leftarrow> emit acc (pr_ptr g_offs @ '';'');
         Some (d\<lparr>d_grow := Some (g\<lparr>g_code_addr := g_code_addr g + g_offs\<rparr>)\<rparr>, acc) } }"

primrec aslr_loop :: "region list \<Rightarrow> ptr \<Rightarrow> nat list \<Rightarrow> world \<times> string \<Rightarrow> (world \<times> string) option" where
  "aslr_loop rlist exe_offs [] st = Some st"
| "aslr_loop rlist exe_offs (di # dis) st = do {
     d \<leftarrow> vget (w_dyn (fst st)) di;
     (d', acc) \<leftarrow> aslr_dynmem rlist exe_offs d (snd st);
     aslr_loop rlist exe_offs dis ((fst st)\<lparr>w_dyn := (w_dyn (fst st))[di := d']\<rparr>, acc) }"

text \<open>
  \<open>handle_aslr\<close> after the notification has been read: the new state and what is written to the
  output FIFO (\<open>None\<close>: nothing). \<open>disc_str\<close> and \<open>disc_lib\<close> are the discovery options; a
  library that starts with the byte 1 stands for the executable.
\<close>

definition SOH :: char where "SOH = CHR 0x01"

definition handle_aslr ::
  "string \<Rightarrow> string \<Rightarrow> region list \<Rightarrow> world \<Rightarrow> (world \<times> string option) option" where
  "handle_aslr disc_str disc_lib rlist w =
     (let (exe_start, exe_end, exe_offs) = find_exe_region rlist;
          w1 = (find_lib_regions rlist w)\<lparr>w_code_offs := exe_offs\<rparr>
      in if w_pure_statmem w then Some (w1, None)
         else if disc_str \<noteq> [] then
           (case disc_lib of
              [] \<Rightarrow> Some (w1, None)
            | ch # _ \<Rightarrow>
                if ch = SOH
                then Some (w1, Some (pr_ptr exe_start @ '';'' @ pr_ptr exe_end @ '';'' @
                             pr_ptr exe_offs @ [NL]))
                else (case find_lib_region rlist disc_lib of (lib_start, lib_end) \<Rightarrow>
                        Some (w1, Some (lib_bounds lib_start lib_end))))
         else do {
           (w2, acc) \<leftarrow> aslr_loop rlist exe_offs (dyn_visits None (w_cfg w1)) (w1, []);
           offs \<leftarrow> sent_text acc;
           Some (w2, Some offs) })"

subsection \<open>The stack\<close>

definition stack_check :: "ptr \<Rightarrow> nat \<Rightarrow> nat \<Rightarrow> world \<Rightarrow> world option" where
  "stack_check stack_end ci ki w = do {
     k \<leftarrow> get_check ci ki w;
     if \<not> t_on_stack (k_type k) then Some w
     else do {
       w \<leftarrow> move_cache (k_cache k) (\<lambda>a. stack_end - a) w;
       mod_check ci ki (\<lambda>k. k\<lparr>k_addr := stack_end - k_addr k,
                              k_type := (k_type k)\<lparr>t_on_stack := False\<rparr>\<rparr>) w } }"

definition stack_cfg :: "ptr \<Rightarrow> nat \<Rightarrow> world \<Rightarrow> world option" where
  "stack_cfg stack_end ci w = do {
     c \<leftarrow> vget (w_cfg w) ci;
     if c_dynmem c \<noteq> None \<or> c_ptrmem c \<noteq> None then Some w
     else do {
       w \<leftarrow> (if \<not> t_on_stack (c_type c) then Some w
             else do {
               w \<leftarrow> move_cache (c_cache c) (\<lambda>a. stack_end - a) w;
               mod_cfg ci (\<lambda>c. Some (c\<lparr>c_addr := stack_end - c_addr c,
                                       c_type := (c_type c)\<lparr>t_on_stack := False\<rparr>\<rparr>)) w });
       fold_opt (stack_check stack_end ci) [0..<length (c_checks c)] w } }"

definition process_stack_end :: "world \<Rightarrow> world option" where
  "process_stack_end w =
     (if \<not> w_val_on_stack w then Some w
      else do {
        w \<leftarrow> fold_opt (stack_cfg (w_stack_end w)) [0..<length (w_cfg w)] w;
        Some (w\<lparr>w_stack_cache := map clear_dirty (w_stack_cache w)\<rparr>) })"

text \<open>The trainer while it runs, with what it has written to the FIFO; or after \<open>exit\<close>.\<close>

datatype tstate = TRun world "string list" | TExit | TUndef

definition t_opt :: "string list \<Rightarrow> world option \<Rightarrow> tstate" where
  "t_opt out r = (case r of None \<Rightarrow> TUndef | Some w \<Rightarrow> TRun w out)"

definition verify_stack_end :: "ptr \<Rightarrow> world \<Rightarrow> string list \<Rightarrow> tstate" where
  "verify_stack_end stack_end w out =
     (if w_stack_end w = stack_end then TRun w out
      else if w_stack_end w = 0 then t_opt out (process_stack_end (w\<lparr>w_stack_end := stack_end\<rparr>))
      else TExit)"

definition get_stack_bounds :: "region list \<Rightarrow> world \<Rightarrow> world" where
  "get_stack_bounds rlist w =
     (case find_stack_bounds rlist (w_stack_rstart w, w_stack_rend w) of (s, e) \<Rightarrow>
        w\<lparr>w_stack_rstart := s, w_stack_rend := e\<rparr>)"

definition handle_stack_end :: "string option \<Rightarrow> region list \<Rightarrow> world \<Rightarrow> tstate" where
  "handle_stack_end stat rlist w =
     (let w1 = get_stack_bounds rlist w;
          se = get_stack_end stat (w_stack_rstart w1) (w_stack_rend w1);
          se' = (if se = w_stack_rstart w1 then 0 else se);
          w2 = w1\<lparr>w_stack_end := se'\<rparr>
      in if se' \<noteq> 0 then t_opt [] (process_stack_end w2)
         else if w_pure_statmem w2 \<and> w_val_on_stack w2 then TExit
         else TRun w2 [])"

definition get_heap_region :: "region list \<Rightarrow> world \<Rightarrow> world" where
  "get_heap_region rlist w =
     (case find_heap_region rlist (w_heap_start w, w_heap_end w) of (s, e) \<Rightarrow>
        w\<lparr>w_heap_start := s, w_heap_end := e\<rparr>)"

subsection \<open>Late PIC handling\<close>

definition late_code :: "string \<Rightarrow> ptr \<Rightarrow> dynmem_entry \<Rightarrow> dynmem_entry" where
  "late_code lib_name lib_start d =
     d\<lparr>e_code_addr := (if e_lib d = Some lib_name then e_code_offs d + lib_start else e_code_addr d),
       d_grow := map_option (\<lambda>g. if g_lib g = Some lib_name
                                 then g\<lparr>g_code_addr := g_code_offs g + lib_start\<rparr> else g) (d_grow d)\<rparr>"

definition get_lib_load_addr :: "region list \<Rightarrow> string \<Rightarrow> world \<Rightarrow> string list \<Rightarrow> tstate" where
  "get_lib_load_addr rlist lib_name w out =
     (case find_lib_region rlist lib_name of (lib_start, lib_end) \<Rightarrow>
        if lib_start = 0 then TRun w out
        else t_opt (out @ [lib_bounds lib_start lib_end])
               (fold_opt (\<lambda>di. mod_dyn di (\<lambda>d. Some (late_code lib_name lib_start d)))
                  (dyn_visits None (w_cfg w)) w))"

text \<open>Discovery: the reply to a library that has been loaded (\<open>handle_disc_pic\<close>).\<close>

definition send_bt_addrs :: "string \<Rightarrow> region_map \<Rightarrow> string list \<Rightarrow> int \<times> string list" where
  "send_bt_addrs disc_lib m out =
     (if rm_exec m \<noteq> CHR ''x'' then (0, out)
      else if c_basename (rm_file_path m) \<noteq> disc_lib then (0, out)
      else (1, out @ [lib_bounds (rm_start m) (rm_end m)]))"

definition handle_disc_pic :: "string option \<Rightarrow> string \<Rightarrow> string \<Rightarrow> string list \<Rightarrow> string list" where
  "handle_disc_pic maps disc_lib lib_name out =
     (if disc_lib \<noteq> [] \<and> hd disc_lib \<noteq> SOH \<and> lib_name = disc_lib then
        (case read_maps (send_bt_addrs disc_lib) maps out of (ret, out') \<Rightarrow>
           if ret = 0 then out' @ [lib_bounds 0 PTR_MAX] else out')
      else out)"

subsection \<open>The trainer as a client of the FIFO\<close>

definition t_upd :: "(world \<Rightarrow> string list \<Rightarrow> tstate) \<Rightarrow> tstate \<Rightarrow> tstate" where
  "t_upd f t = (case t of TRun w out \<Rightarrow> f w out | _ \<Rightarrow> t)"

definition trainer_mf where
  "trainer_mf t pp a n co ca so = t_upd (\<lambda>w out. t_opt out (queue_dynmem_addr pp a n co ca so w)) t"

definition trainer_ff where
  "trainer_ff t a = t_upd (\<lambda>w out. t_opt out (clear_dynmem_addr a w)) t"

definition trainer_lf where
  "trainer_lf rlist t name = t_upd (get_lib_load_addr rlist name) t"

definition trainer_sf where
  "trainer_sf t a = t_upd (verify_stack_end a) t"

text \<open>\<open>read_dynmem_fifo\<close> of the trainer with its callbacks.\<close>

definition trainer_cb :: "region list \<Rightarrow> tstate parse_cb" where
  "trainer_cb rlist = \<lparr>cb_mf = Some trainer_mf, cb_ff = Some trainer_ff,
     cb_lf = Some (trainer_lf rlist), cb_sf = Some trainer_sf\<rparr>"

end
