(* ===== verification/MallocQueue.thy ===== *)
theory MallocQueue
  imports Memmgmt FifoStream
begin

text \<open>
  The malloc queue as an abstract queue. The trainer queues the text of every allocation
  message, removes a message again when its object is freed before the queue is processed,
  and finally parses what is left. The contract is the locale \<open>malloc_queue\<close>; the code's
  buffer operations are an instance.
\<close>

subsection \<open>The interface\<close>

text \<open>A queued allocation: address, size and code address.\<close>

type_synonym alloc = "ptr \<times> 64 word \<times> ptr"

fun msg_of :: "alloc \<Rightarrow> msg" where "msg_of (a, n, c) = MMalloc a n c"

text \<open>Remove the first allocation of an address.\<close>

fun remove_addr :: "ptr \<Rightarrow> alloc list \<Rightarrow> alloc list" where
  "remove_addr x [] = []"
| "remove_addr x (m # ms) = (if fst m = x then ms else m # remove_addr x ms)"

text \<open>Running queue operations: an allocation is \<open>Inl\<close>, a release is \<open>Inr\<close>; the list of
  pending allocations that results; and that there is room for every allocation.\<close>

fun q_run :: "(alloc \<Rightarrow> 'q \<Rightarrow> 'q option) \<Rightarrow> (ptr \<Rightarrow> 'q \<Rightarrow> (bool \<times> 'q) option) \<Rightarrow>
    (alloc + ptr) list \<Rightarrow> 'q \<Rightarrow> 'q option" where
  "q_run enq del [] q = Some q"
| "q_run enq del (Inl m # es) q = enq m q \<bind> q_run enq del es"
| "q_run enq del (Inr x # es) q = del x q \<bind> (\<lambda>(_, q'). q_run enq del es q')"

fun q_spec :: "(alloc + ptr) list \<Rightarrow> alloc list \<Rightarrow> alloc list" where
  "q_spec [] ms = ms"
| "q_spec (Inl m # es) ms = q_spec es (ms @ [m])"
| "q_spec (Inr x # es) ms = q_spec es (remove_addr x ms)"

fun q_fits :: "('q \<Rightarrow> alloc \<Rightarrow> bool) \<Rightarrow> (alloc \<Rightarrow> 'q \<Rightarrow> 'q option) \<Rightarrow>
    (ptr \<Rightarrow> 'q \<Rightarrow> (bool \<times> 'q) option) \<Rightarrow> (alloc + ptr) list \<Rightarrow> 'q \<Rightarrow> bool" where
  "q_fits room enq del [] q = True"
| "q_fits room enq del (Inl m # es) q =
     (room q m \<and> (case enq m q of Some q' \<Rightarrow> q_fits room enq del es q' | None \<Rightarrow> True))"
| "q_fits room enq del (Inr x # es) q =
     (case del x q of Some (b, q') \<Rightarrow> q_fits room enq del es q' | None \<Rightarrow> True)"

locale malloc_queue =
  fixes holds :: "'q \<Rightarrow> alloc list \<Rightarrow> bool"
    and room :: "'q \<Rightarrow> alloc \<Rightarrow> bool"
    and enq :: "alloc \<Rightarrow> 'q \<Rightarrow> 'q option"
    and del :: "ptr \<Rightarrow> 'q \<Rightarrow> (bool \<times> 'q) option"
    and empty :: "'q \<Rightarrow> 'q"
  assumes holds_empty: "holds q ms \<Longrightarrow> holds (empty q) []"
    and holds_enq: "holds q ms \<Longrightarrow> room q m \<Longrightarrow> \<exists>q'. enq m q = Some q' \<and> holds q' (ms @ [m])"
    and holds_del: "holds q ms \<Longrightarrow>
      \<exists>q'. del x q = Some (x \<in> fst ` set ms, q') \<and> holds q' (remove_addr x ms)"
begin

lemma run_refines:
  "holds q ms \<Longrightarrow> q_fits room enq del es q \<Longrightarrow>
     \<exists>q'. q_run enq del es q = Some q' \<and> holds q' (q_spec es ms)"
proof (induction es arbitrary: q ms)
  case Nil
  then show ?case by simp
next
  case (Cons e es)
  show ?case
  proof (cases e)
    case (Inl m)
    with Cons.prems obtain q' where "enq m q = Some q'" "holds q' (ms @ [m])"
      using holds_enq by fastforce
    with Cons.IH [of q' "ms @ [m]"] Cons.prems Inl show ?thesis by simp
  next
    case (Inr x)
    with Cons.prems obtain q' where "del x q = Some (x \<in> fst ` set ms, q')"
      "holds q' (remove_addr x ms)" using holds_del by blast
    with Cons.IH [of q' "remove_addr x ms"] Cons.prems Inr show ?thesis by simp
  qed
qed

end

subsection \<open>The buffer\<close>

text \<open>The text of a list of allocations.\<close>

definition astream :: "alloc list \<Rightarrow> string" where
  "astream ms = concat (map (\<lambda>m. render (msg_of m)) ms)"

lemma astream_simps [simp]:
  "astream [] = []" "astream (m # ms) = render (msg_of m) @ astream ms"
  "astream (ms @ ms') = astream ms @ astream ms'"
  by (simp_all add: astream_def)

text \<open>
  The buffer holds the text of the allocations followed by a NUL; what is behind that NUL
  does not matter, a removal leaves old text there.
\<close>

definition mq_holds :: "mqueue \<Rightarrow> alloc list \<Rightarrow> bool" where
  "mq_holds mq ms \<longleftrightarrow> mq_end mq = length (astream ms) \<and>
     take (mq_end mq + 1) (mq_data mq) = astream ms @ [NUL]"

definition mq_room :: "mqueue \<Rightarrow> alloc \<Rightarrow> bool" where
  "mq_room mq m \<longleftrightarrow> mq_end mq + length (render (msg_of m)) < length (mq_data mq)"

lemma mq_holds_iff:
  "mq_holds mq ms \<longleftrightarrow>
     mq_end mq = length (astream ms) \<and> (\<exists>junk. mq_data mq = astream ms @ NUL # junk)"
proof
  assume h: "mq_holds mq ms"
  then have "mq_data mq = (astream ms @ [NUL]) @ drop (mq_end mq + 1) (mq_data mq)"
    unfolding mq_holds_def by (metis append_take_drop_id)
  with h show "mq_end mq = length (astream ms) \<and> (\<exists>junk. mq_data mq = astream ms @ NUL # junk)"
    by (auto simp: mq_holds_def)
next
  assume "mq_end mq = length (astream ms) \<and> (\<exists>junk. mq_data mq = astream ms @ NUL # junk)"
  then show "mq_holds mq ms" by (auto simp: mq_holds_def)
qed

lemma render_alloc_chars:
  "\<exists>body. render (msg_of m) = CHR ''m'' # body @ [NL] \<and> (\<forall>c \<in> set body. c \<noteq> NL \<and> c \<noteq> NUL)"
  by (cases m) (auto simp: render_def dest: pr_safe)

lemma render_alloc_len: "2 \<le> length (render (msg_of m))"
  by (cases m) simp

text \<open>Enqueueing.\<close>

lemma queue_msg_holds:
  assumes "mq_holds mq ms" "mq_room mq m"
  shows "\<exists>mq'. queue_msg (render (msg_of m)) mq = Some mq' \<and> mq_holds mq' (ms @ [m])"
proof -
  let ?s = "render (msg_of m)"
  obtain junk where d: "mq_data mq = astream ms @ NUL # junk" and e: "mq_end mq = length (astream ms)"
    using assms(1) by (auto simp: mq_holds_iff)
  have room: "length ?s \<le> length junk" using assms(2) by (simp add: mq_room_def d e)
  then have sn: "snprintf_s (mq_data mq) (mq_end mq) ?s = astream ms @ ?s @ NUL # drop (length ?s) junk"
    by (simp add: snprintf_s_def overwrite_def d e)
  let ?mq' = "mq\<lparr>mq_data := astream ms @ ?s @ NUL # drop (length ?s) junk,
    mq_end := mq_end mq + length ?s\<rparr>"
  have "\<not> int (length (mq_data mq) - mq_end mq) - 1 < int (length ?s)"
    using room by (simp add: d e del: length_render)
  then have "queue_msg ?s mq = Some ?mq'" unfolding queue_msg_def Let_def sn by (rule if_not_P)
  moreover have "mq_holds ?mq' (ms @ [m])" by (simp add: mq_holds_iff e)
  ultimately show ?thesis by blast
qed

text \<open>Removal: the search walks over whole messages.\<close>

lemma rm_malloc_step:
  assumes "strchr (mq_data mq) ps NL = Some nl"
    "scan_ptr (cstr (drop ps (mq_data mq))) = Some (a, r)"
  shows "a = x \<Longrightarrow> 0 < nl \<Longrightarrow> nl < mq_end mq \<Longrightarrow> mq_end mq < length (mq_data mq) \<Longrightarrow> 0 < ps \<Longrightarrow>
      rm_malloc_from x ps mq = Some (True, mq\<lparr>
        mq_data := overwrite (mq_data mq) (ps - 1)
                     (take (mq_end mq - nl) (drop (nl + 1) (mq_data mq))),
        mq_end := mq_end mq - (nl + 1 - (ps - 1))\<rparr>)"
    and "a \<noteq> x \<Longrightarrow> mq_end mq \<le> nl + 2 \<Longrightarrow> rm_malloc_from x ps mq = Some (False, mq)"
    and "a \<noteq> x \<Longrightarrow> \<not> mq_end mq \<le> nl + 2 \<Longrightarrow>
      rm_malloc_from x ps mq = rm_malloc_from x (nl + 2) mq"
  by (simp_all add: rm_malloc_from.simps [of x ps] assms Let_def nat_diff_distrib)

lemma scan_alloc:
  "scan_ptr (cstr (drop 1 (render (MMalloc a n c) @ rest))) =
     Some (a, cstr (drop (1 + length (pr_ptr a)) (render (MMalloc a n c) @ rest)))"
  using pr_safe by (simp add: render_def cstr_append cstr_Cons ctext_simps)

text \<open>One round of the search at the start of the message of \<open>m\<close>.\<close>

lemma rm_malloc_at:
  assumes h: "mq_holds mq (ms1 @ m # ms2)"
  defines "p \<equiv> length (astream ms1)"
  defines "me \<equiv> p + length (render (msg_of m))"
  shows "strchr (mq_data mq) (p + 1) NL = Some (me - 1)"
    and "\<exists>r. scan_ptr (cstr (drop (p + 1) (mq_data mq))) = Some (fst m, r)"
    and "\<exists>junk. mq_data mq = astream ms1 @ render (msg_of m) @ astream ms2 @ NUL # junk"
    and "mq_end mq = me + length (astream ms2)" and "p + 2 \<le> me"
proof -
  obtain junk where d: "mq_data mq = astream ms1 @ render (msg_of m) @ astream ms2 @ NUL # junk"
    and e: "mq_end mq = me + length (astream ms2)"
    using h by (auto simp: mq_holds_iff p_def me_def)
  obtain body where b: "render (msg_of m) = CHR ''m'' # body @ [NL]"
      "\<forall>c \<in> set body. c \<noteq> NL \<and> c \<noteq> NUL" using render_alloc_chars by blast
  have "drop (p + 1) (mq_data mq) = body @ NL # astream ms2 @ NUL # junk"
    by (simp add: d b(1) p_def)
  then have "strchr (mq_data mq) (p + 1) NL = Some (p + 1 + length body)"
    using b(2) by (intro strchr_skip) auto
  then show "strchr (mq_data mq) (p + 1) NL = Some (me - 1)" by (simp add: me_def b(1))
  obtain a n c where m: "m = (a, n, c)" by (cases m)
  have "drop (p + 1) (mq_data mq) = drop 1 (render (MMalloc a n c) @ astream ms2 @ NUL # junk)"
    by (simp add: d m p_def)
  then have "scan_ptr (cstr (drop (p + 1) (mq_data mq))) =
    scan_ptr (cstr (drop 1 (render (MMalloc a n c) @ astream ms2 @ NUL # junk)))" by (rule arg_cong)
  then show "\<exists>r. scan_ptr (cstr (drop (p + 1) (mq_data mq))) = Some (fst m, r)"
    by (simp only: scan_alloc m) simp
  show "\<exists>junk. mq_data mq = astream ms1 @ render (msg_of m) @ astream ms2 @ NUL # junk"
    using d by blast
  show "mq_end mq = me + length (astream ms2)" by (fact e)
  show "p + 2 \<le> me" by (simp add: me_def b(1))
qed

lemma rm_malloc_found:
  assumes h: "mq_holds mq (ms1 @ m # ms2)"
  shows "\<exists>mq'. rm_malloc_from (fst m) (length (astream ms1) + 1) mq = Some (True, mq') \<and>
    mq_holds mq' (ms1 @ ms2)"
proof -
  note at = rm_malloc_at [OF h]
  let ?p = "length (astream ms1)"
  let ?me = "?p + length (render (msg_of m))"
  obtain r where sc: "scan_ptr (cstr (drop (?p + 1) (mq_data mq))) = Some (fst m, r)" using at(2) ..
  obtain junk where d: "mq_data mq = astream ms1 @ render (msg_of m) @ astream ms2 @ NUL # junk"
    using at(3) ..
  have e: "mq_end mq - (?me - 1) = Suc (length (astream ms2))" "?me - 1 + 1 = ?me"
    "0 < ?me - 1" "?me - 1 < mq_end mq" "mq_end mq < length (mq_data mq)"
    using at(4,5) by (simp_all add: d del: length_render length_greater_0_conv)
  have "drop ?me (mq_data mq) = astream ms2 @ NUL # junk" by (simp add: d)
  then have ov: "overwrite (mq_data mq) ?p (take (Suc (length (astream ms2))) (drop ?me (mq_data mq))) =
    astream ms1 @ astream ms2 @ NUL # drop (?p + Suc (length (astream ms2))) (mq_data mq)"
    by (simp add: overwrite_def) (simp add: d)
  have n: "mq_end mq - (?me - ?p) = ?p + length (astream ms2)" using at(4) by simp
  have "rm_malloc_from (fst m) (?p + 1) mq = Some (True, mq\<lparr>
      mq_data := astream ms1 @ astream ms2 @ NUL # drop (?p + Suc (length (astream ms2))) (mq_data mq),
      mq_end := ?p + length (astream ms2)\<rparr>)"
    using rm_malloc_step(1) [OF at(1) sc refl e(3,4,5)]
    by (simp only: e(1,2) ov n add_diff_cancel_right' simp_thms less_add_one add_gr_0 zero_less_one)
  moreover have "mq_holds (mq\<lparr>
      mq_data := astream ms1 @ astream ms2 @ NUL # drop (?p + Suc (length (astream ms2))) (mq_data mq),
      mq_end := ?p + length (astream ms2)\<rparr>) (ms1 @ ms2)" by (simp add: mq_holds_iff)
  ultimately show ?thesis by blast
qed

lemma rm_malloc_walk:
  "mq_holds mq (ms1 @ ms2) \<Longrightarrow> ms2 \<noteq> [] \<Longrightarrow>
     \<exists>mq'. rm_malloc_from x (length (astream ms1) + 1) mq = Some (x \<in> fst ` set ms2, mq') \<and>
       mq_holds mq' (ms1 @ remove_addr x ms2)"
proof (induction ms2 arbitrary: ms1)
  case (Cons m ms2)
  show ?case
  proof (cases "fst m = x")
    case True
    with rm_malloc_found [OF Cons.prems(1)] show ?thesis by auto
  next
    case False
    note at = rm_malloc_at [OF Cons.prems(1)]
    let ?p = "length (astream ms1)"
    let ?me = "?p + length (render (msg_of m))"
    obtain r where sc: "scan_ptr (cstr (drop (?p + 1) (mq_data mq))) = Some (fst m, r)" using at(2) ..
    have me: "?me - 1 + 2 = ?me + 1" using at(5) by linarith
    show ?thesis
    proof (cases ms2)
      case Nil
      with at(4) have "mq_end mq \<le> ?me + 1" by simp
      then have "rm_malloc_from x (?p + 1) mq = Some (False, mq)"
        using rm_malloc_step(2) [OF at(1) sc False] unfolding me by blast
      with Nil False Cons.prems(1) show ?thesis by simp
    next
      case (Cons m' ms')
      have "2 \<le> length (render (msg_of m'))" by (rule render_alloc_len)
      with Cons at(4) have "\<not> mq_end mq \<le> ?me + 1"
        by (simp del: length_render length_greater_0_conv)
      then have "rm_malloc_from x (?p + 1) mq = rm_malloc_from x (?me + 1) mq"
        using rm_malloc_step(3) [OF at(1) sc False] unfolding me by blast
      moreover have "\<exists>mq'. rm_malloc_from x (length (astream (ms1 @ [m])) + 1) mq =
          Some (x \<in> fst ` set ms2, mq') \<and> mq_holds mq' ((ms1 @ [m]) @ remove_addr x ms2)"
        using Cons.prems(1) Cons by (intro Cons.IH) simp_all
      ultimately show ?thesis using False by simp
    qed
  qed
qed simp

lemma remove_malloc_holds:
  assumes "mq_holds mq ms"
  shows "\<exists>mq'. remove_malloc_from_queue mq x = Some (x \<in> fst ` set ms, mq') \<and>
    mq_holds mq' (remove_addr x ms)"
proof (cases ms)
  case Nil
  with assms show ?thesis by (simp add: remove_malloc_from_queue_def mq_holds_iff)
next
  case (Cons m ms')
  have "2 \<le> length (render (msg_of m))" by (rule render_alloc_len)
  then have "mq_end mq \<noteq> 0" using assms Cons by (auto simp: mq_holds_iff)
  then have "remove_malloc_from_queue mq x = rm_malloc_from x (length (astream []) + 1) mq"
    by (simp add: remove_malloc_from_queue_def)
  moreover have "mq_holds mq ([] @ ms)" "ms \<noteq> []" using assms Cons by simp_all
  note rm_malloc_walk [OF this, of x]
  ultimately show ?thesis by (simp only: append_Nil)
qed

lemma mq_reset_holds: "mq_holds mq ms \<Longrightarrow> mq_holds (mq_reset mq) []"
  by (auto simp: mq_holds_iff mq_reset_def)

interpretation lmq: malloc_queue mq_holds mq_room "\<lambda>m. queue_msg (render (msg_of m))"
  "\<lambda>x mq. remove_malloc_from_queue mq x" mq_reset
  by unfold_locales (blast intro: mq_reset_holds queue_msg_holds remove_malloc_holds)+

subsection \<open>Processing the queue\<close>

text \<open>The allocations are handed to \<open>alloc_dynmem_addr\<close> in the order of the queue.\<close>

definition alloc_all :: "alloc list \<Rightarrow> world \<Rightarrow> world option" where
  "alloc_all = fold_opt (\<lambda>(a, n, c). alloc_dynmem_addr a n 0 c 0)"

interpretation alloc_client: fifo_client
  "\<lambda>s pp a n co ca so. s \<bind> alloc_dynmem_addr a n co ca so"
  "\<lambda>s txt a n co ca so. s \<bind> alloc_dynmem_addr a n co ca so"
  "\<lambda>s a. s" "\<lambda>s name. s" "\<lambda>s a. s"
  by unfold_locales simp

lemma parse_allocs:
  "\<exists>ret ibuf' ilen'. parse_fwd (Some mallocs_cb) (PARSE_S OR PARSE_C) 0
       (astream ms @ NUL # junk) (int (length (astream ms))) tmp s =
     Fifo_ok ret ibuf' ilen' (s \<bind> alloc_all ms)"
proof (induction ms arbitrary: junk tmp s)
  case Nil
  have "strchr (NUL # junk) 0 NL = None" by (intro strchr_None) simp
  then show ?case by (simp add: parse_fwd.simps alloc_all_def)
next
  case (Cons m ms)
  obtain a n c where m: "m = (a, n, c)" by (cases m)
  let ?r = "render (msg_of m)"
  let ?rest = "astream ms @ NUL # junk"
  let ?l = "length (msg_body (msg_of m))"
  let ?s = "s \<bind> alloc_dynmem_addr a n 0 c 0"
  have nl: "strchr (?r @ ?rest) 0 NL = Some (0 + ?l)"
    by (rule strchr_skip [where ys = ?rest]) (auto simp: render_def m dest: pr_safe)
  have "parse_m (\<lambda>s pp a n co ca so. s \<bind> alloc_dynmem_addr a n co ca so) (PARSE_S OR PARSE_C) 0
      (?r @ ?rest) 1 ?l s = Inr ?s"
    using alloc_client.parse_m_render [of "?r @ ?rest" a n c ?rest ?l 0 s] by (simp add: m)
  then have msg: "parse_msg (Some mallocs_cb) (PARSE_S OR PARSE_C) 0 (?r @ ?rest) 0 ?l s = Inr ?s"
    by (simp add: parse_msg_def Let_def m render_def cstr_Cons mallocs_cb_def)
  have sh: "shift_front (?l + 1) (nat (int (length (astream (m # ms))))) (?r @ ?rest) =
    astream ms @ NUL # (replicate ?l NUL @ NUL # junk)"
    by (simp add: shift_front_def del: length_render)
      (simp add: replicate_append_same [symmetric])
  have len: "int (?l + 1) \<le> int (length (astream (m # ms)))"
    "int (length (astream (m # ms))) \<le> int (length (?r @ ?rest))"
    "int (length (astream (m # ms))) - int (?l + 1) = int (length (astream ms))" by simp_all
  obtain ret ibuf' ilen' where ih: "parse_fwd (Some mallocs_cb) (PARSE_S OR PARSE_C) 0
      (astream ms @ NUL # (replicate ?l NUL @ NUL # junk)) (int (length (astream ms))) (?l + 1) ?s =
    Fifo_ok ret ibuf' ilen' (?s \<bind> alloc_all ms)" using Cons.IH by blast
  have "parse_fwd (Some mallocs_cb) (PARSE_S OR PARSE_C) 0 (?r @ ?rest)
      (int (length (astream (m # ms)))) tmp s = Fifo_ok ret ibuf' ilen' (?s \<bind> alloc_all ms)"
    unfolding parse_fwd.simps [of _ _ _ "?r @ ?rest"]
    using nl msg sh len ih by (simp only: add_0 option.case sum.case Let_def simp_thms if_True)
  moreover have "?s \<bind> alloc_all ms = s \<bind> alloc_all (m # ms)"
    by (cases s) (simp_all add: alloc_all_def m)
  ultimately show ?case by auto
qed

lemma alloc_addr_in_mq:
  "alloc_addr_in a n c cs w = Some w' \<Longrightarrow> w_mq w' = w_mq w"
  by (induction cs) (auto simp: bind_eq_Some_conv mod_dyn_def split: option.splits if_splits)

lemma alloc_all_mq: "alloc_all ms w = Some w' \<Longrightarrow> w_mq w' = w_mq w"
  unfolding alloc_all_def
  by (rule fold_opt_pres [where I = "\<lambda>v. w_mq v = w_mq w" and f = "\<lambda>(a, n, c). alloc_dynmem_addr a n 0 c 0"])
    (auto simp: alloc_dynmem_addr_def alloc_addr_in_mq)

lemma process_mallocs_eq:
  assumes "mq_holds (w_mq w) ms"
  shows "process_mallocs (PARSE_S OR PARSE_C) w =
    alloc_all ms w \<bind> (\<lambda>w'. Some (w'\<lparr>w_mq := mq_reset (w_mq w)\<rparr>))"
proof -
  obtain junk where d: "mq_data (w_mq w) = astream ms @ NUL # junk"
    "mq_end (w_mq w) = length (astream ms)" using assms by (auto simp: mq_holds_iff)
  obtain ret ibuf' ilen' where p: "parse_fwd (Some mallocs_cb) (PARSE_S OR PARSE_C) 0
      (astream ms @ NUL # junk) (int (length (astream ms))) (length (astream ms)) (Some w) =
    Fifo_ok ret ibuf' ilen' (Some w \<bind> alloc_all ms)" using parse_allocs by blast
  show ?thesis
    by (cases "alloc_all ms w") (simp_all add: process_mallocs_def parse_dynmem_buf_def d p alloc_all_mq)
qed

end
