(* ===== verification/MemmgmtInv.thy ===== *)
theory MemmgmtInv
  imports MallocQueue
begin

text \<open>
  Correctness of the object tables. The values of a config entry are rows parallel to the
  addresses of its class, and the fields behind a pointer are rows parallel to it. The
  operations of \<open>src/src/memmgmt.cpp\<close> edit these vectors one by one; here it is shown that
  all rows stay attached to their objects. A loop over the config entries edits disjoint
  footprints: the locale \<open>row_op\<close> composes such edits, and freeing and allocating values
  are its instances.
\<close>

subsection \<open>Edits of the tables by index\<close>

definition imap :: "(nat \<Rightarrow> 'a \<Rightarrow> 'a) \<Rightarrow> 'a list \<Rightarrow> 'a list" where
  "imap f xs = map (\<lambda>i. f i (xs ! i)) [0..<length xs]"

lemma length_imap [simp]: "length (imap f xs) = length xs"
  by (simp add: imap_def)

lemma nth_imap [simp]: "i < length xs \<Longrightarrow> imap f xs ! i = f i (xs ! i)"
  by (simp add: imap_def)

lemma imap_imap [simp]: "imap f (imap g xs) = imap (\<lambda>i x. f i (g i x)) xs"
  by (rule nth_equalityI) simp_all

lemma imap_id [simp]: "imap (\<lambda>i x. x) xs = xs"
  by (rule nth_equalityI) simp_all

lemma imap_cong: "(\<And>i. i < length xs \<Longrightarrow> f i (xs ! i) = g i (xs ! i)) \<Longrightarrow> imap f xs = imap g xs"
  by (rule nth_equalityI) simp_all

lemma upd_imap: "i < length xs \<Longrightarrow> xs[i := f (xs ! i)] = imap (\<lambda>k x. if k = i then f x else x) xs"
  by (rule nth_equalityI) (auto simp: nth_list_update)

definition wmap :: "(nat \<Rightarrow> cfg_entry \<Rightarrow> cfg_entry) \<Rightarrow> (nat \<Rightarrow> ptrmem_entry \<Rightarrow> ptrmem_entry) \<Rightarrow> world \<Rightarrow> world" where
  "wmap f g w = w\<lparr>w_cfg := imap f (w_cfg w), w_ptr := imap g (w_ptr w)\<rparr>"

lemma wmap_sel [simp]:
  "w_cfg (wmap f g w) = imap f (w_cfg w)" "w_ptr (wmap f g w) = imap g (w_ptr w)"
  "w_dyn (wmap f g w) = w_dyn w" "w_mq (wmap f g w) = w_mq w"
  by (simp_all add: wmap_def)

lemma wmap_wmap [simp]:
  "wmap f g (wmap f' g' w) = wmap (\<lambda>i x. f i (f' i x)) (\<lambda>i x. g i (g' i x)) w"
  by (simp add: wmap_def)

lemma wmap_id [simp]: "wmap (\<lambda>i x. x) (\<lambda>i x. x) w = w"
  by (simp add: wmap_def)

lemma wmap_cong:
  assumes "\<And>i. i < length (w_cfg w) \<Longrightarrow> f i (w_cfg w ! i) = f' i (w_cfg w ! i)"
    "\<And>i. i < length (w_ptr w) \<Longrightarrow> g i (w_ptr w ! i) = g' i (w_ptr w ! i)"
  shows "wmap f g w = wmap f' g' w"
proof -
  have "imap f (w_cfg w) = imap f' (w_cfg w)" using assms(1) by (intro imap_cong)
  moreover have "imap g (w_ptr w) = imap g' (w_ptr w)" using assms(2) by (intro imap_cong)
  ultimately show ?thesis by (simp add: wmap_def)
qed

text \<open>A change through a pointer that succeeds is such an edit.\<close>

lemma mod_cfg_wmap:
  "i < length (w_cfg w) \<Longrightarrow> f (w_cfg w ! i) = Some (g (w_cfg w ! i)) \<Longrightarrow>
     mod_cfg i f w = Some (wmap (\<lambda>k c. if k = i then g c else c) (\<lambda>k p. p) w)"
  by (simp add: mod_cfg_def vget_def wmap_def upd_imap)

lemma mod_ptr_wmap:
  "i < length (w_ptr w) \<Longrightarrow> f (w_ptr w ! i) = Some (g (w_ptr w ! i)) \<Longrightarrow>
     mod_ptr i f w = Some (wmap (\<lambda>k c. c) (\<lambda>k p. if k = i then g p else p) w)"
  by (simp add: mod_ptr_def vget_def wmap_def upd_imap)

lemma fold_mod_cfg:
  assumes "distinct ks" "\<forall>k \<in> set ks. k < length (w_cfg w) \<and> f (w_cfg w ! k) = Some (g (w_cfg w ! k))"
  shows "fold_opt (\<lambda>k. mod_cfg k f) ks w = Some (wmap (\<lambda>k c. if k \<in> set ks then g c else c) (\<lambda>k p. p) w)"
  using assms
proof (induction ks arbitrary: w)
  case (Cons k ks)
  let ?w = "wmap (\<lambda>i c. if i = k then g c else c) (\<lambda>k p. p) w"
  have "mod_cfg k f w = Some ?w" using Cons.prems by (simp add: mod_cfg_wmap)
  moreover have "fold_opt (\<lambda>k. mod_cfg k f) ks ?w =
      Some (wmap (\<lambda>k c. if k \<in> set ks then g c else c) (\<lambda>k p. p) ?w)"
    using Cons.prems by (intro Cons.IH) auto
  moreover have "wmap (\<lambda>k c. if k \<in> set ks then g c else c) (\<lambda>k p. p) ?w =
      wmap (\<lambda>i c. if i \<in> set (k # ks) then g c else c) (\<lambda>k p. p) w"
    using Cons.prems(1) by (auto intro: wmap_cong)
  ultimately show ?case by simp
qed simp

subsection \<open>Rows\<close>

definition kept :: "ptr list \<Rightarrow> 'a list \<Rightarrow> 'a list" where
  "kept mvec xs = map snd (filter (\<lambda>(a, x). a \<noteq> 0) (zip mvec xs))"

definition kept_from :: "nat \<Rightarrow> ptr list \<Rightarrow> 'a list \<Rightarrow> 'a list" where
  "kept_from ov mvec xs = take ov xs @ kept mvec (drop ov xs)"

definition erase_at :: "nat \<Rightarrow> 'a list \<Rightarrow> 'a list" where
  "erase_at i xs = take i xs @ drop (Suc i) xs"

lemma kept_Nil [simp]: "kept [] xs = []" "kept mvec [] = []"
  by (simp_all add: kept_def)

lemma kept_Cons [simp]: "kept (a # mvec) (x # xs) = (if a = 0 then kept mvec xs else x # kept mvec xs)"
  by (simp add: kept_def)

lemma filter_take_le: "length (filter P (take n xs)) \<le> length (filter P xs)"
proof -
  have "filter P xs = filter P (take n xs) @ filter P (drop n xs)"
    by (simp add: filter_append [symmetric])
  then show ?thesis by simp
qed

lemma length_kept:
  "length xs \<le> length mv \<Longrightarrow>
     length (kept mv xs) = length (filter (\<lambda>a. a \<noteq> 0) (take (length xs) mv))"
  by (induction mv xs rule: list_induct2') auto

lemma kept_from_end: "length xs \<le> ov \<Longrightarrow> kept_from ov mvec xs = xs"
  by (simp add: kept_from_def)

lemma kept_from_0: "kept_from 0 mvec xs = kept mvec xs"
  by (simp add: kept_from_def)

lemma kept_from_keep:
  "ov < length xs \<Longrightarrow> a \<noteq> 0 \<Longrightarrow> kept_from (Suc ov) mvec xs = kept_from ov (a # mvec) xs"
  by (simp add: kept_from_def Cons_nth_drop_Suc [symmetric] take_Suc_conv_app_nth)

lemma kept_from_erase:
  "ov < length xs \<Longrightarrow> kept_from ov mvec (erase_at ov xs) = kept_from ov (0 # mvec) xs"
  by (simp add: kept_from_def erase_at_def Cons_nth_drop_Suc [symmetric])

lemma length_erase_at [simp]: "i < length xs \<Longrightarrow> length (erase_at i xs) = length xs - 1"
  by (simp add: erase_at_def)

lemma verase_erase_at: "i < length xs \<Longrightarrow> verase xs i = Some (erase_at i xs)"
  by (simp add: verase_def erase_at_def)

text \<open>Edits of all the rows of a config entry, or of a pointer, in the same way.\<close>

definition edit_cfg :: "(value_t list \<Rightarrow> value_t list) \<Rightarrow> (value_t list \<Rightarrow> value_t list) \<Rightarrow>
    (string option list \<Rightarrow> string option list) \<Rightarrow> cfg_entry \<Rightarrow> cfg_entry" where
  "edit_cfg f g h c = c\<lparr>c_v_oldval := f (c_v_oldval c), c_v_value := g (c_v_value c),
     c_v_cstr := h (c_v_cstr c)\<rparr>"

definition edit_ptr :: "(ptr_e list \<Rightarrow> ptr_e list) \<Rightarrow> (ptr list \<Rightarrow> ptr list) \<Rightarrow>
    ptrmem_entry \<Rightarrow> ptrmem_entry" where
  "edit_ptr f g p = p\<lparr>p_v_state := f (p_v_state p), p_v_offs := g (p_v_offs p)\<rparr>"

lemma edit_cfg_sel [simp]:
  "c_v_oldval (edit_cfg f g h c) = f (c_v_oldval c)" "c_v_value (edit_cfg f g h c) = g (c_v_value c)"
  "c_v_cstr (edit_cfg f g h c) = h (c_v_cstr c)" "c_dynmem (edit_cfg f g h c) = c_dynmem c"
  "c_ptrtgt (edit_cfg f g h c) = c_ptrtgt c" "c_value (edit_cfg f g h c) = c_value c"
  "c_type (edit_cfg f g h c) = c_type c"
  by (simp_all add: edit_cfg_def)

lemma edit_ptr_sel [simp]:
  "p_v_state (edit_ptr f g p) = f (p_v_state p)" "p_v_offs (edit_ptr f g p) = g (p_v_offs p)"
  "p_cfg (edit_ptr f g p) = p_cfg p"
  by (simp_all add: edit_ptr_def)

definition cfg_n :: "nat \<Rightarrow> cfg_entry \<Rightarrow> bool" where
  "cfg_n n c \<longleftrightarrow> length (c_v_oldval c) = n \<and> length (c_v_value c) = n \<and> length (c_v_cstr c) = n"

definition ptr_n :: "nat \<Rightarrow> ptrmem_entry \<Rightarrow> bool" where
  "ptr_n n p \<longleftrightarrow> length (p_v_state p) = n \<and> length (p_v_offs p) = n"

lemma erase_val_edit:
  "cfg_n n c \<Longrightarrow> i < n \<Longrightarrow>
     erase_val i c = Some (edit_cfg (erase_at i) (erase_at i) (erase_at i) c)"
  by (simp add: erase_val_def cfg_n_def verase_erase_at vget_def edit_cfg_def)

lemma erase_ptr_edit:
  "ptr_n n p \<Longrightarrow> i < n \<Longrightarrow> erase_ptr i p = Some (edit_ptr (erase_at i) (erase_at i) p)"
  by (simp add: erase_ptr_def ptr_n_def verase_erase_at edit_ptr_def)

subsection \<open>Footprints\<close>

text \<open>
  The config entries and the pointer whose rows belong to the objects of the config entry
  \<open>ci\<close>: itself and, if it is a pointer, all the fields behind it.
\<close>

definition tgt_fields :: "world \<Rightarrow> nat \<Rightarrow> nat list" where
  "tgt_fields w ci = (case c_ptrtgt (w_cfg w ! ci) of None \<Rightarrow> [] | Some pi \<Rightarrow> p_cfg (w_ptr w ! pi))"

definition foot :: "world \<Rightarrow> nat \<Rightarrow> nat set" where
  "foot w ci = insert ci (set (tgt_fields w ci))"

definition pfoot :: "world \<Rightarrow> nat \<Rightarrow> nat set" where
  "pfoot w ci = set_option (c_ptrtgt (w_cfg w ! ci))"

text \<open>All rows of \<open>ci\<close> exist and have length \<open>n\<close>.\<close>

definition row_ok :: "world \<Rightarrow> nat \<Rightarrow> nat \<Rightarrow> bool" where
  "row_ok w ci n \<longleftrightarrow> ci < length (w_cfg w) \<and> cfg_n n (w_cfg w ! ci) \<and>
     (\<forall>pi \<in> pfoot w ci. pi < length (w_ptr w) \<and> ptr_n n (w_ptr w ! pi)) \<and>
     ci \<notin> set (tgt_fields w ci) \<and> distinct (tgt_fields w ci) \<and>
     (\<forall>k \<in> set (tgt_fields w ci). k < length (w_cfg w) \<and> cfg_n n (w_cfg w ! k))"

text \<open>The edit of a whole footprint.\<close>

definition wedit :: "(cfg_entry \<Rightarrow> cfg_entry) \<Rightarrow> (ptrmem_entry \<Rightarrow> ptrmem_entry) \<Rightarrow> nat \<Rightarrow> world \<Rightarrow> world" where
  "wedit hc hp ci w = wmap (\<lambda>k c. if k \<in> foot w ci then hc c else c)
     (\<lambda>k p. if k \<in> pfoot w ci then hp p else p) w"

definition static :: "(cfg_entry \<Rightarrow> cfg_entry) \<Rightarrow> bool" where
  "static hc \<longleftrightarrow> (\<forall>c. \<exists>f g h. hc c = edit_cfg f g h c)"

definition pstatic :: "(ptrmem_entry \<Rightarrow> ptrmem_entry) \<Rightarrow> bool" where
  "pstatic hp \<longleftrightarrow> (\<forall>p. \<exists>f g. hp p = edit_ptr f g p)"

lemma static_sel:
  "static hc \<Longrightarrow> c_ptrtgt (hc c) = c_ptrtgt c" "static hc \<Longrightarrow> c_dynmem (hc c) = c_dynmem c"
  "pstatic hp \<Longrightarrow> p_cfg (hp p) = p_cfg p"
  unfolding static_def pstatic_def by (metis edit_cfg_sel(4,5) edit_ptr_sel(3))+

lemma static_comp: "static f \<Longrightarrow> static g \<Longrightarrow> static (\<lambda>c. f (g c))"
  unfolding static_def
proof
  fix c
  assume f: "\<forall>c. \<exists>f1 f2 f3. f c = edit_cfg f1 f2 f3 c" and g: "\<forall>c. \<exists>f1 f2 f3. g c = edit_cfg f1 f2 f3 c"
  from g obtain g1 g2 g3 where gc: "g c = edit_cfg g1 g2 g3 c" by blast
  from f obtain f1 f2 f3 where "f (g c) = edit_cfg f1 f2 f3 (g c)" by blast
  then have "f (g c) = edit_cfg (\<lambda>x. f1 (g1 x)) (\<lambda>x. f2 (g2 x)) (\<lambda>x. f3 (g3 x)) c"
    by (simp add: gc edit_cfg_def)
  then show "\<exists>f1 f2 f3. f (g c) = edit_cfg f1 f2 f3 c" by blast
qed

lemma pstatic_comp: "pstatic f \<Longrightarrow> pstatic g \<Longrightarrow> pstatic (\<lambda>c. f (g c))"
  unfolding pstatic_def
proof
  fix c
  assume f: "\<forall>c. \<exists>f1 f2. f c = edit_ptr f1 f2 c" and g: "\<forall>c. \<exists>f1 f2. g c = edit_ptr f1 f2 c"
  from g obtain g1 g2 where gc: "g c = edit_ptr g1 g2 c" by blast
  from f obtain f1 f2 where "f (g c) = edit_ptr f1 f2 (g c)" by blast
  then have "f (g c) = edit_ptr (\<lambda>x. f1 (g1 x)) (\<lambda>x. f2 (g2 x)) c" by (simp add: gc edit_ptr_def)
  then show "\<exists>f1 f2. f (g c) = edit_ptr f1 f2 c" by blast
qed

lemma static_edit [simp]: "static (edit_cfg f g h)" "pstatic (edit_ptr f' g')"
  unfolding static_def pstatic_def by blast+

lemma static_id [simp]: "static (\<lambda>c. c)" "pstatic (\<lambda>p. p)"
proof -
  have "c = edit_cfg (\<lambda>x. x) (\<lambda>x. x) (\<lambda>x. x) c" "p = edit_ptr (\<lambda>x. x) (\<lambda>x. x) p" for c p
    by (simp_all add: edit_cfg_def edit_ptr_def)
  then show "static (\<lambda>c. c)" "pstatic (\<lambda>p. p)" unfolding static_def pstatic_def by blast+
qed

text \<open>Static edits do not move footprints.\<close>

lemma foot_wmap:
  assumes "\<And>k. static (F k)" "\<And>k. pstatic (G k)" "ci < length (w_cfg w)"
    "\<forall>pi \<in> pfoot w ci. pi < length (w_ptr w)"
  shows "tgt_fields (wmap F G w) ci = tgt_fields w ci" "foot (wmap F G w) ci = foot w ci"
    "pfoot (wmap F G w) ci = pfoot w ci"
proof -
  show t: "tgt_fields (wmap F G w) ci = tgt_fields w ci"
    using assms by (cases "c_ptrtgt (w_cfg w ! ci)") (simp_all add: tgt_fields_def static_sel pfoot_def)
  then show "foot (wmap F G w) ci = foot w ci" by (simp add: foot_def)
  show "pfoot (wmap F G w) ci = pfoot w ci" using assms by (simp add: pfoot_def static_sel)
qed

lemma row_okD:
  assumes "row_ok w ci n"
  shows "ci < length (w_cfg w)" "\<And>k. k \<in> foot w ci \<Longrightarrow> k < length (w_cfg w) \<and> cfg_n n (w_cfg w ! k)"
    "\<And>pi. pi \<in> pfoot w ci \<Longrightarrow> pi < length (w_ptr w) \<and> ptr_n n (w_ptr w ! pi)"
  using assms by (auto simp: row_ok_def foot_def)

lemma foot_wedit:
  assumes "row_ok w ci n" "static hc" "pstatic hp"
  shows "tgt_fields (wedit hc hp ci w) ci = tgt_fields w ci" "foot (wedit hc hp ci w) ci = foot w ci"
    "pfoot (wedit hc hp ci w) ci = pfoot w ci"
proof -
  have "ci < length (w_cfg w)" "\<forall>pi \<in> pfoot w ci. pi < length (w_ptr w)"
    using row_okD [OF assms(1)] by auto
  moreover have "static (\<lambda>c. if k \<in> foot w ci then hc c else c)" for k
    using assms(2) by (cases "k \<in> foot w ci") simp_all
  moreover have "pstatic (\<lambda>p. if k \<in> pfoot w ci then hp p else p)" for k
    using assms(3) by (cases "k \<in> pfoot w ci") simp_all
  ultimately show "tgt_fields (wedit hc hp ci w) ci = tgt_fields w ci"
    "foot (wedit hc hp ci w) ci = foot w ci" "pfoot (wedit hc hp ci w) ci = pfoot w ci"
    unfolding wedit_def by (auto simp only: foot_wmap)
qed

lemma wedit_wedit:
  assumes "row_ok w ci n" "static hc" "pstatic hp"
  shows "wedit hc' hp' ci (wedit hc hp ci w) = wedit (\<lambda>c. hc' (hc c)) (\<lambda>p. hp' (hp p)) ci w"
  unfolding wedit_def [of hc'] foot_wedit [OF assms]
  unfolding wedit_def by (auto intro: wmap_cong)

lemma row_ok_wedit:
  assumes "row_ok w ci n" "static hc" "pstatic hp" "\<And>c. cfg_n n c \<Longrightarrow> cfg_n m (hc c)"
    "\<And>p. ptr_n n p \<Longrightarrow> ptr_n m (hp p)"
  shows "row_ok (wedit hc hp ci w) ci m"
  using assms(1,4,5) row_okD [OF assms(1)]
  unfolding row_ok_def foot_wedit [OF assms(1-3)]
  by (simp add: wedit_def foot_def)

lemma wedit_cong:
  assumes "row_ok w ci n" "\<And>c. cfg_n n c \<Longrightarrow> hc c = hc' c" "\<And>p. ptr_n n p \<Longrightarrow> hp p = hp' p"
  shows "wedit hc hp ci w = wedit hc' hp' ci w"
  unfolding wedit_def using assms(2,3) row_okD [OF assms(1)] by (auto intro: wmap_cong)

lemma wedit_id: "wedit (\<lambda>c. c) (\<lambda>p. p) ci w = w"
  by (simp add: wedit_def)

subsection \<open>One config entry\<close>

abbreviation keep_from_cfg :: "nat \<Rightarrow> ptr list \<Rightarrow> cfg_entry \<Rightarrow> cfg_entry" where
  "keep_from_cfg ov mvec \<equiv> edit_cfg (kept_from ov mvec) (kept_from ov mvec) (kept_from ov mvec)"

abbreviation keep_from_ptr :: "nat \<Rightarrow> ptr list \<Rightarrow> ptrmem_entry \<Rightarrow> ptrmem_entry" where
  "keep_from_ptr ov mvec \<equiv> edit_ptr (kept_from ov mvec) (kept_from ov mvec)"

abbreviation erase_cfg :: "nat \<Rightarrow> cfg_entry \<Rightarrow> cfg_entry" where
  "erase_cfg i \<equiv> edit_cfg (erase_at i) (erase_at i) (erase_at i)"

text \<open>An edit of \<open>ci\<close>, of the pointer behind it and of its fields is an edit of the footprint.\<close>

lemma wedit_parts:
  assumes ok: "row_ok w ci n" and f: "\<And>c. cfg_n n c \<Longrightarrow> f c = Some (hc c)"
    and g: "\<And>p. ptr_n n p \<Longrightarrow> g p = Some (hp p)" and st: "static hc" "pstatic hp"
  shows "mod_cfg ci f w \<bind> (\<lambda>w1. case c_ptrtgt (w_cfg w ! ci) of None \<Rightarrow> Some w1
     | Some pi \<Rightarrow> vget (w_ptr w1) pi \<bind> (\<lambda>p. mod_ptr pi g w1 \<bind>
         fold_opt (\<lambda>k. mod_cfg k f) (p_cfg p))) = Some (wedit hc hp ci w)"
proof -
  note D = row_okD [OF ok]
  let ?w1 = "wmap (\<lambda>k c. if k = ci then hc c else c) (\<lambda>k p. p) w"
  have w1: "mod_cfg ci f w = Some ?w1" using D f by (simp add: mod_cfg_wmap foot_def)
  show ?thesis
  proof (cases "c_ptrtgt (w_cfg w ! ci)")
    case None
    then have "wedit hc hp ci w = ?w1"
      by (auto simp: wedit_def foot_def pfoot_def tgt_fields_def intro: wmap_cong)
    with None w1 show ?thesis by simp
  next
    case (Some pi)
    then have pi: "pi < length (w_ptr w)" "ptr_n n (w_ptr w ! pi)" using D(3) by (auto simp: pfoot_def)
    let ?ks = "p_cfg (w_ptr w ! pi)"
    let ?w2 = "wmap (\<lambda>k c. c) (\<lambda>k p. if k = pi then hp p else p) ?w1"
    have ks: "?ks = tgt_fields w ci" using Some by (simp add: tgt_fields_def)
    have w2: "mod_ptr pi g ?w1 = Some ?w2" using pi g by (intro mod_ptr_wmap) simp_all
    have "fold_opt (\<lambda>k. mod_cfg k f) ?ks ?w2 =
      Some (wmap (\<lambda>k c. if k \<in> set ?ks then hc c else c) (\<lambda>k p. p) ?w2)"
      using ok f unfolding ks row_ok_def by (intro fold_mod_cfg) auto
    moreover have "wmap (\<lambda>k c. if k \<in> set ?ks then hc c else c) (\<lambda>k p. p) ?w2 = wedit hc hp ci w"
      using ok Some unfolding row_ok_def wedit_def foot_def pfoot_def ks
      by (auto intro: wmap_cong)
    ultimately show ?thesis using Some w1 w2 pi by (simp add: vget_def)
  qed
qed

lemma erase_row:
  assumes "row_ok w ci n" "i < n"
  shows "mod_cfg ci (erase_val i) w \<bind> (\<lambda>w1. case c_ptrtgt (w_cfg w ! ci) of None \<Rightarrow> Some w1
     | Some pi \<Rightarrow> free_ptrmem pi i w1) =
     Some (wedit (erase_cfg i) (edit_ptr (erase_at i) (erase_at i)) ci w)"
  unfolding free_ptrmem_def using assms
  by (intro wedit_parts [OF assms(1)]) (auto intro: erase_val_edit erase_ptr_edit)

lemma edit_cfg_id:
  "f (c_v_oldval c) = c_v_oldval c \<Longrightarrow> g (c_v_value c) = c_v_value c \<Longrightarrow>
     h (c_v_cstr c) = c_v_cstr c \<Longrightarrow> edit_cfg f g h c = c"
  by (simp add: edit_cfg_def)

lemma edit_ptr_id:
  "f (p_v_state p) = p_v_state p \<Longrightarrow> g (p_v_offs p) = p_v_offs p \<Longrightarrow> edit_ptr f g p = p"
  by (simp add: edit_ptr_def)

lemma keep_none:
  assumes "row_ok w ci n" "n \<le> ov"
  shows "wedit (keep_from_cfg ov mvec) (keep_from_ptr ov mvec) ci w = w"
proof -
  have "wedit (keep_from_cfg ov mvec) (keep_from_ptr ov mvec) ci w = wedit (\<lambda>c. c) (\<lambda>p. p) ci w"
    using assms
    by (intro wedit_cong [OF assms(1)] edit_cfg_id edit_ptr_id kept_from_end)
      (auto simp: cfg_n_def ptr_n_def)
  then show ?thesis by (simp add: wedit_id)
qed

lemma free_vals_row:
  "row_ok w ci n \<Longrightarrow> n \<le> ov + length mvec \<Longrightarrow>
     free_vals ci mvec ov w = Some (wedit (keep_from_cfg ov mvec) (keep_from_ptr ov mvec) ci w)"
proof (induction mvec arbitrary: w n ov)
  case Nil
  then show ?case by (simp add: keep_none)
next
  case (Cons a mvec)
  note ok = Cons.prems(1)
  have n: "length (c_v_oldval (w_cfg w ! ci)) = n" and c: "vget (w_cfg w) ci = Some (w_cfg w ! ci)"
    using row_okD [OF ok] by (auto simp: cfg_n_def foot_def vget_def)
  consider (stop) "n \<le> ov" | (gone) "ov < n" "a = 0" | (keep) "ov < n" "a \<noteq> 0" by linarith
  then show ?case
  proof cases
    case stop
    then show ?thesis using keep_none [OF ok stop] n c by simp
  next
    case gone
    let ?w = "wedit (erase_cfg ov) (edit_ptr (erase_at ov) (erase_at ov)) ci w"
    have ok': "row_ok ?w ci (n - 1)"
      using gone(1) by (intro row_ok_wedit [OF ok]) (auto simp: cfg_n_def ptr_n_def)
    have "free_vals ci (a # mvec) ov w =
      (mod_cfg ci (erase_val ov) w \<bind> (\<lambda>w1. case c_ptrtgt (w_cfg w ! ci) of None \<Rightarrow> Some w1
         | Some pi \<Rightarrow> free_ptrmem pi ov w1)) \<bind> free_vals ci mvec ov"
      using gone n c by simp
    also have "\<dots> = free_vals ci mvec ov ?w"
      by (simp only: erase_row [OF ok gone(1)] bind.bind_lunit)
    also have "\<dots> = Some (wedit (keep_from_cfg ov mvec) (keep_from_ptr ov mvec) ci ?w)"
      using Cons.prems(2) by (intro Cons.IH [OF ok']) simp
    also have "wedit (keep_from_cfg ov mvec) (keep_from_ptr ov mvec) ci ?w =
      wedit (keep_from_cfg ov (a # mvec)) (keep_from_ptr ov (a # mvec)) ci w"
      unfolding wedit_wedit [OF ok static_edit] using gone
      by (intro wedit_cong [OF ok])
        (auto simp: edit_cfg_def edit_ptr_def kept_from_erase cfg_n_def ptr_n_def)
    finally show ?thesis .
  next
    case keep
    have "free_vals ci (a # mvec) ov w = free_vals ci mvec (Suc ov) w" using keep n c by simp
    also have "\<dots> = Some (wedit (keep_from_cfg (Suc ov) mvec) (keep_from_ptr (Suc ov) mvec) ci w)"
      using Cons.prems(2) by (intro Cons.IH [OF ok]) simp
    also have "wedit (keep_from_cfg (Suc ov) mvec) (keep_from_ptr (Suc ov) mvec) ci w =
      wedit (keep_from_cfg ov (a # mvec)) (keep_from_ptr ov (a # mvec)) ci w"
      using keep by (intro wedit_cong [OF ok])
        (auto simp: edit_cfg_def edit_ptr_def kept_from_keep cfg_n_def ptr_n_def)
    finally show ?thesis .
  qed
qed

lemma free_cfg_row:
  assumes "row_ok w ci n" "c_dynmem (w_cfg w ! ci) = Some di" "di < length (w_dyn w)"
    "n \<le> length (d_v_maddr (w_dyn w ! di))"
  defines "mv \<equiv> d_v_maddr (w_dyn w ! di)"
  shows "free_cfg ci w = Some (wedit (edit_cfg (kept mv) (kept mv) (kept mv))
    (edit_ptr (kept mv) (kept mv)) ci w)"
proof -
  have "free_cfg ci w = free_vals ci mv 0 w"
    using assms row_okD [OF assms(1)] by (simp add: free_cfg_def vget_def)
  also have "\<dots> = Some (wedit (keep_from_cfg 0 mv) (keep_from_ptr 0 mv) ci w)"
    using assms by (intro free_vals_row) simp_all
  also have "keep_from_cfg 0 mv = edit_cfg (kept mv) (kept mv) (kept mv)"
    by (rule ext) (simp add: edit_cfg_def kept_from_0)
  also have "keep_from_ptr 0 mv = edit_ptr (kept mv) (kept mv)"
    by (rule ext) (simp add: edit_ptr_def kept_from_0)
  finally show ?thesis .
qed

text \<open>Allocating values: the new rows have the defaults.\<close>

definition new_cstr :: "cfg_entry \<Rightarrow> string option" where
  "new_cstr c = (if t_is_cstrp (c_type c) \<or> t_is_cstr (c_type c)
     then Some (replicate (MAX_CSTR + 1) NUL) else None)"

definition pad :: "nat \<Rightarrow> 'a \<Rightarrow> 'a list \<Rightarrow> 'a list" where
  "pad m x xs = xs @ replicate (m - length xs) x"

definition pad_cfg :: "nat \<Rightarrow> cfg_entry \<Rightarrow> cfg_entry" where
  "pad_cfg m c = edit_cfg (pad m 0) (pad m (c_value c)) (pad m (new_cstr c)) c"

definition pad_ptr :: "nat \<Rightarrow> ptrmem_entry \<Rightarrow> ptrmem_entry" where
  "pad_ptr m = edit_ptr (pad m PTR_INIT) (pad m 0)"

lemma pad_id: "m \<le> length xs \<Longrightarrow> pad m x xs = xs"
  by (simp add: pad_def)

lemma pad_Suc: "length xs \<le> m \<Longrightarrow> pad m x xs @ [x] = pad (Suc m) x xs"
  by (simp add: pad_def Suc_diff_le replicate_append_same)

lemma length_pad [simp]: "length (pad m x xs) = max m (length xs)"
  by (simp add: pad_def)

lemma static_pad [simp]: "static (pad_cfg m)" "pstatic (pad_ptr m)"
  unfolding static_def pstatic_def pad_cfg_def pad_ptr_def by blast+

lemma static_push: "static push_val" "pstatic push_ptr"
proof -
  have "push_val c = edit_cfg (\<lambda>l. l @ [0]) (\<lambda>l. l @ [c_value c]) (\<lambda>l. l @ [new_cstr c]) c" for c
    by (simp add: push_val_def edit_cfg_def new_cstr_def)
  moreover have "push_ptr p = edit_ptr (\<lambda>l. l @ [PTR_INIT]) (\<lambda>l. l @ [0]) p" for p
    by (simp add: push_ptr_def edit_ptr_def)
  ultimately show "static push_val" "pstatic push_ptr" unfolding static_def pstatic_def by blast+
qed

lemma push_pad_cfg: "cfg_n n c \<Longrightarrow> n \<le> m \<Longrightarrow> push_val (pad_cfg m c) = pad_cfg (Suc m) c"
  by (simp add: push_val_def pad_cfg_def edit_cfg_def cfg_n_def pad_Suc new_cstr_def)

lemma push_pad_ptr: "ptr_n n p \<Longrightarrow> n \<le> m \<Longrightarrow> push_ptr (pad_ptr m p) = pad_ptr (Suc m) p"
  by (simp add: push_ptr_def pad_ptr_def edit_ptr_def ptr_n_def pad_Suc)

lemma pad_n: "cfg_n n c \<Longrightarrow> cfg_n (max m n) (pad_cfg m c)" "ptr_n n p \<Longrightarrow> ptr_n (max m n) (pad_ptr m p)"
  by (auto simp: cfg_n_def ptr_n_def pad_cfg_def pad_ptr_def)

lemma pad_full: "cfg_n n c \<Longrightarrow> n \<le> m \<Longrightarrow> cfg_n m (pad_cfg m c)"
  "ptr_n n p \<Longrightarrow> n \<le> m \<Longrightarrow> ptr_n m (pad_ptr m p)"
  by (auto simp: cfg_n_def ptr_n_def pad_cfg_def pad_ptr_def)

lemma alloc_obj_row:
  assumes "row_ok w ci n"
  shows "alloc_obj ci j w = Some (if n \<le> j then wedit push_val push_ptr ci w else w)"
proof -
  have n: "length (c_v_oldval (w_cfg w ! ci)) = n" and c: "vget (w_cfg w) ci = Some (w_cfg w ! ci)"
    using row_okD [OF assms] by (auto simp: cfg_n_def foot_def vget_def)
  show ?thesis
    using wedit_parts [OF assms, of "\<lambda>c. Some (push_val c)" push_val "\<lambda>p. Some (push_ptr p)" push_ptr]
    unfolding alloc_obj_def alloc_ptrmem_def by (simp add: n c static_push)
qed

lemma alloc_objs_row:
  assumes ok: "row_ok w ci n"
  shows "fold_opt (alloc_obj ci) [0..<m] w = Some (wedit (pad_cfg m) (pad_ptr m) ci w)"
proof (induction m)
  case 0
  have "wedit (pad_cfg 0) (pad_ptr 0) ci w = wedit (\<lambda>c. c) (\<lambda>p. p) ci w"
    by (intro wedit_cong [OF ok]) (simp_all add: pad_cfg_def pad_ptr_def pad_id edit_cfg_id edit_ptr_id)
  then show ?case by (simp add: wedit_id)
next
  case (Suc m)
  let ?w = "wedit (pad_cfg m) (pad_ptr m) ci w"
  have ok': "row_ok ?w ci (max m n)" by (intro row_ok_wedit [OF ok] pad_n) simp_all
  have "fold_opt (alloc_obj ci) [0..<Suc m] w = alloc_obj ci m ?w"
    using Suc.IH by (simp add: fold_opt_snoc)
  also have "\<dots> = Some (if max m n \<le> m then wedit push_val push_ptr ci ?w else ?w)"
    by (rule alloc_obj_row [OF ok'])
  also have "(if max m n \<le> m then wedit push_val push_ptr ci ?w else ?w) =
    wedit (pad_cfg (Suc m)) (pad_ptr (Suc m)) ci w"
  proof (cases "n \<le> m")
    case True
    then show ?thesis
      by (auto simp: wedit_wedit [OF ok] push_pad_cfg push_pad_ptr intro: wedit_cong [OF ok])
  next
    case False
    then show ?thesis
      by (auto simp: pad_cfg_def pad_ptr_def pad_id edit_cfg_def edit_ptr_def cfg_n_def ptr_n_def
          intro: wedit_cong [OF ok])
  qed
  finally show ?case .
qed

lemma alloc_cfg_row:
  assumes "row_ok w ci n" "c_dynmem (w_cfg w ! ci) = Some di" "di < length (w_dyn w)"
  defines "mv \<equiv> d_v_maddr (w_dyn w ! di)"
  shows "alloc_cfg ci w = Some (wedit (pad_cfg (length mv)) (pad_ptr (length mv)) ci w)"
  using assms row_okD [OF assms(1)] by (simp add: alloc_cfg_def vget_def alloc_objs_row)

subsection \<open>The invariant, and loops over the config entries\<close>

text \<open>
  Every class has one size per address; every config entry of a class has rows, at most one
  per address; no two of them share rows (a pointer belongs to one config entry only).
\<close>

definition mem_wf :: "world \<Rightarrow> bool" where
  "mem_wf w \<longleftrightarrow> (\<forall>d \<in> set (w_dyn w). length (d_v_msize d) = length (d_v_maddr d)) \<and>
     (\<forall>ci < length (w_cfg w). \<forall>di \<in> set_option (c_dynmem (w_cfg w ! ci)).
        di < length (w_dyn w) \<and> row_ok w ci (length (c_v_oldval (w_cfg w ! ci))) \<and>
        length (c_v_oldval (w_cfg w ! ci)) \<le> length (d_v_maddr (w_dyn w ! di))) \<and>
     (\<forall>ci < length (w_cfg w). \<forall>cj < length (w_cfg w). ci \<noteq> cj \<longrightarrow>
        c_dynmem (w_cfg w ! ci) \<noteq> None \<longrightarrow> c_dynmem (w_cfg w ! cj) \<noteq> None \<longrightarrow>
        foot w ci \<inter> foot w cj = {} \<and> pfoot w ci \<inter> pfoot w cj = {})"

lemma mem_wfD:
  assumes "mem_wf w" "ci < length (w_cfg w)" "c_dynmem (w_cfg w ! ci) = Some di"
  shows "di < length (w_dyn w)" "row_ok w ci (length (c_v_oldval (w_cfg w ! ci)))"
    "length (c_v_oldval (w_cfg w ! ci)) \<le> length (d_v_maddr (w_dyn w ! di))"
    "length (d_v_msize (w_dyn w ! di)) = length (d_v_maddr (w_dyn w ! di))"
  using assms unfolding mem_wf_def by auto

lemma mem_wf_disjoint:
  "mem_wf w \<Longrightarrow> ci < length (w_cfg w) \<Longrightarrow> cj < length (w_cfg w) \<Longrightarrow> ci \<noteq> cj \<Longrightarrow>
   c_dynmem (w_cfg w ! ci) = Some di \<Longrightarrow> c_dynmem (w_cfg w ! cj) = Some dj \<Longrightarrow>
   foot w ci \<inter> foot w cj = {} \<and> pfoot w ci \<inter> pfoot w cj = {}"
  unfolding mem_wf_def by blast

text \<open>An operation that edits the footprint of a config entry by the addresses of its class.\<close>

locale row_op =
  fixes op :: "nat \<Rightarrow> world \<Rightarrow> world option"
    and hc :: "ptr list \<Rightarrow> cfg_entry \<Rightarrow> cfg_entry"
    and hp :: "ptr list \<Rightarrow> ptrmem_entry \<Rightarrow> ptrmem_entry"
    and len :: "ptr list \<Rightarrow> nat \<Rightarrow> nat"
  assumes op_none: "ci < length (w_cfg w) \<Longrightarrow> c_dynmem (w_cfg w ! ci) = None \<Longrightarrow> op ci w = Some w"
    and op_row: "row_ok w ci n \<Longrightarrow> c_dynmem (w_cfg w ! ci) = Some di \<Longrightarrow> di < length (w_dyn w) \<Longrightarrow>
      n \<le> length (d_v_maddr (w_dyn w ! di)) \<Longrightarrow>
      op ci w = Some (wedit (hc (d_v_maddr (w_dyn w ! di))) (hp (d_v_maddr (w_dyn w ! di))) ci w)"
    and hc_static: "static (hc mv)" and hp_static: "pstatic (hp mv)"
    and hc_len: "cfg_n n c \<Longrightarrow> n \<le> length mv \<Longrightarrow> cfg_n (len mv n) (hc mv c)"
    and hp_len: "ptr_n n p \<Longrightarrow> n \<le> length mv \<Longrightarrow> ptr_n (len mv n) (hp mv p)"
begin

text \<open>What the first \<open>m\<close> rounds have done to the config entries and pointers.\<close>

definition edited :: "world \<Rightarrow> nat \<Rightarrow> (nat \<Rightarrow> cfg_entry \<Rightarrow> cfg_entry) \<Rightarrow>
    (nat \<Rightarrow> ptrmem_entry \<Rightarrow> ptrmem_entry) \<Rightarrow> bool" where
  "edited w m F G \<longleftrightarrow> (\<forall>k. static (F k)) \<and> (\<forall>k. pstatic (G k)) \<and>
     (\<forall>ci < m. \<forall>di. c_dynmem (w_cfg w ! ci) = Some di \<longrightarrow>
        (\<forall>k \<in> foot w ci. F k = hc (d_v_maddr (w_dyn w ! di))) \<and>
        (\<forall>pi \<in> pfoot w ci. G pi = hp (d_v_maddr (w_dyn w ! di)))) \<and>
     (\<forall>k. (\<forall>ci < m. c_dynmem (w_cfg w ! ci) \<noteq> None \<longrightarrow> k \<notin> foot w ci) \<longrightarrow> F k = (\<lambda>c. c)) \<and>
     (\<forall>pi. (\<forall>ci < m. c_dynmem (w_cfg w ! ci) \<noteq> None \<longrightarrow> pi \<notin> pfoot w ci) \<longrightarrow> G pi = (\<lambda>p. p))"

lemma row_ok_untouched:
  assumes "row_ok w ci n" "\<And>k. static (F k)" "\<And>k. pstatic (G k)"
    "\<And>k. k \<in> foot w ci \<Longrightarrow> F k = (\<lambda>c. c)" "\<And>pi. pi \<in> pfoot w ci \<Longrightarrow> G pi = (\<lambda>p. p)"
  shows "row_ok (wmap F G w) ci n" "foot (wmap F G w) ci = foot w ci"
    "pfoot (wmap F G w) ci = pfoot w ci"
proof -
  note D = row_okD [OF assms(1)]
  have pf: "\<forall>pi \<in> pfoot w ci. pi < length (w_ptr w)" using D by blast
  note f = foot_wmap [of F G, OF assms(2,3) D(1) pf]
  show "foot (wmap F G w) ci = foot w ci" "pfoot (wmap F G w) ci = pfoot w ci" by (rule f)+
  show "row_ok (wmap F G w) ci n"
    using assms(1,4,5) D unfolding row_ok_def f by (simp add: foot_def)
qed

lemma rows_loop:
  assumes wf: "mem_wf w" and "m \<le> length (w_cfg w)"
  shows "\<exists>F G. fold_opt op [0..<m] w = Some (wmap F G w) \<and> edited w m F G"
  using assms(2)
proof (induction m)
  case 0
  have "edited w 0 (\<lambda>k c. c) (\<lambda>k p. p)" by (simp add: edited_def)
  then show ?case by (metis fold_opt.simps(1) upt_0 wmap_id)
next
  case (Suc m)
  then obtain F G where fg: "fold_opt op [0..<m] w = Some (wmap F G w)" and d: "edited w m F G" by auto
  from d have st: "\<And>k. static (F k)" "\<And>k. pstatic (G k)" by (simp_all add: edited_def)
  let ?v = "wmap F G w"
  have m: "m < length (w_cfg w)" using Suc.prems by simp
  have dyn: "c_dynmem (w_cfg ?v ! m) = c_dynmem (w_cfg w ! m)" using st m by (simp add: static_sel)
  have loop: "fold_opt op [0..<Suc m] w = op m ?v" using fg by (simp add: fold_opt_snoc)
  show ?case
  proof (cases "c_dynmem (w_cfg w ! m)")
    case None
    then have "op m ?v = Some ?v" using m dyn by (intro op_none) simp_all
    moreover have "edited w (Suc m) F G" using d None by (simp add: edited_def less_Suc_eq all_conj_distrib imp_disjL)
    ultimately show ?thesis using loop by auto
  next
    case (Some di)
    let ?mv = "d_v_maddr (w_dyn w ! di)"
    let ?n = "length (c_v_oldval (w_cfg w ! m))"
    note W = mem_wfD [OF wf m Some]
    have disj: "ci < m \<Longrightarrow> c_dynmem (w_cfg w ! ci) \<noteq> None \<Longrightarrow>
        foot w ci \<inter> foot w m = {} \<and> pfoot w ci \<inter> pfoot w m = {}" for ci
      using mem_wf_disjoint [OF wf _ m _ _ Some, of ci] m by auto
    have id: "\<And>k. k \<in> foot w m \<Longrightarrow> F k = (\<lambda>c. c)" "\<And>pi. pi \<in> pfoot w m \<Longrightarrow> G pi = (\<lambda>p. p)"
      using d disj unfolding edited_def by blast+
    note ok = row_ok_untouched [OF W(2) st id]
    have "op m ?v = Some (wedit (hc ?mv) (hp ?mv) m ?v)"
      using op_row [OF ok(1), where di = di] dyn Some W by simp
    also have "wedit (hc ?mv) (hp ?mv) m ?v = wmap (\<lambda>k c. if k \<in> foot w m then hc ?mv (F k c) else F k c)
        (\<lambda>k p. if k \<in> pfoot w m then hp ?mv (G k p) else G k p) w"
      by (simp add: wedit_def ok)
    also have "\<dots> = wmap (\<lambda>k. if k \<in> foot w m then hc ?mv else F k)
        (\<lambda>k. if k \<in> pfoot w m then hp ?mv else G k) w"
      using id by (auto intro: wmap_cong)
    finally have "op m ?v = Some (wmap (\<lambda>k. if k \<in> foot w m then hc ?mv else F k)
        (\<lambda>k. if k \<in> pfoot w m then hp ?mv else G k) w)" .
    moreover have "edited w (Suc m) (\<lambda>k. if k \<in> foot w m then hc ?mv else F k)
        (\<lambda>k. if k \<in> pfoot w m then hp ?mv else G k)"
      unfolding edited_def
    proof (intro conjI allI impI ballI)
      show "static (if k \<in> foot w m then hc ?mv else F k)" for k using st hc_static by simp
      show "pstatic (if k \<in> pfoot w m then hp ?mv else G k)" for k using st hp_static by simp
    next
      fix ci dj k
      assume ci: "ci < Suc m" "c_dynmem (w_cfg w ! ci) = Some dj" "k \<in> foot w ci"
      show "(if k \<in> foot w m then hc ?mv else F k) = hc (d_v_maddr (w_dyn w ! dj))"
      proof (cases "ci = m")
        case True
        with ci Some show ?thesis by simp
      next
        case False
        then have "ci < m" using ci(1) by simp
        moreover from this have "k \<notin> foot w m" using disj [of ci] ci by auto
        moreover have "F k = hc (d_v_maddr (w_dyn w ! dj))"
          using d \<open>ci < m\<close> ci unfolding edited_def by blast
        ultimately show ?thesis by simp
      qed
    next
      fix ci dj k
      assume ci: "ci < Suc m" "c_dynmem (w_cfg w ! ci) = Some dj" "k \<in> pfoot w ci"
      show "(if k \<in> pfoot w m then hp ?mv else G k) = hp (d_v_maddr (w_dyn w ! dj))"
      proof (cases "ci = m")
        case True
        with ci Some show ?thesis by simp
      next
        case False
        then have "ci < m" using ci(1) by simp
        moreover from this have "k \<notin> pfoot w m" using disj [of ci] ci by auto
        moreover have "G k = hp (d_v_maddr (w_dyn w ! dj))"
          using d \<open>ci < m\<close> ci unfolding edited_def by blast
        ultimately show ?thesis by simp
      qed
    next
      fix k
      assume "\<forall>ci < Suc m. c_dynmem (w_cfg w ! ci) \<noteq> None \<longrightarrow> k \<notin> foot w ci"
      then have k: "k \<notin> foot w m" "\<forall>ci < m. c_dynmem (w_cfg w ! ci) \<noteq> None \<longrightarrow> k \<notin> foot w ci"
        using Some by (simp_all add: less_Suc_eq)
      have "F k = (\<lambda>c. c)" using d k(2) unfolding edited_def by blast
      with k(1) show "(if k \<in> foot w m then hc ?mv else F k) = (\<lambda>c. c)" by simp
    next
      fix k
      assume "\<forall>ci < Suc m. c_dynmem (w_cfg w ! ci) \<noteq> None \<longrightarrow> k \<notin> pfoot w ci"
      then have k: "k \<notin> pfoot w m" "\<forall>ci < m. c_dynmem (w_cfg w ! ci) \<noteq> None \<longrightarrow> k \<notin> pfoot w ci"
        using Some by (simp_all add: less_Suc_eq)
      have "G k = (\<lambda>p. p)" using d k(2) unfolding edited_def by blast
      with k(1) show "(if k \<in> pfoot w m then hp ?mv else G k) = (\<lambda>p. p)" by simp
    qed
    ultimately show ?thesis unfolding loop by blast
  qed
qed

text \<open>
  The whole loop: every row of every footprint has been edited with the addresses of its
  class, nothing else has changed, and the invariant holds where the classes keep enough
  addresses.
\<close>

lemma rows_loop_wf:
  assumes wf: "mem_wf w"
  shows "\<exists>F G. fold_opt op [0..<length (w_cfg w)] w = Some (wmap F G w) \<and>
     edited w (length (w_cfg w)) F G \<and>
     (\<forall>ci < length (w_cfg w). foot (wmap F G w) ci = foot w ci \<or> c_dynmem (w_cfg w ! ci) = None) \<and>
     (\<forall>ci < length (w_cfg w). \<forall>di. c_dynmem (w_cfg w ! ci) = Some di \<longrightarrow>
        pfoot (wmap F G w) ci = pfoot w ci \<and> foot (wmap F G w) ci = foot w ci \<and>
        row_ok (wmap F G w) ci
          (len (d_v_maddr (w_dyn w ! di)) (length (c_v_oldval (w_cfg w ! ci)))))"
proof -
  obtain F G where fg: "fold_opt op [0..<length (w_cfg w)] w = Some (wmap F G w)"
    and d: "edited w (length (w_cfg w)) F G" using rows_loop [OF wf] by blast
  from d have st: "\<And>k. static (F k)" "\<And>k. pstatic (G k)" by (simp_all add: edited_def)
  have "pfoot (wmap F G w) ci = pfoot w ci \<and> foot (wmap F G w) ci = foot w ci \<and>
      row_ok (wmap F G w) ci (len (d_v_maddr (w_dyn w ! di)) (length (c_v_oldval (w_cfg w ! ci))))"
    if ci: "ci < length (w_cfg w)" and di: "c_dynmem (w_cfg w ! ci) = Some di" for ci di
  proof -
    note W = mem_wfD [OF wf ci di]
    note D = row_okD [OF W(2)]
    have pf: "\<forall>pi \<in> pfoot w ci. pi < length (w_ptr w)" using D by blast
    note f = foot_wmap [of F G, OF st ci pf]
    have "\<And>k. k \<in> foot w ci \<Longrightarrow> F k = hc (d_v_maddr (w_dyn w ! di))"
      "\<And>pi. pi \<in> pfoot w ci \<Longrightarrow> G pi = hp (d_v_maddr (w_dyn w ! di))"
      using d ci di unfolding edited_def by blast+
    then show ?thesis
      using W(2,3) D f hc_len hp_len unfolding row_ok_def f by (simp add: foot_def)
  qed
  with fg d show ?thesis by blast
qed

end

interpretation free_rows: row_op free_cfg "\<lambda>mv. edit_cfg (kept mv) (kept mv) (kept mv)"
  "\<lambda>mv. edit_ptr (kept mv) (kept mv)" "\<lambda>mv n. length (filter (\<lambda>a. a \<noteq> 0) (take n mv))"
proof
  show "free_cfg ci w = Some w" if "ci < length (w_cfg w)" "c_dynmem (w_cfg w ! ci) = None" for ci w
    using that by (simp add: free_cfg_def vget_def)
  show "cfg_n n c \<Longrightarrow> n \<le> length mv \<Longrightarrow>
      cfg_n (length (filter (\<lambda>a. a \<noteq> 0) (take n mv))) (edit_cfg (kept mv) (kept mv) (kept mv) c)"
    "ptr_n n p \<Longrightarrow> n \<le> length mv \<Longrightarrow>
      ptr_n (length (filter (\<lambda>a. a \<noteq> 0) (take n mv))) (edit_ptr (kept mv) (kept mv) p)" for n c p mv
    by (auto simp: cfg_n_def ptr_n_def length_kept)
qed (simp_all add: free_cfg_row)

interpretation alloc_rows: row_op alloc_cfg "\<lambda>mv. pad_cfg (length mv)" "\<lambda>mv. pad_ptr (length mv)"
  "\<lambda>mv n. length mv"
proof
  show "alloc_cfg ci w = Some w" if "ci < length (w_cfg w)" "c_dynmem (w_cfg w ! ci) = None" for ci w
    using that by (simp add: alloc_cfg_def vget_def)
qed (simp_all add: alloc_cfg_row pad_full)

subsection \<open>The whole operations\<close>

text \<open>The values of the field \<open>k\<close>, attached to the objects of the class \<open>di\<close>.\<close>

type_synonym row = "ptr \<times> value_t \<times> value_t \<times> string option"

definition rows :: "world \<Rightarrow> nat \<Rightarrow> nat \<Rightarrow> row list" where
  "rows w di k = zip (d_v_maddr (w_dyn w ! di))
     (zip (c_v_oldval (w_cfg w ! k)) (zip (c_v_value (w_cfg w ! k)) (c_v_cstr (w_cfg w ! k))))"

text \<open>The sizes of the objects, and the state and address of a pointer in each of them.\<close>

definition size_rows :: "world \<Rightarrow> nat \<Rightarrow> (ptr \<times> ptr) list" where
  "size_rows w di = zip (d_v_maddr (w_dyn w ! di)) (d_v_msize (w_dyn w ! di))"

definition ptr_rows :: "world \<Rightarrow> nat \<Rightarrow> nat \<Rightarrow> (ptr \<times> ptr_e \<times> ptr) list" where
  "ptr_rows w di pi = zip (d_v_maddr (w_dyn w ! di)) (zip (p_v_state (w_ptr w ! pi)) (p_v_offs (w_ptr w ! pi)))"

lemma purge_eq:
  "i \<le> length mvec \<Longrightarrow> length svec = length mvec \<Longrightarrow>
     purge i mvec svec = Some (take i mvec @ filter (\<lambda>a. a \<noteq> 0) (drop i mvec),
       take i svec @ kept (drop i mvec) (drop i svec))"
proof (induction i mvec svec rule: purge.induct)
  case (1 i mvec svec)
  show ?case
  proof (cases "i < length mvec")
    case False
    then show ?thesis using 1(3,4) by (subst purge.simps) simp
  next
    case True
    then have d: "drop i mvec = mvec ! i # drop (Suc i) mvec" "drop i svec = svec ! i # drop (Suc i) svec"
      using 1 by (simp_all add: Cons_nth_drop_Suc)
    show ?thesis
    proof (cases "mvec ! i = 0")
      case True
      let ?s = "take i svec @ drop (Suc i) svec"
      have v: "verase svec i = Some ?s" using 1 \<open>i < length mvec\<close> by (simp add: verase_def)
      have "purge i mvec svec = purge i (take i mvec @ drop (Suc i) mvec) ?s"
        using \<open>i < length mvec\<close> True v by (simp add: purge.simps [of i mvec])
      also have "\<dots> = Some (take i mvec @ filter (\<lambda>a. a \<noteq> 0) (drop (Suc i) mvec),
          take i svec @ kept (drop (Suc i) mvec) (drop (Suc i) svec))"
        using 1(1) [OF \<open>i < length mvec\<close> True v] 1(3,4) \<open>i < length mvec\<close> by simp
      finally show ?thesis by (simp add: d True)
    next
      case False
      have "purge i mvec svec = purge (i + 1) mvec svec"
        using True False by (simp add: purge.simps [of i mvec])
      also have "\<dots> = Some (take (i + 1) mvec @ filter (\<lambda>a. a \<noteq> 0) (drop (i + 1) mvec),
          take (i + 1) svec @ kept (drop (i + 1) mvec) (drop (i + 1) svec))"
        using 1(2) [OF True False] True 1(4) by simp
      finally show ?thesis using True 1(4) by (simp add: d False take_Suc_conv_app_nth)
    qed
  qed
qed

definition purged :: "dynmem_entry \<Rightarrow> dynmem_entry" where
  "purged d = d\<lparr>d_v_maddr := filter (\<lambda>a. a \<noteq> 0) (d_v_maddr d),
     d_v_msize := kept (d_v_maddr d) (d_v_msize d), d_num_freed := 0\<rparr>"

lemma kept_self: "0 \<notin> set mv \<Longrightarrow> length xs = length mv \<Longrightarrow> kept mv xs = xs"
  by (induction mv xs rule: list_induct2') auto

lemma purge_dyn_eq:
  "length (d_v_msize d) = length (d_v_maddr d) \<Longrightarrow> purge_dyn d = Some (purged d)"
  by (simp add: purge_dyn_def purge_eq purged_def)

lemma purged_len:
  assumes "length (d_v_msize d) = length (d_v_maddr d)"
  shows "length (d_v_msize (purged d)) = length (d_v_maddr (purged d))"
  using assms by (simp add: purged_def length_kept)

lemma purged_idem:
  "length (d_v_msize d) = length (d_v_maddr d) \<Longrightarrow> purged (purged d) = purged d"
  by (simp add: purged_def kept_self length_kept)

text \<open>Every class of a config entry is visited.\<close>

lemma set_dyn_visits:
  "set (dyn_visits old cs) \<union> set_option old = {di. \<exists>c \<in> set cs. c_dynmem c = Some di} \<union> set_option old"
proof (induction cs arbitrary: old)
  case (Cons c cs)
  show ?case
  proof (cases "c_dynmem c")
    case None
    with Cons [of old] show ?thesis by simp
  next
    case (Some di)
    with Cons [of "Some di"] Cons [of old] show ?thesis by auto
  qed
qed simp

lemma fold_purge:
  assumes "\<forall>di \<in> set dis. di < length (w_dyn w)"
    "\<forall>d \<in> set (w_dyn w). length (d_v_msize d) = length (d_v_maddr d)"
  shows "fold_opt (\<lambda>di. mod_dyn di purge_dyn) dis w =
    Some (w\<lparr>w_dyn := imap (\<lambda>di d. if di \<in> set dis then purged d else d) (w_dyn w)\<rparr>)"
  using assms
proof (induction dis arbitrary: w)
  case (Cons di dis)
  let ?w = "w\<lparr>w_dyn := imap (\<lambda>k d. if k = di then purged d else d) (w_dyn w)\<rparr>"
  have di: "di < length (w_dyn w)" using Cons.prems by simp
  have len: "length (d_v_msize (w_dyn w ! i)) = length (d_v_maddr (w_dyn w ! i))"
    if "i < length (w_dyn w)" for i using that Cons.prems(2) by simp
  have "mod_dyn di purge_dyn w = Some ?w"
    using di Cons.prems(2) by (simp add: mod_dyn_def vget_def purge_dyn_eq upd_imap)
  moreover have "fold_opt (\<lambda>di. mod_dyn di purge_dyn) dis ?w =
      Some (?w\<lparr>w_dyn := imap (\<lambda>di d. if di \<in> set dis then purged d else d) (w_dyn ?w)\<rparr>)"
    using Cons.prems by (intro Cons.IH) (auto simp: in_set_conv_nth purged_len len)
  moreover have "imap (\<lambda>k d. if k \<in> set dis then purged d else d) (w_dyn ?w) =
      imap (\<lambda>k d. if k \<in> set (di # dis) then purged d else d) (w_dyn w)"
    using Cons.prems(2) by (auto intro!: imap_cong simp: purged_idem len)
  ultimately show ?case by simp
qed simp

lemma foot_dyn [simp]:
  "foot (w\<lparr>w_dyn := D\<rparr>) ci = foot w ci" "pfoot (w\<lparr>w_dyn := D\<rparr>) ci = pfoot w ci"
  "row_ok (w\<lparr>w_dyn := D\<rparr>) ci n = row_ok w ci n"
  by (cases "c_ptrtgt (w_cfg w ! ci)"; simp add: foot_def pfoot_def row_ok_def tgt_fields_def)+

lemma row_ok_len: "row_ok w ci n \<Longrightarrow> length (c_v_oldval (w_cfg w ! ci)) = n"
  by (simp add: row_ok_def cfg_n_def)

text \<open>The invariant after a loop over the config entries and a change of the addresses.\<close>

lemma mem_wf_after:
  assumes wf: "mem_wf w" and st: "\<And>k. static (F k)"
    and rows: "\<And>ci di. ci < length (w_cfg w) \<Longrightarrow> c_dynmem (w_cfg w ! ci) = Some di \<Longrightarrow>
      pfoot (wmap F G w) ci = pfoot w ci \<and> foot (wmap F G w) ci = foot w ci \<and>
      row_ok (wmap F G w) ci (l ci di)"
    and D: "length D = length (w_dyn w)" "\<forall>d \<in> set D. length (d_v_msize d) = length (d_v_maddr d)"
    "\<And>ci di. ci < length (w_cfg w) \<Longrightarrow> c_dynmem (w_cfg w ! ci) = Some di \<Longrightarrow>
      l ci di \<le> length (d_v_maddr (D ! di))"
  shows "mem_wf ((wmap F G w)\<lparr>w_dyn := D\<rparr>)"
  unfolding mem_wf_def
proof (intro conjI allI impI)
  show "\<forall>d \<in> set (w_dyn ((wmap F G w)\<lparr>w_dyn := D\<rparr>)). length (d_v_msize d) = length (d_v_maddr d)"
    using D(2) by simp
next
  fix ci
  assume "ci < length (w_cfg ((wmap F G w)\<lparr>w_dyn := D\<rparr>))"
  then have ci: "ci < length (w_cfg w)" by simp
  have "di < length D \<and> row_ok (wmap F G w) ci (length (c_v_oldval (F ci (w_cfg w ! ci)))) \<and>
      length (c_v_oldval (F ci (w_cfg w ! ci))) \<le> length (d_v_maddr (D ! di))"
    if di: "c_dynmem (w_cfg w ! ci) = Some di" for di
  proof -
    have ok: "row_ok (wmap F G w) ci (l ci di)" using rows [OF ci di] by simp
    from row_ok_len [OF ok] ci have "length (c_v_oldval (F ci (w_cfg w ! ci))) = l ci di" by simp
    with ok D mem_wfD(1) [OF wf ci di] ci di show ?thesis by simp
  qed
  then show "\<forall>di \<in> set_option (c_dynmem (w_cfg ((wmap F G w)\<lparr>w_dyn := D\<rparr>) ! ci)).
      di < length (w_dyn ((wmap F G w)\<lparr>w_dyn := D\<rparr>)) \<and>
      row_ok ((wmap F G w)\<lparr>w_dyn := D\<rparr>) ci
        (length (c_v_oldval (w_cfg ((wmap F G w)\<lparr>w_dyn := D\<rparr>) ! ci))) \<and>
      length (c_v_oldval (w_cfg ((wmap F G w)\<lparr>w_dyn := D\<rparr>) ! ci)) \<le>
        length (d_v_maddr (w_dyn ((wmap F G w)\<lparr>w_dyn := D\<rparr>) ! di))"
    using ci by (simp add: static_sel st)
next
  fix ci cj
  assume a: "ci < length (w_cfg ((wmap F G w)\<lparr>w_dyn := D\<rparr>))"
    "cj < length (w_cfg ((wmap F G w)\<lparr>w_dyn := D\<rparr>))" "ci \<noteq> cj"
    "c_dynmem (w_cfg ((wmap F G w)\<lparr>w_dyn := D\<rparr>) ! ci) \<noteq> None"
    "c_dynmem (w_cfg ((wmap F G w)\<lparr>w_dyn := D\<rparr>) ! cj) \<noteq> None"
  then have l: "ci < length (w_cfg w)" "cj < length (w_cfg w)" by simp_all
  obtain di where di: "c_dynmem (w_cfg w ! ci) = Some di" using a l st by (auto simp: static_sel)
  obtain dj where dj: "c_dynmem (w_cfg w ! cj) = Some dj" using a l st by (auto simp: static_sel)
  from mem_wf_disjoint [OF wf l a(3) di dj] rows [OF l(1) di] rows [OF l(2) dj]
  show "foot ((wmap F G w)\<lparr>w_dyn := D\<rparr>) ci \<inter> foot ((wmap F G w)\<lparr>w_dyn := D\<rparr>) cj = {}"
    "pfoot ((wmap F G w)\<lparr>w_dyn := D\<rparr>) ci \<inter> pfoot ((wmap F G w)\<lparr>w_dyn := D\<rparr>) cj = {}" by simp_all
qed

lemma kept_zip:
  "length xs = length ys \<Longrightarrow> kept mv (zip xs ys) = zip (kept mv xs) (kept mv ys)"
proof (induction xs ys arbitrary: mv rule: list_induct2)
  case (Cons x xs y ys)
  then show ?case by (cases mv) simp_all
qed simp

lemma zip_kept:
  "length xs \<le> length mv \<Longrightarrow>
     zip (filter (\<lambda>a. a \<noteq> 0) mv) (kept mv xs) = filter (\<lambda>r. fst r \<noteq> 0) (zip mv xs)"
  by (induction mv xs rule: list_induct2') auto

lemma free_dynmem_rows:
  assumes wf: "mem_wf w"
  shows "\<exists>w'. free_dynmem w = Some w' \<and> mem_wf w' \<and>
    (\<forall>ci di. ci < length (w_cfg w) \<longrightarrow> c_dynmem (w_cfg w ! ci) = Some di \<longrightarrow>
       d_v_maddr (w_dyn w' ! di) = filter (\<lambda>a. a \<noteq> 0) (d_v_maddr (w_dyn w ! di)) \<and>
       c_dynmem (w_cfg w' ! ci) = Some di \<and> foot w' ci = foot w ci \<and> pfoot w' ci = pfoot w ci \<and>
       (\<forall>k \<in> foot w ci. rows w' di k = filter (\<lambda>r. fst r \<noteq> 0) (rows w di k)) \<and>
       size_rows w' di = filter (\<lambda>r. fst r \<noteq> 0) (size_rows w di) \<and>
       (\<forall>pi \<in> pfoot w ci. ptr_rows w' di pi = filter (\<lambda>r. fst r \<noteq> 0) (ptr_rows w di pi)))"
proof -
  let ?l = "\<lambda>ci di. length (filter (\<lambda>a. a \<noteq> 0)
    (take (length (c_v_oldval (w_cfg w ! ci))) (d_v_maddr (w_dyn w ! di))))"
  obtain F G where fg: "fold_opt free_cfg [0..<length (w_cfg w)] w = Some (wmap F G w)"
    and d: "free_rows.edited w (length (w_cfg w)) F G"
    and r: "\<And>ci di. ci < length (w_cfg w) \<Longrightarrow> c_dynmem (w_cfg w ! ci) = Some di \<Longrightarrow>
      pfoot (wmap F G w) ci = pfoot w ci \<and> foot (wmap F G w) ci = foot w ci \<and>
      row_ok (wmap F G w) ci (?l ci di)"
    using free_rows.rows_loop_wf [OF wf] by blast
  from d have st: "\<And>k. static (F k)" by (simp add: free_rows.edited_def)
  let ?vis = "dyn_visits None (w_cfg (wmap F G w))"
  let ?D = "imap (\<lambda>di d. if di \<in> set ?vis then purged d else d) (w_dyn w)"
  let ?w = "(wmap F G w)\<lparr>w_dyn := ?D\<rparr>"
  have vis: "set ?vis = {di. \<exists>ci < length (w_cfg w). c_dynmem (w_cfg w ! ci) = Some di}"
  proof -
    have "set ?vis = {di. \<exists>c \<in> set (w_cfg (wmap F G w)). c_dynmem c = Some di}"
      using set_dyn_visits [of None] by simp
    then show ?thesis using st by (auto simp: in_set_conv_nth static_sel Bex_def)
  qed
  have len: "length (d_v_msize (w_dyn w ! i)) = length (d_v_maddr (w_dyn w ! i))"
    if "i < length (w_dyn w)" for i using wf that by (simp add: mem_wf_def)
  have "free_dynmem w = Some ?w"
    unfolding free_dynmem_def fg
    using fold_purge [of ?vis "wmap F G w"] wf vis mem_wfD(1) [OF wf] by (auto simp: mem_wf_def)
  moreover have "mem_wf ?w"
  proof (rule mem_wf_after [OF wf st r])
    show "\<forall>d \<in> set ?D. length (d_v_msize d) = length (d_v_maddr d)"
      by (auto simp: in_set_conv_nth purged_len len)
    show "?l ci di \<le> length (d_v_maddr (?D ! di))"
      if "ci < length (w_cfg w)" "c_dynmem (w_cfg w ! ci) = Some di" for ci di
    proof -
      have "?D ! di = purged (w_dyn w ! di)" using that vis mem_wfD(1) [OF wf that] by auto
      then show ?thesis by (simp add: purged_def filter_take_le)
    qed
  qed simp_all
  moreover have "d_v_maddr (w_dyn ?w ! di) = filter (\<lambda>a. a \<noteq> 0) (d_v_maddr (w_dyn w ! di)) \<and>
       c_dynmem (w_cfg ?w ! ci) = Some di \<and> foot ?w ci = foot w ci \<and> pfoot ?w ci = pfoot w ci \<and>
       (\<forall>k \<in> foot w ci. rows ?w di k = filter (\<lambda>r. fst r \<noteq> 0) (rows w di k)) \<and>
       size_rows ?w di = filter (\<lambda>r. fst r \<noteq> 0) (size_rows w di) \<and>
       (\<forall>pi \<in> pfoot w ci. ptr_rows ?w di pi = filter (\<lambda>r. fst r \<noteq> 0) (ptr_rows w di pi))"
    if ci: "ci < length (w_cfg w)" and di: "c_dynmem (w_cfg w ! ci) = Some di" for ci di
  proof -
    let ?mv = "d_v_maddr (w_dyn w ! di)"
    note W = mem_wfD [OF wf ci di]
    have D: "?D ! di = purged (w_dyn w ! di)" using W(1) vis ci di by auto
    then have mv: "d_v_maddr (w_dyn ?w ! di) = filter (\<lambda>a. a \<noteq> 0) ?mv" by (simp add: purged_def)
    have "rows ?w di k = filter (\<lambda>r. fst r \<noteq> 0) (rows w di k)" if k: "k \<in> foot w ci" for k
    proof -
      have fk: "F k = edit_cfg (kept ?mv) (kept ?mv) (kept ?mv)"
        using d ci di k unfolding free_rows.edited_def by blast
      have "k < length (w_cfg w) \<and> cfg_n (length (c_v_oldval (w_cfg w ! ci))) (w_cfg w ! k)"
        by (rule row_okD(2) [OF W(2) k])
      then show ?thesis
        using W(3) fk mv by (simp add: rows_def zip_kept kept_zip [symmetric] cfg_n_def)
    qed
    moreover have "size_rows ?w di = filter (\<lambda>r. fst r \<noteq> 0) (size_rows w di)"
      using D W(4) by (simp add: size_rows_def purged_def zip_kept)
    moreover have "ptr_rows ?w di pi = filter (\<lambda>r. fst r \<noteq> 0) (ptr_rows w di pi)" if pi: "pi \<in> pfoot w ci" for pi
    proof -
      have gp: "G pi = edit_ptr (kept ?mv) (kept ?mv)"
        using d ci di pi unfolding free_rows.edited_def by blast
      have "pi < length (w_ptr w) \<and> ptr_n (length (c_v_oldval (w_cfg w ! ci))) (w_ptr w ! pi)"
        by (rule row_okD(3) [OF W(2) pi])
      then show ?thesis
        using W(3) gp mv by (simp add: ptr_rows_def zip_kept kept_zip [symmetric] ptr_n_def)
    qed
    ultimately show ?thesis using mv r [OF ci di] ci di st by (simp add: static_sel)
  qed
  ultimately show ?thesis by blast
qed

text \<open>Every row exists: the state after \<open>alloc_dynmem\<close>.\<close>

definition in_sync :: "world \<Rightarrow> bool" where
  "in_sync w \<longleftrightarrow> (\<forall>ci < length (w_cfg w). \<forall>di \<in> set_option (c_dynmem (w_cfg w ! ci)).
     row_ok w ci (length (d_v_maddr (w_dyn w ! di))))"

lemma zip_pad:
  "length xs \<le> length mv \<Longrightarrow>
     zip mv (pad (length mv) x xs) = zip mv xs @ map (\<lambda>a. (a, x)) (drop (length xs) mv)"
proof -
  assume l: "length xs \<le> length mv"
  have "zip mv (pad (length mv) x xs) =
    zip (take (length xs) mv @ drop (length xs) mv) (xs @ replicate (length mv - length xs) x)"
    by (simp add: pad_def)
  also have "\<dots> = zip (take (length xs) mv) xs @ zip (drop (length xs) mv) (replicate (length mv - length xs) x)"
    using l by (subst zip_append) simp_all
  also have "zip (drop (length xs) mv) (replicate (length mv - length xs) x) =
    map (\<lambda>a. (a, x)) (drop (length xs) mv)"
    by (rule nth_equalityI) simp_all
  also have "zip (take (length xs) mv) xs = zip mv xs"
    by (rule nth_equalityI) (use l in simp_all)
  finally show ?thesis by (simp only:)
qed

lemma pad_zip:
  "length xs = length ys \<Longrightarrow> zip (pad m x xs) (pad m y ys) = pad m (x, y) (zip xs ys)"
  by (simp add: pad_def zip_append)

lemma alloc_dynmem_rows:
  assumes wf: "mem_wf w"
  shows "\<exists>w'. alloc_dynmem w = Some w' \<and> mem_wf w' \<and> in_sync w' \<and> w_dyn w' = w_dyn w \<and>
    (\<forall>ci di. ci < length (w_cfg w) \<longrightarrow> c_dynmem (w_cfg w ! ci) = Some di \<longrightarrow>
       c_dynmem (w_cfg w' ! ci) = Some di \<and> foot w' ci = foot w ci \<and>
       (\<forall>k \<in> foot w ci. rows w' di k = rows w di k @
          map (\<lambda>a. (a, 0, c_value (w_cfg w ! k), new_cstr (w_cfg w ! k)))
            (drop (length (rows w di k)) (d_v_maddr (w_dyn w ! di)))))"
proof -
  obtain F G where fg: "fold_opt alloc_cfg [0..<length (w_cfg w)] w = Some (wmap F G w)"
    and d: "alloc_rows.edited w (length (w_cfg w)) F G"
    and r: "\<And>ci di. ci < length (w_cfg w) \<Longrightarrow> c_dynmem (w_cfg w ! ci) = Some di \<Longrightarrow>
      pfoot (wmap F G w) ci = pfoot w ci \<and> foot (wmap F G w) ci = foot w ci \<and>
      row_ok (wmap F G w) ci (length (d_v_maddr (w_dyn w ! di)))"
    using alloc_rows.rows_loop_wf [OF wf] by blast
  from d have st: "\<And>k. static (F k)" by (simp add: alloc_rows.edited_def)
  let ?w = "wmap F G w"
  have "alloc_dynmem w = Some ?w" using fg by (simp add: alloc_dynmem_def)
  moreover have "mem_wf ((wmap F G w)\<lparr>w_dyn := w_dyn w\<rparr>)"
  proof (rule mem_wf_after [OF wf st r])
    show "\<forall>d \<in> set (w_dyn w). length (d_v_msize d) = length (d_v_maddr d)"
      using wf by (simp add: mem_wf_def)
  qed (assumption, assumption, rule refl, rule order_refl)
  then have "mem_wf ?w" by (simp add: wmap_def)
  moreover have "in_sync ?w"
    unfolding in_sync_def
  proof (intro allI impI ballI)
    fix ci di
    assume "ci < length (w_cfg ?w)" "di \<in> set_option (c_dynmem (w_cfg ?w ! ci))"
    then have "ci < length (w_cfg w)" "c_dynmem (w_cfg w ! ci) = Some di"
      by (simp_all add: static_sel st)
    with r show "row_ok ?w ci (length (d_v_maddr (w_dyn ?w ! di)))" by simp
  qed
  moreover have "c_dynmem (w_cfg ?w ! ci) = Some di \<and> foot ?w ci = foot w ci \<and>
       (\<forall>k \<in> foot w ci. rows ?w di k = rows w di k @
          map (\<lambda>a. (a, 0, c_value (w_cfg w ! k), new_cstr (w_cfg w ! k)))
            (drop (length (rows w di k)) (d_v_maddr (w_dyn w ! di))))"
    if ci: "ci < length (w_cfg w)" and di: "c_dynmem (w_cfg w ! ci) = Some di" for ci di
  proof -
    let ?mv = "d_v_maddr (w_dyn w ! di)"
    note W = mem_wfD [OF wf ci di]
    have "rows ?w di k = rows w di k @
          map (\<lambda>a. (a, 0, c_value (w_cfg w ! k), new_cstr (w_cfg w ! k)))
            (drop (length (rows w di k)) ?mv)" if k: "k \<in> foot w ci" for k
    proof -
      have fk: "F k = pad_cfg (length ?mv)"
        using d ci di k unfolding alloc_rows.edited_def by blast
      have kc: "k < length (w_cfg w)" "cfg_n (length (c_v_oldval (w_cfg w ! ci))) (w_cfg w ! k)"
        using row_okD(2) [OF W(2) k] by simp_all
      let ?z = "zip (c_v_oldval (w_cfg w ! k)) (zip (c_v_value (w_cfg w ! k)) (c_v_cstr (w_cfg w ! k)))"
      have z: "length ?z \<le> length ?mv" using W(3) kc(2) by (simp add: cfg_n_def)
      have "rows ?w di k = zip ?mv (pad (length ?mv) (0, c_value (w_cfg w ! k), new_cstr (w_cfg w ! k)) ?z)"
        using kc fk by (simp add: rows_def pad_cfg_def pad_zip cfg_n_def)
      also have "\<dots> = rows w di k @
          map (\<lambda>a. (a, 0, c_value (w_cfg w ! k), new_cstr (w_cfg w ! k))) (drop (length ?z) ?mv)"
        using z by (simp add: zip_pad rows_def)
      also have "length ?z = length (rows w di k)" using z by (simp add: rows_def)
      finally show ?thesis .
    qed
    with r [OF ci di] ci di st show ?thesis by (simp add: static_sel)
  qed
  ultimately show ?thesis by (intro exI [of _ ?w]) simp
qed

subsection \<open>The callbacks\<close>

lemma mem_wf_mq [simp]: "mem_wf (w\<lparr>w_mq := q\<rparr>) = mem_wf w"
proof -
  have f: "tgt_fields (w\<lparr>w_mq := q\<rparr>) ci = tgt_fields w ci" "pfoot (w\<lparr>w_mq := q\<rparr>) ci = pfoot w ci" for ci
    by (cases "c_ptrtgt (w_cfg w ! ci)"; simp add: pfoot_def tgt_fields_def)+
  show ?thesis unfolding mem_wf_def row_ok_def foot_def f by simp
qed

text \<open>A change of the classes that does not drop addresses.\<close>

lemma mem_wf_dyn:
  assumes wf: "mem_wf w" and D: "length D = length (w_dyn w)"
    "\<forall>d \<in> set D. length (d_v_msize d) = length (d_v_maddr d)"
    "\<And>di. di < length (w_dyn w) \<Longrightarrow> length (d_v_maddr (w_dyn w ! di)) \<le> length (d_v_maddr (D ! di))"
  shows "mem_wf (w\<lparr>w_dyn := D\<rparr>)"
proof -
  have "mem_wf ((wmap (\<lambda>i c. c) (\<lambda>i p. p) w)\<lparr>w_dyn := D\<rparr>)"
  proof (rule mem_wf_after [OF wf, where l = "\<lambda>ci di. length (c_v_oldval (w_cfg w ! ci))"])
    fix ci di
    assume "ci < length (w_cfg w)" "c_dynmem (w_cfg w ! ci) = Some di"
    note W = mem_wfD [OF wf this]
    show "length (c_v_oldval (w_cfg w ! ci)) \<le> length (d_v_maddr (D ! di))"
      using W(3) D(3) [OF W(1)] by linarith
    show "pfoot (wmap (\<lambda>i c. c) (\<lambda>i p. p) w) ci = pfoot w ci \<and>
        foot (wmap (\<lambda>i c. c) (\<lambda>i p. p) w) ci = foot w ci \<and>
        row_ok (wmap (\<lambda>i c. c) (\<lambda>i p. p) w) ci (length (c_v_oldval (w_cfg w ! ci)))"
      using W(2) by simp
  qed (simp_all add: D(1,2))
  then show ?thesis by simp
qed

lemma mem_wf_dyn1:
  assumes wf: "mem_wf w" and "di < length (w_dyn w)"
    "length (d_v_msize d) = length (d_v_maddr d)"
    "length (d_v_maddr (w_dyn w ! di)) \<le> length (d_v_maddr d)"
  shows "mem_wf (w\<lparr>w_dyn := (w_dyn w)[di := d]\<rparr>)"
proof (rule mem_wf_dyn [OF wf])
  show "\<forall>d' \<in> set ((w_dyn w)[di := d]). length (d_v_msize d') = length (d_v_maddr d')"
    using wf assms(3) set_update_subset_insert [of "w_dyn w" di d] by (auto simp: mem_wf_def)
  show "length (d_v_maddr (w_dyn w ! k)) \<le> length (d_v_maddr ((w_dyn w)[di := d] ! k))"
    if "k < length (w_dyn w)" for k using that assms(4) by (cases "k = di") simp_all
qed simp

text \<open>A release zeroes one address, the first one found; the row keeps its place until the
  next \<open>free_dynmem\<close>.\<close>

definition cleared :: "nat \<Rightarrow> dynmem_entry \<Rightarrow> dynmem_entry" where
  "cleared idx d = d\<lparr>d_v_maddr := (d_v_maddr d)[idx := 0], d_v_msize := (d_v_msize d)[idx := 0],
     d_num_freed := d_num_freed d + 1\<rparr>"

definition clear_effect :: "ptr \<Rightarrow> cfg_entry set \<Rightarrow> world \<Rightarrow> world \<Rightarrow> bool" where
  "clear_effect x C w w' \<longleftrightarrow>
     (w' = w \<and> (\<forall>c \<in> C. \<forall>di. c_dynmem c = Some di \<longrightarrow> x \<notin> set (d_v_maddr (w_dyn w ! di)))) \<or>
     (\<exists>di idx. w' = w\<lparr>w_dyn := (w_dyn w)[di := cleared idx (w_dyn w ! di)]\<rparr> \<and>
        di < length (w_dyn w) \<and> idx < length (d_v_maddr (w_dyn w ! di)) \<and>
        d_v_maddr (w_dyn w ! di) ! idx = x \<and> (\<exists>c \<in> C. c_dynmem c = Some di))"

lemma clear_effect_insert:
  "clear_effect x C w w' \<Longrightarrow>
     (\<And>di. c_dynmem c = Some di \<Longrightarrow> x \<notin> set (d_v_maddr (w_dyn w ! di))) \<Longrightarrow>
     clear_effect x (insert c C) w w'"
  unfolding clear_effect_def by blast

lemma clear_addr_in_effect:
  assumes wf: "mem_wf w" and "\<forall>c \<in> set cs. \<forall>di. c_dynmem c = Some di \<longrightarrow> di < length (w_dyn w)"
  shows "\<exists>w'. clear_addr_in x cs w = Some w' \<and> clear_effect x (set cs) w w'"
  using assms(2)
proof (induction cs)
  case Nil
  then show ?case by (simp add: clear_effect_def)
next
  case (Cons c cs)
  then obtain w' where w': "clear_addr_in x cs w = Some w'" "clear_effect x (set cs) w w'" by auto
  show ?case
  proof (cases "c_dynmem c")
    case None
    moreover from this have "clear_effect x (set (c # cs)) w w'"
      using clear_effect_insert [OF w'(2), of c] by simp
    ultimately show ?thesis using w'(1) by simp
  next
    case (Some di)
    then have di: "di < length (w_dyn w)" using Cons.prems by simp
    let ?m = "d_v_maddr (w_dyn w ! di)"
    have len: "length (d_v_msize (w_dyn w ! di)) = length ?m" using wf di by (simp add: mem_wf_def)
    show ?thesis
    proof (cases "find_addr_idx ?m x")
      case None
      then have "x \<notin> set ?m" by (auto simp: find_addr_idx_def index_first_None)
      moreover have "clear_addr_in x (c # cs) w = clear_addr_in x cs w"
        using None \<open>c_dynmem c = Some di\<close> di by (simp add: vget_def)
      moreover have "clear_effect x (set (c # cs)) w w'"
        using clear_effect_insert [OF w'(2), of c] \<open>c_dynmem c = Some di\<close> \<open>x \<notin> set ?m\<close> by simp
      ultimately show ?thesis using w'(1) by (simp only: simp_thms) blast
    next
      case (Some idx)
      then have i: "idx < length ?m" "?m ! idx = x"
        using index_first_SomeD [of "\<lambda>a. a = x" ?m idx] by (auto simp: find_addr_idx_def)
      have "clear_addr_in x (c # cs) w = Some (w\<lparr>w_dyn := (w_dyn w)[di := cleared idx (w_dyn w ! di)]\<rparr>)"
        using \<open>c_dynmem c = Some di\<close> Some i di len
        by (simp add: vget_def mod_dyn_def vset_def cleared_def)
      moreover have "clear_effect x (set (c # cs)) w (w\<lparr>w_dyn := (w_dyn w)[di := cleared idx (w_dyn w ! di)]\<rparr>)"
        unfolding clear_effect_def using i di \<open>c_dynmem c = Some di\<close> by fastforce
      ultimately show ?thesis by blast
    qed
  qed
qed

lemma clear_effect_wf:
  assumes "mem_wf w" "clear_effect x C w w'"
  shows "mem_wf w'" "w_mq w' = w_mq w" "w_cfg w' = w_cfg w"
proof -
  have "mem_wf (w\<lparr>w_dyn := (w_dyn w)[di := cleared idx (w_dyn w ! di)]\<rparr>)"
    if "di < length (w_dyn w)" for di idx
    using assms(1) that by (intro mem_wf_dyn1) (simp_all add: cleared_def mem_wf_def)
  with assms show "mem_wf w'" "w_mq w' = w_mq w" "w_cfg w' = w_cfg w"
    by (auto simp: clear_effect_def)
qed

lemma clear_wf:
  assumes "mem_wf w" "mq_holds (w_mq w) ms"
  shows "\<exists>w'. clear_dynmem_addr x w = Some w' \<and> mem_wf w' \<and> mq_holds (w_mq w') (remove_addr x ms)"
proof -
  obtain q where q: "remove_malloc_from_queue (w_mq w) x = Some (x \<in> fst ` set ms, q)"
    "mq_holds q (remove_addr x ms)" using remove_malloc_holds [OF assms(2)] by blast
  have nf: "remove_addr x ms = ms" if "x \<notin> fst ` set ms" using that by (induction ms) auto
  have "\<forall>c \<in> set (w_cfg w). \<forall>di. c_dynmem c = Some di \<longrightarrow> di < length (w_dyn w)"
    using mem_wfD(1) [OF assms(1)] by (auto simp: in_set_conv_nth)
  from clear_addr_in_effect [OF assms(1) this, of x] clear_effect_wf [OF assms(1)]
  obtain w' where w': "clear_addr_in x (w_cfg w) w = Some w'" "mem_wf w'" "w_mq w' = w_mq w" by blast
  show ?thesis
    using q w' nf assms by (cases "x \<in> fst ` set ms") (simp_all add: clear_dynmem_addr_def)
qed

text \<open>An allocation appends to one class, or to none.\<close>

lemma alloc_addr_in_wf:
  assumes "mem_wf w" "\<forall>c \<in> set cs. \<forall>di \<in> set_option (c_dynmem c). di < length (w_dyn w)"
  shows "\<exists>w'. alloc_addr_in a n code cs w = Some w' \<and> mem_wf w' \<and> w_cfg w' = w_cfg w"
  using assms(2)
proof (induction cs)
  case (Cons c cs)
  show ?case
  proof (cases "c_dynmem c")
    case None
    with Cons show ?thesis by simp
  next
    case (Some di)
    then have di: "di < length (w_dyn w)" using Cons.prems by simp
    let ?d = "(w_dyn w ! di)\<lparr>d_v_maddr := d_v_maddr (w_dyn w ! di) @ [a],
      d_v_msize := d_v_msize (w_dyn w ! di) @ [n], d_num_alloc := d_num_alloc (w_dyn w ! di) + 1\<rparr>"
    have "mem_wf (w\<lparr>w_dyn := (w_dyn w)[di := ?d]\<rparr>)"
      using assms(1) di by (intro mem_wf_dyn1) (simp_all add: mem_wf_def)
    with Some di Cons show ?thesis by (simp add: vget_def mod_dyn_def)
  qed
qed (simp add: assms(1))

lemma alloc_addr_wf:
  "mem_wf w \<Longrightarrow> \<exists>w'. alloc_dynmem_addr a n co code so w = Some w' \<and> mem_wf w'"
  using alloc_addr_in_wf [of w "w_cfg w" a n code] mem_wfD(1) [of w]
  by (fastforce simp: alloc_dynmem_addr_def in_set_conv_nth)

lemma alloc_all_wf: "mem_wf w \<Longrightarrow> \<exists>w'. alloc_all ms w = Some w' \<and> mem_wf w'"
  unfolding alloc_all_def by (rule fold_opt_inv) (auto intro: alloc_addr_wf)

lemma process_mallocs_wf:
  assumes "mem_wf w" "mq_holds (w_mq w) ms"
  shows "\<exists>w'. process_mallocs (PARSE_S OR PARSE_C) w = Some w' \<and> mem_wf w' \<and> mq_holds (w_mq w') []"
proof -
  obtain w1 where "alloc_all ms w = Some w1" "mem_wf w1" using alloc_all_wf [OF assms(1)] by blast
  then show ?thesis using process_mallocs_eq [OF assms(2)] mq_reset_holds [OF assms(2)] by simp
qed

subsection \<open>The life of the object tables\<close>

text \<open>The operations of the main loop on the tables, in any order.\<close>

inductive mem_step :: "world \<Rightarrow> world \<Rightarrow> bool" where
  step_malloc: "mq_room (w_mq w) m \<Longrightarrow> queue_msg (render (msg_of m)) (w_mq w) = Some q \<Longrightarrow>
     mem_step w (w\<lparr>w_mq := q\<rparr>)"
| step_free: "clear_dynmem_addr x w = Some w' \<Longrightarrow> mem_step w w'"
| step_gc: "free_dynmem w = Some w' \<Longrightarrow> mem_step w w'"
| step_process: "process_mallocs (PARSE_S OR PARSE_C) w = Some w' \<Longrightarrow> mem_step w w'"
| step_alloc: "alloc_dynmem w = Some w' \<Longrightarrow> mem_step w w'"

inductive_cases mem_stepE: "mem_step w w'"

definition mem_inv :: "world \<Rightarrow> bool" where
  "mem_inv w \<longleftrightarrow> mem_wf w \<and> (\<exists>ms. mq_holds (w_mq w) ms)"

lemma wmap_mq: "w_mq (wmap F G w) = w_mq w" by simp

lemma free_dynmem_mq: "mem_wf w \<Longrightarrow> free_dynmem w = Some w' \<Longrightarrow> w_mq w' = w_mq w"
proof -
  assume wf: "mem_wf w" and f: "free_dynmem w = Some w'"
  obtain F G where "fold_opt free_cfg [0..<length (w_cfg w)] w = Some (wmap F G w)"
    using free_rows.rows_loop [OF wf] by blast
  with f have "fold_opt (\<lambda>di. mod_dyn di purge_dyn) (dyn_visits None (w_cfg (wmap F G w))) (wmap F G w) = Some w'"
    by (simp add: free_dynmem_def)
  then have "w_mq w' = w_mq (wmap F G w)"
    by (rule fold_opt_pres [where I = "\<lambda>v. w_mq v = w_mq (wmap F G w)", rotated 2])
      (auto simp: mod_dyn_def bind_eq_Some_conv)
  then show ?thesis by simp
qed

lemma alloc_dynmem_mq: "mem_wf w \<Longrightarrow> alloc_dynmem w = Some w' \<Longrightarrow> w_mq w' = w_mq w"
  using alloc_rows.rows_loop [of w "length (w_cfg w)"] by (auto simp: alloc_dynmem_def)

lemma mem_step_inv:
  assumes "mem_step w w'" "mem_inv w"
  shows "mem_inv w'"
proof -
  obtain ms where wf: "mem_wf w" and mq: "mq_holds (w_mq w) ms" using assms(2) by (auto simp: mem_inv_def)
  from assms(1) show ?thesis
  proof cases
    case (step_malloc m q)
    with queue_msg_holds [OF mq, of m] wf show ?thesis by (auto simp: mem_inv_def)
  next
    case (step_free x)
    with clear_wf [OF wf mq, of x] show ?thesis by (auto simp: mem_inv_def)
  next
    case step_gc
    with free_dynmem_rows [OF wf] free_dynmem_mq [OF wf] mq show ?thesis
      by (auto simp: mem_inv_def)
  next
    case step_process
    with process_mallocs_wf [OF wf mq] show ?thesis by (auto simp: mem_inv_def)
  next
    case step_alloc
    with alloc_dynmem_rows [OF wf] alloc_dynmem_mq [OF wf] mq show ?thesis
      by (auto simp: mem_inv_def)
  qed
qed

lemma mem_steps_inv: "mem_step\<^sup>*\<^sup>* w w' \<Longrightarrow> mem_inv w \<Longrightarrow> mem_inv w'"
  by (induction rule: rtranclp_induct) (auto intro: mem_step_inv)

end
