(* ===== verification/Trainer.thy ===== *)
theory Trainer
  imports Aslr MemmgmtInv
begin

text \<open>
  The trainer as a client of the FIFO: \<open>read_dynmem_fifo\<close> (\<open>src/src/ugtrain.cpp\<close>) with its
  callbacks is an instance of \<open>fifo_client\<close>, and the messages keep the invariant of the object
  tables.
\<close>

definition trainer_mfm where
  "trainer_mfm t txt a n co ca so =
     t_upd (\<lambda>w out. t_opt out (queue_msg (cstr txt) (w_mq w) \<bind> (\<lambda>q. Some (w\<lparr>w_mq := q\<rparr>)))) t"

lemma trainer_mf_local:
  "pp_msg_end pp + 1 < length (pp_ibuf pp) \<Longrightarrow>
     trainer_mf t pp a n co ca so = trainer_mfm t (take (Suc (pp_msg_end pp)) (pp_ibuf pp)) a n co ca so"
  by (simp add: trainer_mf_def trainer_mfm_def queue_dynmem_addr_def)

interpretation tr: fifo_client trainer_mf trainer_mfm trainer_ff "trainer_lf rlist" trainer_sf for rlist
  by unfold_locales (rule trainer_mf_local)

text \<open>What one message does to the running trainer.\<close>

definition handle_msg :: "region list \<Rightarrow> tstate \<Rightarrow> msg \<Rightarrow> tstate" where
  "handle_msg rlist = deliver trainer_mfm trainer_ff (trainer_lf rlist) trainer_sf 0"

definition read_trainer_fifo ::
  "region list \<Rightarrow> fifo_static \<Rightarrow> ffile \<Rightarrow> tstate \<Rightarrow> (fifo_static \<times> ffile \<times> tstate) option" where
  "read_trainer_fifo rlist = read_dynmem_fifo (Some (trainer_cb rlist)) (PARSE_S OR PARSE_C)"

lemma read_trainer_stream:
  assumes "pending n st p" "p @ drop (f_pos f) (f_data f) = stream ms @ pe"
    "\<forall>m \<in> set ms. wf_msg m \<and> length (render m) < n" "partial_msg pe" "length pe < n"
    "f_pos f \<le> length (f_data f)"
  shows "\<exists>st' f'. read_trainer_fifo rlist st f t = Some (st', f', foldl (handle_msg rlist) t ms) \<and>
    pending n st' pe \<and> f_data f' = f_data f \<and> f_pos f' = length (f_data f)"
  using tr.read_fifo_stream [OF assms, of rlist t]
  by (simp add: read_trainer_fifo_def trainer_cb_def handle_msg_def)

subsection \<open>Messages keep the invariant\<close>

text \<open>
  The part of the state that the invariant is about: the rows, the addresses of the classes
  and the queue. Code addresses, caches and value addresses are not in it.
\<close>

definition mem_part where
  "mem_part c = (c_dynmem c, c_ptrtgt c, c_v_oldval c, c_v_value c, c_v_cstr c)"

definition dyn_part where "dyn_part d = (d_v_maddr d, d_v_msize d)"

definition ptr_part where "ptr_part p = (p_cfg p, p_v_state p, p_v_offs p)"

definition mem_view where
  "mem_view w = (map mem_part (w_cfg w), map dyn_part (w_dyn w), map ptr_part (w_ptr w), w_mq w)"

lemma mem_viewD:
  assumes "mem_view w' = mem_view w"
  shows "length (w_cfg w') = length (w_cfg w)" "length (w_dyn w') = length (w_dyn w)"
    "length (w_ptr w') = length (w_ptr w)" "w_mq w' = w_mq w"
    "k < length (w_cfg w) \<Longrightarrow> mem_part (w_cfg w' ! k) = mem_part (w_cfg w ! k)"
    "k < length (w_dyn w) \<Longrightarrow> dyn_part (w_dyn w' ! k) = dyn_part (w_dyn w ! k)"
    "k < length (w_ptr w) \<Longrightarrow> ptr_part (w_ptr w' ! k) = ptr_part (w_ptr w ! k)"
proof -
  from assms have v: "map mem_part (w_cfg w') = map mem_part (w_cfg w)"
    "map dyn_part (w_dyn w') = map dyn_part (w_dyn w)"
    "map ptr_part (w_ptr w') = map ptr_part (w_ptr w)" "w_mq w' = w_mq w"
    by (simp_all add: mem_view_def)
  show l: "length (w_cfg w') = length (w_cfg w)" "length (w_dyn w') = length (w_dyn w)"
    "length (w_ptr w') = length (w_ptr w)" "w_mq w' = w_mq w"
    using v(1-3) [THEN arg_cong [where f = length]] v(4) by simp_all
  show "k < length (w_cfg w) \<Longrightarrow> mem_part (w_cfg w' ! k) = mem_part (w_cfg w ! k)"
    using arg_cong [OF v(1), of "\<lambda>l. l ! k"] l by simp
  show "k < length (w_dyn w) \<Longrightarrow> dyn_part (w_dyn w' ! k) = dyn_part (w_dyn w ! k)"
    using arg_cong [OF v(2), of "\<lambda>l. l ! k"] l by simp
  show "k < length (w_ptr w) \<Longrightarrow> ptr_part (w_ptr w' ! k) = ptr_part (w_ptr w ! k)"
    using arg_cong [OF v(3), of "\<lambda>l. l ! k"] l by simp
qed

lemma row_ok_view:
  assumes v: "mem_view w' = mem_view w" and ok: "row_ok w k n"
  shows "row_ok w' k n" "foot w' k = foot w k" "pfoot w' k = pfoot w k"
proof -
  note D = row_okD [OF ok] and V = mem_viewD [OF v]
  have k: "c_ptrtgt (w_cfg w' ! k) = c_ptrtgt (w_cfg w ! k)"
    using V(5) [OF D(1)] by (simp add: mem_part_def)
  then show pf: "pfoot w' k = pfoot w k" by (simp add: pfoot_def)
  have tf: "tgt_fields w' k = tgt_fields w k"
  proof (cases "c_ptrtgt (w_cfg w ! k)")
    case (Some pi)
    with D(3) [of pi] V(7) [of pi] k show ?thesis by (simp add: pfoot_def tgt_fields_def ptr_part_def)
  qed (simp add: tgt_fields_def k)
  then show "foot w' k = foot w k" by (simp add: foot_def)
  have cn: "cfg_n n (w_cfg w' ! i) = cfg_n n (w_cfg w ! i)" if "i < length (w_cfg w)" for i
    using V(5) [OF that] by (simp add: cfg_n_def mem_part_def)
  have pn: "ptr_n n (w_ptr w' ! i) = ptr_n n (w_ptr w ! i)" if "i < length (w_ptr w)" for i
    using V(7) [OF that] by (simp add: ptr_n_def ptr_part_def)
  show "row_ok w' k n" using ok cn pn unfolding row_ok_def tf pf V(1,3) by auto
qed

lemma mem_wf_view:
  assumes v: "mem_view w' = mem_view w" and wf: "mem_wf w" shows "mem_wf w'"
proof -
  note V = mem_viewD [OF v]
  have "length (d_v_msize (w_dyn w' ! i)) = length (d_v_maddr (w_dyn w' ! i))"
    if "i < length (w_dyn w)" for i
  proof -
    have "length (d_v_msize (w_dyn w ! i)) = length (d_v_maddr (w_dyn w ! i))"
      using wf that by (simp add: mem_wf_def)
    with V(6) [OF that] show ?thesis by (simp add: dyn_part_def)
  qed
  then have "\<forall>d \<in> set (w_dyn w'). length (d_v_msize d) = length (d_v_maddr d)"
    using V(2) by (auto simp: in_set_conv_nth)
  moreover have "di < length (w_dyn w') \<and> row_ok w' ci (length (c_v_oldval (w_cfg w' ! ci))) \<and>
      length (c_v_oldval (w_cfg w' ! ci)) \<le> length (d_v_maddr (w_dyn w' ! di))"
    if ci: "ci < length (w_cfg w)" "c_dynmem (w_cfg w' ! ci) = Some di" for ci di
  proof -
    have p: "c_dynmem (w_cfg w ! ci) = Some di" "c_v_oldval (w_cfg w' ! ci) = c_v_oldval (w_cfg w ! ci)"
      using V(5) [OF ci(1)] ci(2) by (simp_all add: mem_part_def)
    note W = mem_wfD [OF wf ci(1) p(1)]
    show ?thesis using W V(6) [OF W(1)] row_ok_view(1) [OF v W(2)] p(2) V(2)
      by (simp add: dyn_part_def)
  qed
  moreover have "foot w' ci \<inter> foot w' cj = {} \<and> pfoot w' ci \<inter> pfoot w' cj = {}"
    if c: "ci < length (w_cfg w)" "cj < length (w_cfg w)" "ci \<noteq> cj"
      "c_dynmem (w_cfg w' ! ci) \<noteq> None" "c_dynmem (w_cfg w' ! cj) \<noteq> None" for ci cj
  proof -
    obtain di where di: "c_dynmem (w_cfg w ! ci) = Some di"
      using c(4) V(5) [OF c(1)] by (auto simp: mem_part_def)
    obtain dj where dj: "c_dynmem (w_cfg w ! cj) = Some dj"
      using c(5) V(5) [OF c(2)] by (auto simp: mem_part_def)
    show ?thesis
      using mem_wf_disjoint [OF wf c(1-3) di dj] row_ok_view(2,3) [OF v mem_wfD(2) [OF wf c(1) di]]
        row_ok_view(2,3) [OF v mem_wfD(2) [OF wf c(2) dj]] by simp
  qed
  ultimately show ?thesis by (simp add: mem_wf_def V(1))
qed

lemma mem_inv_view: "mem_view w' = mem_view w \<Longrightarrow> mem_inv w \<Longrightarrow> mem_inv w'"
  using mem_wf_view mem_viewD(4) unfolding mem_inv_def by metis

subsection \<open>Operations that keep the view\<close>

named_theorems keeps_view "operations that do not change the rows, addresses and the queue"

lemma map_update_same: "f x = f (xs ! i) \<Longrightarrow> map f (xs[i := x]) = map f xs"
  by (metis list_update_id map_update)

lemma mod_cfg_view [keeps_view]:
  "mod_cfg i f w = Some w' \<Longrightarrow> (\<And>c c'. f c = Some c' \<Longrightarrow> mem_part c' = mem_part c) \<Longrightarrow>
     mem_view w' = mem_view w"
  by (auto simp: mod_cfg_def bind_eq_Some_conv mem_view_def vec_simps intro!: map_update_same)

lemma mod_dyn_view [keeps_view]:
  "mod_dyn i f w = Some w' \<Longrightarrow> (\<And>d d'. f d = Some d' \<Longrightarrow> dyn_part d' = dyn_part d) \<Longrightarrow>
     mem_view w' = mem_view w"
  by (auto simp: mod_dyn_def bind_eq_Some_conv mem_view_def vec_simps intro!: map_update_same)

lemma set_cache_view: "mem_view (set_cache_list own cl w) = mem_view w"
  by (auto simp: set_cache_list_def mem_view_def dyn_part_def ptr_part_def split: cache_owner.split
      intro!: map_update_same)

lemma mod_cache_view: "mod_cache r f w = Some w' \<Longrightarrow> mem_view w' = mem_view w"
  by (auto simp: mod_cache_def bind_eq_Some_conv set_cache_view)

lemma move_cache_view [keeps_view]: "move_cache r f w = Some w' \<Longrightarrow> mem_view w' = mem_view w"
  by (auto simp: move_cache_def bind_eq_Some_conv dest: mod_cache_view)

lemma mod_check_view [keeps_view]: "mod_check ci ki f w = Some w' \<Longrightarrow> mem_view w' = mem_view w"
  unfolding mod_check_def by (erule mod_cfg_view) (auto simp: bind_eq_Some_conv mem_part_def)

lemma fold_view:
  "fold_opt f xs w = Some w' \<Longrightarrow> (\<And>x v v'. f x v = Some v' \<Longrightarrow> mem_view v' = mem_view v) \<Longrightarrow>
     mem_view w' = mem_view w"
  by (rule fold_opt_pres [where I = "\<lambda>v. mem_view v = mem_view w" and f = f]) auto

lemma stack_check_view: "stack_check e ci ki w = Some w' \<Longrightarrow> mem_view w' = mem_view w"
  by (auto simp: stack_check_def bind_eq_Some_conv split: if_splits dest!: keeps_view)

lemma stack_cfg_view: "stack_cfg e ci w = Some w' \<Longrightarrow> mem_view w' = mem_view w"
proof -
  assume a: "stack_cfg e ci w = Some w'"
  have m: "mem_view v = mem_view u" if "mod_cfg ci (\<lambda>c. Some (c\<lparr>c_addr := e - c_addr c,
      c_type := (c_type c)\<lparr>t_on_stack := False\<rparr>\<rparr>)) u = Some v" for u v
    using that by (rule mod_cfg_view) (auto simp: mem_part_def)
  from a show ?thesis
    by (auto simp: stack_cfg_def bind_eq_Some_conv split: if_splits
        dest!: fold_view stack_check_view move_cache_view m)
qed

lemma stack_end_view: "process_stack_end w = Some w' \<Longrightarrow> mem_view w' = mem_view w"
  by (auto simp: process_stack_end_def bind_eq_Some_conv mem_view_def split: if_splits
      dest!: fold_view [OF _ stack_cfg_view])

lemma lib_addr_view:
  "get_lib_load_addr rlist name w out = TRun w' out' \<Longrightarrow> mem_view w' = mem_view w"
  by (auto simp: get_lib_load_addr_def t_opt_def late_code_def dyn_part_def
      split: prod.splits option.splits if_splits dest!: fold_view intro: mod_dyn_view)

subsection \<open>One message\<close>

lemma handle_malloc:
  assumes "mem_inv w" "mq_holds (w_mq w) ms" "mq_room (w_mq w) (a, n, c)"
  shows "\<exists>q. handle_msg rlist (TRun w out) (MMalloc a n c) = TRun (w\<lparr>w_mq := q\<rparr>) out \<and>
    mq_holds q (ms @ [(a, n, c)])"
proof -
  have "cstr (render (MMalloc a n c)) = render (MMalloc a n c)"
    using msg_body_chars [of "MMalloc a n c"] by (simp add: render_def cstr_append cstr_Cons)
  with queue_msg_holds [OF assms(2,3)] show ?thesis
    by (auto simp: handle_msg_def trainer_mfm_def t_upd_def t_opt_def)
qed

lemma handle_free:
  assumes "mem_inv w" "mq_holds (w_mq w) ms"
  shows "\<exists>w'. handle_msg rlist (TRun w out) (MFree a) = TRun w' out \<and> mem_wf w' \<and>
    mq_holds (w_mq w') (remove_addr a ms)"
  using clear_wf [of w ms a] assms
  by (auto simp: handle_msg_def trainer_ff_def t_upd_def t_opt_def mem_inv_def)

lemma handle_msg_inv:
  assumes inv: "mem_inv w" and h: "handle_msg rlist (TRun w out) m = TRun w' out'"
    and room: "\<And>a n c. m = MMalloc a n c \<Longrightarrow> mq_room (w_mq w) (a, n, c)"
  shows "mem_inv w'"
proof -
  obtain ms where mq: "mq_holds (w_mq w) ms" using inv by (auto simp: mem_inv_def)
  show ?thesis
  proof (cases m)
    case (MMalloc a n c)
    from handle_malloc [OF inv mq room [OF MMalloc], of rlist out] obtain q where
      "handle_msg rlist (TRun w out) (MMalloc a n c) = TRun (w\<lparr>w_mq := q\<rparr>) out"
      "mq_holds q (ms @ [(a, n, c)])" by blast
    with h MMalloc inv show ?thesis by (auto simp: mem_inv_def)
  next
    case (MFree a)
    with handle_free [OF inv mq, of rlist out a] h show ?thesis by (auto simp: mem_inv_def)
  next
    case (MLib name)
    with h have "get_lib_load_addr rlist name w out = TRun w' out'"
      by (simp add: handle_msg_def trainer_lf_def t_upd_def)
    from mem_inv_view [OF lib_addr_view [OF this] inv] show ?thesis .
  next
    case (MStack a)
    with h have v: "verify_stack_end a w out = TRun w' out'"
      by (simp add: handle_msg_def trainer_sf_def t_upd_def)
    have "mem_view w' = mem_view w"
    proof (cases "w_stack_end w = a")
      case False
      with v have "process_stack_end (w\<lparr>w_stack_end := a\<rparr>) = Some w'"
        by (auto simp: verify_stack_end_def t_opt_def split: if_splits option.splits)
      from stack_end_view [OF this] show ?thesis by (simp add: mem_view_def)
    qed (use v in \<open>simp add: verify_stack_end_def\<close>)
    then show ?thesis by (rule mem_inv_view [OF _ inv])
  qed
qed


text \<open>A whole stream of messages, as long as the queue has room for every allocation.\<close>

fun rooms :: "region list \<Rightarrow> tstate \<Rightarrow> msg list \<Rightarrow> bool" where
  "rooms rlist t [] = True"
| "rooms rlist t (m # ms) =
     ((case (t, m) of (TRun w _, MMalloc a n c) \<Rightarrow> mq_room (w_mq w) (a, n, c) | _ \<Rightarrow> True) \<and>
      rooms rlist (handle_msg rlist t m) ms)"

lemma handle_stopped: "handle_msg rlist TExit m = TExit" "handle_msg rlist TUndef m = TUndef"
  by (cases m; simp add: handle_msg_def trainer_mfm_def trainer_ff_def trainer_lf_def trainer_sf_def t_upd_def)+

lemma stopped_stays: "foldl (handle_msg rlist) TExit ms = TExit" "foldl (handle_msg rlist) TUndef ms = TUndef"
  by (induction ms) (simp_all add: handle_stopped)

lemma handle_msgs_inv:
  "mem_inv w \<Longrightarrow> rooms rlist (TRun w out) ms \<Longrightarrow>
     foldl (handle_msg rlist) (TRun w out) ms = TRun w' out' \<Longrightarrow> mem_inv w'"
proof (induction ms arbitrary: w out)
  case (Cons m ms)
  show ?case
  proof (cases "handle_msg rlist (TRun w out) m")
    case (TRun w1 out1)
    have "mem_inv w1"
      by (rule handle_msg_inv [OF Cons.prems(1) TRun]) (use Cons.prems(2) in auto)
    moreover have "rooms rlist (TRun w1 out1) ms" using Cons.prems(2) TRun by simp
    ultimately show ?thesis by (rule Cons.IH) (use Cons.prems(3) TRun in simp)
  qed (use Cons.prems(3) in \<open>simp_all add: stopped_stays\<close>)
qed simp

text \<open>Reading a stream of messages, however it is cut into pieces, keeps the object tables in order.\<close>

lemma fifo_keeps_tables:
  assumes "mem_inv w" "pending n st p" "p @ drop (f_pos f) (f_data f) = stream ms @ pe"
    "\<forall>m \<in> set ms. wf_msg m \<and> length (render m) < n" "partial_msg pe" "length pe < n"
    "f_pos f \<le> length (f_data f)" "rooms rlist (TRun w out) ms"
    and r: "read_trainer_fifo rlist st f (TRun w out) = Some (st', f', TRun w' out')"
  shows "mem_inv w'"
proof -
  from read_trainer_stream [OF assms(2-7), of rlist "TRun w out"] r
  have "foldl (handle_msg rlist) (TRun w out) ms = TRun w' out'" by auto
  with assms(1,8) show ?thesis by (rule handle_msgs_inv)
qed

end
