(* ===== verification/Memhack.thy ===== *)
theory Memhack
  imports FifoStream Cfgentry "HOL-Library.Multiset"
begin

text \<open>
  The library \<open>libmemhack\<close> that is preloaded into the game
  (\<open>src/src/linuxhooking/libmemhack.c\<close>): its configuration, the hooks behind \<open>malloc\<close> and in
  front of \<open>free\<close>, and the late handling of loaded libraries. What the hooks read from the
  process (the frame pointer, the stack, GNU \<open>backtrace\<close>) and whether \<open>write\<close> and
  \<open>realloc\<close> succeed are arguments. The allocations of \<open>memhack_init\<close> are taken to succeed.
  \<open>max_obj\<close> and \<open>insert_idx\<close> are unbounded here (\<open>u32\<close> in the code).
\<close>

definition BUF_SIZE :: nat where "BUF_SIZE = 4096"
definition ADDR_INVAL :: ptr where "ADDR_INVAL = 1"
definition GBT_CMD :: string where "GBT_CMD = ''gbt''"
definition ASLR_NOTIFY_STR :: string where
  "ASLR_NOTIFY_STR = [CHR ''r'', CHR ''e'', CHR ''a'', CHR ''d'', CHR ''y'', NL, NUL]"

record grow =
  r_size_min :: "64 word"
  r_size_max :: "64 word"
  r_type :: grow_type
  r_add :: u32
  r_code_addr :: ptr
  r_code_offs :: ptr
  r_stack_offs :: ptr
  r_lib :: "string option"

record cfg =
  m_mem_size :: "64 word"
  m_code_addr :: ptr
  m_code_offs :: ptr
  m_stack_offs :: ptr
  m_lib :: "string option"
  m_grow :: "grow option"
  m_mem_addrs :: "ptr list option"
  m_max_obj :: nat
  m_insert_idx :: nat

text \<open>The static variables; \<open>h_out\<close> lists what has been written to the output FIFO.\<close>

record memhack =
  h_active :: bool
  h_use_gbt :: bool
  h_config :: "cfg list"
  h_out :: "string list"

definition memhack_start :: memhack where
  "memhack_start = \<lparr>h_active = False, h_use_gbt = False, h_config = [], h_out = []\<rparr>"

subsection \<open>Parsing the configuration\<close>

text \<open>The macros, on the rest of the input string.\<close>

definition SET_IBUF_START :: "string \<Rightarrow> string" where
  "SET_IBUF_START s = (case strchr s 0 (CHR '';'') of Some pos \<Rightarrow> drop (pos + 1) s | None \<Rightarrow> s)"

definition SET_CODE_LIB :: "string \<Rightarrow> string \<times> string option" where
  "SET_CODE_LIB s =
     (let pos = strchr s 0 (CHR '';'');
          name = (case pos of Some p \<Rightarrow> take p s | None \<Rightarrow> s)
      in (case pos of Some p \<Rightarrow> drop (p + 1) s | None \<Rightarrow> s,
          if name \<noteq> ''exe'' then Some name else None))"

definition RM_NEW_LINE :: "string \<Rightarrow> string" where
  "RM_NEW_LINE s = (case strchr s 0 NL of Some pos \<Rightarrow> take pos s | None \<Rightarrow> s)"

definition scan_grow :: "string \<Rightarrow> grow option" where
  "scan_grow s = do {
     (size_min, s) \<leftarrow> scan_l 10 s;
     s \<leftarrow> scan_lit '';'' s;
     (size_max, s) \<leftarrow> scan_l 10 s;
     s \<leftarrow> scan_lit '';'' s;
     (op_ch, s) \<leftarrow> (case s of [] \<Rightarrow> None | c # s' \<Rightarrow> Some (c, s'));
     (add, s) \<leftarrow> scan_u32 10 s;
     s \<leftarrow> scan_lit '';'' s;
     (code_addr, s) \<leftarrow> scan_ptr s;
     s \<leftarrow> scan_lit '';'' s;
     (stack_offs, s) \<leftarrow> scan_ptr s;
     if op_ch \<noteq> CHR ''+'' \<and> op_ch \<noteq> CHR ''*'' then None
     else Some \<lparr>r_size_min = size_min, r_size_max = size_max,
            r_type = (if op_ch = CHR ''*'' then GROW_MUL else GROW_ADD), r_add = add,
            r_code_addr = code_addr, r_code_offs = code_addr, r_stack_offs = stack_offs,
            r_lib = None\<rparr> }"

definition scan_cfg :: "string \<Rightarrow> (64 word \<times> ptr \<times> ptr) option" where
  "scan_cfg s = do {
     (mem_size, s) \<leftarrow> scan_l 10 s;
     s \<leftarrow> scan_lit '';'' s;
     (code_addr, s) \<leftarrow> scan_ptr s;
     s \<leftarrow> scan_lit '';'' s;
     (stack_offs, s) \<leftarrow> scan_ptr s;
     Some (mem_size, code_addr, stack_offs) }"

text \<open>One round of the loop over the configs: the config and the rest of the input.\<close>

definition parse_cfg :: "string \<Rightarrow> (cfg \<times> string) option" where
  "parse_cfg start = do {
     (mem_size, code_addr, stack_offs) \<leftarrow> scan_cfg start;
     let start = (SET_IBUF_START ^^ 3) start;
     let (start, lib) = SET_CODE_LIB start;
     let c = \<lparr>m_mem_size = mem_size, m_code_addr = code_addr, m_code_offs = code_addr,
        m_stack_offs = stack_offs, m_lib = lib, m_grow = None,
        m_mem_addrs = Some [ADDR_INVAL, ADDR_INVAL], m_max_obj = 1, m_insert_idx = 0\<rparr>;
     if \<not> is_prefix ''grow;'' start then Some (c, start)
     else do {
       let start = SET_IBUF_START start;
       g \<leftarrow> scan_grow start;
       let start = (SET_IBUF_START ^^ 5) start;
       let (start, lib) = SET_CODE_LIB start;
       Some (c\<lparr>m_grow := Some (g\<lparr>r_lib := lib\<rparr>)\<rparr>, start) } }"

primrec parse_cfgs :: "nat \<Rightarrow> string \<Rightarrow> cfg list option" where
  "parse_cfgs 0 start = Some []"
| "parse_cfgs (Suc n) start = do {
     (c, start) \<leftarrow> parse_cfg start;
     cs \<leftarrow> parse_cfgs n start;
     Some (c # cs) }"

text \<open>The code offsets of the early PIC/PIE handling: one per config and one per grow part.\<close>

definition read_offs :: "string \<Rightarrow> ptr \<times> string" where
  "read_offs start = (case scan_ptr start of
     None \<Rightarrow> (0, start) | Some (code_offs, _) \<Rightarrow> (code_offs, SET_IBUF_START start))"

definition shift_addr :: "ptr \<Rightarrow> ptr \<Rightarrow> ptr" where
  "shift_addr code_offs code_addr = (if code_addr \<noteq> 0 then code_addr + code_offs else code_addr)"

fun early_pic :: "cfg list \<Rightarrow> string \<Rightarrow> cfg list" where
  "early_pic [] start = []"
| "early_pic (c # cs) start =
     (if m_mem_size c = 0 \<and> m_grow c = None then c # early_pic cs start
      else
        let (code_offs, start1) = read_offs start;
            c1 = c\<lparr>m_code_addr := shift_addr code_offs (m_code_addr c)\<rparr>
        in case m_grow c of
             None \<Rightarrow> c1 # early_pic cs start1
           | Some g \<Rightarrow>
               let (g_offs, start2) = read_offs start1
               in c1\<lparr>m_grow := Some (g\<lparr>r_code_addr := shift_addr g_offs (r_code_addr g)\<rparr>)\<rparr>
                  # early_pic cs start2)"

text \<open>
  \<open>memhack_init\<close>: \<open>expected\<close> is the environment variable with the process name, \<open>in1\<close> and
  \<open>in2\<close> are the results of the two \<open>read_input\<close> calls (\<open>None\<close>: nothing could be read).
\<close>

definition parse_header :: "string \<Rightarrow> (nat \<times> bool \<times> string) option" where
  "parse_header start =
     (case scan_u32 10 start of
        None \<Rightarrow> None
      | Some (num_cfg, _) \<Rightarrow>
          if num_cfg = 0 then None
          else
            let start = SET_IBUF_START (RM_NEW_LINE start);
                gbt_buf = take 3 (takeWhile (\<lambda>c. \<not> c_isspace c) (dropWhile c_isspace start))
            in if gbt_buf = GBT_CMD then Some (unat num_cfg, True, SET_IBUF_START start)
               else Some (unat num_cfg, False, start))"

definition memhack_init ::
  "string option \<Rightarrow> string \<Rightarrow> ptr \<Rightarrow> string option \<Rightarrow> string option \<Rightarrow> memhack \<Rightarrow> memhack" where
  "memhack_init expected progname stack_end in1 in2 h =
     (if (case expected of Some e \<Rightarrow> e \<noteq> progname | None \<Rightarrow> False) \<or> h_active h then h
      else case in1 of
        None \<Rightarrow> h
      | Some ibuf \<Rightarrow>
          (case parse_header (cstr (take (BUF_SIZE - 1) ibuf)) of
             None \<Rightarrow> h
           | Some (num_cfg, gbt, start) \<Rightarrow>
               (case parse_cfgs num_cfg start of
                  None \<Rightarrow> h\<lparr>h_use_gbt := h_use_gbt h \<or> gbt\<rparr>
                | Some cs \<Rightarrow>
                    let pure_stack = (num_cfg = 1 \<and> m_mem_size (hd cs) = 0 \<and> m_grow (hd cs) = None);
                        cs' = (case in2 of
                                 Some offs \<Rightarrow> if pure_stack then cs
                                   else early_pic cs (cstr (take (BUF_SIZE - 1) offs))
                               | None \<Rightarrow> cs)
                    in h\<lparr>h_use_gbt := h_use_gbt h \<or> gbt, h_config := cs', h_active := True,
                         h_out := h_out h @ [ASLR_NOTIFY_STR, render (MStack stack_end)]\<rparr>)))"

subsection \<open>The addresses of a config\<close>

text \<open>The storing loop from \<open>insert_idx\<close> on.\<close>

definition store_slot :: "ptr \<Rightarrow> cfg \<Rightarrow> ptr list \<Rightarrow> cfg" where
  "store_slot mem_addr c xs =
     (case index_first (\<lambda>a. a \<le> ADDR_INVAL)
             (drop (m_insert_idx c) (take (m_max_obj c) xs)) of
        None \<Rightarrow> c\<lparr>m_mem_addrs := Some xs\<rparr>
      | Some k \<Rightarrow>
          let j = m_insert_idx c + k
          in c\<lparr>m_mem_addrs := Some (xs[j := mem_addr]), m_insert_idx := j\<rparr>)"

text \<open>
  The size doubling allocator; \<open>mem_ok\<close>: \<open>realloc\<close> succeeds. The second half of the new array
  is filled behind the old end mark, which stays in place.
\<close>

definition store_mem_addr :: "bool \<Rightarrow> ptr \<Rightarrow> cfg \<Rightarrow> cfg" where
  "store_mem_addr mem_ok mem_addr c =
     (case m_mem_addrs c of
        None \<Rightarrow> c\<lparr>m_max_obj := 0\<rparr>
      | Some xs \<Rightarrow>
          if xs ! (m_max_obj c - 1) \<noteq> ADDR_INVAL
          then (if mem_ok
                then store_slot mem_addr (c\<lparr>m_max_obj := 2 * m_max_obj c\<rparr>)
                       (take (m_max_obj c + 1) xs @ replicate (m_max_obj c) ADDR_INVAL)
                else c\<lparr>m_mem_addrs := None, m_max_obj := 0\<rparr>)
          else store_slot mem_addr c xs)"

text \<open>The search of \<open>preprocess_free\<close>: up to the first invalid address.\<close>

definition tracked_at :: "ptr \<Rightarrow> cfg \<Rightarrow> nat option" where
  "tracked_at mem_addr c =
     (case m_mem_addrs c of
        None \<Rightarrow> None
      | Some xs \<Rightarrow> index_first (\<lambda>a. a = mem_addr) (takeWhile (\<lambda>a. a \<noteq> ADDR_INVAL) xs))"

definition forget_at :: "nat \<Rightarrow> cfg \<Rightarrow> cfg" where
  "forget_at j c = c\<lparr>m_mem_addrs := map_option (\<lambda>xs. xs[j := 0]) (m_mem_addrs c),
     m_insert_idx := (if j < m_insert_idx c then j else m_insert_idx c)\<rparr>"

subsection \<open>The hooks\<close>

text \<open>
  What a hook finds: the frame pointer, the words on the stack, the return addresses of
  \<open>backtrace\<close>, and whether \<open>write\<close> and \<open>realloc\<close> succeed.
\<close>

record hook_env =
  he_ffp :: ptr
  he_stack :: "ptr \<Rightarrow> ptr"
  he_trace :: "ptr list"
  he_write_ok :: bool
  he_mem_ok :: bool

text \<open>
  Does the size fit? The code address and the stack offset to look for; the outer \<open>None\<close> is a
  division by zero.
\<close>

definition grow_bounds :: "grow \<Rightarrow> 64 word \<times> 64 word" where
  "grow_bounds g = (case r_type g of
     GROW_MUL \<Rightarrow> (r_size_min g * ucast (r_add g), r_size_max g * ucast (r_add g))
   | GROW_ADD \<Rightarrow> (r_size_min g, r_size_max g))"

definition size_match :: "64 word \<Rightarrow> cfg \<Rightarrow> (ptr \<times> ptr) option option" where
  "size_match msize c =
     (if msize = m_mem_size c then Some (Some (m_code_addr c, m_stack_offs c))
      else case m_grow c of
        None \<Rightarrow> Some None
      | Some g \<Rightarrow>
          (let (lo, hi) = grow_bounds g in
           if hi < msize \<or> msize < lo then Some None
           else if r_add g = 0 then None
           else if msize mod ucast (r_add g) \<noteq> 0 then Some None
           else Some (Some (r_code_addr g, r_stack_offs g))))"

definition caller_match :: "hook_env \<Rightarrow> ptr \<Rightarrow> bool \<Rightarrow> ptr \<Rightarrow> ptr \<Rightarrow> bool" where
  "caller_match e stack_end gbt code_addr stack_offs =
     (if gbt then 2 \<le> length (he_trace e) \<and> code_addr \<in> set (tl (he_trace e))
      else
        let stack_addr = he_ffp e + stack_offs
        in stack_addr \<le> stack_end - 8 \<and> he_stack e stack_addr = code_addr)"

text \<open>The index of the config that matches, with the code address.\<close>

primrec find_cfg :: "hook_env \<Rightarrow> ptr \<Rightarrow> bool \<Rightarrow> 64 word \<Rightarrow> cfg list \<Rightarrow> (nat \<times> ptr) option option" where
  "find_cfg e stack_end gbt msize [] = Some None"
| "find_cfg e stack_end gbt msize (c # cs) =
     (case size_match msize c of
        None \<Rightarrow> None
      | Some m \<Rightarrow>
          (case m of
             Some (code_addr, stack_offs) \<Rightarrow>
               if caller_match e stack_end gbt code_addr stack_offs then Some (Some (0, code_addr))
               else map_option (map_option (apfst Suc)) (find_cfg e stack_end gbt msize cs)
           | None \<Rightarrow> map_option (map_option (apfst Suc)) (find_cfg e stack_end gbt msize cs)))"

definition postprocess_malloc ::
  "hook_env \<Rightarrow> ptr \<Rightarrow> 64 word \<Rightarrow> ptr \<Rightarrow> memhack \<Rightarrow> memhack option" where
  "postprocess_malloc e stack_end msize mem_addr h =
     (if \<not> h_active h then Some h
      else case find_cfg e stack_end (h_use_gbt h) msize (h_config h) of
        None \<Rightarrow> None
      | Some None \<Rightarrow> Some h
      | Some (Some (i, code_addr)) \<Rightarrow>
          if he_write_ok e
          then Some (h\<lparr>h_config := (h_config h)[i :=
                         store_mem_addr (he_mem_ok e) mem_addr (h_config h ! i)],
                       h_out := h_out h @ [render (MMalloc mem_addr msize code_addr)]\<rparr>)
          else Some h)"

primrec find_tracked :: "ptr \<Rightarrow> cfg list \<Rightarrow> (nat \<times> nat) option" where
  "find_tracked mem_addr [] = None"
| "find_tracked mem_addr (c # cs) =
     (case tracked_at mem_addr c of
        Some j \<Rightarrow> Some (0, j)
      | None \<Rightarrow> map_option (apfst Suc) (find_tracked mem_addr cs))"

definition preprocess_free :: "bool \<Rightarrow> ptr \<Rightarrow> memhack \<Rightarrow> memhack" where
  "preprocess_free write_ok mem_addr h =
     (if \<not> h_active h \<or> mem_addr = 0 then h
      else case find_tracked mem_addr (h_config h) of
        None \<Rightarrow> h
      | Some (i, j) \<Rightarrow>
          h\<lparr>h_config := (h_config h)[i := forget_at j (h_config h ! i)],
            h_out := h_out h @ (if write_ok then [render (MFree mem_addr)] else [])\<rparr>)"

subsection \<open>Late PIC handling\<close>

text \<open>
  \<open>get_lib_load_addr\<close> sends the name and reads the reply: \<open>None\<close> if \<open>write\<close> fails, \<open>Some None\<close>
  if no reply arrives, and otherwise the text of the reply. A name that does not fit into the buffer makes \<open>write\<close> read behind
  it: the outer \<open>None\<close>. The inner \<open>None\<close> is the error return.
\<close>

definition send_lib_name :: "string \<Rightarrow> memhack \<Rightarrow> memhack option" where
  "send_lib_name lib_name h =
     (if length (render (MLib lib_name)) \<le> BUF_SIZE + 1
      then Some (h\<lparr>h_out := h_out h @
             [take (length (render (MLib lib_name)))
                (take (BUF_SIZE - 1) (render (MLib lib_name)) @ replicate (BUF_SIZE + 1) NUL)]\<rparr>)
      else None)"

definition parse_bounds :: "string option \<Rightarrow> ptr option" where
  "parse_bounds reply = do {
     ibuf \<leftarrow> reply;
     (lib_start, s) \<leftarrow> scan_ptr (cstr (take (BUF_SIZE - 1) ibuf));
     s \<leftarrow> scan_lit '';'' s;
     (lib_end, s) \<leftarrow> scan_ptr s;
     Some lib_start }"

text \<open>
  The loop state of \<open>postprocess_dlopen\<close>: the load address once known (0 before), the replies
  that are still to arrive. \<open>Inl\<close> is \<open>break\<close>.
\<close>

type_synonym dl_state = "memhack \<times> ptr \<times> string option option list"

definition get_lib_load_addr_hk :: "string \<Rightarrow> dl_state \<Rightarrow> (dl_state + dl_state) option" where
  "get_lib_load_addr_hk lib_name st =
     (case st of (h, lib_load, replies) \<Rightarrow>
        if replies = [] \<or> hd replies = None then Some (Inl (h, lib_load, tl replies))
        else do {
          h' \<leftarrow> send_lib_name lib_name h;
          case parse_bounds (the (hd replies)) of
            None \<Rightarrow> Some (Inl (h', lib_load, tl replies))
          | Some a \<Rightarrow> Some (Inr (h', a, tl replies)) })"

definition dl_part ::
  "string \<Rightarrow> string option \<Rightarrow> (ptr \<Rightarrow> memhack \<Rightarrow> memhack) \<Rightarrow> dl_state \<Rightarrow> (dl_state + dl_state) option" where
  "dl_part lib_name lib upd st =
     (case lib of
        None \<Rightarrow> Some (Inr st)
      | Some l \<Rightarrow>
          if strstr l lib_name = None then Some (Inr st)
          else case st of (h, lib_load, replies) \<Rightarrow>
            if lib_load \<noteq> 0 then Some (Inr (upd lib_load h, lib_load, replies))
            else (case get_lib_load_addr_hk lib_name st of
                    None \<Rightarrow> None
                  | Some (Inl st') \<Rightarrow> Some (Inl st')
                  | Some (Inr (h', lib_load', replies')) \<Rightarrow>
                      Some (Inr (if lib_load' \<noteq> 0 then upd lib_load' h' else h', lib_load', replies'))))"

definition upd_cfg_at :: "nat \<Rightarrow> (cfg \<Rightarrow> cfg) \<Rightarrow> memhack \<Rightarrow> memhack" where
  "upd_cfg_at i f h = h\<lparr>h_config := (h_config h)[i := f (h_config h ! i)]\<rparr>"

definition set_code :: "ptr \<Rightarrow> cfg \<Rightarrow> cfg" where
  "set_code lib_load c = c\<lparr>m_code_addr := m_code_offs c + lib_load\<rparr>"

definition set_grow_code :: "ptr \<Rightarrow> cfg \<Rightarrow> cfg" where
  "set_grow_code lib_load c =
     c\<lparr>m_grow := map_option (\<lambda>g. g\<lparr>r_code_addr := r_code_offs g + lib_load\<rparr>) (m_grow c)\<rparr>"

primrec dl_loop :: "string \<Rightarrow> nat list \<Rightarrow> dl_state \<Rightarrow> dl_state option" where
  "dl_loop lib_name [] st = Some st"
| "dl_loop lib_name (i # is) st =
     (case dl_part lib_name (m_lib (h_config (fst st) ! i)) (\<lambda>a. upd_cfg_at i (set_code a)) st of
        None \<Rightarrow> None
      | Some (Inl st') \<Rightarrow> Some st'
      | Some (Inr st') \<Rightarrow>
          (case dl_part lib_name (Option.bind (m_grow (h_config (fst st') ! i)) r_lib)
                  (\<lambda>a. upd_cfg_at i (set_grow_code a)) st' of
             None \<Rightarrow> None
           | Some (Inl st'') \<Rightarrow> Some st''
           | Some (Inr st'') \<Rightarrow> dl_loop lib_name is st''))"

definition postprocess_dlopen :: "string \<Rightarrow> string option option list \<Rightarrow> memhack \<Rightarrow> memhack option" where
  "postprocess_dlopen lib_path replies h =
     (if \<not> h_active h then Some h
      else
        let lib_name = c_basename lib_path
        in if lib_name = [] then Some h
           else map_option fst (dl_loop lib_name [0..<length (h_config h)] (h, 0, replies)))"

end
