(* ===== verification/Handshake.thy ===== *)
theory Handshake
  imports Aslr Memhack
begin

text \<open>
  The configuration of \<open>libmemhack\<close> as the trainer sends it: \<open>prepare_dynmem\<close>
  (\<open>src/src/ugtrain.cpp\<close>) prints the classes, \<open>handle_aslr\<close> prints the code offsets and moves
  the code addresses of the trainer, and \<open>memhack_init\<close> ends up with the same addresses.
\<close>

subsection \<open>Printing the classes\<close>

text \<open>\<open>ADD_DYNMEM_ESSENTIALS\<close>\<close>

definition add_essentials :: "'a dyn_essentials_scheme \<Rightarrow> string \<Rightarrow> string option" where
  "add_essentials e acc = do {
     acc \<leftarrow> emit acc ('';'' @ pr_ul (e_mem_size e) @ '';'' @ pr_ptr (e_code_addr e) @ '';'' @
                      pr_ptr (e_stack_offs e));
     emit acc ('';'' @ (case e_lib e of Some lib \<Rightarrow> lib | None \<Rightarrow> ''exe'')) }"

definition add_grow :: "grow_entry \<Rightarrow> string \<Rightarrow> string option" where
  "add_grow g acc = do {
     acc \<leftarrow> emit acc ('';grow;'' @ pr_ul (g_size_min g) @ '';'' @ pr_ul (g_size_max g) @ '';'' @
                      [if g_type g = GROW_MUL then CHR ''*'' else CHR ''+''] @ pr_u32 (g_add g) @ '';'' @
                      pr_ptr (g_code_addr g) @ '';'' @ pr_ptr (g_stack_offs g));
     emit acc ('';'' @ (case g_lib g of Some lib \<Rightarrow> lib | None \<Rightarrow> ''exe'')) }"

text \<open>
  The libraries are compared as pointers: every class has string objects of its own, so the
  object is the class and which of its two libraries it is; \<open>None\<close> is \<open>NULL\<close>.
\<close>

record prep =
  pr_num_cfg :: nat
  pr_acc :: string
  pr_old_code :: ptr
  pr_old_grow :: ptr
  pr_old_lib :: "(nat \<times> bool) option"

definition prep_init :: "bool \<Rightarrow> prep" where
  "prep_init use_gbt = \<lparr>pr_num_cfg = 0, pr_acc = (if use_gbt then '';'' @ GBT_CMD else ''''),
     pr_old_code = 0, pr_old_grow = 0, pr_old_lib = None\<rparr>"

definition lib_obj :: "nat \<Rightarrow> bool \<Rightarrow> string option \<Rightarrow> (nat \<times> bool) option" where
  "lib_obj di is_grow lib = map_option (\<lambda>_. (di, is_grow)) lib"

definition prep_class :: "nat \<Rightarrow> dynmem_entry \<Rightarrow> prep \<Rightarrow> prep option" where
  "prep_class di d st =
     (if (case d_grow d of
            None \<Rightarrow> e_code_addr d \<noteq> pr_old_code st \<or> lib_obj di False (e_lib d) \<noteq> pr_old_lib st
          | Some g \<Rightarrow> g_code_addr g \<noteq> pr_old_grow st \<or> lib_obj di True (g_lib g) \<noteq> pr_old_lib st)
      then do {
        acc \<leftarrow> add_essentials d (pr_acc st);
        acc \<leftarrow> fold_opt add_essentials (d_consts d) acc;
        let n = pr_num_cfg st + 1 + length (d_consts d);
        case d_grow d of
          None \<Rightarrow> Some (st\<lparr>pr_num_cfg := n, pr_acc := acc, pr_old_code := e_code_addr d,
                      pr_old_lib := lib_obj di False (e_lib d)\<rparr>)
        | Some g \<Rightarrow> do {
            acc \<leftarrow> add_grow g acc;
            Some (st\<lparr>pr_num_cfg := n, pr_acc := acc, pr_old_grow := g_code_addr g,
                    pr_old_lib := lib_obj di True (g_lib g)\<rparr>) } }
      else Some st)"

definition prep_cfg :: "world \<Rightarrow> cfg_entry \<Rightarrow> prep \<Rightarrow> prep option" where
  "prep_cfg w c st = (case c_dynmem c of
     None \<Rightarrow> Some st
   | Some di \<Rightarrow> do { d \<leftarrow> vget (w_dyn w) di; prep_class di d st })"

text \<open>
  The result: the bytes that are sent, with the terminating zero; \<open>Inl 1\<close> (the text does not fit) or \<open>Inl 2\<close> (no class).
\<close>

definition prepare_dynmem :: "string \<Rightarrow> bool \<Rightarrow> world \<Rightarrow> (nat + string) option" where
  "prepare_dynmem disc_str use_gbt w =
     (if disc_str \<noteq> [] then
        (if PIPE_BUF < length disc_str + 2 then Some (Inl 1) else Some (Inr (disc_str @ [NL, NUL])))
      else do {
        st \<leftarrow> fold_opt (prep_cfg w) (w_cfg w) (prep_init use_gbt);
        let num = pr_dec (pr_num_cfg st);
        acc \<leftarrow> emit (pr_acc st) num;
        if PIPE_BUF < length acc + length num + 2 then Some (Inl 1)
        else if pr_num_cfg st = 0 then Some (Inl 2)
        else Some (Inr (num @ pr_acc st @ [NL, NUL])) })"

subsection \<open>The text of a configuration\<close>

text \<open>A config without the run-time part, and its text.\<close>

fun item_text :: "cfg \<Rightarrow> string" where
  "item_text c = '';'' @ pr_ul (m_mem_size c) @ '';'' @ pr_ptr (m_code_addr c) @ '';'' @
     pr_ptr (m_stack_offs c) @ '';'' @ (case m_lib c of Some lib \<Rightarrow> lib | None \<Rightarrow> ''exe'') @
     (case m_grow c of None \<Rightarrow> ''''
      | Some g \<Rightarrow> '';grow;'' @ pr_ul (r_size_min g) @ '';'' @ pr_ul (r_size_max g) @ '';'' @
          [if r_type g = GROW_MUL then CHR ''*'' else CHR ''+''] @ pr_u32 (r_add g) @ '';'' @
          pr_ptr (r_code_addr g) @ '';'' @ pr_ptr (r_stack_offs g) @ '';'' @
          (case r_lib g of Some lib \<Rightarrow> lib | None \<Rightarrow> ''exe''))"

definition lib_ok :: "string option \<Rightarrow> bool" where
  "lib_ok lib \<longleftrightarrow> (\<forall>l \<in> set_option lib. l \<noteq> ''exe'' \<and> (\<forall>c \<in> set l. plain_char c))"

definition grow_ok :: "grow \<Rightarrow> bool" where
  "grow_ok g \<longleftrightarrow> r_code_offs g = r_code_addr g \<and> unat (r_size_min g) < 2 ^ 63 \<and>
     unat (r_size_max g) < 2 ^ 63 \<and> lib_ok (r_lib g)"

definition item_ok :: "cfg \<Rightarrow> bool" where
  "item_ok c \<longleftrightarrow> m_code_offs c = m_code_addr c \<and> unat (m_mem_size c) < 2 ^ 63 \<and> lib_ok (m_lib c) \<and>
     m_mem_addrs c = Some [ADDR_INVAL, ADDR_INVAL] \<and> m_max_obj c = 1 \<and> m_insert_idx c = 0 \<and>
     (\<forall>g \<in> set_option (m_grow c). grow_ok g)"

subsection \<open>It parses back\<close>

lemma scan_l_pr_ul:
  assumes "unat n < 2 ^ 63" "num_stop r" shows "scan_l 10 (pr_ul n @ r) = Some (n, r)"
proof -
  have "to_long False (unat n) = n" using assms(1) by (simp add: to_long_def)
  then show ?thesis by (simp add: scan_l_def pr_ul_def scan_num_pr_dec assms(2))
qed

text \<open>Skipping a plain field.\<close>

lemma no_nul_cstr: "NUL \<notin> set s \<Longrightarrow> cstr s = s"
  using cstr_append [of s "[]"] by simp metis

lemma SET_IBUF_START_skip:
  assumes "\<forall>c \<in> set xs. plain_char c"
  shows "SET_IBUF_START (xs @ CHR '';'' # r) = r"
proof -
  have "strchr (xs @ CHR '';'' # r) 0 CHR '';'' = Some (0 + length xs)"
    using assms by (intro strchr_skip [where ys = r]) (auto simp: plain_char_def)
  then show ?thesis by (simp add: SET_IBUF_START_def)
qed

lemma SET_CODE_LIB_next:
  assumes "\<forall>c \<in> set xs. plain_char c"
  shows "SET_CODE_LIB (xs @ CHR '';'' # r) = (r, if xs \<noteq> ''exe'' then Some xs else None)"
proof -
  have "strchr (xs @ CHR '';'' # r) 0 CHR '';'' = Some (0 + length xs)"
    using assms by (intro strchr_skip [where ys = r]) (auto simp: plain_char_def)
  then show ?thesis by (simp add: SET_CODE_LIB_def)
qed

lemma SET_CODE_LIB_last:
  assumes "\<forall>c \<in> set xs. plain_char c"
  shows "SET_CODE_LIB xs = (xs, if xs \<noteq> ''exe'' then Some xs else None)"
proof -
  have "strchr xs 0 CHR '';'' = None"
    using assms by (intro strchr_None) (auto simp: plain_char_def cstr_def dest: set_takeWhileD)
  then show ?thesis by (simp add: SET_CODE_LIB_def)
qed

definition lib_text :: "string option \<Rightarrow> string" where
  "lib_text lib = (case lib of Some l \<Rightarrow> l | None \<Rightarrow> ''exe'')"

lemma lib_text_ok:
  "lib_ok lib \<Longrightarrow> \<forall>c \<in> set (lib_text lib). plain_char c"
  "lib_ok lib \<Longrightarrow> (if lib_text lib \<noteq> ''exe'' then Some (lib_text lib) else None) = lib"
  by (cases lib; simp add: lib_ok_def lib_text_def plain_char_def)+

text \<open>What follows an item: nothing, or the text of the next one.\<close>

definition rest_ok :: "string \<Rightarrow> bool" where
  "rest_ok r \<longleftrightarrow> r = [] \<or> (\<exists>r'. r = CHR '';'' # r' \<and> \<not> is_prefix ''grow;'' r')"

definition after :: "string \<Rightarrow> string \<Rightarrow> string" where
  "after lib r = (case r of [] \<Rightarrow> lib | _ # r' \<Rightarrow> r')"

lemma SET_CODE_LIB_text:
  assumes "lib_ok lib" "r = [] \<or> (\<exists>r'. r = CHR '';'' # r')"
  shows "SET_CODE_LIB (lib_text lib @ r) = (after (lib_text lib) r, lib)"
  using SET_CODE_LIB_last [OF lib_text_ok(1) [OF assms(1)]]
    SET_CODE_LIB_next [OF lib_text_ok(1) [OF assms(1)]] lib_text_ok(2) [OF assms(1)] assms(2)
  by (auto simp: after_def)

lemma plain_not_grow: "\<forall>c \<in> set l. plain_char c \<Longrightarrow> \<not> is_prefix ''grow;'' l"
proof
  assume a: "\<forall>c \<in> set l. plain_char c" "is_prefix ''grow;'' l"
  from a(2) have "set ''grow;'' \<subseteq> set l" unfolding is_prefix_def by (metis set_take_subset)
  with a(1) show False by (auto simp: plain_char_def)
qed

definition grow_body :: "grow \<Rightarrow> string" where
  "grow_body g = pr_ul (r_size_min g) @ '';'' @ pr_ul (r_size_max g) @ '';'' @
     [if r_type g = GROW_MUL then CHR ''*'' else CHR ''+''] @ pr_u32 (r_add g) @ '';'' @
     pr_ptr (r_code_addr g) @ '';'' @ pr_ptr (r_stack_offs g) @ '';'' @ lib_text (r_lib g)"

definition grow_part :: "grow option \<Rightarrow> string" where
  "grow_part go = (case go of None \<Rightarrow> '''' | Some g \<Rightarrow> '';grow;'' @ grow_body g)"

definition item_body :: "cfg \<Rightarrow> string" where
  "item_body c = pr_ul (m_mem_size c) @ '';'' @ pr_ptr (m_code_addr c) @ '';'' @
     pr_ptr (m_stack_offs c) @ '';'' @ lib_text (m_lib c) @ grow_part (m_grow c)"

lemma item_text_body: "item_text c = CHR '';'' # item_body c"
  by (cases "m_grow c")
    (simp_all add: item_body_def grow_part_def grow_body_def lib_text_def)

declare item_text.simps [simp del]

lemma skip_fields:
  "SET_IBUF_START (pr_ul n @ CHR '';'' # r) = r" "SET_IBUF_START (pr_ptr a @ CHR '';'' # r) = r"
  "SET_IBUF_START (CHR ''*'' # pr_u32 v @ CHR '';'' # r) = r"
  "SET_IBUF_START (CHR ''+'' # pr_u32 v @ CHR '';'' # r) = r"
  "SET_IBUF_START (CHR ''g'' # CHR ''r'' # CHR ''o'' # CHR ''w'' # CHR '';'' # r) = r"
  "SET_IBUF_START (CHR ''g'' # CHR ''b'' # CHR ''t'' # CHR '';'' # r) = r"
  "SET_IBUF_START (pr_dec k @ CHR '';'' # r) = r"
proof -
  show "SET_IBUF_START (pr_ul n @ CHR '';'' # r) = r" by (rule SET_IBUF_START_skip) (rule pr_plain(1))
  show "SET_IBUF_START (pr_ptr a @ CHR '';'' # r) = r" by (rule SET_IBUF_START_skip) (rule pr_plain(2))
  show "SET_IBUF_START (pr_dec k @ CHR '';'' # r) = r" by (rule SET_IBUF_START_skip) (rule pr_plain(4))
  have "\<forall>c \<in> set (CHR ''*'' # pr_u32 v). plain_char c" "\<forall>c \<in> set (CHR ''+'' # pr_u32 v). plain_char c"
    using pr_plain(3) [of v] by (simp_all add: plain_char_def)
  from this [THEN SET_IBUF_START_skip] show "SET_IBUF_START (CHR ''*'' # pr_u32 v @ CHR '';'' # r) = r"
    "SET_IBUF_START (CHR ''+'' # pr_u32 v @ CHR '';'' # r) = r" by simp_all
  show "SET_IBUF_START (CHR ''g'' # CHR ''r'' # CHR ''o'' # CHR ''w'' # CHR '';'' # r) = r"
    using SET_IBUF_START_skip [of "''grow''" r] by (simp add: plain_char_def)
  show "SET_IBUF_START (CHR ''g'' # CHR ''b'' # CHR ''t'' # CHR '';'' # r) = r"
    using SET_IBUF_START_skip [of "''gbt''" r] by (simp add: plain_char_def)
qed

lemma scan_lit_semi [simp]: "scan_lit '';'' (CHR '';'' # r) = Some r"
  by (simp add: scan_lit_def is_prefix_def)

lemma scan_grow_body:
  assumes "grow_ok g"
  shows "scan_grow (grow_body g @ r') = Some (g\<lparr>r_lib := None\<rparr>)"
proof -
  have b: "unat (r_size_min g) < 2 ^ 63" "unat (r_size_max g) < 2 ^ 63" "r_code_offs g = r_code_addr g"
    using assms(1) by (simp_all add: grow_ok_def)
  show ?thesis
    using b by (cases "r_type g")
      (simp_all add: scan_grow_def grow_body_def scan_l_pr_ul scan_ptr_pr_ptr scan_u32_pr_u32)
qed

lemma grow_body_skip: "(SET_IBUF_START ^^ 5) (grow_body g @ r) = lib_text (r_lib g) @ r"
  by (simp add: grow_body_def numeral_eq_Suc skip_fields)

lemma scan_item_body:
  "unat (m_mem_size c) < 2 ^ 63 \<Longrightarrow>
     scan_cfg (item_body c @ r) = Some (m_mem_size c, m_code_addr c, m_stack_offs c)"
  by (simp add: scan_cfg_def item_body_def scan_l_pr_ul scan_ptr_pr_ptr)

lemma item_body_skip: "(SET_IBUF_START ^^ 3) (item_body c @ r) = lib_text (m_lib c) @ grow_part (m_grow c) @ r"
  by (simp add: item_body_def numeral_eq_Suc skip_fields)

text \<open>The library that ends the text of an item.\<close>

definition last_lib :: "cfg \<Rightarrow> string" where
  "last_lib c = lib_text (case m_grow c of None \<Rightarrow> m_lib c | Some g \<Rightarrow> r_lib g)"

lemma parse_item:
  assumes ok: "item_ok c" and r: "rest_ok r"
  shows "parse_cfg (item_body c @ r) = Some (c, after (last_lib c) r)"
proof -
  have size: "unat (m_mem_size c) < 2 ^ 63" and lib: "lib_ok (m_lib c)" using ok by (simp_all add: item_ok_def)
  have r': "r = [] \<or> (\<exists>r'. r = CHR '';'' # r')" using r by (auto simp: rest_ok_def)
  show ?thesis
  proof (cases "m_grow c")
    case None
    have sl: "SET_CODE_LIB (lib_text (m_lib c) @ r) = (after (lib_text (m_lib c)) r, m_lib c)"
      by (rule SET_CODE_LIB_text [OF lib r'])
    have ng: "\<not> is_prefix ''grow;'' (after (lib_text (m_lib c)) r)"
      using r plain_not_grow [OF lib_text_ok(1) [OF lib]] by (auto simp: rest_ok_def after_def)
    have c: "\<lparr>m_mem_size = m_mem_size c, m_code_addr = m_code_addr c, m_code_offs = m_code_addr c,
        m_stack_offs = m_stack_offs c, m_lib = m_lib c, m_grow = None,
        m_mem_addrs = Some [ADDR_INVAL, ADDR_INVAL], m_max_obj = 1, m_insert_idx = 0\<rparr> = c"
      using ok None by (simp add: item_ok_def)
    show ?thesis
      unfolding parse_cfg_def scan_item_body [OF size] item_body_skip
      using None sl ng c by (simp add: grow_part_def last_lib_def Let_def)
  next
    case (Some g)
    have g: "grow_ok g" "lib_ok (r_lib g)" using ok Some by (auto simp: item_ok_def grow_ok_def)
    let ?t = "''grow;'' @ grow_body g @ r"
    have sl: "SET_CODE_LIB (lib_text (m_lib c) @ CHR '';'' # ?t) = (?t, m_lib c)"
      using SET_CODE_LIB_text [OF lib, of "CHR '';'' # ?t"] by (simp add: after_def)
    have gr: "SET_IBUF_START ?t = grow_body g @ r" by (simp add: skip_fields)
    have pre: "is_prefix ''grow;'' ?t" by (simp add: is_prefix_def)
    have sg: "SET_CODE_LIB ((SET_IBUF_START ^^ 5) (grow_body g @ r)) = (after (lib_text (r_lib g)) r, r_lib g)"
      unfolding grow_body_skip by (rule SET_CODE_LIB_text [OF g(2) r'])
    have sc: "scan_grow (grow_body g @ r) = Some (g\<lparr>r_lib := None\<rparr>)"
      by (rule scan_grow_body [OF g(1)])
    have c: "\<lparr>m_mem_size = m_mem_size c, m_code_addr = m_code_addr c, m_code_offs = m_code_addr c,
        m_stack_offs = m_stack_offs c, m_lib = m_lib c, m_grow = Some g,
        m_mem_addrs = Some [ADDR_INVAL, ADDR_INVAL], m_max_obj = 1, m_insert_idx = 0\<rparr> = c"
      using ok Some by (simp add: item_ok_def)
    have lb: "lib_text (m_lib c) @ grow_part (m_grow c) @ r = lib_text (m_lib c) @ CHR '';'' # ?t"
      by (simp add: grow_part_def Some)
    have step: "parse_cfg (item_body c @ r) = Some (\<lparr>m_mem_size = m_mem_size c, m_code_addr = m_code_addr c,
        m_code_offs = m_code_addr c, m_stack_offs = m_stack_offs c, m_lib = m_lib c, m_grow = Some g,
        m_mem_addrs = Some [ADDR_INVAL, ADDR_INVAL], m_max_obj = 1, m_insert_idx = 0\<rparr>,
        after (lib_text (r_lib g)) r)"
      unfolding parse_cfg_def scan_item_body [OF size] item_body_skip lb
      by (simp only: Option.bind.bind_lunit prod.case Let_def sl gr pre sg sc not_True_eq_False if_False
          cfg.update_convs grow.update_convs grow.surjective)
        simp
    show ?thesis unfolding step c by (simp add: last_lib_def Some)
  qed
qed

definition items_text :: "cfg list \<Rightarrow> string" where
  "items_text cs = concat (map item_text cs)"

lemma digit_first:
  "\<exists>d t. item_body c = d # t \<and> is_digit 16 d"
proof -
  have "pr_ul (m_mem_size c) \<noteq> []" by (simp add: pr_ul_def pr_dec_def)
  moreover have "\<forall>d \<in> set (pr_ul (m_mem_size c)). is_digit 16 d" using pr_chars(1) by (simp add: pr_ul_def)
  ultimately show ?thesis by (cases "pr_ul (m_mem_size c)") (auto simp: item_body_def)
qed

lemma digit_not_g: "is_digit 16 d \<Longrightarrow> d \<noteq> CHR ''g''"
  by (auto simp: is_digit_def digit_val_def c_isdigit_def c_isupper_def c_islower_def)

lemma items_rest: "rest_ok (items_text cs)"
proof (cases cs)
  case (Cons c cs')
  obtain d t where "item_body c = d # t" "is_digit 16 d" using digit_first by blast
  with digit_not_g show ?thesis
    using Cons by (simp add: rest_ok_def items_text_def item_text_body is_prefix_def)
qed (simp add: rest_ok_def items_text_def)

lemma parse_items:
  "\<forall>c \<in> set cs. item_ok c \<Longrightarrow> parse_cfgs (length cs) (drop 1 (items_text cs)) = Some cs"
proof (induction cs)
  case (Cons c cs)
  have t: "drop 1 (items_text (c # cs)) = item_body c @ items_text cs"
    by (simp add: items_text_def item_text_body)
  have p: "parse_cfg (item_body c @ items_text cs) = Some (c, after (last_lib c) (items_text cs))"
    using Cons.prems by (intro parse_item items_rest) simp
  show ?case
  proof (cases cs)
    case Nil
    with p t show ?thesis by simp
  next
    case (Cons c' cs')
    then have "after (last_lib c) (items_text cs) = drop 1 (items_text cs)"
      by (simp add: after_def items_text_def item_text_body)
    with p t Cons.IH Cons.prems show ?thesis by simp
  qed
qed simp


subsection \<open>The configs of the classes\<close>

text \<open>What a class stands for in the library: one config per allocation site; the growing part
  belongs to the last one.\<close>

definition ess_cfg :: "'a dyn_essentials_scheme \<Rightarrow> grow option \<Rightarrow> cfg" where
  "ess_cfg e go = \<lparr>m_mem_size = e_mem_size e, m_code_addr = e_code_addr e, m_code_offs = e_code_addr e,
     m_stack_offs = e_stack_offs e, m_lib = e_lib e, m_grow = go,
     m_mem_addrs = Some [ADDR_INVAL, ADDR_INVAL], m_max_obj = 1, m_insert_idx = 0\<rparr>"

definition grow_cfg :: "grow_entry \<Rightarrow> grow" where
  "grow_cfg g = \<lparr>r_size_min = g_size_min g, r_size_max = g_size_max g, r_type = g_type g,
     r_add = g_add g, r_code_addr = g_code_addr g, r_code_offs = g_code_addr g,
     r_stack_offs = g_stack_offs g, r_lib = g_lib g\<rparr>"

fun site_cfgs :: "dyn_essentials \<Rightarrow> dyn_essentials list \<Rightarrow> grow option \<Rightarrow> cfg list" where
  "site_cfgs e [] go = [ess_cfg e go]"
| "site_cfgs e (e' # es) go = ess_cfg e None # site_cfgs e' es go"

definition class_cfgs :: "dynmem_entry \<Rightarrow> cfg list" where
  "class_cfgs d = site_cfgs (dyn_essentials.truncate d) (d_consts d) (map_option grow_cfg (d_grow d))"

lemma add_essentials_truncate: "add_essentials (dyn_essentials.truncate d) = add_essentials d"
  by (rule ext) (simp add: add_essentials_def dyn_essentials.truncate_def)

lemma items_text_simps [simp]:
  "items_text [] = []" "items_text (c # cs) = item_text c @ items_text cs"
  "items_text (cs @ cs') = items_text cs @ items_text cs'"
  by (simp_all add: items_text_def)

lemma emit_Some: "emit acc s = Some acc' \<Longrightarrow> acc' = acc @ s"
  by (simp add: emit_def split: if_splits)

lemma add_essentials_text:
  assumes "add_essentials e acc = Some acc'" shows "acc' = acc @ item_text (ess_cfg e None)"
  using assms
  by (auto simp: add_essentials_def item_text_body item_body_def ess_cfg_def grow_part_def lib_text_def
      bind_eq_Some_conv dest!: emit_Some split: option.splits)

lemma add_grow_text:
  assumes "add_grow g acc = Some acc'" shows "acc' = acc @ grow_part (Some (grow_cfg g))"
  using assms
  by (auto simp: add_grow_def grow_part_def grow_body_def grow_cfg_def lib_text_def
      bind_eq_Some_conv dest!: emit_Some split: option.splits)

lemma item_text_grow: "item_text (ess_cfg e go) = item_text (ess_cfg e None) @ grow_part go"
  by (simp add: item_text_body item_body_def ess_cfg_def grow_part_def)

lemma site_cfgs_text:
  "fold_opt add_essentials es (acc @ item_text (ess_cfg e None)) = Some acc' \<Longrightarrow>
     items_text (site_cfgs e es go) = drop (length acc) acc' @ grow_part go \<and> take (length acc) acc' = acc"
proof (induction es arbitrary: e acc)
  case Nil
  then show ?case by (auto simp: item_text_grow [of e go])
next
  case (Cons e' es)
  let ?acc = "acc @ item_text (ess_cfg e None)"
  from Cons.prems obtain a where "add_essentials e' ?acc = Some a" and a: "fold_opt add_essentials es a = Some acc'"
    by (auto simp: bind_eq_Some_conv)
  from add_essentials_text [OF this(1)] a
  have "fold_opt add_essentials es (?acc @ item_text (ess_cfg e' None)) = Some acc'" by simp
  from Cons.IH [OF this] have t: "items_text (site_cfgs e' es go) = drop (length ?acc) acc' @ grow_part go"
    and k: "take (length ?acc) acc' = ?acc" by simp_all
  have l: "length ?acc \<le> length acc'" using k by (metis length_take min.absorb_iff1 min.commute)
  have "drop (length acc) acc' = drop (length acc) (take (length ?acc) acc' @ drop (length ?acc) acc')" by simp
  also have "\<dots> = item_text (ess_cfg e None) @ drop (length ?acc) acc'" unfolding k by simp
  finally have d: "drop (length acc) acc' = item_text (ess_cfg e None) @ drop (length ?acc) acc'" .
  have "take (length acc) acc' = take (length acc) (take (length ?acc) acc')" by (simp add: min_def)
  also have "\<dots> = acc" unfolding k by simp
  finally show ?case using t d by simp
qed

lemma length_site_cfgs [simp]: "length (site_cfgs e es go) = Suc (length es)"
  by (induction e es go rule: site_cfgs.induct) simp_all


lemma class_cfgs_text:
  assumes "fold_opt add_essentials (d_consts d) a1 = Some a2" "add_essentials d acc = Some a1"
  shows "acc @ items_text (class_cfgs d) = a2 @ grow_part (map_option grow_cfg (d_grow d))"
proof -
  let ?e = "dyn_essentials.truncate d"
  have a1: "a1 = acc @ item_text (ess_cfg ?e None)"
    by (rule add_essentials_text) (simp only: add_essentials_truncate assms(2))
  have "items_text (class_cfgs d) = drop (length acc) a2 @ grow_part (map_option grow_cfg (d_grow d)) \<and>
      take (length acc) a2 = acc"
    unfolding class_cfgs_def by (rule site_cfgs_text) (use assms(1) a1 in simp)
  then show ?thesis by (metis append.assoc append_take_drop_id)
qed

text \<open>The state of the printing loop behind the class that was visited last.\<close>

definition prep_at :: "dynmem_entry list \<Rightarrow> nat option \<Rightarrow> prep \<Rightarrow> bool" where
  "prep_at ds old st \<longleftrightarrow> (case old of
     None \<Rightarrow> pr_old_lib st = None
   | Some di \<Rightarrow> (case d_grow (ds ! di) of
         None \<Rightarrow> pr_old_code st = e_code_addr (ds ! di) \<and> pr_old_lib st = Some (di, False)
       | Some g \<Rightarrow> pr_old_grow st = g_code_addr g \<and> pr_old_lib st = Some (di, True)))"

definition libs_set :: "dynmem_entry \<Rightarrow> bool" where
  "libs_set d \<longleftrightarrow> e_lib d \<noteq> None \<and> (\<forall>g \<in> set_option (d_grow d). g_lib g \<noteq> None)"

lemma prep_class_again:
  assumes "prep_at ds (Some di) st" "libs_set (ds ! di)"
  shows "prep_class di (ds ! di) st = Some st"
  using assms by (auto simp: prep_at_def prep_class_def lib_obj_def libs_set_def split: option.splits)

lemma prep_class_new:
  assumes at: "prep_at ds old st" and new: "old \<noteq> Some di" and libs: "libs_set (ds ! di)"
    and p: "prep_class di (ds ! di) st = Some st'"
  shows "prep_at ds (Some di) st' \<and> pr_acc st' = pr_acc st @ items_text (class_cfgs (ds ! di)) \<and>
    pr_num_cfg st' = pr_num_cfg st + length (class_cfgs (ds ! di))"
proof -
  let ?d = "ds ! di"
  have nolib: "lib_obj di b (Some l) \<noteq> pr_old_lib st" for b l
    using at new by (auto simp: prep_at_def lib_obj_def split: option.splits)
  obtain l where l: "e_lib ?d = Some l" using libs by (auto simp: libs_set_def)
  show ?thesis
  proof (cases "d_grow ?d")
    case None
    with p l nolib obtain a1 a2 where a: "add_essentials ?d (pr_acc st) = Some a1"
      "fold_opt add_essentials (d_consts ?d) a1 = Some a2"
      and st': "st' = st\<lparr>pr_num_cfg := pr_num_cfg st + 1 + length (d_consts ?d), pr_acc := a2,
        pr_old_code := e_code_addr ?d, pr_old_lib := lib_obj di False (e_lib ?d)\<rparr>"
      by (auto simp: prep_class_def bind_eq_Some_conv Let_def)
    from class_cfgs_text [OF a(2,1)] None l st' show ?thesis
      by (simp add: prep_at_def lib_obj_def grow_part_def class_cfgs_def)
  next
    case (Some g)
    then obtain lg where lg: "g_lib g = Some lg" using libs by (auto simp: libs_set_def)
    from Some p lg nolib obtain a1 a2 a3 where a: "add_essentials ?d (pr_acc st) = Some a1"
      "fold_opt add_essentials (d_consts ?d) a1 = Some a2" "add_grow g a2 = Some a3"
      and st': "st' = st\<lparr>pr_num_cfg := pr_num_cfg st + 1 + length (d_consts ?d), pr_acc := a3,
        pr_old_grow := g_code_addr g, pr_old_lib := lib_obj di True (g_lib g)\<rparr>"
      by (auto simp: prep_class_def bind_eq_Some_conv Let_def)
    from class_cfgs_text [OF a(2,1)] add_grow_text [OF a(3)] Some lg st' show ?thesis
      by (simp add: prep_at_def lib_obj_def class_cfgs_def)
  qed
qed

definition all_cfgs :: "dynmem_entry list \<Rightarrow> nat list \<Rightarrow> cfg list" where
  "all_cfgs ds dis = concat (map (\<lambda>di. class_cfgs (ds ! di)) dis)"

lemma all_cfgs_simps [simp]:
  "all_cfgs ds [] = []" "all_cfgs ds (di # dis) = class_cfgs (ds ! di) @ all_cfgs ds dis"
  by (simp_all add: all_cfgs_def)

lemma prep_cfgs:
  assumes "fold_opt (prep_cfg w) cs st = Some st'" "prep_at (w_dyn w) old st"
    "\<forall>d \<in> set (w_dyn w). libs_set d"
  shows "pr_acc st' = pr_acc st @ items_text (all_cfgs (w_dyn w) (dyn_visits old cs)) \<and>
    pr_num_cfg st' = pr_num_cfg st + length (all_cfgs (w_dyn w) (dyn_visits old cs))"
  using assms(1,2)
proof (induction cs arbitrary: st old)
  case (Cons c cs)
  from Cons.prems(1) obtain s1 where s1: "prep_cfg w c st = Some s1" and r: "fold_opt (prep_cfg w) cs s1 = Some st'"
    by (auto simp: bind_eq_Some_conv)
  show ?case
  proof (cases "c_dynmem c")
    case None
    with s1 r Cons show ?thesis by (simp add: prep_cfg_def)
  next
    case (Some di)
    with s1 have p: "prep_class di (w_dyn w ! di) st = Some s1" and di: "di < length (w_dyn w)"
      by (auto simp: prep_cfg_def bind_eq_Some_conv vget_Some_iff)
    have libs: "libs_set (w_dyn w ! di)" using assms(3) di by simp
    show ?thesis
    proof (cases "old = Some di")
      case True
      with prep_class_again [OF _ libs] Cons.prems(2) p have "s1 = st" by auto
      with Cons.IH [OF r] Cons.prems(2) True Some show ?thesis by simp
    next
      case False
      from prep_class_new [OF Cons.prems(2) False libs p] Cons.IH [OF r] Some False
      show ?thesis by auto
    qed
  qed
qed simp


subsection \<open>The code offsets\<close>

text \<open>What the trainer sends for a config, and the config moved by it.\<close>

definition cfg_offs :: "region list \<Rightarrow> ptr \<Rightarrow> cfg \<Rightarrow> ptr list" where
  "cfg_offs rl eo c = lib_offs rl eo (m_lib c) #
     (case m_grow c of None \<Rightarrow> [] | Some g \<Rightarrow> [lib_offs rl eo (r_lib g)])"

definition moved_cfg :: "region list \<Rightarrow> ptr \<Rightarrow> cfg \<Rightarrow> cfg" where
  "moved_cfg rl eo c = c\<lparr>m_code_addr := m_code_addr c + lib_offs rl eo (m_lib c),
     m_grow := map_option (\<lambda>g. g\<lparr>r_code_addr := r_code_addr g + lib_offs rl eo (r_lib g)\<rparr>) (m_grow c)\<rparr>"

definition offs_text :: "ptr list \<Rightarrow> string" where
  "offs_text os = concat (map (\<lambda>a. pr_ptr a @ '';'') os)"

lemma offs_text_simps [simp]:
  "offs_text [] = []" "offs_text (o1 # os) = pr_ptr o1 @ CHR '';'' # offs_text os"
  "offs_text (os @ os') = offs_text os @ offs_text os'"
  by (simp_all add: offs_text_def)

text \<open>Addresses that are in use: libmemhack leaves the address 0 alone.\<close>

definition addrs_set :: "cfg \<Rightarrow> bool" where
  "addrs_set c \<longleftrightarrow> (m_mem_size c \<noteq> 0 \<or> m_grow c \<noteq> None) \<and> m_code_addr c \<noteq> 0 \<and>
     (\<forall>g \<in> set_option (m_grow c). r_code_addr g \<noteq> 0)"

lemma read_offs_text: "read_offs (pr_ptr a @ CHR '';'' # r) = (a, r)"
  by (simp add: read_offs_def scan_ptr_pr_ptr skip_fields)

lemma early_pic_moves:
  "\<forall>c \<in> set cs. addrs_set c \<Longrightarrow>
     early_pic cs (offs_text (concat (map (cfg_offs rl eo) cs))) = map (moved_cfg rl eo) cs"
proof (induction cs)
  case (Cons c cs)
  then have c: "addrs_set c" and IH: "early_pic cs (offs_text (concat (map (cfg_offs rl eo) cs))) = map (moved_cfg rl eo) cs"
    by simp_all
  show ?case
  proof (cases "m_grow c")
    case None
    then have "cfg_offs rl eo c = [lib_offs rl eo (m_lib c)]"
      "moved_cfg rl eo c = c\<lparr>m_code_addr := m_code_addr c + lib_offs rl eo (m_lib c)\<rparr>"
      by (simp_all add: cfg_offs_def moved_cfg_def)
    with None c IH show ?thesis by (simp add: addrs_set_def read_offs_text shift_addr_def)
  next
    case (Some g)
    then have "cfg_offs rl eo c = [lib_offs rl eo (m_lib c), lib_offs rl eo (r_lib g)]"
      "moved_cfg rl eo c = c\<lparr>m_code_addr := m_code_addr c + lib_offs rl eo (m_lib c),
         m_grow := Some (g\<lparr>r_code_addr := r_code_addr g + lib_offs rl eo (r_lib g)\<rparr>)\<rparr>"
      by (simp_all add: cfg_offs_def moved_cfg_def)
    with Some c IH show ?thesis by (simp add: addrs_set_def read_offs_text shift_addr_def)
  qed
qed simp

text \<open>The same on the side of the trainer.\<close>

definition moved_ess :: "region list \<Rightarrow> ptr \<Rightarrow> dyn_essentials \<Rightarrow> dyn_essentials" where
  "moved_ess rl eo e = e\<lparr>e_code_addr := e_code_addr e + lib_offs rl eo (e_lib e)\<rparr>"

definition moved_class :: "region list \<Rightarrow> ptr \<Rightarrow> dynmem_entry \<Rightarrow> dynmem_entry" where
  "moved_class rl eo d = d\<lparr>e_code_addr := e_code_addr d + lib_offs rl eo (e_lib d),
     d_consts := map (moved_ess rl eo) (d_consts d),
     d_grow := map_option (\<lambda>g. g\<lparr>g_code_addr := g_code_addr g + lib_offs rl eo (g_lib g)\<rparr>) (d_grow d)\<rparr>"

definition site_offs :: "region list \<Rightarrow> ptr \<Rightarrow> dyn_essentials list \<Rightarrow> ptr list" where
  "site_offs rl eo es = map (\<lambda>e. lib_offs rl eo (e_lib e)) es"

lemma aslr_consts_text:
  "aslr_consts rl eo es acc = Some (es', acc') \<Longrightarrow>
     es' = map (moved_ess rl eo) es \<and> acc' = acc @ offs_text (site_offs rl eo es)"
proof (induction es arbitrary: acc es' acc')
  case (Cons e es)
  let ?o = "lib_offs rl eo (e_lib e)"
  from Cons.prems obtain a es1 where "emit acc (pr_ptr ?o @ '';'') = Some a"
    and r: "aslr_consts rl eo es a = Some (es1, acc')"
    and es': "es' = e\<lparr>e_code_addr := e_code_addr e + ?o\<rparr> # es1"
    by (auto simp: bind_eq_Some_conv Let_def)
  from emit_Some [OF this(1)] Cons.IH [OF r] es' show ?case
    by (simp add: moved_ess_def site_offs_def)
qed (simp add: site_offs_def)

lemma site_cfgs_offs:
  "concat (map (cfg_offs rl eo) (site_cfgs e es go)) =
     lib_offs rl eo (e_lib e) # site_offs rl eo es @ (case go of None \<Rightarrow> [] | Some g \<Rightarrow> [lib_offs rl eo (r_lib g)])"
  by (induction e es go rule: site_cfgs.induct)
    (simp_all add: cfg_offs_def ess_cfg_def site_offs_def)

lemma aslr_dynmem_text:
  assumes "aslr_dynmem rl eo d acc = Some (d', acc')"
  shows "d' = moved_class rl eo d \<and> acc' = acc @ offs_text (concat (map (cfg_offs rl eo) (class_cfgs d)))"
proof -
  let ?o = "lib_offs rl eo (e_lib d)"
  have lib: "e_lib (dyn_essentials.truncate d) = e_lib d" by (simp add: dyn_essentials.truncate_def)
  have sites: "a2 = acc @ pr_ptr ?o @ CHR '';'' # offs_text (site_offs rl eo (d_consts d)) \<and>
      es = map (moved_ess rl eo) (d_consts d)"
    if "emit acc (pr_ptr ?o @ '';'') = Some a1" "aslr_consts rl eo (d_consts d) a1 = Some (es, a2)" for a1 es a2
    using aslr_consts_text [OF that(2)] emit_Some [OF that(1)] by simp
  show ?thesis
  proof (cases "d_grow d")
    case None
    with assms obtain a1 es a2 where a: "emit acc (pr_ptr ?o @ '';'') = Some a1"
      "aslr_consts rl eo (d_consts d) a1 = Some (es, a2)"
      and d': "d' = d\<lparr>e_code_addr := e_code_addr d + ?o, d_consts := es\<rparr>" "acc' = a2"
      by (auto simp: aslr_dynmem_def bind_eq_Some_conv Let_def)
    from sites [OF a] d' lib None show ?thesis
      by (simp add: moved_class_def class_cfgs_def site_cfgs_offs)
  next
    case (Some g)
    with assms obtain a1 es a2 a3 where a: "emit acc (pr_ptr ?o @ '';'') = Some a1"
      "aslr_consts rl eo (d_consts d) a1 = Some (es, a2)"
      and a3: "emit a2 (pr_ptr (lib_offs rl eo (g_lib g)) @ '';'') = Some a3"
      and d': "d' = d\<lparr>e_code_addr := e_code_addr d + ?o, d_consts := es,
           d_grow := Some (g\<lparr>g_code_addr := g_code_addr g + lib_offs rl eo (g_lib g)\<rparr>)\<rparr>" "acc' = a3"
      by (auto simp: aslr_dynmem_def bind_eq_Some_conv Let_def)
    from sites [OF a] emit_Some [OF a3] d' lib Some show ?thesis
      by (simp add: moved_class_def class_cfgs_def site_cfgs_offs grow_cfg_def)
  qed
qed

lemma aslr_loop_text:
  assumes "aslr_loop rl eo dis st = Some st'" "distinct dis"
  shows "snd st' = snd st @ offs_text (concat (map (cfg_offs rl eo) (all_cfgs (w_dyn (fst st)) dis))) \<and>
    (\<forall>di. w_dyn (fst st') ! di = (if di \<in> set dis then moved_class rl eo (w_dyn (fst st) ! di)
       else w_dyn (fst st) ! di))"
  using assms
proof (induction dis arbitrary: st)
  case (Cons di dis)
  obtain w acc where st: "st = (w, acc)" by fastforce
  from Cons.prems(1) st obtain d a where di: "di < length (w_dyn w)"
    and d: "aslr_dynmem rl eo (w_dyn w ! di) acc = Some (d, a)"
    and r: "aslr_loop rl eo dis (w\<lparr>w_dyn := (w_dyn w)[di := d]\<rparr>, a) = Some st'"
    by (auto simp: bind_eq_Some_conv vget_Some_iff)
  let ?ds = "(w_dyn w)[di := d]"
  have new: "di \<notin> set dis" using Cons.prems(2) by simp
  have nth: "?ds ! dj = w_dyn w ! dj" if "dj \<noteq> di" for dj using that by simp
  have same: "all_cfgs ?ds dis = all_cfgs (w_dyn w) dis"
    unfolding all_cfgs_def using new nth by (intro arg_cong [where f = concat] map_cong refl) (metis nth)
  from Cons.IH [OF r] Cons.prems(2) have
    IH: "snd st' = a @ offs_text (concat (map (cfg_offs rl eo) (all_cfgs ?ds dis)))"
      "\<forall>dj. w_dyn (fst st') ! dj = (if dj \<in> set dis then moved_class rl eo (?ds ! dj) else ?ds ! dj)"
    by simp_all
  have "\<forall>dj. w_dyn (fst st') ! dj = (if dj \<in> set (di # dis) then moved_class rl eo (w_dyn w ! dj) else w_dyn w ! dj)"
    using IH(2) aslr_dynmem_text [OF d] nth di new by (metis list.set_intros(1,2) nth_list_update_eq set_ConsD)
  with IH(1) same aslr_dynmem_text [OF d] st show ?case by simp
qed simp


lemma aslr_loop_bounds:
  "aslr_loop rl eo dis st = Some st' \<Longrightarrow> \<forall>di \<in> set dis. di < length (w_dyn (fst st))"
  by (induction dis arbitrary: st) (fastforce simp: bind_eq_Some_conv vget_Some_iff)+

subsection \<open>The exchange\<close>

definition one_line :: "string \<Rightarrow> bool" where
  "one_line s \<longleftrightarrow> (\<forall>x \<in> set s. x \<noteq> NUL \<and> x \<noteq> NL)"

lemma one_line_simps [simp]:
  "one_line []" "one_line (c # s) \<longleftrightarrow> (c \<noteq> NUL \<and> c \<noteq> NL) \<and> one_line s"
  "one_line (s @ t) \<longleftrightarrow> one_line s \<and> one_line t"
  by (auto simp: one_line_def)

lemma plain_line: "\<forall>c \<in> set s. plain_char c \<Longrightarrow> one_line s"
  by (simp add: one_line_def plain_char_def)

lemma pr_line [simp]: "one_line (pr_ul n)" "one_line (pr_ptr a)" "one_line (pr_u32 v)" "one_line (pr_dec k)"
  by (rule plain_line, rule pr_plain)+

lemma item_chars:
  assumes "item_ok c" shows "one_line (item_text c)"
proof -
  have "one_line (lib_text (m_lib c))" and "\<And>g. m_grow c = Some g \<Longrightarrow> one_line (lib_text (r_lib g))"
    using assms by (auto intro!: plain_line lib_text_ok(1) simp: item_ok_def grow_ok_def)
  then show ?thesis
    by (cases "m_grow c") (simp_all add: item_text_body item_body_def grow_part_def grow_body_def)
qed

lemma items_chars: "\<forall>c \<in> set cs. item_ok c \<Longrightarrow> one_line (items_text cs)"
  by (induction cs) (simp_all add: item_chars)

lemma items_count: "length cs \<le> length (items_text cs)"
  by (induction cs) (simp_all add: item_text_body)

lemma scan_u32_pr_dec:
  assumes "n < 2 ^ 32" "num_stop r" shows "scan_u32 10 (pr_dec n @ r) = Some (of_nat n, r)"
proof -
  have "unat (of_nat n :: u32) = n" using assms(1) by (simp add: unat_of_nat)
  then show ?thesis using scan_u32_pr_u32 [OF assms(2), of "of_nat n"] by (simp add: pr_u32_def)
qed

lemma RM_NEW_LINE_end:
  assumes "one_line xs" shows "RM_NEW_LINE (xs @ [NL]) = xs"
proof -
  have "strchr (xs @ [NL]) 0 NL = Some (0 + length xs)"
    using assms by (intro strchr_skip [where ys = "[]"]) (auto simp: one_line_def)
  then show ?thesis by (simp add: RM_NEW_LINE_def)
qed

definition cfg_text :: "bool \<Rightarrow> cfg list \<Rightarrow> string" where
  "cfg_text gbt cs = pr_dec (length cs) @ (if gbt then '';'' @ GBT_CMD else '''') @ items_text cs @ [NL]"

lemma parse_header_text:
  assumes ok: "\<forall>c \<in> set cs. item_ok c" and cs: "cs \<noteq> []" "length cs < 2 ^ 32"
  shows "parse_header (cfg_text gbt cs) = Some (length cs, gbt, drop 1 (items_text cs))"
proof -
  obtain c cs' where c: "cs = c # cs'" using cs(1) by (cases cs) auto
  obtain d t where d: "item_body c = d # t" "is_digit 16 d" using digit_first by blast
  have items: "items_text cs = CHR '';'' # d # t @ items_text cs'" using c d by (simp add: item_text_body)
  let ?body = "(if gbt then '';'' @ GBT_CMD else '''') @ items_text cs"
  have ct: "cfg_text gbt cs = pr_dec (length cs) @ ?body @ [NL]" by (simp add: cfg_text_def)
  have "one_line (pr_dec (length cs) @ ?body)" using items_chars [OF ok] by (simp add: GBT_CMD_def)
  from RM_NEW_LINE_end [OF this]
  have rm: "RM_NEW_LINE (cfg_text gbt cs) = pr_dec (length cs) @ ?body" unfolding ct by simp
  have "num_stop (?body @ [NL])" using items by (simp add: num_stop_def c_isalnum_def c_isalpha_def c_isupper_def c_islower_def c_isdigit_def)
  then have scan: "scan_u32 10 (cfg_text gbt cs) = Some (of_nat (length cs), ?body @ [NL])"
    unfolding ct by (rule scan_u32_pr_dec [OF cs(2)])
  have n: "unat (of_nat (length cs) :: u32) = length cs" using cs(2) by (simp add: unat_of_nat)
  then have n0: "(of_nat (length cs) :: u32) \<noteq> 0" using cs(1) by auto
  show ?thesis
  proof (cases gbt)
    case True
    then have sk: "SET_IBUF_START (RM_NEW_LINE (cfg_text gbt cs)) = GBT_CMD @ items_text cs"
      unfolding rm by (simp add: skip_fields)
    have "take 3 (takeWhile (\<lambda>c. \<not> c_isspace c) (dropWhile c_isspace (GBT_CMD @ items_text cs))) = GBT_CMD"
      by (simp add: GBT_CMD_def c_isspace_def)
    moreover have "SET_IBUF_START (GBT_CMD @ items_text cs) = drop 1 (items_text cs)"
      unfolding items by (simp add: GBT_CMD_def skip_fields)
    ultimately show ?thesis using True scan n n0 sk by (simp add: parse_header_def)
  next
    case False
    then have sk: "SET_IBUF_START (RM_NEW_LINE (cfg_text gbt cs)) = drop 1 (items_text cs)"
      unfolding rm items by (simp add: skip_fields)
    have "take 3 (takeWhile (\<lambda>c. \<not> c_isspace c) (dropWhile c_isspace (drop 1 (items_text cs)))) \<noteq> GBT_CMD"
      unfolding items using digit_not_special(1) [OF d(2)] digit_not_g [OF d(2)]
      by (simp add: GBT_CMD_def numeral_eq_Suc)
    then show ?thesis using False scan n n0 sk by (simp add: parse_header_def)
  qed
qed

text \<open>What is compared of a config: everything but the run-time part and the original offsets.\<close>

definition code_view where
  "code_view c = (m_mem_size c, m_code_addr c, m_stack_offs c, m_lib c,
     map_option (\<lambda>g. (r_size_min g, r_size_max g, r_type g, r_add g, r_code_addr g, r_stack_offs g, r_lib g))
       (m_grow c))"

lemma moved_site_cfgs:
  "map code_view (map (moved_cfg rl eo) (site_cfgs e es go)) =
     map code_view (site_cfgs (moved_ess rl eo e) (map (moved_ess rl eo) es)
       (map_option (\<lambda>g. g\<lparr>r_code_addr := r_code_addr g + lib_offs rl eo (r_lib g)\<rparr>) go))"
  by (induction e es go rule: site_cfgs.induct)
    (simp_all add: code_view_def moved_cfg_def ess_cfg_def moved_ess_def option.map_comp comp_def)

lemma moved_class_cfgs:
  "map code_view (map (moved_cfg rl eo) (class_cfgs d)) = map code_view (class_cfgs (moved_class rl eo d))"
proof -
  let ?g = "\<lambda>g. g\<lparr>r_code_addr := r_code_addr g + lib_offs rl eo (r_lib g)\<rparr>"
  let ?h = "\<lambda>g. g\<lparr>g_code_addr := g_code_addr g + lib_offs rl eo (g_lib g)\<rparr>"
  have view: "map code_view (site_cfgs e es (map_option grow_cfg (map_option ?h go))) =
      map code_view (site_cfgs e es (map_option ?g (map_option grow_cfg go)))" for e es go
    by (induction e es "map_option grow_cfg go" rule: site_cfgs.induct)
      (auto simp: code_view_def ess_cfg_def option.map_comp comp_def grow_cfg_def cong: map_option_cong)
  have e: "moved_ess rl eo (dyn_essentials.truncate d) = dyn_essentials.truncate (moved_class rl eo d)"
    by (simp add: moved_ess_def moved_class_def dyn_essentials.truncate_def)
  show ?thesis
    unfolding class_cfgs_def moved_site_cfgs e
    by (simp add: moved_class_def view [simplified])
qed


text \<open>Classes whose configuration survives the text form.\<close>

definition sendable :: "dynmem_entry \<Rightarrow> bool" where
  "sendable d \<longleftrightarrow> libs_set d \<and> (\<forall>c \<in> set (class_cfgs d). item_ok c \<and> addrs_set c)"

lemma prepare_dynmem_text:
  assumes p: "prepare_dynmem '''' gbt w = Some (Inr txt)" and libs: "\<forall>d \<in> set (w_dyn w). libs_set d"
  defines "cs \<equiv> all_cfgs (w_dyn w) (dyn_visits None (w_cfg w))"
  shows "txt = cfg_text gbt cs @ [NUL]" "cs \<noteq> []" "length txt \<le> PIPE_BUF - 1" "length cs < 2 ^ 32"
proof -
  from p obtain st acc where f: "fold_opt (prep_cfg w) (w_cfg w) (prep_init gbt) = Some st"
    and e: "emit (pr_acc st) (pr_dec (pr_num_cfg st)) = Some acc"
    and len: "\<not> PIPE_BUF < length acc + length (pr_dec (pr_num_cfg st)) + 2" and n: "pr_num_cfg st \<noteq> 0"
    and t: "txt = pr_dec (pr_num_cfg st) @ pr_acc st @ [NL, NUL]"
    by (auto simp: prepare_dynmem_def bind_eq_Some_conv Let_def split: if_splits)
  have "prep_at (w_dyn w) None (prep_init gbt)" by (simp add: prep_at_def prep_init_def)
  from prep_cfgs [OF f this libs] have a: "pr_acc st = (if gbt then '';'' @ GBT_CMD else '''') @ items_text cs"
    and num: "pr_num_cfg st = length cs" by (simp_all add: prep_init_def cs_def)
  show "txt = cfg_text gbt cs @ [NUL]" using t a num by (simp add: cfg_text_def)
  show "cs \<noteq> []" using n num by auto
  have "length acc = length (pr_acc st) + length (pr_dec (pr_num_cfg st))" using emit_Some [OF e] by simp
  moreover obtain k where "length (pr_dec (pr_num_cfg st)) = Suc k"
    by (cases "pr_dec (pr_num_cfg st)") (auto simp: pr_dec_def)
  ultimately show l: "length txt \<le> PIPE_BUF - 1"
    using len unfolding t PIPE_BUF_def by simp
  have "length cs \<le> length (pr_acc st)" using a items_count [of cs] by simp
  with l t show "length cs < 2 ^ 32" by (simp add: PIPE_BUF_def)
qed

lemma handle_aslr_text:
  assumes h: "handle_aslr '''' disc_lib rl w = Some (w', Some offs)" and d: "distinct (dyn_visits None (w_cfg w))"
    and l: "length offs < BUF_SIZE"
  defines "vs \<equiv> dyn_visits None (w_cfg w)" and "eo \<equiv> snd (snd (find_exe_region rl))"
  shows "offs = offs_text (concat (map (cfg_offs rl eo) (all_cfgs (w_dyn w) vs)))"
    "\<forall>di \<in> set vs. w_dyn w' ! di = moved_class rl eo (w_dyn w ! di) \<and> di < length (w_dyn w)"
proof -
  obtain es ee where ex: "find_exe_region rl = (es, ee, eo)" by (metis eo_def prod.collapse)
  let ?w1 = "(find_lib_regions rl w)\<lparr>w_code_offs := eo\<rparr>"
  have w1: "w_dyn ?w1 = w_dyn w" "w_cfg ?w1 = w_cfg w" by (simp_all add: find_lib_regions_def)
  from h ex w1 obtain acc where lp: "aslr_loop rl eo vs (?w1, []) = Some (w', acc)" and s: "sent_text acc = Some offs"
    by (auto simp: handle_aslr_def vs_def Let_def bind_eq_Some_conv split: if_splits)
  have "acc = offs" using s l
    by (auto simp: sent_text_def BUF_SIZE_def PIPE_BUF_def split: if_splits)
  moreover have dv: "distinct vs" using d by (simp add: vs_def)
  note L = aslr_loop_text [OF lp dv]
  ultimately show "offs = offs_text (concat (map (cfg_offs rl eo) (all_cfgs (w_dyn w) vs)))"
    using w1 by simp
  show "\<forall>di \<in> set vs. w_dyn w' ! di = moved_class rl eo (w_dyn w ! di) \<and> di < length (w_dyn w)"
    using L aslr_loop_bounds [OF lp] w1 by simp
qed

lemma offs_line: "one_line (offs_text os)"
  by (induction os) simp_all

lemma one_line_cstr: "one_line s \<Longrightarrow> cstr (s @ NL # NUL # r) = s @ [NL]" "one_line s \<Longrightarrow> cstr s = s"
  by (induction s) (simp_all add: cstr_Cons)

lemma memhack_handshake:
  assumes ok: "\<forall>d \<in> set (w_dyn w). sendable d" and d: "distinct (dyn_visits None (w_cfg w))"
    and p: "prepare_dynmem '''' gbt w = Some (Inr txt)"
    and a: "handle_aslr '''' disc_lib rl w = Some (w', Some offs)" and l: "length offs < BUF_SIZE"
    and h: "h = memhack_init None name se (Some txt) (Some offs) memhack_start"
  shows "h_active h \<and> h_use_gbt h = gbt \<and>
    map code_view (h_config h) = map code_view (all_cfgs (w_dyn w') (dyn_visits None (w_cfg w))) \<and>
    map m_code_offs (h_config h) = map m_code_addr (all_cfgs (w_dyn w) (dyn_visits None (w_cfg w)))"
proof -
  let ?vs = "dyn_visits None (w_cfg w)" and ?eo = "snd (snd (find_exe_region rl))"
  let ?cs = "all_cfgs (w_dyn w) ?vs"
  have libs: "\<forall>d \<in> set (w_dyn w). libs_set d" using ok by (simp add: sendable_def)
  note P = prepare_dynmem_text [OF p libs] and A = handle_aslr_text [OF a d l]
  have cs: "\<forall>c \<in> set ?cs. item_ok c \<and> addrs_set c"
    using ok A(2) by (auto simp: all_cfgs_def sendable_def)
  obtain r where ct: "cfg_text gbt ?cs = r @ [NL]" and r: "one_line r"
    using items_chars [of ?cs] cs by (auto simp: cfg_text_def GBT_CMD_def)
  have "cstr (take (BUF_SIZE - 1) txt) = cfg_text gbt ?cs"
    using P(1,3) one_line_cstr(1) [OF r, of "[]"] by (simp add: ct BUF_SIZE_def PIPE_BUF_def)
  moreover have "parse_header (cfg_text gbt ?cs) = Some (length ?cs, gbt, drop 1 (items_text ?cs))"
    using cs P(2,4) by (intro parse_header_text) auto
  moreover have "parse_cfgs (length ?cs) (drop 1 (items_text ?cs)) = Some ?cs" using cs by (intro parse_items) auto
  moreover have "cstr (take (BUF_SIZE - 1) offs) = offs" using l A(1) offs_line one_line_cstr(2) by simp
  moreover have "\<not> (m_mem_size (hd ?cs) = 0 \<and> m_grow (hd ?cs) = None)"
    using cs P(2) by (auto simp: addrs_set_def)
  moreover have "early_pic ?cs offs = map (moved_cfg rl ?eo) ?cs"
    unfolding A(1) using cs by (intro early_pic_moves) auto
  ultimately have H: "h = \<lparr>h_active = True, h_use_gbt = gbt, h_config = map (moved_cfg rl ?eo) ?cs,
      h_out = [ASLR_NOTIFY_STR, render (MStack se)]\<rparr>"
    using h by (auto simp: memhack_init_def memhack_start_def Let_def)
  have "map code_view (map (moved_cfg rl ?eo) (all_cfgs (w_dyn w) vs)) = map code_view (all_cfgs (w_dyn w') vs)"
    if "set vs \<subseteq> set ?vs" for vs
    using that A(2) moved_class_cfgs by (induction vs) auto
  moreover have "m_code_offs (moved_cfg rl ?eo c) = m_code_offs c" for c by (simp add: moved_cfg_def)
  ultimately show ?thesis unfolding H using cs by (simp add: item_ok_def)
qed

end
