(* ===== verification/MemhackInv.thy ===== *)
theory MemhackInv
  imports Memhack
begin

text \<open>
  Correctness of the address tracking in \<open>libmemhack\<close>: the array of a config with its end
  marks is a multiset of addresses (locale \<open>addr_tracker\<close>, interpreted on the array code), and
  the messages that are sent agree with it.
\<close>

subsection \<open>The interface\<close>

text \<open>Allocations (\<open>Inl\<close>) and releases (\<open>Inr\<close>), and what they do to the tracked addresses.\<close>

fun track :: "(ptr \<Rightarrow> 't \<Rightarrow> 't) \<Rightarrow> (ptr \<Rightarrow> 't \<Rightarrow> nat option) \<Rightarrow> (nat \<Rightarrow> 't \<Rightarrow> 't) \<Rightarrow>
    (ptr + ptr) list \<Rightarrow> 't \<Rightarrow> 't" where
  "track store lookup forget [] t = t"
| "track store lookup forget (Inl a # es) t = track store lookup forget es (store a t)"
| "track store lookup forget (Inr a # es) t =
     track store lookup forget es (case lookup a t of None \<Rightarrow> t | Some j \<Rightarrow> forget j t)"

fun tracked :: "(ptr + ptr) list \<Rightarrow> ptr multiset \<Rightarrow> ptr multiset" where
  "tracked [] M = M"
| "tracked (Inl a # es) M = tracked es (add_mset a M)"
| "tracked (Inr a # es) M = tracked es (M - {#a#})"

locale addr_tracker =
  fixes ok :: "'t \<Rightarrow> bool"
    and live :: "'t \<Rightarrow> ptr multiset"
    and store :: "ptr \<Rightarrow> 't \<Rightarrow> 't"
    and find :: "ptr \<Rightarrow> 't \<Rightarrow> nat option"
    and forget :: "nat \<Rightarrow> 't \<Rightarrow> 't"
  assumes store_ok: "ok t \<Longrightarrow> 1 < a \<Longrightarrow> ok (store a t)"
    and store_live: "ok t \<Longrightarrow> 1 < a \<Longrightarrow> live (store a t) = add_mset a (live t)"
    and find_None: "ok t \<Longrightarrow> 1 < a \<Longrightarrow> find a t = None \<longleftrightarrow> a \<notin># live t"
    and forget_ok: "ok t \<Longrightarrow> 1 < a \<Longrightarrow> find a t = Some j \<Longrightarrow> ok (forget j t)"
    and forget_live: "ok t \<Longrightarrow> 1 < a \<Longrightarrow> find a t = Some j \<Longrightarrow> live (forget j t) = live t - {#a#}"
begin

lemma track_refines:
  "ok t \<Longrightarrow> \<forall>e \<in> set es. 1 < (case e of Inl a \<Rightarrow> a | Inr a \<Rightarrow> a) \<Longrightarrow>
     ok (track store find forget es t) \<and> live (track store find forget es t) = tracked es (live t)"
proof (induction es arbitrary: t)
  case (Cons e es)
  show ?case
  proof (cases e)
    case (Inl a)
    with Cons show ?thesis by (simp add: store_ok store_live)
  next
    case (Inr a)
    show ?thesis
    proof (cases "find a t")
      case None
      then have "live t - {#a#} = live t" using Cons.prems Inr find_None by (simp add: diff_single_trivial)
      with None Inr Cons show ?thesis by simp
    next
      case (Some j)
      have "1 < a" using Cons.prems Inr by simp
      note forget_ok [OF Cons.prems(1) this Some] forget_live [OF Cons.prems(1) this Some]
      with Inr Some Cons show ?thesis by simp
    qed
  qed
qed simp

end

subsection \<open>The array of a config\<close>

text \<open>
  Valid and zeroed addresses, then end marks, at least one; no free slot below \<open>insert_idx\<close>.
\<close>

definition addrs_ok :: "cfg \<Rightarrow> bool" where
  "addrs_ok c = (case m_mem_addrs c of None \<Rightarrow> True
     | Some xs \<Rightarrow> length xs = m_max_obj c + 1 \<and> m_insert_idx c < m_max_obj c \<and>
         1 \<in> set xs \<and> (\<forall>a \<in> set (dropWhile (\<lambda>a. a \<noteq> 1) xs). a = 1) \<and>
         (\<forall>j < m_insert_idx c. 1 < xs ! j))"

definition live :: "cfg \<Rightarrow> ptr multiset" where
  "live c = (case m_mem_addrs c of None \<Rightarrow> {#} | Some xs \<Rightarrow> mset (filter (\<lambda>a. 1 < a) xs))"

lemma all_one_replicate: "\<forall>a \<in> set xs. a = x \<Longrightarrow> xs = replicate (length xs) x"
  by (induction xs) auto

lemma addrs_shape:
  "addrs_ok c \<and> m_mem_addrs c = Some xs \<longleftrightarrow> m_mem_addrs c = Some xs \<and>
     (\<exists>p k. xs = p @ replicate (Suc k) 1 \<and> 1 \<notin> set p \<and> length p + k = m_max_obj c \<and>
        m_insert_idx c < m_max_obj c \<and> m_insert_idx c \<le> length p \<and>
        (\<forall>j < m_insert_idx c. 1 < p ! j))" (is "?l \<longleftrightarrow> ?r")
proof
  assume l: ?l
  let ?p = "takeWhile (\<lambda>a. a \<noteq> 1) xs" and ?d = "dropWhile (\<lambda>a. a \<noteq> 1) xs"
  from l have m: "m_mem_addrs c = Some xs" and ok: "addrs_ok c" by simp_all
  note ok = ok [unfolded addrs_ok_def m option.case]
  from ok have "\<forall>a \<in> set ?d. a = 1" by (elim conjE)
  then have d: "?d = replicate (length ?d) 1" by (rule all_one_replicate)
  from ok have "1 \<in> set xs" by (elim conjE)
  then have "?d \<noteq> []" by (simp add: dropWhile_eq_Nil_conv)
  then obtain k where k: "length ?d = Suc k" by (cases ?d) auto
  have p1: "1 \<notin> set ?p" by (auto dest: set_takeWhileD)
  have dk: "?d = replicate (Suc k) 1" by (subst d) (simp only: k)
  have xs': "xs = ?p @ replicate (Suc k) 1" 
    using takeWhile_dropWhile_id [of "\<lambda>a. a \<noteq> 1" xs] unfolding dk by (rule sym)
  have len: "length ?p + Suc k = length xs" using arg_cong [OF xs', of length] by simp
  have max: "length xs = m_max_obj c + 1" using ok by (elim conjE)
  have below: "\<forall>j < m_insert_idx c. 1 < xs ! j" using ok by (elim conjE)
  have ins: "m_insert_idx c \<le> length ?p"
  proof (rule ccontr)
    assume "\<not> m_insert_idx c \<le> length ?p"
    then have "1 < xs ! length ?p" using below by simp
    moreover have "xs ! length ?p = 1" using xs' by (metis length_replicate nth_append_length_plus
        add_0_right nth_replicate zero_less_Suc)
    ultimately show False by simp
  qed
  have "\<forall>j < m_insert_idx c. 1 < ?p ! j"
    using below ins by (simp add: takeWhile_nth)
  moreover have "m_insert_idx c < m_max_obj c" using ok by (elim conjE)
  moreover have "length ?p + k = m_max_obj c" using len max by simp
  ultimately show ?r using m p1 xs' ins by blast
next
  assume ?r
  then obtain p k where r: "m_mem_addrs c = Some xs" "xs = p @ replicate (Suc k) 1" "1 \<notin> set p"
    "length p + k = m_max_obj c" "m_insert_idx c < m_max_obj c" "m_insert_idx c \<le> length p"
    "\<forall>j < m_insert_idx c. 1 < p ! j" by blast
  have "dropWhile (\<lambda>a. a \<noteq> 1) xs = replicate (Suc k) 1"
    using r(2,3) by (simp add: dropWhile_append3 dropWhile_append)
  with r show ?l by (auto simp: addrs_ok_def nth_append)
qed

lemma word_le_1: "(a :: ptr) \<le> 1 \<longleftrightarrow> a = 0 \<or> a = 1"
proof -
  have "a \<le> 1 \<longleftrightarrow> unat a \<le> 1" by (simp add: word_le_nat_alt)
  also have "\<dots> \<longleftrightarrow> unat a = 0 \<or> unat a = 1" by linarith
  also have "\<dots> \<longleftrightarrow> a = 0 \<or> a = 1"
    by (metis unat_eq_0 unsigned_1 word_unat_eq_iff)
  finally show ?thesis .
qed

lemma filter_mset_update:
  assumes "j < length xs" "\<not> P (xs ! j)"
  shows "filter_mset P (mset (xs[j := a])) = filter_mset P {#a#} + filter_mset P (mset xs)"
  using assms by (simp add: mset_update)

text \<open>Storing with a free end mark left.\<close>

lemma store_slot_ok:
  assumes shape: "xs = p @ replicate (Suc k) 1" "1 \<notin> set p" "0 < k" "length p + k = m_max_obj c"
    "m_insert_idx c \<le> length p" "\<forall>j < m_insert_idx c. 1 < p ! j"
    and a: "a \<noteq> 1"
  shows "addrs_ok (store_slot a c xs)"
    "live (store_slot a c xs) = filter_mset (\<lambda>a. 1 < a) {#a#} + mset (filter (\<lambda>a. 1 < a) xs)"
proof -
  let ?i = "m_insert_idx c"
  obtain k' where k': "k = Suc k'" using shape(3) by (cases k) auto
  have "xs = (p @ replicate k 1) @ [1]" using shape(1) by (simp add: replicate_append_same)
  then have tk: "take (m_max_obj c) xs = p @ replicate k 1" using shape(4) by simp
  have dr: "drop ?i (take (m_max_obj c) xs) = drop ?i p @ replicate k 1"
    using shape(5) by (simp only: tk drop_append) simp
  have pos: "\<not> x \<le> 1 \<longleftrightarrow> 1 < x" for x :: ptr by auto
  show "addrs_ok (store_slot a c xs)"
    "live (store_slot a c xs) = filter_mset (\<lambda>a. 1 < a) {#a#} + mset (filter (\<lambda>a. 1 < a) xs)"
  proof (atomize (full), cases "index_first (\<lambda>a. a \<le> ADDR_INVAL) (drop ?i p)")
    case None
    then have "index_first (\<lambda>a. a \<le> ADDR_INVAL) (drop ?i p @ replicate k 1) = Some (length (drop ?i p))"
      using shape(3) by (cases k) (simp_all add: index_first_append ADDR_INVAL_def)
    then have st: "store_slot a c xs = c\<lparr>m_mem_addrs := Some (xs[length p := a]), m_insert_idx := length p\<rparr>"
      using shape(5) by (simp add: store_slot_def dr Let_def)
    have up: "xs[length p := a] = (p @ [a]) @ replicate (Suc k') 1"
      using shape(1) k' by (simp add: list_update_append)
    have gt: "\<forall>x \<in> set (drop ?i p). 1 < x" using None by (auto simp: index_first_None ADDR_INVAL_def)
    have all: "1 < p ! j" if "j < length p" for j
    proof (cases "j < ?i")
      case True
      with shape(6) show ?thesis by simp
    next
      case False
      with that have "p ! j = drop ?i p ! (j - ?i)" "j - ?i < length (drop ?i p)" by simp_all
      with gt show ?thesis by (metis nth_mem)
    qed
    have "addrs_ok (store_slot a c xs) \<and> m_mem_addrs (store_slot a c xs) = Some (xs[length p := a])"
      unfolding addrs_shape st up
      using shape all a k' by (auto intro!: exI [of _ "p @ [a]"] exI [of _ k'] simp: nth_append)
    moreover have "\<not> 1 < xs ! length p" "length p < length xs" using shape(1) by (simp_all add: nth_append)
    then have "live (store_slot a c xs) = filter_mset (\<lambda>a. 1 < a) {#a#} + mset (filter (\<lambda>a. 1 < a) xs)"
      using filter_mset_update [of "length p" xs "\<lambda>a. 1 < a" a] by (simp add: st live_def)
    ultimately show "addrs_ok (store_slot a c xs) \<and>
        live (store_slot a c xs) = filter_mset (\<lambda>a. 1 < a) {#a#} + mset (filter (\<lambda>a. 1 < a) xs)" by simp
  next
    case (Some m)
    note M = index_first_SomeD [OF Some]
    let ?j = "?i + m"
    have j: "?j < length p" "p ! ?j \<le> 1" using M shape(5) by (auto simp: ADDR_INVAL_def)
    have st: "store_slot a c xs = c\<lparr>m_mem_addrs := Some (xs[?j := a]), m_insert_idx := ?j\<rparr>"
      using Some by (simp add: store_slot_def dr index_first_append Let_def)
    have up: "xs[?j := a] = p[?j := a] @ replicate (Suc k) 1"
      using shape(1) j(1) by (simp add: list_update_append)
    have below: "1 < p ! l" if "l < ?j" for l
    proof (cases "l < ?i")
      case True
      with shape(6) show ?thesis by simp
    next
      case False
      then have "l - ?i < m" "drop ?i p ! (l - ?i) = p ! l" using that j(1) by simp_all
      with M show ?thesis by (auto simp: ADDR_INVAL_def)
    qed
    have "1 \<notin> set (p[?j := a])" using shape(2) a set_update_subset_insert [of p ?j a] by auto
    then have "addrs_ok (store_slot a c xs) \<and> m_mem_addrs (store_slot a c xs) = Some (xs[?j := a])"
      unfolding addrs_shape st up
      using shape below j by (auto intro!: exI [of _ "p[?j := a]"] exI [of _ k])
    moreover have "\<not> 1 < xs ! ?j" "?j < length xs" using shape(1) j by (simp_all add: nth_append)
    then have "live (store_slot a c xs) = filter_mset (\<lambda>a. 1 < a) {#a#} + mset (filter (\<lambda>a. 1 < a) xs)"
      using filter_mset_update [of ?j xs "\<lambda>a. 1 < a" a] by (simp add: st live_def)
    ultimately show "addrs_ok (store_slot a c xs) \<and>
        live (store_slot a c xs) = filter_mset (\<lambda>a. 1 < a) {#a#} + mset (filter (\<lambda>a. 1 < a) xs)" by simp
  qed
qed

lemma store_mem_addr_ok:
  assumes ok: "addrs_ok c" and m: "m_mem_addrs c = Some xs" and a: "a \<noteq> 1"
  shows "addrs_ok (store_mem_addr True a c)" "live (store_mem_addr True a c) = filter_mset (\<lambda>a. 1 < a) {#a#} + live c"
proof -
  obtain p k where sh: "xs = p @ replicate (Suc k) 1" "1 \<notin> set p" "length p + k = m_max_obj c"
    "m_insert_idx c < m_max_obj c" "m_insert_idx c \<le> length p" "\<forall>j < m_insert_idx c. 1 < p ! j"
    using ok m addrs_shape by blast
  have lv: "live c = mset (filter (\<lambda>a. 1 < a) xs)" using m by (simp add: live_def)
  show "addrs_ok (store_mem_addr True a c)" "live (store_mem_addr True a c) = filter_mset (\<lambda>a. 1 < a) {#a#} + live c"
  proof (atomize (full), cases k)
    case 0
    let ?c = "c\<lparr>m_max_obj := 2 * m_max_obj c\<rparr>"
    let ?ys = "take (m_max_obj c + 1) xs @ replicate (m_max_obj c) ADDR_INVAL"
    have "0 < length p" using sh(3,4) 0 by simp
    then have "p ! (length p - 1) \<noteq> 1" using sh(2) by (metis diff_less nth_mem zero_less_one)
    then have "xs ! (m_max_obj c - 1) \<noteq> ADDR_INVAL"
      using sh(1,3) 0 \<open>0 < length p\<close> by (simp add: ADDR_INVAL_def nth_append)
    then have st: "store_mem_addr True a c = store_slot a ?c ?ys"
      using m by (simp add: store_mem_addr_def)
    have ys: "?ys = p @ replicate (Suc (m_max_obj c)) 1"
      using sh(1,3) 0 by (simp add: ADDR_INVAL_def)
    have fl: "filter (\<lambda>a. 1 < a) ?ys = filter (\<lambda>a. 1 < a) xs"
      unfolding ys using sh(1) 0 by simp
    have "addrs_ok (store_slot a ?c ?ys) \<and>
        live (store_slot a ?c ?ys) = filter_mset (\<lambda>a. 1 < a) {#a#} + mset (filter (\<lambda>a. 1 < a) ?ys)"
      using store_slot_ok [OF ys sh(2), of ?c a] sh 0 a \<open>0 < length p\<close> by simp
    then show "addrs_ok (store_mem_addr True a c) \<and> live (store_mem_addr True a c) = filter_mset (\<lambda>a. 1 < a) {#a#} + live c"
      unfolding st lv fl .
  next
    case (Suc k')
    have "xs ! (m_max_obj c - 1) = ADDR_INVAL"
    proof -
      have "m_max_obj c - 1 = length p + k'" using sh(3) Suc by simp
      then show ?thesis using sh(1) Suc by (simp add: nth_append ADDR_INVAL_def nth_Cons')
    qed
    then have st: "store_mem_addr True a c = store_slot a c xs"
      using m by (simp add: store_mem_addr_def)
    show "addrs_ok (store_mem_addr True a c) \<and> live (store_mem_addr True a c) = filter_mset (\<lambda>a. 1 < a) {#a#} + live c"
      unfolding st lv using store_slot_ok [OF sh(1,2) _ sh(3,5,6) a] Suc by simp
  qed
qed

lemma tracked_at_iff:
  assumes ok: "addrs_ok c" and a: "1 < a"
  shows "tracked_at a c = None \<longleftrightarrow> a \<notin># live c"
proof (cases "m_mem_addrs c")
  case None
  then show ?thesis by (simp add: tracked_at_def live_def)
next
  case (Some xs)
  then obtain p k where sh: "xs = p @ replicate (Suc k) 1" "1 \<notin> set p" using ok addrs_shape by blast
  have "takeWhile (\<lambda>a. a \<noteq> 1) xs = p"
    using sh by (simp add: takeWhile_stop)
  then have "tracked_at a c = index_first (\<lambda>x. x = a) p"
    using Some by (simp add: tracked_at_def ADDR_INVAL_def)
  moreover have "a \<in># live c \<longleftrightarrow> a \<in> set p" using Some sh a by (auto simp: live_def)
  ultimately show ?thesis by (auto simp: index_first_None)
qed

lemma forget_at_ok:
  assumes ok: "addrs_ok c" and a: "1 < a" and j: "tracked_at a c = Some j"
  shows "addrs_ok (forget_at j c)" "live (forget_at j c) = live c - {#a#}" "a \<in># live c"
proof -
  obtain xs where m: "m_mem_addrs c = Some xs" using j by (cases "m_mem_addrs c") (auto simp: tracked_at_def)
  obtain p k where sh: "xs = p @ replicate (Suc k) 1" "1 \<notin> set p" "length p + k = m_max_obj c"
    "m_insert_idx c < m_max_obj c" "m_insert_idx c \<le> length p" "\<forall>j < m_insert_idx c. 1 < p ! j"
    using ok m addrs_shape by blast
  have "takeWhile (\<lambda>a. a \<noteq> 1) xs = p"
    using sh by (simp add: takeWhile_stop)
  then have "index_first (\<lambda>x. x = a) p = Some j" using j m by (simp add: tracked_at_def ADDR_INVAL_def)
  from index_first_SomeD [OF this] have jp: "j < length p" "p ! j = a" by simp_all
  have up: "xs[j := 0] = p[j := 0] @ replicate (Suc k) 1"
    using sh(1) jp(1) by (simp add: list_update_append)
  have f: "forget_at j c = c\<lparr>m_mem_addrs := Some (p[j := 0] @ replicate (Suc k) 1),
      m_insert_idx := (if j < m_insert_idx c then j else m_insert_idx c)\<rparr>"
    by (simp add: forget_at_def m up del: replicate.simps)
  have "1 \<notin> set (p[j := 0])" using sh(2) set_update_subset_insert [of p j 0] by auto
  then have "addrs_ok (forget_at j c) \<and>
      m_mem_addrs (forget_at j c) = Some (p[j := 0] @ replicate (Suc k) 1)"
    unfolding addrs_shape f using sh jp
    by (intro conjI exI [of _ "p[j := 0]"] exI [of _ k]) (simp_all del: replicate.simps)
  then show "addrs_ok (forget_at j c)" by simp
  have xsj: "xs ! j = a" "j < length xs" using sh(1) jp by (simp_all add: nth_append)
  then show "a \<in># live c" using m a by (auto simp: live_def)
  have "live (forget_at j c) = filter_mset (\<lambda>a. 1 < a) (mset (xs[j := 0]))"
    unfolding live_def f up by simp
  also have "\<dots> = filter_mset (\<lambda>a. 1 < a) (mset xs) - {#a#}"
    using xsj a by (simp add: mset_update filter_diff_mset)
  finally show "live (forget_at j c) = live c - {#a#}" using m by (simp add: live_def)
qed

text \<open>The tracker as long as \<open>realloc\<close> succeeds.\<close>

definition tracker_ok :: "cfg \<Rightarrow> bool" where
  "tracker_ok c \<longleftrightarrow> addrs_ok c \<and> m_mem_addrs c \<noteq> None"

lemma store_slot_some: "m_mem_addrs (store_slot a c xs) \<noteq> None"
  by (simp add: store_slot_def Let_def split: option.split)

lemma store_some: "m_mem_addrs c \<noteq> None \<Longrightarrow> m_mem_addrs (store_mem_addr True a c) \<noteq> None"
  using store_slot_some by (auto simp: store_mem_addr_def)

interpretation ltr: addr_tracker tracker_ok live "store_mem_addr True" tracked_at forget_at
proof
  fix t a j
  assume t: "tracker_ok t" and a: "1 < (a :: ptr)"
  then obtain xs where m: "m_mem_addrs t = Some xs" and ok: "addrs_ok t" by (auto simp: tracker_ok_def)
  have a1: "a \<noteq> 1" using a by auto
  show "tracker_ok (store_mem_addr True a t)"
    using store_mem_addr_ok(1) [OF ok m a1] store_some [of t a] m by (simp add: tracker_ok_def)
  show "live (store_mem_addr True a t) = add_mset a (live t)" 
    using store_mem_addr_ok(2) [OF ok m a1] a by simp
  show "(tracked_at a t = None) = (a \<notin># live t)" by (rule tracked_at_iff [OF ok a])
  assume j: "tracked_at a t = Some j"
  show "tracker_ok (forget_at j t)"
    using forget_at_ok(1) [OF ok a j] m by (simp add: tracker_ok_def forget_at_def)
  show "live (forget_at j t) = live t - {#a#}" by (rule forget_at_ok(2) [OF ok a j])
qed

subsection \<open>The messages agree with the tracked addresses\<close>

definition is_malloc_of :: "ptr \<Rightarrow> string \<Rightarrow> bool" where
  "is_malloc_of x t = is_prefix (''m'' @ pr_ptr x @ '';'') t"

definition is_free_of :: "ptr \<Rightarrow> string \<Rightarrow> bool" where
  "is_free_of x t \<longleftrightarrow> t = render (MFree x)"

definition sent :: "(string \<Rightarrow> bool) \<Rightarrow> memhack \<Rightarrow> nat" where
  "sent P h = length (filter P (h_out h))"

definition tracks :: "ptr \<Rightarrow> memhack \<Rightarrow> nat" where
  "tracks x h = sum_list (map (\<lambda>c. count (live c) x) (h_config h))"

lemma pr_ptr_inj:
  assumes "pr_ptr x @ CHR '';'' # r = pr_ptr y @ CHR '';'' # r'" shows "x = y"
proof -
  have "scan_ptr (pr_ptr x @ CHR '';'' # r) = Some (x, CHR '';'' # r)" by (simp add: scan_ptr_pr_ptr)
  moreover have "scan_ptr (pr_ptr y @ CHR '';'' # r') = Some (y, CHR '';'' # r')"
    by (simp add: scan_ptr_pr_ptr)
  ultimately have "Some (x, CHR '';'' # r) = Some (y, CHR '';'' # r')" by (simp only: assms)
  then show ?thesis by simp
qed

lemma is_malloc_of_render [simp]:
  "is_malloc_of x (render (MMalloc a n c)) \<longleftrightarrow> a = x" "\<not> is_malloc_of x (render (MFree a))"
  "\<not> is_malloc_of x (render (MStack a))" "\<not> is_malloc_of x (CHR ''l'' # t)"
  "\<not> is_malloc_of x ASLR_NOTIFY_STR"
proof -
  have "a = x" if "is_malloc_of x (render (MMalloc a n c))"
  proof -
    let ?r = "''s'' @ pr_ul n @ '';c'' @ pr_ptr c @ [NL]"
    have "take (length (pr_ptr x) + 1) (pr_ptr a @ CHR '';'' # ?r) = pr_ptr x @ '';''"
      using that by (simp add: is_malloc_of_def is_prefix_def render_def)
    then have "pr_ptr a @ CHR '';'' # ?r =
        pr_ptr x @ CHR '';'' # drop (length (pr_ptr x) + 1) (pr_ptr a @ CHR '';'' # ?r)"
      by (metis append.assoc append_Cons append_Nil append_take_drop_id)
    then show ?thesis by (rule pr_ptr_inj)
  qed
  then show "is_malloc_of x (render (MMalloc a n c)) \<longleftrightarrow> a = x"
    by (auto simp: is_malloc_of_def is_prefix_def render_def)
qed (simp_all add: is_malloc_of_def is_prefix_def render_def ASLR_NOTIFY_STR_def)

lemma is_free_of_render [simp]:
  "is_free_of x (render (MFree a)) \<longleftrightarrow> a = x" "\<not> is_free_of x (render (MMalloc a n c))"
  "\<not> is_free_of x (render (MStack a))" "\<not> is_free_of x (CHR ''l'' # t)"
  "\<not> is_free_of x ASLR_NOTIFY_STR"
proof -
  have "a = x" if "pr_ptr a @ [NL] = pr_ptr x @ [NL]"
    using that pr_ptr_inj [of a "[]" x "[]"] by simp
  then show "is_free_of x (render (MFree a)) \<longleftrightarrow> a = x" by (auto simp: is_free_of_def render_def)
qed (simp_all add: is_free_of_def render_def ASLR_NOTIFY_STR_def)

text \<open>
  The hooks in any order; \<open>strict\<close>: all \<open>write\<close> and \<open>realloc\<close> calls succeed. An allocation
  never returns the address 1.
\<close>

inductive hook_step :: "bool \<Rightarrow> ptr \<Rightarrow> memhack \<Rightarrow> memhack \<Rightarrow> bool" for strict stack_end where
  hs_malloc: "a \<noteq> 1 \<Longrightarrow> strict \<longrightarrow> he_write_ok e \<and> he_mem_ok e \<Longrightarrow>
     postprocess_malloc e stack_end n a h = Some h' \<Longrightarrow> hook_step strict stack_end h h'"
| hs_free: "strict \<longrightarrow> ok \<Longrightarrow> hook_step strict stack_end h (preprocess_free ok a h)"
| hs_dlopen: "postprocess_dlopen path replies h = Some h' \<Longrightarrow> hook_step strict stack_end h h'"

inductive_cases hook_stepE: "hook_step strict stack_end h h'"

definition hack_inv :: "bool \<Rightarrow> memhack \<Rightarrow> bool" where
  "hack_inv strict h \<longleftrightarrow>
     (\<forall>c \<in> set (h_config h). addrs_ok c \<and> (strict \<longrightarrow> m_mem_addrs c \<noteq> None)) \<and>
     (\<forall>x > 1. sent (is_free_of x) h + tracks x h \<le> sent (is_malloc_of x) h \<and>
        (strict \<longrightarrow> sent (is_free_of x) h + tracks x h = sent (is_malloc_of x) h))"

lemma tracks_update:
  "i < length (h_config h) \<Longrightarrow>
     tracks x (h\<lparr>h_config := (h_config h)[i := c], h_out := out\<rparr>) + count (live (h_config h ! i)) x =
     tracks x h + count (live c) x"
  unfolding tracks_def using sum_list_map_update [of i "h_config h" "\<lambda>c. count (live c) x" c] by simp

lemma find_cfg_lt: "find_cfg e se gbt n cs = Some (Some (i, a)) \<Longrightarrow> i < length cs"
  by (induction cs arbitrary: i) (auto split: option.splits if_splits simp: apfst_def map_prod_def)

lemma find_tracked_Some:
  "find_tracked a cs = Some (i, j) \<Longrightarrow> i < length cs \<and> tracked_at a (cs ! i) = Some j"
  by (induction cs arbitrary: i) (auto split: option.splits simp: apfst_def map_prod_def)

lemma tracked_not_1: "tracked_at 1 c = None"
  by (auto simp: tracked_at_def ADDR_INVAL_def index_first_None split: option.split dest: set_takeWhileD)

text \<open>Storing with and without memory.\<close>

lemma store_any:
  assumes "addrs_ok c" "a \<noteq> 1"
  shows "addrs_ok (store_mem_addr mem_ok a c)"
    "1 < x \<Longrightarrow> count (live (store_mem_addr mem_ok a c)) x \<le> count (live c) x + (if x = a then 1 else 0)"
    "mem_ok \<Longrightarrow> m_mem_addrs c \<noteq> None \<Longrightarrow> 1 < x \<Longrightarrow> m_mem_addrs (store_mem_addr mem_ok a c) \<noteq> None \<and>
      count (live (store_mem_addr mem_ok a c)) x = count (live c) x + (if x = a then 1 else 0)"
proof -
  have yes: "addrs_ok (store_mem_addr True a c) \<and> m_mem_addrs (store_mem_addr True a c) \<noteq> None \<and>
      (1 < x \<longrightarrow> count (live (store_mem_addr True a c)) x = count (live c) x + (if x = a then 1 else 0))"
    if some: "m_mem_addrs c \<noteq> None" for x
  proof -
    obtain xs where m: "m_mem_addrs c = Some xs" using \<open>m_mem_addrs c \<noteq> None\<close> by auto
    show ?thesis using store_mem_addr_ok [OF assms(1) m assms(2)] store_some [OF some] by simp
  qed
  have alt: "store_mem_addr mem_ok a c = store_mem_addr True a c \<and> m_mem_addrs c \<noteq> None \<or>
      m_mem_addrs (store_mem_addr mem_ok a c) = None"
    by (cases mem_ok) (simp_all add: store_mem_addr_def split: option.split)
  have dead: "addrs_ok d \<and> live d = {#}" if "m_mem_addrs d = None" for d
    using that by (simp add: addrs_ok_def live_def)
  show "addrs_ok (store_mem_addr mem_ok a c)" using alt yes dead by metis
  show "count (live (store_mem_addr mem_ok a c)) x \<le> count (live c) x + (if x = a then 1 else 0)" if x: "1 < x"
    using alt
  proof
    assume "store_mem_addr mem_ok a c = store_mem_addr True a c \<and> m_mem_addrs c \<noteq> None"
    with yes [of x] x show ?thesis by simp
  qed (use dead in simp)
  show "m_mem_addrs (store_mem_addr mem_ok a c) \<noteq> None \<and>
      count (live (store_mem_addr mem_ok a c)) x = count (live c) x + (if x = a then 1 else 0)"
    if "mem_ok" "m_mem_addrs c \<noteq> None" "1 < x" using yes [of x] that by simp
qed

lemma hack_inv_malloc:
  assumes inv: "hack_inv strict h" and a: "a \<noteq> 1" and st: "strict \<longrightarrow> he_write_ok e \<and> he_mem_ok e"
    and h': "postprocess_malloc e se n a h = Some h'"
  shows "hack_inv strict h'"
proof -
  consider "h' = h" | i code where "i < length (h_config h)"
    "h' = h\<lparr>h_config := (h_config h)[i := store_mem_addr (he_mem_ok e) a (h_config h ! i)],
       h_out := h_out h @ [render (MMalloc a n code)]\<rparr>"
  proof (cases "h' = h")
    case False
    then obtain i code where f: "find_cfg e se (h_use_gbt h) n (h_config h) = Some (Some (i, code))"
      "he_write_ok e" using h' by (auto simp: postprocess_malloc_def split: if_splits option.splits)
    have act: "h_active h"
      using h' False by (cases "h_active h") (simp_all add: postprocess_malloc_def)
    from f act h' have "h' = h\<lparr>h_config := (h_config h)[i := store_mem_addr (he_mem_ok e) a (h_config h ! i)],
       h_out := h_out h @ [render (MMalloc a n code)]\<rparr>"
      by (simp add: postprocess_malloc_def)
    with find_cfg_lt [OF f(1)] that(2) show ?thesis by blast
  qed (use that(1) in blast)
  then show ?thesis
  proof cases
    case 1
    with inv show ?thesis by simp
  next
    case 2
    let ?c = "h_config h ! i" and ?c' = "store_mem_addr (he_mem_ok e) a (h_config h ! i)"
    have ok: "addrs_ok ?c" "strict \<longrightarrow> m_mem_addrs ?c \<noteq> None" using inv 2(1) by (simp_all add: hack_inv_def)
    note S = store_any [OF ok(1) a, where mem_ok = "he_mem_ok e"]
    have cfgs: "\<forall>c \<in> set (h_config h'). addrs_ok c \<and> (strict \<longrightarrow> m_mem_addrs c \<noteq> None)"
    proof
      fix c
      assume "c \<in> set (h_config h')"
      then have "c = ?c' \<or> c \<in> set (h_config h)"
        using 2(2) set_update_subset_insert [of "h_config h" i ?c'] by auto
      moreover have "addrs_ok ?c' \<and> (strict \<longrightarrow> m_mem_addrs ?c' \<noteq> None)"
        using S(1) S(3) [where x = 2] ok(2) st by auto
      ultimately show "addrs_ok c \<and> (strict \<longrightarrow> m_mem_addrs c \<noteq> None)"
        using inv by (auto simp: hack_inv_def)
    qed
    have "sent (is_free_of x) h' + tracks x h' \<le> sent (is_malloc_of x) h' \<and>
        (strict \<longrightarrow> sent (is_free_of x) h' + tracks x h' = sent (is_malloc_of x) h')" if x: "1 < x" for x
    proof -
      have t: "tracks x h' + count (live ?c) x = tracks x h + count (live ?c') x"
        unfolding 2(2) by (rule tracks_update [OF 2(1)])
      have s: "sent (is_free_of x) h' = sent (is_free_of x) h"
        "sent (is_malloc_of x) h' = sent (is_malloc_of x) h + (if x = a then 1 else 0)"
        by (simp_all add: sent_def 2(2))
      have "sent (is_free_of x) h + tracks x h \<le> sent (is_malloc_of x) h"
        "strict \<longrightarrow> sent (is_free_of x) h + tracks x h = sent (is_malloc_of x) h"
        using inv x by (simp_all add: hack_inv_def)
      with t s S(2) [OF x] S(3) [OF _ _ x] ok(2) st show ?thesis by (cases strict) auto
    qed
    with cfgs show ?thesis by (simp add: hack_inv_def)
  qed
qed

lemma hack_inv_free:
  assumes inv: "hack_inv strict h" and st: "strict \<longrightarrow> ok"
  shows "hack_inv strict (preprocess_free ok a h)"
proof (cases "find_tracked a (h_config h)")
  case None
  with inv show ?thesis by (simp add: preprocess_free_def)
next
  case (Some ij)
  then obtain i j where ij: "find_tracked a (h_config h) = Some (i, j)" by (cases ij) auto
  show ?thesis
  proof (cases "\<not> h_active h \<or> a = 0")
    case True
    with inv show ?thesis by (simp add: preprocess_free_def)
  next
    case False
    let ?c = "h_config h ! i" and ?h = "preprocess_free ok a h"
    have i: "i < length (h_config h)" "tracked_at a ?c = Some j" using find_tracked_Some [OF ij] by simp_all
    have a: "1 < a" using False i(2) tracked_not_1 word_le_1 [of a] by (metis option.distinct(1) not_le)
    have okc: "addrs_ok ?c" "strict \<longrightarrow> m_mem_addrs ?c \<noteq> None" using inv i(1) by (simp_all add: hack_inv_def)
    note F = forget_at_ok [OF okc(1) a i(2)]
    have h': "?h = h\<lparr>h_config := (h_config h)[i := forget_at j ?c],
        h_out := h_out h @ (if ok then [render (MFree a)] else [])\<rparr>"
      using False ij by (simp add: preprocess_free_def)
    have cfgs: "\<forall>c \<in> set (h_config ?h). addrs_ok c \<and> (strict \<longrightarrow> m_mem_addrs c \<noteq> None)"
    proof
      fix c
      assume "c \<in> set (h_config ?h)"
      then have "c = forget_at j ?c \<or> c \<in> set (h_config h)"
        using h' set_update_subset_insert [of "h_config h" i "forget_at j ?c"] by auto
      then show "addrs_ok c \<and> (strict \<longrightarrow> m_mem_addrs c \<noteq> None)"
        using inv F(1) okc(2) by (auto simp: hack_inv_def forget_at_def)
    qed
    have "sent (is_free_of x) ?h + tracks x ?h \<le> sent (is_malloc_of x) ?h \<and>
        (strict \<longrightarrow> sent (is_free_of x) ?h + tracks x ?h = sent (is_malloc_of x) ?h)" if x: "1 < x" for x
    proof -
      have "tracks x ?h + count (live ?c) x = tracks x h + count (live (forget_at j ?c)) x"
        unfolding h' by (rule tracks_update [OF i(1)])
      moreover have "count (live (forget_at j ?c)) x + (if x = a then 1 else 0) = count (live ?c) x"
        using F(2,3) by (auto simp: Suc_diff_le count_greater_zero_iff [symmetric] simp del: count_greater_zero_iff)
      ultimately have t: "tracks x ?h + (if x = a then 1 else 0) = tracks x h" by linarith
      have s: "sent (is_free_of x) ?h = sent (is_free_of x) h + (if ok \<and> x = a then 1 else 0)"
        "sent (is_malloc_of x) ?h = sent (is_malloc_of x) h"
        by (simp_all add: sent_def h')
      have "sent (is_free_of x) h + tracks x h \<le> sent (is_malloc_of x) h"
        "strict \<longrightarrow> sent (is_free_of x) h + tracks x h = sent (is_malloc_of x) h"
        using inv x by (simp_all add: hack_inv_def)
      with t s st show ?thesis by (auto split: if_splits)
    qed
    with cfgs show ?thesis by (simp add: hack_inv_def)
  qed
qed

text \<open>Loading a library only sends its name and changes code addresses.\<close>

definition track_of :: "cfg \<Rightarrow> ptr list option \<times> nat \<times> nat" where
  "track_of c = (m_mem_addrs c, m_max_obj c, m_insert_idx c)"

definition only_libs :: "memhack \<Rightarrow> memhack \<Rightarrow> bool" where
  "only_libs h h' \<longleftrightarrow> map track_of (h_config h') = map track_of (h_config h) \<and>
     (\<exists>ts. h_out h' = h_out h @ ts \<and> (\<forall>t \<in> set ts. \<exists>u. t = CHR ''l'' # u))"

lemma only_libs_refl [simp]: "only_libs h h"
  by (simp add: only_libs_def)

lemma only_libs_trans: "only_libs h h' \<Longrightarrow> only_libs h' h'' \<Longrightarrow> only_libs h h''"
  unfolding only_libs_def by (metis (no_types, opaque_lifting) append.assoc Un_iff set_append)

lemma track_of_live: "track_of c = track_of d \<Longrightarrow> live c = live d \<and> addrs_ok c = addrs_ok d \<and>
    m_mem_addrs c = m_mem_addrs d"
  by (simp add: track_of_def live_def addrs_ok_def split: option.split)

lemma only_libs_inv:
  assumes ol: "only_libs h h'" and inv: "hack_inv strict h" shows "hack_inv strict h'"
proof -
  from ol obtain ts where out: "h_out h' = h_out h @ ts" "\<forall>t \<in> set ts. \<exists>u. t = CHR ''l'' # u"
    and m: "map track_of (h_config h') = map track_of (h_config h)" by (auto simp: only_libs_def)
  have len: "length (h_config h') = length (h_config h)" using m by (metis length_map)
  have tr: "track_of (h_config h' ! i) = track_of (h_config h ! i)" if "i < length (h_config h)" for i
    using m that len by (metis nth_map)
  have cfgs: "\<forall>c \<in> set (h_config h'). addrs_ok c \<and> (strict \<longrightarrow> m_mem_addrs c \<noteq> None)"
  proof
    fix c
    assume "c \<in> set (h_config h')"
    then obtain i where i: "i < length (h_config h)" "c = h_config h' ! i"
      using len by (auto simp: in_set_conv_nth)
    then have "h_config h ! i \<in> set (h_config h)" by simp
    with inv have "addrs_ok (h_config h ! i) \<and> (strict \<longrightarrow> m_mem_addrs (h_config h ! i) \<noteq> None)"
      unfolding hack_inv_def by blast
    with track_of_live [OF tr [OF i(1)]] i(2) show "addrs_ok c \<and> (strict \<longrightarrow> m_mem_addrs c \<noteq> None)"
      by simp
  qed
  have ls: "filter (is_free_of x) ts = []" "filter (is_malloc_of x) ts = []" for x
    using out(2) by (force simp: filter_empty_conv)+
  have t: "tracks x h' = tracks x h" for x
  proof -
    have "map (\<lambda>c. count (live c) x) (h_config h') = map (\<lambda>c. count (live c) x) (h_config h)"
    proof (rule nth_equalityI)
      fix i
      assume "i < length (map (\<lambda>c. count (live c) x) (h_config h'))"
      then have i: "i < length (h_config h)" using len by simp
      from track_of_live [OF tr [OF i]] i len
      show "map (\<lambda>c. count (live c) x) (h_config h') ! i = map (\<lambda>c. count (live c) x) (h_config h) ! i"
        by simp
    qed (simp add: len)
    then show ?thesis by (simp add: tracks_def)
  qed
  have "sent (is_free_of x) h' = sent (is_free_of x) h" "sent (is_malloc_of x) h' = sent (is_malloc_of x) h" for x
    using ls by (simp_all add: sent_def out(1))
  with t cfgs inv show ?thesis by (simp add: hack_inv_def)
qed

lemma only_libs_upd:
  assumes "\<And>c. track_of (f c) = track_of c" shows "only_libs h (upd_cfg_at i f h)"
proof -
  have "map track_of ((h_config h)[i := f (h_config h ! i)]) = map track_of (h_config h)"
  proof (rule nth_equalityI)
    fix k
    assume "k < length (map track_of ((h_config h)[i := f (h_config h ! i)]))"
    then show "map track_of ((h_config h)[i := f (h_config h ! i)]) ! k = map track_of (h_config h) ! k"
      by (cases "k = i") (simp_all add: assms)
  qed simp
  then show ?thesis by (simp add: only_libs_def upd_cfg_at_def)
qed

lemma only_libs_send: "send_lib_name name h = Some h' \<Longrightarrow> only_libs h h'"
  by (auto simp: send_lib_name_def only_libs_def render_def BUF_SIZE_def split: if_splits)

lemma only_libs_load:
  "get_lib_load_addr_hk name (h, a, rs) = Some (Inl (h', r)) \<Longrightarrow> only_libs h h'"
  "get_lib_load_addr_hk name (h, a, rs) = Some (Inr (h', r)) \<Longrightarrow> only_libs h h'"
  by (auto simp: get_lib_load_addr_hk_def bind_eq_Some_conv split: if_splits option.splits dest: only_libs_send)

lemma only_libs_part:
  assumes "\<And>a h. only_libs h (upd a h)" "dl_part name lib upd st = Some r"
  shows "only_libs (fst st) (fst (case r of Inl s \<Rightarrow> s | Inr s \<Rightarrow> s))"
proof -
  obtain h a rs where st: "st = (h, a, rs)" by (cases st) auto
  show ?thesis
    using assms(2) unfolding dl_part_def st
    by (auto simp: assms(1) split: option.splits if_splits sum.splits dest!: only_libs_load
        intro: only_libs_trans [OF _ assms(1)])
qed

lemma only_libs_loop: "dl_loop name is st = Some st' \<Longrightarrow> only_libs (fst st) (fst st')"
proof (induction "is" arbitrary: st)
  case (Cons i "is")
  have u: "only_libs h (upd_cfg_at i (set_code a) h)" "only_libs h (upd_cfg_at i (set_grow_code a) h)" for a h
    by (rule only_libs_upd, simp add: track_of_def set_code_def set_grow_code_def)+
  let ?p1 = "dl_part name (m_lib (h_config (fst st) ! i)) (\<lambda>a. upd_cfg_at i (set_code a)) st"
  obtain r1 where r1: "?p1 = Some r1" using Cons.prems by (cases ?p1) auto
  note o1 = only_libs_part [OF u(1) r1]
  show ?case
  proof (cases r1)
    case (Inl s)
    with Cons.prems r1 o1 show ?thesis by simp
  next
    case (Inr s)
    let ?p2 = "dl_part name (Option.bind (m_grow (h_config (fst s) ! i)) r_lib) (\<lambda>a. upd_cfg_at i (set_grow_code a)) s"
    obtain r2 where r2: "?p2 = Some r2" using Cons.prems r1 Inr by (cases ?p2) auto
    note o2 = only_libs_part [OF u(2) r2]
    show ?thesis
    proof (cases r2)
      case (Inl s2)
      with Cons.prems r1 r2 \<open>r1 = Inr s\<close> o1 o2 show ?thesis by (auto intro: only_libs_trans)
    next
      case (Inr s2)
      with Cons.prems r1 r2 \<open>r1 = Inr s\<close> have "dl_loop name is s2 = Some st'" by simp
      from Cons.IH [OF this] o1 o2 \<open>r1 = Inr s\<close> Inr show ?thesis by (auto intro: only_libs_trans)
    qed
  qed
qed simp

lemma hook_step_inv: "hook_step strict se h h' \<Longrightarrow> hack_inv strict h \<Longrightarrow> hack_inv strict h'"
proof (induction rule: hook_step.induct)
  case (hs_malloc a e n h h')
  then show ?case by (blast intro: hack_inv_malloc)
next
  case (hs_free ok h a)
  then show ?case by (blast intro: hack_inv_free)
next
  case (hs_dlopen path replies h h')
  then have "only_libs h h'" using only_libs_loop [of _ _ "(h, 0, replies)"]
    by (auto simp: postprocess_dlopen_def Let_def split: if_splits)
  with hs_dlopen(2) show ?case by (blast intro: only_libs_inv)
qed

text \<open>\<open>memhack_init\<close> sets up empty arrays.\<close>

definition fresh :: "cfg \<Rightarrow> bool" where
  "fresh c \<longleftrightarrow> track_of c = (Some [1, 1], 1, 0)"

lemma parse_cfg_fresh: "parse_cfg s = Some (c, r) \<Longrightarrow> fresh c"
proof -
  assume p: "parse_cfg s = Some (c, r)"
  obtain x1 x2 where x: "SET_CODE_LIB ((SET_IBUF_START ^^ 3) s) = (x1, x2)" by fastforce
  obtain y1 y2 where y: "SET_CODE_LIB ((SET_IBUF_START ^^ 5) (SET_IBUF_START x1)) = (y1, y2)" by fastforce
  from p show ?thesis
    by (cases "is_prefix ''grow;'' x1")
      (auto simp: parse_cfg_def fresh_def track_of_def ADDR_INVAL_def bind_eq_Some_conv Let_def x y
        simp del: funpow.simps)
qed

lemma parse_cfgs_fresh: "parse_cfgs n s = Some cs \<Longrightarrow> \<forall>c \<in> set cs. fresh c"
  by (induction n arbitrary: s cs) (auto simp: bind_eq_Some_conv dest: parse_cfg_fresh)

lemma fresh_upd [simp]:
  "fresh (c\<lparr>m_code_addr := a\<rparr>) = fresh c" "fresh (c\<lparr>m_grow := g\<rparr>) = fresh c"
  by (simp_all add: fresh_def track_of_def)

lemma early_pic_fresh: "\<forall>c \<in> set cs. fresh c \<Longrightarrow> \<forall>c \<in> set (early_pic cs s). fresh c"
proof (induction cs arbitrary: s)
  case (Cons c cs)
  obtain o1 s1 where o1: "read_offs s = (o1, s1)" by fastforce
  obtain o2 s2 where o2: "read_offs s1 = (o2, s2)" by fastforce
  show ?case using Cons by (cases "m_grow c") (simp_all add: Let_def o1 o2)
qed simp

lemma fresh_ok: "fresh c \<Longrightarrow> addrs_ok c \<and> m_mem_addrs c \<noteq> None \<and> live c = {#}"
  by (simp add: fresh_def track_of_def addrs_ok_def live_def)

lemma init_nothing_sent:
  "sent (is_free_of x) (memhack_init expected name se in1 in2 memhack_start) = 0"
  "sent (is_malloc_of x) (memhack_init expected name se in1 in2 memhack_start) = 0"
proof -
  let ?h = "memhack_init expected name se in1 in2 memhack_start"
  have "h_out ?h = [] \<or> h_out ?h = [ASLR_NOTIFY_STR, render (MStack se)]"
    by (auto simp: memhack_init_def memhack_start_def Let_def split: option.splits)
  then show "sent (is_free_of x) ?h = 0" "sent (is_malloc_of x) ?h = 0" by (auto simp: sent_def)
qed

lemma hack_inv_init: "hack_inv strict (memhack_init expected name se in1 in2 memhack_start)"
proof -
  let ?h = "memhack_init expected name se in1 in2 memhack_start"
  have "h_config ?h = [] \<or> (\<exists>n s cs. parse_cfgs n s = Some cs \<and>
      (h_config ?h = cs \<or> (\<exists>s'. h_config ?h = early_pic cs s')))"
    by (simp add: memhack_init_def memhack_start_def Let_def del: parse_cfgs.simps split: option.split)
      blast
  then have "\<forall>c \<in> set (h_config ?h). fresh c" using parse_cfgs_fresh early_pic_fresh
    by (metis empty_iff list.set(1))
  then have f: "\<forall>c \<in> set (h_config ?h). addrs_ok c \<and> m_mem_addrs c \<noteq> None \<and> live c = {#}"
    using fresh_ok by blast
  then have "tracks x ?h = 0" for x by (simp add: tracks_def)
  with init_nothing_sent f show ?thesis by (simp add: hack_inv_def)
qed

lemma hack_inv_reach:
  "(hook_step strict se)\<^sup>*\<^sup>* (memhack_init expected name se in1 in2 memhack_start) h \<Longrightarrow> hack_inv strict h"
proof (induction rule: rtranclp_induct)
  case base
  show ?case by (rule hack_inv_init)
next
  case (step y z)
  then show ?case by (blast intro: hook_step_inv)
qed

end
