(* ===== verification/MapsInv.thy ===== *)
theory MapsInv
  imports Maps
begin

text \<open>
  Correctness of the region scan: every wanted map becomes one region, in order and with
  consecutive ids; the regions of one ELF file get its type and its load address; printed map
  lines and stat lines parse back.
\<close>

subsection \<open>The list of regions\<close>

definition region_of :: "region_map \<Rightarrow> 64 word \<times> 64 word \<times> string" where
  "region_of m = (rm_start m, rm_end m - rm_start m, rm_file_path m)"

definition span :: "region \<Rightarrow> 64 word \<times> 64 word \<times> string" where
  "span r = (rg_start r, rg_size r, rg_file_path r)"

abbreviation scan_maps where "scan_maps exe_path \<equiv> fold (process_map exe_path)"

lemma scan_maps_regions:
  "scan_maps exe_path ms (s, rl) = (s', rl') \<Longrightarrow>
     map rg_id rl = map of_nat [0..<length rl] \<Longrightarrow>
     map span rl' = map span rl @ map region_of (filter wanted ms) \<and>
     map rg_id rl' = map of_nat [0..<length rl']"
proof (induction ms arbitrary: s rl)
  case (Cons m ms)
  obtain s1 rl1 where p: "process_map exe_path m (s, rl) = (s1, rl1)" by fastforce
  have id: "rg_id (last rl) = of_nat (length rl - 1)" if "rl \<noteq> []"
  proof -
    have "rg_id (last rl) = map rg_id rl ! (length rl - 1)" using that by (simp add: last_conv_nth)
    also have "\<dots> = of_nat (length rl - 1)" using that Cons.prems(2) by simp
    finally show ?thesis .
  qed
  have "map span rl1 = map span rl @ map region_of (filter wanted [m])"
    using p by (auto simp: process_map_def Let_def new_region_def span_def region_of_def split: if_splits)
  moreover have "map rg_id rl1 = map of_nat [0..<length rl1]"
  proof (cases "wanted m")
    case True
    have "(if rl = [] then 0 else rg_id (last rl) + 1) = of_nat (length rl)"
      using id by (cases rl) simp_all
    then show ?thesis using p True Cons.prems(2) by (auto simp: process_map_def Let_def new_region_def)
  next
    case False
    then show ?thesis using p Cons.prems(2) by (auto simp: process_map_def Let_def)
  qed
  moreover have "scan_maps exe_path ms (s1, rl1) = (s', rl')" using Cons.prems(1) p by simp
  ultimately show ?case using Cons.IH [of s1 rl1] by simp
qed simp

primrec parse_all :: "string list \<Rightarrow> region_map list option" where
  "parse_all [] = Some []"
| "parse_all (l # ls) = do { m \<leftarrow> parse_map_line l; ms \<leftarrow> parse_all ls; Some (m # ms) }"

lemma read_lines_all:
  "parse_all ls = Some ms \<Longrightarrow> read_lines (\<lambda>m a. (0, f m a)) ls a = (0, fold f ms a)"
  by (induction ls arbitrary: ms a) (auto simp: bind_eq_Some_conv)

lemma read_lines_fail:
  "parse_all ls = None \<Longrightarrow> fst (read_lines (\<lambda>m a. (0, f m a)) ls a) = - 1"
  by (induction ls arbitrary: a) (auto simp: bind_eq_None_conv split: option.splits)

lemma read_regions_eq:
  "snd (read_regions exe_path (Some txt) st) = (case parse_all (lines txt) of
     None \<Rightarrow> [] | Some ms \<Rightarrow> snd (scan_maps exe_path ms (fst st, [])))"
proof (cases "parse_all (lines txt)")
  case None
  from read_lines_fail [OF this, of "process_map exe_path" "(fst st, [])"]
  show ?thesis using None by (auto simp: read_regions_def read_maps_def split: prod.split)
next
  case (Some ms)
  from read_lines_all [OF this, of "process_map exe_path" "(fst st, [])"]
  show ?thesis using Some by (simp add: read_regions_def read_maps_def split: prod.split)
qed

subsection \<open>ELF files\<close>

definition ms_inv :: "map_state \<Rightarrow> bool" where
  "ms_inv s \<longleftrightarrow> (ms_code_regions s = 0 \<longrightarrow> \<not> ms_is_exe s) \<and>
     (\<not> ms_is_exe s \<longrightarrow> ms_exe_regions s \<le> 1) \<and> (ms_is_exe s \<longrightarrow> 1 \<le> ms_exe_regions s)"

lemma ms_inv_init: "ms_inv map_state_init"
  by (simp add: ms_inv_def map_state_init_def)

lemma ms_inv_step: "ms_inv s \<Longrightarrow> ms_inv (map_step exe_path m s)"
  by (auto simp: ms_inv_def map_step_def detect_end_def detect_first_def Let_def)

lemma ms_inv_scan: "ms_inv s \<Longrightarrow> ms_inv (fst (scan_maps exe_path ms (s, rl)))"
proof (induction ms arbitrary: s rl)
  case (Cons m ms)
  then show ?case by (simp add: process_map_def Let_def ms_inv_step)
qed simp

lemma same_path_copy: "length p < MAPS_MAX_PATH \<Longrightarrow> same_path q (copy_path p) \<longleftrightarrow> same_path q p"
  by (simp add: copy_path_def MAPS_MAX_PATH_def)

lemma same_path_refl [simp]: "same_path p p"
  by (simp add: same_path_def strncmp_eq_def)

text \<open>Inside an ELF file with the load address \<open>L\<close> and the path \<open>p\<close>, after \<open>k\<close> regions.\<close>

definition in_elf :: "bool \<Rightarrow> string \<Rightarrow> 64 word \<Rightarrow> nat \<Rightarrow> map_state \<Rightarrow> bool" where
  "in_elf exe p L k s \<longleftrightarrow> ms_code_regions s = k \<and> 0 < k \<and> ms_code_path s = copy_path p \<and>
     ms_load_addr s = L \<and> ms_is_exe s = exe"

lemma elf_text:
  assumes "ms_inv s" "rm_exec m = CHR ''x''" "rm_file_path m = p" "p \<noteq> []"
  shows "in_elf (same_path p exe_path) p (rm_start m) 1 (map_step exe_path m s)"
  using assms by (auto simp: ms_inv_def in_elf_def map_step_def detect_end_def detect_first_def Let_def)

text \<open>A further region: same path, or the \<open>.bss\<close> region without a path behind the last one.\<close>

definition follows :: "string \<Rightarrow> region_map \<Rightarrow> 64 word \<Rightarrow> bool" where
  "follows p m prev_end \<longleftrightarrow> rm_exec m \<noteq> CHR ''x'' \<and>
     (rm_file_path m = p \<or> rm_file_path m = [] \<and> rm_start m = prev_end)"

lemma elf_follow:
  assumes "in_elf exe p L k s" "k < 4" "follows p m (ms_prev_end s)" "length p < MAPS_MAX_PATH"
  shows "in_elf exe p L (Suc k) (map_step exe_path m s)"
  using assms same_path_copy [of p p]
  by (auto simp: in_elf_def follows_def map_step_def detect_end_def detect_first_def Let_def)

fun all_follow :: "string \<Rightarrow> 64 word \<Rightarrow> region_map list \<Rightarrow> bool" where
  "all_follow p e [] = True"
| "all_follow p e (m # ms) = (follows p m e \<and> all_follow p (rm_end m) ms)"

definition elf_region :: "bool \<Rightarrow> 64 word \<Rightarrow> region \<Rightarrow> bool" where
  "elf_region exe L r \<longleftrightarrow> rg_type r = (if exe then REGION_TYPE_EXE else REGION_TYPE_CODE) \<and>
     rg_load_addr r = L"

lemma in_elf_region: "in_elf exe p L k s \<Longrightarrow> elf_region exe L (new_region m s i)"
  by (simp add: in_elf_def elf_region_def new_region_def type_of_def)

lemma map_step_prev [simp]: "ms_prev_end (map_step exe_path m s) = rm_end m"
  by (simp add: map_step_def)

lemma elf_followers:
  "in_elf exe p L k s \<Longrightarrow> k + length ms \<le> 4 \<Longrightarrow> all_follow p (ms_prev_end s) ms \<Longrightarrow>
   length p < MAPS_MAX_PATH \<Longrightarrow>
   \<exists>rs. snd (scan_maps exe_path ms (s, rl)) = rl @ rs \<and> (\<forall>r \<in> set rs. elf_region exe L r)"
proof (induction ms arbitrary: s rl k)
  case (Cons m ms)
  let ?s = "map_step exe_path m s"
  have e: "in_elf exe p L (Suc k) ?s" using Cons.prems by (intro elf_follow) simp_all
  obtain i where p: "process_map exe_path m (s, rl) =
      (?s, if wanted m then rl @ [new_region m ?s i] else rl)"
    by (simp add: process_map_def Let_def)
  obtain rs where "snd (scan_maps exe_path ms (?s, if wanted m then rl @ [new_region m ?s i] else rl)) =
      (if wanted m then rl @ [new_region m ?s i] else rl) @ rs" "\<forall>r \<in> set rs. elf_region exe L r"
    using Cons.IH [OF e] Cons.prems by fastforce
  with p in_elf_region [OF e] show ?case
    by (intro exI [of _ "(if wanted m then [new_region m ?s i] else []) @ rs"]) auto
qed simp

lemma elf_block:
  assumes inv: "ms_inv s" and tx: "rm_exec m = CHR ''x''" "rm_file_path m \<noteq> []"
    "length (rm_file_path m) < MAPS_MAX_PATH"
    and ms: "length ms \<le> 3" "all_follow (rm_file_path m) (rm_end m) ms"
  shows "\<exists>rs. snd (scan_maps exe_path (m # ms) (s, rl)) = rl @ rs \<and>
    (\<forall>r \<in> set rs. elf_region (same_path (rm_file_path m) exe_path) (rm_start m) r)"
proof -
  let ?s = "map_step exe_path m s"
  have e: "in_elf (same_path (rm_file_path m) exe_path) (rm_file_path m) (rm_start m) 1 ?s"
    using inv tx by (intro elf_text) simp_all
  obtain i where p: "process_map exe_path m (s, rl) =
      (?s, if wanted m then rl @ [new_region m ?s i] else rl)"
    by (simp add: process_map_def Let_def)
  obtain rs where "snd (scan_maps exe_path ms (?s, if wanted m then rl @ [new_region m ?s i] else rl)) =
      (if wanted m then rl @ [new_region m ?s i] else rl) @ rs"
      "\<forall>r \<in> set rs. elf_region (same_path (rm_file_path m) exe_path) (rm_start m) r"
    using elf_followers [OF e _ _ tx(3)] ms by fastforce
  with p in_elf_region [OF e] show ?thesis
    by (intro exI [of _ "(if wanted m then [new_region m ?s i] else []) @ rs"]) auto
qed

text \<open>
  The executable with a gap: maps of other files between its text and its data do not make the
  scan forget the load address.
\<close>

definition exe_pending :: "64 word \<Rightarrow> map_state \<Rightarrow> bool" where
  "exe_pending L s \<longleftrightarrow> ms_exe_regions s = 1 \<and> ms_exe_load s = L"

lemma exe_gap_step:
  assumes "exe_pending L s" "ms_is_exe s \<longrightarrow> same_path (ms_code_path s) exe_path"
    "rm_file_path m \<noteq> []" "\<not> same_path (rm_file_path m) exe_path"
    "ms_is_exe s \<longrightarrow> \<not> same_path (rm_file_path m) (ms_code_path s)"
  shows "exe_pending L (map_step exe_path m s)" "\<not> ms_is_exe (map_step exe_path m s) \<or> ms_code_regions s = 0"
  using assms by (auto simp: exe_pending_def map_step_def detect_end_def detect_first_def Let_def)

subsection \<open>Round trips\<close>

text \<open>
  A line of \<open>/proc/$pid/maps\<close> as the kernel prints it: addresses and offset with at least eight
  hexadecimal digits, the device with two and two, and a space behind the inode. A path starts at
  column 73, or after one more space if the numbers are longer.
\<close>

definition pad0 :: "nat \<Rightarrow> string \<Rightarrow> string" where
  "pad0 n ds = replicate (n - length ds) CHR ''0'' @ ds"

definition map_numbers :: "region_map \<Rightarrow> 64 word \<Rightarrow> u32 \<Rightarrow> u32 \<Rightarrow> 64 word \<Rightarrow> string" where
  "map_numbers m offs major minor inode =
     pad0 8 (pr_hex (rm_start m)) @ ''-'' @ pad0 8 (pr_hex (rm_end m)) @ '' '' @
     [rm_read m, rm_write m, rm_exec m, rm_cow m] @ '' '' @ pad0 8 (pr_hex offs) @ '' '' @
     pad0 2 (digits 16 (unat major)) @ '':'' @ pad0 2 (digits 16 (unat minor)) @ '' '' @ pr_ul inode @ '' ''"

definition render_map :: "region_map \<Rightarrow> 64 word \<Rightarrow> u32 \<Rightarrow> u32 \<Rightarrow> 64 word \<Rightarrow> string" where
  "render_map m offs major minor inode =
     (let l = map_numbers m offs major minor inode
      in l @ (if rm_file_path m = [] then [] else replicate (72 - length l) CHR '' '' @ '' '' @ rm_file_path m) @ [NL])"

lemma num_stop_more [simp]: "num_stop (CHR ''-'' # r)" "num_stop (CHR '':'' # r)"
  by (simp_all add: num_stop_def c_isalnum_def c_isalpha_def c_isupper_def c_islower_def c_isdigit_def)

lemma num_value_zeros: "num_value b (replicate n CHR ''0'' @ ds) = num_value b ds"
proof (induction n)
  case (Suc n)
  have "digit_val CHR ''0'' = 0" by (simp add: digit_val_def c_isdigit_def)
  with Suc show ?case by (simp add: num_value_def)
qed simp

lemma scan_num_pad0:
  assumes "num_stop r"
  shows "scan_num 16 (pad0 k (digits 16 n) @ r) = Some (False, n, r)"
proof -
  let ?ds = "pad0 k (digits 16 n)"
  have "is_digit 16 CHR ''0''" by (simp add: is_digit_def digit_val_def c_isdigit_def)
  moreover have "\<forall>c \<in> set (digits 16 n). is_digit 16 c" by (simp add: digits_are_digits)
  ultimately have "\<forall>c \<in> set ?ds. is_digit 16 c" by (auto simp: pad0_def)
  moreover have "?ds \<noteq> []" by (simp add: pad0_def)
  ultimately have "scan_num 16 (?ds @ r) = Some (False, num_value 16 ?ds, r)"
    using assms by (intro scan_num_digits) simp_all
  then show ?thesis by (simp add: pad0_def num_value_zeros num_value_digits)
qed

lemma scan_ul_pad0: "num_stop r \<Longrightarrow> scan_ul 16 (pad0 k (pr_hex w) @ r) = Some (w, r)"
  by (simp add: scan_ul_def pr_hex_def scan_num_pad0)

lemma scan_num_space: "scan_num b (CHR '' '' # s) = scan_num b s"
  by (simp add: scan_num_def c_isspace_def)

lemma scan_u32_space: "scan_u32 b (CHR '' '' # s) = scan_u32 b s"
  by (simp add: scan_u32_def scan_ul_def scan_num_space)

lemma scan_u32_hex: "num_stop r \<Longrightarrow> \<exists>v. scan_u32 16 (pad0 k (digits 16 n) @ r) = Some (v, r)"
  by (simp add: scan_u32_def scan_ul_def scan_num_pad0)

definition path_ok :: "string \<Rightarrow> bool" where
  "path_ok p \<longleftrightarrow> (p = [] \<or> \<not> c_isspace (hd p)) \<and> NL \<notin> set p"

lemma scan_path_render:
  assumes "path_ok p"
  shows "scan_path ('' '' @ pad0 8 (digits 16 a) @ '' '' @ pad0 2 (digits 16 b) @ '':'' @ pad0 2 (digits 16 c) @ '' '' @
    pr_ul d @ '' '' @ (if p = [] then [] else replicate k CHR '' '' @ '' '' @ p) @ [NL]) = Some p"
proof -
  let ?r4 = "'' '' @ (if p = [] then [] else replicate k CHR '' '' @ '' '' @ p) @ [NL]"
  let ?r3 = "'' '' @ pr_ul d @ ?r4"
  let ?r2 = "'':'' @ pad0 2 (digits 16 c) @ ?r3"
  let ?r1 = "'' '' @ pad0 2 (digits 16 b) @ ?r2"
  have stop: "num_stop ?r1" "num_stop ?r2" "num_stop ?r3" "num_stop ?r4" by simp_all
  obtain v1 where v1: "scan_u32 16 (pad0 8 (digits 16 a) @ ?r1) = Some (v1, ?r1)"
    using scan_u32_hex [OF stop(1)] by blast
  obtain v2 where v2: "scan_u32 16 (pad0 2 (digits 16 b) @ ?r2) = Some (v2, ?r2)"
    using scan_u32_hex [OF stop(2)] by blast
  obtain v3 where v3: "scan_u32 16 (pad0 2 (digits 16 c) @ ?r3) = Some (v3, ?r3)"
    using scan_u32_hex [OF stop(3)] by blast
  have v4: "scan_u32 10 (pr_ul d @ ?r4) = Some (ucast d, ?r4)"
    using scan_ul_pr_ul [OF stop(4), of d] by (simp add: scan_u32_def)
  have "takeWhile (\<lambda>c. c \<noteq> NL) (dropWhile c_isspace ?r4) = p"
  proof (cases p)
    case Nil
    then show ?thesis by (simp add: c_isspace_def)
  next
    case (Cons x xs)
    with assms have x: "\<not> c_isspace x" "NL \<notin> set p" by (simp_all add: path_ok_def)
    have sp: "c_isspace CHR '' ''" by (simp add: c_isspace_def)
    then have "dropWhile c_isspace (replicate k CHR '' '' @ '' '' @ p @ [NL]) = p @ [NL]"
      using Cons x(1) by (induction k) simp_all
    with sp Cons have "dropWhile c_isspace ?r4 = p @ [NL]" by simp
    with x(2) show ?thesis by (simp add: takeWhile_stop)
  qed
  with v1 v2 v3 v4 show ?thesis
    by (simp add: scan_path_def scan_u32_space scan_lit_def is_prefix_def)
qed

lemma parse_render_map:
  assumes "path_ok (rm_file_path m)" "\<not> c_isspace (rm_read m)"
  shows "parse_map_line (render_map m offs major minor inode) = Some m"
proof -
  let ?k = "72 - length (map_numbers m offs major minor inode)"
  let ?t = "'' '' @ pad0 8 (digits 16 (unat offs)) @ '' '' @ pad0 2 (digits 16 (unat major)) @ '':'' @
    pad0 2 (digits 16 (unat minor)) @ '' '' @ pr_ul inode @ '' '' @
    (if rm_file_path m = [] then [] else replicate ?k CHR '' '' @ '' '' @ rm_file_path m) @ [NL]"
  have p: "scan_path ?t = Some (rm_file_path m)" by (rule scan_path_render [OF assms(1)])
  have s1: "scan_ul 16 (pad0 8 (pr_hex (rm_start m)) @ CHR ''-'' # r) = Some (rm_start m, CHR ''-'' # r)"
    "scan_ul 16 (pad0 8 (pr_hex (rm_end m)) @ CHR '' '' # r) = Some (rm_end m, CHR '' '' # r)" for r
    by (simp_all add: scan_ul_pad0)
  have r: "render_map m offs major minor inode = pad0 8 (pr_hex (rm_start m)) @ CHR ''-'' # pad0 8 (pr_hex (rm_end m)) @
      CHR '' '' # rm_read m # rm_write m # rm_exec m # rm_cow m # ?t"
    by (simp add: render_map_def Let_def) (simp add: map_numbers_def pr_hex_def)
  have sp: "c_isspace CHR '' ''" by (simp add: c_isspace_def)
  show ?thesis
    unfolding r parse_map_line_def s1 using assms(2) p
    by (simp add: s1 scan_lit_def is_prefix_def scan_char_def sp)
qed

subsection \<open>The stack end\<close>

lemma STRCHR_skip: "\<forall>x \<in> set xs. x \<noteq> c \<and> x \<noteq> NUL \<Longrightarrow> c \<noteq> NUL \<Longrightarrow> STRCHR c (xs @ c # ys) = Some ys"
  by (induction xs) auto

text \<open>Fields separated by single spaces.\<close>

definition field_ok :: "string \<Rightarrow> bool" where
  "field_ok f \<longleftrightarrow> (\<forall>x \<in> set f. x \<noteq> CHR '' '' \<and> x \<noteq> NUL)"

definition spaced :: "string list \<Rightarrow> string" where
  "spaced fs = concat (map (\<lambda>f. f @ '' '') fs)"

lemma STRCHR_n_spaced:
  "\<forall>f \<in> set fs. field_ok f \<Longrightarrow> STRCHR_n (length fs) (CHR '' '') (spaced fs @ r) = Some r"
proof (induction fs)
  case (Cons f fs)
  then have "STRCHR (CHR '' '') (f @ CHR '' '' # (spaced fs @ r)) = Some (spaced fs @ r)"
    by (intro STRCHR_skip) (auto simp: field_ok_def)
  with Cons show ?case by (simp add: spaced_def)
qed (simp add: spaced_def)

text \<open>
  A stat line: pid, name in parentheses, 25 more fields and the stack end as field 28. It is
  read correctly if the name does not contain a closing parenthesis.
\<close>

definition render_stat :: "nat \<Rightarrow> string \<Rightarrow> string list \<Rightarrow> ptr \<Rightarrow> string \<Rightarrow> string" where
  "render_stat pid name fs stack_end rest =
     pr_dec pid @ '' ('' @ name @ '') '' @ spaced fs @ pr_ul stack_end @ '' '' @ rest"

lemma parse_render_stat:
  assumes "\<forall>x \<in> set name. x \<noteq> CHR '')'' \<and> x \<noteq> NUL" "length fs = 25" "\<forall>f \<in> set fs. field_ok f"
  shows "parse_stack_end (render_stat pid name fs stack_end rest) = Some stack_end"
proof -
  let ?t = "pr_ul stack_end @ CHR '' '' # rest"
  have dec: "\<forall>x \<in> set (pr_dec n). x \<noteq> CHR ''('' \<and> x \<noteq> NUL \<and> x \<noteq> CHR '' ''" for n
    using pr_chars(1) [of n]
    by (auto simp: is_digit_def digit_val_def c_isdigit_def c_isupper_def c_islower_def split: if_splits)
  have 1: "STRCHR (CHR ''('') (render_stat pid name fs stack_end rest) =
      Some (name @ CHR '')'' # '' '' @ spaced fs @ ?t)"
  proof -
    have "\<forall>x \<in> set (pr_dec pid @ '' ''). x \<noteq> CHR ''('' \<and> x \<noteq> NUL" using dec by auto
    from STRCHR_skip [OF this, of "name @ '') '' @ spaced fs @ ?t"]
    show ?thesis by (simp add: render_stat_def)
  qed
  have 2: "STRCHR (CHR '')'') (name @ CHR '')'' # '' '' @ spaced fs @ ?t) = Some ('' '' @ spaced fs @ ?t)"
    using assms(1) by (intro STRCHR_skip) auto
  have 3: "STRCHR_n (stack_end_idx - 1) (CHR '' '') ('' '' @ spaced fs @ ?t) = Some ?t"
    using STRCHR_n_spaced [of "[] # fs" ?t] assms(2,3) by (simp add: spaced_def field_ok_def stack_end_idx_def)
  have 4: "STRCHR (CHR '' '') ?t = Some rest"
    using dec [of "unat stack_end"] by (intro STRCHR_skip) (auto simp: pr_ul_def)
  have "takeWhile (\<lambda>c. c \<noteq> CHR '' '') ?t = pr_ul stack_end"
    using dec [of "unat stack_end"] by (intro takeWhile_stop) (auto simp: pr_ul_def)
  moreover have "strtoul_checked (pr_ul stack_end) = Some stack_end"
    using scan_num_pr_dec [of "[]" "unat stack_end"] unat_lt_64 [of stack_end]
    by (simp add: strtoul_checked_def pr_ul_def)
  ultimately show ?thesis by (simp add: parse_stack_end_def 1 2 [simplified] 3 [simplified] 4)
qed

text \<open>The stack end is in the upper half of the region, or unknown (the region start).\<close>

lemma get_stack_end_bounds:
  "get_stack_end stat start fin = start \<or>
     (start + drop_bit 1 (fin - start) \<le> get_stack_end stat start fin \<and>
      start \<le> get_stack_end stat start fin \<and> get_stack_end stat start fin \<le> fin)"
  by (auto simp: get_stack_end_def split: option.split)

subsection \<open>The copy of the maps\<close>

lemma copy_chunks_take:
  "0 < n \<Longrightarrow> length buf = n \<Longrightarrow>
     take (length content) (copy_chunks n buf content) = content \<and>
     length (copy_chunks n buf content) = (length content div n + 1) * n"
proof (induction n buf content rule: copy_chunks.induct)
  case (1 n buf content)
  let ?chunk = "take n content"
  let ?buf = "?chunk @ drop (length ?chunk) buf"
  show ?case
  proof (cases "length content < n")
    case True
    then have "copy_chunks n buf content = content @ drop (length content) buf"
      by (simp add: copy_chunks.simps [of n buf content])
    then show ?thesis using True 1 by simp
  next
    case False
    then have len: "length ?chunk = n" and buf: "?buf = ?chunk" using 1 by simp_all
    have eq: "copy_chunks n buf content = ?chunk @ copy_chunks n ?chunk (drop n content)"
      using False 1(2,3) by (subst copy_chunks.simps) (simp add: Let_def)
    have ih: "take (length (drop n content)) (copy_chunks n ?chunk (drop n content)) = drop n content \<and>
        length (copy_chunks n ?chunk (drop n content)) = (length (drop n content) div n + 1) * n"
      using 1(1) [OF refl refl] False 1(2,3) by simp
    have "length content div n = Suc ((length content - n) div n)"
      using False 1(2) by (simp add: le_div_geq)
    then show ?thesis using ih eq len False by (simp add: algebra_simps)
  qed
qed

end
