(* ===== verification/Values.thy ===== *)
theory Values
  imports Cfgentry
begin

unbundle bit_operations_syntax

text \<open>
  The values of the game: the C++ template functions of \<open>src/src/ugtrain.cpp\<close> are instantiated
  at ten types, here \<open>Flt 64\<close> to \<open>Uns 8\<close> with the width in bits. A value is the 64-bit word of
  its union; a narrower member is the low part. Floating point is IEEE 754 on the bit patterns.
\<close>

datatype cty = Flt nat | Sgn nat | Uns nat

fun width :: "cty \<Rightarrow> nat" where
  "width (Flt n) = n" | "width (Sgn n) = n" | "width (Uns n) = n"

subsection \<open>Members of the union\<close>

text \<open>Assigning a member leaves the other bytes alone; the bytes of a member, little endian.\<close>

definition put :: "nat \<Rightarrow> value_t \<Rightarrow> value_t \<Rightarrow> value_t" where
  "put n old new = (old AND NOT (mask n)) OR (new AND mask n)"

definition value_bytes :: "nat \<Rightarrow> value_t \<Rightarrow> byte list" where
  "value_bytes n v = map (\<lambda>i. ucast (drop_bit (8 * i) v)) [0..<n]"

fun of_bytes :: "byte list \<Rightarrow> value_t" where
  "of_bytes [] = 0"
| "of_bytes (b # bs) = ucast b OR push_bit 8 (of_bytes bs)"

definition load_bytes :: "byte list \<Rightarrow> value_t \<Rightarrow> value_t" where
  "load_bytes bs v = put (8 * length bs) v (of_bytes bs)"

lemma bit_put: "bit (put n old new) i \<longleftrightarrow> (if i < n then bit new i else bit old i)"
proof (cases "i < 64")
  case True
  then show ?thesis by (auto simp: put_def bit_simps)
next
  case False
  then have "\<not> bit (put n old new) i" "\<not> bit new i" "\<not> bit old i"
    using bit_imp_le_length [where 'a = 64] by (force simp: not_less)+
  then show ?thesis by simp
qed

lemma put_put [simp]: "put n (put n old a) b = put n old b"
  by (rule bit_eqI) (simp add: bit_put)

lemma put_same: "put n v v = v"
  by (rule bit_eqI) (simp add: bit_put)

subsection \<open>Floating point\<close>

definition fp_mbits :: "nat \<Rightarrow> nat" where "fp_mbits n = (if n = 64 then 52 else 23)"
definition fp_ebits :: "nat \<Rightarrow> nat" where "fp_ebits n = (if n = 64 then 11 else 8)"
definition fp_emin :: "nat \<Rightarrow> int" where "fp_emin n = 2 - 2 ^ (fp_ebits n - 1) - int (fp_mbits n)"
definition fp_inf :: "nat \<Rightarrow> int" where "fp_inf n = (2 ^ fp_ebits n - 1) * 2 ^ fp_mbits n"

definition raw :: "nat \<Rightarrow> value_t \<Rightarrow> int" where "raw n v = take_bit n (uint v)"
definition fp_mag :: "nat \<Rightarrow> value_t \<Rightarrow> int" where "fp_mag n v = take_bit (n - 1) (uint v)"
definition fp_neg :: "nat \<Rightarrow> value_t \<Rightarrow> bool" where "fp_neg n v = bit v (n - 1)"
definition fp_nan :: "nat \<Rightarrow> value_t \<Rightarrow> bool" where "fp_nan n v \<longleftrightarrow> fp_inf n < fp_mag n v"

text \<open>Numbers that are not NaN are ordered like these integers; both zeros are 0.\<close>

definition fp_key :: "nat \<Rightarrow> value_t \<Rightarrow> int" where
  "fp_key n v = (if fp_neg n v then - fp_mag n v else fp_mag n v)"

text \<open>A finite number as \<open>N * 2 ^ E\<close>, and the nearest number (ties to even) as a bit pattern.\<close>

definition fp_decode :: "nat \<Rightarrow> value_t \<Rightarrow> int \<times> int" where
  "fp_decode n v =
     (let m = fp_mag n v; ef = m div 2 ^ fp_mbits n; mf = m mod 2 ^ fp_mbits n;
          N = (if ef = 0 then mf else 2 ^ fp_mbits n + mf)
      in (if fp_neg n v then - N else N, if ef = 0 then fp_emin n else fp_emin n + ef - 1))"

fun bitlen :: "nat \<Rightarrow> nat" where
  "bitlen k = (if k = 0 then 0 else Suc (bitlen (k div 2)))"

declare bitlen.simps [simp del]

definition fp_round :: "nat \<Rightarrow> int \<Rightarrow> int \<Rightarrow> value_t" where
  "fp_round n N E =
     (let k = nat \<bar>N\<bar>;
          E' = max (fp_emin n) (E + int (bitlen k) - int (fp_mbits n + 1));
          q = (if E' \<le> E then k * 2 ^ nat (E - E')
               else let s = nat (E' - E); q0 = k div 2 ^ s; r = k mod 2 ^ s
                    in if 2 ^ s < 2 * r \<or> 2 ^ s = 2 * r \<and> odd q0 then q0 + 1 else q0);
          m = min (fp_inf n) ((E' - fp_emin n) * 2 ^ fp_mbits n + int q)
      in if k = 0 then 0
         else if N < 0 then word_of_int (m + 2 ^ (n - 1)) else word_of_int m)"

text \<open>Adding an integer: it is converted to the type first.\<close>

definition fp_add_int :: "nat \<Rightarrow> value_t \<Rightarrow> int \<Rightarrow> value_t" where
  "fp_add_int n v a =
     (if fp_nan n v then v OR push_bit (fp_mbits n - 1) 1
      else if fp_mag n v = fp_inf n then v
      else case (fp_decode n v, fp_decode n (fp_round n a 0)) of ((N1, E1), (N2, E2)) \<Rightarrow>
        let E = min E1 E2
        in fp_round n (N1 * 2 ^ nat (E1 - E) + N2 * 2 ^ nat (E2 - E)) E)"

text \<open>Conversion to an address, toward zero; undefined out of range.\<close>

definition fp_to_ptr :: "nat \<Rightarrow> value_t \<Rightarrow> ptr option" where
  "fp_to_ptr n v =
     (if fp_inf n \<le> fp_mag n v then None
      else case fp_decode n v of (N, E) \<Rightarrow>
        let t = (if 0 \<le> E then \<bar>N\<bar> * 2 ^ nat E else \<bar>N\<bar> div 2 ^ nat (- E))
        in if t = 0 then Some 0
           else if N < 0 \<or> 2 ^ 64 \<le> t then None else Some (word_of_int t))"

subsection \<open>The operations of the types\<close>

text \<open>The number that decides comparisons; \<open>ordered\<close>: it is a number at all.\<close>

fun val_key :: "cty \<Rightarrow> value_t \<Rightarrow> int" where
  "val_key (Flt n) v = fp_key n v"
| "val_key (Sgn n) v = signed_take_bit (n - 1) (uint v)"
| "val_key (Uns n) v = take_bit n (uint v)"

fun ordered :: "cty \<Rightarrow> value_t \<Rightarrow> bool" where
  "ordered (Flt n) v \<longleftrightarrow> \<not> fp_nan n v"
| "ordered _ v \<longleftrightarrow> True"

definition val_lt :: "cty \<Rightarrow> value_t \<Rightarrow> value_t \<Rightarrow> bool" where
  "val_lt ct a b \<longleftrightarrow> ordered ct a \<and> ordered ct b \<and> val_key ct a < val_key ct b"

definition val_eq :: "cty \<Rightarrow> value_t \<Rightarrow> value_t \<Rightarrow> bool" where
  "val_eq ct a b \<longleftrightarrow> ordered ct a \<and> ordered ct b \<and> val_key ct a = val_key ct b"

fun val_add :: "cty \<Rightarrow> value_t \<Rightarrow> 64 word \<Rightarrow> value_t" where
  "val_add (Flt n) v a = put n v (fp_add_int n v (sint a))"
| "val_add (Sgn n) v a = put n v (v + a)"
| "val_add (Uns n) v a = put n v (v + a)"

fun val_to_ptr :: "cty \<Rightarrow> value_t \<Rightarrow> ptr option" where
  "val_to_ptr (Flt n) v = fp_to_ptr n v"
| "val_to_ptr (Sgn n) v = Some (word_of_int (signed_take_bit (n - 1) (uint v)))"
| "val_to_ptr (Uns n) v = Some (put n 0 v)"

text \<open>The comparison of two values; \<open>True\<close>: passed.\<close>

definition check_mem_val :: "cty \<Rightarrow> value_t \<Rightarrow> value_t \<Rightarrow> check_e \<Rightarrow> bool" where
  "check_mem_val ct read_val v check = (case check of
     CHECK_LT \<Rightarrow> val_lt ct read_val v
   | CHECK_GT \<Rightarrow> val_lt ct v read_val
   | CHECK_EQ \<Rightarrow> val_eq ct read_val v
   | _ \<Rightarrow> True)"

text \<open>Only the member counts.\<close>

lemma fp_mag_put: "0 < n \<Longrightarrow> fp_mag n (put n old v) = fp_mag n v"
  by (rule bit_eqI) (auto simp: fp_mag_def bit_simps bit_put simp flip: bit_uint_iff)

end
