(* ===== verification/Process.thy ===== *)
theory Process
  imports Values Aslr
begin

text \<open>
  Processing the values (\<open>src/src/ugtrain.cpp\<close>, \<open>src/src/util.h\<close>, \<open>src/src/lib/memattach_l.h\<close>
  with \<open>HAVE_PROCMEM\<close>): while the game is frozen, the activated config entries are read through
  the caches, checked and changed, and the caches are written back. \<open>None\<close> is undefined
  behaviour or an exception of \<open>at()\<close>.
\<close>

subsection \<open>The memory of the game\<close>

text \<open>
  The mapped bytes of the game. A read or write stops at the first byte that is not mapped, and
  what has been transferred by then stays; it succeeds if it is complete.
\<close>

type_synonym gmem = "ptr \<Rightarrow> byte option"

record game =
  gw :: world
  gmem :: gmem

primrec read_upto :: "gmem \<Rightarrow> ptr \<Rightarrow> nat \<Rightarrow> byte list" where
  "read_upto mem a 0 = []"
| "read_upto mem a (Suc n) = (case mem a of None \<Rightarrow> [] | Some b \<Rightarrow> b # read_upto mem (a + 1) n)"

primrec write_upto :: "ptr \<Rightarrow> byte list \<Rightarrow> gmem \<Rightarrow> gmem" where
  "write_upto a [] mem = mem"
| "write_upto a (b # bs) mem = (if mem a = None then mem else write_upto (a + 1) bs (mem(a \<mapsto> b)))"

definition memread :: "gmem \<Rightarrow> ptr \<Rightarrow> nat \<Rightarrow> byte list \<times> bool" where
  "memread mem addr n =
     (if addr = 0 \<or> n = 0 then ([], False)
      else let bs = read_upto mem addr n in (bs, length bs = n))"

definition memwrite :: "ptr \<Rightarrow> byte list \<Rightarrow> gmem \<Rightarrow> gmem" where
  "memwrite addr bs mem = (if addr = 0 then mem else write_upto addr bs mem)"

subsection \<open>Caches\<close>

text \<open>
  \<open>FILL_CACHE_AND_BUF\<close>: the result is whether the cache could be filled, and the buffer. The
  buffer is a union of 8 bytes that is filled from the bytes at \<open>cache_data\<close>.
\<close>

definition cache_bytes :: "cache_entry \<Rightarrow> nat \<Rightarrow> nat \<Rightarrow> byte list option" where
  "cache_bytes c p n = (if p + n \<le> length (ca_data c) then Some (take n (drop p (ca_data c))) else None)"

definition fill_cache :: "gmem \<Rightarrow> ptr \<Rightarrow> cache_entry \<Rightarrow> (cache_entry \<times> bool) option" where
  "fill_cache mem mem_addr c =
     (if ca_start c \<noteq> PTR_MAX then Some (c, True)
      else if length (ca_data c) < MEM_CHUNK then None
      else case memread mem mem_addr MEM_CHUNK of (bs, ok) \<Rightarrow>
        let c' = c\<lparr>ca_data := bs @ drop (length bs) (ca_data c)\<rparr>
        in Some (if ok then c'\<lparr>ca_start := mem_addr\<rparr> else c', ok))"

definition fill_buf ::
  "val_type \<Rightarrow> cache_ref option \<Rightarrow> nat \<Rightarrow> ptr \<Rightarrow> value_t \<Rightarrow> game \<Rightarrow> (bool \<times> value_t \<times> game) option" where
  "fill_buf ty cache cache_data mem_offs buf g =
     (if t_is_cstr ty then Some (True, buf, g)
      else do {
        r \<leftarrow> cache;
        c \<leftarrow> get_cache r (gw g);
        (c', ok) \<leftarrow> fill_cache (gmem g) (mem_offs + ca_offs c) c;
        w' \<leftarrow> mod_cache r (\<lambda>_. c') (gw g);
        let g' = g\<lparr>gw := w'\<rparr>;
        if \<not> ok then Some (False, buf, g')
        else do {
          let k = byte_size (t_size ty);
          bs \<leftarrow> cache_bytes c' cache_data (nat k);
          if k < 0 \<or> 8 < k then None else Some (True, load_bytes bs buf, g') } })"

definition write_cache :: "nat \<Rightarrow> cache_owner \<Rightarrow> game \<Rightarrow> game option" where
  "write_cache i own g = do {
     c \<leftarrow> get_cache (own, i) (gw g);
     if \<not> ca_is_dirty c then Some g
     else do {
       w' \<leftarrow> mod_cache (own, i) clear_dirty (gw g);
       if length (ca_data c) < MEM_CHUNK then None
       else Some (g\<lparr>gw := w', gmem := memwrite (ca_start c) (take MEM_CHUNK (ca_data c)) (gmem g)\<rparr>) } }"

definition write_caches :: "cache_owner \<Rightarrow> game \<Rightarrow> game option" where
  "write_caches own g = do {
     cl \<leftarrow> cache_list own (gw g);
     fold_opt (\<lambda>i. write_cache i own) [0..<length cl] g }"

definition invalidate_caches :: "cache_owner \<Rightarrow> game \<Rightarrow> game option" where
  "invalidate_caches own g = do {
     cl \<leftarrow> cache_list own (gw g);
     Some (g\<lparr>gw := set_cache_list own (map (\<lambda>c. c\<lparr>ca_start := PTR_MAX\<rparr>) cl) (gw g)\<rparr>) }"

subsection \<open>Checks\<close>

text \<open>The types of checks; any other size never passes.\<close>

definition check_type :: "val_type \<Rightarrow> cty option" where
  "check_type ty =
     (if t_is_float ty then (if t_size ty \<in> {64, 32} then Some (Flt (nat (t_size ty))) else None)
      else if t_size ty \<in> {64, 32, 16, 8}
      then Some (if t_is_signed ty then Sgn (nat (t_size ty)) else Uns (nat (t_size ty)))
      else None)"

definition check_memory :: "check_entry \<Rightarrow> value_t \<Rightarrow> value_t \<Rightarrow> check_e \<Rightarrow> bool" where
  "check_memory k chk_buf v check = (case check_type (k_type k) of
     None \<Rightarrow> False | Some ct \<Rightarrow> check_mem_val ct chk_buf v check)"

text \<open>One of the checks up to \<open>CHECK_END\<close> has to pass; the first one is always tried.\<close>

fun or_checks :: "check_entry \<Rightarrow> value_t \<Rightarrow> check_e list \<Rightarrow> value_t list \<Rightarrow> bool option" where
  "or_checks k buf (c # cs) (v # vs) =
     (if check_memory k buf v c then Some True
      else case cs of [] \<Rightarrow> None | c' # _ \<Rightarrow> if c' = CHECK_END then Some False else or_checks k buf cs vs)"
| "or_checks k buf _ _ = None"

definition or_check_memory :: "check_entry \<Rightarrow> value_t \<Rightarrow> bool option" where
  "or_check_memory k buf = or_checks k buf (k_check k) (k_value k)"

definition lib_missing :: "val_type \<Rightarrow> world \<Rightarrow> bool option" where
  "lib_missing ty w = (case t_lib ty of
     None \<Rightarrow> Some False | Some li \<Rightarrow> map_option (\<lambda>l. l_start l = 0) (vget (w_lib w) li))"

text \<open>The value of another config entry; \<open>Some None\<close> is the return value -1.\<close>

definition obj_idx :: "nat \<Rightarrow> world \<Rightarrow> nat option" where
  "obj_idx di w = map_option (\<lambda>d. unat (d_obj_idx d)) (vget (w_dyn w) di)"

definition ref_values :: "cfg_entry \<Rightarrow> value_t list" where
  "ref_values c = (if c_val_set c then c_v_value c else c_v_oldval c)"

definition handle_cfg_ref :: "nat \<Rightarrow> world \<Rightarrow> value_t option option" where
  "handle_cfg_ref ri w = do {
     c \<leftarrow> vget (w_cfg w) ri;
     case c_dynmem c of
       Some di \<Rightarrow>
         if ref_values c = [] then Some None
         else do { i \<leftarrow> obj_idx di w; v \<leftarrow> vget (ref_values c) i; Some (Some v) }
     | None \<Rightarrow> do {
         p \<leftarrow> (case c_ptrmem c of None \<Rightarrow> Some None | Some pi \<Rightarrow> map_option Some (vget (w_ptr w) pi));
         case p \<bind> p_dynmem of
           Some di \<Rightarrow>
             if ref_values c = [] then Some None
             else do {
               i \<leftarrow> obj_idx di w;
               st \<leftarrow> vget (p_v_state (the p)) i;
               if st = PTR_INIT then Some None
               else do { v \<leftarrow> vget (ref_values c) i; Some (Some v) } }
         | None \<Rightarrow> do {
             missing \<leftarrow> lib_missing (c_type c) w;
             if t_on_stack (c_type c) \<or> missing then Some None
             else Some (Some (if c_val_set c then c_value c else c_old_val c)) } } }"

text \<open>
  The checks of a config entry of class \<open>di\<close>; \<open>True\<close>: all passed. \<open>buf\<close> is what the check
  buffer, a local variable without initial value, holds.
\<close>

definition kick_obj :: "nat option \<Rightarrow> world \<Rightarrow> world option" where
  "kick_obj di w = (case di of
     None \<Rightarrow> Some w
   | Some di \<Rightarrow> mod_dyn di (\<lambda>d. do {
       mv \<leftarrow> vset (d_v_maddr d) (unat (d_obj_idx d)) 0;
       Some (d\<lparr>d_v_maddr := mv\<rparr>) }) w)"

text \<open>The buffer for a check: \<open>Some (None, _)\<close> means that the check is skipped, \<open>Inl\<close> that it fails.\<close>

definition check_buf ::
  "nat option \<Rightarrow> check_entry \<Rightarrow> ptr \<Rightarrow> value_t \<Rightarrow> game \<Rightarrow> ((unit + value_t option) \<times> game) option" where
  "check_buf di k mem_offs buf g =
     (case k_cfg_ref k of
        Some ri \<Rightarrow> do {
          v \<leftarrow> handle_cfg_ref ri (gw g);
          Some (case v of None \<Rightarrow> Inl () | Some v \<Rightarrow> Inr (Some v), g) }
      | None \<Rightarrow>
          if k_check_obj_num k then
            (case di of
               None \<Rightarrow> Some (Inr None, g)
             | Some di \<Rightarrow> do {
                 d \<leftarrow> vget (w_dyn (gw g)) di;
                 Some (Inr (Some (put 32 buf (ucast (d_obj_idx d)))), g) })
          else do {
            (ok, buf', g') \<leftarrow> fill_buf (k_type k) (k_cache k) (k_cache_data k) mem_offs buf g;
            Some (if ok then Inr (Some buf') else Inl (), g') })"

primrec process_checks ::
  "nat option \<Rightarrow> check_entry list \<Rightarrow> ptr \<Rightarrow> value_t \<Rightarrow> game \<Rightarrow> (bool \<times> game) option" where
  "process_checks di [] mem_offs buf g = Some (True, g)"
| "process_checks di (k # ks) mem_offs buf g = do {
     missing \<leftarrow> lib_missing (k_type k) (gw g);
     if t_on_stack (k_type k) \<or> missing then Some (False, g)
     else do {
       (r, g1) \<leftarrow> check_buf di k mem_offs buf g;
       case r of
         Inl _ \<Rightarrow> Some (False, g1)
       | Inr None \<Rightarrow> process_checks di ks mem_offs buf g1
       | Inr (Some buf') \<Rightarrow> do {
           passed \<leftarrow> or_check_memory k buf';
           if passed then process_checks di ks mem_offs buf' g1
           else do {
             w' \<leftarrow> (if k_is_objcheck k then kick_obj di (gw g1) else Some (gw g1));
             Some (False, g1\<lparr>gw := w'\<rparr>) } } } }"

subsection \<open>Changing a value\<close>

text \<open>
  The values of a config entry: the member of the entry (\<open>None\<close>) or the element of the vector
  of an object (\<open>Some mem_idx\<close>).
\<close>

definition upd_slot :: "nat option \<Rightarrow> ('a \<Rightarrow> 'a) \<Rightarrow> 'a \<Rightarrow> 'a list \<Rightarrow> ('a \<times> 'a list) option" where
  "upd_slot i f x xs = (case i of
     None \<Rightarrow> Some (f x, xs)
   | Some i \<Rightarrow> do { y \<leftarrow> vget xs i; Some (x, xs[i := f y]) })"

definition get_slot :: "nat option \<Rightarrow> 'a \<Rightarrow> 'a list \<Rightarrow> 'a option" where
  "get_slot i x xs = (case i of None \<Rightarrow> Some x | Some i \<Rightarrow> vget xs i)"

definition upd_old :: "nat \<Rightarrow> nat option \<Rightarrow> (value_t \<Rightarrow> value_t) \<Rightarrow> world \<Rightarrow> world option" where
  "upd_old ci i f = mod_cfg ci (\<lambda>c. do {
     (ov, vov) \<leftarrow> upd_slot i f (c_old_val c) (c_v_oldval c);
     Some (c\<lparr>c_old_val := ov, c_v_oldval := vov\<rparr>) })"

definition upd_value :: "nat \<Rightarrow> nat option \<Rightarrow> (value_t \<Rightarrow> value_t) \<Rightarrow> world \<Rightarrow> world option" where
  "upd_value ci i f = mod_cfg ci (\<lambda>c. do {
     (va, vva) \<leftarrow> upd_slot i f (c_value c) (c_v_value c);
     Some (c\<lparr>c_value := va, c_v_value := vva\<rparr>) })"

definition upd_cstr :: "nat \<Rightarrow> nat option \<Rightarrow> (string option \<Rightarrow> string option) \<Rightarrow> world \<Rightarrow> world option" where
  "upd_cstr ci i f = mod_cfg ci (\<lambda>c. do {
     (cs, vcs) \<leftarrow> upd_slot i f (c_cstr c) (c_v_cstr c);
     Some (c\<lparr>c_cstr := cs, c_v_cstr := vcs\<rparr>) })"

text \<open>The address of a watched string, 0 for none.\<close>

definition watch_addr :: "cty \<Rightarrow> cfg_entry \<Rightarrow> value_t \<Rightarrow> ptr \<Rightarrow> ptr option option" where
  "watch_addr ct c read_val mem_offs =
     (if t_is_cstrp (c_type c) then do {
        a \<leftarrow> val_to_ptr ct read_val;
        Some (if a = 0 then None else Some a) }
      else if t_is_cstr (c_type c) then Some (Some (mem_offs + c_addr c))
      else Some None)"

definition read_cstr :: "gmem \<Rightarrow> ptr \<Rightarrow> string \<Rightarrow> string" where
  "read_cstr mem a s =
     (let bs = map (\<lambda>b. char_of (uint b)) (fst (memread mem a MAX_CSTR)) in bs @ drop (length bs) s)"

definition handle_dynval ::
  "cty \<Rightarrow> nat \<Rightarrow> nat option \<Rightarrow> value_t \<Rightarrow> ptr \<Rightarrow> game \<Rightarrow> game option" where
  "handle_dynval ct ci i read_val mem_offs g = do {
     let w = gw g;
     c \<leftarrow> vget (w_cfg w) ci;
     v \<leftarrow> get_slot i (c_value c) (c_v_value c);
     let n = width ct;
     w' \<leftarrow> (case c_dynval c of
        DYN_VAL_MAX \<Rightarrow> if val_lt ct v read_val then upd_value ci i (\<lambda>v. put n v read_val) w else Some w
      | DYN_VAL_MIN \<Rightarrow> if val_lt ct read_val v then upd_value ci i (\<lambda>v. put n v read_val) w else Some w
      | DYN_VAL_ADDR \<Rightarrow> (case c_cfg_ref c of
          Some ri \<Rightarrow> do {
            r \<leftarrow> handle_cfg_ref ri w;
            case r of
              None \<Rightarrow> upd_value ci i (\<lambda>v. put n v 0) w
            | Some b \<Rightarrow> upd_value ci i (\<lambda>v. put n v (val_add ct (put n 0 b) (c_cfg_ref_add c))) w }
        | None \<Rightarrow> (case memread (gmem g) (mem_offs + c_val_addr c) 8 of (bs, ok) \<Rightarrow>
            if ok then upd_value ci i (\<lambda>v. put n v (of_bytes bs)) w else Some w))
      | DYN_VAL_WATCH \<Rightarrow> do {
          s \<leftarrow> get_slot i (c_cstr c) (c_v_cstr c);
          case s of
            None \<Rightarrow> Some w
          | Some s \<Rightarrow> do {
              a \<leftarrow> watch_addr ct c read_val mem_offs;
              case a of
                None \<Rightarrow> Some w
              | Some a \<Rightarrow> if length s < MAX_CSTR then None
                  else upd_cstr ci i (\<lambda>_. Some (read_cstr (gmem g) a s)) w } }
      | _ \<Rightarrow> Some w);
     Some (g\<lparr>gw := w'\<rparr>) }"

text \<open>Store the value in the cache, unless a check fails.\<close>

definition store_value :: "cty \<Rightarrow> cfg_entry \<Rightarrow> value_t \<Rightarrow> world \<Rightarrow> world option" where
  "store_value ct c v w = do {
     r \<leftarrow> c_cache c;
     ce \<leftarrow> get_cache r w;
     let bs = value_bytes (width ct div 8) v;
     if length (ca_data ce) < c_cache_data c + length bs then None
     else mod_cache r (\<lambda>ce. ce\<lparr>ca_data := take (c_cache_data c) (ca_data ce) @ bs @
            drop (c_cache_data c + length bs) (ca_data ce), ca_is_dirty := True\<rparr>) w }"

definition change_mem_val ::
  "cty \<Rightarrow> nat \<Rightarrow> value_t \<Rightarrow> value_t \<Rightarrow> ptr \<Rightarrow> value_t \<Rightarrow> game \<Rightarrow> game option" where
  "change_mem_val ct ci read_val v mem_offs junk g = do {
     c \<leftarrow> vget (w_cfg (gw g)) ci;
     if c_dynval c = DYN_VAL_WATCH then Some g
     else do {
       (passed, g1) \<leftarrow> process_checks (c_dynmem c) (c_checks c) mem_offs junk g;
       if \<not> passed \<or> \<not> check_mem_val ct read_val v (c_check c) \<or> c_cfg_ref c \<noteq> None \<and> val_eq ct v 0
       then Some g1
       else do {
         w' \<leftarrow> store_value ct c v (gw g1);
         w'' \<leftarrow> mod_cfg ci (\<lambda>c. Some (c\<lparr>c_val_set := True\<rparr>)) w';
         Some (g1\<lparr>gw := w''\<rparr>) } } }"

text \<open>The types of config entries: other sizes of integers are taken as 8 bits, others are ignored.\<close>

definition value_type :: "val_type \<Rightarrow> cty option" where
  "value_type ty =
     (if t_is_float ty then (if t_size ty \<in> {64, 32} then Some (Flt (nat (t_size ty))) else None)
      else let n = (if t_size ty \<in> {64, 32, 16} then nat (t_size ty) else 8)
           in Some (if t_is_signed ty then Sgn n else Uns n))"

definition change_memory ::
  "nat \<Rightarrow> nat option \<Rightarrow> value_t \<Rightarrow> ptr \<Rightarrow> value_t \<Rightarrow> game \<Rightarrow> game option" where
  "change_memory ci i buf mem_offs junk g = do {
     w1 \<leftarrow> mod_cfg ci (\<lambda>c. Some (c\<lparr>c_val_set := False\<rparr>)) (gw g);
     c \<leftarrow> vget (w_cfg w1) ci;
     _ \<leftarrow> get_slot i (c_cstr c) (c_v_cstr c);
     case value_type (c_type c) of
       None \<Rightarrow> Some (g\<lparr>gw := w1\<rparr>)
     | Some ct \<Rightarrow> do {
         w2 \<leftarrow> upd_old ci i (\<lambda>ov. put (width ct) ov buf) w1;
         g3 \<leftarrow> handle_dynval ct ci i buf mem_offs (g\<lparr>gw := w2\<rparr>);
         c \<leftarrow> vget (w_cfg (gw g3)) ci;
         v \<leftarrow> get_slot i (c_value c) (c_v_value c);
         change_mem_val ct ci buf v mem_offs junk g3 } }"


subsection \<open>Pointers\<close>

text \<open>A pointer is followed as soon as the value has been read twice; the buffer is shared with
  the caller.\<close>

definition settle :: "nat \<Rightarrow> nat \<Rightarrow> ptr_e \<Rightarrow> ptr \<Rightarrow> world \<Rightarrow> world option" where
  "settle pi mem_idx st a = mod_ptr pi (\<lambda>p. do {
     sts \<leftarrow> vset (p_v_state p) mem_idx st;
     os \<leftarrow> vset (p_v_offs p) mem_idx a;
     Some (p\<lparr>p_v_state := sts, p_v_offs := os\<rparr>) })"

text \<open>One field of the memory that the pointer points to; \<open>i\<close> is the slot of its values.\<close>

definition process_field ::
  "nat \<Rightarrow> nat option \<Rightarrow> value_t \<Rightarrow> nat \<Rightarrow> value_t \<times> game \<Rightarrow> (value_t \<times> game) option" where
  "process_field mem_idx i junk ci st = (case st of (buf, g) \<Rightarrow> do {
     c \<leftarrow> vget (w_cfg (gw g)) ci;
     pi \<leftarrow> c_ptrmem c;
     p \<leftarrow> vget (w_ptr (gw g)) pi;
     offs \<leftarrow> vget (p_v_offs p) mem_idx;
     (ok, buf', g1) \<leftarrow> fill_buf (c_type c) (c_cache c) (c_cache_data c) offs buf g;
     if \<not> ok then Some (buf', g1)
     else do {
       g2 \<leftarrow> change_memory ci i buf' offs junk g1;
       Some (buf', g2) } })"

definition follow_ptr ::
  "nat \<Rightarrow> cfg_entry \<Rightarrow> nat \<Rightarrow> nat option \<Rightarrow> ptr \<Rightarrow> value_t \<Rightarrow> value_t \<times> game \<Rightarrow> (value_t \<times> game) option" where
  "follow_ptr pi c mem_idx i mem_offs junk st = (case st of (buf, g) \<Rightarrow> do {
     (passed, g1) \<leftarrow> process_checks (c_dynmem c) (c_checks c) mem_offs junk g;
     if \<not> passed then Some (buf, g1)
     else do {
       w2 \<leftarrow> settle pi mem_idx (if c_dynval c = DYN_VAL_PTR_ONCE then PTR_DONE else PTR_SETTLED) buf (gw g1);
       g3 \<leftarrow> invalidate_caches (CPtr pi) (g1\<lparr>gw := w2\<rparr>);
       p \<leftarrow> vget (w_ptr (gw g3)) pi;
       (buf', g4) \<leftarrow> fold_opt (process_field mem_idx i junk) (p_cfg_act p) (buf, g3);
       g5 \<leftarrow> write_caches (CPtr pi) g4;
       Some (buf', g5) } })"

definition process_ptrmem ::
  "nat \<Rightarrow> nat \<Rightarrow> value_t \<Rightarrow> value_t \<times> game \<Rightarrow> (value_t \<times> game) option" where
  "process_ptrmem ci mem_idx junk st = (case st of (buf, g) \<Rightarrow> do {
     c \<leftarrow> vget (w_cfg (gw g)) ci;
     pi \<leftarrow> c_ptrtgt c;
     p \<leftarrow> vget (w_ptr (gw g)) pi;
     (i, mem_offs) \<leftarrow> (case p_dynmem p of
        None \<Rightarrow> Some (None, None)
      | Some di \<Rightarrow> do {
          d \<leftarrow> vget (w_dyn (gw g)) di;
          a \<leftarrow> vget (d_v_maddr d) mem_idx;
          Some (Some mem_idx, Some a) });
     old \<leftarrow> get_slot i (c_old_val c) (c_v_oldval c);
     if mem_offs = Some 0 \<or> buf = 0 then Some st
     else do {
       ps \<leftarrow> vget (p_v_state p) mem_idx;
       if ps = PTR_DONE then Some st
       else if buf = old
       then follow_ptr pi c mem_idx i (case mem_offs of None \<Rightarrow> 0 | Some a \<Rightarrow> a) junk st
       else do {
         w' \<leftarrow> upd_old ci i (\<lambda>_. buf) (gw g);
         Some (buf, g\<lparr>gw := w'\<rparr>) } } })"

subsection \<open>All activated entries\<close>

text \<open>One config entry for one object of class \<open>di\<close>.\<close>

definition process_obj_cfg ::
  "nat \<Rightarrow> nat \<Rightarrow> value_t \<Rightarrow> nat \<Rightarrow> value_t \<times> game \<Rightarrow> (value_t \<times> game) option" where
  "process_obj_cfg di mem_idx junk ci st = (case st of (buf, g) \<Rightarrow> do {
     c \<leftarrow> vget (w_cfg (gw g)) ci;
     d \<leftarrow> vget (w_dyn (gw g)) di;
     mem_offs \<leftarrow> vget (d_v_maddr d) mem_idx;
     if mem_offs = 0 then Some st
     else do {
       mem_size \<leftarrow> vget (d_v_msize d) mem_idx;
       if mem_size < c_addr c + of_int (byte_size (t_size (c_type c))) then Some st
       else do {
         w1 \<leftarrow> mod_dyn di (\<lambda>d. Some (d\<lparr>d_obj_idx := of_nat mem_idx\<rparr>)) (gw g);
         (ok, buf', g2) \<leftarrow> fill_buf (c_type c) (c_cache c) (c_cache_data c) mem_offs buf (g\<lparr>gw := w1\<rparr>);
         if \<not> ok then Some (buf', g2)
         else if c_ptrtgt c \<noteq> None then process_ptrmem ci mem_idx junk (buf', g2)
         else do {
           g3 \<leftarrow> change_memory ci (Some mem_idx) buf' mem_offs junk g2;
           Some (buf', g3) } } } })"

definition process_obj ::
  "nat \<Rightarrow> value_t \<Rightarrow> nat list \<Rightarrow> nat \<Rightarrow> value_t \<times> game \<Rightarrow> (value_t \<times> game) option" where
  "process_obj di junk cfg_act mem_idx st = (case st of (buf, g) \<Rightarrow> do {
     g1 \<leftarrow> invalidate_caches (CDyn di) g;
     (buf', g2) \<leftarrow> fold_opt (process_obj_cfg di mem_idx junk) cfg_act (buf, g1);
     g3 \<leftarrow> write_caches (CDyn di) g2;
     Some (buf', g3) })"

definition process_dynmem_cfg_act :: "nat \<Rightarrow> value_t \<Rightarrow> game \<Rightarrow> game option" where
  "process_dynmem_cfg_act di junk g = do {
     d \<leftarrow> vget (w_dyn (gw g)) di;
     (buf, g') \<leftarrow> fold_opt (process_obj di junk (d_cfg_act d)) [0..<length (d_v_maddr d)] (0, g);
     Some g' }"

text \<open>One entry of static memory; a class is processed when its first entry is met.\<close>

definition process_static ::
  "nat \<Rightarrow> value_t \<Rightarrow> value_t \<times> game \<Rightarrow> (value_t \<times> game) option" where
  "process_static ci junk st = (case st of (buf, g) \<Rightarrow> do {
     c \<leftarrow> vget (w_cfg (gw g)) ci;
     missing \<leftarrow> lib_missing (c_type c) (gw g);
     if t_on_stack (c_type c) \<or> missing then Some st
     else do {
       (ok, buf', g1) \<leftarrow> fill_buf (c_type c) (c_cache c) (c_cache_data c) 0 buf g;
       if \<not> ok then Some (buf', g1)
       else if c_ptrtgt c \<noteq> None then process_ptrmem ci 0 junk (buf', g1)
       else do {
         g2 \<leftarrow> change_memory ci None buf' 0 junk g1;
         Some (buf', g2) } } })"

primrec process_entries ::
  "value_t \<Rightarrow> nat option \<Rightarrow> nat list \<Rightarrow> value_t \<times> game \<Rightarrow> (value_t \<times> game) option" where
  "process_entries junk old [] st = Some st"
| "process_entries junk old (ci # cis) st = do {
     c \<leftarrow> vget (w_cfg (gw (snd st))) ci;
     case c_dynmem c of
       Some di \<Rightarrow>
         if old = Some di then process_entries junk old cis st
         else do {
           g' \<leftarrow> process_dynmem_cfg_act di junk (snd st);
           process_entries junk (Some di) cis (fst st, g') }
     | None \<Rightarrow> do {
         st' \<leftarrow> process_static ci junk st;
         process_entries junk old cis st' } }"

definition process_act_cfg :: "value_t \<Rightarrow> game \<Rightarrow> game option" where
  "process_act_cfg junk g = do {
     let libs = map CLib [0..<length (w_lib (gw g))];
     let stack = (if w_val_on_stack (gw g) then [CStack] else []);
     g1 \<leftarrow> fold_opt invalidate_caches (COpt # stack @ libs) g;
     (buf, g2) \<leftarrow> process_entries junk None (w_cfg_act (gw g1)) (0, g1);
     fold_opt write_caches (libs @ stack @ [COpt]) g2 }"

text \<open>The bounds of the heap in the values of the heap checks.\<close>

definition heap_check :: "world \<Rightarrow> check_entry \<Rightarrow> check_entry" where
  "heap_check w k =
     (if \<not> k_is_heapchk k then k
      else if k_check k ! 0 = CHECK_EQ \<and> k_check k ! 1 = CHECK_GT
      then k\<lparr>k_value := (k_value k)[0 := w_heap_start w, 1 := w_heap_start w]\<rparr>
      else if k_check k ! 0 = CHECK_LT then k\<lparr>k_value := (k_value k)[0 := w_heap_end w]\<rparr>
      else k)"

definition handle_heap_checks :: "world \<Rightarrow> world" where
  "handle_heap_checks w =
     w\<lparr>w_cfg := map (\<lambda>c. c\<lparr>c_checks := map (heap_check w) (c_checks c)\<rparr>) (w_cfg w)\<rparr>"

end
