(* ===== verification/ProcessInv.thy ===== *)
theory ProcessInv
  imports Process
begin

text \<open>
  The trainer changes the memory of the game only where a config entry says so. Everything else
  that the caches write back is what they have read before.
\<close>

subsection \<open>Reading and writing blocks\<close>

text \<open>The bytes at an address.\<close>

definition mem_at :: "gmem \<Rightarrow> ptr \<Rightarrow> nat \<Rightarrow> byte list" where
  "mem_at mem a n = map (\<lambda>i. the (mem (a + of_nat i))) [0..<n]"

lemma length_mem_at [simp]: "length (mem_at mem a n) = n"
  by (simp add: mem_at_def)

lemma read_upto_length: "length (read_upto mem a n) \<le> n"
  by (induction n arbitrary: a) (auto split: option.split)

lemma read_upto_nth:
  "i < length (read_upto mem a n) \<Longrightarrow> mem (a + of_nat i) = Some (read_upto mem a n ! i)"
proof (induction n arbitrary: a i)
  case (Suc n)
  show ?case
  proof (cases i)
    case 0
    with Suc.prems show ?thesis by (auto split: option.splits)
  next
    case (Suc j)
    with Suc.prems Suc.IH [of j "a + 1"] show ?thesis by (auto split: option.splits simp: add.assoc)
  qed
qed simp

lemma write_upto_frame:
  "(\<And>i. i < length bs \<Longrightarrow> b \<noteq> a + of_nat i) \<Longrightarrow> write_upto a bs mem b = mem b"
proof (induction bs arbitrary: a mem)
  case (Cons x bs)
  have "b \<noteq> a" using Cons.prems [of 0] by simp
  moreover have "b \<noteq> a + 1 + of_nat i" if "i < length bs" for i
    using Cons.prems [of "Suc i"] that by (simp add: algebra_simps)
  ultimately show ?case using Cons.IH by simp
qed simp

text \<open>What is written outside of \<open>F\<close> is what has been there.\<close>

definition mem_ok :: "gmem \<Rightarrow> ptr set \<Rightarrow> gmem \<Rightarrow> bool" where
  "mem_ok mem0 F mem \<longleftrightarrow> dom mem = dom mem0 \<and> (\<forall>a. a \<notin> F \<longrightarrow> mem a = mem0 a)"

lemma write_upto_ok:
  "mem_ok mem0 F mem \<Longrightarrow>
   (\<And>i. i < length bs \<Longrightarrow> a + of_nat i \<in> F \<or> mem0 (a + of_nat i) = Some (bs ! i)) \<Longrightarrow>
   mem_ok mem0 F (write_upto a bs mem)"
proof (induction bs arbitrary: a mem)
  case (Cons x bs)
  show ?case
  proof (cases "mem a")
    case None
    with Cons.prems(1) show ?thesis by simp
  next
    case (Some y)
    have "a \<in> F \<or> mem0 a = Some x" using Cons.prems(2) [of 0] by simp
    then have "mem_ok mem0 F (mem(a \<mapsto> x))" using Cons.prems(1) Some by (auto simp: mem_ok_def)
    moreover have "a + 1 + of_nat i \<in> F \<or> mem0 (a + 1 + of_nat i) = Some (bs ! i)" if "i < length bs" for i
      using Cons.prems(2) [of "Suc i"] that by (simp add: algebra_simps)
    ultimately have "mem_ok mem0 F (write_upto (a + 1) bs (mem(a \<mapsto> x)))" by (rule Cons.IH)
    with Cons.prems(1) show ?thesis by simp
  qed
qed simp

lemma memwrite_ok:
  assumes "mem_ok mem0 F mem" "\<And>i. i < length bs \<Longrightarrow> a + of_nat i \<in> F \<or> mem0 (a + of_nat i) = Some (bs ! i)"
  shows "mem_ok mem0 F (memwrite a bs mem)"
  using assms write_upto_ok [OF assms] by (simp add: memwrite_def)

subsection \<open>Cache lists\<close>

lemma cache_list_set:
  "cache_list own' w = Some cl' \<Longrightarrow>
     cache_list own (set_cache_list own' cl w) = (if own = own' then Some cl else cache_list own w)"
  by (cases own'; cases own) (auto simp: cache_list_def set_cache_list_def vget_def)

lemma mod_cacheD:
  assumes "mod_cache r f w = Some w'"
  shows "\<exists>cl c. cache_list (fst r) w = Some cl \<and> get_cache r w = Some c \<and> snd r < length cl \<and> c = cl ! snd r \<and>
    w' = set_cache_list (fst r) (cl[snd r := f c]) w \<and> get_cache r w' = Some (f c) \<and>
    (\<forall>own. cache_list own w' = (if own = fst r then Some (cl[snd r := f c]) else cache_list own w))"
  using assms cache_list_set
  by (fastforce simp: mod_cache_def get_cache_def bind_eq_Some_conv vget_Some_iff)

subsection \<open>The static part of the configuration\<close>

definition kview where "kview k = (k_type k, k_cache k)"

definition cview where
  "cview c = (c_addr c, c_type c, c_dynval c, c_cache c, c_cache_data c, c_dynmem c, c_ptrtgt c, c_ptrmem c,
     map kview (c_checks c))"

definition pview where "pview p = (p_cfg_act p, p_dynmem p)"

definition offs_of :: "cache_owner \<Rightarrow> world \<Rightarrow> ptr list option" where
  "offs_of own w = map_option (map ca_offs) (cache_list own w)"

text \<open>Kicking out objects zeroes addresses; nothing else of the configuration changes.\<close>

definition kicked :: "ptr list \<Rightarrow> ptr list \<Rightarrow> bool" where
  "kicked xs ys \<longleftrightarrow> length ys = length xs \<and> (\<forall>i < length xs. ys ! i = xs ! i \<or> ys ! i = 0)"

definition same_cfg :: "world \<Rightarrow> world \<Rightarrow> bool" where
  "same_cfg w w' \<longleftrightarrow> map cview (w_cfg w') = map cview (w_cfg w) \<and>
     map d_cfg_act (w_dyn w') = map d_cfg_act (w_dyn w) \<and> map pview (w_ptr w') = map pview (w_ptr w) \<and>
     (\<forall>di < length (w_dyn w). kicked (d_v_maddr (w_dyn w ! di)) (d_v_maddr (w_dyn w' ! di))) \<and>
     (\<forall>own. offs_of own w' = offs_of own w) \<and>
     w_cfg_act w' = w_cfg_act w \<and> length (w_lib w') = length (w_lib w) \<and> w_val_on_stack w' = w_val_on_stack w"

lemma kicked_refl [simp]: "kicked xs xs"
  by (simp add: kicked_def)

lemma kicked_trans: "kicked xs ys \<Longrightarrow> kicked ys zs \<Longrightarrow> kicked xs zs"
  unfolding kicked_def by metis

lemma same_cfg_refl [simp]: "same_cfg w w"
  by (simp add: same_cfg_def)

lemma same_cfg_lengths:
  assumes "same_cfg w w'"
  shows "length (w_cfg w') = length (w_cfg w)" "length (w_dyn w') = length (w_dyn w)"
proof -
  from assms have "map cview (w_cfg w') = map cview (w_cfg w)" "map d_cfg_act (w_dyn w') = map d_cfg_act (w_dyn w)"
    by (simp_all add: same_cfg_def)
  then show "length (w_cfg w') = length (w_cfg w)" "length (w_dyn w') = length (w_dyn w)"
    by (auto dest: map_eq_imp_length_eq)
qed

lemma same_cfg_trans:
  assumes "same_cfg w w'" "same_cfg w' w''" shows "same_cfg w w''"
  using assms same_cfg_lengths [OF assms(1)] unfolding same_cfg_def
  by (auto intro: kicked_trans)

lemma same_cfg_cfg:
  assumes "same_cfg w w'" "ci < length (w_cfg w)"
  shows "cview (w_cfg w' ! ci) = cview (w_cfg w ! ci)" "ci < length (w_cfg w')"
proof -
  have m: "map cview (w_cfg w') = map cview (w_cfg w)" using assms(1) by (simp add: same_cfg_def)
  show l: "ci < length (w_cfg w')" using same_cfg_lengths [OF assms(1)] assms(2) by simp
  show "cview (w_cfg w' ! ci) = cview (w_cfg w ! ci)"
    using arg_cong [OF m, of "\<lambda>l. l ! ci"] l assms(2) by simp
qed

text \<open>The single changes.\<close>

lemma same_cfg_caches:
  assumes cl: "cache_list own w = Some cl" and cl': "map ca_offs cl' = map ca_offs cl"
  shows "same_cfg w (set_cache_list own cl' w)"
proof -
  have "offs_of own' (set_cache_list own cl' w) = offs_of own' w" for own'
    using cache_list_set [OF cl, of own' cl'] cl cl' by (simp add: offs_of_def)
  moreover have "w_cfg (set_cache_list own cl' w) = w_cfg w \<and>
      map d_cfg_act (w_dyn (set_cache_list own cl' w)) = map d_cfg_act (w_dyn w) \<and>
      map pview (w_ptr (set_cache_list own cl' w)) = map pview (w_ptr w) \<and>
      (\<forall>di < length (w_dyn w). d_v_maddr (w_dyn (set_cache_list own cl' w) ! di) = d_v_maddr (w_dyn w ! di)) \<and>
      w_cfg_act (set_cache_list own cl' w) = w_cfg_act w \<and>
      length (w_lib (set_cache_list own cl' w)) = length (w_lib w) \<and>
      w_val_on_stack (set_cache_list own cl' w) = w_val_on_stack w"
    using cl by (cases own) (auto simp: set_cache_list_def cache_list_def vget_def map_update nth_list_update
        list_update_same_conv pview_def split: if_splits)
  ultimately show ?thesis by (simp add: same_cfg_def)
qed

lemma same_cfg_cache:
  assumes m: "mod_cache r f w = Some w'" and f: "\<And>c. get_cache r w = Some c \<Longrightarrow> ca_offs (f c) = ca_offs c"
  shows "same_cfg w w'"
proof -
  from mod_cacheD [OF m] obtain cl where cl: "cache_list (fst r) w = Some cl" "snd r < length cl"
    and f: "ca_offs (f (cl ! snd r)) = ca_offs (cl ! snd r)"
    and w': "w' = set_cache_list (fst r) (cl[snd r := f (cl ! snd r)]) w"
    using f by auto
  from f cl(2) have "map ca_offs (cl[snd r := f (cl ! snd r)]) = map ca_offs cl"
    by (simp add: map_update list_update_same_conv)
  from same_cfg_caches [OF cl(1) this] show ?thesis unfolding w' .
qed

lemma mod_cfg_lists:
  assumes "mod_cfg ci f w = Some w'"
  shows "cache_list own w' = cache_list own w" "w_dyn w' = w_dyn w" "w_ptr w' = w_ptr w"
  using assms by (auto simp: mod_cfg_def cache_list_def bind_eq_Some_conv split: cache_owner.split)

lemma same_cfg_mod:
  assumes m: "mod_cfg ci f w = Some w'" and f: "\<And>c c'. f c = Some c' \<Longrightarrow> cview c' = cview c"
  shows "same_cfg w w'"
proof -
  from m obtain c' where c': "ci < length (w_cfg w)" "f (w_cfg w ! ci) = Some c'"
    "w' = w\<lparr>w_cfg := (w_cfg w)[ci := c']\<rparr>"
    by (auto simp: mod_cfg_def bind_eq_Some_conv vget_Some_iff)
  with f [OF c'(2)] have "map cview (w_cfg w') = map cview (w_cfg w)"
    by (simp add: map_update list_update_same_conv)
  with mod_cfg_lists [OF m] c'(3) show ?thesis by (simp add: same_cfg_def offs_of_def)
qed

lemma mod_dyn_lists:
  assumes "mod_dyn di f w = Some w'" "\<And>d d'. f d = Some d' \<Longrightarrow> d_cache_list d' = d_cache_list d"
  shows "cache_list own w' = cache_list own w"
  using assms by (cases own) (auto simp: mod_dyn_def cache_list_def vget_def nth_list_update bind_eq_Some_conv
      split: if_splits)

lemma same_cfg_dyn:
  assumes m: "mod_dyn di f w = Some w'"
    and f: "\<And>d d'. f d = Some d' \<Longrightarrow>
      d_cache_list d' = d_cache_list d \<and> d_cfg_act d' = d_cfg_act d \<and> kicked (d_v_maddr d) (d_v_maddr d')"
  shows "same_cfg w w'"
proof -
  from m obtain d' where d': "di < length (w_dyn w)" "f (w_dyn w ! di) = Some d'"
    "w' = w\<lparr>w_dyn := (w_dyn w)[di := d']\<rparr>"
    by (auto simp: mod_dyn_def bind_eq_Some_conv vget_Some_iff)
  have "offs_of own w' = offs_of own w" for own
    using mod_dyn_lists [OF m] f by (simp add: offs_of_def)
  with f [OF d'(2)] d' show ?thesis
    by (auto simp: same_cfg_def map_update list_update_same_conv nth_list_update)
qed

lemma mod_ptr_lists:
  assumes "mod_ptr pi f w = Some w'" "\<And>p p'. f p = Some p' \<Longrightarrow> p_cache_list p' = p_cache_list p"
  shows "cache_list own w' = cache_list own w"
  using assms by (cases own) (auto simp: mod_ptr_def cache_list_def vget_def nth_list_update bind_eq_Some_conv
      split: if_splits)

lemma same_cfg_mod_ptr:
  assumes m: "mod_ptr pi f w = Some w'"
    and f: "\<And>p p'. f p = Some p' \<Longrightarrow> p_cache_list p' = p_cache_list p \<and> pview p' = pview p"
  shows "same_cfg w w'"
proof -
  from m obtain p' where p': "pi < length (w_ptr w)" "f (w_ptr w ! pi) = Some p'"
    "w' = w\<lparr>w_ptr := (w_ptr w)[pi := p']\<rparr>"
    by (auto simp: mod_ptr_def bind_eq_Some_conv vget_Some_iff)
  have "offs_of own w' = offs_of own w" for own
    using mod_ptr_lists [OF m] f by (simp add: offs_of_def)
  with f [OF p'(2)] p' show ?thesis
    by (auto simp: same_cfg_def map_update list_update_same_conv)
qed


subsection \<open>The invariant\<close>

text \<open>
  \<open>b\<close> says where the owner of a cache is at the moment: 0 for static memory, the address of the
  object that is processed for a class; without one the caches are only known to be clean. A valid
  cache starts there and differs from the original memory only in \<open>F\<close>; a dirty cache is valid.
\<close>

definition cache_inv :: "ptr option \<Rightarrow> gmem \<Rightarrow> ptr set \<Rightarrow> cache_entry \<Rightarrow> bool" where
  "cache_inv b mem0 F c \<longleftrightarrow> (case b of
     None \<Rightarrow> \<not> ca_is_dirty c
   | Some b \<Rightarrow> (ca_is_dirty c \<longrightarrow> ca_start c \<noteq> PTR_MAX) \<and>
     (ca_start c \<noteq> PTR_MAX \<longrightarrow> ca_start c = b + ca_offs c \<and> MEM_CHUNK \<le> length (ca_data c) \<and>
        (\<forall>i < MEM_CHUNK. ca_start c + of_nat i \<in> F \<or> mem0 (ca_start c + of_nat i) = Some (ca_data c ! i))))"

text \<open>\<open>R\<close>: the caches that are filled for sure.\<close>

definition game_inv ::
  "(cache_owner \<Rightarrow> ptr option) \<Rightarrow> gmem \<Rightarrow> ptr set \<Rightarrow> world \<Rightarrow> cache_ref set \<Rightarrow> game \<Rightarrow> bool" where
  "game_inv base mem0 F w0 R g \<longleftrightarrow> same_cfg w0 (gw g) \<and> mem_ok mem0 F (gmem g) \<and> mem0 PTR_MAX = None \<and>
     (\<forall>own cl. cache_list own (gw g) = Some cl \<longrightarrow> (\<forall>c \<in> set cl. cache_inv (base own) mem0 F c)) \<and>
     (\<forall>r \<in> R. \<exists>c. get_cache r (gw g) = Some c \<and> ca_start c \<noteq> PTR_MAX)"

lemma game_invD:
  assumes "game_inv base mem0 F w0 R g"
  shows "same_cfg w0 (gw g)" "mem_ok mem0 F (gmem g)" "mem0 PTR_MAX = None"
    "get_cache r (gw g) = Some c \<Longrightarrow> cache_inv (base (fst r)) mem0 F c"
    "r \<in> R \<Longrightarrow> \<exists>c. get_cache r (gw g) = Some c \<and> ca_start c \<noteq> PTR_MAX"
  using assms by (auto simp: game_inv_def get_cache_def bind_eq_Some_conv vget_Some_iff)

lemma game_inv_mono: "game_inv base mem0 F w0 R g \<Longrightarrow> R' \<subseteq> R \<Longrightarrow> game_inv base mem0 F w0 R' g"
  by (auto simp: game_inv_def)

text \<open>A change of the world that leaves the caches alone.\<close>

lemma game_inv_world:
  assumes "game_inv base mem0 F w0 R g" "same_cfg (gw g) w'" "\<And>own. cache_list own w' = cache_list own (gw g)"
  shows "game_inv base mem0 F w0 R (g\<lparr>gw := w'\<rparr>)"
  using assms same_cfg_trans by (auto simp: game_inv_def get_cache_def)

lemma game_inv_mod_cfg:
  assumes "game_inv base mem0 F w0 R g" "mod_cfg ci f (gw g) = Some w'" "\<And>c c'. f c = Some c' \<Longrightarrow> cview c' = cview c"
  shows "game_inv base mem0 F w0 R (g\<lparr>gw := w'\<rparr>)"
  by (rule game_inv_world [OF assms(1) same_cfg_mod [OF assms(2,3)] mod_cfg_lists(1) [OF assms(2)]])

lemma game_inv_mod_dyn:
  assumes "game_inv base mem0 F w0 R g" "mod_dyn di f (gw g) = Some w'"
    "\<And>d d'. f d = Some d' \<Longrightarrow>
      d_cache_list d' = d_cache_list d \<and> d_cfg_act d' = d_cfg_act d \<and> kicked (d_v_maddr d) (d_v_maddr d')"
  shows "game_inv base mem0 F w0 R (g\<lparr>gw := w'\<rparr>)"
proof (rule game_inv_world [OF assms(1) same_cfg_dyn [OF assms(2)]])
  show "cache_list own w' = cache_list own (gw g)" for own
    by (rule mod_dyn_lists [OF assms(2)]) (simp add: assms(3))
qed (rule assms(3))

lemma game_inv_mod_ptr:
  assumes "game_inv base mem0 F w0 R g" "mod_ptr pi f (gw g) = Some w'"
    "\<And>p p'. f p = Some p' \<Longrightarrow> p_cache_list p' = p_cache_list p \<and> pview p' = pview p"
  shows "game_inv base mem0 F w0 R (g\<lparr>gw := w'\<rparr>)"
proof (rule game_inv_world [OF assms(1) same_cfg_mod_ptr [OF assms(2)]])
  show "cache_list own w' = cache_list own (gw g)" for own
    by (rule mod_ptr_lists [OF assms(2)]) (simp add: assms(3))
qed (rule assms(3))

text \<open>A change of one cache that leaves its place alone and keeps it filled.\<close>

lemma game_inv_mod_cache:
  assumes g: "game_inv base mem0 F w0 R g" and m: "mod_cache r f (gw g) = Some w'"
    and f: "\<And>c. get_cache r (gw g) = Some c \<Longrightarrow> cache_inv (base (fst r)) mem0 F (f c)"
      "\<And>c. get_cache r (gw g) = Some c \<Longrightarrow> ca_offs (f c) = ca_offs c"
      "\<And>c. get_cache r (gw g) = Some c \<Longrightarrow> ca_start c \<noteq> PTR_MAX \<Longrightarrow> ca_start (f c) \<noteq> PTR_MAX"
  shows "game_inv base mem0 F w0 R (g\<lparr>gw := w'\<rparr>)"
proof -
  from mod_cacheD [OF m] obtain cl c where c: "get_cache r (gw g) = Some c" "get_cache r w' = Some (f c)"
    and cl: "cache_list (fst r) (gw g) = Some cl"
    and own: "\<forall>own. cache_list own w' = (if own = fst r then Some (cl[snd r := f c]) else cache_list own (gw g))"
    by auto
  have "\<forall>c' \<in> set (cl[snd r := f c]). cache_inv (base (fst r)) mem0 F c'"
    using g cl f(1) [OF c(1)] set_update_subset_insert [of cl "snd r" "f c"] by (auto simp: game_inv_def)
  moreover have "get_cache r' w' = get_cache r' (gw g)" if "r' \<noteq> r" for r'
    using that own cl by (cases r; cases r') (auto simp: get_cache_def vget_def)
  moreover have "\<exists>c. get_cache r w' = Some c \<and> ca_start c \<noteq> PTR_MAX" if "r \<in> R"
    using game_invD(5) [OF g that] f(3) [OF c(1)] c by auto
  ultimately show ?thesis
    using own g same_cfg_trans [OF _ same_cfg_cache [OF m f(2)]] unfolding game_inv_def
    by (simp, metis (no_types, lifting))
qed

subsection \<open>Filling\<close>

lemma fill_cache_inv:
  assumes c: "cache_inv (Some b) mem0 F c" and mem: "mem_ok mem0 F mem" "mem0 PTR_MAX = None"
    and f: "fill_cache mem (b + ca_offs c) c = Some (c', ok)"
  shows "cache_inv (Some b) mem0 F c' \<and> ca_offs c' = ca_offs c \<and> (ok \<longrightarrow> ca_start c' \<noteq> PTR_MAX) \<and>
    (ca_start c \<noteq> PTR_MAX \<longrightarrow> ca_start c' \<noteq> PTR_MAX)"
proof (cases "ca_start c = PTR_MAX")
  case False
  with f c show ?thesis by (auto simp: fill_cache_def)
next
  case True
  let ?a = "b + ca_offs c" and ?bs = "read_upto mem (b + ca_offs c) MEM_CHUNK"
  have d: "\<not> ca_is_dirty c" using c True by (simp add: cache_inv_def)
  show ?thesis
  proof (cases "?a \<noteq> 0 \<and> length ?bs = MEM_CHUNK")
    case full: True
    have read: "?a + of_nat i \<in> F \<or> mem0 (?a + of_nat i) = Some (?bs ! i)" if "i < MEM_CHUNK" for i
      using mem(1) read_upto_nth [of i mem ?a MEM_CHUNK] that full by (auto simp: mem_ok_def)
    have "0 < length ?bs" using full by (simp add: MEM_CHUNK_def)
    from read_upto_nth [OF this] have "mem ?a \<noteq> None" by simp
    moreover have "PTR_MAX \<in> dom mem \<longleftrightarrow> PTR_MAX \<in> dom mem0" using mem(1) by (simp add: mem_ok_def)
    with mem(2) have "mem PTR_MAX = None" by (simp add: domIff)
    ultimately have a: "?a \<noteq> PTR_MAX" by auto
    from f full True have c': "c' = c\<lparr>ca_data := ?bs @ drop MEM_CHUNK (ca_data c), ca_start := ?a\<rparr>" "ok"
      "MEM_CHUNK \<le> length (ca_data c)"
      by (auto simp: fill_cache_def memread_def Let_def MEM_CHUNK_def split: if_splits)
    have "?a + of_nat i \<in> F \<or> mem0 (?a + of_nat i) = Some (ca_data c' ! i)" if "i < MEM_CHUNK" for i
      using read [OF that] that full c'(1) by (simp add: nth_append)
    with c' full a d show ?thesis by (simp add: cache_inv_def)
  next
    case False
    with f True d show ?thesis
      by (auto simp: fill_cache_def memread_def Let_def cache_inv_def MEM_CHUNK_def split: if_splits)
  qed
qed

lemma fill_buf_inv:
  assumes g: "game_inv base mem0 F w0 R g" and f: "fill_buf ty cache cd mo buf g = Some (ok, buf', g')"
    and b: "\<And>r. cache = Some r \<Longrightarrow> base (fst r) = Some mo"
  shows "game_inv base mem0 F w0 (if ok \<and> \<not> t_is_cstr ty then insert (the cache) R else R) g'"
proof (cases "t_is_cstr ty")
  case True
  with f g show ?thesis by (simp add: fill_buf_def)
next
  case False
  with f obtain r c c' w' where r: "cache = Some r" and c: "get_cache r (gw g) = Some c"
    and fc: "fill_cache (gmem g) (mo + ca_offs c) c = Some (c', ok)"
    and w': "mod_cache r (\<lambda>_. c') (gw g) = Some w'" and g': "g' = g\<lparr>gw := w'\<rparr>"
    by (auto simp: fill_buf_def bind_eq_Some_conv Let_def split: if_splits)
  from fill_cache_inv [OF _ game_invD(2,3) [OF g] fc] game_invD(4) [OF g c] b [OF r]
  have c': "cache_inv (base (fst r)) mem0 F c'" "ca_offs c' = ca_offs c" "ok \<Longrightarrow> ca_start c' \<noteq> PTR_MAX"
    "ca_start c \<noteq> PTR_MAX \<Longrightarrow> ca_start c' \<noteq> PTR_MAX" by auto
  have "game_inv base mem0 F w0 R g'"
    unfolding g' by (rule game_inv_mod_cache [OF g w']) (use c c' in auto)
  moreover from mod_cacheD [OF w'] have "get_cache r (gw g') = Some c'" by (auto simp: g')
  ultimately show ?thesis using c'(3) r False by (auto simp: game_inv_def)
qed

subsection \<open>Checks and changes of a value\<close>

lemma kick_obj_inv:
  assumes "game_inv base mem0 F w0 R g" "kick_obj di (gw g) = Some w'"
  shows "game_inv base mem0 F w0 R (g\<lparr>gw := w'\<rparr>)"
proof (cases di)
  case (Some d)
  show ?thesis
    by (rule game_inv_mod_dyn [OF assms(1), where di = d])
      (use assms(2) Some in \<open>auto simp: kick_obj_def bind_eq_Some_conv vset_Some_iff kicked_def nth_list_update\<close>)
next
  case None
  with assms(2) have "gw g = w'" by (simp add: kick_obj_def)
  then have "g\<lparr>gw := w'\<rparr> = g" by (cases g) simp
  with assms(1) show ?thesis by simp
qed

text \<open>All caches of the checks have their owner at \<open>mo\<close>.\<close>

definition placed :: "(cache_owner \<Rightarrow> ptr option) \<Rightarrow> ptr \<Rightarrow> (val_type \<times> cache_ref option) list \<Rightarrow> bool" where
  "placed base mo kvs \<longleftrightarrow> (\<forall>kv \<in> set kvs. \<forall>r. snd kv = Some r \<longrightarrow> base (fst r) = Some mo)"

lemma check_buf_inv:
  assumes g: "game_inv base mem0 F w0 R g" and c: "check_buf di k mo buf g = Some (res, g')"
    and p: "placed base mo (kview k # kvs)"
  shows "game_inv base mem0 F w0 R g'"
proof (cases "k_cfg_ref k = None \<and> \<not> k_check_obj_num k")
  case True
  with c obtain ok buf' where "fill_buf (k_type k) (k_cache k) (k_cache_data k) mo buf g = Some (ok, buf', g')"
    by (auto simp: check_buf_def bind_eq_Some_conv)
  from fill_buf_inv [OF g this] p show ?thesis
    by (auto simp: placed_def kview_def intro: game_inv_mono split: if_splits)
qed (use c g in \<open>auto simp: check_buf_def bind_eq_Some_conv split: option.splits if_splits\<close>)

lemma process_checks_inv:
  assumes "game_inv base mem0 F w0 R g" "process_checks di ks mo buf g = Some (passed, g')"
    "placed base mo (map kview ks)"
  shows "game_inv base mem0 F w0 R g'"
  using assms
proof (induction ks arbitrary: buf g)
  case (Cons k ks)
  from Cons.prems(2) obtain missing where lib: "lib_missing (k_type k) (gw g) = Some missing"
    by (auto simp: bind_eq_Some_conv)
  show ?case
  proof (cases "t_on_stack (k_type k) \<or> missing")
    case True
    with Cons.prems lib show ?thesis by simp
  next
    case False
    with Cons.prems(2) lib obtain r g1 where r: "check_buf di k mo buf g = Some (r, g1)"
      by (auto simp: bind_eq_Some_conv)
    from Cons.prems(3) have p: "placed base mo (map kview ks)" by (simp add: placed_def)
    from check_buf_inv [OF Cons.prems(1) r] Cons.prems(3) have g1: "game_inv base mem0 F w0 R g1" by simp
    show ?thesis
    proof (cases r)
      case (Inl u)
      with Cons.prems(2) lib False r g1 show ?thesis by simp
    next
      case (Inr b)
      show ?thesis
      proof (cases b)
        case None
        with Cons.prems(2) lib False r Inr have "process_checks di ks mo buf g1 = Some (passed, g')" by simp
        from Cons.IH [OF g1 this p] show ?thesis .
      next
        case (Some buf')
        with Cons.prems(2) lib False r Inr obtain ok where "or_check_memory k buf' = Some ok"
          and "if ok then process_checks di ks mo buf' g1 = Some (passed, g')
            else \<exists>w'. (if k_is_objcheck k then kick_obj di (gw g1) else Some (gw g1)) = Some w' \<and> g' = g1\<lparr>gw := w'\<rparr>"
          by (auto simp: bind_eq_Some_conv split: if_splits)
        with Cons.IH [OF g1 _ p] kick_obj_inv [OF g1] g1 show ?thesis by (auto split: if_splits)
      qed
    qed
  qed
qed simp

lemma upd_inv:
  assumes "game_inv base mem0 F w0 R g"
  shows "upd_old ci i f (gw g) = Some w' \<Longrightarrow> game_inv base mem0 F w0 R (g\<lparr>gw := w'\<rparr>)"
    and "upd_value ci i f (gw g) = Some w' \<Longrightarrow> game_inv base mem0 F w0 R (g\<lparr>gw := w'\<rparr>)"
    and "upd_cstr ci i h (gw g) = Some w' \<Longrightarrow> game_inv base mem0 F w0 R (g\<lparr>gw := w'\<rparr>)"
  unfolding upd_old_def upd_value_def upd_cstr_def
  by (erule game_inv_mod_cfg [OF assms]; auto simp: bind_eq_Some_conv cview_def)+

text \<open>At most the value or the string of the entry changes.\<close>

lemma handle_dynval_effect:
  assumes h: "handle_dynval ct ci i rv mo g = Some g'"
  shows "g' = g \<or> (\<exists>w'. g' = g\<lparr>gw := w'\<rparr> \<and>
    (w' = gw g \<or> (\<exists>f. upd_value ci i f (gw g) = Some w') \<or> (\<exists>f. upd_cstr ci i f (gw g) = Some w')))"
proof -
  from h obtain c v where c: "vget (w_cfg (gw g)) ci = Some c" and v: "get_slot i (c_value c) (c_v_value c) = Some v"
    by (auto simp: handle_dynval_def bind_eq_Some_conv Let_def)
  show ?thesis
  proof (cases "c_dynval c")
    case DYN_VAL_ADDR
    with h c v show ?thesis
      by (cases "c_cfg_ref c")
        (auto simp: handle_dynval_def bind_eq_Some_conv Let_def split: option.splits if_splits prod.splits)
  next
    case DYN_VAL_WATCH
    with h c v obtain s where s: "get_slot i (c_cstr c) (c_v_cstr c) = Some s"
      by (auto simp: handle_dynval_def Let_def bind_eq_Some_conv)
    show ?thesis
    proof (cases s)
      case None
      with h c v s DYN_VAL_WATCH show ?thesis by (auto simp: handle_dynval_def Let_def)
    next
      case (Some t)
      with h c v s DYN_VAL_WATCH obtain a where a: "watch_addr ct c rv mo = Some a"
        by (auto simp: handle_dynval_def Let_def bind_eq_Some_conv)
      with h c v s Some DYN_VAL_WATCH show ?thesis
        by (cases a) (auto simp: handle_dynval_def Let_def bind_eq_Some_conv split: if_splits)
    qed
  qed (use h c v in \<open>auto simp: handle_dynval_def Let_def split: if_splits bind_splits\<close>)
qed

lemma handle_dynval_inv:
  assumes g: "game_inv base mem0 F w0 R g" and h: "handle_dynval ct ci i rv mo g = Some g'"
  shows "game_inv base mem0 F w0 R g'"
proof -
  have "g\<lparr>gw := gw g\<rparr> = g" by (cases g) simp
  with handle_dynval_effect [OF h] show ?thesis using g upd_inv [OF g] by auto
qed

subsection \<open>Storing a value\<close>

text \<open>The bytes that an entry writes if it is processed for the address \<open>mo\<close>.\<close>

definition written_len :: "val_type \<Rightarrow> nat" where
  "written_len ty = (case value_type ty of None \<Rightarrow> 0 | Some ct \<Rightarrow> width ct div 8)"

definition written_at :: "ptr \<Rightarrow> cfg_entry \<Rightarrow> ptr set" where
  "written_at mo c = {mo + c_addr c + of_nat j | j. j < written_len (c_type c)}"

text \<open>
  An entry that is set up correctly: its caches and those of its checks belong to an owner that is
  at \<open>mo\<close>, its own cache covers its address, and strings are only watched.
\<close>

definition set_up :: "(cache_owner \<Rightarrow> ptr option) \<Rightarrow> world \<Rightarrow> ptr \<Rightarrow> cfg_entry \<Rightarrow> bool" where
  "set_up base w mo c \<longleftrightarrow>
     (\<forall>r. c_cache c = Some r \<longrightarrow> base (fst r) = Some mo \<and>
        (\<exists>offs. offs_of (fst r) w = Some offs \<and> snd r < length offs \<and>
           offs ! snd r + of_nat (c_cache_data c) = c_addr c)) \<and>
     (t_is_cstr (c_type c) \<longrightarrow> c_dynval c = DYN_VAL_WATCH) \<and>
     placed base mo (map kview (c_checks c))"

definition entry_ok :: "(cache_owner \<Rightarrow> ptr option) \<Rightarrow> ptr set \<Rightarrow> world \<Rightarrow> ptr \<Rightarrow> cfg_entry \<Rightarrow> bool" where
  "entry_ok base F w mo c \<longleftrightarrow> set_up base w mo c \<and> written_at mo c \<subseteq> F"

lemmas entry_ok_iff = entry_ok_def [unfolded set_up_def]

lemma entry_ok_view: "cview c = cview c' \<Longrightarrow> entry_ok base F w mo c = entry_ok base F w mo c'"
  by (simp add: entry_ok_iff cview_def written_at_def)

lemma get_cache_offs:
  "offs_of own w = Some offs \<Longrightarrow> i < length offs \<Longrightarrow> get_cache (own, i) w = Some ce \<Longrightarrow> ca_offs ce = offs ! i"
  by (auto simp: offs_of_def get_cache_def bind_eq_Some_conv vget_Some_iff)

lemma store_value_inv:
  assumes g: "game_inv base mem0 F w0 R g" and s: "store_value ct c v (gw g) = Some w'"
    and ok: "entry_ok base F w0 mo c" and ct: "value_type (c_type c) = Some ct" and r: "the (c_cache c) \<in> R"
  shows "game_inv base mem0 F w0 R (g\<lparr>gw := w'\<rparr>)"
proof -
  let ?p = "c_cache_data c" and ?bs = "value_bytes (width ct div 8) v"
  let ?f = "\<lambda>ce. ce\<lparr>ca_data := take ?p (ca_data ce) @ ?bs @ drop (?p + length ?bs) (ca_data ce), ca_is_dirty := True\<rparr>"
  from s obtain r ce where cache: "c_cache c = Some r" and ce: "get_cache r (gw g) = Some ce"
    and len: "?p + length ?bs \<le> length (ca_data ce)" and m: "mod_cache r ?f (gw g) = Some w'"
    by (auto simp: store_value_def bind_eq_Some_conv Let_def split: if_splits)
  have start: "ca_start ce \<noteq> PTR_MAX" using game_invD(5) [OF g r] cache ce by simp
  from ok cache obtain offs where base: "base (fst r) = Some mo" and offs: "offs_of (fst r) w0 = Some offs"
    "snd r < length offs" "offs ! snd r + of_nat ?p = c_addr c" by (auto simp: entry_ok_iff)
  from game_invD(1) [OF g] offs(1) have "offs_of (fst r) (gw g) = Some offs" by (simp add: same_cfg_def)
  from get_cache_offs [OF this offs(2)] ce offs(3) have addr: "ca_offs ce + of_nat ?p = c_addr c" by simp
  from game_invD(4) [OF g ce] start base have inv: "ca_start ce = mo + ca_offs ce" "MEM_CHUNK \<le> length (ca_data ce)"
    "\<And>i. i < MEM_CHUNK \<Longrightarrow> ca_start ce + of_nat i \<in> F \<or> mem0 (ca_start ce + of_nat i) = Some (ca_data ce ! i)"
    by (auto simp: cache_inv_def)
  have "ca_start ce + of_nat i \<in> F \<or> mem0 (ca_start ce + of_nat i) = Some (ca_data (?f ce) ! i)" if "i < MEM_CHUNK" for i
  proof (cases "?p \<le> i \<and> i < ?p + length ?bs")
    case True
    then have "i - ?p < written_len (c_type c)" by (auto simp: written_len_def ct value_bytes_def)
    moreover have "ca_start ce + of_nat i = mo + c_addr c + of_nat (i - ?p)"
      using True inv(1) by (simp add: of_nat_diff flip: addr)
    ultimately have "ca_start ce + of_nat i \<in> written_at mo c" by (auto simp: written_at_def)
    with ok show ?thesis by (auto simp: entry_ok_iff)
  next
    case False
    with len have "ca_data (?f ce) ! i = ca_data ce ! i" by (auto simp: nth_append)
    with inv(3) [OF that] show ?thesis by simp
  qed
  with inv len start base have "cache_inv (base (fst r)) mem0 F (?f ce)" by (simp add: cache_inv_def)
  with ce start show ?thesis by (intro game_inv_mod_cache [OF g m]) auto
qed

lemma inv_entry:
  assumes "game_inv base mem0 F w0 R g" "vget (w_cfg (gw g)) ci = Some c" "entry_ok base F w0 mo (w_cfg w0 ! ci)"
  shows "entry_ok base F w0 mo c" "ci < length (w_cfg w0)" "cview c = cview (w_cfg w0 ! ci)"
proof -
  have same: "same_cfg w0 (gw g)" by (rule game_invD [OF assms(1)])
  from assms(2) same_cfg_lengths [OF same] show ci: "ci < length (w_cfg w0)" by (simp add: vget_Some_iff)
  from same_cfg_cfg [OF same ci] assms(2) show v: "cview c = cview (w_cfg w0 ! ci)" by (simp add: vget_Some_iff)
  from entry_ok_view [OF v] assms(3) show "entry_ok base F w0 mo c" by simp
qed

lemma change_mem_val_inv:
  assumes g: "game_inv base mem0 F w0 R g" and h: "change_mem_val ct ci rv v mo junk g = Some g'"
    and ok: "entry_ok base F w0 mo (w_cfg w0 ! ci)" and ct: "value_type (c_type (w_cfg w0 ! ci)) = Some ct"
    and r: "\<not> t_is_cstr (c_type (w_cfg w0 ! ci)) \<Longrightarrow> the (c_cache (w_cfg w0 ! ci)) \<in> R"
  shows "game_inv base mem0 F w0 R g'"
proof -
  from h obtain c where c: "vget (w_cfg (gw g)) ci = Some c" by (auto simp: change_mem_val_def bind_eq_Some_conv)
  note e = inv_entry [OF g c ok]
  from e(3) have ct': "value_type (c_type c) = Some ct" using ct by (simp add: cview_def)
  show ?thesis
  proof (cases "c_dynval c = DYN_VAL_WATCH")
    case True
    with h c g show ?thesis by (simp add: change_mem_val_def)
  next
    case False
    with h c obtain passed g1 where pc: "process_checks (c_dynmem c) (c_checks c) mo junk g = Some (passed, g1)"
      by (auto simp: change_mem_val_def bind_eq_Some_conv)
    have g1: "game_inv base mem0 F w0 R g1"
      by (rule process_checks_inv [OF g pc]) (use e in \<open>simp add: entry_ok_iff\<close>)
    let ?skip = "\<not> passed \<or> \<not> check_mem_val ct rv v (c_check c) \<or> c_cfg_ref c \<noteq> None \<and> val_eq ct v 0"
    show ?thesis
    proof (cases ?skip)
      case True
      with h c False pc g1 show ?thesis by (simp add: change_mem_val_def)
    next
      case store: False
      with h c False pc have "store_value ct c v (gw g1) \<bind>
          (\<lambda>w'. mod_cfg ci (\<lambda>c. Some (c\<lparr>c_val_set := True\<rparr>)) w' \<bind> (\<lambda>w''. Some (g1\<lparr>gw := w''\<rparr>))) = Some g'"
        by (auto simp: change_mem_val_def split: if_split_asm)
      then obtain w' w'' where 2: "store_value ct c v (gw g1) = Some w'" "g' = g1\<lparr>gw := w''\<rparr>"
        "mod_cfg ci (\<lambda>c. Some (c\<lparr>c_val_set := True\<rparr>)) w' = Some w''"
        by (auto simp: bind_eq_Some_conv)
      have "the (c_cache c) \<in> R" using r e False by (auto simp: cview_def entry_ok_iff)
      from game_inv_mod_cfg [OF store_value_inv [OF g1 2(1) e(1) ct' this], of ci] 2(2,3)
      show ?thesis by (force simp: cview_def)
    qed
  qed
qed

lemma change_memory_inv:
  assumes g: "game_inv base mem0 F w0 R g" and h: "change_memory ci i buf mo junk g = Some g'"
    and ok: "entry_ok base F w0 mo (w_cfg w0 ! ci)"
    and r: "\<not> t_is_cstr (c_type (w_cfg w0 ! ci)) \<Longrightarrow> the (c_cache (w_cfg w0 ! ci)) \<in> R"
  shows "game_inv base mem0 F w0 R g'"
proof -
  from h obtain w1 c where w1: "mod_cfg ci (\<lambda>c. Some (c\<lparr>c_val_set := False\<rparr>)) (gw g) = Some w1"
    and c: "vget (w_cfg w1) ci = Some c" by (auto simp: change_memory_def bind_eq_Some_conv)
  have g1: "game_inv base mem0 F w0 R (g\<lparr>gw := w1\<rparr>)"
    by (rule game_inv_mod_cfg [OF g w1]) (auto simp: cview_def)
  from inv_entry [OF g1 _ ok, of c] c have view: "cview c = cview (w_cfg w0 ! ci)" by simp
  show ?thesis
  proof (cases "value_type (c_type c)")
    case None
    with h w1 c have "g' = g\<lparr>gw := w1\<rparr>" by (auto simp: change_memory_def bind_eq_Some_conv)
    with g1 show ?thesis by simp
  next
    case (Some ct)
    with h w1 c obtain w2 g3 v where w2: "upd_old ci i (\<lambda>ov. put (width ct) ov buf) w1 = Some w2"
      and g3: "handle_dynval ct ci i buf mo (g\<lparr>gw := w2\<rparr>) = Some g3"
      and g': "change_mem_val ct ci buf v mo junk g3 = Some g'"
      by (auto simp: change_memory_def bind_eq_Some_conv)
    from upd_inv(1) [OF g1] w2 have g2: "game_inv base mem0 F w0 R (g\<lparr>gw := w2\<rparr>)" by simp
    show ?thesis
      by (rule change_mem_val_inv [OF handle_dynval_inv [OF g2 g3] g' ok _ r])
        (use Some view in \<open>simp_all add: cview_def\<close>)
  qed
qed

subsection \<open>Writing back\<close>

lemma write_cache_inv:
  assumes g: "game_inv base mem0 F w0 R g" and w: "write_cache i own g = Some g'"
  shows "game_inv base mem0 F w0 R g' \<and> (\<forall>c. get_cache (own, i) (gw g') = Some c \<longrightarrow> \<not> ca_is_dirty c) \<and>
    (\<forall>r c'. get_cache r (gw g') = Some c' \<longrightarrow> ca_is_dirty c' \<longrightarrow> (\<exists>c. get_cache r (gw g) = Some c \<and> ca_is_dirty c))"
proof -
  from w obtain c where c: "get_cache (own, i) (gw g) = Some c" by (auto simp: write_cache_def bind_eq_Some_conv)
  show ?thesis
  proof (cases "ca_is_dirty c")
    case False
    with w c g show ?thesis by (auto simp: write_cache_def)
  next
    case True
    with w c obtain w' where w': "mod_cache (own, i) clear_dirty (gw g) = Some w'"
      and len: "MEM_CHUNK \<le> length (ca_data c)"
      and g': "g' = g\<lparr>gw := w', gmem := memwrite (ca_start c) (take MEM_CHUNK (ca_data c)) (gmem g)\<rparr>"
      by (auto simp: write_cache_def bind_eq_Some_conv split: if_splits)
    from game_invD(4) [OF g c] True have b: "base own \<noteq> None" "ca_start c \<noteq> PTR_MAX"
      "\<And>i. i < MEM_CHUNK \<Longrightarrow> ca_start c + of_nat i \<in> F \<or> mem0 (ca_start c + of_nat i) = Some (ca_data c ! i)"
      by (auto simp: cache_inv_def split: option.splits)
    have "mem_ok mem0 F (memwrite (ca_start c) (take MEM_CHUNK (ca_data c)) (gmem g))"
      by (rule memwrite_ok [OF game_invD(2) [OF g]]) (use b(3) in auto)
    moreover have "game_inv base mem0 F w0 R (g\<lparr>gw := w'\<rparr>)"
      by (rule game_inv_mod_cache [OF g w'])
        (use game_invD(4) [OF g, of "(own, i)"] in \<open>auto simp: clear_dirty_def cache_inv_def split: option.splits\<close>)
    ultimately have "game_inv base mem0 F w0 R g'" by (simp add: game_inv_def g')
    moreover have other: "get_cache r w' = get_cache r (gw g)" if "r \<noteq> (own, i)" for r
      using mod_cacheD [OF w'] that by (cases r) (auto simp: get_cache_def vget_def)
    moreover have own: "get_cache (own, i) w' = Some (clear_dirty c)" using mod_cacheD [OF w'] c by auto
    moreover have "\<exists>c. get_cache r (gw g) = Some c \<and> ca_is_dirty c"
      if "get_cache r w' = Some c'" "ca_is_dirty c'" for r c'
      using that own other [of r] by (cases "r = (own, i)") (auto simp: clear_dirty_def)
    ultimately show ?thesis unfolding g' by (auto simp: clear_dirty_def)
  qed
qed

definition clean :: "cache_owner \<Rightarrow> world \<Rightarrow> bool" where
  "clean own w \<longleftrightarrow> (\<forall>cl. cache_list own w = Some cl \<longrightarrow> (\<forall>c \<in> set cl. \<not> ca_is_dirty c))"

lemma clean_iff: "clean own w \<longleftrightarrow> (\<forall>i c. get_cache (own, i) w = Some c \<longrightarrow> \<not> ca_is_dirty c)"
  by (force simp: clean_def get_cache_def bind_eq_Some_conv vget_Some_iff in_set_conv_nth)

lemma write_list_inv:
  assumes "game_inv base mem0 F w0 R g" "fold_opt (\<lambda>i. write_cache i own) xs g = Some g'"
  shows "game_inv base mem0 F w0 R g' \<and> (\<forall>i \<in> set xs. \<forall>c. get_cache (own, i) (gw g') = Some c \<longrightarrow> \<not> ca_is_dirty c) \<and>
    (\<forall>r c'. get_cache r (gw g') = Some c' \<longrightarrow> ca_is_dirty c' \<longrightarrow> (\<exists>c. get_cache r (gw g) = Some c \<and> ca_is_dirty c))"
  using assms
proof (induction xs arbitrary: g)
  case (Cons i xs)
  from Cons.prems(2) obtain g1 where g1: "write_cache i own g = Some g1"
    "fold_opt (\<lambda>i. write_cache i own) xs g1 = Some g'" by (auto simp: bind_eq_Some_conv)
  note w = write_cache_inv [OF Cons.prems(1) g1(1)]
  note IH = Cons.IH [OF conjunct1 [OF w] g1(2)]
  have "\<not> ca_is_dirty c" if "get_cache (own, i) (gw g') = Some c" for c
  proof
    assume "ca_is_dirty c"
    with IH that obtain c1 where "get_cache (own, i) (gw g1) = Some c1" "ca_is_dirty c1" by blast
    with w show False by blast
  qed
  moreover have "\<exists>c. get_cache r (gw g) = Some c \<and> ca_is_dirty c"
    if "get_cache r (gw g') = Some c'" "ca_is_dirty c'" for r c'
  proof -
    from IH that obtain c1 where "get_cache r (gw g1) = Some c1" "ca_is_dirty c1" by blast
    with w show ?thesis by blast
  qed
  ultimately show ?case using IH by auto
qed auto

lemma write_caches_inv:
  assumes g: "game_inv base mem0 F w0 R g" and w: "write_caches own g = Some g'"
  shows "game_inv base mem0 F w0 R g' \<and> clean own (gw g') \<and> (\<forall>own'. clean own' (gw g) \<longrightarrow> clean own' (gw g'))"
proof -
  from w obtain cl where cl: "cache_list own (gw g) = Some cl"
    and f: "fold_opt (\<lambda>i. write_cache i own) [0..<length cl] g = Some g'"
    by (auto simp: write_caches_def bind_eq_Some_conv)
  note inv = write_list_inv [OF g f]
  have "\<not> ca_is_dirty c" if "get_cache (own, i) (gw g') = Some c" for i c
  proof (cases "i < length cl")
    case True
    with inv that show ?thesis by auto
  next
    case False
    show ?thesis
    proof
      assume "ca_is_dirty c"
      with inv that have "\<exists>c. get_cache (own, i) (gw g) = Some c" by blast
      with False cl show False by (auto simp: get_cache_def vget_def)
    qed
  qed
  with inv show ?thesis unfolding clean_iff by blast
qed

text \<open>Moving an owner: its caches have to be clean, and valid ones have to be forgotten.\<close>

lemma game_inv_forget:
  assumes "game_inv base mem0 F w0 R g" "clean own (gw g)"
  shows "game_inv (base(own := None)) mem0 F w0 R g"
  using assms by (auto simp: game_inv_def clean_def cache_inv_def)

lemma invalidate_caches_inv:
  assumes g: "game_inv base mem0 F w0 R g" and i: "invalidate_caches own g = Some g'" and c: "base own = None"
  shows "game_inv (base(own := b)) mem0 F w0 {} g'"
proof -
  let ?inv = "\<lambda>c. c\<lparr>ca_start := PTR_MAX\<rparr>"
  from i obtain cl where cl: "cache_list own (gw g) = Some cl"
    and g': "g' = g\<lparr>gw := set_cache_list own (map ?inv cl) (gw g)\<rparr>"
    by (auto simp: invalidate_caches_def bind_eq_Some_conv)
  have "same_cfg (gw g) (gw g')" unfolding g' using same_cfg_caches [OF cl, of "map ?inv cl"] by (simp add: comp_def)
  with game_invD(1) [OF g] have "same_cfg w0 (gw g')" by (rule same_cfg_trans)
  moreover have "\<forall>c \<in> set cl. cache_inv (base own) mem0 F c" using g cl by (simp add: game_inv_def)
  with c have "\<forall>c \<in> set cl. \<not> ca_is_dirty c" by (simp add: cache_inv_def)
  then have "\<forall>c \<in> set (map ?inv cl). cache_inv b mem0 F c" by (auto simp: cache_inv_def split: option.split)
  ultimately show ?thesis
    using g cache_list_set [OF cl] by (auto simp: game_inv_def g')
qed

lemma same_cfg_dynD:
  assumes "same_cfg w0 w" "vget (w_dyn w) di = Some d"
  shows "di < length (w_dyn w0)" "d_cfg_act d = d_cfg_act (w_dyn w0 ! di)"
    "kicked (d_v_maddr (w_dyn w0 ! di)) (d_v_maddr d)"
proof -
  from assms same_cfg_lengths [OF assms(1)] show di: "di < length (w_dyn w0)" by (simp add: vget_Some_iff)
  have m: "map d_cfg_act (w_dyn w) = map d_cfg_act (w_dyn w0)" using assms(1) by (simp add: same_cfg_def)
  show "d_cfg_act d = d_cfg_act (w_dyn w0 ! di)"
    using arg_cong [OF m, of "\<lambda>l. l ! di"] di assms(2) by (simp add: vget_Some_iff)
  show "kicked (d_v_maddr (w_dyn w0 ! di)) (d_v_maddr d)"
    using assms di by (simp add: same_cfg_def vget_Some_iff)
qed

subsection \<open>Pointers\<close>

text \<open>Where the followed pointers are; only \<open>settle\<close> changes this.\<close>

definition ptr_offs :: "world \<Rightarrow> ptr list list" where
  "ptr_offs w = map p_v_offs (w_ptr w)"

named_theorems keeps_offs "operations that leave the places of followed pointers alone"

lemma set_cache_offs [simp]: "ptr_offs (set_cache_list own cl w) = ptr_offs w"
proof (cases own)
  case (CPtr pi)
  then show ?thesis
    by (cases "pi < length (w_ptr w)")
      (simp_all add: ptr_offs_def set_cache_list_def map_update list_update_same_conv list_update_beyond)
qed (simp_all add: ptr_offs_def set_cache_list_def)

lemma mod_offs [keeps_offs]:
  "mod_cache r f w = Some w' \<Longrightarrow> ptr_offs w' = ptr_offs w" "mod_cfg ci h w = Some w' \<Longrightarrow> ptr_offs w' = ptr_offs w"
  "mod_dyn di k w = Some w' \<Longrightarrow> ptr_offs w' = ptr_offs w"
  by (auto simp: mod_cache_def mod_cfg_def mod_dyn_def bind_eq_Some_conv) (auto simp: ptr_offs_def)

lemma upd_offs [keeps_offs]:
  "upd_old ci i f w = Some w' \<Longrightarrow> ptr_offs w' = ptr_offs w" "upd_value ci i f w = Some w' \<Longrightarrow> ptr_offs w' = ptr_offs w"
  "upd_cstr ci i f' w = Some w' \<Longrightarrow> ptr_offs w' = ptr_offs w"
  unfolding upd_old_def upd_value_def upd_cstr_def by (erule mod_offs(2))+

lemma fill_buf_offs [keeps_offs]:
  "fill_buf ty cache p mo buf g = Some (ok, buf', g') \<Longrightarrow> ptr_offs (gw g') = ptr_offs (gw g)"
  by (auto simp: fill_buf_def bind_eq_Some_conv Let_def split: if_splits prod.splits dest: mod_offs)

lemma kick_obj_offs [keeps_offs]: "kick_obj di w = Some w' \<Longrightarrow> ptr_offs w' = ptr_offs w"
  by (auto simp: kick_obj_def split: option.splits dest: mod_offs)

lemma check_buf_offs [keeps_offs]: "check_buf di k mo buf g = Some (r, g') \<Longrightarrow> ptr_offs (gw g') = ptr_offs (gw g)"
  by (auto simp: check_buf_def bind_eq_Some_conv split: if_splits option.splits prod.splits dest!: keeps_offs)

lemma process_checks_offs [keeps_offs]:
  "process_checks di ks mo buf g = Some (b, g') \<Longrightarrow> ptr_offs (gw g') = ptr_offs (gw g)"
proof (induction ks arbitrary: buf g)
  case (Cons k ks)
  from Cons.prems obtain missing where m: "lib_missing (k_type k) (gw g) = Some missing"
    by (auto simp: bind_eq_Some_conv)
  show ?case
  proof (cases "t_on_stack (k_type k) \<or> missing")
    case False
    with Cons.prems m obtain r g1 where r: "check_buf di k mo buf g = Some (r, g1)" by (auto simp: bind_eq_Some_conv)
    note v = check_buf_offs [OF r]
    consider "r = Inl ()" | "r = Inr None" | buf' where "r = Inr (Some buf')" by (cases r) auto
    then show ?thesis
    proof cases
      case (3 buf')
      with Cons.prems m False r v Cons.IH [of buf' g1] show ?thesis
        by (auto simp: bind_eq_Some_conv split: if_splits dest: kick_obj_offs)
    qed (use Cons.prems m False r v Cons.IH [of buf g1] in auto)
  qed (use Cons.prems m in auto)
qed simp

lemma handle_dynval_offs [keeps_offs]:
  "handle_dynval ct ci i rv mo g = Some g' \<Longrightarrow> ptr_offs (gw g') = ptr_offs (gw g)"
  using handle_dynval_effect [of ct ci i rv mo g g'] upd_offs by auto

lemma store_value_offs [keeps_offs]: "store_value ct c v w = Some w' \<Longrightarrow> ptr_offs w' = ptr_offs w"
  by (auto simp: store_value_def bind_eq_Some_conv Let_def split: if_splits dest: mod_offs)

lemma change_mem_val_offs [keeps_offs]:
  "change_mem_val ct ci rv v mo junk g = Some g' \<Longrightarrow> ptr_offs (gw g') = ptr_offs (gw g)"
  by (auto simp: change_mem_val_def bind_eq_Some_conv split: if_splits prod.splits dest!: keeps_offs)

lemma change_memory_offs [keeps_offs]:
  "change_memory ci i buf mo junk g = Some g' \<Longrightarrow> ptr_offs (gw g') = ptr_offs (gw g)"
  by (auto simp: change_memory_def bind_eq_Some_conv split: option.splits dest!: keeps_offs)

subsubsection \<open>What a pointer leads to\<close>

text \<open>The pointer of an entry in the memory of the game, and the entries behind it that are activated.\<close>

definition points_to :: "gmem \<Rightarrow> ptr \<Rightarrow> cfg_entry \<Rightarrow> ptr" where
  "points_to mem mo c = of_bytes (mem_at mem (mo + c_addr c) 8)"

definition ptr_fields :: "world \<Rightarrow> nat \<Rightarrow> cfg_entry list" where
  "ptr_fields w pi = map ((!) (w_cfg w)) (p_cfg_act (w_ptr w ! pi))"

text \<open>The bytes that belong to an entry: its own, or those of the entries behind its pointer.\<close>

definition prints :: "gmem \<Rightarrow> world \<Rightarrow> ptr \<Rightarrow> cfg_entry \<Rightarrow> ptr set" where
  "prints mem w mo c = (case c_ptrtgt c of
     None \<Rightarrow> written_at mo c
   | Some pi \<Rightarrow> if points_to mem mo c = 0 then {} else \<Union> (written_at (points_to mem mo c) ` set (ptr_fields w pi)))"

text \<open>
  A pointer that is set up: it has 64 bits, which its cache holds, belongs to the class \<open>dm\<close>, is not
  itself in \<open>F\<close>, and the entries behind it are set up for where it points to.
\<close>

definition ptr_set_up ::
  "(cache_owner \<Rightarrow> ptr option) \<Rightarrow> gmem \<Rightarrow> ptr set \<Rightarrow> world \<Rightarrow> nat option \<Rightarrow> ptr \<Rightarrow> cfg_entry \<Rightarrow> nat \<Rightarrow> bool" where
  "ptr_set_up base mem F w dm mo c pi \<longleftrightarrow>
     t_size (c_type c) = 64 \<and> \<not> t_is_cstr (c_type c) \<and> c_cache_data c + 8 \<le> MEM_CHUNK \<and>
     p_dynmem (w_ptr w ! pi) = dm \<and> (\<forall>j < 8. mo + c_addr c + of_nat j \<notin> F) \<and>
     (\<forall>f \<in> set (ptr_fields w pi). c_ptrmem f = Some pi \<and>
        (points_to mem mo c \<noteq> 0 \<longrightarrow>
           set_up (base(CPtr pi := Some (points_to mem mo c))) w (points_to mem mo c) f))"

definition ready ::
  "(cache_owner \<Rightarrow> ptr option) \<Rightarrow> gmem \<Rightarrow> ptr set \<Rightarrow> world \<Rightarrow> nat option \<Rightarrow> ptr \<Rightarrow> cfg_entry \<Rightarrow> bool" where
  "ready base mem F w dm mo c \<longleftrightarrow>
     set_up base w mo c \<and> (\<forall>pi. c_ptrtgt c = Some pi \<longrightarrow> ptr_set_up base mem F w dm mo c pi)"

definition fine ::
  "(cache_owner \<Rightarrow> ptr option) \<Rightarrow> gmem \<Rightarrow> ptr set \<Rightarrow> world \<Rightarrow> nat option \<Rightarrow> ptr \<Rightarrow> cfg_entry \<Rightarrow> bool" where
  "fine base mem F w dm mo c \<longleftrightarrow> ready base mem F w dm mo c \<and> prints mem w mo c \<subseteq> F"

lemma fine_plain: "fine base mem F w dm mo c \<Longrightarrow> c_ptrtgt c = None \<Longrightarrow> entry_ok base F w mo c"
  by (simp add: fine_def ready_def prints_def entry_ok_def)

lemma fine_field:
  assumes "fine base mem F w dm mo c" "c_ptrtgt c = Some pi" "points_to mem mo c \<noteq> 0" "f \<in> set (ptr_fields w pi)"
  shows "entry_ok (base(CPtr pi := Some (points_to mem mo c))) F w (points_to mem mo c) f" "c_ptrmem f = Some pi"
  using assms by (auto simp: fine_def ready_def ptr_set_up_def prints_def entry_ok_def)

lemma inv_view:
  assumes "game_inv base mem0 F w0 R g" "vget (w_cfg (gw g)) ci = Some c"
  shows "ci < length (w_cfg w0)" "cview c = cview (w_cfg w0 ! ci)"
proof -
  have same: "same_cfg w0 (gw g)" by (rule game_invD [OF assms(1)])
  from assms(2) same_cfg_lengths [OF same] show ci: "ci < length (w_cfg w0)" by (simp add: vget_Some_iff)
  from same_cfg_cfg [OF same ci] assms(2) show "cview c = cview (w_cfg w0 ! ci)" by (simp add: vget_Some_iff)
qed

lemma inv_pview:
  assumes "game_inv base mem0 F w0 R g" "vget (w_ptr (gw g)) pi = Some p"
  shows "p_cfg_act p = p_cfg_act (w_ptr w0 ! pi)" "p_dynmem p = p_dynmem (w_ptr w0 ! pi)" "pi < length (w_ptr w0)"
proof -
  have m: "map pview (w_ptr (gw g)) = map pview (w_ptr w0)" using game_invD(1) [OF assms(1)] by (simp add: same_cfg_def)
  from assms(2) have pi: "pi < length (w_ptr (gw g))" "p = w_ptr (gw g) ! pi" by (simp_all add: vget_Some_iff)
  with map_eq_imp_length_eq [OF m] show pi0: "pi < length (w_ptr w0)" by simp
  from arg_cong [OF m, of "\<lambda>l. l ! pi"] pi pi0 have "pview p = pview (w_ptr w0 ! pi)" by simp
  then show "p_cfg_act p = p_cfg_act (w_ptr w0 ! pi)" "p_dynmem p = p_dynmem (w_ptr w0 ! pi)" by (simp_all add: pview_def)
qed

text \<open>What is read for a pointer is what the game has had there.\<close>

lemma put_64: "put 64 old v = v"
  by (rule bit_eqI) (auto simp: bit_put dest: bit_imp_le_length)

lemma fill_buf_ptr:
  assumes g: "game_inv base mem0 F w0 R g" and f: "fill_buf (c_type c) (c_cache c) (c_cache_data c) mo buf g = Some (True, buf', g')"
    and up: "set_up base w0 mo c" "t_size (c_type c) = 64" "\<not> t_is_cstr (c_type c)" "c_cache_data c + 8 \<le> MEM_CHUNK"
      "\<forall>j < 8. mo + c_addr c + of_nat j \<notin> F"
  shows "buf' = points_to mem0 mo c"
proof -
  let ?p = "c_cache_data c"
  from f up(2,3) obtain r ce ce' bs w' where r: "c_cache c = Some r" and ce: "get_cache r (gw g) = Some ce"
    and fc: "fill_cache (gmem g) (mo + ca_offs ce) ce = Some (ce', True)"
    and bs: "cache_bytes ce' ?p 8 = Some bs" and buf': "buf' = load_bytes bs buf"
    by (auto simp: fill_buf_def bind_eq_Some_conv Let_def byte_size_def split: if_splits)
  from up(1) r obtain offs where b: "base (fst r) = Some mo" and offs: "offs_of (fst r) w0 = Some offs"
    "snd r < length offs" "offs ! snd r + of_nat ?p = c_addr c" by (auto simp: set_up_def)
  from game_invD(1) [OF g] offs(1) have "offs_of (fst r) (gw g) = Some offs" by (simp add: same_cfg_def)
  from get_cache_offs [OF this offs(2)] ce offs(3) have addr: "ca_offs ce + of_nat ?p = c_addr c" by simp
  from game_invD(4) [OF g ce] b have "cache_inv (Some mo) mem0 F ce" by simp
  from fill_cache_inv [OF this game_invD(2,3) [OF g] fc] have i: "ca_start ce' = mo + ca_offs ce"
    "\<And>i. i < MEM_CHUNK \<Longrightarrow> ca_start ce' + of_nat i \<in> F \<or> mem0 (ca_start ce' + of_nat i) = Some (ca_data ce' ! i)"
    by (auto simp: cache_inv_def)
  have "bs ! j = the (mem0 (mo + c_addr c + of_nat j))" if j: "j < 8" for j
  proof -
    have "ca_start ce' + of_nat (?p + j) = mo + c_addr c + of_nat j" by (simp add: i(1) addr [symmetric])
    from i(2) [of "?p + j", unfolded this] j up(4,5) have "mem0 (mo + c_addr c + of_nat j) = Some (ca_data ce' ! (?p + j))" by simp
    with bs j show ?thesis by (auto simp: cache_bytes_def split: if_splits)
  qed
  moreover have "length bs = 8" using bs by (auto simp: cache_bytes_def split: if_splits)
  ultimately have "bs = mem_at mem0 (mo + c_addr c) 8" by (auto simp: mem_at_def list_eq_iff_nth_eq)
  then show ?thesis by (simp add: buf' load_bytes_def put_64 points_to_def)
qed

text \<open>A field is processed where the pointer has been settled.\<close>

definition settled_at :: "nat \<Rightarrow> nat \<Rightarrow> ptr \<Rightarrow> world \<Rightarrow> bool" where
  "settled_at pi mi t w \<longleftrightarrow> pi < length (ptr_offs w) \<and> ptr_offs w ! pi ! mi = t"

lemma process_field_inv:
  assumes g: "game_inv base mem0 F w0 {} g" and p: "process_field mi i junk ci (buf, g) = Some (buf', g')"
    and s: "settled_at pi mi t (gw g)" and ok: "entry_ok base F w0 t (w_cfg w0 ! ci)"
    and pm: "c_ptrmem (w_cfg w0 ! ci) = Some pi"
  shows "game_inv base mem0 F w0 {} g' \<and> settled_at pi mi t (gw g')"
proof -
  from p obtain c pi' p' offs where c: "vget (w_cfg (gw g)) ci = Some c" and pi': "c_ptrmem c = Some pi'"
    and p': "vget (w_ptr (gw g)) pi' = Some p'" and offs: "vget (p_v_offs p') mi = Some offs"
    by (auto simp: process_field_def bind_eq_Some_conv)
  note e = inv_entry [OF g c ok]
  from e(3) pm pi' have "pi' = pi" by (simp add: cview_def)
  with p' offs s have t: "offs = t" by (simp add: settled_at_def ptr_offs_def vget_Some_iff)
  from p c pi' p' offs t obtain okb buf1 g1 where
    f: "fill_buf (c_type c) (c_cache c) (c_cache_data c) t buf g = Some (okb, buf1, g1)"
    by (auto simp: process_field_def bind_eq_Some_conv)
  have g1: "game_inv base mem0 F w0 (if okb \<and> \<not> t_is_cstr (c_type c) then {the (c_cache c)} else {}) g1"
    using fill_buf_inv [OF g f] e(1) by (auto simp: entry_ok_iff)
  have s1: "settled_at pi mi t (gw g1)" using s fill_buf_offs [OF f] by (simp add: settled_at_def)
  show ?thesis
  proof (cases okb)
    case False
    with p c pi' p' offs t f g1 s1 show ?thesis by (simp add: process_field_def)
  next
    case True
    with p c pi' p' offs t f have ch: "change_memory ci i buf1 t junk g1 = Some g'"
      by (auto simp: process_field_def bind_eq_Some_conv)
    have "game_inv base mem0 F w0 (if \<not> t_is_cstr (c_type c) then {the (c_cache c)} else {}) g'"
      using change_memory_inv [OF g1 ch ok] e(3) True by (auto simp: cview_def split: if_splits)
    then have "game_inv base mem0 F w0 {} g'" by (rule game_inv_mono) simp
    with s1 change_memory_offs [OF ch] show ?thesis by (simp add: settled_at_def)
  qed
qed

lemma settle_inv:
  assumes g: "game_inv base mem0 F w0 R g" and s: "settle pi mi st t (gw g) = Some w'"
  shows "game_inv base mem0 F w0 R (g\<lparr>gw := w'\<rparr>) \<and> settled_at pi mi t w'"
proof
  show "game_inv base mem0 F w0 R (g\<lparr>gw := w'\<rparr>)"
    by (rule game_inv_mod_ptr [OF g s [unfolded settle_def]]) (auto simp: bind_eq_Some_conv pview_def)
  show "settled_at pi mi t w'"
    using s by (auto simp: settle_def mod_ptr_def settled_at_def ptr_offs_def bind_eq_Some_conv vec_simps)
qed

lemma follow_ptr_inv:
  assumes g: "game_inv base mem0 F w0 R g" and h: "follow_ptr pi c mi i mo junk (t, g) = Some (buf', g')"
    and c: "cview c = cview c0" and up: "fine base mem0 F w0 dm mo c0" "c_ptrtgt c0 = Some pi"
    and t: "t = points_to mem0 mo c0" "t \<noteq> 0" and b: "base (CPtr pi) = None"
  shows "game_inv base mem0 F w0 {} g'"
proof -
  let ?base = "base(CPtr pi := Some t)"
  from h obtain passed g1 where pc: "process_checks (c_dynmem c) (c_checks c) mo junk g = Some (passed, g1)"
    by (auto simp: follow_ptr_def bind_eq_Some_conv)
  have "placed base mo (map kview (c_checks c))" using up c by (simp add: fine_def ready_def set_up_def cview_def)
  from process_checks_inv [OF g pc this] have g1: "game_inv base mem0 F w0 R g1" .
  show ?thesis
  proof (cases passed)
    case False
    with h pc g1 show ?thesis by (auto simp: follow_ptr_def intro: game_inv_mono)
  next
    case True
    with h pc obtain w2 g3 p buf4 g4 where
      w2: "settle pi mi (if c_dynval c = DYN_VAL_PTR_ONCE then PTR_DONE else PTR_SETTLED) t (gw g1) = Some w2"
      and g3: "invalidate_caches (CPtr pi) (g1\<lparr>gw := w2\<rparr>) = Some g3" and p: "vget (w_ptr (gw g3)) pi = Some p"
      and g4: "fold_opt (process_field mi i junk) (p_cfg_act p) (t, g3) = Some (buf4, g4)"
      and g5: "write_caches (CPtr pi) g4 = Some g'"
      by (auto simp: follow_ptr_def bind_eq_Some_conv)
    note s = settle_inv [OF g1 w2]
    have i3: "game_inv ?base mem0 F w0 {} g3" by (rule invalidate_caches_inv [OF conjunct1 [OF s] g3 b])
    have s3: "settled_at pi mi t (gw g3)"
      using s g3 by (auto simp: invalidate_caches_def bind_eq_Some_conv settled_at_def)
    have act: "p_cfg_act p = p_cfg_act (w_ptr w0 ! pi)" by (rule inv_pview [OF i3 p])
    have "game_inv ?base mem0 F w0 {} (snd (buf4, g4)) \<and> settled_at pi mi t (gw (snd (buf4, g4)))"
    proof (rule fold_opt_pres [where I = "\<lambda>st. game_inv ?base mem0 F w0 {} (snd st) \<and> settled_at pi mi t (gw (snd st))",
        OF _ _ g4])
      fix ci st st' assume ci: "ci \<in> set (p_cfg_act p)"
        and st: "game_inv ?base mem0 F w0 {} (snd st) \<and> settled_at pi mi t (gw (snd st))"
        and st': "process_field mi i junk ci st = Some st'"
      from ci act have "w_cfg w0 ! ci \<in> set (ptr_fields w0 pi)" by (simp add: ptr_fields_def)
      note ok = fine_field [OF up t(2) [unfolded t(1)] this, folded t(1)]
      show "game_inv ?base mem0 F w0 {} (snd st') \<and> settled_at pi mi t (gw (snd st'))"
        using process_field_inv [of ?base mem0 F w0 "snd st" mi i junk ci "fst st" "fst st'" "snd st'" pi t] st st' ok by simp
    qed (use i3 s3 in simp)
    then have "game_inv ?base mem0 F w0 {} g4" by simp
    from write_caches_inv [OF this g5] have "game_inv (?base(CPtr pi := None)) mem0 F w0 {} g'"
      by (intro game_inv_forget) auto
    moreover have "?base(CPtr pi := None) = base" using b by auto
    ultimately show ?thesis by simp
  qed
qed

text \<open>The object whose pointer is processed: at \<open>mo\<close>, for a pointer of static memory 0.\<close>

definition at_obj :: "world \<Rightarrow> nat option \<Rightarrow> nat \<Rightarrow> ptr \<Rightarrow> bool" where
  "at_obj w dm mi mo \<longleftrightarrow> (case dm of None \<Rightarrow> mo = 0 | Some di \<Rightarrow> mo = d_v_maddr (w_dyn w ! di) ! mi)"

lemma process_ptrmem_inv:
  assumes g: "game_inv base mem0 F w0 R g" and h: "process_ptrmem ci mi junk (t, g) = Some (buf', g')"
    and up: "fine base mem0 F w0 dm mo (w_cfg w0 ! ci)" "c_ptrtgt (w_cfg w0 ! ci) = Some pi"
    and t: "t = points_to mem0 mo (w_cfg w0 ! ci)" and b: "base (CPtr pi) = None" and mo: "at_obj w0 dm mi mo"
  shows "game_inv base mem0 F w0 {} g'"
proof -
  from h obtain c pi' p i mem_offs old where c: "vget (w_cfg (gw g)) ci = Some c" and pi': "c_ptrtgt c = Some pi'"
    and p: "vget (w_ptr (gw g)) pi' = Some p"
    and m: "(case p_dynmem p of
        None \<Rightarrow> Some (None, None)
      | Some di \<Rightarrow> do {
          d \<leftarrow> vget (w_dyn (gw g)) di;
          a \<leftarrow> vget (d_v_maddr d) mi;
          Some (Some mi, Some a) }) = Some (i, mem_offs)"
    and r: "(if mem_offs = Some 0 \<or> t = 0 then Some (t, g)
     else do {
       ps \<leftarrow> vget (p_v_state p) mi;
       if ps = PTR_DONE then Some (t, g)
       else if t = old
       then follow_ptr pi' c mi i (case mem_offs of None \<Rightarrow> 0 | Some a \<Rightarrow> a) junk (t, g)
       else do {
         w' \<leftarrow> upd_old ci i (\<lambda>_. t) (gw g);
         Some (t, g\<lparr>gw := w'\<rparr>) } }) = Some (buf', g')"
    unfolding process_ptrmem_def by (auto simp only: bind_eq_Some_conv prod.case)
  note v = inv_view [OF g c]
  from v(2) up(2) pi' have pi: "pi' = pi" by (simp add: cview_def)
  have "p_dynmem p = dm"
    using inv_pview(2) [OF g p] up pi by (simp add: fine_def ready_def ptr_set_up_def)
  have "mem_offs = Some 0 \<or> (case mem_offs of None \<Rightarrow> 0 | Some a \<Rightarrow> a) = mo"
  proof (cases dm)
    case (Some di)
    with m \<open>p_dynmem p = dm\<close> obtain d where d: "vget (w_dyn (gw g)) di = Some d" and a: "mi < length (d_v_maddr d)"
      "mem_offs = Some (d_v_maddr d ! mi)" by (auto simp: bind_eq_Some_conv vget_Some_iff)
    from same_cfg_dynD(3) [OF game_invD(1) [OF g] d] a mo Some show ?thesis by (auto simp: kicked_def at_obj_def)
  qed (use m mo \<open>p_dynmem p = dm\<close> in \<open>simp add: at_obj_def\<close>)
  note at = this
  show ?thesis
  proof (cases "mem_offs = Some 0 \<or> t = 0")
    case True
    with r g show ?thesis by (auto intro: game_inv_mono)
  next
    case False
    with at have at: "(case mem_offs of None \<Rightarrow> 0 | Some a \<Rightarrow> a) = mo" and "t \<noteq> 0" by auto
    from r False pi at obtain ps where r: "(if ps = PTR_DONE then Some (t, g)
       else if t = old then follow_ptr pi c mi i mo junk (t, g)
       else do {
         w' \<leftarrow> upd_old ci i (\<lambda>_. t) (gw g);
         Some (t, g\<lparr>gw := w'\<rparr>) }) = Some (buf', g')" by (auto simp only: if_False bind_eq_Some_conv)
    consider (fin) "ps = PTR_DONE" | (follow) "ps \<noteq> PTR_DONE" "t = old" | (old) "ps \<noteq> PTR_DONE" "t \<noteq> old" by blast
    then show ?thesis
    proof cases
      case fin
      with r g show ?thesis by (auto intro: game_inv_mono)
    next
      case follow
      with r have "follow_ptr pi c mi i mo junk (t, g) = Some (buf', g')" by simp
      from follow_ptr_inv [OF g this v(2) up t \<open>t \<noteq> 0\<close> b] show ?thesis .
    next
      case old
      with r obtain w' where "upd_old ci i (\<lambda>_. t) (gw g) = Some w'" "g' = g\<lparr>gw := w'\<rparr>" by (auto simp: bind_eq_Some_conv)
      with upd_inv(1) [OF g] have "game_inv base mem0 F w0 R g'" by simp
      then show ?thesis by (rule game_inv_mono) simp
    qed
  qed
qed

subsection \<open>All entries\<close>

text \<open>What is done with an entry that has been read: its pointer is followed or its value changed.\<close>

lemma process_read_inv:
  fixes c :: cfg_entry
  assumes g: "game_inv base mem0 F w0 {} g"
    and f: "fill_buf (c_type c) (c_cache c) (c_cache_data c) mo buf g = Some (okb, buf1, g1)"
    and rest: "(if \<not> okb then Some (buf1, g1)
       else if c_ptrtgt c \<noteq> None then process_ptrmem ci mi junk (buf1, g1)
       else do { g2 \<leftarrow> change_memory ci i buf1 mo junk g1; Some (buf1, g2) }) = Some (buf', g')"
    and view: "cview c = cview (w_cfg w0 ! ci)" and up: "fine base mem0 F w0 dm mo (w_cfg w0 ! ci)"
    and none: "\<forall>pi. base (CPtr pi) = None" and mo: "at_obj w0 dm mi mo"
  shows "game_inv base mem0 F w0 {} g'"
proof -
  let ?c0 = "w_cfg w0 ! ci"
  have su: "set_up base w0 mo c" using up view by (simp add: fine_def ready_def set_up_def cview_def)
  have g1: "game_inv base mem0 F w0 (if okb \<and> \<not> t_is_cstr (c_type c) then {the (c_cache c)} else {}) g1"
    using fill_buf_inv [OF g f] su by (auto simp: set_up_def)
  show ?thesis
  proof (cases okb)
    case False
    with rest g1 show ?thesis by simp
  next
    case ok: True
    show ?thesis
    proof (cases "c_ptrtgt c")
      case None
      with view up have e: "entry_ok base F w0 mo ?c0" by (auto simp: cview_def intro: fine_plain)
      from rest ok None have "change_memory ci i buf1 mo junk g1 = Some g'" by (auto simp: bind_eq_Some_conv)
      from change_memory_inv [OF g1 this e] view ok have
        "game_inv base mem0 F w0 (if \<not> t_is_cstr (c_type c) then {the (c_cache c)} else {}) g'"
        by (auto simp: cview_def split: if_splits)
      then show ?thesis by (rule game_inv_mono) simp
    next
      case (Some pi)
      with view have tgt: "c_ptrtgt ?c0 = Some pi" by (simp add: cview_def)
      with up view have "t_size (c_type c) = 64" "\<not> t_is_cstr (c_type c)" "c_cache_data c + 8 \<le> MEM_CHUNK"
        "\<forall>j < 8. mo + c_addr c + of_nat j \<notin> F"
        by (simp_all add: fine_def ready_def ptr_set_up_def cview_def)
      from fill_buf_ptr [OF g _ su this, of buf buf1 g1] f ok have "buf1 = points_to mem0 mo c" by simp
      with view have "buf1 = points_to mem0 mo ?c0" by (simp add: points_to_def cview_def)
      from process_ptrmem_inv [OF g1 _ up tgt this _ mo] rest ok Some none show ?thesis by simp
    qed
  qed
qed

lemma process_static_inv:
  assumes g: "game_inv base mem0 F w0 {} g" and p: "process_static ci junk (buf, g) = Some (buf', g')"
    and up: "\<not> t_on_stack (c_type (w_cfg w0 ! ci)) \<Longrightarrow> fine base mem0 F w0 None 0 (w_cfg w0 ! ci)"
    and none: "\<forall>pi. base (CPtr pi) = None"
  shows "game_inv base mem0 F w0 {} g'"
proof -
  from p obtain c missing where c: "vget (w_cfg (gw g)) ci = Some c" and m: "lib_missing (c_type c) (gw g) = Some missing"
    by (auto simp: process_static_def bind_eq_Some_conv)
  note view = inv_view(2) [OF g c]
  show ?thesis
  proof (cases "t_on_stack (c_type c) \<or> missing")
    case True
    with p c m g show ?thesis by (simp add: process_static_def)
  next
    case False
    with up view have up: "fine base mem0 F w0 None 0 (w_cfg w0 ! ci)" by (simp add: cview_def)
    from p c m False obtain okb buf1 g1 where
      f: "fill_buf (c_type c) (c_cache c) (c_cache_data c) 0 buf g = Some (okb, buf1, g1)"
      and rest: "(if \<not> okb then Some (buf1, g1)
         else if c_ptrtgt c \<noteq> None then process_ptrmem ci 0 junk (buf1, g1)
         else do { g2 \<leftarrow> change_memory ci None buf1 0 junk g1; Some (buf1, g2) }) = Some (buf', g')"
      by (auto simp: process_static_def bind_eq_Some_conv)
    show ?thesis by (rule process_read_inv [OF g f rest view up none]) (simp add: at_obj_def)
  qed
qed

lemma process_obj_cfg_inv:
  assumes g: "game_inv base mem0 F w0 {} g" and p: "process_obj_cfg di mi junk ci (buf, g) = Some (buf', g')"
    and up: "a \<noteq> 0 \<Longrightarrow> fine base mem0 F w0 (Some di) a (w_cfg w0 ! ci)" and a: "a = d_v_maddr (w_dyn w0 ! di) ! mi"
    and none: "\<forall>pi. base (CPtr pi) = None"
  shows "game_inv base mem0 F w0 {} g'"
proof -
  from p obtain c d mo where c: "vget (w_cfg (gw g)) ci = Some c" and d: "vget (w_dyn (gw g)) di = Some d"
    and mo: "vget (d_v_maddr d) mi = Some mo"
    by (auto simp: process_obj_cfg_def bind_eq_Some_conv)
  note view = inv_view(2) [OF g c]
  from same_cfg_dynD(3) [OF game_invD(1) [OF g] d] mo a have "mo = a \<or> mo = 0"
    by (auto simp: kicked_def vget_Some_iff)
  show ?thesis
  proof (cases "mo = 0")
    case True
    with p c d mo g show ?thesis by (simp add: process_obj_cfg_def)
  next
    case False
    with \<open>mo = a \<or> mo = 0\<close> up have up: "fine base mem0 F w0 (Some di) mo (w_cfg w0 ! ci)" and "mo = a" by auto
    from p c d mo False obtain ms where ms: "vget (d_v_msize d) mi = Some ms"
      by (auto simp: process_obj_cfg_def bind_eq_Some_conv)
    show ?thesis
    proof (cases "ms < c_addr c + of_int (byte_size (t_size (c_type c)))")
      case True
      with p c d mo False ms g show ?thesis by (simp add: process_obj_cfg_def)
    next
      case fits: False
      with p c d mo False ms obtain w1 okb buf1 g2 where
        w1: "mod_dyn di (\<lambda>d. Some (d\<lparr>d_obj_idx := of_nat mi\<rparr>)) (gw g) = Some w1"
        and f: "fill_buf (c_type c) (c_cache c) (c_cache_data c) mo buf (g\<lparr>gw := w1\<rparr>) = Some (okb, buf1, g2)"
        and rest: "(if \<not> okb then Some (buf1, g2)
           else if c_ptrtgt c \<noteq> None then process_ptrmem ci mi junk (buf1, g2)
           else do { g3 \<leftarrow> change_memory ci (Some mi) buf1 mo junk g2; Some (buf1, g3) }) = Some (buf', g')"
        by (auto simp: process_obj_cfg_def bind_eq_Some_conv)
      have "game_inv base mem0 F w0 {} (g\<lparr>gw := w1\<rparr>)"
        by (rule game_inv_mod_dyn [OF g w1]) auto
      from process_read_inv [OF this f rest view up none] show ?thesis using \<open>mo = a\<close> a by (simp add: at_obj_def)
    qed
  qed
qed

text \<open>Where the owners are between two classes.\<close>

definition static_base :: "world \<Rightarrow> cache_owner \<Rightarrow> ptr option" where
  "static_base w own = (case own of
     COpt \<Rightarrow> Some 0
   | CStack \<Rightarrow> if w_val_on_stack w then Some 0 else None
   | CLib li \<Rightarrow> if li < length (w_lib w) then Some 0 else None
   | _ \<Rightarrow> None)"

lemma process_obj_inv:
  assumes g: "game_inv base mem0 F w0 {} g" and p: "process_obj di junk acts mi (buf, g) = Some (buf', g')"
    and base: "base (CDyn di) = None" and a: "a = d_v_maddr (w_dyn w0 ! di) ! mi"
    and ok: "\<And>ci. ci \<in> set acts \<Longrightarrow> a \<noteq> 0 \<Longrightarrow> fine (base(CDyn di := Some a)) mem0 F w0 (Some di) a (w_cfg w0 ! ci)"
    and none: "\<forall>pi. base (CPtr pi) = None"
  shows "game_inv base mem0 F w0 {} g'"
proof -
  let ?base = "base(CDyn di := Some a)"
  from p obtain g1 g2 where g1: "invalidate_caches (CDyn di) g = Some g1"
    and g2: "fold_opt (process_obj_cfg di mi junk) acts (buf, g1) = Some (buf', g2)"
    and g3: "write_caches (CDyn di) g2 = Some g'"
    by (auto simp: process_obj_def bind_eq_Some_conv)
  have "game_inv ?base mem0 F w0 {} (snd (buf', g2))"
  proof (rule fold_opt_pres [where I = "\<lambda>st. game_inv ?base mem0 F w0 {} (snd st)", OF _ _ g2])
    fix ci st st' assume "ci \<in> set acts" "game_inv ?base mem0 F w0 {} (snd st)" "process_obj_cfg di mi junk ci st = Some st'"
    then show "game_inv ?base mem0 F w0 {} (snd st')"
      using process_obj_cfg_inv [of ?base mem0 F w0 "snd st" di mi junk ci "fst st" "fst st'" "snd st'" a] ok a none by simp
  qed (use invalidate_caches_inv [OF g g1 base, of "Some a"] in simp)
  from write_caches_inv [OF this [simplified] g3]
  have "game_inv (?base(CDyn di := None)) mem0 F w0 {} g'" by (intro game_inv_forget) auto
  moreover have "?base(CDyn di := None) = base" using base by auto
  ultimately show ?thesis by simp
qed

lemma process_dynmem_inv:
  assumes g: "game_inv base mem0 F w0 {} g" and p: "process_dynmem_cfg_act di junk g = Some g'"
    and base: "base (CDyn di) = None"
    and ok: "\<And>ci a. ci \<in> set (d_cfg_act (w_dyn w0 ! di)) \<Longrightarrow> a \<in> set (d_v_maddr (w_dyn w0 ! di)) - {0} \<Longrightarrow>
      fine (base(CDyn di := Some a)) mem0 F w0 (Some di) a (w_cfg w0 ! ci)"
    and none: "\<forall>pi. base (CPtr pi) = None"
  shows "game_inv base mem0 F w0 {} g'"
proof -
  from p obtain d st where d: "vget (w_dyn (gw g)) di = Some d"
    and f: "fold_opt (process_obj di junk (d_cfg_act d)) [0..<length (d_v_maddr d)] (0, g) = Some st" and g': "g' = snd st"
    by (auto simp: process_dynmem_cfg_act_def bind_eq_Some_conv)
  note dw = same_cfg_dynD [OF game_invD(1) [OF g] d]
  have "game_inv base mem0 F w0 {} (snd st)"
  proof (rule fold_opt_pres [where I = "\<lambda>st. game_inv base mem0 F w0 {} (snd st)", OF _ _ f])
    fix mi st st' assume mi: "mi \<in> set [0..<length (d_v_maddr d)]" and st: "game_inv base mem0 F w0 {} (snd st)"
      and st': "process_obj di junk (d_cfg_act d) mi st = Some st'"
    from mi dw(3) have "mi < length (d_v_maddr (w_dyn w0 ! di))" by (simp add: kicked_def)
    then show "game_inv base mem0 F w0 {} (snd st')"
      using process_obj_inv [of base mem0 F w0 "snd st" di junk "d_cfg_act d" mi "fst st" "fst st'" "snd st'"] st st' base ok none
      by (simp add: dw(2))
  qed (use g in simp)
  then show ?thesis by (simp add: g')
qed

text \<open>
  The bytes that belong to the activated entries of static memory and, for each of the objects, to
  those of its class, with the pointers as they are in \<open>mem\<close>; and a configuration in which all of
  them are set up.
\<close>

definition static_entry :: "world \<Rightarrow> nat \<Rightarrow> bool" where
  "static_entry w ci \<longleftrightarrow> c_dynmem (w_cfg w ! ci) = None \<and> \<not> t_on_stack (c_type (w_cfg w ! ci))"

definition footprint :: "gmem \<Rightarrow> world \<Rightarrow> ptr set" where
  "footprint mem w =
     (\<Union>ci \<in> {ci \<in> set (w_cfg_act w). static_entry w ci}. prints mem w 0 (w_cfg w ! ci)) \<union>
     (\<Union>di < length (w_dyn w). \<Union>ci \<in> set (d_cfg_act (w_dyn w ! di)). \<Union>a \<in> set (d_v_maddr (w_dyn w ! di)) - {0}.
        prints mem w a (w_cfg w ! ci))"

definition world_set_up :: "gmem \<Rightarrow> world \<Rightarrow> bool" where
  "world_set_up mem w \<longleftrightarrow>
     (\<forall>ci \<in> set (w_cfg_act w). static_entry w ci \<longrightarrow>
        ready (static_base w) mem (footprint mem w) w None 0 (w_cfg w ! ci)) \<and>
     (\<forall>di < length (w_dyn w). \<forall>ci \<in> set (d_cfg_act (w_dyn w ! di)). \<forall>a \<in> set (d_v_maddr (w_dyn w ! di)) - {0}.
        ready ((static_base w)(CDyn di := Some a)) mem (footprint mem w) w (Some di) a (w_cfg w ! ci))"

lemma process_entries_inv:
  assumes "game_inv (static_base w0) mem0 (footprint mem0 w0) w0 {} (snd st)" "process_entries junk old cis st = Some st'"
    "world_set_up mem0 w0" "set cis \<subseteq> set (w_cfg_act w0)"
  shows "game_inv (static_base w0) mem0 (footprint mem0 w0) w0 {} (snd st')"
  using assms
proof (induction cis arbitrary: old st)
  case (Cons ci cis)
  let ?F = "footprint mem0 w0"
  have none: "\<forall>pi. static_base w0 (CPtr pi) = None" by (simp add: static_base_def)
  from Cons.prems(2) obtain c where c: "vget (w_cfg (gw (snd st))) ci = Some c" by (auto simp: bind_eq_Some_conv)
  have same: "same_cfg w0 (gw (snd st))" by (rule game_invD [OF Cons.prems(1)])
  from inv_view [OF Cons.prems(1) c] have dm: "c_dynmem c = c_dynmem (w_cfg w0 ! ci)" by (simp add: cview_def)
  show ?case
  proof (cases "c_dynmem c")
    case None
    with Cons.prems(2) c obtain st1 where st1: "process_static ci junk st = Some st1"
      "process_entries junk old cis st1 = Some st'" by (auto simp: bind_eq_Some_conv)
    have "fine (static_base w0) mem0 ?F w0 None 0 (w_cfg w0 ! ci)" if "\<not> t_on_stack (c_type (w_cfg w0 ! ci))"
    proof -
      have "static_entry w0 ci" using that None dm by (simp add: static_entry_def)
      moreover have "ci \<in> set (w_cfg_act w0)" using Cons.prems(4) by simp
      ultimately show ?thesis using Cons.prems(3) unfolding fine_def world_set_up_def
        by (fastforce simp: footprint_def [of mem0 w0])
    qed
    with process_static_inv [of "static_base w0" mem0 ?F w0 "snd st" ci junk "fst st" "fst st1" "snd st1"] Cons.prems(1) st1(1) none
    have "game_inv (static_base w0) mem0 ?F w0 {} (snd st1)" by simp
    from Cons.IH [OF this st1(2)] Cons.prems(3,4) show ?thesis by simp
  next
    case (Some di)
    show ?thesis
    proof (cases "old = Some di")
      case True
      with Cons.prems(2) c Some have "process_entries junk old cis st = Some st'" by simp
      from Cons.IH [OF Cons.prems(1) this] Cons.prems(3,4) show ?thesis by simp
    next
      case False
      with Cons.prems(2) c Some obtain g1 where g1: "process_dynmem_cfg_act di junk (snd st) = Some g1"
        "process_entries junk (Some di) cis (fst st, g1) = Some st'" by (auto simp: bind_eq_Some_conv)
      from g1(1) have di: "di < length (w_dyn w0)"
        using same_cfg_dynD(1) [OF same] by (auto simp: process_dynmem_cfg_act_def bind_eq_Some_conv)
      have "fine ((static_base w0)(CDyn di := Some a)) mem0 ?F w0 (Some di) a (w_cfg w0 ! ci)"
        if ci: "ci \<in> set (d_cfg_act (w_dyn w0 ! di))" "a \<in> set (d_v_maddr (w_dyn w0 ! di)) - {0}" for ci a
      proof -
        have "ready ((static_base w0)(CDyn di := Some a)) mem0 ?F w0 (Some di) a (w_cfg w0 ! ci)"
          using Cons.prems(3) ci di unfolding world_set_up_def by blast
        moreover have "prints mem0 w0 a (w_cfg w0 ! ci) \<subseteq> ?F" using ci di unfolding footprint_def by blast
        ultimately show ?thesis by (simp add: fine_def)
      qed
      moreover have "static_base w0 (CDyn di) = None" by (simp add: static_base_def)
      ultimately have "game_inv (static_base w0) mem0 ?F w0 {} g1"
        using process_dynmem_inv [OF Cons.prems(1) g1(1)] none by blast
      with Cons.IH [of "(fst st, g1)", OF _ g1(2)] Cons.prems(3,4) show ?thesis by simp
    qed
  qed
qed simp

definition all_clean :: "world \<Rightarrow> bool" where
  "all_clean w \<longleftrightarrow> (\<forall>own. clean own w)"

text \<open>The caches that are invalidated and those that are written back are the same.\<close>

lemma invalidate_all_inv:
  assumes "game_inv base mem0 F w0 {} g" "fold_opt invalidate_caches owns g = Some g'"
    "distinct owns" "\<forall>own \<in> set owns. base own = None"
  shows "game_inv (\<lambda>own. if own \<in> set owns then Some 0 else base own) mem0 F w0 {} g'"
  using assms
proof (induction owns arbitrary: base g)
  case (Cons own owns)
  from Cons.prems(2) obtain g1 where g1: "invalidate_caches own g = Some g1" "fold_opt invalidate_caches owns g1 = Some g'"
    by (auto simp: bind_eq_Some_conv)
  from invalidate_caches_inv [OF Cons.prems(1) g1(1), of "Some 0"] Cons.prems(4)
  have i1: "game_inv (base(own := Some 0)) mem0 F w0 {} g1" by simp
  have i2: "\<forall>own' \<in> set owns. (base(own := Some 0)) own' = None" using Cons.prems(3,4) by auto
  from Cons.IH [OF i1 g1(2) _ i2] Cons.prems(3)
  have "game_inv (\<lambda>own'. if own' \<in> set owns then Some 0 else (base(own := Some 0)) own') mem0 F w0 {} g'" by simp
  moreover have "(\<lambda>own'. if own' \<in> set owns then Some 0 else (base(own := Some 0)) own') =
      (\<lambda>own'. if own' \<in> set (own # owns) then Some 0 else base own')" by auto
  ultimately show ?case by simp
qed simp

lemma write_all_inv:
  assumes "game_inv base mem0 F w0 R g" "fold_opt write_caches owns g = Some g'"
  shows "game_inv base mem0 F w0 R g' \<and> (\<forall>own. own \<in> set owns \<or> clean own (gw g) \<longrightarrow> clean own (gw g'))"
  using assms
proof (induction owns arbitrary: g)
  case (Cons own owns)
  from Cons.prems(2) obtain g1 where g1: "write_caches own g = Some g1" "fold_opt write_caches owns g1 = Some g'"
    by (auto simp: bind_eq_Some_conv)
  note w = write_caches_inv [OF Cons.prems(1) g1(1)]
  with Cons.IH [OF _ g1(2)] show ?case by auto
qed simp

lemma process_act_cfg_inv:
  assumes p: "process_act_cfg junk g = Some g'" and s: "world_set_up (gmem g) (gw g)" and c: "all_clean (gw g)"
    and m: "gmem g PTR_MAX = None"
  shows "mem_ok (gmem g) (footprint (gmem g) (gw g)) (gmem g') \<and> all_clean (gw g') \<and> same_cfg (gw g) (gw g')"
proof -
  let ?w = "gw g" and ?F = "footprint (gmem g) (gw g)"
  let ?libs = "map CLib [0..<length (w_lib ?w)]" and ?stack = "if w_val_on_stack ?w then [CStack] else []"
  from p obtain g1 buf g2 where g1: "fold_opt invalidate_caches (COpt # ?stack @ ?libs) g = Some g1"
    and g2: "process_entries junk None (w_cfg_act (gw g1)) (0, g1) = Some (buf, g2)"
    and g3: "fold_opt write_caches (?libs @ ?stack @ [COpt]) g2 = Some g'"
    unfolding process_act_cfg_def Let_def bind_eq_Some_conv by (metis (no_types, lifting) case_prod_conv prod.exhaust)
  have "game_inv (\<lambda>_. None) (gmem g) ?F ?w {} g"
    using c m by (auto simp: game_inv_def mem_ok_def cache_inv_def all_clean_def clean_def)
  moreover have "distinct (COpt # ?stack @ ?libs)" by (auto simp: distinct_map inj_on_def)
  ultimately have "game_inv (\<lambda>own. if own \<in> set (COpt # ?stack @ ?libs) then Some 0 else None) (gmem g) ?F ?w {} g1"
    using invalidate_all_inv [OF _ g1] by simp
  moreover have "(\<lambda>own. if own \<in> set (COpt # ?stack @ ?libs) then Some 0 else None) = static_base ?w"
    by (rule ext) (auto simp: static_base_def split: cache_owner.split)
  ultimately have i1: "game_inv (static_base ?w) (gmem g) ?F ?w {} g1" by simp
  then have "w_cfg_act (gw g1) = w_cfg_act ?w" by (simp add: game_inv_def same_cfg_def)
  with process_entries_inv [of ?w "gmem g" "(0, g1)", OF _ g2 s] i1
  have i2: "game_inv (static_base ?w) (gmem g) ?F ?w {} g2" by simp
  note w = write_all_inv [OF i2 g3]
  have "clean own (gw g')" for own
  proof (cases "static_base ?w own")
    case None
    have "\<not> ca_is_dirty c" if "get_cache (own, i) (gw g2) = Some c" for i c
      using game_invD(4) [OF i2 that] None by (simp add: cache_inv_def)
    then have "clean own (gw g2)" by (simp add: clean_iff)
    with w show ?thesis by blast
  next
    case (Some a)
    then have "own \<in> set (?libs @ ?stack @ [COpt])"
      by (auto simp: static_base_def split: cache_owner.splits if_splits)
    with w show ?thesis by blast
  qed
  with w show ?thesis by (simp add: all_clean_def game_inv_def)
qed

end
