(* ===== verification/ProcessFun.thy ===== *)
theory ProcessFun
  imports ProcessInv
begin

text \<open>
  What one activated entry of static memory without checks does to the game: its old value is
  recorded and its value is written if the comparison says so.
\<close>

subsection \<open>Reading and writing mapped memory\<close>

definition mapped :: "gmem \<Rightarrow> ptr \<Rightarrow> nat \<Rightarrow> bool" where
  "mapped mem a n \<longleftrightarrow> (\<forall>i < n. mem (a + of_nat i) \<noteq> None)"

lemma mapped_Suc: "mapped mem a (Suc n) \<longleftrightarrow> mem a \<noteq> None \<and> mapped mem (a + 1) n"
  by (auto simp: mapped_def less_Suc_eq_0_disj add.assoc)

lemma read_upto_mapped: "mapped mem a n \<Longrightarrow> read_upto mem a n = mem_at mem a n"
proof (induction n arbitrary: a)
  case (Suc n)
  have "mem_at mem a (Suc n) = the (mem a) # mem_at mem (a + 1) n"
    unfolding mem_at_def
    by (simp add: upt_conv_Cons comp_def add.assoc del: upt_Suc flip: map_Suc_upt)
  with Suc show ?case by (auto simp: mapped_Suc)
qed (simp add: mem_at_def)

lemma mapped_upd: "mapped mem b n \<Longrightarrow> mapped (mem(a \<mapsto> x)) b n"
  by (simp add: mapped_def)

lemma write_upto_nth:
  assumes "mapped mem a (length bs)" "length bs \<le> 2 ^ 64" "i < length bs"
  shows "write_upto a bs mem (a + of_nat i) = Some (bs ! i)"
  using assms
proof (induction bs arbitrary: a mem i)
  case (Cons b bs)
  from Cons.prems(1) have m: "mem a \<noteq> None" "mapped mem (a + 1) (length bs)" by (simp_all add: mapped_Suc)
  show ?case
  proof (cases i)
    case 0
    have "a \<noteq> a + 1 + of_nat j" if "j < length bs" for j
    proof -
      have "Suc j < 2 ^ 64" using that Cons.prems(2) by simp
      then have "unat (of_nat (Suc j) :: 64 word) = Suc j"
        by (simp add: unat_of_nat take_bit_nat_eq_self del: of_nat_Suc)
      then have "of_nat (Suc j) \<noteq> (0 :: 64 word)" by (metis Zero_not_Suc unat_0)
      then have "1 + of_nat j \<noteq> (0 :: 64 word)" by simp
      then show ?thesis by (simp add: add.assoc)
    qed
    with m 0 write_upto_frame [of bs a "a + 1" "mem(a \<mapsto> b)"] show ?thesis by simp
  next
    case (Suc j)
    have "write_upto (a + 1) bs (mem(a \<mapsto> b)) (a + 1 + of_nat j) = Some (bs ! j)"
      by (rule Cons.IH [OF mapped_upd [OF m(2)]]) (use Suc Cons.prems in simp_all)
    with m Suc show ?thesis by (auto simp: add.assoc)
  qed
qed simp

text \<open>The memory with a block replaced; the offset of an address in the block decides.\<close>

definition set_byte_range :: "ptr \<Rightarrow> byte list \<Rightarrow> gmem \<Rightarrow> gmem" where
  "set_byte_range a bs mem = (\<lambda>b. if unat (b - a) < length bs then Some (bs ! unat (b - a)) else mem b)"

lemma write_upto_block:
  assumes "mapped mem a (length bs)" "length bs \<le> 2 ^ 64"
  shows "write_upto a bs mem = set_byte_range a bs mem"
proof (rule ext)
  fix b
  have b: "b = a + of_nat (unat (b - a))" by simp
  show "write_upto a bs mem b = set_byte_range a bs mem b"
  proof (cases "unat (b - a) < length bs")
    case True
    with write_upto_nth [OF assms True] b show ?thesis by (simp add: set_byte_range_def)
  next
    case False
    have "b \<noteq> a + of_nat i" if "i < length bs" for i
    proof
      assume "b = a + of_nat i"
      then have "unat (b - a) = i" using that assms(2) by (simp add: unat_of_nat take_bit_nat_eq_self)
      with that False show False by simp
    qed
    then have "write_upto a bs mem b = mem b" by (intro write_upto_frame) auto
    with False show ?thesis by (simp add: set_byte_range_def)
  qed
qed

subsection \<open>Clean caches\<close>

lemma write_list_clean:
  assumes "\<And>i. i \<in> set xs \<Longrightarrow> \<exists>c. get_cache (own, i) (gw g) = Some c \<and> \<not> ca_is_dirty c"
  shows "fold_opt (\<lambda>i. write_cache i own) xs g = Some g"
  using assms
proof (induction xs)
  case (Cons i xs)
  then have "write_cache i own g = Some g" by (fastforce simp: write_cache_def)
  with Cons show ?case by simp
qed simp

lemma write_caches_clean:
  "cache_list own (gw g) = Some cl \<Longrightarrow> clean own (gw g) \<Longrightarrow> write_caches own g = Some g"
  by (simp add: write_caches_def) (rule write_list_clean, auto simp: clean_def get_cache_def vget_def)

text \<open>Invalidating the caches of the stack and of the libraries leaves everything else alone.\<close>

definition same_static :: "world \<Rightarrow> world \<Rightarrow> bool" where
  "same_static w w' \<longleftrightarrow> w_cfg w' = w_cfg w \<and> w_cfg_act w' = w_cfg_act w \<and> w_cache_list w' = w_cache_list w \<and>
     length (w_lib w') = length (w_lib w) \<and> (\<forall>own. clean own w \<longrightarrow> clean own w')"

lemma invalidate_same_static:
  assumes "own = CStack \<or> (\<exists>li < length (w_lib (gw g)). own = CLib li)"
  shows "\<exists>w'. invalidate_caches own g = Some (g\<lparr>gw := w'\<rparr>) \<and> same_static (gw g) w'"
proof -
  let ?inv = "\<lambda>c. c\<lparr>ca_start := PTR_MAX\<rparr>"
  from assms obtain cl where cl: "cache_list own (gw g) = Some cl" by (auto simp: cache_list_def vget_def)
  let ?w = "set_cache_list own (map ?inv cl) (gw g)"
  have "clean own' ?w" if "clean own' (gw g)" for own'
    using that cl cache_list_set [OF cl, of own' "map ?inv cl"] by (auto simp: clean_def split: if_splits)
  with cl assms show ?thesis
    by (auto simp: invalidate_caches_def same_static_def set_cache_list_def)
qed

lemma invalidate_rest:
  assumes "\<forall>own \<in> set owns. own = CStack \<or> (\<exists>li < length (w_lib (gw g)). own = CLib li)"
  shows "\<exists>w'. fold_opt invalidate_caches owns g = Some (g\<lparr>gw := w'\<rparr>) \<and> same_static (gw g) w'"
  using assms
proof (induction owns arbitrary: g)
  case Nil
  have "g\<lparr>gw := gw g\<rparr> = g" by (cases g) simp
  then show ?case by (auto simp: same_static_def intro: exI [of _ "gw g"])
next
  case (Cons own owns)
  from invalidate_same_static [of own g] Cons.prems obtain w1 where w1: "invalidate_caches own g = Some (g\<lparr>gw := w1\<rparr>)"
    "same_static (gw g) w1" by auto
  from w1(2) have len: "length (w_lib w1) = length (w_lib (gw g))" by (simp add: same_static_def)
  from Cons.IH [of "g\<lparr>gw := w1\<rparr>"] Cons.prems len
  obtain w2 where "fold_opt invalidate_caches owns (g\<lparr>gw := w1\<rparr>) = Some (g\<lparr>gw := w2\<rparr>)" "same_static w1 w2" by auto
  with w1 show ?case by (auto simp: same_static_def)
qed

subsection \<open>One entry\<close>

text \<open>An entry for a number of the executable or at a fixed address, not dynamic, without checks.\<close>

definition plain_entry :: "cty \<Rightarrow> nat \<Rightarrow> cfg_entry \<Rightarrow> bool" where
  "plain_entry ct n c \<longleftrightarrow> c_dynmem c = None \<and> \<not> t_on_stack (c_type c) \<and> t_lib (c_type c) = None \<and>
     \<not> t_is_cstr (c_type c) \<and> c_ptrtgt c = None \<and> c_dynval c = DYN_VAL_OFF \<and> c_checks c = [] \<and>
     c_cfg_ref c = None \<and> value_type (c_type c) = Some ct \<and> t_size (c_type c) = int (8 * n) \<and> width ct = 8 * n \<and> n \<le> 8"

text \<open>The cache of an entry covers its value.\<close>

definition covered :: "nat \<Rightarrow> world \<Rightarrow> cfg_entry \<Rightarrow> nat \<Rightarrow> cache_entry \<Rightarrow> bool" where
  "covered n w c k ce \<longleftrightarrow> c_cache c = Some (COpt, k) \<and> k < length (w_cache_list w) \<and> w_cache_list w ! k = ce \<and>
     ca_offs ce + of_nat (c_cache_data c) = c_addr c \<and> c_cache_data c + n \<le> MEM_CHUNK \<and> length (ca_data ce) = MEM_CHUNK"

lemma mem_at_part: "p + n \<le> m \<Longrightarrow> take n (drop p (mem_at mem a m)) = mem_at mem (a + of_nat p) n"
  by (rule nth_equalityI) (simp_all add: mem_at_def add.assoc)

text \<open>Writing back a block in which only some bytes have been changed.\<close>

lemma unat_diff_offset:
  assumes "p + l \<le> m" "m < 2 ^ 64"
  shows "unat (x - of_nat p :: 64 word) < l \<longleftrightarrow> p \<le> unat x \<and> unat x < p + l"
    and "p \<le> unat x \<Longrightarrow> unat (x - of_nat p :: 64 word) = unat x - p"
proof -
  have p: "unat (of_nat p :: 64 word) = p" using assms by (simp add: unat_of_nat take_bit_nat_eq_self)
  show ge: "unat (x - of_nat p) = unat x - p" if "p \<le> unat x"
    using unat_sub [of "of_nat p" x] that p by (simp add: word_le_nat_alt)
  show "unat (x - of_nat p) < l \<longleftrightarrow> p \<le> unat x \<and> unat x < p + l"
  proof (cases "p \<le> unat x")
    case True
    with ge show ?thesis by auto
  next
    case False
    then have "unat (x - of_nat p) = 2 ^ 64 + unat x - p"
      using p unat_sub_if' [of x "of_nat p"] by (simp split: if_splits)
    with False assms show ?thesis by simp
  qed
qed

lemma write_changed_block:
  assumes m: "mapped mem a m" "m < 2 ^ 64" and p: "p + length vs \<le> m"
  shows "write_upto a (take p (mem_at mem a m) @ vs @ drop (p + length vs) (mem_at mem a m)) mem =
    set_byte_range (a + of_nat p) vs mem"
proof (rule ext)
  fix b
  let ?bs = "take p (mem_at mem a m) @ vs @ drop (p + length vs) (mem_at mem a m)" and ?d = "unat (b - a)"
  have len: "length ?bs = m" using p by simp
  have "write_upto a ?bs mem b = set_byte_range a ?bs mem b"
    using write_upto_block [of mem a ?bs] m by (simp only: len)
  also have "\<dots> = (if ?d < m then Some (?bs ! ?d) else mem b)" by (simp only: set_byte_range_def len)
  also have "\<dots> = (if p \<le> ?d \<and> ?d < p + length vs then Some (vs ! (?d - p)) else mem b)"
  proof (cases "?d < m")
    case True
    have "mem (a + of_nat ?d) \<noteq> None" using m(1) True unfolding mapped_def by blast
    then have "Some (mem_at mem a m ! ?d) = mem b" using True by (simp add: mem_at_def)
    with True p show ?thesis by (auto simp: nth_append)
  qed (use p in auto)
  also have "\<dots> = set_byte_range (a + of_nat p) vs mem b"
    using unat_diff_offset [OF p m(2), of "b - a"] by (auto simp: set_byte_range_def algebra_simps)
  finally show "write_upto a ?bs mem b = set_byte_range (a + of_nat p) vs mem b" .
qed

subsection \<open>The effect of one entry\<close>

text \<open>The number that is read for an entry, in the width of its type.\<close>

definition value_in :: "gmem \<Rightarrow> nat \<Rightarrow> cfg_entry \<Rightarrow> value_t" where
  "value_in mem n c = load_bytes (mem_at mem (c_addr c) n) 0"

definition entry_done :: "cty \<Rightarrow> value_t \<Rightarrow> bool \<Rightarrow> cfg_entry \<Rightarrow> cfg_entry" where
  "entry_done ct v written c = c\<lparr>c_val_set := written, c_old_val := put (width ct) (c_old_val c) v\<rparr>"

definition filled :: "gmem \<Rightarrow> cache_entry \<Rightarrow> cache_entry" where
  "filled mem ce = ce\<lparr>ca_data := mem_at mem (ca_offs ce) MEM_CHUNK, ca_start := ca_offs ce\<rparr>"

definition stored :: "nat \<Rightarrow> byte list \<Rightarrow> cache_entry \<Rightarrow> cache_entry" where
  "stored p bs ce = ce\<lparr>ca_data := take p (ca_data ce) @ bs @ drop (p + length bs) (ca_data ce), ca_is_dirty := True\<rparr>"

lemma COpt_simps:
  "get_cache (COpt, k) w = vget (w_cache_list w) k"
  "mod_cache (COpt, k) f w =
     (if k < length (w_cache_list w) then Some (w\<lparr>w_cache_list := (w_cache_list w)[k := f (w_cache_list w ! k)]\<rparr>) else None)"
  by (auto simp: get_cache_def mod_cache_def cache_list_def set_cache_list_def vget_def)

text \<open>Reading through an empty cache, of any owner.\<close>

lemma fill_buf_filled:
  assumes cl: "cache_list own w = Some cl" "k < length cl" "ca_start (cl ! k) = PTR_MAX" "length (ca_data (cl ! k)) = MEM_CHUNK"
    and m: "mapped mem (mo + ca_offs (cl ! k)) MEM_CHUNK" "mo + ca_offs (cl ! k) \<noteq> 0"
    and ty: "\<not> t_is_cstr ty" "t_size ty = int (8 * n)" "n \<le> 8" "p + n \<le> MEM_CHUNK"
  shows "fill_buf ty (Some (own, k)) p mo buf \<lparr>gw = w, gmem = mem\<rparr> =
    Some (True, load_bytes (mem_at mem (mo + ca_offs (cl ! k) + of_nat p) n) buf,
      \<lparr>gw = set_cache_list own (cl[k := (cl ! k)\<lparr>ca_data := mem_at mem (mo + ca_offs (cl ! k)) MEM_CHUNK,
         ca_start := mo + ca_offs (cl ! k)\<rparr>]) w, gmem = mem\<rparr>)"
proof -
  let ?a = "mo + ca_offs (cl ! k)" and ?ce = "(cl ! k)\<lparr>ca_data := mem_at mem (mo + ca_offs (cl ! k)) MEM_CHUNK,
         ca_start := mo + ca_offs (cl ! k)\<rparr>"
  have "fill_cache mem ?a (cl ! k) = Some (?ce, True)"
    using cl m by (simp add: fill_cache_def memread_def read_upto_mapped Let_def MEM_CHUNK_def)
  moreover have "cache_bytes ?ce p n = Some (mem_at mem (?a + of_nat p) n)"
    using ty(4) by (simp add: cache_bytes_def mem_at_part)
  ultimately show ?thesis
    using cl ty by (simp add: fill_buf_def get_cache_def mod_cache_def vget_def)
qed

lemma fill_buf_plain:
  assumes "plain_entry ct n c" and ce: "covered n w c k ce" "ca_start ce = PTR_MAX"
    and m: "mapped mem (ca_offs ce) MEM_CHUNK" "ca_offs ce \<noteq> 0"
  shows "fill_buf (c_type c) (c_cache c) (c_cache_data c) 0 0 \<lparr>gw = w, gmem = mem\<rparr> =
    Some (True, value_in mem n c, \<lparr>gw = w\<lparr>w_cache_list := (w_cache_list w)[k := filled mem ce]\<rparr>, gmem = mem\<rparr>)"
  using fill_buf_filled [of COpt w "w_cache_list w" k mem 0 "c_type c" n "c_cache_data c" 0] assms
  by (simp add: covered_def plain_entry_def cache_list_def set_cache_list_def filled_def value_in_def)

lemma change_memory_plain:
  assumes c: "ci < length (w_cfg w)" "w_cfg w ! ci = c" "plain_entry ct n c"
    and ce: "covered n w c k ce"
  shows "change_memory ci None v 0 junk \<lparr>gw = w, gmem = mem\<rparr> =
    (let ok = check_mem_val ct v (c_value c) (c_check c)
     in Some \<lparr>gw = w\<lparr>w_cfg := (w_cfg w)[ci := entry_done ct v ok c],
       w_cache_list := (if ok then (w_cache_list w)[k := stored (c_cache_data c) (value_bytes n (c_value c)) ce]
         else w_cache_list w)\<rparr>, gmem = mem\<rparr>)"
proof -
  let ?ok = "check_mem_val ct v (c_value c) (c_check c)"
  let ?c1 = "c\<lparr>c_val_set := False\<rparr>" and ?c2 = "c\<lparr>c_val_set := False, c_old_val := put (width ct) (c_old_val c) v\<rparr>"
  let ?w1 = "w\<lparr>w_cfg := (w_cfg w)[ci := ?c1]\<rparr>" and ?w2 = "w\<lparr>w_cfg := (w_cfg w)[ci := ?c2]\<rparr>"
  have swap: "x\<lparr>w_cache_list := cl, w_cfg := cs\<rparr> = x\<lparr>w_cfg := cs, w_cache_list := cl\<rparr>"
    "y\<lparr>c_old_val := ov, c_val_set := b\<rparr> = y\<lparr>c_val_set := b, c_old_val := ov\<rparr>"
    for x :: world and y :: cfg_entry and cl cs ov b by simp_all
  have 1: "mod_cfg ci (\<lambda>c. Some (c\<lparr>c_val_set := False\<rparr>)) w = Some ?w1"
    using c by (simp add: mod_cfg_def vget_def)
  have 2: "upd_old ci None (\<lambda>ov. put (width ct) ov v) ?w1 = Some ?w2"
    using c by (simp add: upd_old_def mod_cfg_def vget_def upd_slot_def)
  have 3: "handle_dynval ct ci None v 0 \<lparr>gw = ?w2, gmem = mem\<rparr> = Some \<lparr>gw = ?w2, gmem = mem\<rparr>"
    using c by (simp add: handle_dynval_def vget_def get_slot_def plain_entry_def)
  have 4: "store_value ct ?c2 (c_value c) ?w2 =
      Some (?w2\<lparr>w_cache_list := (w_cache_list w)[k := stored (c_cache_data c) (value_bytes n (c_value c)) ce]\<rparr>)"
    using c ce by (simp add: store_value_def covered_def COpt_simps vget_def plain_entry_def value_bytes_def stored_def Let_def)
  have "change_mem_val ct ci v (c_value c) 0 junk \<lparr>gw = ?w2, gmem = mem\<rparr> =
    Some \<lparr>gw = w\<lparr>w_cfg := (w_cfg w)[ci := entry_done ct v ?ok c],
       w_cache_list := (if ?ok then (w_cache_list w)[k := stored (c_cache_data c) (value_bytes n (c_value c)) ce]
         else w_cache_list w)\<rparr>, gmem = mem\<rparr>"
    using c 4 by (simp add: change_mem_val_def vget_def plain_entry_def entry_done_def mod_cfg_def swap)
  with 1 2 3 c show ?thesis
    by (simp add: change_memory_def vget_def get_slot_def plain_entry_def Let_def)
qed

lemma process_static_plain:
  assumes c: "ci < length (w_cfg w)" "w_cfg w ! ci = c" "plain_entry ct n c"
    and ce: "covered n w c k ce" "ca_start ce = PTR_MAX"
    and m: "mapped mem (ca_offs ce) MEM_CHUNK" "ca_offs ce \<noteq> 0"
  shows "process_static ci junk (0, \<lparr>gw = w, gmem = mem\<rparr>) =
    (let v = value_in mem n c; ok = check_mem_val ct v (c_value c) (c_check c)
     in Some (v, \<lparr>gw = w\<lparr>w_cfg := (w_cfg w)[ci := entry_done ct v ok c],
       w_cache_list := (w_cache_list w)[k :=
         (if ok then stored (c_cache_data c) (value_bytes n (c_value c)) (filled mem ce) else filled mem ce)]\<rparr>, gmem = mem\<rparr>))"
proof -
  let ?w = "w\<lparr>w_cache_list := (w_cache_list w)[k := filled mem ce]\<rparr>"
  have "covered n ?w c k (filled mem ce)" using ce by (auto simp: covered_def filled_def)
  from change_memory_plain [of ci ?w c ct n k "filled mem ce" "value_in mem n c" junk mem, OF _ _ c(3) this] c
  have "change_memory ci None (value_in mem n c) 0 junk \<lparr>gw = ?w, gmem = mem\<rparr> =
    (let v = value_in mem n c; ok = check_mem_val ct v (c_value c) (c_check c)
     in Some \<lparr>gw = w\<lparr>w_cfg := (w_cfg w)[ci := entry_done ct v ok c],
       w_cache_list := (w_cache_list w)[k :=
         (if ok then stored (c_cache_data c) (value_bytes n (c_value c)) (filled mem ce) else filled mem ce)]\<rparr>, gmem = mem\<rparr>)"
    by (simp add: Let_def)
  with fill_buf_plain [OF c(3) ce m] c show ?thesis
    by (simp add: process_static_def vget_def lib_missing_def plain_entry_def Let_def)
qed

lemma write_clean_owners:
  "\<forall>own \<in> set owns. clean own (gw g) \<and> cache_list own (gw g) \<noteq> None \<Longrightarrow> fold_opt write_caches owns g = Some g"
  by (induction owns) (auto simp: write_caches_clean)

text \<open>If only the changed cache of an entry is dirty, exactly its value is written.\<close>

lemma write_one_cache:
  assumes k: "k < length (w_cache_list w)" and f: "w_cache_list w ! k = stored p vs (filled mem ce)"
    and others: "\<forall>i < length (w_cache_list w). i \<noteq> k \<longrightarrow> \<not> ca_is_dirty (w_cache_list w ! i)"
    and m: "mapped mem (ca_offs ce) MEM_CHUNK" "ca_offs ce \<noteq> 0" and p: "p + length vs \<le> MEM_CHUNK"
  shows "\<exists>w'. write_caches COpt \<lparr>gw = w, gmem = mem\<rparr> = Some \<lparr>gw = w', gmem = set_byte_range (ca_offs ce + of_nat p) vs mem\<rparr> \<and>
    w_cfg w' = w_cfg w"
proof -
  let ?f = "stored p vs (filled mem ce)" and ?cl = "w_cache_list w"
  let ?w' = "w\<lparr>w_cache_list := ?cl[k := clear_dirty ?f]\<rparr>"
  let ?g' = "\<lparr>gw = ?w', gmem = set_byte_range (ca_offs ce + of_nat p) vs mem\<rparr>"
  have len: "length (ca_data ?f) = MEM_CHUNK" using p by (simp add: stored_def filled_def)
  have "write_upto (ca_offs ce) (ca_data ?f) mem = set_byte_range (ca_offs ce + of_nat p) vs mem"
    using write_changed_block [OF m(1) _ p] by (simp add: stored_def filled_def MEM_CHUNK_def)
  moreover have "min MEM_CHUNK p = p" using p by simp
  ultimately have k1: "write_cache k COpt \<lparr>gw = w, gmem = mem\<rparr> = Some ?g'"
    using k f len m(2) by (simp add: write_cache_def COpt_simps vget_def memwrite_def stored_def filled_def)
  have all: "[0..<length ?cl] = [0..<k] @ k # [Suc k..<length ?cl]"
    using k upt_add_eq_append [of 0 k "length ?cl - k"] by (simp add: upt_conv_Cons)
  have 1: "fold_opt (\<lambda>i. write_cache i COpt) [0..<k] \<lparr>gw = w, gmem = mem\<rparr> = Some \<lparr>gw = w, gmem = mem\<rparr>"
    by (rule write_list_clean) (use k others in \<open>simp add: COpt_simps vget_def\<close>)
  have 2: "fold_opt (\<lambda>i. write_cache i COpt) [Suc k..<length ?cl] ?g' = Some ?g'"
    by (rule write_list_clean) (use k others in \<open>simp add: COpt_simps vget_def\<close>)
  show ?thesis
    by (simp add: write_caches_def cache_list_def all fold_opt_append 1 k1 2)
qed

theorem single_entry_run:
  assumes act: "w_cfg_act (gw g) = [ci]" and c: "ci < length (w_cfg (gw g))" "w_cfg (gw g) ! ci = c" "plain_entry ct n c"
    and ce: "covered n (gw g) c k ce" and clean: "all_clean (gw g)"
    and m: "mapped (gmem g) (ca_offs ce) MEM_CHUNK" "ca_offs ce \<noteq> 0"
  shows "\<exists>g'. process_act_cfg junk g = Some g' \<and>
    (let v = value_in (gmem g) n c; ok = check_mem_val ct v (c_value c) (c_check c)
     in w_cfg (gw g') = (w_cfg (gw g))[ci := entry_done ct v ok c] \<and>
        gmem g' = (if ok then set_byte_range (c_addr c) (value_bytes n (c_value c)) (gmem g) else gmem g))"
proof -
  let ?w = "gw g" and ?mem = "gmem g" and ?inv = "\<lambda>c. c\<lparr>ca_start := PTR_MAX\<rparr>"
  let ?libs = "map CLib [0..<length (w_lib ?w)]" and ?stack = "if w_val_on_stack ?w then [CStack] else []"
  let ?w1 = "?w\<lparr>w_cache_list := map ?inv (w_cache_list ?w)\<rparr>"
  let ?v = "value_in ?mem n c" let ?ok = "check_mem_val ct ?v (c_value c) (c_check c)"
  let ?ce = "?inv ce" and ?vs = "value_bytes n (c_value c)" and ?p = "c_cache_data c"
  have i1: "invalidate_caches COpt g = Some (g\<lparr>gw := ?w1\<rparr>)"
    by (simp add: invalidate_caches_def cache_list_def set_cache_list_def)
  obtain w2 where i2: "fold_opt invalidate_caches (?stack @ ?libs) (g\<lparr>gw := ?w1\<rparr>) = Some (g\<lparr>gw := w2\<rparr>)"
    and same: "same_static ?w1 w2"
  proof -
    have "\<forall>own \<in> set (?stack @ ?libs). own = CStack \<or> (\<exists>li < length (w_lib (gw (g\<lparr>gw := ?w1\<rparr>))). own = CLib li)"
      by auto
    from invalidate_rest [OF this] that show ?thesis by auto
  qed
  have w1: "all_clean ?w1" using clean cache_list_set [of COpt ?w "w_cache_list ?w" _ "map ?inv (w_cache_list ?w)"]
    by (auto simp: all_clean_def clean_def cache_list_def set_cache_list_def split: cache_owner.splits)
  from same have w2: "w_cfg w2 = w_cfg ?w" "w_cfg_act w2 = [ci]" "w_cache_list w2 = map ?inv (w_cache_list ?w)"
    "length (w_lib w2) = length (w_lib ?w)" "\<And>own. clean own w2"
    using act w1 by (auto simp: same_static_def all_clean_def)
  from ce w2 have ce2: "covered n w2 c k ?ce" by (auto simp: covered_def)
  let ?f = "if ?ok then stored ?p ?vs (filled ?mem ?ce) else filled ?mem ?ce"
  let ?w3 = "w2\<lparr>w_cfg := (w_cfg ?w)[ci := entry_done ct ?v ?ok c], w_cache_list := (w_cache_list w2)[k := ?f]\<rparr>"
  have st: "process_static ci junk (0, g\<lparr>gw := w2\<rparr>) = Some (?v, g\<lparr>gw := ?w3\<rparr>)"
    using process_static_plain [of ci w2 c ct n k ?ce ?mem junk, OF _ _ c(3) ce2] c m w2
    by (cases g) (simp add: Let_def)
  have pe: "process_entries junk None [ci] (0, g\<lparr>gw := w2\<rparr>) = Some (?v, g\<lparr>gw := ?w3\<rparr>)"
    using st c w2(1) by (simp add: vget_def plain_entry_def)
  have rest: "fold_opt write_caches (?libs @ ?stack) (g\<lparr>gw := ?w3\<rparr>) = Some (g\<lparr>gw := ?w3\<rparr>)"
  proof (rule write_clean_owners)
    have "cache_list own ?w3 = cache_list own w2" if "own \<in> set (?libs @ ?stack)" for own
      using that by (auto simp: cache_list_def split: if_splits)
    moreover have "cache_list own w2 \<noteq> None" if "own \<in> set (?libs @ ?stack)" for own
      using that w2(4) by (auto simp: cache_list_def vget_def split: if_splits)
    ultimately show "\<forall>own \<in> set (?libs @ ?stack). clean own (gw (g\<lparr>gw := ?w3\<rparr>)) \<and> cache_list own (gw (g\<lparr>gw := ?w3\<rparr>)) \<noteq> None"
      using w2(5) by (simp add: clean_def)
  qed
  have dirt: "\<not> ca_is_dirty (w_cache_list w2 ! i)" if "i < length (w_cache_list w2)" for i
    using w2(5) [of COpt] that by (simp add: clean_def cache_list_def)
  have k: "k < length (w_cache_list ?w3)" using ce2 by (simp add: covered_def)
  obtain w4 where fin: "write_caches COpt (g\<lparr>gw := ?w3\<rparr>) =
      Some \<lparr>gw = w4, gmem = (if ?ok then set_byte_range (c_addr c) ?vs ?mem else ?mem)\<rparr>" "w_cfg w4 = w_cfg ?w3"
  proof (cases ?ok)
    case True
    have "?p + length ?vs \<le> MEM_CHUNK" "ca_offs ce + of_nat ?p = c_addr c" using ce by (auto simp: covered_def value_bytes_def)
    with write_one_cache [of k ?w3 ?p ?vs ?mem ?ce, OF k] True k dirt m
    obtain w4 where "write_caches COpt \<lparr>gw = ?w3, gmem = ?mem\<rparr> = Some \<lparr>gw = w4, gmem = set_byte_range (c_addr c) ?vs ?mem\<rparr>"
      "w_cfg w4 = w_cfg ?w3" by auto
    with True that show ?thesis by (cases g) simp
  next
    case False
    have "\<not> ca_is_dirty ce" using dirt [of k] ce2 by (simp add: covered_def)
    with False have "clean COpt ?w3"
      using dirt k by (auto simp: clean_iff COpt_simps vget_Some_iff nth_list_update filled_def)
    from write_caches_clean [of COpt "g\<lparr>gw := ?w3\<rparr>", OF _ ] this have
      "write_caches COpt (g\<lparr>gw := ?w3\<rparr>) = Some (g\<lparr>gw := ?w3\<rparr>)" by (simp add: cache_list_def)
    with False that show ?thesis by (cases g) simp
  qed
  have "process_act_cfg junk g = Some \<lparr>gw = w4, gmem = (if ?ok then set_byte_range (c_addr c) ?vs ?mem else ?mem)\<rparr>"
  proof -
    have 1: "fold_opt invalidate_caches (COpt # ?stack @ ?libs) g = Some (g\<lparr>gw := w2\<rparr>)"
      by (simp only: fold_opt.simps i1 bind.bind_lunit i2)
    have 2: "fold_opt write_caches (?libs @ ?stack @ [COpt]) (g\<lparr>gw := ?w3\<rparr>) =
        Some \<lparr>gw = w4, gmem = (if ?ok then set_byte_range (c_addr c) ?vs ?mem else ?mem)\<rparr>"
      by (simp only: append_assoc [symmetric] fold_opt_append [of _ "?libs @ ?stack"] rest bind.bind_lunit
          fold_opt.simps fin bind_runit)
    have 3: "w_cfg_act (gw (g\<lparr>gw := w2\<rparr>)) = [ci]" using w2(2) by simp
    show ?thesis by (simp only: process_act_cfg_def Let_def 1 bind.bind_lunit 3 pe 2 prod.case)
  qed
  with fin(2) show ?thesis by (simp add: Let_def)
qed

end
