(* ===== verification/Strtod.thy ===== *)
theory Strtod
  imports Values
begin

text \<open>
  \<open>strtod\<close> and \<open>strtof\<close> of the C library, as \<open>src/src/cfgparser.cpp\<close> uses them: decimal and
  hexadecimal numbers with an exponent, infinity and NaN, rounded to nearest.
\<close>

subsection \<open>Rounding a fraction\<close>

text \<open>
  The nearest number to \<open>a / b\<close>: enough bits of the quotient are taken, with a last bit that says
  whether there is a rest.
\<close>

definition fp_of_ratio :: "nat \<Rightarrow> nat \<Rightarrow> nat \<Rightarrow> value_t" where
  "fp_of_ratio n a b =
     (let s = 1200 + bitlen b; q = a * 2 ^ s div b; r = a * 2 ^ s mod b
      in fp_round n (int (2 * q + (if r = 0 then 0 else 1))) (- int (s + 1)))"

definition fp_set_sign :: "nat \<Rightarrow> bool \<Rightarrow> value_t \<Rightarrow> value_t" where
  "fp_set_sign n neg v = (if neg then v OR push_bit (n - 1) 1 else v)"

subsection \<open>Reading\<close>

definition lower :: "char \<Rightarrow> char" where
  "lower c = (if c_isupper c then char_of ((of_char c :: nat) + 32) else c)"

definition has_word :: "string \<Rightarrow> string \<Rightarrow> bool" where
  "has_word w s \<longleftrightarrow> is_prefix w (map lower s)"

text \<open>Digits with a point in some base: their value without the point, and the digits behind it.\<close>

definition scan_mantissa :: "nat \<Rightarrow> string \<Rightarrow> (nat \<times> nat \<times> string) option" where
  "scan_mantissa base s =
     (let ip = takeWhile (is_digit base) s; r = dropWhile (is_digit base) s;
          fp = (case r of c # r' \<Rightarrow> if c = CHR ''.'' then takeWhile (is_digit base) r' else [] | [] \<Rightarrow> []);
          r2 = (case r of c # r' \<Rightarrow> if c = CHR ''.'' then dropWhile (is_digit base) r' else r | [] \<Rightarrow> [])
      in if ip = [] \<and> fp = [] then None else Some (num_value base (ip @ fp), length fp, r2))"

text \<open>An exponent behind the given letter; without digits there is none.\<close>

definition scan_exp :: "char \<Rightarrow> string \<Rightarrow> int" where
  "scan_exp l s = (case s of
     c # r \<Rightarrow> if lower c \<noteq> l then 0
       else (case scan_sign r of (neg, r') \<Rightarrow>
         let e = int (num_value 10 (takeWhile (is_digit 10) r')) in if neg then - e else e)
   | [] \<Rightarrow> 0)"

definition scan_hex_float :: "nat \<Rightarrow> string \<Rightarrow> value_t option" where
  "scan_hex_float n s =
     (if has_word ''0x'' s then
        map_option (\<lambda>(m, k, r). let e = scan_exp (CHR ''p'') r - 4 * int k in
          if 0 \<le> e then fp_of_ratio n (m * 2 ^ nat e) 1 else fp_of_ratio n m (2 ^ nat (- e)))
          (scan_mantissa 16 (drop 2 s))
      else None)"

definition scan_dec_float :: "nat \<Rightarrow> string \<Rightarrow> value_t option" where
  "scan_dec_float n s =
     map_option (\<lambda>(m, k, r). let e = scan_exp (CHR ''e'') r - int k in
       if 0 \<le> e then fp_of_ratio n (m * 10 ^ nat e) 1 else fp_of_ratio n m (10 ^ nat (- e)))
       (scan_mantissa 10 s)"

definition fp_const :: "nat \<Rightarrow> string \<Rightarrow> value_t option" where
  "fp_const n s =
     (if has_word ''inf'' s then Some (word_of_int (fp_inf n))
      else if has_word ''nan'' s then Some (word_of_int (fp_inf n + 2 ^ (fp_mbits n - 1)))
      else None)"

text \<open>\<open>strtof\<close> for \<open>n = 32\<close>, \<open>strtod\<close> for \<open>n = 64\<close>; 0 when there is no number.\<close>

definition strto_fp :: "nat \<Rightarrow> string \<Rightarrow> value_t" where
  "strto_fp n s =
     (case scan_sign (dropWhile c_isspace s) of (neg, r) \<Rightarrow>
        case fp_const n r of
          Some v \<Rightarrow> fp_set_sign n neg v
        | None \<Rightarrow> (case scan_hex_float n r of
            Some v \<Rightarrow> fp_set_sign n neg v
          | None \<Rightarrow> (case scan_dec_float n r of
              Some v \<Rightarrow> fp_set_sign n neg v
            | None \<Rightarrow> 0)))"

end
