(* ===== verification/Cfgparser.thy ===== *)
theory Cfgparser
  imports Strtod Aslr
begin

text \<open>
  The parser of the config file (\<open>src/src/cfgparser.cpp\<close>). A position in a line is a number; the
  result of a parser is its value and the next position. \<open>None\<close>: the trainer stops, with the
  message for a parse error, with an exception of \<open>at()\<close> or of \<open>substr()\<close>, or without a return.
\<close>

subsection \<open>Strings\<close>

text \<open>\<open>string (line, pos, n)\<close> and \<open>substr\<close>, which throw behind the end, and without a length.\<close>

definition substr :: "string \<Rightarrow> nat \<Rightarrow> nat \<Rightarrow> string option" where
  "substr s pos n = (if length s < pos then None else Some (take n (drop pos s)))"

definition substr_from :: "string \<Rightarrow> nat \<Rightarrow> string option" where
  "substr_from s pos = (if length s < pos then None else Some (drop pos s))"

definition check_that :: "bool \<Rightarrow> unit option" where
  "check_that b = (if b then Some () else None)"

definition cppbasename :: "string \<Rightarrow> string" where
  "cppbasename s = (case index_last (\<lambda>c. c = CHR ''/'') s of Some p \<Rightarrow> drop (p + 1) s | None \<Rightarrow> [])"

definition cppdirname :: "string \<Rightarrow> string" where
  "cppdirname s = (case index_last (\<lambda>c. c = CHR ''/'') s of Some p \<Rightarrow> take (p + 1) s | None \<Rightarrow> ''./'')"

definition is_dec_str :: "string \<Rightarrow> bool" where "is_dec_str s \<longleftrightarrow> (\<forall>c \<in> set s. c_isdigit c)"
definition is_hex_str :: "string \<Rightarrow> bool" where "is_hex_str s \<longleftrightarrow> (\<forall>c \<in> set s. c_isxdigit c)"

subsection \<open>Names\<close>

datatype name_e = NAME_GAME_PATH | NAME_GAME_BINPATH | NAME_GAME_CALL | NAME_GAME_PARAMS
  | NAME_USE_GBT | NAME_NO_PRELOAD | NAME_REGULAR | NAME_CHECK | NAME_CHECK_OBJ | NAME_DEFINE
  | NAME_DYNMEM_START | NAME_DYNMEM_CONST | NAME_DYNMEM_GROW | NAME_DYNMEM_END | NAME_DYNMEM_FILE
  | NAME_PTRMEM_START | NAME_PTRMEM_END | NAME_DUMP | NAME_ADP_SCRIPT | NAME_ADP_REQ

definition proc_name_char :: "char \<Rightarrow> bool" where
  "proc_name_char c \<longleftrightarrow> c_isalnum c \<or> c \<in> set ''.-_ ''"

definition parse_proc_name :: "string \<Rightarrow> string option" where
  "parse_proc_name line = (if line \<noteq> [] \<and> (\<forall>c \<in> set line. proc_name_char c) then Some line else None)"

definition name_char :: "char \<Rightarrow> bool" where
  "name_char c \<longleftrightarrow> c_isalnum c \<or> c \<in> set ''-_/.+ ''"

text \<open>A name up to a space, or up to the end of the line; \<open>start\<close> is behind the separator then.\<close>

definition parse_name :: "bool \<Rightarrow> string \<Rightarrow> nat \<Rightarrow> (string \<times> nat) option" where
  "parse_name allow_spaces line start = do {
     let r = drop start line;
     let name = (if allow_spaces then r else takeWhile (\<lambda>c. c \<noteq> CHR '' '') r);
     check_that (start \<le> length line \<and> (\<forall>c \<in> set name. name_char c));
     Some (name, start + length name + 1) }"

text \<open>The keywords; \<open>None\<close>: the name may be that of a macro.\<close>

definition classify :: "string \<Rightarrow> name_e option" where
  "classify s =
     (if is_prefix ''dynmem'' s then
        let t = drop 6 s in Some (if t = ''start'' then NAME_DYNMEM_START
          else if t = ''const'' then NAME_DYNMEM_CONST
          else if t = ''grow'' then NAME_DYNMEM_GROW
          else if t = ''end'' then NAME_DYNMEM_END
          else if t = ''file'' then NAME_DYNMEM_FILE else NAME_REGULAR)
      else if is_prefix ''ptrmem'' s then
        let t = drop 6 s in Some (if t = ''start'' then NAME_PTRMEM_START
          else if t = ''end'' then NAME_PTRMEM_END else NAME_REGULAR)
      else if is_prefix ''check'' s then
        Some (if s = ''check'' then NAME_CHECK else if drop 5 s = ''o'' then NAME_CHECK_OBJ else NAME_REGULAR)
      else if is_prefix ''adapt_'' s then
        let t = drop 6 s in Some (if t = ''script'' then NAME_ADP_SCRIPT
          else if t = ''required'' then NAME_ADP_REQ else NAME_REGULAR)
      else if is_prefix ''game_'' s then
        let t = drop 5 s in Some (if t = ''path'' then NAME_GAME_PATH
          else if t = ''binpath'' then NAME_GAME_BINPATH
          else if t = ''call'' then NAME_GAME_CALL
          else if t = ''params'' then NAME_GAME_PARAMS else NAME_REGULAR)
      else if s = ''use_gbt'' then Some NAME_USE_GBT
      else if s = ''no_preload'' then Some NAME_NO_PRELOAD
      else if s = ''define'' then Some NAME_DEFINE
      else if s = ''dump'' then Some NAME_DUMP
      else None)"

text \<open>
  The first name of a line. The name of a macro replaces the line and starts again; a macro that
  starts with itself never ends. Not to return is \<open>None\<close>; a parse error, which ends the program,
  is the result \<open>Some None\<close>.
\<close>

partial_function (option) parse_value_name ::
  "(string \<rightharpoonup> string) \<Rightarrow> string \<Rightarrow> nat \<Rightarrow> (string \<times> name_e \<times> string \<times> nat) option option" where
  "parse_value_name macros line start =
     (case parse_name False line start of
        None \<Rightarrow> Some None
      | Some (name, next) \<Rightarrow>
          (case classify name of
             Some t \<Rightarrow> Some (Some (name, t, line, next))
           | None \<Rightarrow> (case macros name of
               Some line' \<Rightarrow> parse_value_name macros line' 0
             | None \<Rightarrow> Some (Some (name, NAME_REGULAR, line, next)))))"

declare parse_value_name.simps [code]

text \<open>For the parser of the line both mean that it does not go on.\<close>

definition value_name :: "(string \<rightharpoonup> string) \<Rightarrow> string \<Rightarrow> nat \<Rightarrow> (string \<times> name_e \<times> string \<times> nat) option" where
  "value_name macros line start = Option.bind (parse_value_name macros line start) id"

lemma value_name_unfold:
  "value_name macros line start =
     parse_name False line start \<bind> (\<lambda>(name, next).
       case classify name of
         Some t \<Rightarrow> Some (name, t, line, next)
       | None \<Rightarrow> (case macros name of
           Some line' \<Rightarrow> value_name macros line' 0
         | None \<Rightarrow> Some (name, NAME_REGULAR, line, next)))"
  unfolding value_name_def by (subst parse_value_name.simps) (auto split: option.split)

subsection \<open>Addresses\<close>

definition find_cfg_en :: "string \<Rightarrow> cfg_entry list \<Rightarrow> nat option" where
  "find_cfg_en name cfg = index_last (\<lambda>c. c_name c = name) cfg"

definition find_ptr_mem :: "string \<Rightarrow> world \<Rightarrow> nat option" where
  "find_ptr_mem name w =
     map_option (\<lambda>i. the (c_ptrmem (w_cfg w ! i)))
       (index_first (\<lambda>c. case c_ptrmem c of None \<Rightarrow> False | Some pi \<Rightarrow> p_name (w_ptr w ! pi) = name) (w_cfg w))"

text \<open>Take over the address of an entry, and where it is.\<close>

definition take_place :: "val_type \<Rightarrow> val_type \<Rightarrow> val_type" where
  "take_place from ty =
     (if t_on_stack from then ty\<lparr>t_on_stack := True\<rparr>
      else case t_lib_name from of
        Some l \<Rightarrow> if l \<noteq> [] then ty\<lparr>t_lib_name := Some l\<rparr> else ty
      | None \<Rightarrow> ty)"

text \<open>An offset with a sign behind a keyword of four letters.\<close>

definition parse_rel :: "string \<Rightarrow> ptr \<Rightarrow> ptr option" where
  "parse_rel s base = do {
     c \<leftarrow> vget s 4;
     check_that (c = CHR ''-'' \<or> c = CHR ''+'');
     let r = drop 5 s;
     rel \<leftarrow> (if is_prefix ''0x'' r
        then (if is_hex_str (drop 2 r) then Some (strtoul 16 (drop 2 r)) else None)
        else (if is_dec_str r then Some (strtoul 10 r) else None));
     check_that (rel \<noteq> 0);
     Some (if c = CHR ''-'' then base - rel else base + rel) }"

text \<open>A number in base 16; the last character of the line is not checked.\<close>

definition parse_hex :: "string \<Rightarrow> nat \<Rightarrow> (ptr \<times> nat) option" where
  "parse_hex line start =
     (let r = drop start line; ds = takeWhile c_isxdigit r; n = length ds
      in if r = [] then Some (0, start + 1)
         else if length r \<le> n + 1 then Some (strtoul 16 r, start + length r)
         else if r ! n = CHR '' '' then Some (strtoul 16 ds, start + n + 1)
         else None)"

text \<open>
  What an address is for: none of the entries is known (\<open>ANone\<close>), or a config entry or a check is
  being set up. The type of the latter may be changed, and a check may get a reference.
\<close>

datatype actx = ANone | ACfg | AChk

record addr_res =
  r_addr :: ptr
  r_type :: val_type
  r_ref :: "nat option"
  r_next :: nat

definition this_addr :: "world \<Rightarrow> val_type \<Rightarrow> nat \<Rightarrow> addr_res option" where
  "this_addr w ty next =
     (if w_cfg w = [] then None
      else let c = List.last (w_cfg w)
           in Some \<lparr>r_addr = c_addr c, r_type = take_place (c_type c) ty, r_ref = None, r_next = next\<rparr>)"

definition named_addr :: "bool \<Rightarrow> world \<Rightarrow> val_type \<Rightarrow> string \<Rightarrow> nat \<Rightarrow> addr_res option" where
  "named_addr use_ref w ty name next = do {
     i \<leftarrow> find_cfg_en name (w_cfg w);
     let c = w_cfg w ! i;
     if Suc i = length (w_cfg w) then this_addr w ty next
     else if use_ref
     then Some \<lparr>r_addr = c_addr c, r_type = take_place (c_type c) ty, r_ref = None, r_next = next\<rparr>
     else Some \<lparr>r_addr = 0, r_type = ty, r_ref = Some i, r_next = next\<rparr> }"

function parse_addr :: "actx \<Rightarrow> bool \<Rightarrow> world \<Rightarrow> val_type \<Rightarrow> string \<Rightarrow> nat \<Rightarrow> addr_res option" where
  "parse_addr ctx use_ref w ty line start =
     (if length line < start + 2 then None
      else if line ! start = CHR ''0'' \<and> line ! (start + 1) = CHR ''x'' then do {
        (a, next) \<leftarrow> parse_hex line (start + 2);
        Some \<lparr>r_addr = a, r_type = ty, r_ref = None, r_next = next\<rparr> }
      else do {
        (s, next) \<leftarrow> parse_name False line start;
        if s = ''addr'' then
          (if use_ref \<or> ctx \<noteq> AChk then None else parse_addr ctx True w ty line next)
        else if s = ''stack'' then
          (if ctx = ANone then None else parse_addr ANone use_ref w (ty\<lparr>t_on_stack := True\<rparr>) line next)
        else if s = ''lib'' then
          (if ctx = ANone then None
           else do {
             (l, next2) \<leftarrow> parse_name False line next;
             parse_addr ANone use_ref w (ty\<lparr>t_lib_name := Some l\<rparr>) line next2 })
        else if is_prefix ''prev'' s then
          (if ctx \<noteq> ACfg \<or> w_cfg w = [] then None
           else do {
             r \<leftarrow> this_addr w ty next;
             a \<leftarrow> parse_rel s (r_addr r);
             Some (r\<lparr>r_addr := a\<rparr>) })
        else if ctx \<noteq> AChk then None
        else if s = ''this'' then this_addr w ty next
        else if is_prefix ''this'' s then do {
          r \<leftarrow> this_addr w ty next;
          a \<leftarrow> parse_rel s (r_addr r);
          Some (r\<lparr>r_addr := a\<rparr>) }
        else named_addr use_ref w ty s next })"
  by pat_completeness auto

termination
  by (relation "measure (\<lambda>(ctx, use_ref, w, ty, line, start).
        (if ctx = ANone then 0 else 2) + (if use_ref then 0 else 1))") auto

declare parse_addr.simps [simp del]

subsection \<open>Types\<close>

definition no_type :: val_type where
  "no_type = \<lparr>t_lib_name = None, t_lib = None, t_on_stack = False, t_is_signed = False,
     t_is_float = False, t_is_cstr = False, t_is_cstrp = False, t_size = 0\<rparr>"

text \<open>\<open>atoi\<close>: the low 32 bits of \<open>strtol\<close>.\<close>

definition atoi :: "string \<Rightarrow> int" where
  "atoi s = sint (ucast (strtol 10 s) :: 32 word)"

definition parse_size :: "val_type \<Rightarrow> string \<Rightarrow> nat \<Rightarrow> (val_type \<times> nat) option" where
  "parse_size ty line start =
     (let r = drop start line; ds = takeWhile (\<lambda>c. c \<noteq> CHR '' '') r
      in if \<not> is_dec_str ds then None
         else if length ds = length r then Some (ty\<lparr>t_size := 32\<rparr>, start + length r + 1)
         else let n = atoi ds
              in if t_is_float ty \<and> n \<noteq> 32 \<and> n \<noteq> 64 then None
                 else Some (ty\<lparr>t_size := n\<rparr>, start + length ds + 1))"

definition parse_data_type :: "string \<Rightarrow> nat \<Rightarrow> val_type \<Rightarrow> (val_type \<times> nat) option" where
  "parse_data_type line start ty =
     (if length line < start + 2 then None
      else let c = line ! start
      in if c = CHR ''u'' then parse_size (ty\<lparr>t_is_signed := False, t_is_float := False\<rparr>) line (start + 1)
         else if c = CHR ''i'' then parse_size (ty\<lparr>t_is_signed := True, t_is_float := False\<rparr>) line (start + 1)
         else if c = CHR ''f'' then parse_size (ty\<lparr>t_is_signed := True, t_is_float := True\<rparr>) line (start + 1)
         else if c = CHR ''p'' then Some (ty\<lparr>t_size := 0\<rparr>, start + 2)
         else if c = CHR ''c'' then
           (if length line < start + 8 then None
            else if is_prefix ''cstrp'' (drop start line)
            then Some (ty\<lparr>t_is_cstrp := True, t_size := 0\<rparr>, start + 6)
            else if is_prefix ''cstr'' (drop start line)
            then Some (ty\<lparr>t_is_cstr := True, t_size := 64\<rparr>, start + 5)
            else None)
         else None)"

subsection \<open>Values\<close>

text \<open>
  The comparison in front of a value; for a check also its end (the value is missing) and the
  heap. \<open>first\<close>: this is the first value of the line.
\<close>

datatype chk_res = Check check_e nat | Heap | Missing

definition parse_check :: "bool \<Rightarrow> bool \<Rightarrow> string \<Rightarrow> nat \<Rightarrow> chk_res option" where
  "parse_check is_check first line start =
     (if length line < start + 2 then (if first then None else Some Missing)
      else let c = line ! start; sp = (line ! (start + 1) = CHR '' '')
      in if c = CHR ''l'' \<and> sp then Some (Check CHECK_LT (start + 2))
         else if c = CHR ''g'' \<and> sp then Some (Check CHECK_GT (start + 2))
         else if c = CHR ''e'' \<and> sp then
           (if \<not> is_check then None
            else if first \<and> drop (start + 2) line = ''heap'' then Some Heap
            else Some (Check CHECK_EQ (start + 2)))
         else if is_check then None else Some (Check CHECK_OFF start))"

text \<open>The value itself: a number, or a word for a dynamic value if these are allowed.\<close>

datatype word_res = Num nat string nat | Word string nat

definition num_char :: "val_type \<Rightarrow> bool \<Rightarrow> char \<Rightarrow> bool" where
  "num_char ty neg c \<longleftrightarrow> c_isdigit c \<or> neg \<or> t_is_float ty \<and> c = CHR ''.''"

definition parse_word :: "val_type \<Rightarrow> bool \<Rightarrow> string \<Rightarrow> nat \<Rightarrow> word_res option" where
  "parse_word ty allow_dyn line start =
     (if length line < start then None
      else if is_prefix ''0x'' (drop start line) then
        (let s = takeWhile (\<lambda>c. c \<noteq> CHR '' '') (drop (start + 2) line)
         in if is_hex_str s then Some (Num 16 s (start + 2 + length s + 1)) else None)
      else
        (let s = takeWhile (\<lambda>c. c \<noteq> CHR '' '') (drop start line);
             neg = (s \<noteq> [] \<and> hd s = CHR ''-''); others = filter (\<lambda>c. \<not> num_char ty neg c) s
         in if others = [] then Some (Num 10 s (start + length s + 1))
            else if allow_dyn \<and> (\<forall>c \<in> set others. c_isalpha c \<or> c = CHR ''-'' \<or> c = CHR ''+'')
            then Some (Word s (start + length s + 1))
            else None))"

definition num_of :: "val_type \<Rightarrow> nat \<Rightarrow> string \<Rightarrow> value_t" where
  "num_of ty base s =
     (if t_is_float ty then
        (if t_size ty = 32 then put 32 0 (strto_fp 32 s) else strto_fp 64 s)
      else
        let n = (if t_size ty \<in> {64, 32, 16} then nat (t_size ty) else 8)
        in put n 0 (if t_is_signed ty then strtol base s else strtoul base s))"

definition parse_u32_value :: "string \<Rightarrow> nat \<Rightarrow> (u32 \<times> nat) option" where
  "parse_u32_value line start = do {
     r \<leftarrow> parse_word (no_type\<lparr>t_size := 32\<rparr>) False line start;
     case r of Num base s next \<Rightarrow> Some (ucast (num_of (no_type\<lparr>t_size := 32\<rparr>) base s), next)
     | Word _ _ \<Rightarrow> None }"

text \<open>The word for a dynamic value: its kind, the value and the reference with an offset.\<close>

definition parse_ref :: "string \<Rightarrow> cfg_entry list \<Rightarrow> (nat \<times> 64 word) option" where
  "parse_ref s cfg = (case find_cfg_en s cfg of
     Some i \<Rightarrow> Some (i, 0)
   | None \<Rightarrow> do {
       p \<leftarrow> (case index_last (\<lambda>c. c = CHR ''+'') s of
              Some p \<Rightarrow> Some p | None \<Rightarrow> index_last (\<lambda>c. c = CHR ''-'') s);
       i \<leftarrow> find_cfg_en (take p s) cfg;
       Some (i, strtol 10 (drop p s)) })"

definition parse_dynval ::
  "string \<Rightarrow> cfg_entry list \<Rightarrow> (dynval_e \<times> value_t \<times> (nat \<times> 64 word) option) option" where
  "parse_dynval s cfg =
     (if s = ''max'' then Some (DYN_VAL_MAX, 0, None)
      else if s = ''min'' then Some (DYN_VAL_MIN, 0, None)
      else if is_prefix ''va0x'' s then do {
        (a, r) \<leftarrow> scan_ptr (drop 2 s);
        Some (DYN_VAL_ADDR, a, None) }
      else if s = ''watch'' then Some (DYN_VAL_WATCH, 0, None)
      else if s = ''once'' then Some (DYN_VAL_PTR_ONCE, 0, None)
      else if s = ''always'' then Some (DYN_VAL_PTR_ALWAYS, 0, None)
      else do {
        r \<leftarrow> parse_ref s cfg;
        Some (DYN_VAL_ADDR, 0, Some r) })"

text \<open>The value of a config entry.\<close>

definition parse_cfg_value :: "string \<Rightarrow> nat \<Rightarrow> cfg_entry list \<Rightarrow> cfg_entry \<Rightarrow> (cfg_entry \<times> nat) option" where
  "parse_cfg_value line start cfg c = do {
     k \<leftarrow> parse_check False True line start;
     case k of
       Check chk p \<Rightarrow> do {
         r \<leftarrow> parse_word (c_type c) True line p;
         case r of
           Num base s next \<Rightarrow> Some (c\<lparr>c_check := chk, c_value := num_of (c_type c) base s\<rparr>, next)
         | Word s next \<Rightarrow> do {
             (dv, v, ref) \<leftarrow> parse_dynval s cfg;
             let c' = c\<lparr>c_check := chk, c_value := v, c_dynval := dv\<rparr>;
             Some (case ref of None \<Rightarrow> c' | Some (i, add) \<Rightarrow> c'\<lparr>c_cfg_ref := Some i, c_cfg_ref_add := add\<rparr>, next) } }
     | _ \<Rightarrow> None }"

text \<open>One of the values of a check.\<close>

definition parse_chk_value :: "string \<Rightarrow> nat \<Rightarrow> nat \<Rightarrow> check_entry \<Rightarrow> (check_entry \<times> nat) option" where
  "parse_chk_value line start i k = do {
     c \<leftarrow> parse_check True (i = 0) line start;
     case c of
       Missing \<Rightarrow> Some (k\<lparr>k_check := (k_check k)[i := CHECK_END], k_value := (k_value k)[i := 0]\<rparr>, start)
     | Heap \<Rightarrow> Some (k\<lparr>k_check := (k_check k)[i := CHECK_EQ], k_value := (k_value k)[i := 0],
           k_is_heapchk := True\<rparr>, length line + 1)
     | Check chk p \<Rightarrow> do {
         r \<leftarrow> parse_word (k_type k) False line p;
         case r of
           Num base s next \<Rightarrow> Some (k\<lparr>k_check := (k_check k)[i := chk],
             k_value := (k_value k)[i := num_of (k_type k) base s]\<rparr>, next)
         | Word _ _ \<Rightarrow> None } }"


subsection \<open>Dynamic memory\<close>

definition parse_pic_lib :: "string \<Rightarrow> nat \<Rightarrow> string" where
  "parse_pic_lib line start =
     (let s = drop start line
      in if s = ''exe'' \<or> CHR '' '' \<in> set s \<or> TAB \<in> set s then [] else s)"

definition parse_plain_addr :: "world \<Rightarrow> string \<Rightarrow> nat \<Rightarrow> (ptr \<times> nat) option" where
  "parse_plain_addr w line start =
     map_option (\<lambda>r. (r_addr r, r_next r)) (parse_addr ANone False w no_type line start)"

text \<open>The code address, the stack offset and the library.\<close>

definition parse_site :: "world \<Rightarrow> string \<Rightarrow> nat \<Rightarrow> (ptr \<times> ptr \<times> string) option" where
  "parse_site w line start = do {
     (ca, p1) \<leftarrow> parse_plain_addr w line start;
     (so, p2) \<leftarrow> parse_plain_addr w line p1;
     Some (ca, so, parse_pic_lib line p2) }"

definition parse_essentials :: "world \<Rightarrow> string \<Rightarrow> nat \<Rightarrow> dyn_essentials option" where
  "parse_essentials w line start = do {
     (size, p1) \<leftarrow> parse_u32_value line start;
     (ca, so, lib) \<leftarrow> parse_site w line p1;
     Some \<lparr>e_mem_size = ucast size, e_code_addr = ca, e_code_offs = ca, e_stack_offs = so, e_lib = Some lib\<rparr> }"

definition parse_growing :: "world \<Rightarrow> string \<Rightarrow> nat \<Rightarrow> grow_entry option" where
  "parse_growing w line start = do {
     (smin, p1) \<leftarrow> parse_u32_value line start;
     check_that (smin \<noteq> 0);
     (smax, p2) \<leftarrow> parse_u32_value line p1;
     check_that (smin < smax);
     check_that (p2 + 2 \<le> length line);
     let c = line ! p2;
     check_that (c = CHR ''+'' \<or> c = CHR ''*'');
     (add, p3) \<leftarrow> parse_u32_value line (p2 + 1);
     check_that (add \<noteq> 0 \<and> (c = CHR ''+'' \<longrightarrow> add \<le> smax - smin));
     (ca, so, lib) \<leftarrow> parse_site w line p3;
     Some \<lparr>g_size_min = ucast smin, g_size_max = ucast smax, g_type = (if c = CHR ''+'' then GROW_ADD else GROW_MUL),
       g_add = add, g_code_addr = ca, g_code_offs = ca, g_stack_offs = so, g_lib = Some lib\<rparr> }"

text \<open>The contents of a new cache is not initialised; it is filled before it is used.\<close>

definition init_cache :: "ptr \<Rightarrow> cache_entry" where
  "init_cache addr = \<lparr>ca_offs = addr, ca_start = PTR_MAX, ca_data = replicate MEM_CHUNK 0, ca_is_dirty = False\<rparr>"

definition new_dynmem :: "string \<Rightarrow> dyn_essentials \<Rightarrow> nat \<Rightarrow> dynmem_entry" where
  "new_dynmem name e lnr = \<lparr>e_mem_size = e_mem_size e, e_code_addr = e_code_addr e, e_code_offs = e_code_offs e,
     e_stack_offs = e_stack_offs e, e_lib = e_lib e, d_name = name, d_consts = [], d_grow = None, d_cfg_act = [],
     d_v_maddr = [], d_v_msize = [], d_num_alloc = 0, d_num_freed = 0, d_obj_idx = 0, d_pr_idx = 0,
     d_cache_list = [init_cache PTR_MAX], d_adp_size = 0, d_adp_addr = 0, d_cfg_line = of_nat lnr\<rparr>"

definition parse_dynmem :: "bool \<Rightarrow> world \<Rightarrow> string \<Rightarrow> nat \<Rightarrow> nat \<Rightarrow> (dynmem_entry \<times> nat) option" where
  "parse_dynmem from_grow w line lnr start = do {
     (name, p1) \<leftarrow> parse_name False line start;
     if from_grow
     then Some (new_dynmem name
       \<lparr>e_mem_size = 0, e_code_addr = 0, e_code_offs = 0, e_stack_offs = 0, e_lib = None\<rparr> 0, p1)
     else do {
       e \<leftarrow> parse_essentials w line p1;
       Some (new_dynmem name e lnr, p1) } }"

subsection \<open>The config file\<close>

record popts =
  o_w :: world
  o_keys :: "char \<Rightarrow> nat list option"
  o_proc_name :: string
  o_game_call :: string
  o_game_path :: "string option"
  o_game_binpath :: string
  o_binpath_line :: nat
  o_game_params :: string
  o_dynmem_file :: string
  o_adp_script :: string
  o_adp_required :: bool
  o_adp_req_line :: nat
  o_use_gbt :: bool
  o_preload_lib :: "string option"
  o_cfg_path :: string

text \<open>
  The variables of \<open>read_config\<close> that live from line to line; \<open>s_cfg\<close> and \<open>s_chk\<close> are the objects
  that are filled in for every entry, so that some members keep what the last entry had there.
\<close>

record pstate =
  s_opt :: popts
  s_macros :: "string \<rightharpoonup> string"
  s_in_dynmem :: bool
  s_in_ptrmem :: bool
  s_dyn :: "nat option"
  s_ptr :: "nat option"
  s_cfg :: cfg_entry
  s_chk :: check_entry

abbreviation s_w :: "pstate \<Rightarrow> world" where "s_w s \<equiv> o_w (s_opt s)"

definition set_w :: "world \<Rightarrow> pstate \<Rightarrow> pstate" where
  "set_w w s = s\<lparr>s_opt := (s_opt s)\<lparr>o_w := w\<rparr>\<rparr>"

definition upd_opt :: "(popts \<Rightarrow> popts) \<Rightarrow> pstate \<Rightarrow> pstate" where
  "upd_opt f s = s\<lparr>s_opt := f (s_opt s)\<rparr>"

definition outside :: "pstate \<Rightarrow> bool" where
  "outside s \<longleftrightarrow> \<not> s_in_dynmem s \<and> \<not> s_in_ptrmem s"

text \<open>\<open>FIND_ADD_LIB_ENTRY\<close>: the index of the library with that name, which is added if it is new.\<close>

definition find_add_lib :: "string \<Rightarrow> world \<Rightarrow> nat \<times> world" where
  "find_add_lib name w = (case index_first (\<lambda>l. l_name l = name) (w_lib w) of
     Some i \<Rightarrow> (i, w)
   | None \<Rightarrow> (length (w_lib w), w\<lparr>w_lib := w_lib w @
       [\<lparr>l_name = name, l_start = 0, l_cache_list = [init_cache PTR_MAX], l_is_loaded = False, l_skip_val = False\<rparr>]\<rparr>))"

text \<open>\<open>FIND_CACHE_START\<close>: the last cache of an owner has to start at the lowest address.\<close>

definition lower_last :: "ptr \<Rightarrow> cache_entry list \<Rightarrow> cache_entry list" where
  "lower_last a cl = (if a < ca_offs (List.last cl) then butlast cl @ [(List.last cl)\<lparr>ca_offs := a\<rparr>] else cl)"

definition find_cache_start :: "cache_owner \<Rightarrow> ptr \<Rightarrow> world \<Rightarrow> world option" where
  "find_cache_start own a w = (case own of
     COpt \<Rightarrow> Some (w\<lparr>w_cache_list := lower_last a (w_cache_list w)\<rparr>)
   | CStack \<Rightarrow> Some (w\<lparr>w_stack_cache := lower_last a (w_stack_cache w)\<rparr>)
   | CLib i \<Rightarrow> do {
       l \<leftarrow> vget (w_lib w) i;
       Some (w\<lparr>w_lib := (w_lib w)[i := l\<lparr>l_cache_list := lower_last a (l_cache_list l)\<rparr>]\<rparr>) }
   | CDyn i \<Rightarrow> mod_dyn i (\<lambda>d. Some (d\<lparr>d_cache_list := lower_last a (d_cache_list d)\<rparr>)) w
   | CPtr i \<Rightarrow> mod_ptr i (\<lambda>p. Some (p\<lparr>p_cache_list := lower_last a (p_cache_list p)\<rparr>)) w)"

text \<open>Where an entry of static memory is cached.\<close>

definition static_owner :: "val_type \<Rightarrow> cache_owner" where
  "static_owner ty = (if t_on_stack ty then CStack else case t_lib ty of Some i \<Rightarrow> CLib i | None \<Rightarrow> COpt)"

text \<open>An address on the stack or in a library is only allowed outside of dynamic memory.\<close>

definition place_type :: "bool \<Rightarrow> val_type \<Rightarrow> world \<Rightarrow> (val_type \<times> world) option" where
  "place_type is_outside ty w =
     (if t_on_stack ty then (if is_outside then Some (ty, w\<lparr>w_val_on_stack := True\<rparr>) else None)
      else case t_lib_name ty of
        Some l \<Rightarrow>
          if l = [] then Some (ty, w)
          else if \<not> is_outside then None
          else (case find_add_lib l w of (i, w') \<Rightarrow> Some (ty\<lparr>t_lib := Some i\<rparr>, w'))
      | None \<Rightarrow> Some (ty, w))"

subsection \<open>A check\<close>

definition chk_values :: "string \<Rightarrow> nat \<Rightarrow> check_entry \<Rightarrow> (check_entry \<times> nat) option" where
  "chk_values line start k = fold_opt (\<lambda>i (k, p). parse_chk_value line p i k) [0..<MAX_CHK_VALS] (k, start)"

text \<open>The address of a check: none for the number of the object.\<close>

definition chk_addr :: "pstate \<Rightarrow> string \<Rightarrow> nat \<Rightarrow> check_entry \<Rightarrow> (check_entry \<times> nat) option" where
  "chk_addr s line start k =
     (if s_in_dynmem s \<and> length line < start + 4 then None
      else if s_in_dynmem s \<and> is_prefix ''obj '' (drop start line)
      then Some (k\<lparr>k_check_obj_num := True\<rparr>, start + 4)
      else do {
        r \<leftarrow> parse_addr AChk False (s_w s) (k_type k) line start;
        Some (k\<lparr>k_check_obj_num := False, k_addr := r_addr r, k_type := r_type r, k_cfg_ref := r_ref r\<rparr>, r_next r) })"

definition chk_owner :: "pstate \<Rightarrow> cfg_entry \<Rightarrow> val_type \<Rightarrow> cache_owner option" where
  "chk_owner s c ty =
     (if s_in_dynmem s then map_option CDyn (c_dynmem c)
      else if s_in_ptrmem s then map_option CPtr (c_ptrmem c)
      else Some (static_owner ty))"

text \<open>A check of the heap becomes two: at the start or above, and below the end.\<close>

definition heap_pair :: "check_entry \<Rightarrow> check_entry list" where
  "heap_pair k =
     (if k_is_heapchk k then
        let k1 = k\<lparr>k_check := (k_check k)[1 := CHECK_GT, MAX_CHK_VALS := CHECK_END]\<rparr>
        in [k1, k1\<lparr>k_check := (k_check k1)[0 := CHECK_LT, 1 := CHECK_END]\<rparr>]
      else [k\<lparr>k_check := (k_check k)[MAX_CHK_VALS := CHECK_END]\<rparr>])"

definition add_check :: "nat \<Rightarrow> check_entry \<Rightarrow> world \<Rightarrow> pstate \<Rightarrow> pstate option" where
  "add_check ci k w s = do {
     c \<leftarrow> vget (w_cfg w) ci;
     let w1 = (if k_is_heapchk k then w\<lparr>w_heap_checks := True\<rparr> else w);
     w2 \<leftarrow> (if k_cfg_ref k \<noteq> None then Some w1
            else chk_owner s c (k_type k) \<bind> (\<lambda>own. find_cache_start own (k_addr k) w1));
     w3 \<leftarrow> mod_cfg ci (\<lambda>c. Some (c\<lparr>c_checks := c_checks c @ heap_pair k\<rparr>)) w2;
     Some ((set_w w3 s)\<lparr>s_chk := List.last (heap_pair k)\<rparr>) }"

definition parse_check_line :: "bool \<Rightarrow> string \<Rightarrow> nat \<Rightarrow> pstate \<Rightarrow> pstate option" where
  "parse_check_line is_obj line start s = do {
     check_that (w_cfg (s_w s) \<noteq> []);
     (k1, p1) \<leftarrow> chk_addr s line start ((s_chk s)\<lparr>k_is_objcheck := is_obj, k_is_heapchk := False,
       k_cfg_ref := None, k_cache := None, k_cache_data := 0, k_type := no_type\<rparr>);
     (ty, w1) \<leftarrow> place_type (outside s) (k_type k1) (s_w s);
     (ty2, p2) \<leftarrow> parse_data_type line p1 ty;
     let ty3 = (if t_size ty2 = 0 then ty2\<lparr>t_size := 64\<rparr> else ty2);
     (k2, p3) \<leftarrow> chk_values line p2 (k1\<lparr>k_type := ty3\<rparr>);
     add_check (length (w_cfg w1) - 1) k2 w1 s }"

subsection \<open>A config entry\<close>

text \<open>The target of a pointer; its first state and offset are set up in static memory.\<close>

definition link_ptr :: "pstate \<Rightarrow> string \<Rightarrow> world \<Rightarrow> (nat \<times> world) option" where
  "link_ptr s name w = do {
     pi \<leftarrow> find_ptr_mem name w;
     w' \<leftarrow> mod_ptr pi (\<lambda>p. Some (if s_in_dynmem s then p\<lparr>p_dynmem := s_dyn s\<rparr>
       else p\<lparr>p_v_state := p_v_state p @ [PTR_INIT], p_v_offs := p_v_offs p @ [0]\<rparr>)) w;
     Some (pi, w') }"

text \<open>Strings and pointers have the size of a long; others have their own.\<close>

definition entry_kind ::
  "pstate \<Rightarrow> string \<Rightarrow> nat \<Rightarrow> cfg_entry \<Rightarrow> world \<Rightarrow> (cfg_entry \<times> world \<times> nat) option" where
  "entry_kind s line start c w =
     (let ty = c_type c
      in if t_is_cstrp ty \<or> t_is_cstr ty
         then Some (c\<lparr>c_type := ty\<lparr>t_size := 64\<rparr>,
           c_cstr := (if outside s then Some (replicate (MAX_CSTR + 1) NUL) else None)\<rparr>, w, start)
         else if t_size ty = 0 then do {
           (name, p) \<leftarrow> parse_name False line start;
           (pi, w') \<leftarrow> link_ptr s name w;
           Some (c\<lparr>c_type := ty\<lparr>t_size := 64\<rparr>, c_ptrtgt := Some pi\<rparr>, w', p) }
         else Some (c, w, start))"

definition activate :: "nat \<Rightarrow> cfg_entry \<Rightarrow> world \<Rightarrow> world option" where
  "activate ci c w = do {
     w1 \<leftarrow> (case c_ptrmem c of
       Some pi \<Rightarrow> mod_ptr pi (\<lambda>p. Some (p\<lparr>p_cfg_act := p_cfg_act p @ [ci]\<rparr>)) w
     | None \<Rightarrow> Some (w\<lparr>w_cfg_act := w_cfg_act w @ [ci]\<rparr>));
     case c_dynmem c of
       Some di \<Rightarrow> mod_dyn di (\<lambda>d. Some (d\<lparr>d_cfg_act := d_cfg_act d @ [ci]\<rparr>)) w1
     | None \<Rightarrow> Some w1 }"

text \<open>The keys that toggle an entry: single letters or digits, up to a space.\<close>

definition bind_key :: "nat \<Rightarrow> char \<Rightarrow> (char \<Rightarrow> nat list option) \<Rightarrow> (char \<Rightarrow> nat list option)" where
  "bind_key ci c keys = keys(c \<mapsto> (case keys c of Some l \<Rightarrow> l @ [ci] | None \<Rightarrow> [ci]))"

fun parse_keys ::
  "nat \<Rightarrow> string \<Rightarrow> string \<Rightarrow> nat \<Rightarrow> nat \<Rightarrow> (char \<Rightarrow> nat list option) \<Rightarrow> ((char \<Rightarrow> nat list option) \<times> nat) option" where
  "parse_keys ci line [] lidx start keys = Some (keys, start)"
| "parse_keys ci line (c # cs) lidx start keys =
     (if c = CHR '','' \<or> c = CHR '' '' then
        (if lidx \<noteq> start + 1 then None
         else let keys' = bind_key ci (line ! start) keys
              in if c = CHR '' '' then Some (keys', lidx + 1)
                 else parse_keys ci line cs (lidx + 1) (lidx + 1) keys')
      else if c_isalnum c then parse_keys ci line cs (lidx + 1) start keys
      else None)"

definition parse_key_bindings ::
  "nat \<Rightarrow> string \<Rightarrow> nat \<Rightarrow> (char \<Rightarrow> nat list option) \<Rightarrow> ((char \<Rightarrow> nat list option) \<times> nat) option" where
  "parse_key_bindings ci line start keys = parse_keys ci line (drop start line) start start keys"

text \<open>The members that are reset for every entry; others keep the value of the last entry.\<close>

definition fresh_cfg :: "string \<Rightarrow> cfg_entry \<Rightarrow> cfg_entry" where
  "fresh_cfg name c = c\<lparr>c_name := name, c_checks := [], c_dynval := DYN_VAL_OFF, c_cfg_ref := None,
     c_val_set := False, c_cache := None, c_cache_data := 0, c_old_val := 0, c_type := no_type\<rparr>"

text \<open>Where an entry is stored: in the class, in the memory behind the pointer, or on its own.\<close>

definition store_entry :: "pstate \<Rightarrow> cfg_entry \<Rightarrow> world \<Rightarrow> world option" where
  "store_entry s c w = do {
     let ci = length (w_cfg w);
     let cached = \<not> t_is_cstr (c_type c);
     w1 \<leftarrow> (if s_in_dynmem s \<and> cached then s_dyn s \<bind> (\<lambda>di. find_cache_start (CDyn di) (c_addr c) w) else Some w);
     w2 \<leftarrow> (if s_in_ptrmem s then do {
            pi \<leftarrow> s_ptr s;
            w' \<leftarrow> (if cached then find_cache_start (CPtr pi) (c_addr c) w1 else Some w1);
            mod_ptr pi (\<lambda>p. Some (p\<lparr>p_cfg := p_cfg p @ [ci]\<rparr>)) w' }
          else if s_in_dynmem s \<or> \<not> cached then Some w1
          else find_cache_start (static_owner (c_type c)) (c_addr c) w1);
     Some (w2\<lparr>w_cfg := w_cfg w2 @ [c\<lparr>c_ptrmem := (if s_in_ptrmem s then s_ptr s else None)\<rparr>]\<rparr>) }"

text \<open>The keys and the state of an entry that is not watched anyway.\<close>

definition finish_entry :: "string \<Rightarrow> nat \<Rightarrow> nat \<Rightarrow> pstate \<Rightarrow> pstate option" where
  "finish_entry line start ci s = do {
     c \<leftarrow> vget (w_cfg (s_w s)) ci;
     if c_dynval c = DYN_VAL_WATCH \<or> c_ptrtgt c \<noteq> None
     then do { w \<leftarrow> activate ci c (s_w s); Some (set_w w s) }
     else do {
       (keys, p) \<leftarrow> parse_key_bindings ci line start (o_keys (s_opt s));
       let s1 = upd_opt (\<lambda>opt. opt\<lparr>o_keys := keys\<rparr>) s;
       x \<leftarrow> vget line p;
       if x = CHR ''a'' then do { w \<leftarrow> activate ci c (s_w s); Some (set_w w s1) }
       else if x = CHR ''w'' then do {
         w1 \<leftarrow> mod_cfg ci (\<lambda>c. Some (c\<lparr>c_dynval := DYN_VAL_WATCH\<rparr>)) (s_w s);
         w2 \<leftarrow> activate ci c w1;
         Some (set_w w2 s1) }
       else Some s1 } }"

definition parse_entry_line :: "string \<Rightarrow> string \<Rightarrow> nat \<Rightarrow> pstate \<Rightarrow> pstate option" where
  "parse_entry_line name line start s = do {
     let c0 = fresh_cfg name (s_cfg s);
     r \<leftarrow> parse_addr ACfg False (s_w s) no_type line start;
     (ty, w1) \<leftarrow> place_type (outside s) (r_type r) (s_w s);
     (ty2, p2) \<leftarrow> parse_data_type line (r_next r) ty;
     let c1 = c0\<lparr>c_addr := r_addr r, c_type := ty2, c_ptrtgt := None, c_cstr := None\<rparr>;
     (c2, w2, p3) \<leftarrow> entry_kind s line p2 c1 w1;
     (c3, p4) \<leftarrow> parse_cfg_value line p3 (w_cfg w2) c2;
     check_that (t_is_cstrp (c_type c3) \<or> t_is_cstr (c_type c3) \<longrightarrow> c_dynval c3 = DYN_VAL_WATCH);
     let c4 = (if c_dynval c3 = DYN_VAL_ADDR then c3\<lparr>c_val_addr := c_value c3\<rparr> else c3);
     let c5 = c4\<lparr>c_dynmem := (if s_in_dynmem s then s_dyn s else None)\<rparr>;
     w3 \<leftarrow> store_entry s c5 w2;
     finish_entry line p4 (length (w_cfg w2)) ((set_w w3 s)\<lparr>s_cfg := c5\<rparr>) }"

subsection \<open>The other lines\<close>

definition start_dynmem :: "bool \<Rightarrow> string \<Rightarrow> nat \<Rightarrow> nat \<Rightarrow> pstate \<Rightarrow> (pstate \<times> nat) option" where
  "start_dynmem from_grow line lnr start s = do {
     (d, p) \<leftarrow> parse_dynmem from_grow (s_w s) line lnr start;
     let w = s_w s;
     Some ((set_w (w\<lparr>w_dyn := w_dyn w @ [d]\<rparr>) s)\<lparr>s_in_dynmem := True, s_dyn := Some (length (w_dyn w))\<rparr>, p) }"

definition parse_const_line :: "string \<Rightarrow> nat \<Rightarrow> pstate \<Rightarrow> pstate option" where
  "parse_const_line line start s = do {
     check_that (s_in_dynmem s);
     di \<leftarrow> s_dyn s;
     e \<leftarrow> parse_essentials (s_w s) line start;
     w \<leftarrow> mod_dyn di (\<lambda>d. Some (d\<lparr>d_consts := d_consts d @ [e]\<rparr>)) (s_w s);
     Some (set_w w s) }"

definition parse_grow_line :: "string \<Rightarrow> nat \<Rightarrow> nat \<Rightarrow> pstate \<Rightarrow> pstate option" where
  "parse_grow_line line lnr start s = do {
     check_that (\<not> s_in_ptrmem s);
     (s1, p) \<leftarrow> (if s_in_dynmem s then Some (s, start) else start_dynmem True line lnr start s);
     di \<leftarrow> s_dyn s1;
     d \<leftarrow> vget (w_dyn (s_w s1)) di;
     check_that (d_grow d = None);
     gr \<leftarrow> parse_growing (s_w s1) line p;
     w \<leftarrow> mod_dyn di (\<lambda>d. Some (d\<lparr>d_v_msize := [], d_grow := Some gr\<rparr>)) (s_w s1);
     Some (set_w w s1) }"

definition parse_ptr_line :: "string \<Rightarrow> nat \<Rightarrow> pstate \<Rightarrow> pstate option" where
  "parse_ptr_line line start s = do {
     check_that (\<not> s_in_dynmem s);
     (name, p1) \<leftarrow> parse_name False line start;
     (size, p2) \<leftarrow> parse_u32_value line p1;
     let w = s_w s;
     let pm = \<lparr>p_name = name, p_mem_size = ucast size, p_cfg = [], p_cfg_act = [], p_dynmem = None,
       p_v_state = [], p_v_offs = [], p_cache_list = [init_cache PTR_MAX]\<rparr>;
     Some ((set_w (w\<lparr>w_ptr := w_ptr w @ [pm]\<rparr>) s)\<lparr>s_in_ptrmem := True, s_ptr := Some (length (w_ptr w))\<rparr>) }"

definition parse_dump_line :: "string \<Rightarrow> nat \<Rightarrow> pstate \<Rightarrow> pstate option" where
  "parse_dump_line line start s = do {
     let w = s_w s;
     (a, p1) \<leftarrow> parse_plain_addr w line start;
     (size, p2) \<leftarrow> parse_u32_value line p1;
     let lib = parse_pic_lib line p2;
     let (li, w1) = (if lib = [] then (None, w) else case find_add_lib lib w of (i, w') \<Rightarrow> (Some i, w'));
     Some (set_w (w1\<lparr>w_dump := w_dump w1 @
       [\<lparr>u_addr = a, u_mem_size = ucast size, u_lib_name = Some lib, u_lib = li\<rparr>]\<rparr>) s) }"

text \<open>The lines for the options.\<close>

definition parse_option_line :: "name_e \<Rightarrow> string \<Rightarrow> nat \<Rightarrow> nat \<Rightarrow> popts \<Rightarrow> popts option" where
  "parse_option_line t line lnr start opt = (case t of
     NAME_DYNMEM_FILE \<Rightarrow> do { (v, p) \<leftarrow> parse_name True line start; Some (opt\<lparr>o_dynmem_file := v\<rparr>) }
   | NAME_ADP_SCRIPT \<Rightarrow> do {
       (v, p) \<leftarrow> parse_name False line start;
       check_that (length line - 1 \<le> p);
       Some (opt\<lparr>o_adp_script := cppdirname (o_cfg_path opt) @ v\<rparr>) }
   | NAME_ADP_REQ \<Rightarrow> do {
       (v, p) \<leftarrow> parse_u32_value line start;
       Some (opt\<lparr>o_adp_required := (v \<noteq> 0 \<or> o_adp_required opt), o_adp_req_line := lnr\<rparr>) }
   | NAME_GAME_PATH \<Rightarrow> do {
       (v, p) \<leftarrow> parse_name True line start;
       check_that (cppbasename v = o_game_call opt);
       Some (opt\<lparr>o_game_path := Some v\<rparr>) }
   | NAME_GAME_CALL \<Rightarrow> do { (v, p) \<leftarrow> parse_name False line start; Some (opt\<lparr>o_game_call := v\<rparr>) }
   | NAME_GAME_BINPATH \<Rightarrow> do {
       (v, p) \<leftarrow> parse_name True line start;
       check_that (cppbasename v = o_proc_name opt);
       Some (opt\<lparr>o_game_binpath := v, o_binpath_line := lnr\<rparr>) }
   | NAME_GAME_PARAMS \<Rightarrow> do { v \<leftarrow> substr_from line start; Some (opt\<lparr>o_game_params := v\<rparr>) }
   | NAME_USE_GBT \<Rightarrow> Some (opt\<lparr>o_use_gbt := True\<rparr>)
   | NAME_NO_PRELOAD \<Rightarrow> Some (opt\<lparr>o_preload_lib := map_option (\<lambda>_. ''-'') (o_preload_lib opt)\<rparr>)
   | _ \<Rightarrow> None)"

definition parse_define_line :: "string \<Rightarrow> nat \<Rightarrow> pstate \<Rightarrow> pstate option" where
  "parse_define_line line start s = do {
     (key, p) \<leftarrow> parse_name False line start;
     v \<leftarrow> substr_from line p;
     Some (s\<lparr>s_macros := (s_macros s)(key \<mapsto> v)\<rparr>) }"

definition parse_line :: "nat \<Rightarrow> string \<Rightarrow> pstate \<Rightarrow> pstate option" where
  "parse_line lnr line0 s =
     (if line0 = [] \<or> hd line0 = CHR ''#'' then Some s
      else do {
        (name, t, line, start) \<leftarrow> value_name (s_macros s) line0 0;
        case t of
          NAME_CHECK_OBJ \<Rightarrow> check_that (s_in_dynmem s) \<bind> (\<lambda>_. parse_check_line True line start s)
        | NAME_CHECK \<Rightarrow> parse_check_line False line start s
        | NAME_DYNMEM_START \<Rightarrow>
            check_that (outside s) \<bind> (\<lambda>_. map_option fst (start_dynmem False line lnr start s))
        | NAME_DYNMEM_CONST \<Rightarrow> parse_const_line line start s
        | NAME_DYNMEM_GROW \<Rightarrow> parse_grow_line line lnr start s
        | NAME_DYNMEM_END \<Rightarrow> check_that (s_in_dynmem s) \<bind> (\<lambda>_. Some (s\<lparr>s_in_dynmem := False, s_dyn := None\<rparr>))
        | NAME_PTRMEM_START \<Rightarrow> parse_ptr_line line start s
        | NAME_PTRMEM_END \<Rightarrow> check_that (s_in_ptrmem s) \<bind> (\<lambda>_. Some (s\<lparr>s_in_ptrmem := False, s_ptr := None\<rparr>))
        | NAME_REGULAR \<Rightarrow> parse_entry_line name line start s
        | NAME_DEFINE \<Rightarrow> check_that (outside s) \<bind> (\<lambda>_. parse_define_line line start s)
        | NAME_DUMP \<Rightarrow> check_that (outside s) \<bind> (\<lambda>_. parse_dump_line line start s)
        | _ \<Rightarrow> do {
            check_that (outside s);
            opt \<leftarrow> parse_option_line t line lnr start (s_opt s);
            Some (s\<lparr>s_opt := opt\<rparr>) } })"


subsection \<open>Building the caches\<close>

text \<open>
  The addresses of the entries and of their checks (\<open>a_elem\<close> is the entry, and the check in it),
  sorted by address; then every owner gets a new cache whenever an address is not covered by its
  last one.
\<close>

record addr_entry =
  a_addr :: ptr
  a_size :: "64 word"
  a_own :: cache_owner
  a_elem :: "nat \<times> nat option"

definition entry_owner :: "cfg_entry \<Rightarrow> val_type \<Rightarrow> cache_owner" where
  "entry_owner c ty = (case c_dynmem c of
     Some di \<Rightarrow> CDyn di
   | None \<Rightarrow> (case c_ptrmem c of Some pi \<Rightarrow> CPtr pi | None \<Rightarrow> static_owner ty))"

definition cfg_addr :: "nat \<Rightarrow> cfg_entry \<Rightarrow> addr_entry" where
  "cfg_addr ci c = \<lparr>a_addr = c_addr c, a_size = of_int (byte_size (t_size (c_type c))),
     a_own = entry_owner c (c_type c), a_elem = (ci, None)\<rparr>"

definition chk_addr_en :: "nat \<Rightarrow> cfg_entry \<Rightarrow> nat \<Rightarrow> check_entry \<Rightarrow> addr_entry" where
  "chk_addr_en ci c ki k = \<lparr>a_addr = k_addr k, a_size = of_int (byte_size (t_size (k_type k))),
     a_own = entry_owner c (k_type k), a_elem = (ci, Some ki)\<rparr>"

definition entry_addrs :: "nat \<Rightarrow> cfg_entry \<Rightarrow> addr_entry list" where
  "entry_addrs ci c =
     (if t_is_cstr (c_type c) then []
      else cfg_addr ci c # map (\<lambda>(ki, k). chk_addr_en ci c ki k)
        (filter (\<lambda>(ki, k). k_cfg_ref k = None) (enumerate 0 (c_checks c))))"

definition addr_list :: "cfg_entry list \<Rightarrow> addr_entry list" where
  "addr_list cfg = sort_key a_addr (concat (map (\<lambda>(ci, c). entry_addrs ci c) (enumerate 0 cfg)))"

definition needs_cache :: "addr_entry \<Rightarrow> cache_entry \<Rightarrow> bool" where
  "needs_cache a last_ce =
     (let lim = ca_offs last_ce + of_nat MEM_CHUNK; lim' = (if lim < a_addr a + a_size a then a_addr a else lim)
      in lim' \<le> a_addr a)"

text \<open>The pointer into the cache, as an offset: it wraps below the start of the cache.\<close>

definition assign_cache :: "addr_entry \<Rightarrow> nat \<Rightarrow> ptr \<Rightarrow> world \<Rightarrow> world option" where
  "assign_cache a i offs w =
     (let p = unat (a_addr a - offs)
      in case a_elem a of
        (ci, None) \<Rightarrow> mod_cfg ci (\<lambda>c. Some (c\<lparr>c_cache := Some (a_own a, i), c_cache_data := p\<rparr>)) w
      | (ci, Some ki) \<Rightarrow> mod_cfg ci (\<lambda>c. do {
          k \<leftarrow> vget (c_checks c) ki;
          Some (c\<lparr>c_checks := (c_checks c)[ki := k\<lparr>k_cache := Some (a_own a, i), k_cache_data := p\<rparr>]\<rparr>) }) w)"

definition build_cache :: "addr_entry \<Rightarrow> world \<Rightarrow> world option" where
  "build_cache a w = do {
     cl \<leftarrow> cache_list (a_own a) w;
     check_that (cl \<noteq> []);
     let cl' = (if needs_cache a (List.last cl) then cl @ [init_cache (a_addr a)] else cl);
     assign_cache a (length cl' - 1) (ca_offs (List.last cl')) (set_cache_list (a_own a) cl' w) }"

definition build_caches :: "world \<Rightarrow> world option" where
  "build_caches w = fold_opt build_cache (addr_list (w_cfg w)) w"

subsection \<open>The whole file\<close>

definition expand_home :: "string \<Rightarrow> string \<Rightarrow> string" where
  "expand_home home path = (if is_prefix ''~'' path then home @ drop 1 path else path)"

definition add_ext :: "string \<Rightarrow> string" where
  "add_ext path = (if 5 \<le> length path \<and> drop (length path - 5) path = ''.conf'' then path else path @ ''.conf'')"

fun split_lines :: "string \<Rightarrow> string \<Rightarrow> string list" where
  "split_lines acc [] = [acc]"
| "split_lines acc (c # cs) = (if c = NL then acc # split_lines [] cs else split_lines (acc @ [c]) cs)"

text \<open>The path, and the lines of the file there; \<open>files\<close> is the file system.\<close>

definition read_config_vect :: "(string \<Rightarrow> string option) \<Rightarrow> string \<Rightarrow> string \<Rightarrow> (string \<times> string list) option" where
  "read_config_vect files home path =
     (let p1 = add_ext (expand_home home path); p2 = expand_home home (''~/.ugtrain/'' @ p1)
      in case files p1 of
        Some txt \<Rightarrow> Some (p1, split_lines [] txt)
      | None \<Rightarrow> map_option (\<lambda>txt. (p2, split_lines [] txt)) (files p2))"

definition parse_lines :: "string list \<Rightarrow> pstate \<Rightarrow> pstate option" where
  "parse_lines ls s = fold_opt (\<lambda>(lnr, l). parse_line lnr l) (enumerate 1 ls) s"

definition init_caches :: "world \<Rightarrow> world" where
  "init_caches w = w\<lparr>w_cache_list := w_cache_list w @ [init_cache PTR_MAX],
     w_stack_cache := w_stack_cache w @ [init_cache PTR_MAX]\<rparr>"

text \<open>\<open>c0\<close> and \<open>k0\<close> are what the variables for entries and checks hold at the start.\<close>

definition parse_config :: "cfg_entry \<Rightarrow> check_entry \<Rightarrow> string list \<Rightarrow> popts \<Rightarrow> popts option" where
  "parse_config c0 k0 ls opt = do {
     l0 \<leftarrow> vget ls 0;
     name \<leftarrow> parse_proc_name l0;
     let opt1 = opt\<lparr>o_w := init_caches (o_w opt), o_proc_name := name, o_game_call := name\<rparr>;
     s \<leftarrow> parse_lines (tl ls) \<lparr>s_opt = opt1, s_macros = Map.empty, s_in_dynmem = False, s_in_ptrmem = False,
       s_dyn = None, s_ptr = None, s_cfg = c0, s_chk = k0\<rparr>;
     check_that (s_dyn s = None \<and> outside s);
     w \<leftarrow> build_caches (s_w s);
     Some ((s_opt s)\<lparr>o_w := w\<rparr>) }"

definition read_config ::
  "(string \<Rightarrow> string option) \<Rightarrow> string \<Rightarrow> cfg_entry \<Rightarrow> check_entry \<Rightarrow> popts \<Rightarrow> popts option" where
  "read_config files home c0 k0 opt = do {
     (path, ls) \<leftarrow> read_config_vect files home (o_cfg_path opt);
     parse_config c0 k0 ls (opt\<lparr>o_cfg_path := path\<rparr>) }"

end
