(* ===== verification/CfgCaches.thy ===== *)
theory CfgCaches
  imports Cfgparser ProcessInv
begin

text \<open>
  Building the caches: every entry and every check gets a cache that covers its bytes. This needs
  that the first cache of an owner starts at its lowest address, and what comes out otherwise is a
  pointer in front of the cache.
\<close>

subsection \<open>One address\<close>

text \<open>The address of an element and what it says about its cache.\<close>

definition elem_cache :: "nat \<times> nat option \<Rightarrow> world \<Rightarrow> cache_ref option \<times> nat" where
  "elem_cache e w = (case e of
     (ci, None) \<Rightarrow> (c_cache (w_cfg w ! ci), c_cache_data (w_cfg w ! ci))
   | (ci, Some ki) \<Rightarrow> (k_cache (c_checks (w_cfg w ! ci) ! ki), k_cache_data (c_checks (w_cfg w ! ci) ! ki)))"

definition valid_elem :: "nat \<times> nat option \<Rightarrow> world \<Rightarrow> bool" where
  "valid_elem e w \<longleftrightarrow> fst e < length (w_cfg w) \<and>
     (\<forall>ki. snd e = Some ki \<longrightarrow> ki < length (c_checks (w_cfg w ! fst e)))"

definition covers :: "addr_entry \<Rightarrow> world \<Rightarrow> bool" where
  "covers a w \<longleftrightarrow> (\<exists>i offs. fst (elem_cache (a_elem a) w) = Some (a_own a, i) \<and>
     offs_of (a_own a) w = Some offs \<and> i < length offs \<and>
     offs ! i + of_nat (snd (elem_cache (a_elem a) w)) = a_addr a \<and>
     snd (elem_cache (a_elem a) w) + unat (a_size a) \<le> MEM_CHUNK)"

text \<open>The address is not below the last cache of its owner, and the cache fits into memory.\<close>

definition startable :: "addr_entry \<Rightarrow> world \<Rightarrow> bool" where
  "startable a w \<longleftrightarrow> (\<exists>offs. offs_of (a_own a) w = Some offs \<and> offs \<noteq> [] \<and> List.last offs \<le> a_addr a) \<and>
     unat (a_addr a) + MEM_CHUNK < 2 ^ 64 \<and> unat (a_size a) \<le> MEM_CHUNK"

lemma needs_cache_iff:
  assumes "ca_offs ce \<le> a_addr a" "unat (a_addr a) + MEM_CHUNK < 2 ^ 64" "unat (a_size a) \<le> MEM_CHUNK"
  shows "needs_cache a ce \<longleftrightarrow> \<not> (unat (a_addr a) < unat (ca_offs ce) + MEM_CHUNK \<and>
    unat (a_addr a) + unat (a_size a) \<le> unat (ca_offs ce) + MEM_CHUNK)"
proof -
  have le: "unat (ca_offs ce) \<le> unat (a_addr a)" using assms(1) by (simp add: word_le_nat_alt)
  have 1: "unat (ca_offs ce + of_nat MEM_CHUNK) = unat (ca_offs ce) + MEM_CHUNK"
    using le assms(2) by (simp add: unat_word_ariths MEM_CHUNK_def)
  have 2: "unat (a_addr a + a_size a) = unat (a_addr a) + unat (a_size a)"
    using assms(2,3) by (simp add: unat_word_ariths MEM_CHUNK_def)
  show ?thesis
    unfolding needs_cache_def Let_def word_less_nat_alt word_le_nat_alt 1 2
    using 1 by (auto simp: word_le_nat_alt word_less_nat_alt)
qed


text \<open>Everything of the entries but their caches.\<close>

definition bare_chk :: "check_entry \<Rightarrow> check_entry" where
  "bare_chk k = k\<lparr>k_cache := None, k_cache_data := 0\<rparr>"

definition bare :: "cfg_entry \<Rightarrow> cfg_entry" where
  "bare c = c\<lparr>c_cache := None, c_cache_data := 0, c_checks := map bare_chk (c_checks c)\<rparr>"

definition same_bare :: "world \<Rightarrow> world \<Rightarrow> bool" where
  "same_bare w w' \<longleftrightarrow> map bare (w_cfg w') = map bare (w_cfg w)"

lemma bare_checks: "bare c' = bare c \<Longrightarrow> length (c_checks c') = length (c_checks c)"
  unfolding bare_def by (metis cfg_entry.select_convs(13) cfg_entry.surjective cfg_entry.update_convs(13,18,19) length_map)

lemma same_bareD:
  assumes "same_bare w w'"
  shows "length (w_cfg w') = length (w_cfg w)"
    "ci < length (w_cfg w) \<Longrightarrow> bare (w_cfg w' ! ci) = bare (w_cfg w ! ci)"
proof -
  have m: "map bare (w_cfg w') = map bare (w_cfg w)" using assms by (simp add: same_bare_def)
  show l: "length (w_cfg w') = length (w_cfg w)" using m by (rule map_eq_imp_length_eq)
  show "bare (w_cfg w' ! ci) = bare (w_cfg w ! ci)" if "ci < length (w_cfg w)"
    using arg_cong [OF m, of "\<lambda>l. l ! ci"] that l by simp
qed

lemma valid_elem_bare: "same_bare w w' \<Longrightarrow> valid_elem e w \<Longrightarrow> valid_elem e w'"
  using same_bareD bare_checks unfolding valid_elem_def by metis

subsection \<open>One step\<close>

lemma assign_cache_step:
  assumes v: "valid_elem (a_elem a) w"
  shows "\<exists>w'. assign_cache a i offs w = Some w' \<and>
    elem_cache (a_elem a) w' = (Some (a_own a, i), unat (a_addr a - offs)) \<and>
    (\<forall>e. e \<noteq> a_elem a \<longrightarrow> elem_cache e w' = elem_cache e w) \<and> same_bare w w' \<and>
    (\<forall>own. offs_of own w' = offs_of own w)"
proof (cases "a_elem a")
  case (Pair ci k)
  show ?thesis
  proof (cases k)
    case None
    let ?c = "(w_cfg w ! ci)\<lparr>c_cache := Some (a_own a, i), c_cache_data := unat (a_addr a - offs)\<rparr>"
    have ci: "ci < length (w_cfg w)" using v Pair by (simp add: valid_elem_def)
    have m: "mod_cfg ci (\<lambda>c. Some (c\<lparr>c_cache := Some (a_own a, i), c_cache_data := unat (a_addr a - offs)\<rparr>)) w =
        Some (w\<lparr>w_cfg := (w_cfg w)[ci := ?c]\<rparr>)"
      using ci by (simp add: mod_cfg_def vget_def)
    have "same_bare w (w\<lparr>w_cfg := (w_cfg w)[ci := ?c]\<rparr>)"
      using ci by (simp add: same_bare_def map_update bare_def list_update_same_conv)
    with m Pair None ci mod_cfg_lists(1) [OF m] show ?thesis
      by (auto simp: assign_cache_def elem_cache_def offs_of_def nth_list_update split: option.splits)
  next
    case (Some ki)
    let ?c = "w_cfg w ! ci"
    let ?k = "(c_checks ?c ! ki)\<lparr>k_cache := Some (a_own a, i), k_cache_data := unat (a_addr a - offs)\<rparr>"
    let ?c' = "?c\<lparr>c_checks := (c_checks ?c)[ki := ?k]\<rparr>"
    have ci: "ci < length (w_cfg w)" "ki < length (c_checks ?c)" using v Pair Some by (auto simp: valid_elem_def)
    have m: "mod_cfg ci (\<lambda>c. vget (c_checks c) ki \<bind> (\<lambda>k. Some (c\<lparr>c_checks := (c_checks c)[ki :=
        k\<lparr>k_cache := Some (a_own a, i), k_cache_data := unat (a_addr a - offs)\<rparr>]\<rparr>))) w =
        Some (w\<lparr>w_cfg := (w_cfg w)[ci := ?c']\<rparr>)"
      using ci by (simp add: mod_cfg_def vget_def)
    have "(map bare_chk (c_checks ?c))[ki := bare_chk ?k] = map bare_chk (c_checks ?c)"
      by (rule list_update_same_conv [THEN iffD2]) (use ci in \<open>simp_all add: bare_chk_def\<close>)
    note eq = this
    have "bare ?c' = bare ?c" by (simp add: bare_def map_update eq)
    then have "same_bare w (w\<lparr>w_cfg := (w_cfg w)[ci := ?c']\<rparr>)"
      using ci by (simp add: same_bare_def map_update list_update_same_conv)
    with m Pair Some ci mod_cfg_lists(1) [OF m] show ?thesis
      by (auto simp: assign_cache_def elem_cache_def offs_of_def nth_list_update split: option.splits)
  qed
qed

text \<open>Adding a cache to an owner.\<close>

lemma offs_of_set:
  "cache_list own w = Some cl \<Longrightarrow>
     offs_of own' (set_cache_list own cl' w) = (if own' = own then Some (map ca_offs cl') else offs_of own' w)"
  by (simp add: offs_of_def cache_list_set)

lemma set_cache_cfg: "w_cfg (set_cache_list own cl w) = w_cfg w"
  by (cases own) (simp_all add: set_cache_list_def)

definition extends :: "world \<Rightarrow> world \<Rightarrow> bool" where
  "extends w w' \<longleftrightarrow> (\<forall>own offs. offs_of own w = Some offs \<longrightarrow> (\<exists>ext. offs_of own w' = Some (offs @ ext)))"

text \<open>
  A step always succeeds, and the last cache of the owner then starts where it did before or at the
  address itself. Where the address can be covered, it is.
\<close>

lemma build_cache_step:
  assumes o: "offs_of (a_own a) w = Some offs" "offs \<noteq> []" and v: "valid_elem (a_elem a) w"
  shows "\<exists>w'. build_cache a w = Some w' \<and> (startable a w \<longrightarrow> covers a w') \<and> same_bare w w' \<and> extends w w' \<and>
    (\<forall>e. e \<noteq> a_elem a \<longrightarrow> elem_cache e w' = elem_cache e w) \<and>
    (\<forall>own. own \<noteq> a_own a \<longrightarrow> offs_of own w' = offs_of own w) \<and>
    (\<exists>offs'. offs_of (a_own a) w' = Some offs' \<and> offs' \<noteq> [] \<and> List.last offs' \<in> {List.last offs, a_addr a})"
proof -
  from o obtain cl where cl: "cache_list (a_own a) w = Some cl" "cl \<noteq> []" "offs = map ca_offs cl"
    by (auto simp: offs_of_def)
  let ?cl = "if needs_cache a (List.last cl) then cl @ [init_cache (a_addr a)] else cl"
  let ?w1 = "set_cache_list (a_own a) ?cl w" and ?i = "length ?cl - 1" and ?offs = "ca_offs (List.last ?cl)"
  have cl': "?cl \<noteq> []" "?offs \<in> {List.last offs, a_addr a}" using cl by (auto simp: init_cache_def last_map)
  have "valid_elem (a_elem a) ?w1" using v by (simp add: valid_elem_def set_cache_cfg)
  from assign_cache_step [OF this, of ?i ?offs] obtain w' where
    w': "assign_cache a ?i ?offs ?w1 = Some w'" "elem_cache (a_elem a) w' = (Some (a_own a, ?i), unat (a_addr a - ?offs))"
    "\<forall>e. e \<noteq> a_elem a \<longrightarrow> elem_cache e w' = elem_cache e ?w1" "same_bare ?w1 w'" "\<forall>own. offs_of own w' = offs_of own ?w1"
    by blast
  have offs: "offs_of own w' = (if own = a_own a then Some (map ca_offs ?cl) else offs_of own w)" for own
    using w'(5) offs_of_set [OF cl(1)] by simp
  have i: "?i < length (map ca_offs ?cl)" "map ca_offs ?cl ! ?i = ?offs"
    using cl'(1) by (auto simp: last_conv_nth)
  have "covers a w'" if s: "startable a w"
  proof -
    from s o cl have low: "ca_offs (List.last cl) \<le> a_addr a"
      and fit: "unat (a_addr a) + MEM_CHUNK < 2 ^ 64" "unat (a_size a) \<le> MEM_CHUNK"
      by (auto simp: startable_def last_map)
    have "unat (a_addr a - ?offs) + unat (a_size a) \<le> MEM_CHUNK"
    proof (cases "needs_cache a (List.last cl)")
      case True
      with fit(2) show ?thesis by (simp add: init_cache_def)
    next
      case False
      then have "unat (a_addr a) + unat (a_size a) \<le> unat (ca_offs (List.last cl)) + MEM_CHUNK"
        using needs_cache_iff [OF low fit] by simp
      moreover have "unat (ca_offs (List.last cl)) \<le> unat (a_addr a)" using low by (simp add: word_le_nat_alt)
      ultimately show ?thesis using False low by (simp add: unat_sub)
    qed
    then show ?thesis
      unfolding covers_def using w'(2) offs [of "a_own a"] i by (intro exI [of _ ?i] exI [of _ "map ca_offs ?cl"]) simp
  qed
  moreover have "build_cache a w = Some w'"
    using cl w'(1) by (simp add: build_cache_def check_that_def Let_def)
  moreover have "extends w w'"
    using offs cl(1) unfolding extends_def by (auto simp: offs_of_def)
  moreover have "elem_cache e ?w1 = elem_cache e w" for e by (simp add: elem_cache_def set_cache_cfg split: prod.split)
  with w'(3) have "\<forall>e. e \<noteq> a_elem a \<longrightarrow> elem_cache e w' = elem_cache e w" by simp
  moreover have "same_bare w w'" using w'(4) by (simp add: same_bare_def set_cache_cfg)
  moreover have "\<forall>own. own \<noteq> a_own a \<longrightarrow> offs_of own w' = offs_of own w" using offs by simp
  moreover have "\<exists>offs'. offs_of (a_own a) w' = Some offs' \<and> offs' \<noteq> [] \<and> List.last offs' \<in> {List.last offs, a_addr a}"
    using offs [of "a_own a"] cl' by (intro exI [of _ "map ca_offs ?cl"]) (simp only: if_True simp_thms map_is_Nil_conv last_map)
  ultimately show ?thesis by blast
qed

subsection \<open>All addresses\<close>

lemma covers_keep:
  assumes "covers b w" "elem_cache (a_elem b) w' = elem_cache (a_elem b) w" "extends w w'"
  shows "covers b w'"
proof -
  from assms(1) obtain i offs where c: "fst (elem_cache (a_elem b) w) = Some (a_own b, i)"
    "offs_of (a_own b) w = Some offs" "i < length offs"
    "offs ! i + of_nat (snd (elem_cache (a_elem b) w)) = a_addr b"
    "snd (elem_cache (a_elem b) w) + unat (a_size b) \<le> MEM_CHUNK" by (auto simp: covers_def)
  from assms(3) c(2) obtain ext where "offs_of (a_own b) w' = Some (offs @ ext)" by (auto simp: extends_def)
  with c assms(2) show ?thesis by (auto simp: covers_def nth_append)
qed

lemma extends_trans: "extends w w' \<Longrightarrow> extends w' w'' \<Longrightarrow> extends w w''"
  unfolding extends_def by fastforce

lemma same_bare_trans: "same_bare w w' \<Longrightarrow> same_bare w' w'' \<Longrightarrow> same_bare w w''"
  by (simp add: same_bare_def)

text \<open>Where a cache can be used for an address, it still can after a step for a lower one.\<close>

lemma startable_step:
  assumes own: "\<forall>own. own \<noteq> a_own a \<longrightarrow> offs_of own w' = offs_of own w" "offs_of (a_own a) w = Some offs"
    "offs_of (a_own a) w' = Some offs'" "offs' \<noteq> []" "List.last offs' \<in> {List.last offs, a_addr a}"
    and b: "startable b w" "a_addr a \<le> a_addr b"
  shows "startable b w'"
proof (cases "a_own b = a_own a")
  case True
  with assms show ?thesis by (auto simp: startable_def)
next
  case False
  with own(1) b(1) show ?thesis by (simp add: startable_def)
qed

lemma build_list:
  assumes "sorted (map a_addr as)" "distinct (map a_elem as)"
    "\<forall>a \<in> set as. offs_of (a_own a) w \<notin> {None, Some []} \<and> valid_elem (a_elem a) w"
  shows "\<exists>w'. fold_opt build_cache as w = Some w' \<and> (\<forall>a \<in> set as. startable a w \<longrightarrow> covers a w') \<and> same_bare w w' \<and>
    extends w w' \<and> (\<forall>e. e \<notin> a_elem ` set as \<longrightarrow> elem_cache e w' = elem_cache e w)"
  using assms
proof (induction as arbitrary: w)
  case Nil
  then show ?case by (auto simp: same_bare_def extends_def)
next
  case (Cons a as)
  from Cons.prems(3) obtain offs where o: "offs_of (a_own a) w = Some offs" "offs \<noteq> []" and v: "valid_elem (a_elem a) w"
    by auto
  from build_cache_step [OF o v] obtain w1 offs' where w1: "build_cache a w = Some w1" "startable a w \<longrightarrow> covers a w1"
    "same_bare w w1" "extends w w1"
    "\<forall>e. e \<noteq> a_elem a \<longrightarrow> elem_cache e w1 = elem_cache e w"
    and own: "\<forall>own. own \<noteq> a_own a \<longrightarrow> offs_of own w1 = offs_of own w"
    "offs_of (a_own a) w1 = Some offs'" "offs' \<noteq> []" "List.last offs' \<in> {List.last offs, a_addr a}"
    by blast
  have next_ok: "offs_of (a_own b) w1 \<notin> {None, Some []} \<and> valid_elem (a_elem b) w1" if "b \<in> set as" for b
    using Cons.prems(3) that own valid_elem_bare [OF w1(3)] by (cases "a_own b = a_own a") auto
  with Cons.IH [of w1] Cons.prems(1,2) obtain w2 where w2: "fold_opt build_cache as w1 = Some w2"
    "\<forall>a \<in> set as. startable a w1 \<longrightarrow> covers a w2" "same_bare w1 w2" "extends w1 w2"
    "\<forall>e. e \<notin> a_elem ` set as \<longrightarrow> elem_cache e w2 = elem_cache e w1" by auto
  have e: "elem_cache (a_elem a) w2 = elem_cache (a_elem a) w1"
    by (rule w2(5) [rule_format]) (use Cons.prems(2) in simp)
  have a: "startable a w \<longrightarrow> covers a w2" using covers_keep [OF _ e w2(4)] w1(2) by blast
  have b: "startable b w \<longrightarrow> covers b w2" if "b \<in> set as" for b
    using w2(2) that startable_step [OF own(1) o(1) own(2-4), of b] Cons.prems(1) by auto
  from a b w1 w2 show ?case
    by (auto intro: extends_trans same_bare_trans)
qed

lemma distinct_addrs: "distinct (map a_elem (addr_list cfg))"
proof -
  let ?l = "concat (map (\<lambda>(ci, c). entry_addrs ci c) (enumerate 0 cfg))"
  have fsts: "e \<in> a_elem ` set (entry_addrs ci c) \<Longrightarrow> fst e = ci" for e ci c
    by (auto simp: entry_addrs_def cfg_addr_def chk_addr_en_def split: if_splits)
  have one: "distinct (map a_elem (entry_addrs ci c))" for ci c
  proof -
    let ?ks = "filter (\<lambda>(ki, k). k_cfg_ref k = None) (enumerate 0 (c_checks c))"
    have "map a_elem (map (\<lambda>(ki, k). chk_addr_en ci c ki k) ?ks) = map (\<lambda>i. (ci, Some i)) (map fst ?ks)"
      by (simp add: chk_addr_en_def case_prod_unfold comp_def)
    moreover have "distinct (map fst ?ks)" by (rule distinct_map_filter) simp
    then have "distinct (map (\<lambda>i. (ci, Some i)) (map fst ?ks))"
      by (simp only: distinct_map [of "\<lambda>i. (ci, Some i)"]) (simp add: inj_on_def)
    ultimately have d: "distinct (map a_elem (map (\<lambda>(ki, k). chk_addr_en ci c ki k) ?ks))" by (simp only:)
    have n: "(ci, None) \<notin> set (map a_elem (map (\<lambda>(ki, k). chk_addr_en ci c ki k) ?ks))"
      by (auto simp: chk_addr_en_def)
    show ?thesis
      using d n by (simp add: entry_addrs_def cfg_addr_def del: set_map)
  qed
  have "distinct (concat (map (\<lambda>(ci, c). map a_elem (entry_addrs ci c)) (enumerate n cfg)))" for n
  proof (induction cfg arbitrary: n)
    case (Cons c cfg)
    have "a_elem ` set (entry_addrs n c) \<inter> a_elem ` set (entry_addrs ci c') = {}"
      if "(ci, c') \<in> set (enumerate (Suc n) cfg)" for ci c'
    proof -
      have "n < ci" using that by (auto simp: in_set_enumerate_eq)
      with fsts [of _ n c] fsts [of _ ci c'] show ?thesis by (metis disjoint_iff less_irrefl)
    qed
    then have "a_elem ` set (entry_addrs n c) \<inter>
        set (concat (map (\<lambda>(ci, c). map a_elem (entry_addrs ci c)) (enumerate (Suc n) cfg))) = {}" by auto
    with Cons.IH [of "Suc n"] one [of n c] show ?case by simp
  qed simp
  then have "distinct (map a_elem ?l)" by (simp add: map_concat comp_def case_prod_unfold)
  then show ?thesis by (simp add: addr_list_def distinct_map)
qed

lemma addr_list_valid:
  assumes "a \<in> set (addr_list (w_cfg w))"
  shows "valid_elem (a_elem a) w"
proof -
  from assms obtain ci c where "(ci, c) \<in> set (enumerate 0 (w_cfg w))" "a \<in> set (entry_addrs ci c)"
    by (auto simp: addr_list_def)
  then show ?thesis
    by (auto simp: valid_elem_def entry_addrs_def cfg_addr_def chk_addr_en_def in_set_enumerate_eq split: if_splits)
qed

lemma build_caches_covers:
  assumes "\<forall>a \<in> set (addr_list (w_cfg w)). offs_of (a_own a) w \<notin> {None, Some []}"
  shows "\<exists>w'. build_caches w = Some w' \<and> (\<forall>a \<in> set (addr_list (w_cfg w)). startable a w \<longrightarrow> covers a w') \<and>
    same_bare w w' \<and> extends w w'"
proof -
  have "sorted (map a_addr (addr_list (w_cfg w)))" by (simp add: addr_list_def)
  from build_list [OF this distinct_addrs] assms addr_list_valid show ?thesis
    unfolding build_caches_def by blast
qed

text \<open>An address below the last cache of its owner ends up in front of the buffer.\<close>

lemma build_cache_below:
  assumes cl: "cache_list (a_own a) w = Some cl" "cl \<noteq> []" and v: "valid_elem (a_elem a) w"
    and below: "a_addr a < ca_offs (List.last cl)" "unat (ca_offs (List.last cl)) + MEM_CHUNK < 2 ^ 64"
      "unat (a_size a) \<le> MEM_CHUNK"
  shows "\<exists>w'. build_cache a w = Some w' \<and>
    elem_cache (a_elem a) w' = (Some (a_own a, length cl - 1), 2 ^ 64 + unat (a_addr a) - unat (ca_offs (List.last cl)))"
proof -
  let ?o = "ca_offs (List.last cl)"
  have lt: "unat (a_addr a) < unat ?o" using below(1) by (simp add: word_less_nat_alt)
  have 1: "unat (?o + of_nat MEM_CHUNK) = unat ?o + MEM_CHUNK"
    using below(2) by (simp add: unat_word_ariths MEM_CHUNK_def)
  have 2: "unat (a_addr a + a_size a) = unat (a_addr a) + unat (a_size a)"
    using lt below(2,3) by (simp add: unat_word_ariths MEM_CHUNK_def)
  have no: "\<not> needs_cache a (List.last cl)"
    unfolding needs_cache_def Let_def word_less_nat_alt word_le_nat_alt 1 2
    using lt below(3) 1 by (auto simp: word_le_nat_alt word_less_nat_alt MEM_CHUNK_def)
  have p: "unat (a_addr a - ?o) = 2 ^ 64 + unat (a_addr a) - unat ?o"
    using unat_sub_if' [of "a_addr a" ?o] lt by simp
  have "valid_elem (a_elem a) (set_cache_list (a_own a) cl w)" using v by (simp add: valid_elem_def set_cache_cfg)
  from assign_cache_step [OF this, of "length cl - 1" ?o] cl no p show ?thesis
    by (auto simp: build_cache_def check_that_def Let_def)
qed

end
