(* ===== verification/CfgparserInv.thy ===== *)
theory CfgparserInv
  imports CfgCaches Trainer
begin

text \<open>
  What the parser of the config file establishes: the tables are consistent as the trainer needs
  them, and all entries are cached.
\<close>

subsection \<open>Parsing keeps what it does not set\<close>

lemma take_place_lib: "t_lib (take_place from ty) = t_lib ty"
  by (simp add: take_place_def split: option.split)

lemma this_addr_lib: "this_addr w ty p = Some r \<Longrightarrow> t_lib (r_type r) = t_lib ty"
  by (auto simp: this_addr_def take_place_lib Let_def split: if_splits)

lemma named_addr_lib: "named_addr ur w ty nm p = Some r \<Longrightarrow> t_lib (r_type r) = t_lib ty"
  by (auto simp: named_addr_def take_place_lib Let_def bind_eq_Some_conv this_addr_lib split: if_splits)

lemma parse_addr_lib: "parse_addr ctx ur w ty line start = Some r \<Longrightarrow> t_lib (r_type r) = t_lib ty"
proof (induction ctx ur w ty line start rule: parse_addr.induct)
  case (1 ctx ur w ty line start)
  note prems = trans [OF parse_addr.simps [of ctx ur w ty line start, symmetric] "1.prems"]
  show ?case
  proof (cases "length line < start + 2 \<or> line ! start = CHR ''0'' \<and> line ! (start + 1) = CHR ''x''")
    case True
    with prems show ?thesis by (auto simp: bind_eq_Some_conv split: if_splits)
  next
    case False
    then have c: "\<not> length line < start + 2" "\<not> (line ! start = CHR ''0'' \<and> line ! (start + 1) = CHR ''x'')" by auto
    from prems c obtain s p where s: "parse_name False line start = Some (s, p)"
      by (cases "parse_name False line start") auto
    note IH = "1.IH" [OF c, of "(s, p)" s p]
    consider "s = ''addr''" | "s = ''stack''" | "s = ''lib''" | "s \<noteq> ''addr''" "s \<noteq> ''stack''" "s \<noteq> ''lib''" by blast
    then show ?thesis
    proof cases
      case 1
      with prems c s IH(1) show ?thesis by (auto split: if_splits)
    next
      case 2
      with prems c s IH(2) show ?thesis by (auto split: if_splits)
    next
      case 3
      with prems c s have "ctx \<noteq> ANone" by (auto split: if_splits)
      with 3 prems c s obtain l p2 where l: "parse_name False line p = Some (l, p2)"
        by (cases "parse_name False line p") auto
      with 3 \<open>ctx \<noteq> ANone\<close> prems c s IH(3) [of "(l, p2)" l p2] show ?thesis by auto
    next
      case 4
      with prems c s show ?thesis
        by (auto simp: this_addr_lib named_addr_lib split: if_splits bind_splits)
    qed
  qed
qed

lemma parse_size_keeps:
  "parse_size ty line p = Some (ty', q) \<Longrightarrow> \<exists>n. ty' = ty\<lparr>t_size := n\<rparr>"
  by (auto simp: parse_size_def Let_def split: if_splits)

lemma parse_data_type_keeps:
  assumes "parse_data_type line p ty = Some (ty', q)"
  shows "t_lib ty' = t_lib ty" "t_on_stack ty' = t_on_stack ty"
  using assms unfolding parse_data_type_def Let_def
  by (auto dest!: parse_size_keeps split: if_splits)

lemma parse_chk_value_keeps:
  assumes "parse_chk_value line p i k = Some (k', q)"
  shows "k_type k' = k_type k" "k_addr k' = k_addr k" "k_cfg_ref k' = k_cfg_ref k"
  using assms by (auto simp: parse_chk_value_def split: bind_splits chk_res.splits word_res.splits)

lemma chk_values_keeps:
  assumes "chk_values line p k = Some (k', q)"
  shows "k_type k' = k_type k \<and> k_addr k' = k_addr k \<and> k_cfg_ref k' = k_cfg_ref k"
proof -
  let ?I = "\<lambda>x. k_type (fst x) = k_type k \<and> k_addr (fst x) = k_addr k \<and> k_cfg_ref (fst x) = k_cfg_ref k"
  have "?I (k', q)"
    by (rule fold_opt_pres [OF _ _ assms [unfolded chk_values_def]])
      (use parse_chk_value_keeps in \<open>auto split: prod.splits\<close>)
  then show ?thesis by simp
qed

lemma parse_cfg_value_keeps:
  assumes "parse_cfg_value line p cfg c = Some (c', q)"
  shows "c_addr c' = c_addr c \<and> c_type c' = c_type c \<and> c_ptrtgt c' = c_ptrtgt c \<and> c_v_value c' = c_v_value c \<and>
    c_v_oldval c' = c_v_oldval c \<and> c_v_cstr c' = c_v_cstr c \<and> c_checks c' = c_checks c"
  using assms
  by (auto simp: parse_cfg_value_def Let_def split: bind_splits chk_res.splits word_res.splits option.splits)

subsection \<open>The invariant of the tables\<close>

definition low_at :: "cache_owner \<Rightarrow> ptr \<Rightarrow> world \<Rightarrow> bool" where
  "low_at own a w \<longleftrightarrow> (\<exists>offs. offs_of own w = Some offs \<and> offs \<noteq> [] \<and> List.last offs \<le> a)"

definition owned :: "world \<Rightarrow> bool" where
  "owned w \<longleftrightarrow> (\<forall>own. offs_of own w \<noteq> Some [])"

definition lib_idx_ok :: "world \<Rightarrow> val_type \<Rightarrow> bool" where
  "lib_idx_ok w ty \<longleftrightarrow> (\<forall>li. t_lib ty = Some li \<longrightarrow> li < length (w_lib w))"

text \<open>
  An entry without objects yet: its references are valid, its address and the ones of its checks
  are not below the cache of their owner. Checks of a class are left out here, see below.
\<close>

definition entry_inv :: "world \<Rightarrow> cfg_entry \<Rightarrow> bool" where
  "entry_inv w c \<longleftrightarrow> c_v_value c = [] \<and> c_v_oldval c = [] \<and> c_v_cstr c = [] \<and>
     (\<forall>di. c_dynmem c = Some di \<longrightarrow> di < length (w_dyn w) \<and> c_ptrmem c = None) \<and>
     (\<forall>pi. c_ptrmem c = Some pi \<longrightarrow> pi < length (w_ptr w)) \<and>
     (\<forall>pi. c_ptrtgt c = Some pi \<longrightarrow> pi < length (w_ptr w)) \<and>
     lib_idx_ok w (c_type c) \<and> (\<forall>k \<in> set (c_checks c). lib_idx_ok w (k_type k)) \<and>
     (\<not> t_is_cstr (c_type c) \<longrightarrow> low_at (entry_owner c (c_type c)) (c_addr c) w) \<and>
     (c_dynmem c = None \<and> c_ptrmem c = None \<longrightarrow>
        (\<forall>k \<in> set (c_checks c). k_cfg_ref k = None \<longrightarrow> low_at (static_owner (k_type k)) (k_addr k) w))"

definition ptr_inv :: "cfg_entry list \<Rightarrow> nat \<Rightarrow> ptrmem_entry \<Rightarrow> bool" where
  "ptr_inv cfg pi p \<longleftrightarrow> distinct (p_cfg p) \<and>
     (\<forall>k \<in> set (p_cfg p). k < length cfg \<and> c_ptrmem (cfg ! k) = Some pi) \<and>
     (p_v_state p = [] \<and> p_v_offs p = [] \<or> (\<exists>c \<in> set cfg. c_ptrtgt c = Some pi \<and> c_dynmem c = None))"

definition tables_inv :: "world \<Rightarrow> bool" where
  "tables_inv w \<longleftrightarrow> owned w \<and> (\<forall>c \<in> set (w_cfg w). entry_inv w c) \<and>
     (\<forall>d \<in> set (w_dyn w). dyn_part d = ([], [])) \<and>
     (\<forall>pi < length (w_ptr w). ptr_inv (w_cfg w) pi (w_ptr w ! pi))"

subsection \<open>Changes that only concern caches, libraries and activation\<close>

definition quiet :: "world \<Rightarrow> world \<Rightarrow> bool" where
  "quiet w w' \<longleftrightarrow> w_cfg w' = w_cfg w \<and> map dyn_part (w_dyn w') = map dyn_part (w_dyn w) \<and>
     map ptr_part (w_ptr w') = map ptr_part (w_ptr w) \<and> length (w_lib w) \<le> length (w_lib w') \<and>
     (\<forall>own a. low_at own a w \<longrightarrow> low_at own a w') \<and> (owned w \<longrightarrow> owned w')"

lemma quiet_refl [simp]: "quiet w w"
  by (simp add: quiet_def)

lemma quiet_trans: "quiet w w' \<Longrightarrow> quiet w' w'' \<Longrightarrow> quiet w w''"
  by (auto simp: quiet_def)

lemma quiet_lengths:
  assumes "quiet w w'"
  shows "length (w_dyn w') = length (w_dyn w)" "length (w_ptr w') = length (w_ptr w)"
    "length (w_lib w) \<le> length (w_lib w')" "w_cfg w' = w_cfg w"
proof -
  from assms have m: "map dyn_part (w_dyn w') = map dyn_part (w_dyn w)" "map ptr_part (w_ptr w') = map ptr_part (w_ptr w)"
    and r: "length (w_lib w) \<le> length (w_lib w')" "w_cfg w' = w_cfg w"
    unfolding quiet_def by blast+
  show "length (w_dyn w') = length (w_dyn w)" by (rule map_eq_imp_length_eq [OF m(1)])
  show "length (w_ptr w') = length (w_ptr w)" by (rule map_eq_imp_length_eq [OF m(2)])
  show "length (w_lib w) \<le> length (w_lib w')" "w_cfg w' = w_cfg w" by (rule r)+
qed

lemma quiet_keeps:
  assumes "quiet w w'"
  shows "lib_idx_ok w ty \<Longrightarrow> lib_idx_ok w' ty" "low_at own a w \<Longrightarrow> low_at own a w'" "owned w \<Longrightarrow> owned w'"
  using assms quiet_lengths(3) [OF assms] unfolding quiet_def lib_idx_ok_def by (blast intro: less_le_trans)+

lemma quiet_entry:
  assumes q: "quiet w w'" and e: "entry_inv w c" shows "entry_inv w' c"
  using e quiet_keeps(1,2) [OF q] unfolding entry_inv_def quiet_lengths(1,2) [OF q] by blast

lemma ptr_inv_part: "ptr_part p' = ptr_part p \<Longrightarrow> ptr_inv cfg pi p' = ptr_inv cfg pi p"
  by (simp add: ptr_inv_def ptr_part_def)

lemma quiet_tables:
  assumes q: "quiet w w'" and t: "tables_inv w" shows "tables_inv w'"
proof -
  have "dyn_part d = ([], [])" if "d \<in> set (w_dyn w')" for d
  proof -
    from q have "map dyn_part (w_dyn w') = map dyn_part (w_dyn w)" unfolding quiet_def by blast
    from arg_cong [OF this, of set] have "dyn_part ` set (w_dyn w') = dyn_part ` set (w_dyn w)"
      unfolding set_map .
    with that have "dyn_part d \<in> dyn_part ` set (w_dyn w)" by blast
    with t show ?thesis by (auto simp: tables_inv_def)
  qed
  moreover have "ptr_inv (w_cfg w') pi (w_ptr w' ! pi)" if "pi < length (w_ptr w')" for pi
  proof -
    from q have "map ptr_part (w_ptr w') = map ptr_part (w_ptr w)" unfolding quiet_def by blast
    from arg_cong [OF this, of "\<lambda>l. l ! pi"] that quiet_lengths [OF q]
    have "ptr_part (w_ptr w' ! pi) = ptr_part (w_ptr w ! pi)" by simp
    from ptr_inv_part [OF this] t that quiet_lengths [OF q] show ?thesis by (simp add: tables_inv_def)
  qed
  moreover have "owned w'" "\<forall>c \<in> set (w_cfg w'). entry_inv w' c"
    using t quiet_keeps(3) [OF q] quiet_entry [OF q] quiet_lengths(4) [OF q] by (simp_all add: tables_inv_def)
  ultimately show ?thesis by (simp add: tables_inv_def)
qed

lemma quiet_offs:
  assumes "w_cfg w' = w_cfg w" "map dyn_part (w_dyn w') = map dyn_part (w_dyn w)"
    "map ptr_part (w_ptr w') = map ptr_part (w_ptr w)" "length (w_lib w) \<le> length (w_lib w')"
    "\<And>own. offs_of own w' = offs_of own w \<or> (\<exists>offs offs'. offs_of own w = Some offs \<and> offs_of own w' = Some offs' \<and>
       (offs = [] \<longleftrightarrow> offs' = []) \<and> List.last offs' \<le> List.last offs) \<or> offs_of own w = None \<and> offs_of own w' \<noteq> Some []"
  shows "quiet w w'"
proof -
  have "low_at own a w'" if "low_at own a w" for own a
    using that assms(5) [of own] by (fastforce simp: low_at_def)
  moreover have "owned w'" if "owned w"
    unfolding owned_def
  proof
    fix own
    from that have "offs_of own w \<noteq> Some []" by (simp add: owned_def)
    with assms(5) [of own] show "offs_of own w' \<noteq> Some []" by auto
  qed
  ultimately show ?thesis using assms by (simp add: quiet_def)
qed


text \<open>Every owner has caches of its own, so a change of one list is seen by that owner only.\<close>

lemma offs_of_simps:
  "offs_of COpt w = Some (map ca_offs (w_cache_list w))"
  "offs_of CStack w = Some (map ca_offs (w_stack_cache w))"
  "offs_of (CLib i) w = (if i < length (w_lib w) then Some (map ca_offs (l_cache_list (w_lib w ! i))) else None)"
  "offs_of (CDyn i) w = (if i < length (w_dyn w) then Some (map ca_offs (d_cache_list (w_dyn w ! i))) else None)"
  "offs_of (CPtr i) w = (if i < length (w_ptr w) then Some (map ca_offs (p_cache_list (w_ptr w ! i))) else None)"
  by (simp_all add: offs_of_def cache_list_def vget_def)

lemma find_add_lib_quiet:
  assumes "find_add_lib l w = (i, w')"
  shows "quiet w w' \<and> i < length (w_lib w')"
proof (cases "index_first (\<lambda>x. l_name x = l) (w_lib w)")
  case (Some j)
  with assms index_first_SomeD [OF Some] show ?thesis by (auto simp: find_add_lib_def)
next
  case None
  with assms have w': "i = length (w_lib w)" "w' = w\<lparr>w_lib := w_lib w @ [\<lparr>l_name = l, l_start = 0,
      l_cache_list = [init_cache PTR_MAX], l_is_loaded = False, l_skip_val = False\<rparr>]\<rparr>"
    by (auto simp: find_add_lib_def)
  have "quiet w w'"
  proof (rule quiet_offs)
    show "offs_of own w' = offs_of own w \<or> (\<exists>offs offs'. offs_of own w = Some offs \<and> offs_of own w' = Some offs' \<and>
       (offs = [] \<longleftrightarrow> offs' = []) \<and> List.last offs' \<le> List.last offs) \<or> offs_of own w = None \<and> offs_of own w' \<noteq> Some []" for own
      by (cases own) (simp_all add: w'(2) offs_of_simps nth_append)
  qed (simp_all add: w')
  with w' show ?thesis by simp
qed

lemma lower_last_offs:
  assumes "cl \<noteq> []"
  shows "map ca_offs (lower_last a cl) \<noteq> []" "List.last (map ca_offs (lower_last a cl)) \<le> List.last (map ca_offs cl)"
    "List.last (map ca_offs (lower_last a cl)) \<le> a"
  using assms by (auto simp: lower_last_def last_map)

lemma find_cache_start_quiet:
  assumes f: "find_cache_start own a w = Some w'" and o: "owned w"
  shows "quiet w w' \<and> low_at own a w'"
proof -
  have "\<exists>cl. offs_of own w = Some (map ca_offs cl) \<and> offs_of own w' = Some (map ca_offs (lower_last a cl)) \<and>
    (\<forall>own'. own' \<noteq> own \<longrightarrow> offs_of own' w' = offs_of own' w) \<and> w_cfg w' = w_cfg w \<and>
    map dyn_part (w_dyn w') = map dyn_part (w_dyn w) \<and> map ptr_part (w_ptr w') = map ptr_part (w_ptr w) \<and>
    length (w_lib w') = length (w_lib w)"
  proof (cases own)
    case (CLib i)
    with f show ?thesis
      by (auto simp: find_cache_start_def bind_eq_Some_conv vget_Some_iff offs_of_simps nth_list_update
          intro!: exI [of _ "l_cache_list (w_lib w ! i)"] split: cache_owner.splits)
        (case_tac own', simp_all add: offs_of_simps nth_list_update)
  next
    case (CDyn i)
    with f show ?thesis
      by (auto simp: find_cache_start_def mod_dyn_def bind_eq_Some_conv vget_Some_iff offs_of_simps nth_list_update
          map_update dyn_part_def list_update_same_conv intro!: exI [of _ "d_cache_list (w_dyn w ! i)"])
        (case_tac own', simp_all add: offs_of_simps nth_list_update)
  next
    case (CPtr i)
    with f show ?thesis
      by (auto simp: find_cache_start_def mod_ptr_def bind_eq_Some_conv vget_Some_iff offs_of_simps nth_list_update
          map_update ptr_part_def list_update_same_conv intro!: exI [of _ "p_cache_list (w_ptr w ! i)"])
        (case_tac own', simp_all add: offs_of_simps nth_list_update)
  next
    case COpt
    with f have "w' = w\<lparr>w_cache_list := lower_last a (w_cache_list w)\<rparr>" by (simp add: find_cache_start_def)
    moreover from this have "own' \<noteq> own \<longrightarrow> offs_of own' w' = offs_of own' w" for own'
      using COpt by (cases own') (simp_all add: offs_of_simps)
    ultimately show ?thesis using COpt by (auto simp: offs_of_simps)
  next
    case CStack
    with f have "w' = w\<lparr>w_stack_cache := lower_last a (w_stack_cache w)\<rparr>" by (simp add: find_cache_start_def)
    moreover from this have "own' \<noteq> own \<longrightarrow> offs_of own' w' = offs_of own' w" for own'
      using CStack by (cases own') (simp_all add: offs_of_simps)
    ultimately show ?thesis using CStack by (auto simp: offs_of_simps)
  qed
  then obtain cl where cl: "offs_of own w = Some (map ca_offs cl)" "offs_of own w' = Some (map ca_offs (lower_last a cl))"
    and others: "\<forall>own'. own' \<noteq> own \<longrightarrow> offs_of own' w' = offs_of own' w"
    and rest: "w_cfg w' = w_cfg w" "map dyn_part (w_dyn w') = map dyn_part (w_dyn w)"
      "map ptr_part (w_ptr w') = map ptr_part (w_ptr w)" "length (w_lib w') = length (w_lib w)" by blast
  from o cl(1) have ne: "cl \<noteq> []" by (auto simp: owned_def)
  note low = lower_last_offs [OF ne, of a]
  have "quiet w w'"
  proof (rule quiet_offs [OF rest(1-3)])
    show "offs_of own' w' = offs_of own' w \<or> (\<exists>offs offs'. offs_of own' w = Some offs \<and> offs_of own' w' = Some offs' \<and>
       (offs = [] \<longleftrightarrow> offs' = []) \<and> List.last offs' \<le> List.last offs) \<or> offs_of own' w = None \<and> offs_of own' w' \<noteq> Some []" for own'
      using cl others low(1,2) ne by (cases "own' = own") auto
  qed (use rest(4) in simp)
  with cl(2) low show ?thesis by (auto simp: low_at_def)
qed


lemma quiet_same_caches:
  assumes "w_cfg w' = w_cfg w" "map dyn_part (w_dyn w') = map dyn_part (w_dyn w)"
    "map ptr_part (w_ptr w') = map ptr_part (w_ptr w)" "length (w_lib w) \<le> length (w_lib w')"
    "\<And>own. offs_of own w' = offs_of own w"
  shows "quiet w w'"
  by (rule quiet_offs [OF assms(1-4)]) (simp add: assms(5))

lemma offs_of_flags:
  "offs_of own (w\<lparr>w_heap_checks := b\<rparr>) = offs_of own w" "offs_of own (w\<lparr>w_val_on_stack := b\<rparr>) = offs_of own w"
  "offs_of own (w\<lparr>w_cfg_act := l\<rparr>) = offs_of own w" "offs_of own (w\<lparr>w_dump := d\<rparr>) = offs_of own w"
  "offs_of own (w\<lparr>w_cfg := cs\<rparr>) = offs_of own w"
  by (cases own; simp add: offs_of_simps)+

lemma place_type_quiet:
  assumes "place_type out ty w = Some (ty', w')" "lib_idx_ok w ty"
  shows "quiet w w' \<and> lib_idx_ok w' ty'"
proof -
  have flag: "quiet w (w\<lparr>w_val_on_stack := True\<rparr>)" by (rule quiet_same_caches) (simp_all add: offs_of_flags)
  show ?thesis
  proof (cases "t_on_stack ty")
    case True
    with assms flag show ?thesis by (auto simp: place_type_def lib_idx_ok_def split: if_splits)
  next
    case stack: False
    show ?thesis
    proof (cases "t_lib_name ty")
      case None
      with stack assms show ?thesis by (auto simp: place_type_def)
    next
      case (Some l)
      show ?thesis
      proof (cases "l = []")
        case True
        with Some stack assms show ?thesis by (auto simp: place_type_def)
      next
        case False
        obtain i w1 where f: "find_add_lib l w = (i, w1)" by fastforce
        with False Some stack assms have "ty' = ty\<lparr>t_lib := Some i\<rparr>" "w' = w1"
          by (auto simp: place_type_def split: if_splits)
        with find_add_lib_quiet [OF f] show ?thesis by (simp add: lib_idx_ok_def)
      qed
    qed
  qed
qed

lemma mod_dyn_quiet:
  assumes m: "mod_dyn di f w = Some w'"
    and f: "\<And>d d'. d \<in> set (w_dyn w) \<Longrightarrow> f d = Some d' \<Longrightarrow> d_cache_list d' = d_cache_list d \<and> dyn_part d' = dyn_part d"
  shows "quiet w w'"
proof -
  from m obtain d' where d': "di < length (w_dyn w)" "f (w_dyn w ! di) = Some d'"
    "w' = w\<lparr>w_dyn := (w_dyn w)[di := d']\<rparr>"
    by (auto simp: mod_dyn_def bind_eq_Some_conv vget_Some_iff)
  note keep = f [OF nth_mem [OF d'(1)] d'(2)]
  from d' keep have "map dyn_part (w_dyn w') = map dyn_part (w_dyn w)"
    by (simp add: map_update list_update_same_conv)
  moreover have "offs_of own w' = offs_of own w" for own
    using d' keep by (cases own) (auto simp: offs_of_simps nth_list_update)
  ultimately show ?thesis using d' by (intro quiet_same_caches) simp_all
qed

lemma mod_ptr_quiet:
  assumes m: "mod_ptr pi f w = Some w'"
    and f: "\<And>p p'. f p = Some p' \<Longrightarrow> p_cache_list p' = p_cache_list p \<and> ptr_part p' = ptr_part p"
  shows "quiet w w'"
proof -
  from m obtain p' where p': "pi < length (w_ptr w)" "f (w_ptr w ! pi) = Some p'"
    "w' = w\<lparr>w_ptr := (w_ptr w)[pi := p']\<rparr>"
    by (auto simp: mod_ptr_def bind_eq_Some_conv vget_Some_iff)
  from p' f [OF p'(2)] have "map ptr_part (w_ptr w') = map ptr_part (w_ptr w)"
    by (simp add: map_update list_update_same_conv)
  moreover have "offs_of own w' = offs_of own w" for own
    using p' f [OF p'(2)] by (cases own) (auto simp: offs_of_simps nth_list_update)
  ultimately show ?thesis using p' by (intro quiet_same_caches) simp_all
qed

lemma activate_quiet:
  assumes "activate ci c w = Some w'"
  shows "quiet w w'"
proof -
  from assms obtain w1 where w1: "(case c_ptrmem c of
       Some pi \<Rightarrow> mod_ptr pi (\<lambda>p. Some (p\<lparr>p_cfg_act := p_cfg_act p @ [ci]\<rparr>)) w
     | None \<Rightarrow> Some (w\<lparr>w_cfg_act := w_cfg_act w @ [ci]\<rparr>)) = Some w1"
    and w2: "(case c_dynmem c of
       Some di \<Rightarrow> mod_dyn di (\<lambda>d. Some (d\<lparr>d_cfg_act := d_cfg_act d @ [ci]\<rparr>)) w1
     | None \<Rightarrow> Some w1) = Some w'"
    by (auto simp: activate_def bind_eq_Some_conv)
  have "quiet w w1"
  proof (cases "c_ptrmem c")
    case None
    with w1 have "w1 = w\<lparr>w_cfg_act := w_cfg_act w @ [ci]\<rparr>" by simp
    then show ?thesis by (intro quiet_same_caches) (simp_all add: offs_of_flags)
  next
    case (Some pi)
    with w1 have "mod_ptr pi (\<lambda>p. Some (p\<lparr>p_cfg_act := p_cfg_act p @ [ci]\<rparr>)) w = Some w1" by simp
    then show ?thesis by (rule mod_ptr_quiet) (auto simp: ptr_part_def)
  qed
  moreover have "quiet w1 w'"
  proof (cases "c_dynmem c")
    case (Some di)
    with w2 have "mod_dyn di (\<lambda>d. Some (d\<lparr>d_cfg_act := d_cfg_act d @ [ci]\<rparr>)) w1 = Some w'" by simp
    then show ?thesis by (rule mod_dyn_quiet) (auto simp: dyn_part_def)
  qed (use w2 in simp)
  ultimately show ?thesis by (rule quiet_trans)
qed

subsection \<open>The invariant of the parser\<close>

definition state_inv :: "pstate \<Rightarrow> bool" where
  "state_inv s \<longleftrightarrow> tables_inv (s_w s) \<and> c_v_value (s_cfg s) = [] \<and> c_v_oldval (s_cfg s) = [] \<and> c_v_cstr (s_cfg s) = [] \<and>
     (if s_in_dynmem s then \<exists>di. s_dyn s = Some di \<and> di < length (w_dyn (s_w s)) else s_dyn s = None) \<and>
     (s_in_ptrmem s \<longrightarrow> \<not> s_in_dynmem s \<and> (\<exists>pi. s_ptr s = Some pi \<and> pi < length (w_ptr (s_w s))))"

lemma s_w_simps [simp]: "s_w (set_w w s) = w" "s_in_dynmem (set_w w s) = s_in_dynmem s"
  "s_in_ptrmem (set_w w s) = s_in_ptrmem s" "s_dyn (set_w w s) = s_dyn s" "s_ptr (set_w w s) = s_ptr s"
  "s_cfg (set_w w s) = s_cfg s"
  by (simp_all add: set_w_def)

lemma state_inv_quiet: "state_inv s \<Longrightarrow> quiet (s_w s) w' \<Longrightarrow> state_inv (set_w w' s)"
  using quiet_tables quiet_lengths(1,2) by (simp add: state_inv_def)

lemma heap_pair_keeps:
  "k' \<in> set (heap_pair k) \<Longrightarrow> k_type k' = k_type k \<and> k_addr k' = k_addr k \<and> k_cfg_ref k' = k_cfg_ref k"
  by (auto simp: heap_pair_def Let_def split: if_splits)

lemma chk_owner_static: "chk_owner s c ty = Some own \<Longrightarrow> c_dynmem c = None \<Longrightarrow> c_ptrmem c = None \<Longrightarrow> own = static_owner ty"
  by (auto simp: chk_owner_def split: if_splits)

text \<open>Changing an entry in place.\<close>

lemma set_cfg_inv:
  assumes t: "tables_inv w" and ci: "ci < length (w_cfg w)" and e: "entry_inv w c"
    and same: "c_dynmem c = c_dynmem (w_cfg w ! ci)" "c_ptrmem c = c_ptrmem (w_cfg w ! ci)"
      "c_ptrtgt c = c_ptrtgt (w_cfg w ! ci)"
  shows "tables_inv (w\<lparr>w_cfg := (w_cfg w)[ci := c]\<rparr>)"
proof -
  let ?w = "w\<lparr>w_cfg := (w_cfg w)[ci := c]\<rparr>"
  have low: "low_at own b ?w = low_at own b w" for own b by (simp add: low_at_def offs_of_flags)
  have keep: "entry_inv ?w c' = entry_inv w c'" for c' by (simp add: entry_inv_def low lib_idx_ok_def)
  have "\<forall>c' \<in> set (w_cfg ?w). entry_inv ?w c'"
    unfolding keep using t e set_update_subset_insert [of "w_cfg w" ci c] by (auto simp: tables_inv_def)
  moreover have "ptr_inv (w_cfg ?w) pi p" if p: "ptr_inv (w_cfg w) pi p" for pi p
  proof -
    have "c_ptrmem ((w_cfg w)[ci := c] ! j) = c_ptrmem (w_cfg w ! j)" for j
      using ci same by (cases "j = ci") auto
    moreover have "\<exists>c' \<in> set ((w_cfg w)[ci := c]). c_ptrtgt c' = Some pi \<and> c_dynmem c' = None"
      if c0: "c0 \<in> set (w_cfg w)" "c_ptrtgt c0 = Some pi" "c_dynmem c0 = None" for c0
    proof -
      from c0(1) obtain j where j: "j < length (w_cfg w)" "c0 = w_cfg w ! j" by (auto simp: in_set_conv_nth)
      show ?thesis
      proof (cases "j = ci")
        case True
        with j ci c0 same show ?thesis by (intro bexI [of _ c]) (auto simp: set_update_memI)
      next
        case False
        with j have "c0 = (w_cfg w)[ci := c] ! j" "j < length ((w_cfg w)[ci := c])" by auto
        with c0 show ?thesis by (metis nth_mem)
      qed
    qed
    ultimately show ?thesis using p by (auto simp: ptr_inv_def)
  qed
  moreover have "owned ?w" using t by (simp add: tables_inv_def owned_def offs_of_flags)
  ultimately show ?thesis using t by (simp add: tables_inv_def)
qed

lemma entry_owner_checks: "entry_owner (c\<lparr>c_checks := ks\<rparr>) ty = entry_owner c ty"
  by (simp add: entry_owner_def cong: option.case_cong)

lemma add_check_inv:
  assumes s: "state_inv s" and t: "tables_inv w" and q0: "quiet (s_w s) w" and k: "lib_idx_ok w (k_type k)"
    and a: "add_check ci k w s = Some s'"
  shows "state_inv s'"
proof -
  let ?w1 = "if k_is_heapchk k then w\<lparr>w_heap_checks := True\<rparr> else w"
  from a obtain c where c: "vget (w_cfg w) ci = Some c" by (auto simp: add_check_def bind_eq_Some_conv)
  from a c obtain w2 where w2: "(if k_cfg_ref k \<noteq> None then Some ?w1
      else chk_owner s c (k_type k) \<bind> (\<lambda>own. find_cache_start own (k_addr k) ?w1)) = Some w2"
    and s': "\<exists>w3. mod_cfg ci (\<lambda>c. Some (c\<lparr>c_checks := c_checks c @ heap_pair k\<rparr>)) w2 = Some w3 \<and>
      s' = (set_w w3 s)\<lparr>s_chk := List.last (heap_pair k)\<rparr>"
    unfolding add_check_def Let_def by (simp only: bind_eq_Some_conv) (auto simp del: if_split_asm)
  have q1: "quiet w ?w1" by (rule quiet_same_caches) (simp_all add: offs_of_flags)
  have q2: "quiet ?w1 w2 \<and> (k_cfg_ref k = None \<longrightarrow>
    c_dynmem c = None \<longrightarrow> c_ptrmem c = None \<longrightarrow> low_at (static_owner (k_type k)) (k_addr k) w2)"
  proof (cases "k_cfg_ref k = None")
    case False
    with w2 have "w2 = ?w1" by simp
    with False show ?thesis by auto
  next
    case True
    with w2 obtain own where own: "chk_owner s c (k_type k) = Some own" "find_cache_start own (k_addr k) ?w1 = Some w2"
      by (auto simp: bind_eq_Some_conv)
    have "owned ?w1" using quiet_tables [OF q1 t] by (simp add: tables_inv_def)
    from find_cache_start_quiet [OF own(2) this] chk_owner_static [OF own(1)] show ?thesis by auto
  qed
  with q1 have q: "quiet w w2" by (blast intro: quiet_trans)
  from quiet_tables [OF q t] have t2: "tables_inv w2" .
  have cfg2: "w_cfg w2 = w_cfg w" by (rule quiet_lengths(4) [OF q])
  let ?c = "c\<lparr>c_checks := c_checks c @ heap_pair k\<rparr>"
  let ?w3 = "w2\<lparr>w_cfg := (w_cfg w)[ci := ?c]\<rparr>"
  from c have ci: "ci < length (w_cfg w)" "c = w_cfg w ! ci" by (auto simp: vget_Some_iff)
  from s' ci cfg2 have s': "s' = (set_w ?w3 s)\<lparr>s_chk := List.last (heap_pair k)\<rparr>"
    by (auto simp: mod_cfg_def bind_eq_Some_conv vget_Some_iff)
  have "entry_inv w2 c" using t2 ci cfg2 by (simp add: tables_inv_def)
  moreover have "lib_idx_ok w2 (k_type k)" by (rule quiet_keeps(1) [OF q k])
  ultimately have "entry_inv w2 ?c"
    using q2 heap_pair_keeps [of _ k] unfolding entry_inv_def entry_owner_checks by auto
  then have "tables_inv ?w3" using set_cfg_inv [OF t2, of ci ?c] ci cfg2 by simp
  then show ?thesis
    using s quiet_lengths(1,2) [OF q0] quiet_lengths(1,2) [OF q] by (simp add: s' state_inv_def)
qed

lemma check_line_inv:
  assumes s: "state_inv s" and p: "parse_check_line is_obj line start s = Some s'"
  shows "state_inv s'"
proof -
  let ?w = "s_w s"
  have t: "tables_inv ?w" using s by (simp add: state_inv_def)
  from p obtain k1 p1 where
    k1: "chk_addr s line start ((s_chk s)\<lparr>k_is_objcheck := is_obj, k_is_heapchk := False, k_cfg_ref := None,
       k_cache := None, k_cache_data := 0, k_type := no_type\<rparr>) = Some (k1, p1)"
    by (auto simp: parse_check_line_def bind_eq_Some_conv)
  from p k1 obtain ty w1 where pt: "place_type (outside s) (k_type k1) ?w = Some (ty, w1)"
    by (auto simp: parse_check_line_def bind_eq_Some_conv)
  from p k1 pt obtain ty2 p2 where dt: "parse_data_type line p1 ty = Some (ty2, p2)"
    by (auto simp: parse_check_line_def bind_eq_Some_conv)
  let ?ty = "if t_size ty2 = 0 then ty2\<lparr>t_size := 64\<rparr> else ty2"
  from p k1 pt dt obtain k2 p3 where k2: "chk_values line p2 (k1\<lparr>k_type := ?ty\<rparr>) = Some (k2, p3)"
    and a: "add_check (length (w_cfg w1) - 1) k2 w1 s = Some s'"
    by (auto simp: parse_check_line_def bind_eq_Some_conv Let_def)
  have "lib_idx_ok ?w (k_type k1)"
    using k1 by (auto simp: chk_addr_def bind_eq_Some_conv lib_idx_ok_def no_type_def dest!: parse_addr_lib split: if_splits)
  from place_type_quiet [OF pt this] have q1: "quiet ?w w1" and l1: "lib_idx_ok w1 ty" by auto
  have "t_lib ?ty = t_lib ty" using parse_data_type_keeps [OF dt] by simp
  with l1 chk_values_keeps [OF k2] have "lib_idx_ok w1 (k_type k2)" by (simp add: lib_idx_ok_def)
  from add_check_inv [OF s quiet_tables [OF q1 t] q1 this a] show ?thesis .
qed


subsection \<open>An entry\<close>

text \<open>
  While an entry is set up, the pointer memory it points to may already have its state; the
  invariant holds again when the entry has been added.
\<close>

definition tables_inv_but :: "nat option \<Rightarrow> world \<Rightarrow> bool" where
  "tables_inv_but tgt w \<longleftrightarrow> owned w \<and> (\<forall>c \<in> set (w_cfg w). entry_inv w c) \<and>
     (\<forall>d \<in> set (w_dyn w). dyn_part d = ([], [])) \<and>
     (\<forall>pi < length (w_ptr w). ptr_inv (w_cfg w) pi (w_ptr w ! pi) \<or>
        tgt = Some pi \<and> distinct (p_cfg (w_ptr w ! pi)) \<and>
        (\<forall>k \<in> set (p_cfg (w_ptr w ! pi)). k < length (w_cfg w) \<and> c_ptrmem (w_cfg w ! k) = Some pi))"

lemma tables_inv_but_None: "tables_inv_but None w \<longleftrightarrow> tables_inv w"
  by (auto simp: tables_inv_but_def tables_inv_def)

lemma tables_inv_but_weaken: "tables_inv w \<Longrightarrow> tables_inv_but tgt w"
  by (auto simp: tables_inv_but_def tables_inv_def)

lemma quiet_tables_but:
  assumes q: "quiet w w'" and t: "tables_inv_but tgt w" shows "tables_inv_but tgt w'"
proof -
  from q have d: "map dyn_part (w_dyn w') = map dyn_part (w_dyn w)" and p: "map ptr_part (w_ptr w') = map ptr_part (w_ptr w)"
    unfolding quiet_def by blast+
  note l = quiet_lengths [OF q]
  from arg_cong [OF d, of set] have dset: "dyn_part ` set (w_dyn w') = dyn_part ` set (w_dyn w)" unfolding set_map .
  have 1: "dyn_part d = ([], [])" if "d \<in> set (w_dyn w')" for d
  proof -
    from that dset have "dyn_part d \<in> dyn_part ` set (w_dyn w)" by blast
    with t show ?thesis by (auto simp: tables_inv_but_def)
  qed
  have 2: "ptr_part (w_ptr w' ! pi) = ptr_part (w_ptr w ! pi)" if "pi < length (w_ptr w)" for pi
    using arg_cong [OF p, of "\<lambda>l. l ! pi"] that l by simp
  have 3: "ptr_inv (w_cfg w) pi (w_ptr w' ! pi) = ptr_inv (w_cfg w) pi (w_ptr w ! pi)"
    if "pi < length (w_ptr w)" for pi
    using 2 [OF that] by (rule ptr_inv_part)
  have 4: "p_cfg (w_ptr w' ! pi) = p_cfg (w_ptr w ! pi)" if "pi < length (w_ptr w)" for pi
    using 2 [OF that] by (simp add: ptr_part_def)
  show ?thesis
    using t 1 3 4 quiet_keeps(3) [OF q] quiet_entry [OF q] unfolding tables_inv_but_def l(2,4) by simp
qed

text \<open>Changing the target of a pointer.\<close>

lemma link_ptr_inv:
  assumes l: "link_ptr s name w = Some (pi, w')" and t: "tables_inv w"
  shows "tables_inv_but (if s_in_dynmem s then None else Some pi) w' \<and> pi < length (w_ptr w') \<and>
    w_cfg w' = w_cfg w \<and> length (w_dyn w') = length (w_dyn w) \<and> length (w_ptr w') = length (w_ptr w) \<and>
    length (w_lib w') = length (w_lib w)"
proof -
  let ?f = "\<lambda>p. if s_in_dynmem s then p\<lparr>p_dynmem := s_dyn s\<rparr>
       else p\<lparr>p_v_state := p_v_state p @ [PTR_INIT], p_v_offs := p_v_offs p @ [0]\<rparr>"
  from l have m: "mod_ptr pi (\<lambda>p. Some (?f p)) w = Some w'" by (auto simp: link_ptr_def bind_eq_Some_conv)
  then have pi: "pi < length (w_ptr w)" and w': "w' = w\<lparr>w_ptr := (w_ptr w)[pi := ?f (w_ptr w ! pi)]\<rparr>"
    by (auto simp: mod_ptr_def bind_eq_Some_conv vget_Some_iff)
  show ?thesis
  proof (cases "s_in_dynmem s")
    case True
    have "quiet w w'" by (rule mod_ptr_quiet [OF m]) (use True in \<open>auto simp: ptr_part_def\<close>)
    with quiet_tables [OF this t] True pi w' show ?thesis by (simp add: tables_inv_but_None)
  next
    case False
    have offs: "offs_of own w' = offs_of own w" for own
      using pi False by (cases own) (auto simp: w' offs_of_simps nth_list_update)
    have low: "low_at own a w' = low_at own a w" for own a by (simp add: low_at_def offs)
    have lens: "w_lib w' = w_lib w" "w_dyn w' = w_dyn w" "w_cfg w' = w_cfg w" "length (w_ptr w') = length (w_ptr w)"
      using w' by auto
    have keep: "entry_inv w' c = entry_inv w c" for c by (simp add: entry_inv_def low lib_idx_ok_def lens)
    have own: "owned w' = owned w" by (simp add: owned_def offs)
    have ptr: "ptr_inv (w_cfg w) pi' (w_ptr w' ! pi')" if "pi' < length (w_ptr w)" "pi' \<noteq> pi" for pi'
      using t that by (simp add: w' tables_inv_def)
    have "ptr_inv (w_cfg w) pi (w_ptr w ! pi)" using t pi by (simp add: tables_inv_def)
    then have this_ptr: "distinct (p_cfg (w_ptr w' ! pi))"
      "\<forall>k \<in> set (p_cfg (w_ptr w' ! pi)). k < length (w_cfg w) \<and> c_ptrmem (w_cfg w ! k) = Some pi"
      using pi False by (auto simp: w' ptr_inv_def)
    have "tables_inv_but (Some pi) w'"
      using t ptr this_ptr unfolding tables_inv_but_def tables_inv_def keep own lens by auto
    then show ?thesis using pi False lens by simp
  qed
qed

text \<open>Adding the entry.\<close>

lemma append_entry_inv:
  assumes t: "tables_inv_but tgt w" and e: "entry_inv w c"
    and tgt: "tgt = None \<or> c_ptrtgt c = tgt \<and> c_dynmem c = None"
    and q: "w' = w\<lparr>w_cfg := w_cfg w @ [c]\<rparr> \<and> c_ptrmem c = None \<or>
      (\<exists>pi p. c_ptrmem c = Some pi \<and> pi < length (w_ptr w) \<and>
        w' = w\<lparr>w_ptr := (w_ptr w)[pi := (w_ptr w ! pi)\<lparr>p_cfg := p_cfg (w_ptr w ! pi) @ [length (w_cfg w)]\<rparr>],
          w_cfg := w_cfg w @ [c]\<rparr>)"
  shows "tables_inv w'"
proof -
  have offs: "offs_of own w' = offs_of own w" for own
    using q by (cases own) (auto simp: offs_of_simps nth_list_update)
  have low: "low_at own a w' = low_at own a w" for own a by (simp add: low_at_def offs)
  have keep: "entry_inv w' c' = entry_inv w c'" for c' using q by (auto simp: entry_inv_def low lib_idx_ok_def)
  have cfg: "w_cfg w' = w_cfg w @ [c]" "w_dyn w' = w_dyn w" "length (w_ptr w') = length (w_ptr w)" using q by auto
  have ptr: "ptr_inv (w_cfg w') pi (w_ptr w' ! pi)" if "pi < length (w_ptr w)" for pi
  proof -
    let ?p = "w_ptr w ! pi"
    from t that have old: "distinct (p_cfg ?p)" "\<forall>k \<in> set (p_cfg ?p). k < length (w_cfg w) \<and> c_ptrmem (w_cfg w ! k) = Some pi"
      by (auto simp: tables_inv_but_def ptr_inv_def)
    have st: "p_v_state ?p = [] \<and> p_v_offs ?p = [] \<or> (\<exists>c \<in> set (w_cfg w'). c_ptrtgt c = Some pi \<and> c_dynmem c = None)"
      using t tgt that unfolding tables_inv_but_def ptr_inv_def cfg by auto
    have new: "w_ptr w' ! pi = ?p \<or> c_ptrmem c = Some pi \<and> w_ptr w' ! pi = ?p\<lparr>p_cfg := p_cfg ?p @ [length (w_cfg w)]\<rparr>"
    proof (cases "c_ptrmem c = Some pi")
      case True
      with q that show ?thesis by auto
    next
      case False
      with q show ?thesis by (auto simp: nth_list_update_neq)
    qed
    then show ?thesis
    proof
      assume "w_ptr w' ! pi = ?p"
      with old st show ?thesis unfolding ptr_inv_def cfg by (auto simp: nth_append)
    next
      assume n: "c_ptrmem c = Some pi \<and> w_ptr w' ! pi = ?p\<lparr>p_cfg := p_cfg ?p @ [length (w_cfg w)]\<rparr>"
      with old st show ?thesis unfolding ptr_inv_def cfg by (auto simp: nth_append)
    qed
  qed
  have "owned w'" using t by (simp add: tables_inv_but_def owned_def offs)
  with t e ptr show ?thesis unfolding tables_inv_def cfg keep by (auto simp: tables_inv_but_def)
qed


lemma entry_kind_inv:
  assumes k: "entry_kind s line start c w = Some (c', w', next)" and t: "tables_inv w"
    and c: "c_ptrtgt c = None"
  shows "tables_inv_but (if s_in_dynmem s then None else c_ptrtgt c') w' \<and>
    (\<forall>pi. c_ptrtgt c' = Some pi \<longrightarrow> pi < length (w_ptr w')) \<and> w_cfg w' = w_cfg w \<and>
    length (w_dyn w') = length (w_dyn w) \<and> length (w_ptr w') = length (w_ptr w) \<and>
    length (w_lib w') = length (w_lib w) \<and> t_lib (c_type c') = t_lib (c_type c) \<and>
    (c_v_value c', c_v_oldval c', c_v_cstr c', c_checks c') = (c_v_value c, c_v_oldval c, c_v_cstr c, c_checks c)"
proof -
  consider (str) "t_is_cstrp (c_type c) \<or> t_is_cstr (c_type c)"
    | (ptr) "\<not> (t_is_cstrp (c_type c) \<or> t_is_cstr (c_type c))" "t_size (c_type c) = 0"
    | (num) "\<not> (t_is_cstrp (c_type c) \<or> t_is_cstr (c_type c))" "t_size (c_type c) \<noteq> 0" by blast
  then show ?thesis
  proof cases
    case str
    with k have "c' = c\<lparr>c_type := (c_type c)\<lparr>t_size := 64\<rparr>,
        c_cstr := (if outside s then Some (replicate (MAX_CSTR + 1) NUL) else None)\<rparr>" "w' = w"
      by (simp_all add: entry_kind_def Let_def)
    with c tables_inv_but_weaken [OF t] show ?thesis by simp
  next
    case num
    with k have "c' = c" "w' = w" by (simp_all add: entry_kind_def Let_def)
    with c tables_inv_but_weaken [OF t] show ?thesis by simp
  next
    case ptr
    with k obtain name p pi where l: "link_ptr s name w = Some (pi, w')"
      and c': "c' = c\<lparr>c_type := (c_type c)\<lparr>t_size := 64\<rparr>, c_ptrtgt := Some pi\<rparr>"
      by (auto simp: entry_kind_def Let_def bind_eq_Some_conv)
    from link_ptr_inv [OF l t] show ?thesis by (auto simp: c' split: if_splits)
  qed
qed

text \<open>The entry goes into its owner, whose first cache then starts at its address or below.\<close>

lemma find_cache_start_but:
  assumes f: "(if b then find_cache_start own a w else Some w) = Some w'" and t: "tables_inv_but tgt w"
  shows "quiet w w' \<and> (b \<longrightarrow> low_at own a w')"
proof -
  from t have "owned w" by (simp add: tables_inv_but_def)
  with f find_cache_start_quiet show ?thesis by (auto split: if_splits)
qed

lemma store_entry_inv:
  assumes st: "store_entry s c w = Some w'" and t: "tables_inv_but (if s_in_dynmem s then None else c_ptrtgt c) w"
    and dyn: "s_in_dynmem s \<Longrightarrow> \<not> s_in_ptrmem s \<and> s_dyn s \<noteq> None \<and> the (s_dyn s) < length (w_dyn w)"
    and c: "c_dynmem c = (if s_in_dynmem s then s_dyn s else None)" "c_v_value c = []" "c_v_oldval c = []"
      "c_v_cstr c = []" "c_checks c = []" "lib_idx_ok w (c_type c)" "\<And>pi. c_ptrtgt c = Some pi \<Longrightarrow> pi < length (w_ptr w)"
  shows "tables_inv w' \<and> length (w_dyn w') = length (w_dyn w) \<and> length (w_ptr w') = length (w_ptr w)"
proof -
  let ?b = "\<not> t_is_cstr (c_type c)"
  let ?c = "c\<lparr>c_ptrmem := (if s_in_ptrmem s then s_ptr s else None)\<rparr>"
  have main: "tables_inv w2' \<and> length (w_dyn w2') = length (w_dyn w) \<and> length (w_ptr w2') = length (w_ptr w)"
    if q: "quiet w w1" and low: "?b \<longrightarrow> low_at (entry_owner ?c (c_type c)) (c_addr c) w1"
    and pm: "\<And>pi. c_ptrmem ?c = Some pi \<Longrightarrow> pi < length (w_ptr w) \<and> c_dynmem c = None"
    and w2': "w2' = w1\<lparr>w_cfg := w_cfg w1 @ [?c]\<rparr> \<and> c_ptrmem ?c = None \<or>
      (\<exists>pi p. c_ptrmem ?c = Some pi \<and> pi < length (w_ptr w1) \<and>
        w2' = w1\<lparr>w_ptr := (w_ptr w1)[pi := (w_ptr w1 ! pi)\<lparr>p_cfg := p_cfg (w_ptr w1 ! pi) @ [length (w_cfg w1)]\<rparr>],
          w_cfg := w_cfg w1 @ [?c]\<rparr>)"
    for w1 w2'
  proof -
    have "lib_idx_ok w1 (c_type c)" by (rule quiet_keeps(1) [OF q c(6)])
    then have "entry_inv w1 ?c"
      using c low pm dyn quiet_lengths(1,2) [OF q] unfolding entry_inv_def by auto
    from append_entry_inv [OF quiet_tables_but [OF q t] this _ w2'] c(1) have "tables_inv w2'"
      by (auto split: if_splits)
    with w2' quiet_lengths(1,2) [OF q] show ?thesis by auto
  qed
  consider (dyn) "s_in_dynmem s" | (ptr) "\<not> s_in_dynmem s" "s_in_ptrmem s" | (out) "\<not> s_in_dynmem s" "\<not> s_in_ptrmem s"
    by blast
  then show ?thesis
  proof cases
    case dyn
    with assms(3) obtain di where di: "s_dyn s = Some di" "\<not> s_in_ptrmem s" by auto
    from st dyn di obtain w1 where w1: "(if ?b then find_cache_start (CDyn di) (c_addr c) w else Some w) = Some w1"
      and w': "w' = w1\<lparr>w_cfg := w_cfg w1 @ [?c]\<rparr>"
      by (auto simp: store_entry_def Let_def bind_eq_Some_conv split: if_splits)
    from find_cache_start_but [OF w1 t] main [of w1 w'] w' dyn di c(1) show ?thesis
      by (auto simp: entry_owner_def)
  next
    case ptr
    from st ptr obtain pi w1 w2 where pi: "s_ptr s = Some pi"
      and w1: "(if ?b then find_cache_start (CPtr pi) (c_addr c) w else Some w) = Some w1"
      and w2: "mod_ptr pi (\<lambda>p. Some (p\<lparr>p_cfg := p_cfg p @ [length (w_cfg w)]\<rparr>)) w1 = Some w2"
      and w': "w' = w2\<lparr>w_cfg := w_cfg w2 @ [?c]\<rparr>"
      by (auto simp: store_entry_def Let_def bind_eq_Some_conv)
    from find_cache_start_but [OF w1 t] have q: "quiet w w1" "?b \<longrightarrow> low_at (CPtr pi) (c_addr c) w1" by auto
    from w2 have pl: "pi < length (w_ptr w1)"
      and w2': "w2 = w1\<lparr>w_ptr := (w_ptr w1)[pi := (w_ptr w1 ! pi)\<lparr>p_cfg := p_cfg (w_ptr w1 ! pi) @ [length (w_cfg w)]\<rparr>]\<rparr>"
      by (auto simp: mod_ptr_def vget_Some_iff bind_eq_Some_conv)
    from main [OF q(1), of w'] q(2) pl w2' w' pi ptr c(1) quiet_lengths(2,4) [OF q(1)] show ?thesis
      by (auto simp: entry_owner_def)
  next
    case out
    from st out obtain w1 where w1: "(if ?b then find_cache_start (static_owner (c_type c)) (c_addr c) w else Some w) = Some w1"
      and w': "w' = w1\<lparr>w_cfg := w_cfg w1 @ [?c]\<rparr>"
      by (auto simp: store_entry_def Let_def bind_eq_Some_conv split: if_splits)
    from find_cache_start_but [OF w1 t] main [of w1 w'] w' out c(1) show ?thesis
      by (auto simp: entry_owner_def)
  qed
qed


text \<open>Keys and activation.\<close>

lemma s_opt_simps [simp]:
  "s_w (upd_opt (\<lambda>opt. opt\<lparr>o_keys := keys\<rparr>) s) = s_w s" "s_in_dynmem (upd_opt f s) = s_in_dynmem s"
  "s_in_ptrmem (upd_opt f s) = s_in_ptrmem s" "s_dyn (upd_opt f s) = s_dyn s" "s_ptr (upd_opt f s) = s_ptr s"
  "s_cfg (upd_opt f s) = s_cfg s"
  by (simp_all add: upd_opt_def)

lemma state_inv_keys: "state_inv (upd_opt (\<lambda>opt. opt\<lparr>o_keys := keys\<rparr>) s) = state_inv s"
  by (simp add: state_inv_def)

lemma watch_inv:
  assumes m: "mod_cfg ci (\<lambda>c. Some (c\<lparr>c_dynval := dv\<rparr>)) w = Some w'" and t: "tables_inv w"
  shows "tables_inv w' \<and> length (w_dyn w') = length (w_dyn w) \<and> length (w_ptr w') = length (w_ptr w)"
proof -
  let ?c = "(w_cfg w ! ci)\<lparr>c_dynval := dv\<rparr>"
  from m have ci: "ci < length (w_cfg w)" and w': "w' = w\<lparr>w_cfg := (w_cfg w)[ci := ?c]\<rparr>"
    by (auto simp: mod_cfg_def bind_eq_Some_conv vget_Some_iff)
  have "entry_owner ?c ty = entry_owner (w_cfg w ! ci) ty" for ty
    by (simp add: entry_owner_def cong: option.case_cong)
  moreover have "entry_inv w (w_cfg w ! ci)" using t ci by (simp add: tables_inv_def)
  ultimately have "entry_inv w ?c" by (simp add: entry_inv_def)
  from set_cfg_inv [OF t ci this] show ?thesis by (simp add: w')
qed

lemma finish_entry_inv:
  assumes f: "finish_entry line start ci s = Some s'" and s: "state_inv s"
  shows "state_inv s'"
proof -
  have act: "state_inv (set_w w2 r)"
    if a: "activate ci c w1 = Some w2" and i: "state_inv (set_w w1 r)" for c w1 w2 r
    using state_inv_quiet [OF i, of w2] activate_quiet [OF a] by (simp add: set_w_def)
  have self: "set_w (s_w r) r = r" for r by (simp add: set_w_def)
  from f obtain c where c: "vget (w_cfg (s_w s)) ci = Some c" by (auto simp: finish_entry_def bind_eq_Some_conv)
  show ?thesis
  proof (cases "c_dynval c = DYN_VAL_WATCH \<or> c_ptrtgt c \<noteq> None")
    case True
    with f c obtain w where "activate ci c (s_w s) = Some w" "s' = set_w w s"
      by (auto simp: finish_entry_def bind_eq_Some_conv)
    with act [of c "s_w s" w s] s self [of s] show ?thesis by simp
  next
    case False
    with f c obtain keys p where k: "parse_key_bindings ci line start (o_keys (s_opt s)) = Some (keys, p)"
      by (auto simp: finish_entry_def bind_eq_Some_conv)
    let ?s = "upd_opt (\<lambda>opt. opt\<lparr>o_keys := keys\<rparr>) s"
    have s1: "state_inv ?s" "s_w ?s = s_w s" using s state_inv_keys by auto
    from f c False k obtain x where x: "vget line p = Some x" by (auto simp: finish_entry_def Let_def bind_eq_Some_conv)
    consider "x = CHR ''a''" | "x = CHR ''w''" | "x \<noteq> CHR ''a''" "x \<noteq> CHR ''w''" by blast
    then show ?thesis
    proof cases
      case 1
      with f c False k x obtain w where w: "activate ci c (s_w s) = Some w" "s' = set_w w ?s"
        by (auto simp: finish_entry_def bind_eq_Some_conv)
      have "state_inv (set_w (s_w s) ?s)" using s1 self [of ?s] by simp
      from act [OF w(1) this] w(2) show ?thesis by simp
    next
      case 2
      with f c False k x obtain w1 w2 where w1: "mod_cfg ci (\<lambda>c. Some (c\<lparr>c_dynval := DYN_VAL_WATCH\<rparr>)) (s_w s) = Some w1"
        and w2: "activate ci c w1 = Some w2" and s': "s' = set_w w2 ?s"
        by (auto simp: finish_entry_def bind_eq_Some_conv)
      from s have "tables_inv (s_w s)" by (simp add: state_inv_def)
      from watch_inv [OF w1 this] s have "state_inv (set_w w1 ?s)" by (simp add: state_inv_def)
      from act [OF w2 this] s' show ?thesis by simp
    next
      case 3
      with f c False k x s1 show ?thesis by (simp add: finish_entry_def)
    qed
  qed
qed

lemma parse_entry_line_inv:
  assumes p: "parse_entry_line name line start s = Some s'" and s: "state_inv s"
  shows "state_inv s'"
proof -
  let ?w = "s_w s"
  have t: "tables_inv ?w" using s by (simp add: state_inv_def)
  from p obtain r where r: "parse_addr ACfg False ?w no_type line start = Some r"
    by (auto simp: parse_entry_line_def bind_eq_Some_conv)
  from p r obtain ty w1 where pt: "place_type (outside s) (r_type r) ?w = Some (ty, w1)"
    by (auto simp: parse_entry_line_def bind_eq_Some_conv)
  from p r pt obtain ty2 p2 where dt: "parse_data_type line (r_next r) ty = Some (ty2, p2)"
    by (auto simp: parse_entry_line_def bind_eq_Some_conv)
  let ?c1 = "(fresh_cfg name (s_cfg s))\<lparr>c_addr := r_addr r, c_type := ty2, c_ptrtgt := None, c_cstr := None\<rparr>"
  from p r pt dt obtain c2 w2 p3 where ek: "entry_kind s line p2 ?c1 w1 = Some (c2, w2, p3)"
    by (auto simp: parse_entry_line_def bind_eq_Some_conv Let_def)
  from p r pt dt ek obtain c3 p4 where cv: "parse_cfg_value line p3 (w_cfg w2) c2 = Some (c3, p4)"
    by (auto simp: parse_entry_line_def bind_eq_Some_conv Let_def)
  let ?c5 = "(if c_dynval c3 = DYN_VAL_ADDR then c3\<lparr>c_val_addr := c_value c3\<rparr> else c3)
    \<lparr>c_dynmem := (if s_in_dynmem s then s_dyn s else None)\<rparr>"
  from p r pt dt ek cv obtain w3 where st: "store_entry s ?c5 w2 = Some w3"
    and f: "finish_entry line p4 (length (w_cfg w2)) ((set_w w3 s)\<lparr>s_cfg := ?c5\<rparr>) = Some s'"
    by (auto simp: parse_entry_line_def bind_eq_Some_conv Let_def)
  have "lib_idx_ok ?w (r_type r)" using parse_addr_lib [OF r] by (simp add: lib_idx_ok_def no_type_def)
  from place_type_quiet [OF pt this] have q1: "quiet ?w w1" and l1: "lib_idx_ok w1 ty" by auto
  from entry_kind_inv [OF ek quiet_tables [OF q1 t]]
  have e: "tables_inv_but (if s_in_dynmem s then None else c_ptrtgt c2) w2"
    "\<forall>pi. c_ptrtgt c2 = Some pi \<longrightarrow> pi < length (w_ptr w2)"
    "length (w_dyn w2) = length (w_dyn w1)" "length (w_ptr w2) = length (w_ptr w1)"
    "length (w_lib w2) = length (w_lib w1)" "t_lib (c_type c2) = t_lib ty2"
    "c_v_value c2 = [] \<and> c_v_oldval c2 = [] \<and> c_v_cstr c2 = [] \<and> c_checks c2 = []"
    using s by (auto simp: fresh_cfg_def state_inv_def)
  have c5: "c_ptrtgt ?c5 = c_ptrtgt c2" "c_type ?c5 = c_type c2" "c_checks ?c5 = []" "c_v_value ?c5 = []"
    "c_v_oldval ?c5 = []" "c_v_cstr ?c5 = []" "c_dynmem ?c5 = (if s_in_dynmem s then s_dyn s else None)"
    using parse_cfg_value_keeps [OF cv] e(7) by simp_all
  have lens: "length (w_dyn w2) = length (w_dyn ?w)" "length (w_ptr w2) = length (w_ptr ?w)"
    using e(3,4) quiet_lengths(1,2) [OF q1] by simp_all
  have "lib_idx_ok w2 (c_type ?c5)" using l1 parse_data_type_keeps(1) [OF dt] e(5,6) c5(2) by (simp add: lib_idx_ok_def)
  moreover have "s_in_dynmem s \<Longrightarrow> \<not> s_in_ptrmem s \<and> s_dyn s \<noteq> None \<and> the (s_dyn s) < length (w_dyn w2)"
    using s lens by (auto simp: state_inv_def)
  ultimately have st': "tables_inv w3 \<and> length (w_dyn w3) = length (w_dyn w2) \<and> length (w_ptr w3) = length (w_ptr w2)"
    using e(1,2) c5 by (intro store_entry_inv [OF st]) (simp_all only: c5 simp_thms)
  then have "state_inv ((set_w w3 s)\<lparr>s_cfg := ?c5\<rparr>)"
    using s lens c5(4-6) by (simp add: state_inv_def set_w_def)
  from finish_entry_inv [OF f this] show ?thesis .
qed


subsection \<open>The other lines\<close>

text \<open>A new class, and new memory behind a pointer.\<close>

lemma append_owner_inv:
  assumes t: "tables_inv w" and w': "w' = w\<lparr>w_ptr := w_ptr w @ ps, w_dyn := w_dyn w @ ds\<rparr>"
    and ds: "\<And>d. d \<in> set ds \<Longrightarrow> dyn_part d = ([], []) \<and> d_cache_list d \<noteq> []"
    and ps: "\<And>p. p \<in> set ps \<Longrightarrow> p_cfg p = [] \<and> p_v_state p = [] \<and> p_v_offs p = [] \<and> p_cache_list p \<noteq> []"
  shows "tables_inv w'"
proof -
  have offs: "offs_of own w = Some offs \<Longrightarrow> offs_of own w' = Some offs" for own offs
    by (cases own) (auto simp: w' offs_of_simps nth_append split: if_splits)
  then have low: "low_at own a w \<Longrightarrow> low_at own a w'" for own a unfolding low_at_def by blast
  have keep: "entry_inv w' c" if "entry_inv w c" for c
    using that low unfolding entry_inv_def lib_idx_ok_def by (auto simp: w')
  have own: "owned w'"
    unfolding owned_def
  proof
    fix own
    have "offs_of own w \<noteq> Some []" using t by (simp add: tables_inv_def owned_def)
    then show "offs_of own w' \<noteq> Some []"
    proof (cases own)
      case (CDyn i)
      with \<open>offs_of own w \<noteq> Some []\<close> ds [of "ds ! (i - length (w_dyn w))"] show ?thesis
        by (auto simp: w' offs_of_simps nth_append)
    next
      case (CPtr i)
      with \<open>offs_of own w \<noteq> Some []\<close> ps [of "ps ! (i - length (w_ptr w))"] show ?thesis
        by (auto simp: w' offs_of_simps nth_append)
    qed (auto simp: w' offs_of_simps)
  qed
  have ptr: "ptr_inv (w_cfg w') pi (w_ptr w' ! pi)" if "pi < length (w_ptr w')" for pi
  proof (cases "pi < length (w_ptr w)")
    case True
    with t show ?thesis by (simp add: w' tables_inv_def nth_append)
  next
    case False
    with that have "ps ! (pi - length (w_ptr w)) \<in> set ps" "w_ptr w' ! pi = ps ! (pi - length (w_ptr w))"
      by (auto simp: w' nth_append)
    with ps show ?thesis by (auto simp: ptr_inv_def)
  qed
  have "\<forall>c \<in> set (w_cfg w'). entry_inv w' c" using t keep by (simp add: tables_inv_def w')
  moreover have "\<forall>d \<in> set (w_dyn w'). dyn_part d = ([], [])" using t ds by (auto simp: tables_inv_def w')
  ultimately show ?thesis using own ptr by (simp add: tables_inv_def)
qed

lemma parse_dynmem_new:
  "parse_dynmem from_grow w line lnr start = Some (d, p) \<Longrightarrow> dyn_part d = ([], []) \<and> d_cache_list d \<noteq> []"
  by (auto simp: parse_dynmem_def new_dynmem_def dyn_part_def bind_eq_Some_conv split: if_splits)

lemma start_dynmem_inv:
  assumes p: "start_dynmem from_grow line lnr start s = Some (s', q)" and s: "state_inv s" and n: "\<not> s_in_ptrmem s"
  shows "state_inv s' \<and> \<not> s_in_ptrmem s'"
proof -
  from p obtain d where d: "parse_dynmem from_grow (s_w s) line lnr start = Some (d, q)"
    and s': "s' = (set_w ((s_w s)\<lparr>w_dyn := w_dyn (s_w s) @ [d]\<rparr>) s)\<lparr>s_in_dynmem := True, s_dyn := Some (length (w_dyn (s_w s)))\<rparr>"
    by (auto simp: start_dynmem_def bind_eq_Some_conv Let_def)
  have "tables_inv (s_w s)" using s by (simp add: state_inv_def)
  from append_owner_inv [OF this, where ds = "[d]" and ps = "[]"] parse_dynmem_new [OF d]
  have "tables_inv ((s_w s)\<lparr>w_dyn := w_dyn (s_w s) @ [d]\<rparr>)" by simp
  with s n show ?thesis by (simp add: s' state_inv_def set_w_def)
qed

lemma mod_dyn_line_inv:
  assumes m: "mod_dyn di f (s_w s) = Some w" and s: "state_inv s"
    and f: "\<And>d d'. d \<in> set (w_dyn (s_w s)) \<Longrightarrow> f d = Some d' \<Longrightarrow> d_cache_list d' = d_cache_list d \<and> dyn_part d' = dyn_part d"
  shows "state_inv (set_w w s)"
  by (rule state_inv_quiet [OF s mod_dyn_quiet [OF m f]])

lemma parse_const_line_inv:
  assumes p: "parse_const_line line start s = Some s'" and s: "state_inv s"
  shows "state_inv s'"
proof -
  from p obtain di e w where w: "mod_dyn di (\<lambda>d. Some (d\<lparr>d_consts := d_consts d @ [e]\<rparr>)) (s_w s) = Some w" "s' = set_w w s"
    by (auto simp: parse_const_line_def bind_eq_Some_conv)
  have "state_inv (set_w w s)" by (intro mod_dyn_line_inv [OF w(1) s]) (auto simp: dyn_part_def)
  with w(2) show ?thesis by simp
qed

lemma parse_grow_line_inv:
  assumes p: "parse_grow_line line lnr start s = Some s'" and s: "state_inv s"
  shows "state_inv s'"
proof -
  from p have n: "\<not> s_in_ptrmem s" by (auto simp: parse_grow_line_def bind_eq_Some_conv check_that_def split: if_splits)
  from p obtain s1 q where s1: "(if s_in_dynmem s then Some (s, start) else start_dynmem True line lnr start s) = Some (s1, q)"
    by (auto simp: parse_grow_line_def bind_eq_Some_conv)
  from p s1 obtain di gr w where w: "mod_dyn di (\<lambda>d. Some (d\<lparr>d_v_msize := [], d_grow := Some gr\<rparr>)) (s_w s1) = Some w"
    "s' = set_w w s1"
    by (auto simp: parse_grow_line_def bind_eq_Some_conv)
  have s1': "state_inv s1" using s1 s start_dynmem_inv [OF _ s n] by (auto split: if_splits)
  then have "dyn_part d = ([], [])" if "d \<in> set (w_dyn (s_w s1))" for d
    using that by (simp add: state_inv_def tables_inv_def)
  then have "state_inv (set_w w s1)"
    by (intro mod_dyn_line_inv [OF w(1) s1']) (auto simp: dyn_part_def)
  with w(2) show ?thesis by simp
qed

lemma parse_ptr_line_inv:
  assumes p: "parse_ptr_line line start s = Some s'" and s: "state_inv s"
  shows "state_inv s'"
proof -
  from p obtain name p1 where 1: "\<not> s_in_dynmem s" "parse_name False line start = Some (name, p1)"
    by (auto simp: parse_ptr_line_def bind_eq_Some_conv check_that_def split: if_splits)
  with p obtain size p2 where 2: "parse_u32_value line p1 = Some (size, p2)"
    by (auto simp: parse_ptr_line_def bind_eq_Some_conv check_that_def)
  let ?pm = "\<lparr>p_name = name, p_mem_size = ucast size, p_cfg = [], p_cfg_act = [], p_dynmem = None,
       p_v_state = [], p_v_offs = [], p_cache_list = [init_cache PTR_MAX]\<rparr>"
  let ?w = "(s_w s)\<lparr>w_ptr := w_ptr (s_w s) @ [?pm]\<rparr>"
  have s': "s' = (set_w ?w s)\<lparr>s_in_ptrmem := True, s_ptr := Some (length (w_ptr (s_w s)))\<rparr>"
    using p 1 2 by (simp add: parse_ptr_line_def check_that_def Let_def)
  have "tables_inv (s_w s)" using s by (simp add: state_inv_def)
  from append_owner_inv [OF this, where w' = ?w and ds = "[]" and ps = "[?pm]"] have "tables_inv ?w" by simp
  with s 1 show ?thesis by (simp add: s' state_inv_def set_w_def)
qed

lemma parse_dump_line_inv:
  assumes p: "parse_dump_line line start s = Some s'" and s: "state_inv s"
  shows "state_inv s'"
proof -
  from p obtain w1 u where w1: "w1 = s_w s \<or> (\<exists>lib i. find_add_lib lib (s_w s) = (i, w1))"
    and s': "s' = set_w (w1\<lparr>w_dump := u\<rparr>) s"
    by (auto simp: parse_dump_line_def bind_eq_Some_conv Let_def split: prod.splits if_splits)
  have "quiet (s_w s) w1" using w1 find_add_lib_quiet by auto
  moreover have "quiet w1 (w1\<lparr>w_dump := u\<rparr>)" by (rule quiet_same_caches) (simp_all add: offs_of_flags)
  ultimately have "quiet (s_w s) (w1\<lparr>w_dump := u\<rparr>)" by (rule quiet_trans)
  from state_inv_quiet [OF s this] s' show ?thesis by simp
qed

lemma parse_option_line_w: "parse_option_line t line lnr start opt = Some opt' \<Longrightarrow> o_w opt' = o_w opt"
  by (cases t) (auto simp: parse_option_line_def bind_eq_Some_conv)


subsection \<open>The whole file\<close>

lemma state_inv_same:
  assumes "state_inv s" "s_w s' = s_w s" "s_in_dynmem s' = s_in_dynmem s" "s_in_ptrmem s' = s_in_ptrmem s"
    "s_dyn s' = s_dyn s" "s_ptr s' = s_ptr s" "s_cfg s' = s_cfg s"
  shows "state_inv s'"
  using assms by (simp add: state_inv_def)

lemma parse_line_inv:
  assumes p: "parse_line lnr line0 s = Some s'" and s: "state_inv s"
  shows "state_inv s'"
proof (cases "line0 = [] \<or> hd line0 = CHR ''#''")
  case True
  with p s show ?thesis by (simp add: parse_line_def)
next
  case False
  with p obtain name t line start where n: "value_name (s_macros s) line0 0 = Some (name, t, line, start)"
    by (auto simp: parse_line_def bind_eq_Some_conv)
  have p': "(case t of
          NAME_CHECK_OBJ \<Rightarrow> check_that (s_in_dynmem s) \<bind> (\<lambda>_. parse_check_line True line start s)
        | NAME_CHECK \<Rightarrow> parse_check_line False line start s
        | NAME_DYNMEM_START \<Rightarrow>
            check_that (outside s) \<bind> (\<lambda>_. map_option fst (start_dynmem False line lnr start s))
        | NAME_DYNMEM_CONST \<Rightarrow> parse_const_line line start s
        | NAME_DYNMEM_GROW \<Rightarrow> parse_grow_line line lnr start s
        | NAME_DYNMEM_END \<Rightarrow> check_that (s_in_dynmem s) \<bind> (\<lambda>_. Some (s\<lparr>s_in_dynmem := False, s_dyn := None\<rparr>))
        | NAME_PTRMEM_START \<Rightarrow> parse_ptr_line line start s
        | NAME_PTRMEM_END \<Rightarrow> check_that (s_in_ptrmem s) \<bind> (\<lambda>_. Some (s\<lparr>s_in_ptrmem := False, s_ptr := None\<rparr>))
        | NAME_REGULAR \<Rightarrow> parse_entry_line name line start s
        | NAME_DEFINE \<Rightarrow> check_that (outside s) \<bind> (\<lambda>_. parse_define_line line start s)
        | NAME_DUMP \<Rightarrow> check_that (outside s) \<bind> (\<lambda>_. parse_dump_line line start s)
        | _ \<Rightarrow> do {
            check_that (outside s);
            opt \<leftarrow> parse_option_line t line lnr start (s_opt s);
            Some (s\<lparr>s_opt := opt\<rparr>) }) = Some s'"
    using p False n by (simp add: parse_line_def)
  have opt: "state_inv (s\<lparr>s_opt := opt\<rparr>)" if "parse_option_line t line lnr start (s_opt s) = Some opt" for opt
    by (rule state_inv_same [OF s]) (use parse_option_line_w [OF that] in simp_all)
  show ?thesis
  proof (cases t)
    case NAME_DYNMEM_START
    with p' s start_dynmem_inv [OF _ s] show ?thesis
      by (auto simp: bind_eq_Some_conv check_that_def outside_def split: if_splits)
  next
    case NAME_DYNMEM_END
    with p' s show ?thesis by (auto simp: bind_eq_Some_conv check_that_def state_inv_def split: if_splits)
  next
    case NAME_PTRMEM_END
    with p' s show ?thesis by (auto simp: bind_eq_Some_conv check_that_def state_inv_def split: if_splits)
  next
    case NAME_DEFINE
    with p' s show ?thesis
      by (auto simp: bind_eq_Some_conv parse_define_line_def intro!: state_inv_same [OF s])
  qed (use p' s opt check_line_inv [OF s] parse_const_line_inv parse_grow_line_inv parse_ptr_line_inv
      parse_entry_line_inv parse_dump_line_inv in \<open>auto simp: bind_eq_Some_conv\<close>)
qed

lemma parse_lines_inv:
  assumes "parse_lines ls s = Some s'" "state_inv s"
  shows "state_inv s'"
proof (rule fold_opt_pres [of _ state_inv])
  show "fold_opt (\<lambda>(lnr, l). parse_line lnr l) (enumerate 1 ls) s = Some s'"
    using assms(1) by (simp add: parse_lines_def)
qed (use assms(2) parse_line_inv in auto)


text \<open>An empty trainer: no entries, classes, pointers and libraries yet.\<close>

definition blank :: "world \<Rightarrow> bool" where
  "blank w \<longleftrightarrow> w_cfg w = [] \<and> w_dyn w = [] \<and> w_ptr w = [] \<and> w_lib w = []"

lemma blank_tables: "blank w \<Longrightarrow> tables_inv (init_caches w)"
proof -
  assume b: "blank w"
  have "offs_of own (init_caches w) \<noteq> Some []" for own
    using b by (cases own) (simp_all add: offs_of_simps init_caches_def blank_def)
  with b show ?thesis by (simp add: tables_inv_def owned_def blank_def init_caches_def)
qed

lemma parse_config_run:
  assumes p: "parse_config c0 k0 ls opt = Some opt'" and b: "blank (o_w opt)"
    and c0: "c_v_value c0 = []" "c_v_oldval c0 = []" "c_v_cstr c0 = []"
  obtains w where "tables_inv w" "build_caches w = Some (o_w opt')"
proof -
  from p obtain name s w where
    s: "parse_lines (tl ls) \<lparr>s_opt = opt\<lparr>o_w := init_caches (o_w opt), o_proc_name := name, o_game_call := name\<rparr>,
       s_macros = Map.empty, s_in_dynmem = False, s_in_ptrmem = False,
       s_dyn = None, s_ptr = None, s_cfg = c0, s_chk = k0\<rparr> = Some s" (is "parse_lines _ ?s0 = _")
    and w: "build_caches (s_w s) = Some w" "opt' = (s_opt s)\<lparr>o_w := w\<rparr>"
    by (auto simp: parse_config_def bind_eq_Some_conv)
  have "state_inv ?s0" using blank_tables [OF b] c0 by (simp add: state_inv_def)
  from parse_lines_inv [OF s this] have "tables_inv (s_w s)" by (simp add: state_inv_def)
  with w show thesis by (intro that) simp_all
qed

text \<open>All owners of the addresses have a cache.\<close>

lemma entry_owner_owned:
  assumes t: "tables_inv w" and c: "c \<in> set (w_cfg w)" and l: "lib_idx_ok w ty"
  shows "offs_of (entry_owner c ty) w \<notin> {None, Some []}"
proof -
  have e: "entry_inv w c" and o: "owned w" using t c by (auto simp: tables_inv_def)
  have "offs_of (entry_owner c ty) w \<noteq> None"
    using e l by (auto simp: entry_owner_def static_owner_def entry_inv_def lib_idx_ok_def offs_of_simps split: option.split)
  with o show ?thesis by (auto simp: owned_def)
qed

lemma addr_list_owned:
  assumes t: "tables_inv w" and a: "a \<in> set (addr_list (w_cfg w))"
  shows "offs_of (a_own a) w \<notin> {None, Some []}"
proof -
  from a obtain ci c where c: "ci < length (w_cfg w)" "c = w_cfg w ! ci" and ae: "a \<in> set (entry_addrs ci c)"
    by (auto simp: addr_list_def in_set_enumerate_eq)
  from c have cin: "c \<in> set (w_cfg w)" by simp
  from t cin have e: "entry_inv w c" by (simp add: tables_inv_def)
  from ae consider "a = cfg_addr ci c" | ki k where "k \<in> set (c_checks c)" "a = chk_addr_en ci c ki k"
    by (auto simp: entry_addrs_def in_set_enumerate_eq split: if_splits) (use nth_mem in blast)
  then show ?thesis
  proof cases
    case 1
    with entry_owner_owned [OF t cin, of "c_type c"] e show ?thesis by (simp add: cfg_addr_def entry_inv_def)
  next
    case 2
    with entry_owner_owned [OF t cin, of "k_type k"] e show ?thesis by (simp add: chk_addr_en_def entry_inv_def)
  qed
qed

subsection \<open>What the caches leave alone\<close>

lemma bare_fields:
  assumes "bare c' = bare c"
  shows "c_addr c' = c_addr c" "c_type c' = c_type c" "c_dynmem c' = c_dynmem c" "c_ptrmem c' = c_ptrmem c"
    "mem_part c' = mem_part c" "map bare_chk (c_checks c') = map bare_chk (c_checks c)"
  using arg_cong [OF assms, of c_addr] arg_cong [OF assms, of c_type] arg_cong [OF assms, of c_dynmem]
    arg_cong [OF assms, of c_ptrmem] arg_cong [OF assms, of mem_part] arg_cong [OF assms, of c_checks]
  by (simp_all add: bare_def mem_part_def)

lemma bare_chk_fields:
  assumes "bare_chk k' = bare_chk k"
  shows "k_addr k' = k_addr k" "k_type k' = k_type k" "k_cfg_ref k' = k_cfg_ref k"
  using arg_cong [OF assms, of k_addr] arg_cong [OF assms, of k_type] arg_cong [OF assms, of k_cfg_ref]
  by (simp_all add: bare_chk_def)

lemma set_cache_list_parts:
  assumes "cache_list own w = Some cl"
  shows "map dyn_part (w_dyn (set_cache_list own cl' w)) = map dyn_part (w_dyn w)"
    "map ptr_part (w_ptr (set_cache_list own cl' w)) = map ptr_part (w_ptr w)"
    "w_mq (set_cache_list own cl' w) = w_mq w"
  using assms
  by (cases own; simp add: set_cache_list_def map_update dyn_part_def ptr_part_def list_update_same_conv
      cache_list_def vget_def split: if_splits)+

lemma build_cache_view:
  assumes "build_cache a w = Some w'"
  shows "map dyn_part (w_dyn w') = map dyn_part (w_dyn w) \<and> map ptr_part (w_ptr w') = map ptr_part (w_ptr w) \<and>
    w_mq w' = w_mq w"
proof -
  from assms obtain cl i offs cl' where cl: "cache_list (a_own a) w = Some cl"
    and as: "assign_cache a i offs (set_cache_list (a_own a) cl' w) = Some w'"
    by (auto simp: build_cache_def bind_eq_Some_conv Let_def)
  have "w_dyn w' = w_dyn w1 \<and> w_ptr w' = w_ptr w1 \<and> w_mq w' = w_mq w1" if "assign_cache a i offs w1 = Some w'" for w1
    using that by (auto simp: assign_cache_def Let_def mod_cfg_def bind_eq_Some_conv split: prod.splits option.splits)
  from this [OF as] set_cache_list_parts [OF cl, of cl'] show ?thesis by (simp only:)
qed

lemma build_caches_view:
  assumes b: "build_caches w = Some w'" and s: "same_bare w w'"
  shows "mem_view w' = mem_view w"
proof -
  have 1: "map dyn_part (w_dyn w') = map dyn_part (w_dyn w) \<and> map ptr_part (w_ptr w') = map ptr_part (w_ptr w) \<and>
    w_mq w' = w_mq w"
  proof (rule fold_opt_pres [where I = "\<lambda>x. map dyn_part (w_dyn x) = map dyn_part (w_dyn w) \<and>
      map ptr_part (w_ptr x) = map ptr_part (w_ptr w) \<and> w_mq x = w_mq w"])
    show "fold_opt build_cache (addr_list (w_cfg w)) w = Some w'" using b by (simp add: build_caches_def)
    show "map dyn_part (w_dyn w2) = map dyn_part (w_dyn w) \<and> map ptr_part (w_ptr w2) = map ptr_part (w_ptr w) \<and>
        w_mq w2 = w_mq w"
      if i: "map dyn_part (w_dyn w1) = map dyn_part (w_dyn w) \<and> map ptr_part (w_ptr w1) = map ptr_part (w_ptr w) \<and>
        w_mq w1 = w_mq w" and s: "build_cache a w1 = Some w2" for a w1 w2
      using i build_cache_view [OF s] by (simp only:)
  qed (intro conjI refl)
  have "map mem_part (w_cfg w') = map mem_part (w_cfg w)"
  proof (rule nth_equalityI)
    show "map mem_part (w_cfg w') ! i = map mem_part (w_cfg w) ! i" if "i < length (map mem_part (w_cfg w'))" for i
      using that bare_fields(5) [OF same_bareD(2) [OF s]] same_bareD(1) [OF s] by simp
  qed (use same_bareD(1) [OF s] in simp)
  with 1 show ?thesis by (simp only: mem_view_def)
qed


subsection \<open>The result\<close>

text \<open>The cache of an address ends before the end of memory, and a cache holds it.\<close>

definition fits :: "addr_entry \<Rightarrow> bool" where
  "fits a \<longleftrightarrow> unat (a_addr a) + MEM_CHUNK < 2 ^ 64 \<and> unat (a_size a) \<le> MEM_CHUNK"

lemma startable_iff: "startable a w \<longleftrightarrow> low_at (a_own a) (a_addr a) w \<and> fits a"
  by (simp add: startable_def low_at_def fits_def)

lemma bare_addrs:
  assumes "bare c' = bare c"
  shows "cfg_addr ci c' = cfg_addr ci c"
    "ki < length (c_checks c) \<Longrightarrow> chk_addr_en ci c' ki (c_checks c' ! ki) = chk_addr_en ci c ki (c_checks c ! ki)"
    "ki < length (c_checks c) \<Longrightarrow> k_cfg_ref (c_checks c' ! ki) = k_cfg_ref (c_checks c ! ki)"
proof -
  note f = bare_fields [OF assms]
  have own: "entry_owner c' ty = entry_owner c ty" for ty unfolding entry_owner_def f ..
  show "cfg_addr ci c' = cfg_addr ci c" unfolding cfg_addr_def own f ..
  assume ki: "ki < length (c_checks c)"
  have l: "length (c_checks c') = length (c_checks c)" using f(6) by (rule map_eq_imp_length_eq)
  have "bare_chk (c_checks c' ! ki) = bare_chk (c_checks c ! ki)"
    using arg_cong [OF f(6), of "\<lambda>l. l ! ki"] ki l by simp
  note k = bare_chk_fields [OF this]
  show "chk_addr_en ci c' ki (c_checks c' ! ki) = chk_addr_en ci c ki (c_checks c ! ki)"
    unfolding chk_addr_en_def own k ..
  show "k_cfg_ref (c_checks c' ! ki) = k_cfg_ref (c_checks c ! ki)" by (rule k(3))
qed

lemma in_addr_list:
  assumes "ci < length cfg" "\<not> t_is_cstr (c_type (cfg ! ci))"
  shows "cfg_addr ci (cfg ! ci) \<in> set (addr_list cfg)"
    "ki < length (c_checks (cfg ! ci)) \<Longrightarrow> k_cfg_ref (c_checks (cfg ! ci) ! ki) = None \<Longrightarrow>
       chk_addr_en ci (cfg ! ci) ki (c_checks (cfg ! ci) ! ki) \<in> set (addr_list cfg)"
proof -
  have m: "a \<in> set (entry_addrs ci (cfg ! ci)) \<Longrightarrow> a \<in> set (addr_list cfg)" for a
    using assms(1) by (auto simp: addr_list_def in_set_enumerate_eq intro!: bexI [of _ "(ci, cfg ! ci)"])
  show "cfg_addr ci (cfg ! ci) \<in> set (addr_list cfg)"
    by (rule m) (use assms(2) in \<open>simp add: entry_addrs_def\<close>)
  show "chk_addr_en ci (cfg ! ci) ki (c_checks (cfg ! ci) ! ki) \<in> set (addr_list cfg)"
    if "ki < length (c_checks (cfg ! ci))" "k_cfg_ref (c_checks (cfg ! ci) ! ki) = None"
    by (rule m) (use assms(2) that in \<open>auto simp: entry_addrs_def in_set_enumerate_eq
      intro!: image_eqI [of _ _ "(ki, c_checks (cfg ! ci) ! ki)"]\<close>)
qed

lemma parsed_is_cached:
  assumes p: "parse_config c0 k0 ls opt = Some opt'" and b: "blank (o_w opt)"
    and c0: "c_v_value c0 = []" "c_v_oldval c0 = []" "c_v_cstr c0 = []"
    and ci: "ci < length (w_cfg (o_w opt'))" "c = w_cfg (o_w opt') ! ci" "\<not> t_is_cstr (c_type c)"
  shows "(fits (cfg_addr ci c) \<longrightarrow> covers (cfg_addr ci c) (o_w opt')) \<and>
    (c_dynmem c = None \<and> c_ptrmem c = None \<longrightarrow> (\<forall>ki < length (c_checks c). k_cfg_ref (c_checks c ! ki) = None \<longrightarrow>
       fits (chk_addr_en ci c ki (c_checks c ! ki)) \<longrightarrow> covers (chk_addr_en ci c ki (c_checks c ! ki)) (o_w opt')))"
proof -
  from parse_config_run [OF p b c0] obtain w where t: "tables_inv w" and bc: "build_caches w = Some (o_w opt')" .
  from build_caches_covers [of w] addr_list_owned [OF t] bc
  have cov: "\<forall>a \<in> set (addr_list (w_cfg w)). startable a w \<longrightarrow> covers a (o_w opt')" and sb: "same_bare w (o_w opt')"
    by auto
  from ci(1) same_bareD(1) [OF sb] have i: "ci < length (w_cfg w)" by simp
  let ?c = "w_cfg w ! ci"
  from same_bareD(2) [OF sb i] ci(2) have bare: "bare c = bare ?c" by simp
  note f = bare_fields [OF bare] and ad = bare_addrs [OF bare]
  have e: "entry_inv w ?c" using t i by (simp add: tables_inv_def)
  have str: "\<not> t_is_cstr (c_type ?c)" using ci(3) f(2) by simp
  note ins = in_addr_list [OF i str]
  have "low_at (entry_owner ?c (c_type ?c)) (c_addr ?c) w" using e str by (simp add: entry_inv_def)
  then have 1: "fits (cfg_addr ci ?c) \<longrightarrow> covers (cfg_addr ci ?c) (o_w opt')"
    using cov ins(1) by (auto simp: startable_iff cfg_addr_def)
  have 2: "covers (chk_addr_en ci ?c ki (c_checks ?c ! ki)) (o_w opt')"
    if k: "ki < length (c_checks ?c)" "k_cfg_ref (c_checks ?c ! ki) = None" and st: "c_dynmem ?c = None" "c_ptrmem ?c = None"
      and fit: "fits (chk_addr_en ci ?c ki (c_checks ?c ! ki))" for ki
  proof -
    have "low_at (static_owner (k_type (c_checks ?c ! ki))) (k_addr (c_checks ?c ! ki)) w"
      using e st k nth_mem [OF k(1)] unfolding entry_inv_def by blast
    then have "startable (chk_addr_en ci ?c ki (c_checks ?c ! ki)) w"
      using st fit by (simp add: startable_iff chk_addr_en_def entry_owner_def)
    with cov ins(2) [OF k] show ?thesis by blast
  qed
  have l: "length (c_checks c) = length (c_checks ?c)" using f(6) by (rule map_eq_imp_length_eq)
  show ?thesis using 1 2 ad f(3,4) l by auto
qed

text \<open>The object tables are in order if no two entries point to the same pointer memory.\<close>

definition own_targets :: "world \<Rightarrow> bool" where
  "own_targets w \<longleftrightarrow> distinct (filter (\<lambda>t. t \<noteq> None) (map c_ptrtgt (w_cfg w)))"

lemma own_targetsD:
  assumes "own_targets w" "ci < length (w_cfg w)" "cj < length (w_cfg w)"
    "c_ptrtgt (w_cfg w ! ci) = Some pi" "c_ptrtgt (w_cfg w ! cj) = Some pi"
  shows "ci = cj"
proof -
  have "distinct (filter (\<lambda>t. t \<noteq> None) ts) \<Longrightarrow> i < length ts \<Longrightarrow> j < length ts \<Longrightarrow> ts ! i = Some x \<Longrightarrow>
      ts ! j = Some x \<Longrightarrow> i = j" for ts :: "nat option list" and i j x
  proof (induction ts arbitrary: i j)
    case (Cons t ts)
    show ?case
    proof (cases i; cases j)
      fix i' j' assume "i = Suc i'" "j = Suc j'"
      with Cons show ?thesis by (auto split: if_splits)
    next
      fix j' assume "i = 0" "j = Suc j'"
      with Cons.prems nth_mem [of j' ts] show ?thesis by auto
    next
      fix i' assume "i = Suc i'" "j = 0"
      with Cons.prems nth_mem [of i' ts] show ?thesis by auto
    qed simp
  qed simp
  from this [of "map c_ptrtgt (w_cfg w)" ci cj pi] assms show ?thesis by (simp add: own_targets_def)
qed

lemma tables_wf:
  assumes t: "tables_inv w" and o: "own_targets w"
  shows "mem_wf w"
proof -
  have e: "entry_inv w (w_cfg w ! ci)" if "ci < length (w_cfg w)" for ci
    using t that by (simp add: tables_inv_def)
  have ptr: "ptr_inv (w_cfg w) pi (w_ptr w ! pi)" if "pi < length (w_ptr w)" for pi
    using t that by (simp add: tables_inv_def)
  have fields: "c_ptrmem (w_cfg w ! k) = c_ptrtgt (w_cfg w ! ci) \<and> k < length (w_cfg w) \<and> c_dynmem (w_cfg w ! k) = None \<and>
      c_ptrmem (w_cfg w ! k) \<noteq> None"
    if "ci < length (w_cfg w)" "k \<in> set (tgt_fields w ci)" for ci k
  proof -
    from that obtain pi where pi: "c_ptrtgt (w_cfg w ! ci) = Some pi" "k \<in> set (p_cfg (w_ptr w ! pi))"
      by (cases "c_ptrtgt (w_cfg w ! ci)") (auto simp: tgt_fields_def)
    with e [OF that(1)] have "pi < length (w_ptr w)" by (simp add: entry_inv_def)
    from ptr [OF this] pi(2) have k: "k < length (w_cfg w)" "c_ptrmem (w_cfg w ! k) = Some pi" by (auto simp: ptr_inv_def)
    from e [OF k(1)] k(2) have "c_dynmem (w_cfg w ! k) = None" by (auto simp: entry_inv_def)
    with k pi show ?thesis by simp
  qed
  have row: "row_ok w ci 0" if ci: "ci < length (w_cfg w)" "c_dynmem (w_cfg w ! ci) \<noteq> None" for ci
  proof -
    have n0: "cfg_n 0 (w_cfg w ! k)" if "k < length (w_cfg w)" for k using e [OF that] by (simp add: entry_inv_def cfg_n_def)
    have p0: "pi < length (w_ptr w) \<and> ptr_n 0 (w_ptr w ! pi)" if "pi \<in> pfoot w ci" for pi
    proof -
      from that have tg: "c_ptrtgt (w_cfg w ! ci) = Some pi" by (auto simp: pfoot_def)
      with e [OF ci(1)] have pl: "pi < length (w_ptr w)" by (simp add: entry_inv_def)
      from ptr [OF pl] show ?thesis
      proof (cases "p_v_state (w_ptr w ! pi) = [] \<and> p_v_offs (w_ptr w ! pi) = []")
        case True
        with pl show ?thesis by (simp add: ptr_n_def)
      next
        case False
        with ptr [OF pl] obtain c where "c \<in> set (w_cfg w)" "c_ptrtgt c = Some pi" "c_dynmem c = None"
          unfolding ptr_inv_def by blast
        then obtain cj where "cj < length (w_cfg w)" "c_ptrtgt (w_cfg w ! cj) = Some pi" "c_dynmem (w_cfg w ! cj) = None"
          by (auto simp: in_set_conv_nth)
        with own_targetsD [OF o ci(1) this(1) tg this(2)] ci(2) show ?thesis by simp
      qed
    qed
    have "distinct (tgt_fields w ci)"
    proof (cases "c_ptrtgt (w_cfg w ! ci)")
      case (Some pi)
      with e [OF ci(1)] have "pi < length (w_ptr w)" by (simp add: entry_inv_def)
      from ptr [OF this] Some show ?thesis by (simp add: tgt_fields_def ptr_inv_def)
    qed (simp add: tgt_fields_def)
    with ci n0 p0 fields [OF ci(1)] show ?thesis by (auto simp: row_ok_def)
  qed
  have disj: "foot w ci \<inter> foot w cj = {} \<and> pfoot w ci \<inter> pfoot w cj = {}"
    if "ci < length (w_cfg w)" "cj < length (w_cfg w)" "ci \<noteq> cj" "c_dynmem (w_cfg w ! ci) \<noteq> None"
      "c_dynmem (w_cfg w ! cj) \<noteq> None" for ci cj
  proof -
    have "c_ptrtgt (w_cfg w ! ci) \<noteq> c_ptrtgt (w_cfg w ! cj) \<or> c_ptrtgt (w_cfg w ! ci) = None"
      using own_targetsD [OF o that(1,2)] that(3) by (cases "c_ptrtgt (w_cfg w ! ci)") auto
    then show ?thesis
      using fields [OF that(1)] fields [OF that(2)] that(3-5) by (auto simp: foot_def pfoot_def) (metis option.distinct(1))+
  qed
  have sizes: "length (d_v_msize d) = length (d_v_maddr d)" if "d \<in> set (w_dyn w)" for d
    using t that by (simp add: tables_inv_def dyn_part_def)
  have rows: "\<forall>di \<in> set_option (c_dynmem (w_cfg w ! ci)). di < length (w_dyn w) \<and>
      row_ok w ci (length (c_v_oldval (w_cfg w ! ci))) \<and> length (c_v_oldval (w_cfg w ! ci)) \<le> length (d_v_maddr (w_dyn w ! di))"
    if "ci < length (w_cfg w)" for ci
    using e [OF that] row [OF that] by (auto simp: entry_inv_def)
  show ?thesis unfolding mem_wf_def using sizes rows disj by blast
qed

lemma parsed_view:
  assumes p: "parse_config c0 k0 ls opt = Some opt'" and b: "blank (o_w opt)"
    and c0: "c_v_value c0 = []" "c_v_oldval c0 = []" "c_v_cstr c0 = []"
  obtains w where "tables_inv w" "mem_view (o_w opt') = mem_view w"
proof -
  from parse_config_run [OF p b c0] obtain w where t: "tables_inv w" and bc: "build_caches w = Some (o_w opt')" .
  from build_caches_covers [of w] addr_list_owned [OF t] bc have "same_bare w (o_w opt')" by auto
  from that [OF t build_caches_view [OF bc this]] show thesis .
qed

lemma parsed_is_consistent:
  assumes p: "parse_config c0 k0 ls opt = Some opt'" and b: "blank (o_w opt)"
    and c0: "c_v_value c0 = []" "c_v_oldval c0 = []" "c_v_cstr c0 = []" and o: "own_targets (o_w opt')"
  shows "mem_wf (o_w opt')"
proof -
  from parsed_view [OF p b c0] obtain w where t: "tables_inv w" and v: "mem_view (o_w opt') = mem_view w" .
  have "map c_ptrtgt (w_cfg (o_w opt')) = map c_ptrtgt (w_cfg w)"
    by (intro nth_equalityI) (use mem_viewD(1,5) [OF v] in \<open>auto simp: mem_part_def\<close>)
  with o have "own_targets w" by (simp add: own_targets_def)
  from tables_wf [OF t this] v show ?thesis by (rule mem_wf_view [rotated])
qed

text \<open>There are no objects yet.\<close>

lemma parsed_is_empty:
  assumes "parse_config c0 k0 ls opt = Some opt'" "blank (o_w opt)"
    "c_v_value c0 = []" "c_v_oldval c0 = []" "c_v_cstr c0 = []"
  shows "ci < length (w_cfg (o_w opt')) \<Longrightarrow> c_v_oldval (w_cfg (o_w opt') ! ci) = []"
    "di < length (w_dyn (o_w opt')) \<Longrightarrow> d_v_maddr (w_dyn (o_w opt') ! di) = []"
proof -
  from parsed_view [OF assms] obtain w where t: "tables_inv w" and v: "mem_view (o_w opt') = mem_view w" .
  note V = mem_viewD [OF v]
  show "c_v_oldval (w_cfg (o_w opt') ! ci) = []" if "ci < length (w_cfg (o_w opt'))"
    using V(1) V(5) [of ci] t that by (auto simp: mem_part_def tables_inv_def entry_inv_def)
  show "d_v_maddr (w_dyn (o_w opt') ! di) = []" if "di < length (w_dyn (o_w opt'))"
    using V(2) V(6) [of di] t that by (auto simp: dyn_part_def tables_inv_def)
qed

end
