(* ===== verification/CfgText.thy ===== *)
theory CfgText
  imports Cfgparser
begin

text \<open>
  A printed line of the config file is read back: names, addresses, types, numbers and keys, and
  from them the line of an entry in static memory. What is read is described by what is left of
  the line at a position.
\<close>

subsection \<open>Positions\<close>

lemma drop_tok: "drop p line = t @ r \<Longrightarrow> drop (p + length t) line = r"
  by (metis add.commute append_eq_conv_conj drop_drop)

lemma drop_tok1: "drop p line = t @ c # r \<Longrightarrow> drop (p + length t + 1) line = r"
  using drop_tok [of p line "t @ [c]" r] by simp

lemma drop_at:
  assumes "drop p line = c # r"
  shows "p < length line" "line ! p = c"
  using assms by (metis drop_eq_Nil leI list.distinct(1)) (metis assms nth_via_drop)

lemma takeWhile_tok: "\<forall>c \<in> set t. c \<noteq> CHR '' '' \<Longrightarrow> takeWhile (\<lambda>c. c \<noteq> CHR '' '') (t @ CHR '' '' # r) = t"
  by (induction t) auto

subsection \<open>Names\<close>

definition name_ok :: "string \<Rightarrow> bool" where
  "name_ok s \<longleftrightarrow> s \<noteq> [] \<and> (\<forall>c \<in> set s. name_char c \<and> c \<noteq> CHR '' '')"

lemma parse_name_tok:
  assumes "drop p line = s @ CHR '' '' # r" "name_ok s"
  shows "parse_name False line p = Some (s, p + length s + 1)"
proof -
  have "p \<le> length line" using assms(1) by (metis drop_eq_Nil append_is_Nil_conv list.distinct(1) linear)
  with assms show ?thesis by (simp add: parse_name_def takeWhile_tok name_ok_def check_that_def)
qed

lemma parse_value_name_tok:
  assumes "drop p line = s @ CHR '' '' # r" "name_ok s" "classify s = None" "macros s = None"
  shows "value_name macros line p = Some (s, NAME_REGULAR, line, p + length s + 1)"
  using assms(3,4) by (subst value_name_unfold) (simp add: parse_name_tok [OF assms(1,2)])

subsection \<open>Numbers\<close>

lemma digit10: "is_digit 10 c \<longleftrightarrow> c_isdigit c"
  by (auto simp: is_digit_def digit_val_def c_isdigit_def c_isupper_def c_islower_def)

lemma pr_dec_digits: "\<forall>c \<in> set (pr_dec n). c_isdigit c"
  using digits_are_digits [of 10 n] by (simp add: pr_dec_def digit10)

lemma pr_dec_not_Nil: "pr_dec n \<noteq> []" "pr_hex w \<noteq> []"
  by (simp_all add: pr_dec_def pr_hex_def)

lemma digit_is_not:
  assumes "c_isdigit c"
  shows "c \<noteq> CHR '' ''" "c \<noteq> CHR ''x''" "c \<noteq> CHR ''l''" "c \<noteq> CHR ''g''" "c \<noteq> CHR ''e''" "c \<noteq> CHR ''-''"
  using assms by (auto simp: c_isdigit_def)

lemma pr_hex_chars: "c \<in> set (pr_hex w) \<Longrightarrow> is_digit 16 c \<and> c \<noteq> CHR '' ''"
  using pr_chars(2) [of w] by (auto simp: is_digit_def digit_val_def c_isdigit_def c_isupper_def c_islower_def split: if_splits)

lemma strtoul_pr_hex: "strtoul 16 (pr_hex w) = w"
  using scan_num_pr_hex [of "[]" w] by (simp add: strtoul_def scan_ul_def)

lemma strtoul_pr_dec: "n < 2 ^ 64 \<Longrightarrow> strtoul 10 (pr_dec n) = of_nat n"
  using scan_num_pr_dec [of "[]" n] by (simp add: strtoul_def scan_ul_def to_ulong_def)

lemma atoi_pr_dec:
  assumes "n < 2 ^ 31" shows "atoi (pr_dec n) = int n"
proof -
  have "strtol 10 (pr_dec n) = of_nat n"
    using assms scan_num_pr_dec [of "[]" n] by (simp add: strtol_def scan_l_def to_long_def)
  then have "atoi (pr_dec n) = sint (ucast (of_nat n :: 64 word) :: 32 word)" by (simp add: atoi_def)
  also have "ucast (of_nat n :: 64 word) = (of_nat n :: 32 word)"
    by (rule bit_word_eqI) (simp add: bit_simps)
  also have "sint (of_nat n :: 32 word) = int n"
    using assms by (simp add: signed_of_nat signed_take_bit_int_eq_self)
  finally show ?thesis .
qed

text \<open>Not the prefix of a number in base 16.\<close>

lemma dec_no_0x: "\<not> is_prefix ''0x'' (pr_dec n @ CHR '' '' # r)"
proof -
  have "is_prefix ''0x'' s \<Longrightarrow> 2 \<le> length s \<and> s ! 1 = CHR ''x''" for s :: string
    by (cases s rule: remdups_adj.cases) (auto simp: is_prefix_def)
  moreover have "(pr_dec n @ CHR '' '' # r) ! 1 \<noteq> CHR ''x''"
  proof (cases "length (pr_dec n) = 1")
    case True
    then show ?thesis by (simp add: nth_append)
  next
    case False
    with pr_dec_not_Nil(1) [of n] have "1 < length (pr_dec n)" by (cases "pr_dec n") auto
    then show ?thesis using pr_dec_digits [of n] digit_is_not(2) by (simp add: nth_append)
  qed
  ultimately show ?thesis by blast
qed

subsection \<open>The address and the type\<close>

lemma parse_hex_tok:
  assumes "drop p line = pr_hex a @ CHR '' '' # r"
  shows "parse_hex line p = Some (a, p + length (pr_hex a) + 1)"
proof -
  have tw: "takeWhile c_isxdigit (pr_hex a @ CHR '' '' # r) = pr_hex a"
    by (subst takeWhile_append2)
      (use pr_hex_chars in \<open>auto simp: is_digit_def digit_val_def c_isdigit_def c_isupper_def c_islower_def\<close>)
  have "strtoul 16 (pr_hex a @ [CHR '' '']) = a"
    using scan_num_pr_hex [of "'' ''" a] by (simp add: strtoul_def scan_ul_def)
  then show ?thesis
    using assms tw by (cases r) (simp_all add: parse_hex_def Let_def strtoul_pr_hex nth_append)
qed

lemma parse_addr_tok:
  assumes "drop p line = ''0x'' @ pr_hex a @ CHR '' '' # r"
  shows "parse_addr ctx u w ty line p =
    Some \<lparr>r_addr = a, r_type = ty, r_ref = None, r_next = p + 2 + length (pr_hex a) + 1\<rparr>"
proof -
  have 0: "line ! p = CHR ''0''" "p < length line" using drop_at [of p line] assms by auto
  have d1: "drop (p + 1) line = CHR ''x'' # pr_hex a @ CHR '' '' # r"
    using drop_tok [of p line "''0''"] assms by simp
  have 1: "line ! (p + 1) = CHR ''x''" "p + 1 < length line" using drop_at [OF d1] by auto
  have "drop (p + 2) line = pr_hex a @ CHR '' '' # r" using drop_tok [of p line "''0x''"] assms by simp
  from parse_hex_tok [OF this] 0 1 show ?thesis by (subst parse_addr.simps) simp
qed

lemma parse_data_type_tok:
  assumes d: "drop p line = CHR ''u'' # pr_dec n @ CHR '' '' # r" and n: "n < 2 ^ 31"
  shows "parse_data_type line p ty =
    Some (ty\<lparr>t_is_signed := False, t_is_float := False, t_size := int n\<rparr>, p + 1 + length (pr_dec n) + 1)"
proof -
  have d1: "drop (p + 1) line = pr_dec n @ CHR '' '' # r" using drop_tok [of p line "''u''"] d by simp
  have p: "line ! p = CHR ''u''" "p + 2 \<le> length line"
    using drop_at [OF d] arg_cong [OF d, of length] by auto
  have t: "takeWhile (\<lambda>c. c \<noteq> CHR '' '') (pr_dec n @ CHR '' '' # r) = pr_dec n"
    using pr_dec_digits digit_is_not(1) by (blast intro: takeWhile_tok)
  have "parse_size (ty\<lparr>t_is_signed := False, t_is_float := False\<rparr>) line (p + 1) =
    Some (ty\<lparr>t_is_signed := False, t_is_float := False, t_size := int n\<rparr>, p + 1 + length (pr_dec n) + 1)"
    using pr_dec_digits [of n] atoi_pr_dec [OF n] by (simp add: parse_size_def d1 [simplified] t is_dec_str_def)
  with p show ?thesis by (simp add: parse_data_type_def Let_def)
qed

subsection \<open>The value\<close>

lemma parse_cfg_value_tok:
  assumes d: "drop p line = pr_dec v @ CHR '' '' # r" and v: "v < 2 ^ 64"
    and ty: "\<not> t_is_float (c_type c)" "\<not> t_is_signed (c_type c)" "t_size (c_type c) = int n" "n \<in> {8, 16, 32, 64}"
  shows "parse_cfg_value line p cfg c =
    Some (c\<lparr>c_check := CHECK_OFF, c_value := put n 0 (of_nat v)\<rparr>, p + length (pr_dec v) + 1)"
proof -
  obtain x xs where x: "pr_dec v = x # xs" using pr_dec_not_Nil(1) [of v] by (cases "pr_dec v") auto
  with pr_dec_digits [of v] have dig: "c_isdigit x" "\<forall>c \<in> set (x # xs). c_isdigit c" by auto
  have len: "length line - p = length (pr_dec v) + 1 + length r" using arg_cong [OF d, of length] by simp
  have p: "line ! p = x" "p + 2 \<le> length line"
    using drop_at [of p line x "xs @ CHR '' '' # r"] d x len by (simp_all add: x)
  have chk: "parse_check False True line p = Some (Check CHECK_OFF p)"
    using p digit_is_not [OF dig(1)] by (simp add: parse_check_def Let_def)
  have t: "takeWhile (\<lambda>c. c \<noteq> CHR '' '') (pr_dec v @ CHR '' '' # r) = pr_dec v"
    using pr_dec_digits digit_is_not(1) by (blast intro: takeWhile_tok)
  have "filter (\<lambda>c. \<not> num_char ty0 neg c) (pr_dec v) = []" for ty0 neg
    using pr_dec_digits [of v] by (auto simp: filter_empty_conv num_char_def)
  then have w: "parse_word (c_type c) True line p = Some (Num 10 (pr_dec v) (p + length (pr_dec v) + 1))"
    using p(2) dec_no_0x by (simp add: parse_word_def d t Let_def)
  have "num_of (c_type c) 10 (pr_dec v) = put n 0 (of_nat v)"
    using ty v strtoul_pr_dec [OF v] by (auto simp: num_of_def Let_def)
  with chk w show ?thesis by (simp add: parse_cfg_value_def)
qed

subsection \<open>The keys\<close>

lemma parse_keys_tok:
  assumes "drop p line = k # CHR '' '' # r" "c_isalnum k"
  shows "parse_key_bindings ci line p keys = Some (bind_key ci k keys, p + 2)"
proof -
  have "k \<noteq> CHR '' ''" "k \<noteq> CHR '',''"
    using assms(2) by (auto simp: c_isalnum_def c_isalpha_def c_isdigit_def c_isupper_def c_islower_def)
  moreover have "line ! p = k" using drop_at [OF assms(1)] by simp
  ultimately show ?thesis using assms by (simp add: parse_key_bindings_def)
qed


subsection \<open>The line of an entry\<close>

definition plain_line :: "string \<Rightarrow> ptr \<Rightarrow> nat \<Rightarrow> nat \<Rightarrow> char \<Rightarrow> char \<Rightarrow> string" where
  "plain_line name a n v key act =
     name @ '' 0x'' @ pr_hex a @ '' u'' @ pr_dec n @ '' '' @ pr_dec v @ '' '' @ [key, CHR '' '', act]"

text \<open>What the line says: a number of \<open>n\<close> bits at \<open>a\<close>, to be set to \<open>v\<close>.\<close>

definition plain_cfg :: "string \<Rightarrow> ptr \<Rightarrow> nat \<Rightarrow> nat \<Rightarrow> cfg_entry \<Rightarrow> cfg_entry" where
  "plain_cfg name a n v c = (fresh_cfg name c)\<lparr>c_addr := a, c_type := no_type\<lparr>t_size := int n\<rparr>, c_ptrtgt := None,
     c_cstr := None, c_check := CHECK_OFF, c_value := of_nat v, c_dynmem := None\<rparr>"

definition plain_step :: "string \<Rightarrow> ptr \<Rightarrow> nat \<Rightarrow> nat \<Rightarrow> char \<Rightarrow> char \<Rightarrow> pstate \<Rightarrow> pstate" where
  "plain_step name a n v key act s =
     (let w = s_w s; ci = length (w_cfg w); c = plain_cfg name a n v (s_cfg s)
      in s\<lparr>s_opt := (s_opt s)\<lparr>o_w := w\<lparr>w_cfg := w_cfg w @ [c\<lparr>c_ptrmem := None\<rparr>],
             w_cfg_act := w_cfg_act w @ (if act = CHR ''a'' then [ci] else []),
             w_cache_list := lower_last a (w_cache_list w)\<rparr>,
           o_keys := bind_key ci key (o_keys (s_opt s))\<rparr>, s_cfg := c\<rparr>)"

lemma put_of_nat:
  assumes "v < 2 ^ n" "n \<in> {8, 16, 32, 64}"
  shows "put n 0 (of_nat v) = of_nat v"
proof -
  have "put n 0 (of_nat v) = take_bit n (of_nat v :: 64 word)" by (simp add: put_def take_bit_eq_mask)
  also have "\<dots> = of_nat (take_bit n v)" by (simp add: take_bit_of_nat)
  finally show ?thesis using assms by (simp add: take_bit_nat_eq_self)
qed

lemma plain_line_parses:
  assumes s: "\<not> s_in_dynmem s" "\<not> s_in_ptrmem s" and nm: "name_ok name" "hd name \<noteq> CHR ''#''" "classify name = None"
    "s_macros s name = None" and n: "n \<in> {8, 16, 32, 64}" and v: "v < 2 ^ n"
    and key: "c_isalnum key" and act: "act \<noteq> CHR ''w''"
  shows "parse_line lnr (plain_line name a n v key act) s = Some (plain_step name a n v key act s)"
proof -
  let ?l = "plain_line name a n v key act" and ?c = "plain_cfg name a n v (s_cfg s)" and ?w = "s_w s"
  let ?p1 = "length name + 1"
  let ?p2 = "?p1 + 2 + length (pr_hex a) + 1"
  let ?p3 = "?p2 + 1 + length (pr_dec n) + 1"
  let ?p4 = "?p3 + length (pr_dec v) + 1"
  let ?r = "''0x'' @ pr_hex a @ CHR '' '' # CHR ''u'' # pr_dec n @ CHR '' '' # pr_dec v @ CHR '' '' # [key, CHR '' '', act]"
  have d0: "drop 0 ?l = name @ CHR '' '' # ?r"
    by (simp add: plain_line_def)
  have d1: "drop ?p1 ?l = ''0x'' @ pr_hex a @ CHR '' '' # CHR ''u'' # pr_dec n @ CHR '' '' #
      pr_dec v @ CHR '' '' # [key, CHR '' '', act]"
    using drop_tok1 [OF d0] by simp
  have d2: "drop ?p2 ?l = CHR ''u'' # pr_dec n @ CHR '' '' # pr_dec v @ CHR '' '' # [key, CHR '' '', act]"
    using drop_tok1 [of ?p1 ?l "''0x'' @ pr_hex a" "CHR '' ''"] d1 by simp
  have d3: "drop ?p3 ?l = pr_dec v @ CHR '' '' # [key, CHR '' '', act]"
    using drop_tok1 [of ?p2 ?l "CHR ''u'' # pr_dec n" "CHR '' ''"] d2 by simp
  have d4: "drop ?p4 ?l = [key, CHR '' '', act]" using drop_tok1 [OF d3] by simp
  have d5: "drop (?p4 + 2) ?l = [act]" using drop_tok [of ?p4 ?l "[key, CHR '' '']"] d4 by simp
  have v64: "v < 2 ^ 64" and n31: "n < 2 ^ 31" using n v by auto
  have first: "?l \<noteq> []" "hd ?l \<noteq> CHR ''#''" using nm by (auto simp: plain_line_def name_ok_def)
  have name: "value_name (s_macros s) ?l 0 = Some (name, NAME_REGULAR, ?l, ?p1)"
    using parse_value_name_tok [where macros = "s_macros s", OF d0 nm(1,3,4)] by simp
  have addr: "parse_addr ACfg False ?w no_type ?l ?p1 =
      Some \<lparr>r_addr = a, r_type = no_type, r_ref = None, r_next = ?p2\<rparr>"
    using parse_addr_tok [OF d1] by simp
  have type: "parse_data_type ?l ?p2 no_type = Some (no_type\<lparr>t_size := int n\<rparr>, ?p3)"
    using parse_data_type_tok [OF d2 n31, of no_type] by (simp add: no_type_def)
  let ?c1 = "(fresh_cfg name (s_cfg s))\<lparr>c_addr := a, c_type := no_type\<lparr>t_size := int n\<rparr>, c_ptrtgt := None, c_cstr := None\<rparr>"
  have val: "parse_cfg_value ?l ?p3 (w_cfg ?w) ?c1 = Some (?c1\<lparr>c_check := CHECK_OFF, c_value := of_nat v\<rparr>, ?p4)"
    using parse_cfg_value_tok [OF d3 v64, of ?c1 n] n put_of_nat [OF v n] by (simp add: no_type_def)
  have keys: "parse_key_bindings ci ?l ?p4 ks = Some (bind_key ci key ks, ?p4 + 2)" for ci ks
    by (rule parse_keys_tok [OF d4 key])
  have at: "vget ?l (?p4 + 2) = Some act" using drop_at [OF d5] by (simp add: vget_def)
  let ?w3 = "?w\<lparr>w_cache_list := lower_last a (w_cache_list ?w), w_cfg := w_cfg ?w @ [?c\<lparr>c_ptrmem := None\<rparr>]\<rparr>"
  have kind: "entry_kind s ?l ?p3 ?c1 ?w = Some (?c1, ?w, ?p3)"
    using n by (auto simp: entry_kind_def no_type_def Let_def)
  have store: "store_entry s ?c ?w = Some ?w3"
    using s by (simp add: store_entry_def plain_cfg_def no_type_def static_owner_def find_cache_start_def Let_def)
  let ?s3 = "(set_w ?w3 s)\<lparr>s_cfg := ?c\<rparr>"
  have "parse_line lnr ?l s = finish_entry ?l ?p4 (length (w_cfg ?w)) ?s3"
  proof -
    have "place_type (outside s) no_type ?w = Some (no_type, ?w)" by (simp add: place_type_def no_type_def)
    moreover have "?c1\<lparr>c_check := CHECK_OFF, c_value := of_nat v, c_dynmem := None\<rparr> = ?c"
      by (simp add: plain_cfg_def)
    ultimately show ?thesis
      using first name addr type kind val s store
      by (simp add: parse_line_def parse_entry_line_def check_that_def fresh_cfg_def no_type_def plain_cfg_def Let_def)
  qed
  also have "\<dots> = Some (plain_step name a n v key act s)"
    using keys at act s
    by (auto simp: finish_entry_def vget_def plain_cfg_def fresh_cfg_def activate_def plain_step_def set_w_def
        upd_opt_def Let_def)
  finally show ?thesis .
qed


subsection \<open>Macros\<close>

text \<open>The first name of a line, where it is one of a macro.\<close>

definition macro_of :: "(string \<rightharpoonup> string) \<Rightarrow> string \<Rightarrow> nat \<Rightarrow> string option" where
  "macro_of macros line p = (case parse_name False line p of
     None \<Rightarrow> None
   | Some (s, next) \<Rightarrow> if classify s = None \<and> macros s \<noteq> None then Some s else None)"

text \<open>When every macro starts with another one of lower rank, if with one at all, the first name is found.\<close>

lemma macros_return:
  assumes rank: "\<And>s l. macros s = Some l \<Longrightarrow> parse_name False l 0 \<noteq> None \<and>
      (\<forall>s'. macro_of macros l 0 = Some s' \<longrightarrow> rank s' < (rank s :: nat))"
    and "parse_name False line p \<noteq> None"
  shows "\<exists>r. parse_value_name macros line p = Some (Some r)"
proof -
  have "\<exists>r. parse_value_name macros line p = Some (Some r)"
    if "parse_name False line p \<noteq> None" "case macro_of macros line p of None \<Rightarrow> True | Some s \<Rightarrow> rank s < n" for n line p
    using that
  proof (induction n arbitrary: line p rule: less_induct)
    case (less n)
    then obtain s q where s: "parse_name False line p = Some (s, q)" by auto
    show ?case
    proof (cases "macro_of macros line p")
      case None
      with s show ?thesis
        by (subst parse_value_name.simps) (auto simp: macro_of_def split: option.splits if_splits)
    next
      case (Some s')
      with s obtain l where l: "classify s = None" "macros s = Some l" "s' = s"
        by (auto simp: macro_of_def split: if_splits)
      with less.prems(2) Some have "rank s < n" by simp
      moreover from rank [OF l(2)] have "parse_name False l 0 \<noteq> None"
        "case macro_of macros l 0 of None \<Rightarrow> True | Some s' \<Rightarrow> rank s' < rank s" by (auto split: option.split)
      ultimately have "\<exists>r. parse_value_name macros l 0 = Some (Some r)" by (rule less.IH)
      with s l show ?thesis by (subst parse_value_name.simps) simp
    qed
  qed
  from this [of line p "case macro_of macros line p of None \<Rightarrow> 0 | Some s \<Rightarrow> Suc (rank s)"] assms(2)
  show ?thesis by (auto split: option.split)
qed

text \<open>A macro that starts with itself is never left.\<close>

lemma macro_loops:
  assumes "macro_of macros line p = Some s" "macros s = Some l" "macro_of macros l 0 = Some s"
  shows "parse_value_name macros line p = None"
proof (rule ccontr)
  assume "parse_value_name macros line p \<noteq> None"
  then obtain r where "parse_value_name macros line p = Some r" by auto
  then have "\<forall>s l. macro_of macros line p = Some s \<longrightarrow> macros s = Some l \<longrightarrow> macro_of macros l 0 \<noteq> Some s"
  proof (rule parse_value_name.raw_induct [where P = "\<lambda>macros line p r.
      \<forall>s l. macro_of macros line p = Some s \<longrightarrow> macros s = Some l \<longrightarrow> macro_of macros l 0 \<noteq> Some s", rotated])
    fix rec and macros :: "string \<rightharpoonup> string" and line p r
    assume IH: "\<And>macros line p r. rec macros line p = Some r \<Longrightarrow>
        \<forall>s l. macro_of macros line p = Some s \<longrightarrow> macros s = Some l \<longrightarrow> macro_of macros l 0 \<noteq> Some s"
      and body: "(case parse_name False line p of None \<Rightarrow> Some None
       | Some (name, next) \<Rightarrow> (case classify name of Some t \<Rightarrow> Some (Some (name, t, line, next))
         | None \<Rightarrow> (case macros name of Some line' \<Rightarrow> rec macros line' 0
           | None \<Rightarrow> Some (Some (name, NAME_REGULAR, line, next))))) = Some r"
    show "\<forall>s l. macro_of macros line p = Some s \<longrightarrow> macros s = Some l \<longrightarrow> macro_of macros l 0 \<noteq> Some s"
    proof (intro allI impI notI)
      fix s l assume m: "macro_of macros line p = Some s" "macros s = Some l" "macro_of macros l 0 = Some s"
      from m(1,2) obtain q where "parse_name False line p = Some (s, q)" "classify s = None"
        by (auto simp: macro_of_def split: option.splits if_splits)
      with body m(2) have "rec macros l 0 = Some r" by simp
      from IH [OF this] m show False by blast
    qed
  qed
  with assms show False by blast
qed

end
