(* ===== verification/Clist.thy ===== *)
theory Clist
  imports Prelude
begin

text \<open>
  The intrusive doubly linked list (\<open>src/src/lib/list.h\<close>). The list heads live in a heap from
  addresses to nodes; \<open>None\<close> is an access to an address without a node. A ring of nodes through a
  head represents the list of the other nodes; every operation is shown to do to that list what it
  says. The \<open>hlist\<close> half of the file is not used by the program and left out.
\<close>

subsection \<open>Nodes\<close>

record list_head =
  n_next :: ptr
  n_prev :: ptr

type_synonym lheap = "ptr \<Rightarrow> list_head option"

definition LIST_POISON1 :: ptr where "LIST_POISON1 = 0x00100100"
definition LIST_POISON2 :: ptr where "LIST_POISON2 = 0x00200200"

definition get_next :: "ptr \<Rightarrow> lheap \<Rightarrow> ptr option" where
  "get_next p h = map_option n_next (h p)"

definition get_prev :: "ptr \<Rightarrow> lheap \<Rightarrow> ptr option" where
  "get_prev p h = map_option n_prev (h p)"

definition set_next :: "ptr \<Rightarrow> ptr \<Rightarrow> lheap \<Rightarrow> lheap option" where
  "set_next p v h = map_option (\<lambda>n. h(p \<mapsto> n\<lparr>n_next := v\<rparr>)) (h p)"

definition set_prev :: "ptr \<Rightarrow> ptr \<Rightarrow> lheap \<Rightarrow> lheap option" where
  "set_prev p v h = map_option (\<lambda>n. h(p \<mapsto> n\<lparr>n_prev := v\<rparr>)) (h p)"

subsection \<open>The operations\<close>

definition INIT_LIST_HEAD :: "ptr \<Rightarrow> lheap \<Rightarrow> lheap option" where
  "INIT_LIST_HEAD l h = set_next l l h \<bind> set_prev l l"

definition list_add_raw :: "ptr \<Rightarrow> ptr \<Rightarrow> ptr \<Rightarrow> lheap \<Rightarrow> lheap option" where
  "list_add_raw elem prev next h =
     set_prev next elem h \<bind> set_next elem next \<bind> set_prev elem prev \<bind> set_next prev elem"

definition clist_add :: "ptr \<Rightarrow> ptr \<Rightarrow> lheap \<Rightarrow> lheap option" where
  "clist_add elem head h = get_next head h \<bind> (\<lambda>next. list_add_raw elem head next h)"

definition clist_add_tail :: "ptr \<Rightarrow> ptr \<Rightarrow> lheap \<Rightarrow> lheap option" where
  "clist_add_tail elem head h = get_prev head h \<bind> (\<lambda>prev. list_add_raw elem prev head h)"

definition list_del_raw :: "ptr \<Rightarrow> ptr \<Rightarrow> lheap \<Rightarrow> lheap option" where
  "list_del_raw prev next h = set_prev next prev h \<bind> set_next prev next"

definition list_del_entry :: "ptr \<Rightarrow> lheap \<Rightarrow> lheap option" where
  "list_del_entry entry h = do {
     prev \<leftarrow> get_prev entry h;
     next \<leftarrow> get_next entry h;
     list_del_raw prev next h }"

definition clist_del :: "ptr \<Rightarrow> lheap \<Rightarrow> lheap option" where
  "clist_del entry h = list_del_entry entry h \<bind> set_next entry LIST_POISON1 \<bind> set_prev entry LIST_POISON2"

definition clist_replace :: "ptr \<Rightarrow> ptr \<Rightarrow> lheap \<Rightarrow> lheap option" where
  "clist_replace old elem h = do {
     next \<leftarrow> get_next old h;
     h \<leftarrow> set_next elem next h;
     h \<leftarrow> set_prev next elem h;
     prev \<leftarrow> get_prev old h;
     h \<leftarrow> set_prev elem prev h;
     set_next prev elem h }"

definition clist_replace_init :: "ptr \<Rightarrow> ptr \<Rightarrow> lheap \<Rightarrow> lheap option" where
  "clist_replace_init old elem h = clist_replace old elem h \<bind> INIT_LIST_HEAD old"

definition clist_del_init :: "ptr \<Rightarrow> lheap \<Rightarrow> lheap option" where
  "clist_del_init entry h = list_del_entry entry h \<bind> INIT_LIST_HEAD entry"

definition clist_move :: "ptr \<Rightarrow> ptr \<Rightarrow> lheap \<Rightarrow> lheap option" where
  "clist_move l head h = list_del_entry l h \<bind> clist_add l head"

definition clist_move_tail :: "ptr \<Rightarrow> ptr \<Rightarrow> lheap \<Rightarrow> lheap option" where
  "clist_move_tail l head h = list_del_entry l h \<bind> clist_add_tail l head"

definition clist_is_last :: "ptr \<Rightarrow> ptr \<Rightarrow> lheap \<Rightarrow> bool option" where
  "clist_is_last l head h = map_option (\<lambda>n. n = head) (get_next l h)"

definition clist_empty :: "ptr \<Rightarrow> lheap \<Rightarrow> bool option" where
  "clist_empty head h = map_option (\<lambda>n. n = head) (get_next head h)"

definition clist_empty_careful :: "ptr \<Rightarrow> lheap \<Rightarrow> bool option" where
  "clist_empty_careful head h = do {
     next \<leftarrow> get_next head h;
     prev \<leftarrow> get_prev head h;
     Some (next = head \<and> next = prev) }"

definition clist_rotate_left :: "ptr \<Rightarrow> lheap \<Rightarrow> lheap option" where
  "clist_rotate_left head h = do {
     e \<leftarrow> clist_empty head h;
     if e then Some h else get_next head h \<bind> (\<lambda>first. clist_move_tail first head h) }"

definition clist_is_singular :: "ptr \<Rightarrow> lheap \<Rightarrow> bool option" where
  "clist_is_singular head h = do {
     e \<leftarrow> clist_empty head h;
     next \<leftarrow> get_next head h;
     prev \<leftarrow> get_prev head h;
     Some (\<not> e \<and> next = prev) }"

definition list_cut_raw :: "ptr \<Rightarrow> ptr \<Rightarrow> ptr \<Rightarrow> lheap \<Rightarrow> lheap option" where
  "list_cut_raw l head entry h = do {
     new_first \<leftarrow> get_next entry h;
     first \<leftarrow> get_next head h;
     h \<leftarrow> set_next l first h;
     h \<leftarrow> set_prev first l h;
     h \<leftarrow> set_prev l entry h;
     h \<leftarrow> set_next entry l h;
     h \<leftarrow> set_next head new_first h;
     set_prev new_first head h }"

definition clist_cut_position :: "ptr \<Rightarrow> ptr \<Rightarrow> ptr \<Rightarrow> lheap \<Rightarrow> lheap option" where
  "clist_cut_position l head entry h = do {
     e \<leftarrow> clist_empty head h;
     if e then Some h
     else do {
       s \<leftarrow> clist_is_singular head h;
       first \<leftarrow> get_next head h;
       if s \<and> first \<noteq> entry \<and> head \<noteq> entry then Some h
       else if entry = head then INIT_LIST_HEAD l h
       else list_cut_raw l head entry h } }"

definition list_splice_raw :: "ptr \<Rightarrow> ptr \<Rightarrow> ptr \<Rightarrow> lheap \<Rightarrow> lheap option" where
  "list_splice_raw l prev next h = do {
     first \<leftarrow> get_next l h;
     last \<leftarrow> get_prev l h;
     h \<leftarrow> set_prev first prev h;
     h \<leftarrow> set_next prev first h;
     h \<leftarrow> set_next last next h;
     set_prev next last h }"

definition clist_splice :: "ptr \<Rightarrow> ptr \<Rightarrow> lheap \<Rightarrow> lheap option" where
  "clist_splice l head h = do {
     e \<leftarrow> clist_empty l h;
     if e then Some h else get_next head h \<bind> (\<lambda>next. list_splice_raw l head next h) }"

definition clist_splice_tail :: "ptr \<Rightarrow> ptr \<Rightarrow> lheap \<Rightarrow> lheap option" where
  "clist_splice_tail l head h = do {
     e \<leftarrow> clist_empty l h;
     if e then Some h else get_prev head h \<bind> (\<lambda>prev. list_splice_raw l prev head h) }"

definition clist_splice_init :: "ptr \<Rightarrow> ptr \<Rightarrow> lheap \<Rightarrow> lheap option" where
  "clist_splice_init l head h = do {
     e \<leftarrow> clist_empty l h;
     if e then Some h
     else get_next head h \<bind> (\<lambda>next. list_splice_raw l head next h) \<bind> INIT_LIST_HEAD l }"

definition clist_splice_tail_init :: "ptr \<Rightarrow> ptr \<Rightarrow> lheap \<Rightarrow> lheap option" where
  "clist_splice_tail_init l head h = do {
     e \<leftarrow> clist_empty l h;
     if e then Some h
     else get_prev head h \<bind> (\<lambda>prev. list_splice_raw l prev head h) \<bind> INIT_LIST_HEAD l }"

text \<open>The loops: the nodes from \<open>pos\<close> on, forwards and backwards; a node is its list entry here.\<close>

partial_function (option) clist_for_each :: "ptr \<Rightarrow> ptr \<Rightarrow> lheap \<Rightarrow> ptr list option" where
  "clist_for_each pos head h =
     (if pos = head then Some []
      else get_next pos h \<bind> (\<lambda>next. clist_for_each next head h \<bind> (\<lambda>r. Some (pos # r))))"

partial_function (option) clist_for_each_prev :: "ptr \<Rightarrow> ptr \<Rightarrow> lheap \<Rightarrow> ptr list option" where
  "clist_for_each_prev pos head h =
     (if pos = head then Some []
      else get_prev pos h \<bind> (\<lambda>prev. clist_for_each_prev prev head h \<bind> (\<lambda>r. Some (pos # r))))"

definition clist_entries :: "ptr \<Rightarrow> lheap \<Rightarrow> ptr list option" where
  "clist_entries head h = get_next head h \<bind> (\<lambda>pos. clist_for_each pos head h)"

definition clist_entries_reverse :: "ptr \<Rightarrow> lheap \<Rightarrow> ptr list option" where
  "clist_entries_reverse head h = get_prev head h \<bind> (\<lambda>pos. clist_for_each_prev pos head h)"

definition clist_last_entry :: "ptr \<Rightarrow> lheap \<Rightarrow> ptr option" where
  "clist_last_entry head h = get_prev head h"

text \<open>\<open>rlist_clear\<close>: every node is removed and freed, the next one has been read before.\<close>

partial_function (option) clear_from :: "ptr \<Rightarrow> ptr \<Rightarrow> ptr \<Rightarrow> lheap \<Rightarrow> lheap option" where
  "clear_from pos n head h =
     (if pos = head then Some h
      else clist_del pos h \<bind> (\<lambda>h1. get_next n (h1(pos := None)) \<bind> (\<lambda>n'.
        clear_from n n' head (h1(pos := None)))))"

definition rlist_clear :: "ptr \<Rightarrow> lheap \<Rightarrow> lheap option" where
  "rlist_clear head h = do {
     pos \<leftarrow> get_next head h;
     n \<leftarrow> get_next pos h;
     clear_from pos n head h }"

declare clist_for_each.simps [code] clist_for_each_prev.simps [code] clear_from.simps [code]

subsection \<open>Reading and writing\<close>

abbreviation nx :: "lheap \<Rightarrow> ptr \<Rightarrow> ptr option" where "nx h \<equiv> \<lambda>p. get_next p h"
abbreviation pv :: "lheap \<Rightarrow> ptr \<Rightarrow> ptr option" where "pv h \<equiv> \<lambda>p. get_prev p h"

lemma set_next_ok:
  assumes "p \<in> dom h"
  obtains h' where "set_next p v h = Some h'" "nx h' = (nx h)(p \<mapsto> v)" "pv h' = pv h" "dom h' = dom h"
    "\<And>q. q \<noteq> p \<Longrightarrow> h' q = h q"
proof -
  from assms obtain n where "h p = Some n" by auto
  then show ?thesis
    by (intro that [of "h(p \<mapsto> n\<lparr>n_next := v\<rparr>)"]) (auto simp: set_next_def get_next_def get_prev_def fun_eq_iff)
qed

lemma set_prev_ok:
  assumes "p \<in> dom h"
  obtains h' where "set_prev p v h = Some h'" "nx h' = nx h" "pv h' = (pv h)(p \<mapsto> v)" "dom h' = dom h"
    "\<And>q. q \<noteq> p \<Longrightarrow> h' q = h q"
proof -
  from assms obtain n where "h p = Some n" by auto
  then show ?thesis
    by (intro that [of "h(p \<mapsto> n\<lparr>n_prev := v\<rparr>)"]) (auto simp: set_prev_def get_next_def get_prev_def fun_eq_iff)
qed

text \<open>The result of a sequence of writes, by what is read afterwards.\<close>

definition writes :: "(ptr \<Rightarrow> ptr option) \<Rightarrow> (ptr \<Rightarrow> ptr option) \<Rightarrow> ptr set \<Rightarrow> lheap \<Rightarrow> lheap option \<Rightarrow> bool" where
  "writes ns ps A h r \<longleftrightarrow> (\<exists>h'. r = Some h' \<and> nx h' = ns \<and> pv h' = ps \<and> dom h' = dom h \<and> (\<forall>q. q \<notin> A \<longrightarrow> h' q = h q))"

lemma writes_Some: "writes (nx h) (pv h) {} h (Some h)"
  by (simp add: writes_def)

lemma writes_next:
  assumes "writes ns ps A h r" "p \<in> dom h"
  shows "writes (ns(p \<mapsto> v)) ps (insert p A) h (r \<bind> set_next p v)"
proof -
  from assms(1) obtain h1 where h1: "r = Some h1" "nx h1 = ns" "pv h1 = ps" "dom h1 = dom h" "\<forall>q. q \<notin> A \<longrightarrow> h1 q = h q"
    by (auto simp: writes_def)
  with assms(2) have "p \<in> dom h1" by simp
  then show ?thesis by (rule set_next_ok [of p h1 v]) (use h1 in \<open>auto simp: writes_def\<close>)
qed

lemma writes_prev:
  assumes "writes ns ps A h r" "p \<in> dom h"
  shows "writes ns (ps(p \<mapsto> v)) (insert p A) h (r \<bind> set_prev p v)"
proof -
  from assms(1) obtain h1 where h1: "r = Some h1" "nx h1 = ns" "pv h1 = ps" "dom h1 = dom h" "\<forall>q. q \<notin> A \<longrightarrow> h1 q = h q"
    by (auto simp: writes_def)
  with assms(2) have "p \<in> dom h1" by simp
  then show ?thesis by (rule set_prev_ok [of p h1 v]) (use h1 in \<open>auto simp: writes_def\<close>)
qed


subsection \<open>Chains\<close>

fun linked :: "(ptr \<Rightarrow> ptr option) \<Rightarrow> (ptr \<Rightarrow> ptr option) \<Rightarrow> ptr list \<Rightarrow> bool" where
  "linked n p (x # y # r) = (n x = Some y \<and> p y = Some x \<and> linked n p (y # r))"
| "linked n p r = True"

lemma linked_append:
  "L1 \<noteq> [] \<Longrightarrow> L2 \<noteq> [] \<Longrightarrow> linked n p (L1 @ L2) \<longleftrightarrow>
     linked n p L1 \<and> n (List.last L1) = Some (hd L2) \<and> p (hd L2) = Some (List.last L1) \<and> linked n p L2"
  by (induction n p L1 rule: linked.induct; cases L2) auto

lemma linked_next_upd: "x \<notin> set (butlast L) \<Longrightarrow> linked (n(x := v)) p L = linked n p L"
  by (induction n p L rule: linked.induct) auto

lemma linked_prev_upd: "x \<notin> set (tl L) \<Longrightarrow> linked n (p(x := v)) L = linked n p L"
  by (induction n p L rule: linked.induct) auto

lemma linked_cong: "(\<And>x. x \<in> set L \<Longrightarrow> n' x = n x \<and> p' x = p x) \<Longrightarrow> linked n' p' L = linked n p L"
  by (induction n p L rule: linked.induct) auto

lemma linked_join:
  assumes "linked n p L1" "linked n p L2" "L1 \<noteq> []" "L2 \<noteq> []"
    "List.last L1 \<notin> set (butlast L1) \<union> set (butlast L2)" "hd L2 \<notin> set (tl L1) \<union> set (tl L2)"
  shows "linked (n(List.last L1 \<mapsto> hd L2)) (p(hd L2 \<mapsto> List.last L1)) (L1 @ L2)"
  using assms by (simp add: linked_append linked_next_upd linked_prev_upd)

text \<open>The head \<open>hd\<close> with its list; and what an operation may touch.\<close>

definition ring :: "lheap \<Rightarrow> ptr \<Rightarrow> ptr list \<Rightarrow> bool" where
  "ring h head xs \<longleftrightarrow> distinct (head # xs) \<and> linked (nx h) (pv h) (head # xs @ [head])"

definition frame :: "ptr set \<Rightarrow> lheap \<Rightarrow> lheap \<Rightarrow> bool" where
  "frame A h h' \<longleftrightarrow> dom h' = dom h \<and> (\<forall>q. q \<notin> A \<longrightarrow> h' q = h q)"

lemma frame_mono: "frame A h h' \<Longrightarrow> A \<subseteq> B \<Longrightarrow> frame B h h'"
  by (auto simp: frame_def)

lemma frame_trans: "frame A h h' \<Longrightarrow> frame A h' h'' \<Longrightarrow> frame A h h''"
  by (auto simp: frame_def)

lemma frame_ring:
  assumes "frame A h h'" "ring h g zs" "set (g # zs) \<inter> A = {}"
  shows "ring h' g zs"
proof -
  have "nx h' x = nx h x \<and> pv h' x = pv h x" if "x \<in> set (g # zs @ [g])" for x
    using assms(1,3) that by (auto simp: frame_def get_next_def get_prev_def)
  from linked_cong [of "g # zs @ [g]" "nx h'" "nx h" "pv h'" "pv h", OF this] assms(2) show ?thesis
    by (simp add: ring_def)
qed

lemma writes_ring:
  assumes "writes ns ps A h r" "distinct (head # xs)" "linked ns ps (head # xs @ [head])" "A \<subseteq> B"
  shows "\<exists>h'. r = Some h' \<and> ring h' head xs \<and> frame B h h'"
proof -
  from assms(1) obtain h' where h': "r = Some h'" "nx h' = ns" "pv h' = ps" "dom h' = dom h" "\<forall>q. q \<notin> A \<longrightarrow> h' q = h q"
    unfolding writes_def by blast
  then have "frame A h h'" unfolding frame_def by blast
  with frame_mono [OF _ assms(4)] h' assms(2,3) show ?thesis by (auto simp: ring_def)
qed

text \<open>A ring cut at a place: the nodes up to there and those behind it.\<close>

lemma ring_cut:
  assumes "ring h head (ys @ zs)"
  shows "linked (nx h) (pv h) (head # ys)" "linked (nx h) (pv h) (zs @ [head])"
    "nx h (List.last (head # ys)) = Some (hd (zs @ [head]))" "pv h (hd (zs @ [head])) = Some (List.last (head # ys))"
  using assms linked_append [of "head # ys" "zs @ [head]" "nx h" "pv h"] by (simp_all add: ring_def)

lemma ring_dom:
  assumes "ring h head xs" "x \<in> set (head # xs)"
  shows "x \<in> dom h"
proof -
  have "linked n p L \<Longrightarrow> x \<in> set (butlast L) \<Longrightarrow> n x \<noteq> None" for n p L
    by (induction n p L rule: linked.induct) (auto split: if_splits)
  from this [of "nx h" "pv h" "head # xs @ [head]"] assms have "nx h x \<noteq> None"
    by (auto simp: ring_def butlast_append)
  then show ?thesis by (auto simp: get_next_def)
qed

lemma cut_places:
  assumes "distinct (head # ys @ zs)"
  shows "List.last (head # ys) \<notin> set (butlast (head # ys)) \<union> set (butlast (zs @ [head]))"
    "hd (zs @ [head]) \<notin> set (tl (head # ys)) \<union> set (tl (zs @ [head]))"
    "List.last (head # ys) \<in> set (head # ys)" "hd (zs @ [head]) \<in> set (head # zs)"
proof -
  have "List.last (head # ys) \<notin> set (butlast (head # ys))"
    using assms by (metis append_butlast_last_id distinct_append distinct_butlast list.distinct(1)
        not_distinct_conv_prefix append.assoc append_Cons)
  moreover have "List.last (head # ys) \<notin> set zs" using assms by (cases ys rule: rev_cases) auto
  ultimately show "List.last (head # ys) \<notin> set (butlast (head # ys)) \<union> set (butlast (zs @ [head]))" by simp
  show "hd (zs @ [head]) \<notin> set (tl (head # ys)) \<union> set (tl (zs @ [head]))" using assms by (cases zs) auto
  show "List.last (head # ys) \<in> set (head # ys)" by (rule last_in_set) simp
  show "hd (zs @ [head]) \<in> set (head # zs)" by (cases zs) auto
qed


subsection \<open>What the operations do\<close>

lemma INIT_LIST_HEAD_ring:
  assumes "l \<in> dom h"
  shows "\<exists>h'. INIT_LIST_HEAD l h = Some h' \<and> ring h' l [] \<and> frame {l} h h'"
proof -
  have "writes ((nx h)(l \<mapsto> l)) ((pv h)(l \<mapsto> l)) {l} h (INIT_LIST_HEAD l h)"
    using writes_prev [OF writes_next [OF writes_Some assms, of l] assms, of l] by (simp add: INIT_LIST_HEAD_def)
  from writes_ring [OF this, of l "[]"] show ?thesis by simp
qed

lemma list_add_raw_writes:
  assumes "elem \<in> dom h" "prev \<in> dom h" "next \<in> dom h"
  shows "writes ((nx h)(elem \<mapsto> next, prev \<mapsto> elem)) ((pv h)(next \<mapsto> elem, elem \<mapsto> prev)) {elem, prev, next} h
    (list_add_raw elem prev next h)"
  using writes_next [OF writes_prev [OF writes_next [OF writes_prev [OF writes_Some assms(3), of elem] assms(1), of "next"]
      assms(1), of prev] assms(2), of elem]
  by (simp add: list_add_raw_def insert_commute)

lemma list_add_raw_ring:
  assumes r: "ring h head (ys @ zs)" and e: "elem \<in> dom h" "elem \<notin> set (head # ys @ zs)"
  shows "\<exists>h'. list_add_raw elem (List.last (head # ys)) (hd (zs @ [head])) h = Some h' \<and>
    ring h' head (ys @ elem # zs) \<and> frame (insert elem (set (head # ys @ zs))) h h'"
proof -
  let ?p = "List.last (head # ys)" and ?n = "hd (zs @ [head])"
  have d: "distinct (head # ys @ zs)" using r by (simp add: ring_def)
  note c = cut_places [OF d] and cut = ring_cut [OF r]
  have dom: "?p \<in> dom h" "?n \<in> dom h" using ring_dom [OF r] c(3,4) by auto
  have ne: "?p \<noteq> elem" "?n \<noteq> elem" using c(3,4) e(2) by auto
  have j1: "linked ((nx h)(elem \<mapsto> ?n)) ((pv h)(?n \<mapsto> elem)) ([elem] @ zs @ [head])"
    using linked_join [of "nx h" "pv h" "[elem]" "zs @ [head]"] cut(2) c(2) e(2) ne by (auto simp: butlast_append)
  have "linked ((nx h)(elem \<mapsto> ?n)) ((pv h)(?n \<mapsto> elem)) (head # ys)"
    using cut(1) c(2) e(2) by (subst linked_next_upd, fastforce dest: in_set_butlastD) (subst linked_prev_upd, auto)
  from linked_join [OF this j1] have
    "linked ((nx h)(elem \<mapsto> ?n, ?p \<mapsto> elem)) ((pv h)(?n \<mapsto> elem, elem \<mapsto> ?p)) (head # (ys @ elem # zs) @ [head])"
    using c(1,2) e(2) ne by (auto simp: butlast_append)
  from writes_ring [OF list_add_raw_writes [OF e(1) dom] _ this, of "insert elem (set (head # ys @ zs))"] d e(2) c(3,4)
  show ?thesis by auto
qed

lemma clist_add_ring:
  assumes "ring h head xs" "elem \<in> dom h" "elem \<notin> set (head # xs)"
  shows "\<exists>h'. clist_add elem head h = Some h' \<and> ring h' head (elem # xs) \<and> frame (insert elem (set (head # xs))) h h'"
  using list_add_raw_ring [of h head "[]" xs elem] ring_cut(3) [of h head "[]" xs] assms
  by (simp add: clist_add_def)

lemma clist_add_tail_ring:
  assumes "ring h head xs" "elem \<in> dom h" "elem \<notin> set (head # xs)"
  shows "\<exists>h'. clist_add_tail elem head h = Some h' \<and> ring h' head (xs @ [elem]) \<and> frame (insert elem (set (head # xs))) h h'"
  using list_add_raw_ring [of h head xs "[]" elem] ring_cut(4) [of h head xs "[]"] assms
  by (simp add: clist_add_tail_def)

lemma list_del_raw_writes:
  assumes "prev \<in> dom h" "next \<in> dom h"
  shows "writes ((nx h)(prev \<mapsto> next)) ((pv h)(next \<mapsto> prev)) {prev, next} h (list_del_raw prev next h)"
  using writes_next [OF writes_prev [OF writes_Some assms(2), of prev] assms(1), of "next"]
  by (simp add: list_del_raw_def)

text \<open>The nodes around an element.\<close>

lemma ring_around:
  assumes r: "ring h head (ys @ e # zs)"
  shows "nx h e = Some (hd (zs @ [head]))" "pv h e = Some (List.last (head # ys))"
    "linked (nx h) (pv h) (head # ys)" "linked (nx h) (pv h) (zs @ [head])"
  using ring_cut [of h head "ys @ [e]" zs] ring_cut [of h head ys "e # zs"] r by simp_all

lemma list_del_entry_ring:
  assumes r: "ring h head (ys @ e # zs)"
  shows "\<exists>h'. list_del_entry e h = Some h' \<and> ring h' head (ys @ zs) \<and> frame (set (head # ys @ zs)) h h'"
proof -
  let ?p = "List.last (head # ys)" and ?n = "hd (zs @ [head])"
  note a = ring_around [OF r]
  have d: "distinct (head # ys @ zs)" using r by (simp add: ring_def)
  note c = cut_places [OF d]
  have dom: "?p \<in> dom h" "?n \<in> dom h" using ring_dom [OF r] c(3,4) by auto
  have "linked ((nx h)(?p \<mapsto> ?n)) ((pv h)(?n \<mapsto> ?p)) ((head # ys) @ zs @ [head])"
    by (rule linked_join [OF a(3,4) _ _ c(1,2)]) simp_all
  from writes_ring [OF list_del_raw_writes [OF dom] d _, of "set (head # ys @ zs)"] this c(3,4)
  have "\<exists>h'. list_del_raw ?p ?n h = Some h' \<and> ring h' head (ys @ zs) \<and> frame (set (head # ys @ zs)) h h'" by auto
  with a(1,2) show ?thesis by (simp add: list_del_entry_def)
qed

lemma set_ends_frame:
  assumes "e \<in> dom h"
  shows "\<exists>h'. (set_next e a h \<bind> set_prev e b) = Some h' \<and> frame {e} h h'"
  using writes_prev [OF writes_next [OF writes_Some assms, of a] assms, of b] by (auto simp: writes_def frame_def)

lemma clist_del_ring:
  assumes r: "ring h head (ys @ e # zs)"
  shows "\<exists>h'. clist_del e h = Some h' \<and> ring h' head (ys @ zs) \<and> frame (set (head # ys @ e # zs)) h h'"
proof -
  from list_del_entry_ring [OF r] obtain h1 where h1: "list_del_entry e h = Some h1" "ring h1 head (ys @ zs)"
    "frame (set (head # ys @ zs)) h h1" by blast
  from ring_dom [OF r, of e] h1(3) have "e \<in> dom h1" by (simp add: frame_def)
  from set_ends_frame [OF this] obtain h' where h': "(set_next e LIST_POISON1 h1 \<bind> set_prev e LIST_POISON2) = Some h'"
    "frame {e} h1 h'" by blast
  have "ring h' head (ys @ zs)" by (rule frame_ring [OF h'(2) h1(2)]) (use r in \<open>auto simp: ring_def\<close>)
  moreover have "frame (set (head # ys @ e # zs)) h h'"
    by (rule frame_trans [OF frame_mono [OF h1(3)] frame_mono [OF h'(2)]]) auto
  ultimately show ?thesis using h1(1) h'(1) by (simp add: clist_del_def)
qed

lemma clist_del_init_ring:
  assumes r: "ring h head (ys @ e # zs)"
  shows "\<exists>h'. clist_del_init e h = Some h' \<and> ring h' head (ys @ zs) \<and> ring h' e [] \<and> frame (set (head # ys @ e # zs)) h h'"
proof -
  from list_del_entry_ring [OF r] obtain h1 where h1: "list_del_entry e h = Some h1" "ring h1 head (ys @ zs)"
    "frame (set (head # ys @ zs)) h h1" by blast
  from ring_dom [OF r, of e] h1(3) have "e \<in> dom h1" by (simp add: frame_def)
  from INIT_LIST_HEAD_ring [OF this] obtain h' where h': "INIT_LIST_HEAD e h1 = Some h'" "ring h' e []" "frame {e} h1 h'"
    by blast
  have "ring h' head (ys @ zs)" by (rule frame_ring [OF h'(3) h1(2)]) (use r in \<open>auto simp: ring_def\<close>)
  moreover have "frame (set (head # ys @ e # zs)) h h'"
    by (rule frame_trans [OF frame_mono [OF h1(3)] frame_mono [OF h'(3)]]) auto
  ultimately show ?thesis using h1(1) h' by (simp add: clist_del_init_def)
qed


text \<open>Replacing, moving and rotating.\<close>

lemma clist_replace_writes:
  assumes old: "nx h old = Some n" "pv h old = Some p" and dom: "elem \<in> dom h" "n \<in> dom h" "p \<in> dom h"
    and ne: "elem \<noteq> old" "n \<noteq> old"
  shows "writes ((nx h)(elem \<mapsto> n, p \<mapsto> elem)) ((pv h)(n \<mapsto> elem, elem \<mapsto> p)) {elem, p, n} h (clist_replace old elem h)"
proof -
  have w: "writes ((nx h)(elem \<mapsto> n)) ((pv h)(n \<mapsto> elem)) {n, elem} h (set_next elem n h \<bind> set_prev n elem)"
    using writes_prev [OF writes_next [OF writes_Some dom(1), of n] dom(2), of elem] by simp
  then obtain h2 where h2: "(set_next elem n h \<bind> set_prev n elem) = Some h2" "pv h2 = (pv h)(n \<mapsto> elem)"
    by (auto simp: writes_def)
  from h2(2) ne old have "get_prev old h2 = Some p" by (metis fun_upd_other)
  moreover from h2(1) obtain h1 where "set_next elem n h = Some h1" "set_prev n elem h1 = Some h2"
    by (auto simp: bind_eq_Some_conv)
  ultimately have "clist_replace old elem h = (set_prev elem p h2 \<bind> set_next p elem)"
    using old(1) by (simp add: clist_replace_def)
  also have "\<dots> = (set_next elem n h \<bind> set_prev n elem \<bind> set_prev elem p \<bind> set_next p elem)" using h2(1) by simp
  finally show ?thesis
    using writes_next [OF writes_prev [OF w dom(1), of p] dom(3), of elem] by (simp add: insert_commute)
qed

lemma clist_replace_ring:
  assumes r: "ring h head (ys @ old # zs)" and e: "elem \<in> dom h" "elem \<notin> set (head # ys @ old # zs)"
  shows "\<exists>h'. clist_replace old elem h = Some h' \<and> ring h' head (ys @ elem # zs) \<and>
    frame (insert elem (set (head # ys @ zs))) h h'"
proof -
  let ?p = "List.last (head # ys)" and ?n = "hd (zs @ [head])"
  note a = ring_around [OF r]
  have d: "distinct (head # ys @ zs)" using r by (simp add: ring_def)
  note c = cut_places [OF d]
  have dom: "?p \<in> dom h" "?n \<in> dom h" using ring_dom [OF r] c(3,4) by auto
  have ne: "?p \<noteq> elem" "?n \<noteq> elem" "elem \<noteq> old" "?n \<noteq> old" using c(3,4) e(2) r by (auto simp: ring_def)
  have j1: "linked ((nx h)(elem \<mapsto> ?n)) ((pv h)(?n \<mapsto> elem)) ([elem] @ zs @ [head])"
    using linked_join [of "nx h" "pv h" "[elem]" "zs @ [head]"] a(4) c(2) e(2) ne by (auto simp: butlast_append)
  have "linked ((nx h)(elem \<mapsto> ?n)) ((pv h)(?n \<mapsto> elem)) (head # ys)"
    using a(3) c(2) e(2) by (subst linked_next_upd, fastforce dest: in_set_butlastD) (subst linked_prev_upd, auto)
  from linked_join [OF this j1] have
    "linked ((nx h)(elem \<mapsto> ?n, ?p \<mapsto> elem)) ((pv h)(?n \<mapsto> elem, elem \<mapsto> ?p)) (head # (ys @ elem # zs) @ [head])"
    using c(1,2) e(2) ne by (auto simp: butlast_append)
  from writes_ring [OF clist_replace_writes [OF a(1,2) e(1) dom(2,1) ne(3,4)] _ this, of "insert elem (set (head # ys @ zs))"]
    d e(2) c(3,4) show ?thesis by auto
qed

lemma clist_move_ring:
  assumes r: "ring h head (ys @ e # zs)"
  shows "\<exists>h'. clist_move e head h = Some h' \<and> ring h' head (e # ys @ zs) \<and> frame (set (head # ys @ e # zs)) h h'"
    "\<exists>h'. clist_move_tail e head h = Some h' \<and> ring h' head (ys @ zs @ [e]) \<and> frame (set (head # ys @ e # zs)) h h'"
proof -
  from list_del_entry_ring [OF r] obtain h1 where h1: "list_del_entry e h = Some h1" "ring h1 head (ys @ zs)"
    "frame (set (head # ys @ zs)) h h1" by blast
  have e: "e \<in> dom h1" "e \<notin> set (head # ys @ zs)"
    using ring_dom [OF r, of e] h1(3) r by (auto simp: frame_def ring_def)
  have fr: "frame (set (head # ys @ e # zs)) h h'" if "frame (insert e (set (head # ys @ zs))) h1 h'" for h'
    by (rule frame_trans [OF frame_mono [OF h1(3)] frame_mono [OF that]]) auto
  from clist_add_ring [OF h1(2) e] h1(1) fr
  show "\<exists>h'. clist_move e head h = Some h' \<and> ring h' head (e # ys @ zs) \<and> frame (set (head # ys @ e # zs)) h h'"
    by (auto simp: clist_move_def)
  from clist_add_tail_ring [OF h1(2) e] h1(1) fr
  show "\<exists>h'. clist_move_tail e head h = Some h' \<and> ring h' head (ys @ zs @ [e]) \<and> frame (set (head # ys @ e # zs)) h h'"
    by (auto simp: clist_move_tail_def)
qed

lemma clist_empty_ring: "ring h head xs \<Longrightarrow> clist_empty head h = Some (xs = [])"
  using ring_cut(3) [of h head "[]" xs] by (cases xs) (auto simp: clist_empty_def ring_def)

lemma clist_is_last_ring: "ring h head (ys @ e # zs) \<Longrightarrow> clist_is_last e head h = Some (zs = [])"
  using ring_around(1) [of h head ys e zs] by (cases zs) (auto simp: clist_is_last_def ring_def)

lemma clist_singular_ring: "ring h head xs \<Longrightarrow> clist_is_singular head h = Some (length xs = 1)"
proof -
  assume r: "ring h head xs"
  note n = ring_cut(3) [of h head "[]" xs] and p = ring_cut(4) [of h head xs "[]"]
  have "hd (xs @ [head]) = List.last (head # xs) \<and> xs \<noteq> [] \<longleftrightarrow> length xs = 1"
    using r by (cases xs rule: remdups_adj.cases) (auto simp: ring_def dest!: last_in_set split: if_splits)
  with r n p clist_empty_ring [OF r] show ?thesis by (auto simp: clist_is_singular_def)
qed

lemma clist_rotate_left_ring:
  assumes r: "ring h head xs"
  shows "\<exists>h'. clist_rotate_left head h = Some h' \<and> ring h' head (rotate1 xs) \<and> frame (set (head # xs)) h h'"
proof (cases xs)
  case Nil
  with r clist_empty_ring [OF r] show ?thesis by (simp add: clist_rotate_left_def frame_def)
next
  case (Cons x xs')
  with r have r': "ring h head ([] @ x # xs')" by simp
  from clist_move_ring(2) [OF r'] clist_empty_ring [OF r] ring_cut(3) [of h head "[]" xs] r Cons show ?thesis
    by (auto simp: clist_rotate_left_def)
qed


text \<open>Joining two rings and cutting one.\<close>

lemma list_splice_raw_writes:
  assumes l: "nx h l = Some f" "pv h l = Some b" and dom: "f \<in> dom h" "b \<in> dom h" "prev \<in> dom h" "next \<in> dom h"
  shows "writes ((nx h)(prev \<mapsto> f, b \<mapsto> next)) ((pv h)(f \<mapsto> prev, next \<mapsto> b)) {f, b, prev, next} h
    (list_splice_raw l prev next h)"
  using l writes_prev [OF writes_next [OF writes_next [OF writes_prev [OF writes_Some dom(1), of prev] dom(3), of f]
      dom(2), of "next"] dom(4), of b]
  by (simp add: list_splice_raw_def insert_commute)

lemma list_splice_raw_ring:
  assumes r: "ring h head (ys @ zs)" and m: "ring h l ms" "ms \<noteq> []" and dis: "set (l # ms) \<inter> set (head # ys @ zs) = {}"
  shows "\<exists>h'. list_splice_raw l (List.last (head # ys)) (hd (zs @ [head])) h = Some h' \<and>
    ring h' head (ys @ ms @ zs) \<and> frame (set (ms @ head # ys @ zs)) h h'"
proof -
  let ?p = "List.last (head # ys)" and ?n = "hd (zs @ [head])" and ?f = "hd ms" and ?b = "List.last ms"
  have d: "distinct (head # ys @ zs)" using r by (simp add: ring_def)
  note c = cut_places [OF d] and cut = ring_cut [OF r]
  have ends: "nx h l = Some ?f" "pv h l = Some ?b"
    using ring_cut(3) [of h l "[]" ms] ring_cut(4) [of h l ms "[]"] m by (auto split: if_splits)
  have "linked (nx h) (pv h) ([l] @ ms @ [l])" using m(1) by (simp add: ring_def)
  then have lm: "linked (nx h) (pv h) ms"
    using m(2) linked_append [of "[l]" "ms @ [l]" "nx h" "pv h"] linked_append [of ms "[l]" "nx h" "pv h"] by simp
  have fb: "?f \<in> set ms" "?b \<in> set ms" using m(2) by auto
  have dom: "?f \<in> dom h" "?b \<in> dom h" "?p \<in> dom h" "?n \<in> dom h"
    using ring_dom [OF r] ring_dom [OF m(1)] c(3,4) fb by auto
  have dm: "distinct ms" using m(1) by (simp add: ring_def)
  have fb_off: "?f \<notin> set (head # ys @ zs)" "?b \<notin> set (head # ys @ zs)" using fb dis by auto
  have pn_off: "?p \<notin> set ms" "?n \<notin> set ms" using c(3,4) dis by auto
  have fb_in: "?b \<notin> set (butlast ms)" "?f \<notin> set (tl ms)"
    using dm m(2) by (metis distinct_butlast last_in_set append_butlast_last_id not_distinct_conv_prefix)
      (use dm m(2) in \<open>cases ms; simp\<close>)
  have 1: "linked ((nx h)(?p \<mapsto> ?f)) ((pv h)(?f \<mapsto> ?p)) ((head # ys) @ ms)"
    by (rule linked_join [OF cut(1) lm _ m(2)])
      (use c(1) fb_off fb_in pn_off in \<open>auto dest: in_set_butlastD\<close>)
  have 2: "linked ((nx h)(?p \<mapsto> ?f)) ((pv h)(?f \<mapsto> ?p)) (zs @ [head])"
    using cut(2) c(1) fb_off by (subst linked_next_upd, simp) (subst linked_prev_upd, cases zs, auto)
  have last: "List.last ((head # ys) @ ms) = ?b" using m(2) by simp
  have "linked ((nx h)(?p \<mapsto> ?f, ?b \<mapsto> ?n)) ((pv h)(?f \<mapsto> ?p, ?n \<mapsto> ?b)) (((head # ys) @ ms) @ zs @ [head])"
    unfolding last [symmetric]
    by (rule linked_join [OF 1 2]) (use c(2) fb_off fb_in pn_off m(2) last in \<open>auto simp: butlast_append\<close>)
  then have "linked ((nx h)(?p \<mapsto> ?f, ?b \<mapsto> ?n)) ((pv h)(?f \<mapsto> ?p, ?n \<mapsto> ?b)) (head # (ys @ ms @ zs) @ [head])" by simp
  moreover have "distinct (head # ys @ ms @ zs)" using d dm dis by auto
  moreover have "{?f, ?b, ?p, ?n} \<subseteq> set (ms @ head # ys @ zs)" using fb c(3,4) by auto
  ultimately show ?thesis by (intro writes_ring [OF list_splice_raw_writes [OF ends dom]])
qed

lemma clist_splice_ring:
  assumes r: "ring h head xs" and m: "ring h l ms" and dis: "set (l # ms) \<inter> set (head # xs) = {}"
  shows "\<exists>h'. clist_splice l head h = Some h' \<and> ring h' head (ms @ xs) \<and> frame (set (ms @ head # xs)) h h'"
    "\<exists>h'. clist_splice_tail l head h = Some h' \<and> ring h' head (xs @ ms) \<and> frame (set (ms @ head # xs)) h h'"
  using list_splice_raw_ring [of h head "[]" xs l ms] list_splice_raw_ring [of h head xs "[]" l ms]
    clist_empty_ring [OF m] ring_cut(3) [of h head "[]" xs] ring_cut(4) [of h head xs "[]"] assms
  by (cases "ms = []"; auto simp: clist_splice_def clist_splice_tail_def frame_def)+

lemma splice_init:
  assumes s: "r = Some h1" "ring h1 head zs" "frame A h h1" and l: "l \<in> dom h" "l \<notin> set (head # zs)"
  shows "\<exists>h'. (r \<bind> INIT_LIST_HEAD l) = Some h' \<and> ring h' head zs \<and> ring h' l [] \<and> frame (insert l A) h h'"
proof -
  have "l \<in> dom h1" using s(3) l(1) by (simp add: frame_def)
  from INIT_LIST_HEAD_ring [OF this] obtain h' where h': "INIT_LIST_HEAD l h1 = Some h'" "ring h' l []" "frame {l} h1 h'"
    by blast
  have "ring h' head zs" by (rule frame_ring [OF h'(3) s(2)]) (use l in auto)
  moreover have "frame (insert l A) h h'"
    by (rule frame_trans [OF frame_mono [OF s(3)] frame_mono [OF h'(3)]]) auto
  ultimately show ?thesis using s(1) h' by simp
qed

lemma clist_splice_init_ring:
  assumes r: "ring h head xs" and m: "ring h l ms" and dis: "set (l # ms) \<inter> set (head # xs) = {}"
  shows "\<exists>h'. clist_splice_init l head h = Some h' \<and> ring h' head (ms @ xs) \<and> ring h' l []"
    "\<exists>h'. clist_splice_tail_init l head h = Some h' \<and> ring h' head (xs @ ms) \<and> ring h' l []"
proof -
  note e = clist_empty_ring [OF m]
  have l: "l \<in> dom h" "l \<notin> set (head # ms @ xs)" "l \<notin> set (head # xs @ ms)"
    using ring_dom [OF m, of l] m dis by (auto simp: ring_def)
  show "\<exists>h'. clist_splice_init l head h = Some h' \<and> ring h' head (ms @ xs) \<and> ring h' l []"
  proof (cases "ms = []")
    case False
    from clist_splice_ring(1) [OF r m dis] obtain h1 where h1: "clist_splice l head h = Some h1" "ring h1 head (ms @ xs)"
      "frame (set (ms @ head # xs)) h h1" by blast
    from splice_init [OF h1 l(1,2)] e False show ?thesis by (auto simp: clist_splice_init_def clist_splice_def)
  qed (use r m e in \<open>simp add: clist_splice_init_def\<close>)
  show "\<exists>h'. clist_splice_tail_init l head h = Some h' \<and> ring h' head (xs @ ms) \<and> ring h' l []"
  proof (cases "ms = []")
    case False
    from clist_splice_ring(2) [OF r m dis] obtain h1 where h1: "clist_splice_tail l head h = Some h1" "ring h1 head (xs @ ms)"
      "frame (set (ms @ head # xs)) h h1" by blast
    from splice_init [OF h1 l(1,3)] e False show ?thesis by (auto simp: clist_splice_tail_init_def clist_splice_tail_def)
  qed (use r m e in \<open>simp add: clist_splice_tail_init_def\<close>)
qed

lemma list_cut_raw_writes:
  assumes r: "nx h entry = Some nf" "nx h head = Some f"
    and dom: "l \<in> dom h" "f \<in> dom h" "entry \<in> dom h" "head \<in> dom h" "nf \<in> dom h"
  shows "writes ((nx h)(l \<mapsto> f, entry \<mapsto> l, head \<mapsto> nf)) ((pv h)(f \<mapsto> l, l \<mapsto> entry, nf \<mapsto> head)) {nf, head, entry, l, f} h
    (list_cut_raw l head entry h)"
  using r writes_prev [OF writes_next [OF writes_next [OF writes_prev [OF writes_prev [OF writes_next
      [OF writes_Some dom(1), of f] dom(2), of l] dom(1), of entry] dom(3), of l] dom(4), of nf] dom(5), of head]
  by (simp add: list_cut_raw_def insert_commute)

lemma clist_cut_position_ring:
  assumes r: "ring h head (ys @ entry # zs)" and l: "l \<in> dom h" "l \<notin> set (head # ys @ entry # zs)"
  shows "\<exists>h'. clist_cut_position l head entry h = Some h' \<and> ring h' l (ys @ [entry]) \<and> ring h' head zs"
proof -
  let ?f = "hd (ys @ [entry])" and ?nf = "hd (zs @ [head])"
  have r': "ring h head ([] @ ys @ entry # zs)" using r by simp
  have d: "distinct (head # ys @ entry # zs)" using r by (simp add: ring_def)
  have nx: "nx h entry = Some ?nf" "nx h head = Some ?f"
    using ring_around(1) [OF r] ring_cut(3) [OF r'] by (cases ys; simp)+
  have f: "?f \<in> set (ys @ [entry])" "?nf \<in> set (head # zs)" by (cases ys; simp) (cases zs; simp)
  have dom: "?f \<in> dom h" "entry \<in> dom h" "head \<in> dom h" "?nf \<in> dom h" using ring_dom [OF r] f by auto
  let ?n = "(nx h)(l \<mapsto> ?f, entry \<mapsto> l, head \<mapsto> ?nf)" and ?p = "(pv h)(?f \<mapsto> l, l \<mapsto> entry, ?nf \<mapsto> head)"
  note w = list_cut_raw_writes [OF nx l(1) dom]
  have lin: "linked (nx h) (pv h) (ys @ [entry])"
    using ring_around(3) [of h head "ys @ [entry]" "hd zs" "tl zs"] ring_cut(1) [of h head "ys @ [entry]" zs] r
      linked_append [of "[head]" "ys @ [entry]" "nx h" "pv h"] by simp
  have "linked ((nx h)(l \<mapsto> ?f)) ((pv h)(?f \<mapsto> l)) ([l] @ ys @ [entry])"
    using linked_join [of "nx h" "pv h" "[l]" "ys @ [entry]"] lin l(2) d f by (cases ys) auto
  then have "linked ((nx h)(l \<mapsto> ?f, entry \<mapsto> l)) ((pv h)(?f \<mapsto> l, l \<mapsto> entry)) ((l # ys @ [entry]) @ [l])"
    using linked_join [of "(nx h)(l \<mapsto> ?f)" "(pv h)(?f \<mapsto> l)" "l # ys @ [entry]" "[l]"] l(2) d
    by (auto simp: butlast_append)
  then have 1: "linked ?n ?p (l # (ys @ [entry]) @ [l])"
    using l(2) d f by (subst linked_next_upd, force simp: butlast_append) (subst linked_prev_upd, auto)
  have "linked ((nx h)(head \<mapsto> ?nf)) ((pv h)(?nf \<mapsto> head)) ([head] @ zs @ [head])"
    using linked_join [of "nx h" "pv h" "[head]" "zs @ [head]"] ring_around(4) [OF r] d by (cases zs) auto
  moreover have "?n x = ((nx h)(head \<mapsto> ?nf)) x" if "x \<in> set (head # zs)" for x using that l(2) d by auto
  moreover have "?p x = ((pv h)(?nf \<mapsto> head)) x" if "x \<in> set (head # zs)" for x using that l(2) d f by auto
  ultimately have 2: "linked ?n ?p (head # zs @ [head])"
    using linked_cong [of "head # zs @ [head]" ?n "(nx h)(head \<mapsto> ?nf)" ?p "(pv h)(?nf \<mapsto> head)"] by auto
  from w obtain h' where h': "list_cut_raw l head entry h = Some h'" "nx h' = ?n" "pv h' = ?p" by (auto simp: writes_def)
  have "ring h' l (ys @ [entry])" "ring h' head zs" using 1 2 h'(2,3) l(2) d by (auto simp: ring_def)
  moreover have "clist_cut_position l head entry h = Some h'"
    using clist_empty_ring [OF r] clist_singular_ring [OF r] nx(2) d h'(1)
    by (cases ys) (auto simp: clist_cut_position_def)
  ultimately show ?thesis by blast
qed

subsection \<open>Loops\<close>

lemma clist_for_each_ring:
  assumes "linked (nx h) p (xs @ [head])" "head \<notin> set xs"
  shows "clist_for_each (hd (xs @ [head])) head h = Some xs"
  using assms
proof (induction xs)
  case Nil
  then show ?case by (simp add: clist_for_each.simps)
next
  case (Cons x xs)
  have "nx h x = Some (hd (xs @ [head]))" "linked (nx h) p (xs @ [head])"
    using linked_append [of "[x]" "xs @ [head]" "nx h" p] Cons.prems(1) by auto
  with Cons show ?case by (subst clist_for_each.simps) auto
qed

lemma clist_entries_ring:
  assumes r: "ring h head xs" shows "clist_entries head h = Some xs"
  using ring_cut(2,3) [of h head "[]" xs] clist_for_each_ring [of h "pv h" xs head] r
  by (simp add: clist_entries_def ring_def)

lemma clist_for_each_prev_ring:
  assumes "linked n (pv h) (head # xs)" "head \<notin> set xs"
  shows "clist_for_each_prev (List.last (head # xs)) head h = Some (rev xs)"
  using assms
proof (induction xs rule: rev_induct)
  case Nil
  then show ?case by (simp add: clist_for_each_prev.simps)
next
  case (snoc x xs)
  have "pv h x = Some (List.last (head # xs))" "linked n (pv h) (head # xs)"
    using linked_append [of "head # xs" "[x]" n "pv h"] snoc.prems(1) by auto
  with snoc show ?case by (subst clist_for_each_prev.simps) auto
qed

lemma clist_entries_reverse_ring:
  assumes r: "ring h head xs" shows "clist_entries_reverse head h = Some (rev xs)"
  using ring_cut(1,4) [of h head xs "[]"] clist_for_each_prev_ring [of "nx h" h head xs] r
  by (simp add: clist_entries_reverse_def ring_def)

text \<open>Clearing: all nodes are freed and the head is an empty ring.\<close>

lemma free_ring:
  assumes "ring h head xs" "x \<notin> set (head # xs)" shows "ring (h(x := None)) head xs"
proof -
  have "linked (nx (h(x := None))) (pv (h(x := None))) (head # xs @ [head]) = linked (nx h) (pv h) (head # xs @ [head])"
    using assms(2) by (intro linked_cong) (auto simp: get_next_def get_prev_def)
  with assms(1) show ?thesis by (simp add: ring_def)
qed

lemma clear_from_ring:
  assumes "ring h head xs" "n = hd (tl (xs @ [head]) @ [n0])" "xs \<noteq> []"
  shows "\<exists>h'. clear_from (hd xs) n head h = Some h' \<and> ring h' head [] \<and> (\<forall>x \<in> set xs. h' x = None) \<and>
    (\<forall>q. q \<notin> set (head # xs) \<longrightarrow> h' q = h q)"
  using assms
proof (induction xs arbitrary: h n)
  case (Cons x xs)
  let ?n = "hd (xs @ [head])"
  have n: "n = ?n" using Cons.prems(2) by (cases xs) auto
  have r: "ring h head ([] @ x # xs)" using Cons.prems(1) by simp
  from clist_del_ring [OF r] obtain h1 where h1: "clist_del x h = Some h1" "ring h1 head xs"
    "frame (set (head # x # xs)) h h1" by auto
  let ?h = "h1(x := None)"
  have r1: "ring ?h head xs" by (rule free_ring [OF h1(2)]) (use r in \<open>auto simp: ring_def\<close>)
  have x: "x \<noteq> head" "x \<notin> set xs" using r by (auto simp: ring_def)
  have keep: "?h q = h q" if "q \<notin> set (head # x # xs)" for q using h1(3) that by (auto simp: frame_def)
  show ?case
  proof (cases xs)
    case Nil
    have "clear_from x n head h = Some ?h"
      using n h1(1) x ring_cut(3) [of ?h head "[]" "[]"] r1 Nil
      by (subst clear_from.simps) (simp add: clear_from.simps [of head])
    with r1 Nil x keep show ?thesis by (auto simp: fun_upd_def)
  next
    case (Cons y ys)
    have ny: "nx ?h y = Some (hd (ys @ [head]))" using ring_around(1) [of ?h head "[]" y ys] r1 Cons by simp
    have "hd (ys @ [head]) = hd (tl (xs @ [head]) @ [n0])" using Cons by (cases ys) auto
    from Cons.IH [OF r1 this] Cons have "\<exists>h'. clear_from y (hd (ys @ [head])) head ?h = Some h' \<and> ring h' head [] \<and>
      (\<forall>x \<in> set xs. h' x = None) \<and> (\<forall>q. q \<notin> set (head # xs) \<longrightarrow> h' q = ?h q)" by (simp del: fun_upd_apply)
    then obtain h' where h': "clear_from y (hd (ys @ [head])) head ?h = Some h'" "ring h' head []"
      "\<forall>x \<in> set xs. h' x = None" "\<forall>q. q \<notin> set (head # xs) \<longrightarrow> h' q = ?h q" by blast
    have "clear_from x n head h = Some h'"
      using n h1(1) x ny h'(1) Cons by (subst clear_from.simps) simp
    moreover have "h' x = None" using h'(4) x by simp
    moreover have "h' q = h q" if "q \<notin> set (head # x # xs)" for q using h'(4) keep [OF that] that by simp
    ultimately show ?thesis using h'(2,3) by auto
  qed
qed simp

lemma rlist_clear_ring:
  assumes r: "ring h head xs"
  shows "\<exists>h'. rlist_clear head h = Some h' \<and> ring h' head [] \<and> (\<forall>x \<in> set xs. h' x = None) \<and>
    (\<forall>q. q \<notin> set (head # xs) \<longrightarrow> h' q = h q)"
proof (cases xs)
  case Nil
  with r ring_cut(3) [of h head "[]" "[]"] show ?thesis by (simp add: rlist_clear_def clear_from.simps [of head])
next
  case (Cons x ys)
  have "nx h head = Some x" "nx h x = Some (hd (ys @ [head]))"
    using ring_cut(3) [of h head "[]" xs] ring_around(1) [of h head "[]" x ys] r Cons by simp_all
  moreover have "hd (ys @ [head]) = hd (tl (xs @ [head]) @ [head])" using Cons by (cases ys) auto
  from clear_from_ring [OF r this] Cons have "\<exists>h'. clear_from x (hd (ys @ [head])) head h = Some h' \<and> ring h' head [] \<and>
      (\<forall>x \<in> set xs. h' x = None) \<and> (\<forall>q. q \<notin> set (head # xs) \<longrightarrow> h' q = h q)" by simp
  ultimately show ?thesis by (simp add: rlist_clear_def)
qed


subsection \<open>The list of a client\<close>

text \<open>
  What the region list of \<open>src/src/lib/maps.h\<close> needs: adding at the end, reading in order and
  clearing. The nodes are whatever the implementation has.
\<close>

locale node_list =
  fixes rep :: "'h \<Rightarrow> 'p \<Rightarrow> 'p list \<Rightarrow> bool"
    and live :: "'h \<Rightarrow> 'p set"
    and add_tail :: "'p \<Rightarrow> 'p \<Rightarrow> 'h \<Rightarrow> 'h option"
    and entries :: "'p \<Rightarrow> 'h \<Rightarrow> 'p list option"
    and clear :: "'p \<Rightarrow> 'h \<Rightarrow> 'h option"
  assumes add_tail: "rep h l xs \<Longrightarrow> e \<in> live h \<Longrightarrow> e \<notin> set (l # xs) \<Longrightarrow>
      \<exists>h'. add_tail e l h = Some h' \<and> rep h' l (xs @ [e]) \<and> live h' = live h"
    and entries: "rep h l xs \<Longrightarrow> entries l h = Some xs"
    and clear: "rep h l xs \<Longrightarrow> \<exists>h'. clear l h = Some h' \<and> rep h' l [] \<and> live h' = live h - set xs"
begin

lemma build:
  assumes "rep h l xs" "distinct es" "set es \<subseteq> live h" "set es \<inter> set (l # xs) = {}"
  shows "\<exists>h'. fold_opt (\<lambda>e. add_tail e l) es h = Some h' \<and> rep h' l (xs @ es) \<and> live h' = live h"
  using assms
proof (induction es arbitrary: h xs)
  case (Cons e es)
  from add_tail [OF Cons.prems(1), of e] Cons.prems(3,4) obtain h1 where
    h1: "add_tail e l h = Some h1" "rep h1 l (xs @ [e])" "live h1 = live h" by auto
  with Cons.IH [OF h1(2)] Cons.prems(2-4) show ?case by auto
qed simp

text \<open>Scanning again: the old nodes are freed, and the new ones are read in the order they were added.\<close>

lemma rebuild:
  assumes "rep h l xs" "distinct es" "set es \<subseteq> live h - set (l # xs)"
  shows "\<exists>h1 h2. clear l h = Some h1 \<and> fold_opt (\<lambda>e. add_tail e l) es h1 = Some h2 \<and> entries l h2 = Some es \<and>
    live h2 = live h - set xs"
proof -
  from clear [OF assms(1)] obtain h1 where h1: "clear l h = Some h1" "rep h1 l []" "live h1 = live h - set xs" by blast
  from build [OF h1(2) assms(2)] assms(3) h1(3) obtain h2 where
    "fold_opt (\<lambda>e. add_tail e l) es h1 = Some h2" "rep h2 l ([] @ es)" "live h2 = live h1" by auto
  with h1 entries show ?thesis by auto
qed

end

interpretation clist: node_list ring dom clist_add_tail clist_entries rlist_clear
proof
  show "\<exists>h'. clist_add_tail e l h = Some h' \<and> ring h' l (xs @ [e]) \<and> dom h' = dom h"
    if "ring h l xs" "e \<in> dom h" "e \<notin> set (l # xs)" for h l xs e
    using clist_add_tail_ring [OF that] by (auto simp: frame_def)
  show "clist_entries l h = Some xs" if "ring h l xs" for h l xs
    by (rule clist_entries_ring [OF that])
  show "\<exists>h'. rlist_clear l h = Some h' \<and> ring h' l [] \<and> dom h' = dom h - set xs" if r: "ring h l xs" for h l xs
  proof -
    from rlist_clear_ring [OF r] obtain h' where h': "rlist_clear l h = Some h'" "ring h' l []"
      "\<forall>x \<in> set xs. h' x = None" "\<forall>q. q \<notin> set (l # xs) \<longrightarrow> h' q = h q" by blast
    have "l \<in> dom h'" "l \<in> dom h" "l \<notin> set xs" using ring_dom [OF h'(2)] ring_dom [OF r] r by (auto simp: ring_def)
    then have "q \<in> dom h' \<longleftrightarrow> q \<in> dom h - set xs" for q
      using h'(3,4) by (cases "q \<in> set xs"; cases "q = l") (auto simp: domIff)
    with h' show ?thesis by blast
  qed
qed

subsection \<open>Sequences of operations\<close>

datatype cop = CAdd ptr | CAddTail ptr | CDel ptr | CReplace ptr ptr | CMove ptr | CMoveTail ptr | CRotate

fun cop_heap :: "ptr \<Rightarrow> cop \<Rightarrow> lheap \<Rightarrow> lheap option" where
  "cop_heap head (CAdd e) = clist_add e head"
| "cop_heap head (CAddTail e) = clist_add_tail e head"
| "cop_heap head (CDel e) = clist_del e"
| "cop_heap head (CReplace old e) = clist_replace old e"
| "cop_heap head (CMove e) = clist_move e head"
| "cop_heap head (CMoveTail e) = clist_move_tail e head"
| "cop_heap head CRotate = clist_rotate_left head"

text \<open>What they mean for the list.\<close>

fun cop_list :: "cop \<Rightarrow> ptr list \<Rightarrow> ptr list" where
  "cop_list (CAdd e) xs = e # xs"
| "cop_list (CAddTail e) xs = xs @ [e]"
| "cop_list (CDel e) xs = remove1 e xs"
| "cop_list (CReplace old e) xs = map (\<lambda>x. if x = old then e else x) xs"
| "cop_list (CMove e) xs = e # remove1 e xs"
| "cop_list (CMoveTail e) xs = remove1 e xs @ [e]"
| "cop_list CRotate xs = rotate1 xs"

fun cop_ok :: "ptr \<Rightarrow> ptr set \<Rightarrow> cop \<Rightarrow> ptr list \<Rightarrow> bool" where
  "cop_ok head D (CAdd e) xs \<longleftrightarrow> e \<in> D \<and> e \<notin> set (head # xs)"
| "cop_ok head D (CAddTail e) xs \<longleftrightarrow> e \<in> D \<and> e \<notin> set (head # xs)"
| "cop_ok head D (CDel e) xs \<longleftrightarrow> e \<in> set xs"
| "cop_ok head D (CReplace old e) xs \<longleftrightarrow> old \<in> set xs \<and> e \<in> D \<and> e \<notin> set (head # xs)"
| "cop_ok head D (CMove e) xs \<longleftrightarrow> e \<in> set xs"
| "cop_ok head D (CMoveTail e) xs \<longleftrightarrow> e \<in> set xs"
| "cop_ok head D CRotate xs \<longleftrightarrow> True"

fun cops_ok :: "ptr \<Rightarrow> ptr set \<Rightarrow> cop list \<Rightarrow> ptr list \<Rightarrow> bool" where
  "cops_ok head D [] xs = True"
| "cops_ok head D (op # ops) xs = (cop_ok head D op xs \<and> cops_ok head D ops (cop_list op xs))"

lemma cop_step:
  assumes r: "ring h head xs" and ok: "cop_ok head (dom h) op xs"
  shows "\<exists>h'. cop_heap head op h = Some h' \<and> ring h' head (cop_list op xs) \<and> dom h' = dom h"
proof -
  have cut: "\<exists>ys zs. xs = ys @ e # zs \<and> e \<notin> set ys \<and> e \<notin> set zs" if "e \<in> set xs" for e
  proof -
    from split_list [OF that] obtain ys zs where "xs = ys @ e # zs" by blast
    moreover from this r have "e \<notin> set ys" "e \<notin> set zs" by (auto simp: ring_def)
    ultimately show ?thesis by blast
  qed
  show ?thesis
  proof (cases op)
    case (CAdd e)
    with clist_add_ring [OF r, of e] ok show ?thesis by (auto simp: frame_def)
  next
    case (CAddTail e)
    with clist_add_tail_ring [OF r, of e] ok show ?thesis by (auto simp: frame_def)
  next
    case (CDel e)
    with ok have "e \<in> set xs" by simp
    from cut [OF this] obtain ys zs where x: "xs = ys @ e # zs" "e \<notin> set ys" by blast
    with clist_del_ring [of h head ys e zs] r CDel show ?thesis by (auto simp: frame_def remove1_append)
  next
    case (CReplace old e)
    with ok have "old \<in> set xs" by simp
    from cut [OF this] obtain ys zs where x: "xs = ys @ old # zs" "old \<notin> set ys" "old \<notin> set zs" by blast
    then have "cop_list op xs = ys @ e # zs" using CReplace by (auto intro!: map_idI)
    with clist_replace_ring [of h head ys old zs e] r ok CReplace x show ?thesis by (auto simp: frame_def)
  next
    case (CMove e)
    with ok have "e \<in> set xs" by simp
    from cut [OF this] obtain ys zs where x: "xs = ys @ e # zs" "e \<notin> set ys" by blast
    with clist_move_ring(1) [of h head ys e zs] r CMove show ?thesis by (auto simp: frame_def remove1_append)
  next
    case (CMoveTail e)
    with ok have "e \<in> set xs" by simp
    from cut [OF this] obtain ys zs where x: "xs = ys @ e # zs" "e \<notin> set ys" by blast
    with clist_move_ring(2) [of h head ys e zs] r CMoveTail show ?thesis by (auto simp: frame_def remove1_append)
  next
    case CRotate
    with clist_rotate_left_ring [OF r] show ?thesis by (auto simp: frame_def)
  qed
qed

lemma cops_refine:
  assumes "ring h head xs" "cops_ok head (dom h) ops xs"
  shows "\<exists>h'. fold_opt (cop_heap head) ops h = Some h' \<and> ring h' head (fold cop_list ops xs)"
  using assms
proof (induction ops arbitrary: h xs)
  case (Cons op ops)
  from cop_step [OF Cons.prems(1), of op] Cons.prems(2) obtain h1 where
    h1: "cop_heap head op h = Some h1" "ring h1 head (cop_list op xs)" "dom h1 = dom h" by auto
  with Cons.IH [OF h1(2)] Cons.prems(2) show ?case by simp
qed simp

end
