(* ===== verification/Memdisc.thy ===== *)
theory Memdisc
  imports Memhack
begin

text \<open>
  The library \<open>libmemdisc\<close> that is preloaded for the discovery of objects
  (\<open>src/src/linuxhooking/libmemdisc.c\<close>): its configuration in four stages, the filter of the code
  addresses, and the lines it writes for every allocation. As in \<open>Memhack\<close>, what a hook finds in
  the process is a \<open>hook_env\<close>; \<open>he_stack\<close> gives the words of the whole memory here, and
  \<open>he_write_ok\<close> is the success of \<open>fputs\<close>, whose failure ends the game (\<open>None\<close>).
\<close>

definition MAX_BT :: nat where "MAX_BT = 11"

text \<open>Pointer to heap object discovery.\<close>

record disc_cfg =
  pc_mem_size :: "64 word"
  pc_code_addr :: ptr
  pc_stack_offs :: ptr
  pc_mem_addr :: ptr
  pc_ptr_offs :: ptr

definition disc_cfg_zero :: disc_cfg where
  "disc_cfg_zero = \<lparr>pc_mem_size = 0, pc_code_addr = 0, pc_stack_offs = 0, pc_mem_addr = 0,
     pc_ptr_offs = 0\<rparr>"

text \<open>
  The static variables. \<open>md_in_open\<close>: the input FIFO is open; \<open>md_out\<close>: what has been written to
  the discovery output, \<open>md_sent\<close>: what has been written to the trainer.
\<close>

record memdisc =
  md_in_open :: bool
  md_active :: bool
  md_discover_ptr :: bool
  md_stage :: nat
  md_malloc_size :: "64 word"
  md_bt_filter :: "string option"
  md_bt_saddr :: ptr
  md_bt_eaddr :: ptr
  md_orig_code_addr :: ptr
  md_code_addr :: ptr
  md_use_gbt :: bool
  md_ptr_cfg :: disc_cfg
  md_old_ptr_addr :: ptr
  md_out :: "string list"
  md_sent :: "string list"

definition memdisc_start :: memdisc where
  "memdisc_start = \<lparr>md_in_open = False, md_active = False, md_discover_ptr = False, md_stage = 0,
     md_malloc_size = 0, md_bt_filter = None, md_bt_saddr = 0, md_bt_eaddr = 0,
     md_orig_code_addr = 0, md_code_addr = 0, md_use_gbt = False, md_ptr_cfg = disc_cfg_zero,
     md_old_ptr_addr = 0, md_out = [], md_sent = []\<rparr>"

subsection \<open>Addresses of position-independent code\<close>

definition update_cfg_for_pie :: "ptr \<Rightarrow> memdisc \<Rightarrow> memdisc" where
  "update_cfg_for_pie exe_offs d =
     (let pc = md_ptr_cfg d;
          pc' = (if pc_code_addr pc \<noteq> 0 \<and> pc_code_addr pc \<le> PTR_MAX - exe_offs
                 then pc\<lparr>pc_code_addr := pc_code_addr pc + exe_offs\<rparr>
                 else if pc_ptr_offs pc \<noteq> 0 \<and> pc_ptr_offs pc \<le> PTR_MAX - exe_offs
                 then pc\<lparr>pc_ptr_offs := pc_ptr_offs pc + exe_offs\<rparr>
                 else pc);
          d' = d\<lparr>md_ptr_cfg := pc'\<rparr>
      in if md_code_addr d \<noteq> 0 \<and> md_code_addr d \<le> PTR_MAX - exe_offs
         then d'\<lparr>md_code_addr := md_code_addr d + exe_offs\<rparr> else d')"

text \<open>Does the user filter the backtrace to the executable (the empty filter) or to a library?\<close>

definition md_parse_bt_filter :: "string \<Rightarrow> memdisc \<Rightarrow> (memdisc \<times> string) option" where
  "md_parse_bt_filter s d =
     (case s of
        c # c' # _ \<Rightarrow>
          if c \<noteq> CHR '';'' \<or> \<not> c_isalpha c' then Some (d, s)
          else (case strchr s 1 (CHR '';'') of
                  None \<Rightarrow> None
                | Some pos \<Rightarrow>
                    let name = take (pos - 1) (drop 1 s)
                    in Some (d\<lparr>md_bt_filter := Some (if name = ''exe'' then [] else name)\<rparr>, drop pos s))
      | _ \<Rightarrow> Some (d, s))"

text \<open>
  \<open>sscanf\<close> of two or three addresses with semicolons between them: those that are there.
\<close>

primrec scan_ptrs :: "nat \<Rightarrow> string \<Rightarrow> ptr list" where
  "scan_ptrs 0 s = []"
| "scan_ptrs (Suc n) s =
     (case scan_ptr s of
        None \<Rightarrow> []
      | Some (a, s') \<Rightarrow>
          a # (case scan_lit '';'' s' of None \<Rightarrow> [] | Some s'' \<Rightarrow> scan_ptrs n s''))"

text \<open>
  \<open>set_bt_addrs\<close>: the bounds of the library arrive on the input FIFO; \<open>reply\<close> is what
  \<open>read_input\<close> gets, \<open>None\<close> if that is nothing.
\<close>

definition set_bt_addrs :: "string option \<Rightarrow> memdisc \<Rightarrow> memdisc" where
  "set_bt_addrs reply d =
     (case reply of
        None \<Rightarrow> d
      | Some ibuf \<Rightarrow>
          (case scan_ptrs 2 (cstr (take 127 ibuf)) of
             [lib_start, lib_end] \<Rightarrow>
               let d1 = d\<lparr>md_bt_saddr := lib_start, md_bt_eaddr := lib_end\<rparr>
               in if md_code_addr d \<noteq> 0 \<and> md_code_addr d \<le> PTR_MAX - lib_start
                  then let orig = (if md_orig_code_addr d = 0 then md_code_addr d
                                   else md_orig_code_addr d)
                       in d1\<lparr>md_orig_code_addr := orig, md_code_addr := orig + lib_start\<rparr>
                  else d1
           | _ \<Rightarrow> d))"

subsection \<open>The configuration\<close>

text \<open>
  \<open>do_cleanup\<close> closes the files; the library stays inactive.
\<close>

definition do_cleanup :: "memdisc \<Rightarrow> memdisc" where
  "do_cleanup d = d\<lparr>md_in_open := False\<rparr>"

text \<open>
  \<open>sscanf (s, ";%zd", ...)\<close>: its result, the size and the rest. \<open>-1\<close> is the end of the string in
  front of the number.
\<close>

definition scan_size :: "string \<Rightarrow> int \<times> 64 word \<times> string" where
  "scan_size s =
     (if s = [] then (- 1, 0, s)
      else case scan_lit '';'' s of
        None \<Rightarrow> (0, 0, s)
      | Some r \<Rightarrow>
          if dropWhile c_isspace r = [] then (- 1, 0, r)
          else (case scan_l 10 r of None \<Rightarrow> (0, 0, r) | Some (n, r') \<Rightarrow> (1, n, r')))"

text \<open>
  The configuration of the discovery of a pointer, \<open>";%zd;0x%lx;0x%lx;0x%lx"\<close>: the fields in front
  of a mismatch are assigned.
\<close>

definition scan_disc_cfg :: "string \<Rightarrow> disc_cfg \<Rightarrow> bool \<times> disc_cfg" where
  "scan_disc_cfg s pc =
     (case scan_size s of (ret, n, r) \<Rightarrow>
        if ret \<noteq> 1 then (False, pc)
        else
          let pc1 = pc\<lparr>pc_mem_size := n\<rparr>
          in (case map_option (scan_ptrs 3) (scan_lit '';'' r) of
                Some [a] \<Rightarrow> (False, pc1\<lparr>pc_code_addr := a\<rparr>)
              | Some [a, b] \<Rightarrow> (False, pc1\<lparr>pc_code_addr := a, pc_stack_offs := b\<rparr>)
              | Some [a, b, c] \<Rightarrow>
                  (True, pc1\<lparr>pc_code_addr := a, pc_stack_offs := b, pc_ptr_offs := c\<rparr>)
              | _ \<Rightarrow> (False, pc1)))"

text \<open>
  What is read: the first byte \<open>ch\<close>, and for the known stages the rest of the configuration. A
  result \<open>Inl\<close> is the return with an inactive library.
\<close>

definition read_stage_cfg :: "string \<Rightarrow> string option" where
  "read_stage_cfg rest = (if rest = [] then None else Some (cstr (take (BUF_SIZE - 2) rest)))"

definition stage_text :: "char \<Rightarrow> string \<Rightarrow> memdisc \<Rightarrow> memdisc + (memdisc \<times> string)" where
  "stage_text ch rest d =
     (if ch = CHR ''p'' then
        (case read_stage_cfg rest of
           None \<Rightarrow> Inl d
         | Some s \<Rightarrow>
             (case scan_disc_cfg s (md_ptr_cfg d) of (ok, pc) \<Rightarrow>
                let d1 = d\<lparr>md_ptr_cfg := pc\<rparr>
                in if \<not> ok then Inl (do_cleanup d1)
                   else (case strstr s '';;'' of
                           None \<Rightarrow> Inl (do_cleanup d1)
                         | Some pos \<Rightarrow> Inr (d1\<lparr>md_discover_ptr := True\<rparr>, drop (pos + 2) s))))
      else if CHR ''1'' \<le> ch \<and> ch \<le> CHR ''4'' then
        (case read_stage_cfg rest of None \<Rightarrow> Inl d | Some s \<Rightarrow> Inr (d, ch # s))
      else Inr (d, []))"

definition gbt_cmd :: "string \<Rightarrow> bool" where
  "gbt_cmd s = (case scan_lit '';'' s of
     None \<Rightarrow> False
   | Some r \<Rightarrow> take 3 (takeWhile (\<lambda>c. \<not> c_isspace c) (dropWhile c_isspace r)) = GBT_CMD)"

definition stage3_cfg :: "string \<Rightarrow> memdisc \<Rightarrow> memdisc + memdisc" where
  "stage3_cfg s d =
     (let gbt = gbt_cmd s;
          d1 = (if gbt then d\<lparr>md_use_gbt := True\<rparr> else d);
          s1 = (if gbt then drop 4 s else s)
      in case md_parse_bt_filter s1 d1 of
           None \<Rightarrow> Inl (do_cleanup d1)
         | Some (d2, s2) \<Rightarrow>
             (case scan_size s2 of (ret, n, _) \<Rightarrow>
                if ret < 1 then Inl (do_cleanup d2)
                else Inr (d2\<lparr>md_malloc_size := n, md_use_gbt := md_use_gbt d2 \<and> n \<noteq> 0,
                             md_stage := 3\<rparr>)))"

definition stage4_cfg :: "string \<Rightarrow> memdisc \<Rightarrow> memdisc + memdisc" where
  "stage4_cfg s d =
     (case md_parse_bt_filter s d of
        None \<Rightarrow> Inl (do_cleanup d)
      | Some (d1, s1) \<Rightarrow>
          (case scan_size s1 of (ret, n, r) \<Rightarrow>
             if ret < 1 then Inl (do_cleanup d1)
             else
               let d2 = d1\<lparr>md_malloc_size := n, md_stage := 4\<rparr>
               in Inr (case scan_lit '';'' r \<bind> scan_ptr of
                         None \<Rightarrow> d2 | Some (a, _) \<Rightarrow> d2\<lparr>md_code_addr := a\<rparr>)))"

definition stage_cfg :: "string \<Rightarrow> memdisc \<Rightarrow> memdisc + memdisc" where
  "stage_cfg s d =
     (case s of
        [] \<Rightarrow> Inl (do_cleanup d)
      | ch # r \<Rightarrow>
          if ch = CHR ''1'' then Inr (d\<lparr>md_stage := 1\<rparr>)
          else if ch = CHR ''2'' then
            (case scan_size r of (ret, n, _) \<Rightarrow>
               if ret < 0 then Inl (do_cleanup d)
               else Inr ((if ret = 1 then d\<lparr>md_malloc_size := n\<rparr> else d)\<lparr>md_stage := 2\<rparr>))
          else if ch = CHR ''3'' then stage3_cfg r d
          else if ch = CHR ''4'' then stage4_cfg r d
          else Inl (do_cleanup d))"

text \<open>
  From the registration of the flushing on: the handling of position-independent code. \<open>notify_ok\<close>:
  the notification can be written; \<open>reply\<close>: what the trainer sends back.
\<close>

definition close_input :: "memdisc \<Rightarrow> memdisc" where
  "close_input d = (if md_bt_filter d = None \<or> md_bt_filter d = Some []
                    then d\<lparr>md_in_open := False\<rparr> else d)"

definition activate_disc :: "ptr \<Rightarrow> memdisc \<Rightarrow> memdisc" where
  "activate_disc stack_end d =
     close_input (d\<lparr>md_out := md_out d @ [render (MStack stack_end)], md_active := True\<rparr>)"

definition open_range :: "memdisc \<Rightarrow> memdisc" where
  "open_range d = (if md_code_addr d = 0 \<and> md_bt_eaddr d \<le> md_bt_saddr d
                   then d\<lparr>md_bt_eaddr := PTR_MAX\<rparr> else d)"

definition start_disc :: "ptr \<Rightarrow> bool \<Rightarrow> string option \<Rightarrow> memdisc \<Rightarrow> memdisc" where
  "start_disc stack_end notify_ok reply d =
     (let d1 = open_range d
      in if md_stage d1 < 3 \<and> pc_code_addr (md_ptr_cfg d1) = 0 then activate_disc stack_end d1
         else if \<not> notify_ok then close_input d1
         else
           let d2 = d1\<lparr>md_sent := md_sent d1 @ [ASLR_NOTIFY_STR]\<rparr>
           in case md_bt_filter d2 of
                None \<Rightarrow> activate_disc stack_end d2
              | Some [] \<Rightarrow>
                  (case map_option (\<lambda>ibuf. scan_ptrs 3 (cstr (take (BUF_SIZE - 1) ibuf))) reply of
                     Some [exe_start, exe_end, exe_offs] \<Rightarrow>
                       activate_disc stack_end
                         (update_cfg_for_pie exe_offs
                            (d2\<lparr>md_bt_saddr := exe_start, md_bt_eaddr := exe_end\<rparr>))
                   | _ \<Rightarrow> close_input d2)
              | Some _ \<Rightarrow> activate_disc stack_end (set_bt_addrs reply d2))"

text \<open>
  \<open>memdisc_init\<close>: \<open>input\<close> is what the trainer has written to the FIFO (\<open>None\<close>: nothing arrives).
  Opening the files succeeds; where it does not, the game exits.
\<close>

definition memdisc_init ::
  "string option \<Rightarrow> string \<Rightarrow> ptr \<Rightarrow> string option \<Rightarrow> bool \<Rightarrow> string option \<Rightarrow> memdisc \<Rightarrow> memdisc" where
  "memdisc_init expected progname stack_end input notify_ok reply d =
     (if (case expected of Some e \<Rightarrow> e \<noteq> progname | None \<Rightarrow> False) \<or> md_active d then d
      else if md_in_open d then close_input d
      else case input of
        Some (ch # rest) \<Rightarrow>
          (case stage_text ch rest (d\<lparr>md_in_open := True, md_ptr_cfg := disc_cfg_zero\<rparr>) of
             Inl d' \<Rightarrow> d'
           | Inr (d1, s) \<Rightarrow>
               (case stage_cfg s d1 of
                  Inl d' \<Rightarrow> d'
                | Inr d2 \<Rightarrow> start_disc stack_end notify_ok reply d2))
      | _ \<Rightarrow> do_cleanup d)"


subsection \<open>The lines of the discovery output\<close>

text \<open>
  \<open>snprintf (obuf + offs, BUF_SIZE - offs, ...)\<close>: the text in the buffer and the offset, which grows
  by the length that the text would need. Behind the end of the buffer the size wraps around
  (\<open>None\<close>).
\<close>

type_synonym obuf = "string \<times> nat"

definition obuf_printf :: "string \<Rightarrow> obuf \<Rightarrow> obuf option" where
  "obuf_printf t ob =
     (case ob of (s, offs) \<Rightarrow>
        if BUF_SIZE < offs then None
        else Some (s @ take (BUF_SIZE - offs - 1) t, offs + length t))"

text \<open>
  The loop of \<open>find_code_addresses\<close> over the words of the stack, from \<open>offs\<close> on with \<open>i\<close> hits so
  far. The largest word address has no successor: the loop would go on at the bottom of the
  address space (\<open>None\<close>).
\<close>

definition in_range :: "memdisc \<Rightarrow> ptr \<Rightarrow> bool" where
  "in_range d c \<longleftrightarrow> md_bt_saddr d \<le> c \<and> c \<le> md_bt_eaddr d"

definition bt_line :: "memdisc \<Rightarrow> ptr \<Rightarrow> ptr \<Rightarrow> string option" where
  "bt_line d code_addr_os so =
     (if md_stage d = 4 \<and> (md_code_addr d = 0 \<or> code_addr_os = md_code_addr d)
      then Some ('';c'' @ pr_ptr code_addr_os @ '';o'' @ pr_ptr so)
      else if md_stage d = 3 then Some ('';c'' @ pr_ptr code_addr_os)
      else None)"

definition put_bt_line :: "memdisc \<Rightarrow> ptr \<Rightarrow> ptr \<Rightarrow> obuf \<times> bool \<Rightarrow> (obuf \<times> bool) option" where
  "put_bt_line d code_addr_os so st =
     (case bt_line d code_addr_os so of
        None \<Rightarrow> Some st
      | Some t \<Rightarrow> map_option (\<lambda>ob. (ob, True)) (obuf_printf t (fst st)))"

function find_codes ::
  "memdisc \<Rightarrow> (ptr \<Rightarrow> ptr) \<Rightarrow> ptr \<Rightarrow> ptr \<Rightarrow> ptr \<Rightarrow> nat \<Rightarrow> obuf \<times> bool \<Rightarrow> (obuf \<times> bool) option" where
  "find_codes d mem limit ffp offs i st =
     (if limit < offs then Some st
      else
        let c = mem offs;
            hit = in_range d c
        in case (if hit then put_bt_line d c (offs - ffp) st else Some st) of
             None \<Rightarrow> None
           | Some st' \<Rightarrow>
               if hit \<and> MAX_BT \<le> i + 1 then Some st'
               else if offs + 8 < offs then None
               else find_codes d mem limit ffp (offs + 8) (if hit then i + 1 else i) st')"
  by pat_completeness auto
termination
proof (relation "measure (\<lambda>(_, _, _, _, offs, _, _). 2 ^ 64 - unat offs)", goal_cases)
  case (2 d mem limit ffp offs i st c hit st')
  then have "offs \<le> offs + 8" by simp
  moreover have "offs \<noteq> offs + 8" by simp
  ultimately have "offs < offs + 8" by (rule order.not_eq_order_implies_strict [OF _ _, rotated])
  then have "unat offs < unat (offs + 8)" by (simp add: word_less_nat_alt)
  with unat_lt_64 [of offs] show ?case by simp
qed simp

declare find_codes.simps [simp del]

definition find_code_addresses ::
  "memdisc \<Rightarrow> hook_env \<Rightarrow> ptr \<Rightarrow> obuf \<Rightarrow> (obuf \<times> bool) option" where
  "find_code_addresses d e stack_end ob =
     (if he_ffp e = 0 then Some (ob, False)
      else find_codes d (he_stack e) (stack_end - 8) (he_ffp e) (he_ffp e) 0 (ob, False))"

primrec gnu_trace :: "memdisc \<Rightarrow> ptr list \<Rightarrow> obuf \<times> bool \<Rightarrow> (obuf \<times> bool) option" where
  "gnu_trace d [] st = Some st"
| "gnu_trace d (a # as) st =
     (if in_range d a
      then obuf_printf ('';c'' @ pr_ptr a) (fst st) \<bind> (\<lambda>ob. gnu_trace d as (ob, True))
      else gnu_trace d as st)"

definition run_gnu_backtrace :: "memdisc \<Rightarrow> hook_env \<Rightarrow> obuf \<Rightarrow> (obuf \<times> bool) option" where
  "run_gnu_backtrace d e ob = gnu_trace d (tl (he_trace e)) (ob, False)"

text \<open>The pointer to the heap object: where it is found, it is printed once.\<close>

definition get_ptr_to_heap ::
  "hook_env \<Rightarrow> ptr \<Rightarrow> 64 word \<Rightarrow> ptr \<Rightarrow> memdisc \<Rightarrow> obuf \<Rightarrow> (memdisc \<times> obuf) option" where
  "get_ptr_to_heap e stack_end sz mem_addr d ob =
     (let pc = md_ptr_cfg d;
          stack_addr = he_ffp e + pc_stack_offs pc;
          pc' = (if pc_code_addr pc \<noteq> 0 \<and> sz = pc_mem_size pc \<and> stack_addr \<le> stack_end - 8 \<and>
                    he_stack e stack_addr = pc_code_addr pc
                 then pc\<lparr>pc_mem_addr := mem_addr\<rparr> else pc);
          ptr_addr = (if pc_code_addr pc \<noteq> 0
                      then if pc_mem_addr pc' \<noteq> 0
                           then he_stack e (pc_mem_addr pc' + pc_ptr_offs pc') else 0
                      else if pc_ptr_offs pc \<noteq> 0 then he_stack e (pc_ptr_offs pc) else 0);
          d' = d\<lparr>md_ptr_cfg := pc'\<rparr>
      in if ptr_addr \<noteq> 0 \<and> ptr_addr \<noteq> md_old_ptr_addr d
         then map_option (\<lambda>ob'. (d'\<lparr>md_old_ptr_addr := ptr_addr\<rparr>, ob'))
                (obuf_printf (''p'' @ pr_ptr ptr_addr @ [NL]) ob)
         else Some (d', ob))"

text \<open>Only terminated messages are sent; \<open>obuf[obuf_offs - 1]\<close> must be inside of the buffer.\<close>

definition send_disc :: "hook_env \<Rightarrow> memdisc \<Rightarrow> obuf \<Rightarrow> memdisc option" where
  "send_disc e d ob =
     (case ob of (s, offs) \<Rightarrow>
        if BUF_SIZE + 1 < offs then None
        else if 1 \<le> offs \<and> offs \<le> length s \<and> s ! (offs - 1) = NL
        then if he_write_ok e then Some (d\<lparr>md_out := md_out d @ [s]\<rparr>) else None
        else Some d)"

definition wanted_size :: "64 word \<Rightarrow> memdisc \<Rightarrow> bool" where
  "wanted_size sz d \<longleftrightarrow>
     \<not> (sz = 0 \<or> 0 < md_malloc_size d \<and> sz \<noteq> md_malloc_size d \<and> sz \<noteq> pc_mem_size (md_ptr_cfg d))"

definition md_postprocess_malloc ::
  "hook_env \<Rightarrow> ptr \<Rightarrow> 64 word \<Rightarrow> ptr \<Rightarrow> memdisc \<Rightarrow> memdisc option" where
  "md_postprocess_malloc e stack_end sz mem_addr d =
     (if \<not> md_active d \<or> \<not> wanted_size sz d then Some d
      else do {
        ob \<leftarrow> obuf_printf (''m'' @ pr_ptr mem_addr @ '';s'' @ pr_zd sz) ([], 0);
        (ob, found) \<leftarrow> (if md_stage d < 3 then Some (ob, True)
                        else if md_use_gbt d then run_gnu_backtrace d e ob
                        else find_code_addresses d e stack_end ob);
        if \<not> found then Some d
        else do {
          ob \<leftarrow> obuf_printf [NL] ob;
          (d, ob) \<leftarrow> (if md_discover_ptr d then get_ptr_to_heap e stack_end sz mem_addr d ob
                      else Some (d, ob));
          send_disc e d ob } })"

definition md_preprocess_free :: "bool \<Rightarrow> ptr \<Rightarrow> memdisc \<Rightarrow> memdisc option" where
  "md_preprocess_free write_ok mem_addr d =
     (if \<not> md_active d \<or> md_stage d \<noteq> 1 then Some d
      else if write_ok then Some (d\<lparr>md_out := md_out d @ [render (MFree mem_addr)]\<rparr>)
      else None)"

text \<open>
  \<open>postprocess_dlopen\<close>: as in \<open>send_lib_name\<close>, a name that does not fit makes \<open>write\<close> read behind
  the buffer.
\<close>

definition md_postprocess_dlopen ::
  "string \<Rightarrow> bool \<Rightarrow> string option \<Rightarrow> memdisc \<Rightarrow> memdisc option" where
  "md_postprocess_dlopen lib_path write_ok reply d =
     (if \<not> md_active d then Some d
      else
        let lib_name = c_basename lib_path;
            msg = render (MLib lib_name)
        in if BUF_SIZE + 1 < length msg then None
           else if \<not> write_ok then Some d
           else
             let d1 = d\<lparr>md_sent := md_sent d @
                   [take (length msg) (take (BUF_SIZE - 1) msg @ replicate (BUF_SIZE + 1) NUL)]\<rparr>
             in case md_bt_filter d of
                  Some (c # f) \<Rightarrow>
                    if strstr lib_name (c # f) = None then Some d1 else Some (set_bt_addrs reply d1)
                | _ \<Rightarrow> Some d1)"

end
