(* ===== verification/Discovery.thy ===== *)
theory Discovery
  imports Aslr Memdisc
begin

text \<open>
  The discovery of dynamic memory in the trainer (\<open>src/src/discovery.cpp\<close>): checking the request of
  the user, and searching the recorded allocations backwards for an address. What \<open>objdump\<close> finds
  in front of a code address is an argument, as is whether the tools are installed.
\<close>

subsection \<open>The request\<close>

record disc_opts =
  do_str :: string
  do_lib :: string
  do_offs :: nat
  do_code_addr :: ptr
  do_run_scanmem :: bool
  do_have_objdump :: bool

text \<open>A plain number is a size for stage 4.\<close>

definition check_beginner_stage4 :: "disc_opts \<Rightarrow> disc_opts option" where
  "check_beginner_stage4 o' =
     (case scan_ul 10 (do_str o') of
        Some (mem_size, _) \<Rightarrow>
          if 8 \<le> mem_size
          then if list_all c_isdigit (do_str o') then Some (o'\<lparr>do_str := ''4;'' @ do_str o'\<rparr>)
               else None
          else Some o'
      | None \<Rightarrow> Some o')"

text \<open>
  \<open>init_discovery\<close>: whether an empty config is allowed, in which case the config is cleared.
  \<open>None\<close> is \<open>exit (-1)\<close>, or the exception of \<open>at (0)\<close> for the empty string.
\<close>

definition init_discovery :: "bool \<Rightarrow> bool \<Rightarrow> disc_opts \<Rightarrow> (bool \<times> disc_opts) option" where
  "init_discovery scanmem_ok objdump_ok o' = do {
     o' \<leftarrow> check_beginner_stage4 o';
     ch \<leftarrow> vget (do_str o') 0;
     if CHR ''0'' \<le> ch \<and> ch \<le> CHR ''4''
     then if do_run_scanmem o' \<and> \<not> scanmem_ok then None
          else Some (True, if CHR ''3'' \<le> ch then o'\<lparr>do_have_objdump := objdump_ok\<rparr> else o')
     else Some (False, o'\<lparr>do_run_scanmem := False\<rparr>) }"

text \<open>The filter of the backtrace; a library that is the byte 1 stands for the executable.\<close>

definition do_parse_bt_filter :: "string \<Rightarrow> disc_opts \<Rightarrow> (disc_opts \<times> string) option" where
  "do_parse_bt_filter s o' =
     (case s of
        c # c' # _ \<Rightarrow>
          if c \<noteq> CHR '';'' \<or> \<not> c_isalpha c' then Some (o', s)
          else (case strchr s 1 (CHR '';'') of
                  None \<Rightarrow> None
                | Some pos \<Rightarrow>
                    let name = take (pos - 1) (drop 1 s)
                    in Some (o'\<lparr>do_lib := if is_prefix ''exe'' name then [SOH] else name\<rparr>, drop pos s))
      | _ \<Rightarrow> Some (o', s))"

text \<open>\<open>sscanf (s, ";%lu;0x%lx", ...)\<close>, both 0 where they are not there.\<close>

definition scan_size_code :: "string \<Rightarrow> (64 word \<times> ptr) option" where
  "scan_size_code s = do {
     s \<leftarrow> scan_lit '';'' s;
     (mem_size, s) \<leftarrow> scan_ul 10 s;
     Some (mem_size, case scan_lit '';'' s \<bind> scan_ptr of None \<Rightarrow> 0 | Some (a, _) \<Rightarrow> a) }"

definition prepare_backtrace :: "string \<Rightarrow> disc_opts \<Rightarrow> disc_opts option" where
  "prepare_backtrace s o' = do {
     (o', s) \<leftarrow> do_parse_bt_filter s o';
     (mem_size, code_addr) \<leftarrow> scan_size_code s;
     if mem_size = 0 then None else Some (o'\<lparr>do_code_addr := code_addr\<rparr>) }"

definition prepare_stage :: "string \<Rightarrow> disc_opts \<Rightarrow> disc_opts option" where
  "prepare_stage part o' =
     (case part of
        [] \<Rightarrow> None
      | stage # r \<Rightarrow>
          if stage = CHR ''0'' then Some (o'\<lparr>do_str := ''0'', do_offs := 0\<rparr>)
          else if stage = CHR ''1'' \<or> stage = CHR ''2'' then
            (if r = [] then Some (o'\<lparr>do_str := do_str o' @ '';0''\<rparr>)
             else if fst (scan_size r) < 0 then None else Some o')
          else if stage = CHR ''3'' then
            prepare_backtrace (if is_prefix '';gbt;'' r then drop 4 r else r) o'
          else if stage = CHR ''4'' then prepare_backtrace r o'
          else None)"

definition prepare_discovery :: "disc_opts \<Rightarrow> disc_opts option" where
  "prepare_discovery o' =
     (case do_str o' of
        [] \<Rightarrow> Some o'
      | ch # r \<Rightarrow>
          if ch = CHR ''p'' then
            (case strstr r '';;'' of
               None \<Rightarrow> None
             | Some pos \<Rightarrow> prepare_stage (drop (pos + 2) r) (o'\<lparr>do_offs := pos + 3\<rparr>))
          else prepare_stage (drop (do_offs o') (do_str o')) o')"

subsection \<open>The result\<close>

text \<open>
  Where a code address lies: the file and its name, and the address relative to it. Adjacent
  regions share an address: the end of a region still counts as part of it.
\<close>

primrec code_addr_to_region ::
  "region list \<Rightarrow> ptr \<Rightarrow> ptr \<Rightarrow> (ptr \<times> string \<times> string) option" where
  "code_addr_to_region [] exe_offs a = None"
| "code_addr_to_region (r # rs) exe_offs a =
     (if \<not> rg_exec r \<or> rg_start r + rg_size r < a \<or> \<not> is_prefix ''/'' (rg_file_path r)
      then code_addr_to_region rs exe_offs a
      else if a < rg_start r then None
      else Some (a - (if rg_type r = REGION_TYPE_EXE then exe_offs else rg_load_addr r),
                 rg_file_path r,
                 rev (takeWhile (\<lambda>c. c \<noteq> CHR ''/'') (rev (rg_file_path r)))))"

text \<open>One call of a backtrace: code address, stack offset, file name, called function.\<close>

record disc_call =
  dc_code :: ptr
  dc_soffs :: ptr
  dc_bin_name :: string
  dc_func :: string

text \<open>What is printed for an object; \<open>dm_proposed\<close> is the call of the proposed config.\<close>

record disc_match =
  dm_addr :: ptr
  dm_size :: "64 word"
  dm_offs :: ptr
  dm_calls :: "disc_call list"
  dm_proposed :: "disc_call option"

text \<open>
  The parameters of the search, and its state: \<open>ds_left\<close> is the static \<open>matches_left\<close>, \<open>ds_dasm\<close>
  the disassembled files by their names (a second file of the same name is not disassembled),
  \<open>ds_stack\<close> the offsets on the stack that are printed.
\<close>

record disc_params =
  dp_in_addr :: ptr
  dp_stage :: char
  dp_code_offs :: ptr
  dp_stack_rstart :: ptr
  dp_have_objdump :: bool
  dp_rlist :: "region list"
  dp_func :: "string \<Rightarrow> ptr \<Rightarrow> string"

record disc_state =
  ds_left :: nat
  ds_dasm :: "(string \<times> string) list"
  ds_matches :: "disc_match list"
  ds_stack_end :: ptr
  ds_stack :: "ptr list"

definition MAX_MATCHES :: nat where "MAX_MATCHES = 15"

definition disc_state_init :: disc_state where
  "disc_state_init = \<lparr>ds_left = MAX_MATCHES, ds_dasm = [], ds_matches = [], ds_stack_end = 0,
     ds_stack = []\<rparr>"

text \<open>The code addresses and stack offsets behind position \<open>p\<close> of the buffer.\<close>

primrec scan_codes :: "nat \<Rightarrow> string \<Rightarrow> nat \<Rightarrow> (ptr \<times> ptr) list" where
  "scan_codes 0 buf p = []"
| "scan_codes (Suc n) buf p =
     (case scan_lit ''c'' (cstr (drop p buf)) \<bind> scan_ptr of
        None \<Rightarrow> []
      | Some (c, r) \<Rightarrow>
          let so = scan_lit '';o'' r \<bind> scan_ptr
          in (c, case so of None \<Rightarrow> 0 | Some (a, _) \<Rightarrow> a) #
             (case strchr buf p (CHR '';'') of
                None \<Rightarrow> []
              | Some q \<Rightarrow>
                  if so = None then scan_codes n buf (q + 1)
                  else (case strchr buf (q + 1) (CHR '';'') of
                          None \<Rightarrow> []
                        | Some q' \<Rightarrow> scan_codes n buf (q' + 1))))"

text \<open>
  The post-processing of one code address: the call, whether it is a known function, and the new
  state. An empty function text stands for \<open>rbytes <= 0\<close>.
\<close>

definition disc_call_of ::
  "disc_params \<Rightarrow> ptr \<times> ptr \<Rightarrow> (string \<times> string) list \<Rightarrow> disc_call \<times> (string \<times> string) list" where
  "disc_call_of dp cs dasm =
     (case code_addr_to_region (dp_rlist dp) (dp_code_offs dp) (fst cs) of
        None \<Rightarrow> (\<lparr>dc_code = fst cs, dc_soffs = snd cs, dc_bin_name = [], dc_func = []\<rparr>, dasm)
      | Some (a, path, name) \<Rightarrow>
          if \<not> dp_have_objdump dp
          then (\<lparr>dc_code = a, dc_soffs = snd cs, dc_bin_name = name, dc_func = []\<rparr>, dasm)
          else
            let dasm' = (if map_of dasm name = None then (name, path) # dasm else dasm);
                file = the (map_of dasm' name)
            in (\<lparr>dc_code = a, dc_soffs = snd cs, dc_bin_name = name, dc_func = dp_func dp file a\<rparr>,
                dasm'))"

primrec disc_calls ::
  "disc_params \<Rightarrow> (ptr \<times> ptr) list \<Rightarrow> (string \<times> string) list \<Rightarrow>
     disc_call list \<times> (string \<times> string) list" where
  "disc_calls dp [] dasm = ([], dasm)"
| "disc_calls dp (cs # css) dasm =
     (let (c, dasm1) = disc_call_of dp cs dasm;
          (r, dasm2) = disc_calls dp css dasm1
      in (c # r, dasm2))"

text \<open>
  The call of the config template: the first known function with a code address other than 0
  (\<open>cfg_code\<close> stays 0 otherwise and is assigned again).
\<close>

definition proposed_call :: "disc_call list \<Rightarrow> disc_call option" where
  "proposed_call cs = (case filter (\<lambda>c. dc_func c \<noteq> [] \<and> dc_code c \<noteq> 0) cs of
     [] \<Rightarrow> None | c # _ \<Rightarrow> Some c)"

definition report_match ::
  "disc_params \<Rightarrow> ptr \<Rightarrow> 64 word \<Rightarrow> (ptr \<times> ptr) list \<Rightarrow> disc_state \<Rightarrow> disc_state" where
  "report_match dp mem_addr mem_size css s =
     (let (calls, dasm) = disc_calls dp css (ds_dasm s)
      in s\<lparr>ds_dasm := dasm,
           ds_matches := ds_matches s @ [\<lparr>dm_addr = mem_addr, dm_size = mem_size,
             dm_offs = dp_in_addr dp - mem_addr, dm_calls = filter (\<lambda>c. dc_bin_name c \<noteq> []) calls,
             dm_proposed = proposed_call calls\<rparr>]\<rparr>)"

definition in_object :: "ptr \<Rightarrow> ptr \<Rightarrow> 64 word \<Rightarrow> bool" where
  "in_object in_addr mem_addr mem_size \<longleftrightarrow> mem_addr \<le> in_addr \<and> in_addr < mem_addr + mem_size"

definition process_disc1234_malloc ::
  "disc_params \<Rightarrow> disc_state \<Rightarrow> post_parse \<Rightarrow> ptr \<Rightarrow> 64 word \<Rightarrow> ptr \<Rightarrow> ptr \<Rightarrow> ptr \<Rightarrow> disc_state" where
  "process_disc1234_malloc dp s pp mem_addr mem_size code_offs code_addr stack_offs =
     (if \<not> in_object (dp_in_addr dp) mem_addr mem_size \<or> ds_left s = 0 then s
      else
        let s1 = s\<lparr>ds_left := ds_left s - 1\<rparr>;
            sep = strchr (pp_ibuf pp) (pp_pos pp) (CHR '';'')
        in report_match dp mem_addr mem_size
             (if dp_stage dp = CHR ''3'' \<or> dp_stage dp = CHR ''4''
              then (case sep of None \<Rightarrow> [] | Some q \<Rightarrow> scan_codes MAX_BT (pp_ibuf pp) (q + 1))
              else []) s1)"

definition discover_stack_val :: "disc_params \<Rightarrow> disc_state \<Rightarrow> ptr \<Rightarrow> disc_state" where
  "discover_stack_val dp s stack_end =
     (let s1 = s\<lparr>ds_stack_end := stack_end\<rparr>
      in if dp_stack_rstart dp = 0 \<or> stack_end = 0 \<or> stack_end < dp_stack_rstart dp then s1
         else if dp_stack_rstart dp \<le> dp_in_addr dp \<and> dp_in_addr dp < stack_end
         then s1\<lparr>ds_stack := ds_stack s @ [stack_end - dp_in_addr dp]\<rparr>
         else s1)"

definition disc_cb :: "disc_params \<Rightarrow> disc_state parse_cb" where
  "disc_cb dp = \<lparr>cb_mf = Some (process_disc1234_malloc dp), cb_ff = None, cb_lf = None,
     cb_sf = Some (discover_stack_val dp)\<rparr>"


subsection \<open>Running the discovery\<close>

text \<open>
  \<open>process_discovery\<close> up to the worker process, once the maps of the game are known: what is sent to
  the library. A request that begins with \<open>p\<close> is undefined: \<open>replace (0, 1, &stage)\<close> takes the
  address of a single character for a string.
\<close>

definition process_discovery ::
  "disc_opts \<Rightarrow> region list \<Rightarrow> world \<Rightarrow> (world \<times> string option) option" where
  "process_discovery o' rlist w =
     (case do_str o' of
        [] \<Rightarrow> None
      | ch # _ \<Rightarrow>
          if ch = CHR ''p'' then None
          else if CHR ''1'' \<le> ch \<and> ch \<le> CHR ''4'' then
            (let w1 = get_stack_bounds rlist w
             in if CHR ''3'' \<le> ch \<or> 0 < do_offs o' then handle_aslr (do_str o') (do_lib o') rlist w1
                else Some (w1, None))
          else Some (w, None))"

end
