(* ===== verification/MemdiscFun.thy ===== *)
theory MemdiscFun
  imports Memdisc
begin

text \<open>
  What \<open>libmemdisc\<close> prints for an allocation: the words of the stack that are code addresses, as
  lines of bounded length that always fit into the buffer.
\<close>

subsection \<open>Lengths of printed numbers\<close>

lemma length_digits: "2 \<le> b \<Longrightarrow> n < b ^ k \<Longrightarrow> 0 < k \<Longrightarrow> length (digits b n) \<le> k"
proof (induction b n arbitrary: k rule: digits.induct)
  case (1 b n)
  show ?case
  proof (cases "n < b")
    case True
    with 1 show ?thesis by (simp add: digits.simps [of b n])
  next
    case False
    with 1 obtain k' where k: "k = Suc k'" "0 < k'" by (cases k; cases "k - 1") auto
    have "n div b < b ^ k'" using 1(2,3) k by (simp add: less_mult_imp_div_less mult.commute)
    with 1 False k show ?thesis by (simp add: digits.simps [of b n])
  qed
qed

lemma length_pr_ptr: "length (pr_ptr a) \<le> 18"
  using length_digits [of 16 "unat a" 16] unat_lt_64 [of a] by (simp add: pr_ptr_def pr_hex_def)

lemma length_pr_zd: "length (pr_zd a) \<le> 21"
  using length_digits [of 10 "unat a" 20] unat_lt_64 [of a] length_digits [of 10 "unat (- a)" 20]
    unat_lt_64 [of "- a"]
  by (simp add: pr_zd_def pr_dec_def)

subsection \<open>The buffer\<close>

text \<open>As long as everything fits, the offset is the length of the text.\<close>

abbreviation full :: "string \<Rightarrow> obuf" where "full s \<equiv> (s, length s)"

lemma obuf_printf_fits: "length s + length t < BUF_SIZE \<Longrightarrow> obuf_printf t (full s) = Some (full (s @ t))"
  by (simp add: obuf_printf_def)

subsection \<open>The words of the stack\<close>

primrec words_at :: "(ptr \<Rightarrow> ptr) \<Rightarrow> ptr \<Rightarrow> ptr \<Rightarrow> nat \<Rightarrow> (ptr \<times> ptr) list" where
  "words_at mem ffp offs 0 = []"
| "words_at mem ffp offs (Suc n) = (offs - ffp, mem offs) # words_at mem ffp (offs + 8) n"

definition word_count :: "ptr \<Rightarrow> ptr \<Rightarrow> nat" where
  "word_count limit offs = (if limit < offs then 0 else unat (limit - offs) div 8 + 1)"

text \<open>The words from the frame pointer up to the end of the stack, with their offsets.\<close>

definition stack_words :: "(ptr \<Rightarrow> ptr) \<Rightarrow> ptr \<Rightarrow> ptr \<Rightarrow> (ptr \<times> ptr) list" where
  "stack_words mem ffp stack_end = words_at mem ffp ffp (word_count (stack_end - 8) ffp)"

lemma word_count_step:
  assumes "offs \<le> limit" "limit \<le> - 9"
  shows "word_count limit offs = Suc (word_count limit (offs + 8))" "\<not> offs + 8 < offs"
proof -
  have l: "unat limit < 2 ^ 64 - 8" using assms(2) by (simp add: word_le_nat_alt)
  have o': "unat offs \<le> unat limit" using assms(1) by (simp add: word_le_nat_alt)
  have u8: "unat (offs + 8) = unat offs + 8" using l o' by (simp add: unat_word_ariths)
  then show "\<not> offs + 8 < offs" by (simp add: word_less_nat_alt)
  have d: "unat (limit - offs) = unat limit - unat offs" using assms(1) by (rule unat_sub)
  show "word_count limit offs = Suc (word_count limit (offs + 8))"
  proof (cases "limit < offs + 8")
    case True
    then have "unat limit - unat offs < 8" using u8 by (simp add: word_less_nat_alt)
    with True assms(1) d show ?thesis by (simp add: word_count_def not_less)
  next
    case False
    then have "unat (limit - (offs + 8)) = unat limit - (unat offs + 8)"
      using u8 unat_sub [of "offs + 8" limit] by (simp add: not_less)
    moreover have "unat offs + 8 \<le> unat limit" using False u8 by (simp add: word_less_nat_alt)
    ultimately show ?thesis using False assms(1) d by (simp add: word_count_def not_less) 
  qed
qed

lemma find_codes_words:
  assumes "limit \<le> - 9" "i < MAX_BT"
  shows "find_codes d mem limit ffp offs i st =
    fold_opt (\<lambda>(so, c). put_bt_line d c so)
      (take (MAX_BT - i) (filter (\<lambda>(so, c). in_range d c) (words_at mem ffp offs (word_count limit offs)))) st"
  using assms(2)
proof (induction "word_count limit offs" arbitrary: offs i st)
  case 0
  then have "limit < offs" by (simp add: word_count_def split: if_splits)
  then show ?case by (simp add: find_codes.simps word_count_def)
next
  case (Suc n)
  then have le: "offs \<le> limit" by (auto simp: word_count_def not_less split: if_splits)
  note W = word_count_step [OF le assms(1)]
  have n: "n = word_count limit (offs + 8)" using Suc.hyps(2) W(1) by simp
  note IH = Suc.hyps(1) [OF n]
  have ne: "limit < offs \<longleftrightarrow> False" using le by simp
  show ?case
  proof (cases "in_range d (mem offs)")
    case False
    then show ?thesis using W IH [OF Suc.prems] ne
      by (simp add: find_codes.simps [of _ _ _ _ offs] Let_def)
  next
    case True
    note r = True
    obtain k where k: "MAX_BT - i = Suc k" "k = MAX_BT - Suc i" using Suc.prems by (metis Suc_diff_Suc)
    show ?thesis
    proof (cases "MAX_BT \<le> i + 1")
      case True
      then have "k = 0" using k by simp
      with True r W ne k show ?thesis
        by (simp add: find_codes.simps [of _ _ _ _ offs] Let_def split: option.splits)
    next
      case nb: False
      then have "Suc i < MAX_BT" by simp
      note IH' = IH [OF this]
      show ?thesis using r W ne k nb
        by (simp add: find_codes.simps [of _ _ _ _ offs] Let_def IH' split: option.splits)
    qed
  qed
qed


subsection \<open>The lines of an allocation\<close>

text \<open>A line of the discovery output; a call has a stack offset in stage 4 only.\<close>

datatype disc_line = DMalloc ptr "64 word" "(ptr \<times> ptr option) list" | DFree ptr | DPtr ptr

fun call_text :: "ptr \<times> ptr option \<Rightarrow> string" where
  "call_text (c, None) = '';c'' @ pr_ptr c"
| "call_text (c, Some so) = '';c'' @ pr_ptr c @ '';o'' @ pr_ptr so"

fun disc_text :: "disc_line \<Rightarrow> string" where
  "disc_text (DMalloc a n cs) = ''m'' @ pr_ptr a @ '';s'' @ pr_zd n @ concat (map call_text cs)"
| "disc_text (DFree a) = ''f'' @ pr_ptr a"
| "disc_text (DPtr a) = ''p'' @ pr_ptr a"

definition found_call :: "memdisc \<Rightarrow> ptr \<times> ptr \<Rightarrow> (ptr \<times> ptr option) option" where
  "found_call d = (\<lambda>(so, c).
     if md_stage d = 4 \<and> (md_code_addr d = 0 \<or> c = md_code_addr d) then Some (c, Some so)
     else if md_stage d = 3 then Some (c, None) else None)"

text \<open>The calls that are found: of the first eleven words in the range those that are asked for.\<close>

definition found_calls :: "memdisc \<Rightarrow> hook_env \<Rightarrow> ptr \<Rightarrow> (ptr \<times> ptr option) list" where
  "found_calls d e stack_end =
     (if he_ffp e = 0 then []
      else List.map_filter (found_call d)
             (take MAX_BT (filter (\<lambda>(so, c). in_range d c)
                (stack_words (he_stack e) (he_ffp e) stack_end))))"

lemma bt_line_call: "bt_line d c so = map_option call_text (found_call d (so, c))"
  by (simp add: bt_line_def found_call_def)

lemma length_call_text: "length (call_text k) \<le> 40"
  using length_pr_ptr [of "fst k"] length_pr_ptr [of "the (snd k)"]
  by (cases k rule: call_text.cases) auto

lemma fold_put_bt:
  "length s + 40 * length ws < BUF_SIZE \<Longrightarrow>
     fold_opt (\<lambda>(so, c). put_bt_line d c so) ws (full s, f) =
       Some (full (s @ concat (map call_text (List.map_filter (found_call d) ws))),
             f \<or> List.map_filter (found_call d) ws \<noteq> [])"
proof (induction ws arbitrary: s f)
  case (Cons w ws)
  obtain so c where w: "w = (so, c)" by (cases w)
  show ?case
  proof (cases "found_call d w")
    case None
    with Cons w show ?thesis by (simp add: put_bt_line_def bt_line_call)
  next
    case (Some k)
    have "length s + length (call_text k) < BUF_SIZE" using Cons.prems length_call_text [of k] by simp
    moreover have "length (s @ call_text k) + 40 * length ws < BUF_SIZE"
      using Cons.prems length_call_text [of k] by simp
    note Cons.IH [OF this]
    ultimately show ?thesis using Some w
      by (simp add: put_bt_line_def bt_line_call obuf_printf_fits del: obuf_printf_def)
  qed
qed simp

lemma stack_limit: "8 \<le> (stack_end :: ptr) \<Longrightarrow> stack_end - 8 \<le> - 9"
proof -
  assume a: "8 \<le> stack_end"
  then have "unat (stack_end - 8) = unat stack_end - 8" using unat_sub [OF a] by simp
  with unat_lt_64 [of stack_end] show ?thesis by (simp add: word_le_nat_alt)
qed

lemma find_code_addresses_found:
  assumes "8 \<le> stack_end" "length s + 440 < BUF_SIZE"
  shows "find_code_addresses d e stack_end (full s) =
    Some (full (s @ concat (map call_text (found_calls d e stack_end))), found_calls d e stack_end \<noteq> [])"
proof (cases "he_ffp e = 0")
  case True
  then show ?thesis by (simp add: find_code_addresses_def found_calls_def)
next
  case False
  let ?ws = "take MAX_BT (filter (\<lambda>(so, c). in_range d c) (stack_words (he_stack e) (he_ffp e) stack_end))"
  have "length ?ws \<le> 11" by (simp add: MAX_BT_def)
  then have fits: "length s + 40 * length ?ws < BUF_SIZE" using assms(2) by simp
  have "find_code_addresses d e stack_end (full s) =
      fold_opt (\<lambda>(so, c). put_bt_line d c so) ?ws (full s, False)"
    using find_codes_words [OF stack_limit [OF assms(1)], of 0] False
    by (simp add: find_code_addresses_def stack_words_def MAX_BT_def)
  with fold_put_bt [OF fits] False show ?thesis by (simp add: found_calls_def)
qed

lemma gnu_trace_fits:
  "length s + 20 * length as < BUF_SIZE \<Longrightarrow>
     gnu_trace d as (full s, f) =
       Some (full (s @ concat (map (\<lambda>a. call_text (a, None)) (filter (in_range d) as))),
             f \<or> filter (in_range d) as \<noteq> [])"
proof (induction as arbitrary: s f)
  case (Cons a as)
  have "length s + length (call_text (a, None)) < BUF_SIZE"
    "length (s @ call_text (a, None)) + 20 * length as < BUF_SIZE"
    using Cons.prems length_pr_ptr [of a] by auto
  note Cons.IH [OF this(2), of True] obuf_printf_fits [OF this(1)]
  with Cons show ?case by simp
qed simp

lemma length_map_filter: "length (List.map_filter f xs) \<le> length xs"
  by (induction xs) (auto split: option.splits)

lemma length_found_calls: "length (found_calls d e stack_end) \<le> 11"
proof (cases "he_ffp e = 0")
  case False
  let ?ws = "take MAX_BT (filter (\<lambda>(so, c). in_range d c) (stack_words (he_stack e) (he_ffp e) stack_end))"
  have "length (found_calls d e stack_end) \<le> length ?ws"
    using False by (simp only: found_calls_def if_False length_map_filter)
  also have "\<dots> \<le> 11" by (simp add: MAX_BT_def)
  finally show ?thesis .
qed (simp add: found_calls_def)

lemma length_calls_text: "length (concat (map call_text cs)) \<le> 40 * length cs"
proof (induction cs)
  case (Cons k cs)
  then show ?case using length_call_text [of k] by simp
qed simp

lemma length_found_text: "length (concat (map call_text (found_calls d e stack_end))) \<le> 440"
  using length_calls_text [of "found_calls d e stack_end"] length_found_calls [of d e stack_end] by linarith

text \<open>The head of a line fits with room for the calls and a pointer.\<close>

lemma length_head: "length (''m'' @ pr_ptr a @ '';s'' @ pr_zd n) \<le> 42"
  using length_pr_ptr [of a] length_pr_zd [of n] by simp

lemma report_calls:
  assumes "md_active d" "wanted_size sz d" "3 \<le> md_stage d" "\<not> md_use_gbt d" "\<not> md_discover_ptr d"
    "8 \<le> stack_end" "he_write_ok e"
  shows "md_postprocess_malloc e stack_end sz a d =
    Some (if found_calls d e stack_end = [] then d
          else d\<lparr>md_out := md_out d @ [disc_text (DMalloc a sz (found_calls d e stack_end)) @ [NL]]\<rparr>)"
proof -
  let ?h = "''m'' @ pr_ptr a @ '';s'' @ pr_zd sz"
  let ?c = "concat (map call_text (found_calls d e stack_end))"
  have h: "obuf_printf ?h ([], 0) = Some (full ?h)"
    using obuf_printf_fits [of "[]" ?h] length_head [of a sz] by (simp add: BUF_SIZE_def)
  have fc: "find_code_addresses d e stack_end (full ?h) = Some (full (?h @ ?c), found_calls d e stack_end \<noteq> [])"
    by (rule find_code_addresses_found [OF assms(6)]) (use length_head [of a sz] in \<open>simp add: BUF_SIZE_def\<close>)
  have len: "length ((?h @ ?c) @ [NL]) \<le> 483"
    using length_head [of a sz] length_found_text [of d e stack_end] by simp
  then have nl: "obuf_printf [NL] (full (?h @ ?c)) = Some (full ((?h @ ?c) @ [NL]))"
    by (intro obuf_printf_fits) (simp add: BUF_SIZE_def)
  have "send_disc e d (full ((?h @ ?c) @ [NL])) = Some (d\<lparr>md_out := md_out d @ [(?h @ ?c) @ [NL]]\<rparr>)"
    using len assms(7) by (simp add: send_disc_def nth_append BUF_SIZE_def)
  with h fc nl assms(1-5) show ?thesis
    by (simp add: md_postprocess_malloc_def del: append_assoc)
qed

text \<open>In every stage: the buffer is large enough, and what is sent are whole lines.\<close>

lemma get_ptr_fits:
  assumes "length s + 20 < BUF_SIZE" "s \<noteq> []" "List.last s = NL"
  shows "\<exists>d' s'. get_ptr_to_heap e stack_end sz a d (full s) = Some (d', full s') \<and> md_out d' = md_out d \<and>
    s' \<noteq> [] \<and> List.last s' = NL \<and> length s' \<le> length s + 20"
proof -
  have "obuf_printf (''p'' @ pr_ptr p @ [NL]) (full s) = Some (full (s @ ''p'' @ pr_ptr p @ [NL]))" for p
    by (rule obuf_printf_fits) (use assms(1) length_pr_ptr [of p] in simp)
  with assms length_pr_ptr show ?thesis
    by (auto simp: get_ptr_to_heap_def Let_def)
qed

lemma report_fits:
  assumes "he_write_ok e" "8 \<le> stack_end" "length (he_trace e) \<le> 4"
  shows "\<exists>d'. md_postprocess_malloc e stack_end sz a d = Some d' \<and>
    (md_out d' = md_out d \<or>
     (\<exists>s. md_out d' = md_out d @ [s] \<and> s \<noteq> [] \<and> List.last s = NL \<and> length s < BUF_SIZE))"
proof (cases "md_active d \<and> wanted_size sz d")
  case True
  let ?h = "''m'' @ pr_ptr a @ '';s'' @ pr_zd sz"
  have h: "obuf_printf ?h ([], 0) = Some (full ?h)"
    using obuf_printf_fits [of "[]" ?h] length_head [of a sz] by (simp add: BUF_SIZE_def)
  let ?f = "if md_stage d < 3 then Some (full ?h, True)
    else if md_use_gbt d then run_gnu_backtrace d e (full ?h) else find_code_addresses d e stack_end (full ?h)"
  obtain c f where c: "?f = Some (full (?h @ c), f)" "length c \<le> 440"
  proof -
    have gl: "length ?h + 20 * length (tl (he_trace e)) < BUF_SIZE"
      using length_head [of a sz] assms(3) by (simp add: BUF_SIZE_def)
    let ?g = "map (\<lambda>a. (a, None :: ptr option)) (filter (in_range d) (tl (he_trace e)))"
    have "length ?g \<le> 4" 
      using assms(3) length_filter_le [of "in_range d" "tl (he_trace e)"] by simp
    then have g: "length (concat (map call_text ?g)) \<le> 440" using length_calls_text [of ?g] by linarith
    have "length ?h + 440 < BUF_SIZE" using length_head [of a sz] by (simp add: BUF_SIZE_def)
    note fc = find_code_addresses_found [OF assms(2) this, of d e]
    consider "md_stage d < 3" | "\<not> md_stage d < 3" "md_use_gbt d" | "\<not> md_stage d < 3" "\<not> md_use_gbt d" by blast
    then show thesis
    proof cases
      case 1
      then show thesis by (intro that [of "[]" True]) simp_all
    next
      case 2
      with gnu_trace_fits [OF gl, of d False] show thesis
        by (intro that [OF _ g]) (simp only: run_gnu_backtrace_def if_False if_True map_map comp_def)
    next
      case 3
      with fc show thesis by (intro that [OF _ length_found_text]) (simp only: if_False)
    qed
  qed
  show ?thesis
  proof (cases f)
    case True
    let ?s = "(?h @ c) @ [NL]"
    have len: "length ?s \<le> 483" using length_head [of a sz] c(2) by simp
    have nl: "obuf_printf [NL] (full (?h @ c)) = Some (full ?s)"
      by (rule obuf_printf_fits) (use len in \<open>simp add: BUF_SIZE_def\<close>)
    let ?p = "if md_discover_ptr d then get_ptr_to_heap e stack_end sz a d (full ?s) else Some (d, full ?s)"
    have "\<exists>d' s'. ?p = Some (d', full s') \<and> md_out d' = md_out d \<and> s' \<noteq> [] \<and> List.last s' = NL \<and> length s' \<le> 503"
      using get_ptr_fits [of ?s e stack_end sz a d] len by (auto simp: BUF_SIZE_def)
    then obtain d' s' where p: "?p = Some (d', full s')" "md_out d' = md_out d" "s' \<noteq> []"
      "List.last s' = NL" "length s' \<le> 503" by blast
    have "send_disc e d' (full s') = Some (d'\<lparr>md_out := md_out d' @ [s']\<rparr>)"
      using p(3-5) assms(1) by (cases s' rule: rev_cases) (auto simp: send_disc_def BUF_SIZE_def nth_append)
    with h c(1) nl p True \<open>md_active d \<and> wanted_size sz d\<close> show ?thesis
      by (auto simp: md_postprocess_malloc_def BUF_SIZE_def simp del: append_assoc append.simps)
  next
    case False
    with h c(1) True show ?thesis
      by (auto simp: md_postprocess_malloc_def simp del: append_assoc append.simps)
  qed
qed (auto simp: md_postprocess_malloc_def)

end
