(* ===== verification/DiscHandshake.thy ===== *)
theory DiscHandshake
  imports Handshake Discovery MemdiscFun
begin

text \<open>
  The trainer and \<open>libmemdisc\<close> agree on a discovery request: the text of the documented forms
  (\<open>doc/ugtrain-dynmem.md\<close>) is accepted by the trainer, sent to the library and read there as the same
  request, and the bounds that the trainer sends for the filter are those the library uses.
\<close>

subsection \<open>Requests\<close>

datatype disc_filter = Whole | Exe | InLib string

datatype disc_req =
    Sizes | Size "64 word option"
  | Codes bool disc_filter "64 word" "ptr option"
  | Offsets disc_filter "64 word" "ptr option"

fun filter_text :: "disc_filter \<Rightarrow> string" where
  "filter_text Whole = []"
| "filter_text Exe = '';exe''"
| "filter_text (InLib l) = CHR '';'' # l"

definition code_text :: "ptr option \<Rightarrow> string" where
  "code_text c = (case c of None \<Rightarrow> [] | Some a \<Rightarrow> '';'' @ pr_ptr a)"

fun req_text :: "disc_req \<Rightarrow> string" where
  "req_text Sizes = ''1''"
| "req_text (Size None) = ''2''"
| "req_text (Size (Some n)) = ''2;'' @ pr_ul n"
| "req_text (Codes g f n c) = ''3'' @ (if g then '';gbt'' else []) @ filter_text f @ '';'' @ pr_ul n @ code_text c"
| "req_text (Offsets f n c) = ''4'' @ filter_text f @ '';'' @ pr_ul n @ code_text c"

text \<open>
  The names that both sides take for libraries: a name must not begin with \<open>exe\<close> or \<open>gbt\<close>.
\<close>

fun filter_ok :: "disc_filter \<Rightarrow> bool" where
  "filter_ok (InLib l) \<longleftrightarrow> l \<noteq> [] \<and> c_isalpha (hd l) \<and> (\<forall>c \<in> set l. plain_char c) \<and>
     \<not> is_prefix ''exe'' l \<and> \<not> is_prefix ''gbt'' l"
| "filter_ok _ \<longleftrightarrow> True"

fun req_ok :: "disc_req \<Rightarrow> bool" where
  "req_ok (Size (Some n)) \<longleftrightarrow> unat n < 2 ^ 63"
| "req_ok (Codes g f n c) \<longleftrightarrow> filter_ok f \<and> n \<noteq> 0 \<and> unat n < 2 ^ 63"
| "req_ok (Offsets f n c) \<longleftrightarrow> filter_ok f \<and> n \<noteq> 0 \<and> unat n < 2 ^ 63"
| "req_ok _ \<longleftrightarrow> True"

text \<open>
  What the library is to know of it. In stage 3 only the trainer uses the code address, for the
  search of the discovery file.
\<close>

fun req_stage :: "disc_req \<Rightarrow> nat" where
  "req_stage Sizes = 1" | "req_stage (Size n) = 2" | "req_stage (Codes g f n c) = 3"
| "req_stage (Offsets f n c) = 4"

fun req_size :: "disc_req \<Rightarrow> 64 word" where
  "req_size Sizes = 0" | "req_size (Size n) = (case n of None \<Rightarrow> 0 | Some n \<Rightarrow> n)" | "req_size (Codes g f n c) = n"
| "req_size (Offsets f n c) = n"

fun req_gbt :: "disc_req \<Rightarrow> bool" where
  "req_gbt (Codes g f n c) = g" | "req_gbt _ = False"

fun req_filter :: "disc_req \<Rightarrow> disc_filter" where
  "req_filter (Codes g f n c) = f" | "req_filter (Offsets f n c) = f" | "req_filter _ = Whole"

fun req_code :: "disc_req \<Rightarrow> ptr" where
  "req_code (Offsets f n (Some a)) = a" | "req_code _ = 0"

fun trainer_code :: "disc_req \<Rightarrow> ptr" where
  "trainer_code (Codes g f n (Some a)) = a" | "trainer_code (Offsets f n (Some a)) = a" | "trainer_code _ = 0"

text \<open>
  The range of code addresses in the documentation (all, without a filter), and the code address
  after moving.
\<close>

definition req_range :: "region list \<Rightarrow> disc_req \<Rightarrow> ptr \<times> ptr" where
  "req_range rl q = (case req_filter q of
     Whole \<Rightarrow> (0, PTR_MAX)
   | Exe \<Rightarrow> (case find_exe_region rl of (s, e, offs) \<Rightarrow> (s, e))
   | InLib l \<Rightarrow> find_lib_region rl l)"

text \<open>The library leaves the range closed if there is a code address and no filter.\<close>

definition range_closed :: "disc_req \<Rightarrow> bool" where
  "range_closed q \<longleftrightarrow> req_filter q = Whole \<and> req_code q \<noteq> 0"

definition req_load :: "region list \<Rightarrow> disc_req \<Rightarrow> ptr" where
  "req_load rl q = (case req_filter q of
     Whole \<Rightarrow> 0
   | Exe \<Rightarrow> (case find_exe_region rl of (s, e, offs) \<Rightarrow> offs)
   | InLib l \<Rightarrow> fst (find_lib_region rl l))"

definition req_moved :: "region list \<Rightarrow> disc_req \<Rightarrow> ptr" where
  "req_moved rl q = (if req_code q \<noteq> 0 \<and> req_code q \<le> PTR_MAX - req_load rl q
     then req_code q + req_load rl q else req_code q)"

subsection \<open>Reading the parts\<close>

lemma pr_ul_first: obtains x xs where "pr_ul n = x # xs" "c_isdigit x"
proof -
  have "pr_ul n \<noteq> []" by (simp add: pr_ul_def pr_dec_def)
  moreover have "\<forall>c \<in> set (pr_ul n). is_digit 10 c"
    using digits_are_digits [of 10 "unat n"] by (simp add: pr_ul_def pr_dec_def)
  ultimately show thesis using that
    by (cases "pr_ul n") (auto simp: is_digit_def digit_val_def c_isupper_def c_islower_def c_isdigit_def split: if_splits)
qed

lemma digit_kind:
  assumes "c_isdigit x" shows "\<not> c_isalpha x" "\<not> c_isspace x" "x \<noteq> CHR ''g''"
  using assms by (auto simp: c_isdigit_def c_isalpha_def c_isupper_def c_islower_def c_isspace_def)

lemma scan_size_text:
  assumes "unat n < 2 ^ 63" "num_stop r"
  shows "scan_size (CHR '';'' # pr_ul n @ r) = (1, n, r)"
proof -
  obtain x xs where x: "pr_ul n = x # xs" "c_isdigit x" by (rule pr_ul_first)
  have "dropWhile c_isspace (pr_ul n @ r) \<noteq> []" using x digit_kind by simp
  with scan_l_pr_ul [of n r] assms show ?thesis by (simp add: scan_size_def)
qed

lemma filter_name:
  assumes "filter_ok (InLib l)"
  shows "strchr (CHR '';'' # l @ CHR '';'' # r) 1 (CHR '';'') = Some (Suc (length l))"
  using assms by (subst strchr_skip [where xs = l and ys = r]) (auto simp: plain_char_def)

lemma exe_not_prefix: "filter_ok (InLib l) \<Longrightarrow> l \<noteq> ''exe''"
  by (auto simp: is_prefix_def)

lemma md_filter_text:
  assumes "filter_ok f"
  shows "md_parse_bt_filter (filter_text f @ CHR '';'' # pr_ul n @ r) d =
    Some (case f of Whole \<Rightarrow> d | Exe \<Rightarrow> d\<lparr>md_bt_filter := Some []\<rparr> | InLib l \<Rightarrow> d\<lparr>md_bt_filter := Some l\<rparr>,
          CHR '';'' # pr_ul n @ r)"
proof (cases f)
  case Whole
  obtain x xs where "pr_ul n = x # xs" "c_isdigit x" by (rule pr_ul_first)
  with digit_kind Whole show ?thesis by (simp add: md_parse_bt_filter_def)
next
  case Exe
  have "strchr (CHR '';'' # ''exe'' @ CHR '';'' # pr_ul n @ r) 1 (CHR '';'') = Some (1 + length ''exe'')"
    by (rule strchr_skip) auto
  with Exe show ?thesis
    by (simp add: md_parse_bt_filter_def c_isalpha_def c_islower_def)
next
  case (InLib l)
  obtain y ys where "l = y # ys" "c_isalpha y" using assms InLib by (cases l) auto
  with filter_name [of l "pr_ul n @ r"] exe_not_prefix [of l] assms InLib show ?thesis
    by (simp add: md_parse_bt_filter_def)
qed

lemma do_filter_text:
  assumes "filter_ok f"
  shows "do_parse_bt_filter (filter_text f @ CHR '';'' # pr_ul n @ r) o' =
    Some (case f of Whole \<Rightarrow> o' | Exe \<Rightarrow> o'\<lparr>do_lib := [SOH]\<rparr> | InLib l \<Rightarrow> o'\<lparr>do_lib := l\<rparr>,
          CHR '';'' # pr_ul n @ r)"
proof (cases f)
  case Whole
  obtain x xs where "pr_ul n = x # xs" "c_isdigit x" by (rule pr_ul_first)
  with digit_kind Whole show ?thesis by (simp add: do_parse_bt_filter_def)
next
  case Exe
  have "strchr (CHR '';'' # ''exe'' @ CHR '';'' # pr_ul n @ r) 1 (CHR '';'') = Some (1 + length ''exe'')"
    by (rule strchr_skip) auto
  with Exe show ?thesis
    by (simp add: do_parse_bt_filter_def c_isalpha_def c_islower_def is_prefix_def)
next
  case (InLib l)
  obtain y ys where "l = y # ys" "c_isalpha y" using assms InLib by (cases l) auto
  with filter_name [of l "pr_ul n @ r"] assms InLib show ?thesis
    by (simp add: do_parse_bt_filter_def)
qed

lemma scan_size_code_text:
  "scan_size_code (CHR '';'' # pr_ul n @ code_text c) = Some (n, case c of None \<Rightarrow> 0 | Some a \<Rightarrow> a)"
  using scan_ul_pr_ul [of "[]" n] scan_ptr_pr_ptr [where r = "[]"] scan_ul_pr_ul [where r = "CHR '';'' # r" for r]
  by (cases c) (simp_all add: code_text_def scan_size_code_def, simp_all add: scan_lit_def is_prefix_def)

text \<open>The word \<open>gbt\<close> in front of the filter.\<close>

lemma no_gbt:
  assumes "filter_ok f"
  shows "\<not> gbt_cmd (filter_text f @ CHR '';'' # pr_ul n @ r)"
    "\<not> is_prefix '';gbt;'' (filter_text f @ CHR '';'' # pr_ul n @ r)"
proof -
  obtain x xs where x: "pr_ul n = x # xs" "c_isdigit x" by (rule pr_ul_first)
  have "\<not> gbt_cmd (filter_text f @ CHR '';'' # pr_ul n @ r) \<and>
    \<not> is_prefix '';gbt;'' (filter_text f @ CHR '';'' # pr_ul n @ r)"
  proof (cases f)
    case (InLib l)
    obtain y ys where y: "l = y # ys" "c_isalpha y" using assms InLib by (cases l) auto
    then have "\<not> c_isspace y"
      by (auto simp: c_isalpha_def c_isspace_def c_isupper_def c_islower_def)
    with y assms InLib show ?thesis
      by (cases ys; cases "tl ys") (auto simp: gbt_cmd_def is_prefix_def GBT_CMD_def plain_char_def)
  qed (use x digit_kind in \<open>auto simp: gbt_cmd_def is_prefix_def GBT_CMD_def scan_lit_def c_isspace_def\<close>)
  then show "\<not> gbt_cmd (filter_text f @ CHR '';'' # pr_ul n @ r)"
    "\<not> is_prefix '';gbt;'' (filter_text f @ CHR '';'' # pr_ul n @ r)" by simp_all
qed

lemma gbt_first: "gbt_cmd (CHR '';'' # CHR ''g'' # CHR ''b'' # CHR ''t'' # s)"
  by (simp add: gbt_cmd_def GBT_CMD_def c_isspace_def)

lemma filter_text_semi: "\<exists>t. filter_text f @ CHR '';'' # s = CHR '';'' # t"
  by (cases f) auto

subsection \<open>Both sides\<close>

lemma num_stop_code: "num_stop (code_text c @ [NL])" "num_stop (code_text c)"
  by (cases c; simp add: code_text_def)+

definition sent_req :: "disc_req \<Rightarrow> string" where
  "sent_req q = (if q = Sizes \<or> q = Size None then req_text q @ '';0'' else req_text q)"

lemma prepare_backtrace_text:
  assumes "filter_ok f" "n \<noteq> 0" "do_lib o' = []"
  shows "prepare_backtrace (filter_text f @ CHR '';'' # pr_ul n @ code_text c) o' =
    Some (o'\<lparr>do_lib := (case f of Whole \<Rightarrow> [] | Exe \<Rightarrow> [SOH] | InLib l \<Rightarrow> l),
      do_code_addr := (case c of None \<Rightarrow> 0 | Some a \<Rightarrow> a)\<rparr>)"
  using do_filter_text [OF assms(1), of n "code_text c" o'] scan_size_code_text [of n c] assms(2,3)
  by (cases f) (simp_all add: prepare_backtrace_def)

lemma prepare_discovery_text:
  assumes "req_ok q" "do_str o' = req_text q" "do_lib o' = []" "do_offs o' = 0"
  shows "prepare_discovery o' = Some (o'\<lparr>do_str := sent_req q,
    do_lib := (case req_filter q of Whole \<Rightarrow> [] | Exe \<Rightarrow> [SOH] | InLib l \<Rightarrow> l),
    do_code_addr := (if 3 \<le> req_stage q then trainer_code q else do_code_addr o')\<rparr>)"
proof (cases q)
  case Sizes
  with assms show ?thesis by (simp add: prepare_discovery_def prepare_stage_def sent_req_def)
next
  case (Size m)
  show ?thesis
  proof (cases m)
    case None
    with assms Size show ?thesis by (simp add: prepare_discovery_def prepare_stage_def sent_req_def)
  next
    case (Some n)
    then have "scan_size (CHR '';'' # pr_ul n) = (1, n, [])" using scan_size_text [of n "[]"] assms(1) Size by simp
    with assms Size Some show ?thesis by (simp add: prepare_discovery_def prepare_stage_def sent_req_def)
  qed
next
  case (Codes g f n c)
  obtain t where t: "filter_text f @ CHR '';'' # pr_ul n @ code_text c = CHR '';'' # t" using filter_text_semi by blast
  have ok: "filter_ok f" "n \<noteq> 0" using assms(1) Codes by simp_all
  have "prepare_stage (req_text q) o' = prepare_backtrace (filter_text f @ CHR '';'' # pr_ul n @ code_text c) o'"
    using Codes no_gbt(2) [OF ok(1), of n "code_text c"] t by (cases g) (simp_all add: prepare_stage_def is_prefix_def)
  then show ?thesis
    using prepare_backtrace_text [OF ok assms(3), of c] assms(2-4) Codes
    by (cases c) (simp_all add: prepare_discovery_def sent_req_def)
next
  case (Offsets f n c)
  have ok: "filter_ok f" "n \<noteq> 0" using assms(1) Offsets by simp_all
  have "prepare_stage (req_text q) o' = prepare_backtrace (filter_text f @ CHR '';'' # pr_ul n @ code_text c) o'"
    using Offsets by (simp add: prepare_stage_def)
  then show ?thesis
    using prepare_backtrace_text [OF ok assms(3), of c] assms(2-4) Offsets
    by (cases c) (simp_all add: prepare_discovery_def sent_req_def)
qed

text \<open>The library reads the text that the trainer sends.\<close>

definition req_state :: "disc_req \<Rightarrow> memdisc \<Rightarrow> memdisc" where
  "req_state q d = d\<lparr>md_stage := req_stage q, md_malloc_size := req_size q, md_use_gbt := req_gbt q,
     md_code_addr := req_code q,
     md_bt_filter := (case req_filter q of Whole \<Rightarrow> None | Exe \<Rightarrow> Some [] | InLib l \<Rightarrow> Some l)\<rparr>"

lemma req_chars: "req_ok q \<Longrightarrow> c \<in> set (req_text q) \<Longrightarrow> c \<noteq> NUL \<and> c \<noteq> NL"
proof -
  have f: "filter_ok f \<Longrightarrow> c \<in> set (filter_text f) \<Longrightarrow> c \<noteq> NUL \<and> c \<noteq> NL" for f
    by (cases f) (auto simp: plain_char_def)
  show "req_ok q \<Longrightarrow> c \<in> set (req_text q) \<Longrightarrow> c \<noteq> NUL \<and> c \<noteq> NL"
    by (cases q rule: req_text.cases) (auto simp: code_text_def dest: pr_safe f split: if_splits option.splits)
qed

lemma stage_cfg_text:
  assumes "req_ok q"
  shows "stage_cfg (sent_req q @ [NL]) (memdisc_start\<lparr>md_in_open := True\<rparr>) =
    Inr (req_state q (memdisc_start\<lparr>md_in_open := True\<rparr>))"
proof (cases q)
  case Sizes
  then show ?thesis by (simp add: sent_req_def stage_cfg_def req_state_def memdisc_start_def)
next
  case (Size m)
  have two: "stage_cfg (CHR ''2'' # CHR '';'' # pr_ul n @ [NL]) (memdisc_start\<lparr>md_in_open := True\<rparr>) =
      Inr (req_state (Size (Some n)) (memdisc_start\<lparr>md_in_open := True\<rparr>))" if "unat n < 2 ^ 63" for n
    using scan_size_text [OF that, of "[NL]"] by (simp add: stage_cfg_def req_state_def memdisc_start_def)
  have "digit_char 0 = CHR ''0''" by code_simp
  then have zero: "pr_ul 0 = ''0''" by (simp add: pr_ul_def pr_dec_def digits.simps [of 10 0])
  show ?thesis
  proof (cases m)
    case None
    with two [of 0] Size show ?thesis by (simp add: sent_req_def zero req_state_def)
  next
    case (Some n)
    with two [of n] assms Size show ?thesis by (simp add: sent_req_def)
  qed
next
  case (Codes g f n c)
  let ?r = "code_text c @ [NL]"
  let ?d = "memdisc_start\<lparr>md_in_open := True\<rparr>" and ?t = "filter_text f @ CHR '';'' # pr_ul n @ ?r"
  have ok: "filter_ok f" "n \<noteq> 0" "unat n < 2 ^ 63" using assms Codes by simp_all
  have "scan_size (CHR '';'' # pr_ul n @ ?r) = (1, n, ?r)" by (rule scan_size_text [OF ok(3) num_stop_code(1)])
  moreover have "stage_cfg (sent_req q @ [NL]) ?d = stage3_cfg ((if g then '';gbt'' else []) @ ?t) ?d"
    using Codes by (simp add: sent_req_def stage_cfg_def)
  moreover have "gbt_cmd ((if g then '';gbt'' else []) @ ?t) = g"
    using no_gbt(1) [OF ok(1)] gbt_first by simp
  ultimately show ?thesis using md_filter_text [OF ok(1), of n ?r] ok(2) Codes
    by (cases f; cases g) (simp_all add: stage3_cfg_def Let_def req_state_def memdisc_start_def)
next
  case (Offsets f n c)
  let ?r = "code_text c @ [NL]"
  let ?d = "memdisc_start\<lparr>md_in_open := True\<rparr>" and ?t = "filter_text f @ CHR '';'' # pr_ul n @ ?r"
  have ok: "filter_ok f" "unat n < 2 ^ 63" using assms Offsets by simp_all
  have "scan_size (CHR '';'' # pr_ul n @ ?r) = (1, n, ?r)" by (rule scan_size_text [OF ok(2) num_stop_code(1)])
  moreover have "stage_cfg (sent_req q @ [NL]) ?d = stage4_cfg ?t ?d"
    using Offsets by (simp add: sent_req_def stage_cfg_def)
  moreover have "scan_lit '';'' ?r \<bind> scan_ptr = (case c of None \<Rightarrow> None | Some a \<Rightarrow> Some (a, [NL]))"
    by (cases c) (simp_all add: code_text_def scan_ptr_pr_ptr, simp add: scan_lit_def is_prefix_def)
  ultimately show ?thesis using md_filter_text [OF ok(1), of n ?r] Offsets
    by (cases f; cases c) (simp_all add: stage4_cfg_def Let_def req_state_def memdisc_start_def)
qed

text \<open>The bounds that the trainer sends.\<close>

lemma scan_ptrs_text:
  "scan_ptrs 2 (pr_ptr a @ CHR '';'' # pr_ptr b @ [NL]) = [a, b]"
  "scan_ptrs 3 (pr_ptr a @ CHR '';'' # pr_ptr b @ CHR '';'' # pr_ptr c @ [NL]) = [a, b, c]"
  by (simp_all add: numeral_eq_Suc scan_ptr_pr_ptr) (simp_all add: scan_lit_def is_prefix_def)

lemma bounds_text_short:
  "length (lib_bounds a b) \<le> 38" "length (pr_ptr a @ '';'' @ pr_ptr b @ '';'' @ pr_ptr c @ [NL]) \<le> 57"
  using length_pr_ptr [of a] length_pr_ptr [of b] length_pr_ptr [of c] by (simp_all add: lib_bounds_def)

lemma cstr_line: "\<forall>c \<in> set s. c \<noteq> NUL \<Longrightarrow> cstr s = s"
  using cstr_append [of s "[]"] by simp

lemma set_bt_addrs_text:
  "set_bt_addrs (Some (lib_bounds s e)) d =
     (let d1 = d\<lparr>md_bt_saddr := s, md_bt_eaddr := e\<rparr>
      in if md_code_addr d \<noteq> 0 \<and> md_code_addr d \<le> PTR_MAX - s
         then let orig = (if md_orig_code_addr d = 0 then md_code_addr d else md_orig_code_addr d)
              in d1\<lparr>md_orig_code_addr := orig, md_code_addr := orig + s\<rparr>
         else d1)"
proof -
  have "cstr (take 127 (lib_bounds s e)) = lib_bounds s e"
    using bounds_text_short(1) [of s e] pr_safe by (subst cstr_line) (auto simp: lib_bounds_def)
  then show ?thesis by (simp add: set_bt_addrs_def lib_bounds_def scan_ptrs_text Let_def)
qed

definition agrees :: "region list \<Rightarrow> disc_req \<Rightarrow> memdisc \<Rightarrow> bool" where
  "agrees rl q d \<longleftrightarrow> md_active d \<and> md_stage d = req_stage q \<and> md_malloc_size d = req_size q \<and>
     md_use_gbt d = req_gbt q \<and> \<not> md_discover_ptr d \<and> md_code_addr d = req_moved rl q \<and>
     (md_bt_saddr d, md_bt_eaddr d) = (if range_closed q then (0, 0) else req_range rl q)"

lemma start_disc_text:
  assumes d: "d = memdisc_start\<lparr>md_in_open := True\<rparr>" and ok: "req_ok q"
    and a: "handle_aslr (sent_req q) (case req_filter q of Whole \<Rightarrow> [] | Exe \<Rightarrow> [SOH] | InLib l \<Rightarrow> l) rl w = Some (w', reply)"
    and p: "\<not> w_pure_statmem w"
  shows "agrees rl q (start_disc stack_end True reply (req_state q d))"
proof -
  obtain s e offs where x: "find_exe_region rl = (s, e, offs)" by (metis prod_cases3)
  obtain ls le where l: "req_filter q = InLib lib \<Longrightarrow> find_lib_region rl lib = (ls, le)" for lib
  proof (cases "req_filter q")
    case (InLib lib)
    then show thesis using that by (cases "find_lib_region rl lib") auto
  qed (use that in auto)
  have ne: "sent_req q \<noteq> []" by (cases q rule: req_text.cases) (auto simp: sent_req_def)
  show ?thesis
  proof (cases "req_filter q")
    case Whole
    then show ?thesis
      by (cases q) (auto simp: agrees_def start_disc_def open_range_def activate_disc_def close_input_def req_state_def d
          memdisc_start_def disc_cfg_zero_def req_range_def range_closed_def req_moved_def req_load_def)
  next
    case Exe
    let ?t = "pr_ptr s @ '';'' @ pr_ptr e @ '';'' @ pr_ptr offs @ [NL]"
    have r: "reply = Some ?t" using a ne p x Exe by (auto simp: handle_aslr_def Let_def)
    have "cstr (take (BUF_SIZE - 1) ?t) = ?t"
      using bounds_text_short(2) [of s e offs] pr_safe by (subst cstr_line) (auto simp: BUF_SIZE_def)
    then have sc: "scan_ptrs 3 (cstr (take (BUF_SIZE - 1) ?t)) = [s, e, offs]" by (simp add: scan_ptrs_text)
    have "3 \<le> req_stage q" using Exe by (cases q) auto
    then show ?thesis using Exe sc x unfolding r
      by (cases q) (auto simp: agrees_def start_disc_def open_range_def activate_disc_def close_input_def req_state_def d
          memdisc_start_def disc_cfg_zero_def req_range_def range_closed_def req_moved_def req_load_def update_cfg_for_pie_def Let_def)
  next
    case (InLib lib)
    have "filter_ok (InLib lib)" using ok InLib by (cases q) auto
    then obtain y ys where y: "lib = y # ys" "c_isalpha y" by (cases lib) auto
    then have "y \<noteq> SOH" by (auto simp: SOH_def c_isalpha_def c_isupper_def c_islower_def)
    then have r: "reply = Some (lib_bounds ls le)"
      using a ne p l [OF InLib] x InLib y(1) by (auto simp: handle_aslr_def Let_def)
    have "3 \<le> req_stage q" using InLib by (cases q) auto
    then show ?thesis using InLib l [OF InLib] y(1) unfolding r
      by (cases q) (auto simp: agrees_def start_disc_def open_range_def activate_disc_def close_input_def req_state_def d
          memdisc_start_def disc_cfg_zero_def req_range_def range_closed_def req_moved_def req_load_def set_bt_addrs_text Let_def)
  qed
qed

lemma sent_req_shape: obtains ch t where "sent_req q = ch # t" "ch \<noteq> CHR ''p''" "CHR ''1'' \<le> ch" "ch \<le> CHR ''4''"
  by (cases q rule: req_text.cases) (auto simp: sent_req_def less_eq_char_def)

lemma disc_handshake:
  assumes ok: "req_ok q" and o': "do_str o' = req_text q" "do_lib o' = []" "do_offs o' = 0"
    and len: "length (sent_req q) + 2 \<le> PIPE_BUF" and p: "\<not> w_pure_statmem w"
    and ex: "case expected of Some e \<Rightarrow> e = progname | None \<Rightarrow> True"
  shows "\<exists>o1 msg w' reply. prepare_discovery o' = Some o1 \<and>
    do_code_addr o1 = (if 3 \<le> req_stage q then trainer_code q else do_code_addr o') \<and> prepare_dynmem (do_str o1) gbt w = Some (Inr msg) \<and>
    handle_aslr (do_str o1) (do_lib o1) rl w = Some (w', reply) \<and>
    agrees rl q (memdisc_init expected progname stack_end (Some msg) True reply memdisc_start)"
proof -
  let ?lib = "case req_filter q of Whole \<Rightarrow> [] | Exe \<Rightarrow> [SOH] | InLib l \<Rightarrow> l"
  let ?msg = "sent_req q @ [NL, NUL]" and ?d = "memdisc_start\<lparr>md_in_open := True\<rparr>"
  obtain o1 where o1: "prepare_discovery o' = Some o1" "do_str o1 = sent_req q" "do_lib o1 = ?lib"
      "do_code_addr o1 = (if 3 \<le> req_stage q then trainer_code q else do_code_addr o')"
    using prepare_discovery_text [OF ok o'] by simp
  obtain ch t where t: "sent_req q = ch # t" "ch \<noteq> CHR ''p''" "CHR ''1'' \<le> ch" "ch \<le> CHR ''4''"
    by (rule sent_req_shape)
  have msg: "prepare_dynmem (do_str o1) gbt w = Some (Inr ?msg)"
    using o1(2) t(1) len by (simp add: prepare_dynmem_def)
  have "handle_aslr (do_str o1) (do_lib o1) rl w \<noteq> None"
    using o1(2) t(1) p by (simp add: handle_aslr_def Let_def split: prod.split list.split)
  then obtain w' reply where a: "handle_aslr (do_str o1) (do_lib o1) rl w = Some (w', reply)" by auto
  have no: "c \<noteq> NUL" if "c \<in> set (ch # t)" for c
    using that req_chars [OF ok, of c] t(1) by (auto simp: sent_req_def split: if_splits)
  have "take (BUF_SIZE - 2) (t @ [NL, NUL]) = (t @ [NL]) @ take (BUF_SIZE - 2 - length (t @ [NL])) [NUL]"
    using len t(1) by (simp add: PIPE_BUF_def BUF_SIZE_def take_Cons')
  moreover have "cstr ((t @ [NL]) @ take k [NUL]) = t @ [NL]" for k
    using no by (subst cstr_append) (auto simp: take_Cons')
  ultimately have "stage_text ch (t @ [NL, NUL]) ?d = Inr (?d, sent_req q @ [NL])"
    using t by (simp add: stage_text_def read_stage_cfg_def)
  then have "memdisc_init expected progname stack_end (Some ?msg) True reply memdisc_start =
      start_disc stack_end True reply (req_state q ?d)"
    using stage_cfg_text [OF ok] ex t(1)
    by (simp add: memdisc_init_def memdisc_start_def split: option.splits)
  moreover have "agrees rl q (start_disc stack_end True reply (req_state q ?d))"
    by (rule start_disc_text [OF refl ok _ p]) (use a o1(2,3) in simp)
  ultimately have "agrees rl q (memdisc_init expected progname stack_end (Some ?msg) True reply memdisc_start)" by simp
  with o1(1,4) msg a show ?thesis by (intro exI conjI)
qed

subsection \<open>Where the two sides do not agree\<close>

text \<open>
  With a code address and without a filter the range is the address 0 only: nothing is ever found.
\<close>

lemma unfiltered_silent:
  assumes d: "agrees rl q d" and q: "q = Offsets Whole n (Some a)" "a \<noteq> 0"
    and w: "he_write_ok e" "8 \<le> se"
  shows "md_postprocess_malloc e se sz m d = Some d"
proof -
  have r: "md_bt_saddr d = 0" "md_bt_eaddr d = 0" "md_stage d = 4" "md_code_addr d = a" "\<not> md_use_gbt d"
    "\<not> md_discover_ptr d" "md_active d"
    using d q by (auto simp: agrees_def range_closed_def req_moved_def req_load_def)
  have "List.map_filter (found_call d) (take k (filter (\<lambda>(so, c). in_range d c) ws)) = []" for k ws
  proof -
    have "found_call d x = None" if "x \<in> set (take k (filter (\<lambda>(so, c). in_range d c) ws))" for x
      using set_take_subset that r q(2) by (fastforce simp: found_call_def in_range_def)
    then show ?thesis by (induction "take k (filter (\<lambda>(so, c). in_range d c) ws)") (auto simp: List.map_filter_def)
  qed
  then have "found_calls d e se = []" by (simp add: found_calls_def)
  with report_calls [where d = d and sz = sz and e = e and stack_end = se and a = m] r w show ?thesis
    by (cases "wanted_size sz d") (auto simp: md_postprocess_malloc_def)
qed

lemma unfiltered_request_silent:
  assumes o': "do_str o' = ''4;'' @ pr_ul n @ '';'' @ pr_ptr a" "do_lib o' = []" "do_offs o' = 0"
    and na: "a \<noteq> 0" "n \<noteq> 0" "unat n < 2 ^ 63" and p: "\<not> w_pure_statmem w"
    and ex: "case expected of Some e \<Rightarrow> e = progname | None \<Rightarrow> True" and e: "he_write_ok e" "8 \<le> se"
  shows "\<exists>o1 msg w' reply d. prepare_discovery o' = Some o1 \<and> prepare_dynmem (do_str o1) gbt w = Some (Inr msg) \<and>
    handle_aslr (do_str o1) (do_lib o1) rl w = Some (w', reply) \<and>
    d = memdisc_init expected progname stack_end (Some msg) True reply memdisc_start \<and>
    md_active d \<and> md_stage d = 4 \<and> md_code_addr d = a \<and> md_postprocess_malloc e se sz m d = Some d"
proof -
  let ?q = "Offsets Whole n (Some a)"
  have "unat n < 10 ^ 20" using na(3) by simp
  then have "length (pr_ul n) \<le> 20" using length_digits [of 10 "unat n" 20] by (simp add: pr_ul_def pr_dec_def)
  then have "length (sent_req ?q) + 2 \<le> PIPE_BUF"
    using length_pr_ptr [of a] by (simp add: sent_req_def code_text_def PIPE_BUF_def)
  from disc_handshake [of ?q, OF _ _ o'(2,3) this p ex] o'(1) na obtain o1 msg w' reply where
    r: "prepare_discovery o' = Some o1" "prepare_dynmem (do_str o1) gbt w = Some (Inr msg)"
      "handle_aslr (do_str o1) (do_lib o1) rl w = Some (w', reply)"
    and d: "agrees rl ?q (memdisc_init expected progname stack_end (Some msg) True reply memdisc_start)"
    by (fastforce simp: code_text_def)
  have "req_moved rl ?q = a" by (simp add: req_moved_def req_load_def)
  with d unfiltered_silent [OF d refl na(1) e] r show ?thesis by (fastforce simp: agrees_def)
qed

text \<open>
  A library whose name begins with \<open>exe\<close> is the executable for the trainer, but a library for
  \<open>libmemdisc\<close>.
\<close>

lemma exe_like_name:
  assumes "l = ''exe'' @ x # l'" "\<forall>c \<in> set l. plain_char c"
  shows "do_parse_bt_filter (CHR '';'' # l @ CHR '';'' # r) o' = Some (o'\<lparr>do_lib := [SOH]\<rparr>, CHR '';'' # r)"
    "md_parse_bt_filter (CHR '';'' # l @ CHR '';'' # r) d = Some (d\<lparr>md_bt_filter := Some l\<rparr>, CHR '';'' # r)"
proof -
  have s: "strchr (CHR '';'' # l @ CHR '';'' # r) 1 (CHR '';'') = Some (Suc (length l))"
    using assms(2) by (subst strchr_skip [where xs = l and ys = r]) (auto simp: plain_char_def)
  show "do_parse_bt_filter (CHR '';'' # l @ CHR '';'' # r) o' = Some (o'\<lparr>do_lib := [SOH]\<rparr>, CHR '';'' # r)"
    "md_parse_bt_filter (CHR '';'' # l @ CHR '';'' # r) d = Some (d\<lparr>md_bt_filter := Some l\<rparr>, CHR '';'' # r)"
    using s assms(1) by (simp_all add: do_parse_bt_filter_def md_parse_bt_filter_def c_isalpha_def
        c_islower_def is_prefix_def)
qed

end
