(* ===== verification/RevRead.thy ===== *)
theory RevRead
  imports FifoStream
begin

text \<open>
  Reading a discovery file backwards (\<open>read_dynmem_buf\<close> with \<open>reverse\<close>, called in the loop of
  \<open>postproc_stage1234\<close> in \<open>src/src/discovery.cpp\<close>): chunk by chunk from the end of the file, each
  chunk with the incomplete line that the previous one has left. The locale \<open>rev_client\<close> asks that
  the parser handles one terminated line; under that contract the loop handles all lines behind
  the first, the last one first.
\<close>

subsection \<open>The loop\<close>

lemma rev_next_decreases:
  assumes "rev_next pcb pmask co mr st f s = Some (ret, st', f', s')" "0 \<le> ret"
  shows "f_data f' = f_data f" "nat (fs_offs st') < nat (fs_offs st)" "fs_offs st' \<noteq> REVERSE_FST"
proof -
  have p: "0 < fs_offs st" using assms by (auto simp: rev_next_def split: if_splits)
  have pos: "0 < n" if "f_read n f2 = (bs, f1)" "bs \<noteq> []" for n f2 f1 bs
    using f_read_props(4) [OF that(1)] that(2) by (cases n) auto
  have "f_data f' = f_data f \<and> nat (fs_offs st') < nat (fs_offs st) \<and> fs_offs st' \<noteq> REVERSE_FST"
  proof (cases "mr < nat (fs_offs st mod 2 ^ 32)")
    case True
    obtain bs f1 where r: "f_read mr (f\<lparr>f_pos := nat (fs_offs st) - mr\<rparr>) = (bs, f1)" by fastforce
    with assms p True have "bs \<noteq> []" "f' = f1" "fs_offs st' = int (nat (fs_offs st) - mr)"
      by (auto simp: rev_next_def read_finish_def Let_def split: if_splits fifo_res.splits)
    with p pos [OF r] f_read_props(1) [OF r] show ?thesis by (auto simp: REVERSE_FST_def)
  next
    case False
    obtain bs f1 where r: "f_read (nat (fs_offs st mod 2 ^ 32)) (f\<lparr>f_pos := 0\<rparr>) = (bs, f1)" by fastforce
    with assms p False have "bs \<noteq> []" "f' = f1" "fs_offs st' = REVERSE_EOF"
      by (auto simp: rev_next_def read_finish_def Let_def split: if_splits fifo_res.splits)
    with p f_read_props(1) [OF r] show ?thesis by (simp add: REVERSE_FST_def REVERSE_EOF_def)
  qed
  then show "f_data f' = f_data f" "nat (fs_offs st') < nat (fs_offs st)" "fs_offs st' \<noteq> REVERSE_FST"
    by simp_all
qed

lemma rev_first_props:
  assumes "rev_first pcb True mr st f s = r"
  shows "r = Inl (Some (ret, st', f', s')) \<Longrightarrow> 0 \<le> ret \<Longrightarrow> f_data f' = f_data f \<and>
      fs_offs st' = fs_offs st \<and> length (f_data f') - f_pos f' < length (f_data f) - f_pos f"
    "r = Inr (st1, f1, s1) \<Longrightarrow> f_data f1 = f_data f \<and> fs_offs st1 = int (length (f_data f))"
proof -
  obtain bs f2 where b: "f_read mr f = (bs, f2)" by fastforce
  note R = f_read_props [OF b]
  have "length (f_data f2) - f_pos f2 < length (f_data f) - f_pos f" if "bs \<noteq> []"
    using R(1,2,5) that by (simp add: diff_less_mono2)
  then show "r = Inl (Some (ret, st', f', s')) \<Longrightarrow> 0 \<le> ret \<Longrightarrow> f_data f' = f_data f \<and>
      fs_offs st' = fs_offs st \<and> length (f_data f') - f_pos f' < length (f_data f) - f_pos f"
    using assms b R(1)
    by (auto simp: rev_first_def read_err_def Let_def split: if_splits list.splits option.splits)
  show "r = Inr (st1, f1, s1) \<Longrightarrow> f_data f1 = f_data f \<and> fs_offs st1 = int (length (f_data f))"
    using assms b R(1)
    by (auto simp: rev_first_def read_err_def Let_def split: if_splits list.splits option.splits)
qed

text \<open>How much is left to read: before the first call, and after it.\<close>

definition rev_left :: "fifo_static \<times> ffile \<Rightarrow> nat \<times> nat" where
  "rev_left = (\<lambda>(st, f). (if fs_offs st = REVERSE_FST then Suc (length (f_data f)) else nat (fs_offs st),
     length (f_data f) - f_pos f))"

lemma read_rev_decreases:
  assumes "read_dynmem_buf pcb True pmask True co st f s = Some (ret, st', f', s')" "0 \<le> ret"
  shows "(rev_left (st', f'), rev_left (st, f)) \<in> less_than <*lex*> less_than"
proof (cases "fs_offs st = REVERSE_FST")
  case False
  with assms have "rev_next pcb pmask co (length (fs_ibuf st) - 1 - nat (fs_ilen st)) st f s = Some (ret, st', f', s')"
    by (simp add: read_dynmem_buf_def Let_def split: if_splits)
  from rev_next_decreases [OF this assms(2)] False show ?thesis by (simp add: rev_left_def)
next
  case True
  let ?mr = "length (fs_ibuf st) - 1 - nat (fs_ilen st)"
  show ?thesis
  proof (cases "rev_first pcb True ?mr st f s")
    case (Inl r)
    with assms True have "r = Some (ret, st', f', s')" by (simp add: read_dynmem_buf_def Let_def split: if_splits)
    with rev_first_props(1) [OF Inl, of ret st' f' s'] assms(2) True show ?thesis by (auto simp: rev_left_def)
  next
    case (Inr r)
    obtain st1 f1 s1 where r: "r = (st1, f1, s1)" by (metis prod_cases3)
    with assms True Inr have n: "rev_next pcb pmask co ?mr st1 f1 s1 = Some (ret, st', f', s')"
      by (simp add: read_dynmem_buf_def Let_def split: if_splits)
    from rev_first_props(2) [OF Inr] r have "f_data f1 = f_data f" "fs_offs st1 = int (length (f_data f))" by auto
    with rev_next_decreases [OF n assms(2)] True show ?thesis by (simp add: rev_left_def)
  qed
qed

function read_reverse ::
  "'s parse_cb option \<Rightarrow> u32 \<Rightarrow> ptr \<Rightarrow> fifo_static \<Rightarrow> ffile \<Rightarrow> 's \<Rightarrow> (fifo_static \<times> ffile \<times> 's) option"
where
  "read_reverse pcb pmask code_offs st f s =
     (case read_dynmem_buf pcb True pmask True code_offs st f s of
        None \<Rightarrow> None
      | Some (ret, st', f', s') \<Rightarrow>
          if ret < 0 then Some (st', f', s') else read_reverse pcb pmask code_offs st' f' s')"
  by pat_completeness auto
termination
proof (relation "inv_image (less_than <*lex*> less_than) (\<lambda>(_, _, _, st, f, _). rev_left (st, f))", goal_cases)
  case (2 pcb pmask co st f s x ret y st' z f' s')
  then have "read_dynmem_buf pcb True pmask True co st f s = Some (ret, st', f', s')" "0 \<le> ret" by simp_all
  from read_rev_decreases [OF this] show ?case by simp
qed auto

declare read_reverse.simps [simp del]


subsection \<open>Splitting a suffix of a file of lines\<close>

abbreviation text_of :: "string list \<Rightarrow> string" where
  "text_of ls \<equiv> concat (map (\<lambda>l. l @ [NL]) ls)"

lemma text_of_split:
  assumes "k < length (text_of ls)"
  shows "\<exists>ls1 u v ls2. ls = ls1 @ (u @ v) # ls2 \<and> take k (text_of ls) = text_of ls1 @ u \<and>
    drop k (text_of ls) = v @ [NL] @ text_of ls2"
  using assms
proof (induction ls arbitrary: k)
  case (Cons l ls)
  show ?case
  proof (cases "k \<le> length l")
    case True
    then show ?thesis
      by (intro exI [of _ "[]"] exI [of _ "take k l"] exI [of _ "drop k l"] exI [of _ ls]) simp
  next
    case False
    then obtain j where j: "k = Suc (length l + j)" using less_imp_Suc_add [of "length l" k] by auto
    with Cons.prems have "j < length (text_of ls)" by simp
    from Cons.IH [OF this] obtain ls1 u v ls2 where "ls = ls1 @ (u @ v) # ls2"
      "take j (text_of ls) = text_of ls1 @ u" "drop j (text_of ls) = v @ [NL] @ text_of ls2" by blast
    with j show ?thesis
      by (intro exI [of _ "l # ls1"] exI [of _ u] exI [of _ v] exI [of _ ls2]) simp
  qed
qed simp

lemma strrchr_at:
  assumes "\<forall>c \<in> set xs. c \<noteq> NUL" "\<forall>c \<in> set ys. c \<noteq> NUL \<and> c \<noteq> d" "d \<noteq> NUL" "zs = [] \<or> hd zs = NUL"
  shows "strrchr (xs @ d # ys @ zs) d = Some (length xs)"
proof -
  have "cstr zs = []" using assms(4) by (cases zs) auto
  then have "cstr (xs @ d # ys @ zs) = xs @ d # ys"
    using assms(1-3) by (simp add: cstr_append cstr_Cons)
  with assms(2) show ?thesis by (simp add: strrchr_def index_last_skip)
qed

lemma strrchr_none: "c \<notin> set (cstr buf) \<Longrightarrow> strrchr buf c = None"
  by (auto simp: strrchr_def index_last_None)

text \<open>The static buffer holds the rest of a line, which ends a part of the file.\<close>

definition rpend :: "nat \<Rightarrow> fifo_static \<Rightarrow> string \<Rightarrow> bool" where
  "rpend n st q \<longleftrightarrow> fs_ibuf st = q @ replicate (n - length q) NUL \<and> fs_ilen st = int (length q) \<and>
     length q + 1 < n \<and> (q = [] \<or> (\<exists>p. q = p @ [NL] \<and> partial_msg p))"

definition line_fits :: "nat \<Rightarrow> string \<Rightarrow> bool" where
  "line_fits n l \<longleftrightarrow> partial_msg l \<and> length l + 2 < n"

subsection \<open>A client\<close>

locale rev_client =
  fixes cb :: "'s parse_cb option" and pmask :: u32 and co :: ptr
    and ltxt :: "'l \<Rightarrow> string" and handle :: "'s \<Rightarrow> 'l \<Rightarrow> 's" and ok :: "'l \<Rightarrow> bool"
  assumes parse_ok: "ok l \<Longrightarrow> \<forall>c \<in> set pre. c \<noteq> NUL \<Longrightarrow>
      parse_msg cb pmask co (pre @ ltxt l @ NUL # rest) (length pre) (length pre + length (ltxt l)) s = Inr (handle s l)"
    and chars_ok: "ok l \<Longrightarrow> partial_msg (ltxt l)"
begin

lemma no_nul: "\<forall>l \<in> set ls. ok l \<Longrightarrow> c \<in> set (text_of (map ltxt ls)) \<Longrightarrow> c \<noteq> NUL"
proof (induction ls)
  case (Cons l ls)
  then show ?case using chars_ok [of l] by (auto simp: partial_msg_def)
qed simp

lemma parse_lines_rev:
  assumes "partial_msg p" "\<forall>l \<in> set ls. ok l" "0 < k"
  shows "\<exists>ret. 0 \<le> ret \<and> parse_rev cb pmask co (p @ [NL] @ text_of (map ltxt ls) @ replicate k NUL) ilen tmp s =
    Fifo_ok ret (p @ [NL] @ replicate (k + length (text_of (map ltxt ls))) NUL)
      (ilen - int (length (text_of (map ltxt ls)))) (foldr (\<lambda>l s. handle s l) ls s)"
  using assms(2,3)
proof (induction ls arbitrary: k ilen tmp s rule: rev_induct)
  case Nil
  obtain k' where k: "k = Suc k'" using Nil by (cases k) auto
  have p: "\<forall>c \<in> set p. c \<noteq> NUL \<and> c \<noteq> NL" using assms(1) by (simp add: partial_msg_def)
  have a: "strrchr (p @ NL # replicate k NUL) NL = Some (length p)"
    using strrchr_at [of p "[]" NL "replicate k NUL"] p k by simp
  have "strrchr (p @ NUL # replicate k NUL) NL = None"
    by (rule strrchr_none) (use p in \<open>auto simp: cstr_append\<close>)
  with a have "rev_msg_bounds (p @ NL # replicate k NUL) = None"
    by (simp add: rev_msg_bounds_def list_update_append)
  then show ?case by (simp add: parse_rev.simps)
next
  case (snoc l ls)
  let ?pre = "p @ [NL] @ text_of (map ltxt ls)" and ?z = "replicate k NUL"
  let ?buf = "?pre @ ltxt l @ NL # ?z" and ?buf1 = "?pre @ ltxt l @ NUL # ?z"
  have ok: "ok l" "\<forall>l \<in> set ls. ok l" using snoc.prems by auto
  have p: "\<forall>c \<in> set p. c \<noteq> NUL \<and> c \<noteq> NL" using assms(1) by (simp add: partial_msg_def)
  have l: "\<forall>c \<in> set (ltxt l). c \<noteq> NUL \<and> c \<noteq> NL" using chars_ok [OF ok(1)] by (simp add: partial_msg_def)
  have pre: "\<forall>c \<in> set ?pre. c \<noteq> NUL"
  proof
    fix c assume "c \<in> set ?pre"
    then have "c \<in> set p \<or> c = NL \<or> c \<in> set (text_of (map ltxt ls))" by (simp only: set_append Un_iff list.set empty_iff insert_iff simp_thms)
    then show "c \<noteq> NUL" using p no_nul [OF ok(2), of c] by (elim disjE) (blast, simp, blast)
  qed
  obtain k' where k: "k = Suc k'" using snoc.prems by (cases k) auto
  have "\<forall>c \<in> set (?pre @ ltxt l). c \<noteq> NUL" using pre l by (simp only: set_append Un_iff) blast
  from strrchr_at [OF this, of "[]" NL ?z] k
  have b1: "strrchr ?buf NL = Some (length ?pre + length (ltxt l))" by simp
  have up: "?buf[length ?pre + length (ltxt l) := NUL] = ?buf1"
    using list_update_append [of "?pre @ ltxt l" "NL # ?z" "length ?pre + length (ltxt l)" NUL] by simp
  obtain q where q: "?pre = q @ [NL]" "\<forall>c \<in> set q. c \<noteq> NUL"
  proof (cases ls rule: rev_cases)
    case Nil
    with that [of p] p show thesis by simp
  next
    case (snoc ls' l')
    with that [of "p @ [NL] @ text_of (map ltxt ls') @ ltxt l'"] pre show thesis by auto
  qed
  have b2: "strrchr ?buf1 NL = Some (length q)"
    using strrchr_at [of q "ltxt l" NL "NUL # ?z"] q l by simp
  have bounds: "rev_msg_bounds ?buf = Some (length ?pre, length ?pre + length (ltxt l))"
    unfolding rev_msg_bounds_def b1 by (simp only: option.case up b2) (use q(1) [THEN arg_cong [where f = length]] in simp)
  have pm: "parse_msg cb pmask co ?buf1 (length ?pre) (length ?pre + length (ltxt l)) s = Inr (handle s l)"
    by (rule parse_ok [OF ok(1) pre])
  have z: "zero_msg (length ?pre) (length (ltxt l) + 1) ?buf1 = ?pre @ replicate (k + length (ltxt l) + 1) NUL"
    by (simp add: zero_msg_def replicate_add [symmetric] add.commute)
  obtain ret where ret: "0 \<le> ret" "parse_rev cb pmask co (?pre @ replicate (k + length (ltxt l) + 1) NUL)
      (ilen - int (length (ltxt l) + 1)) (length (ltxt l) + 1) (handle s l) =
    Fifo_ok ret (p @ [NL] @ replicate (k + length (ltxt l) + 1 + length (text_of (map ltxt ls))) NUL)
      (ilen - int (length (ltxt l) + 1) - int (length (text_of (map ltxt ls)))) (foldr (\<lambda>l s. handle s l) ls (handle s l))"
    using snoc.IH [OF ok(2), of "k + length (ltxt l) + 1" "ilen - int (length (ltxt l) + 1)" "length (ltxt l) + 1"
        "handle s l"] by (metis append_assoc Suc_eq_plus1 zero_less_Suc)
  have t: "length ?pre + length (ltxt l) - length ?pre + 1 = length (ltxt l) + 1" by simp
  have "parse_rev cb pmask co ?buf ilen tmp s =
    parse_rev cb pmask co (?pre @ replicate (k + length (ltxt l) + 1) NUL)
      (ilen - int (length (ltxt l) + 1)) (length (ltxt l) + 1) (handle s l)"
    unfolding parse_rev.simps [of _ _ _ ?buf] bounds
    by (simp only: option.case prod.case Let_def up pm sum.case t z)
  then show ?case using ret by (auto simp: algebra_simps)
qed




lemma split_lines:
  assumes "S # map ltxt ls = L1 @ x # L2"
  shows "\<exists>ls1 ls2. ls = ls1 @ ls2 \<and> L2 = map ltxt ls2 \<and> L1 @ [x] = S # map ltxt ls1 \<and> (L1 = [] \<longrightarrow> ls1 = [])"
proof (cases L1)
  case Nil
  with assms show ?thesis by (intro exI [of _ "[]"] exI [of _ ls]) simp
next
  case (Cons y M)
  with assms have "map ltxt ls = M @ x # L2" by simp
  then obtain a l b where "ls = a @ l # b" "map ltxt a = M" "ltxt l = x" "map ltxt b = L2"
    by (auto simp: map_eq_append_conv map_eq_Cons_conv)
  with Cons assms show ?thesis by (intro exI [of _ "a @ [l]"] exI [of _ b]) simp
qed

lemma fill_rev:
  assumes "rpend n st q" "length bs + length q < n"
  shows "overwrite (if fs_ilen st = 0 then fs_ibuf st
       else overwrite (fs_ibuf st) (length bs) (take (nat (fs_ilen st)) (fs_ibuf st))) 0 bs =
    bs @ q @ replicate (n - length bs - length q) NUL"
  using assms by (auto simp: rpend_def overwrite_def)

lemma rev_chunk:
  assumes st: "rpend n st q" "fs_offs st = int pos" and pos: "0 < pos" "pos < 2 ^ 32" "pos \<le> length (f_data f)"
    and d: "take pos (f_data f) @ q = text_of (S # map ltxt ls)"
    and ok: "\<forall>l \<in> set ls. ok l" and fit: "line_fits n S" "\<forall>l \<in> set ls. line_fits n (ltxt l)"
  shows "\<exists>ret st' f' q' ls1 ls2. rev_next cb pmask co (n - 1 - length q) st f s =
      Some (ret, st', f', foldr (\<lambda>l s. handle s l) ls2 s) \<and> 0 \<le> ret \<and> f_data f' = f_data f \<and>
    ls = ls1 @ ls2 \<and> rpend n st' q' \<and> (fs_offs st' = REVERSE_EOF \<and> ls1 = [] \<or>
      (\<exists>pos'. 0 < pos' \<and> pos' < pos \<and> fs_offs st' = int pos' \<and>
         take pos' (f_data f) @ q' = text_of (S # map ltxt ls1)))"
proof -
  define mr where "mr = n - 1 - length q"
  define start where "start = (if mr < pos then pos - mr else 0)"
  define mx where "mx = (if mr < pos then mr else pos)"
  have mr: "0 < mr" "length q + mr < n" using st(1) by (auto simp: rpend_def mr_def)
  have sp: "start < pos" "start + mx = pos" "mx \<le> mr" "0 < mx" using mr pos by (auto simp: start_def mx_def)
  obtain bs f' where r: "f_read mx (f\<lparr>f_pos := start\<rparr>) = (bs, f')" by fastforce
  note R = f_read_props [OF r]
  have bs: "bs = take mx (drop start (f_data f))" "length bs = mx" "bs \<noteq> []" "f_data f' = f_data f"
    using R(1,3) sp pos(3) by auto
  have tk: "take pos (f_data f) = take start (f_data f) @ bs"
    using bs(1) sp(2) by (metis take_add)
  let ?text = "text_of (S # map ltxt ls)"
  have t: "?text = take start (f_data f) @ bs @ q" unfolding d [symmetric] tk by simp
  have ln: "length (take start (f_data f)) = start" using sp(1) pos(3) by simp
  have "start < length ?text" "take start ?text = take start (f_data f)" "drop start ?text = bs @ q"
    unfolding t using bs(3) ln by simp_all
  from text_of_split [OF this(1)] this(2,3) obtain L1 u v L2 where L: "S # map ltxt ls = L1 @ (u @ v) # L2"
    "take start (f_data f) = text_of L1 @ u" "bs @ q = v @ [NL] @ text_of L2" by metis
  from split_lines [OF L(1)] obtain ls1 ls2 where ls: "ls = ls1 @ ls2" "L2 = map ltxt ls2"
    "L1 @ [u @ v] = S # map ltxt ls1" "L1 = [] \<longrightarrow> ls1 = []" by blast
  have "u @ v \<in> set (S # map ltxt ls)" using L(1) by simp
  then have uv: "line_fits n (u @ v)" using fit by auto
  then have v: "partial_msg v" "length v + 2 < n" by (auto simp: line_fits_def partial_msg_def)
  let ?k = "n - length bs - length q" and ?t = "length (text_of (map ltxt ls2))"
  have k: "0 < ?k" "length bs + length q < n" using sp mr bs(2) by simp_all
  have lbq: "length bs + length q = length v + 1 + ?t"
    using L(3) ls(2) by (metis length_append length_Cons list.size(3) One_nat_def add.assoc)
  have ib: "bs @ q @ replicate ?k NUL = v @ [NL] @ text_of (map ltxt ls2) @ replicate ?k NUL"
    using L(3) ls(2) by (metis append_assoc)
  obtain ret where p: "0 \<le> ret" "parse_rev cb pmask co (bs @ q @ replicate ?k NUL)
      (int (length q) + int (length bs)) (length bs) s =
    Fifo_ok ret (v @ [NL] @ replicate (?k + ?t) NUL) (int (length q) + int (length bs) - int ?t)
      (foldr (\<lambda>l s. handle s l) ls2 s)"
    unfolding ib using parse_lines_rev [OF v(1), of ls2 ?k] ok ls(1) k(1) by (metis Un_iff set_append)
  let ?offs = "if mr < pos then int start else REVERSE_EOF"
  let ?st' = "st\<lparr>fs_offs := ?offs, fs_ibuf := v @ [NL] @ replicate (?k + ?t) NUL,
    fs_ilen := int (length q) + int (length bs) - int ?t\<rparr>"
  have um: "nat (fs_offs st mod 2 ^ 32) = pos" using st(2) pos(2) by simp
  have "rev_next cb pmask co mr st f s = Some (ret, ?st', f', foldr (\<lambda>l s. handle s l) ls2 s)"
    using r p bs(2,3) fill_rev [OF st(1) k(2)] st pos(1)
    unfolding rev_next_def um Let_def
    by (auto simp: start_def mx_def read_finish_def parse_dynmem_buf_def rpend_def split: if_splits)
  moreover have "rpend n ?st' (v @ [NL])"
  proof -
    have "?k + ?t = n - length (v @ [NL])" using lbq k by simp
    moreover have "int (length q) + int (length bs) - int ?t = int (length (v @ [NL]))" using lbq by simp
    ultimately show ?thesis using v by (simp add: rpend_def)
  qed
  moreover have "mr < pos \<Longrightarrow> take start (f_data f) @ v @ [NL] = text_of (S # map ltxt ls1)"
    using L(2) arg_cong [OF ls(3), of text_of] by simp
  moreover have "\<not> mr < pos \<Longrightarrow> ls1 = []" using L(2) ls(4) by (cases L1) (auto simp: start_def)
  moreover have "mr < pos \<Longrightarrow> 0 < start" by (simp add: start_def)
  ultimately show ?thesis
    unfolding mr_def [symmetric] using p(1) bs(4) ls(1) sp(1)
    by (intro exI [of _ ret] exI [of _ ?st'] exI [of _ f'] exI [of _ "v @ [NL]"] exI [of _ ls1] exI [of _ ls2])
      (cases "mr < pos"; simp)
qed

lemma read_is_next:
  assumes "rpend n st q" "fs_offs st \<noteq> REVERSE_FST"
  shows "read_dynmem_buf cb True pmask True co st f s = rev_next cb pmask co (n - 1 - length q) st f s"
  using assms by (auto simp: read_dynmem_buf_def rpend_def Let_def)

lemma read_done:
  assumes "rpend n st q" "fs_offs st = REVERSE_EOF"
  shows "read_reverse cb pmask co st f s = Some (st, f, s)"
  using read_is_next [OF assms(1)] assms(2)
  by (simp add: read_reverse.simps [of _ _ _ st] rev_next_def REVERSE_EOF_def REVERSE_FST_def)

lemma read_rest:
  assumes "rpend n st q" "fs_offs st = int pos" "0 < pos" "pos < 2 ^ 32" "pos \<le> length (f_data f)"
    "take pos (f_data f) @ q = text_of (S # map ltxt ls)" "\<forall>l \<in> set ls. ok l"
    "line_fits n S" "\<forall>l \<in> set ls. line_fits n (ltxt l)"
  shows "\<exists>st' f'. read_reverse cb pmask co st f s = Some (st', f', foldr (\<lambda>l s. handle s l) ls s)"
  using assms
proof (induction pos arbitrary: st q f ls s rule: less_induct)
  case (less pos)
  from rev_chunk [OF less.prems(1-9), of s] obtain ret st' f' q' ls1 ls2 where c:
    "rev_next cb pmask co (n - 1 - length q) st f s = Some (ret, st', f', foldr (\<lambda>l s. handle s l) ls2 s)"
    "0 \<le> ret" "f_data f' = f_data f" "ls = ls1 @ ls2" "rpend n st' q'"
    and e: "fs_offs st' = REVERSE_EOF \<and> ls1 = [] \<or> (\<exists>pos'. 0 < pos' \<and> pos' < pos \<and> fs_offs st' = int pos' \<and>
      take pos' (f_data f) @ q' = text_of (S # map ltxt ls1))" by blast
  have "fs_offs st \<noteq> REVERSE_FST" using less.prems(2) by (simp add: REVERSE_FST_def)
  then have step: "read_reverse cb pmask co st f s =
      read_reverse cb pmask co st' f' (foldr (\<lambda>l s. handle s l) ls2 s)"
    using read_is_next [OF less.prems(1)] c(1,2) by (simp add: read_reverse.simps [of _ _ _ st])
  from e show ?case
  proof (elim disjE conjE exE)
    assume "fs_offs st' = REVERSE_EOF" "ls1 = []"
    with read_done [OF c(5)] step c(4) show ?thesis by simp
  next
    fix pos'
    assume p: "0 < pos'" "pos' < pos" "fs_offs st' = int pos'"
      "take pos' (f_data f) @ q' = text_of (S # map ltxt ls1)"
    have "pos' < 2 ^ 32" "pos' \<le> length (f_data f')" using p(2) less.prems(4,5) c(3) by simp_all
    from less.IH [OF p(2) c(5) p(3,1) this, of ls1 "foldr (\<lambda>l s. handle s l) ls2 s"] p(4) less.prems(7-9) c(3,4) step
    show ?thesis by auto
  qed
qed

text \<open>From the first call on: the stack end from the first line, then the lines from the last one.\<close>

lemma read_whole:
  assumes st: "fs_ibuf st = replicate n NUL" "fs_ilen st = 0" "fs_offs st = REVERSE_FST" "f_pos f = 0"
    and d: "f_data f = text_of ((''S'' @ pr_ptr se) # map ltxt ls)" "length (f_data f) < 2 ^ 32"
    and sf: "Option.bind cb cb_sf = Some sf" "se \<noteq> 0"
    and ok: "\<forall>l \<in> set ls. ok l" "line_fits n (''S'' @ pr_ptr se)" "\<forall>l \<in> set ls. line_fits n (ltxt l)"
  shows "\<exists>st' f'. read_reverse cb pmask co st f s = Some (st', f', foldr (\<lambda>l s. handle s l) ls (sf s se))"
proof -
  let ?S = "''S'' @ pr_ptr se" and ?len = "length (f_data f)"
  have n: "length ?S + 2 < n" using ok(2) by (simp add: line_fits_def)
  obtain bs f1 where r: "f_read (n - 1) f = (bs, f1)" by fastforce
  note R = f_read_props [OF r]
  have bs: "bs = take (n - 1) (f_data f)" using R(3) st(4) by simp
  have dt: "f_data f = (?S @ [NL]) @ text_of (map ltxt ls)" using d(1) by simp
  have le: "n - 1 = length (?S @ [NL]) + (n - 1 - length (?S @ [NL]))" using n by simp
  obtain rest where b: "bs = (?S @ [NL]) @ rest" unfolding bs dt take_append using n by simp
  have len: "length bs < n" using R(4) n by simp
  have ow: "overwrite (fs_ibuf st) 0 bs = bs @ replicate (n - length bs) NUL" by (simp add: overwrite_def st(1))
  have cs: "cstr (bs @ x) = CHR ''S'' # pr_ptr se @ NL # cstr (rest @ x)" for x
    unfolding b using pr_safe(1) by (simp add: cstr_append cstr_Cons)
  let ?st1 = "st\<lparr>fs_ibuf := replicate n NUL, fs_offs := int ?len\<rparr>" and ?f1 = "f1\<lparr>f_pos := ?len\<rparr>"
  have "bs \<noteq> []" using b by simp
  then have "rev_first cb True (n - 1) st f s = Inr (?st1, ?f1, sf s se)"
    using r R(1) ow cs scan_ptr_pr_ptr [of "NL # y" se for y] sf len
    by (simp add: rev_first_def Let_def zero_front_def replicate_add [symmetric])
  then have "read_dynmem_buf cb True pmask True co st f s = rev_next cb pmask co (n - 1) ?st1 ?f1 (sf s se)"
    using st n by (simp add: read_dynmem_buf_def Let_def)
  moreover have p1: "rpend n ?st1 []" using n st(2) by (simp add: rpend_def)
  ultimately have "read_reverse cb pmask co st f s = read_reverse cb pmask co ?st1 ?f1 (sf s se)"
    using read_is_next [OF p1, of ?f1 "sf s se"] by (simp add: read_reverse.simps REVERSE_FST_def)
  moreover have "\<exists>st' f'. read_reverse cb pmask co ?st1 ?f1 (sf s se) =
      Some (st', f', foldr (\<lambda>l s. handle s l) ls (sf s se))"
    by (rule read_rest [OF p1, of ?len _ ?S]) (use d R(1) ok in simp_all)
  ultimately show ?thesis by simp
qed

end

end
