(* ===== verification/DiscFind.thy ===== *)
theory DiscFind
  imports RevRead Discovery MemdiscFun
begin

text \<open>
  The lines that \<open>libmemdisc\<close> writes, read backwards by the trainer: every object around the address
  is found with the calls that were printed for it, the last allocation first.
\<close>

subsection \<open>Numbers with a sign\<close>

lemma scan_ul_pr_zd: "num_stop r \<Longrightarrow> scan_ul 10 (pr_zd n @ r) = Some (n, r)"
proof -
  assume r: "num_stop r"
  show ?thesis
  proof (cases "n \<le> 0x7FFFFFFFFFFFFFFF")
    case True
    then show ?thesis using scan_ul_pr_ul [OF r, of n] by (simp add: pr_zd_def pr_ul_def)
  next
    case False
    let ?ds = "pr_dec (unat (- n))"
    have "scan_sign (dropWhile c_isspace (CHR ''-'' # ?ds @ r)) = (True, ?ds @ r)"
      by (simp add: scan_sign_def c_isspace_def)
    moreover have "skip_0x 10 (?ds @ r) = ?ds @ r" by (rule skip_0x_digits [OF pr_chars(1) r])
    moreover have ds: "\<forall>c \<in> set ?ds. is_digit 10 c" by (simp add: pr_dec_def digits_are_digits)
    then have "takeWhile (is_digit 10) (?ds @ r) = ?ds" "dropWhile (is_digit 10) (?ds @ r) = r"
      using num_stop_digits [OF r, of 10] by simp_all
    moreover have "?ds \<noteq> []" "num_value 10 ?ds = unat (- n)" by (simp_all add: pr_dec_def num_value_digits)
    ultimately have "scan_num 10 (CHR ''-'' # ?ds @ r) = Some (True, unat (- n), r)"
      by (simp only: scan_num_def Let_def prod.case if_False)
    moreover have "to_ulong True (unat (- n)) = n"
      using unat_lt_64 [of "- n"] by (simp add: to_ulong_def)
    ultimately show ?thesis using False by (simp add: scan_ul_def pr_zd_def)
  qed
qed

lemma pr_zd_plain: "\<forall>c \<in> set (pr_zd n). plain_char c"
  using pr_plain(4) by (auto simp: pr_zd_def plain_char_def)

subsection \<open>The calls of a line\<close>

lemma call_text_plain: "c \<in> set (call_text k) \<Longrightarrow> c \<noteq> NUL \<and> c \<noteq> NL"
  using pr_plain(2) by (cases k rule: call_text.cases) (auto simp: plain_char_def)

lemma calls_text_first: "concat (map call_text cs) = [] \<or> hd (concat (map call_text cs)) = CHR '';''"
  by (cases cs; cases "hd cs" rule: call_text.cases) auto

text \<open>The text behind the calls: the end of the message.\<close>

lemma calls_stop: "num_stop (concat (map call_text cs) @ NUL # rest)"
proof (cases "concat (map call_text cs)")
  case Nil
  show ?thesis unfolding Nil by simp
next
  case (Cons x xs)
  with calls_text_first [of cs] have "x = CHR '';''" by simp
  then show ?thesis unfolding Cons by simp
qed

lemma drop_add: "drop p buf = xs @ ys \<Longrightarrow> drop (p + length xs) buf = ys"
  by (metis add.commute append_eq_conv_conj drop_drop)

lemma cstr_text: "\<forall>c \<in> set xs. c \<noteq> NUL \<Longrightarrow> cstr (xs @ NUL # ys) = xs"
  by (simp add: cstr_append)


definition call_pair :: "ptr \<times> ptr option \<Rightarrow> ptr \<times> ptr" where
  "call_pair k = (fst k, case snd k of None \<Rightarrow> 0 | Some so \<Rightarrow> so)"

text \<open>The position behind the next separator, in front of further calls.\<close>

lemma next_call:
  assumes "drop p buf = xs @ concat (map call_text cs) @ NUL # rest" "\<forall>c \<in> set xs. plain_char c"
  shows "cs = [] \<Longrightarrow> strchr buf p (CHR '';'') = None"
    "cs \<noteq> [] \<Longrightarrow> strchr buf p (CHR '';'') = Some (p + length xs)"
    "cs \<noteq> [] \<Longrightarrow> drop (p + length xs + 1) buf = tl (concat (map call_text cs)) @ NUL # rest"
proof -
  have x: "\<forall>c \<in> set xs. c \<noteq> CHR '';'' \<and> c \<noteq> NUL" using assms(2) by (simp add: plain_char_def)
  show "strchr buf p (CHR '';'') = None" if "cs = []"
    by (rule strchr_None) (use assms(1) x that in \<open>auto simp: cstr_append\<close>)
  assume ne: "cs \<noteq> []"
  obtain y ys where y: "concat (map call_text cs) = CHR '';'' # ys"
    using ne by (cases cs; cases "hd cs" rule: call_text.cases) auto
  then have d: "drop p buf = xs @ CHR '';'' # ys @ NUL # rest" using assms(1) by simp
  show "strchr buf p (CHR '';'') = Some (p + length xs)" by (rule strchr_skip [OF d x]) simp
  show "drop (p + length xs + 1) buf = tl (concat (map call_text cs)) @ NUL # rest"
    using drop_add [of p buf "xs @ [CHR '';'']"] d y by simp
qed

lemma no_soffs: "scan_lit '';o'' (concat (map call_text cs)) = None"
  by (cases cs; cases "hd cs" rule: call_text.cases) (auto simp: scan_lit_def is_prefix_def)

lemma calls_num_stop: "num_stop (concat (map call_text cs))"
  using calls_text_first [of cs] by (cases "concat (map call_text cs)") (auto simp del: concat_eq_Nil_conv)

text \<open>Neither numbers nor calls contain the end of a line or of a string.\<close>

lemma no_marks:
  "NUL \<notin> set (call_text k)" "NL \<notin> set (call_text k)" "NUL \<notin> set (pr_ptr a)" "NL \<notin> set (pr_ptr a)"
  "NUL \<notin> set (pr_zd n)" "NL \<notin> set (pr_zd n)"
  using call_text_plain [of NUL k] call_text_plain [of NL k] pr_safe(1) [of NUL a] pr_safe(1) [of NL a]
    pr_zd_plain [of n] by (auto simp: plain_char_def)

lemma calls_no_nul: "\<forall>c \<in> set (concat (map call_text cs)). c \<noteq> NUL"
  using call_text_plain by auto

lemma scan_codes_step:
  assumes d: "drop p buf = tl (concat (map call_text (k # cs))) @ NUL # rest"
  shows "\<exists>p'. (cs \<noteq> [] \<longrightarrow> drop p' buf = tl (concat (map call_text cs)) @ NUL # rest) \<and>
    scan_codes (Suc m) buf p = call_pair k # (if cs = [] then [] else scan_codes m buf p')"
proof -
  let ?C = "concat (map call_text cs)"
  obtain c so where k: "k = (c, so)" by (cases k)
  have st: "num_stop ?C" by (rule calls_num_stop)
  show ?thesis
  proof (cases so)
    case None
    have t: "drop p buf = (CHR ''c'' # pr_ptr c) @ ?C @ NUL # rest" using d k None by simp
    have "\<forall>x \<in> set (CHR ''c'' # pr_ptr c). plain_char x" using pr_plain(2) by (simp add: plain_char_def)
    note N = next_call [OF t this]
    have "\<forall>x \<in> set (CHR ''c'' # pr_ptr c @ ?C). x \<noteq> NUL" by (auto simp: no_marks)
    from cstr_text [OF this, of rest] have "cstr (drop p buf) = CHR ''c'' # pr_ptr c @ ?C" using t by simp
    then have "scan_lit ''c'' (cstr (drop p buf)) \<bind> scan_ptr = Some (c, ?C)"
      using scan_ptr_pr_ptr [OF st, of c] by (simp add: scan_lit_def is_prefix_def)
    with N no_soffs [of cs] k None show ?thesis
      by (intro exI [of _ "p + length (CHR ''c'' # pr_ptr c) + 1"]) (simp add: call_pair_def)
  next
    case (Some o')
    let ?a = "CHR ''c'' # pr_ptr c" and ?b = "CHR ''o'' # pr_ptr o'"
    have t: "drop p buf = ?a @ CHR '';'' # ?b @ ?C @ NUL # rest" using d k Some by simp
    have a: "\<forall>x \<in> set ?a. plain_char x" "\<forall>x \<in> set ?b. plain_char x"
      using pr_plain(2) by (simp_all add: plain_char_def)
    let ?q = "p + length ?a"
    have q: "strchr buf p (CHR '';'') = Some ?q"
      by (rule strchr_skip [OF t]) (use a(1) in \<open>simp_all add: plain_char_def\<close>)
    have t2: "drop (?q + 1) buf = ?b @ ?C @ NUL # rest"
      using drop_add [of p buf "?a @ [CHR '';'']"] t by simp
    note N = next_call [OF t2 a(2)]
    have "\<forall>x \<in> set (?a @ CHR '';'' # ?b @ ?C). x \<noteq> NUL" by (auto simp: no_marks)
    from cstr_text [OF this, of rest] have "cstr (drop p buf) = ?a @ CHR '';'' # ?b @ ?C" using t by simp
    then have "scan_lit ''c'' (cstr (drop p buf)) \<bind> scan_ptr = Some (c, CHR '';'' # ?b @ ?C)"
      using scan_ptr_pr_ptr [of "CHR '';'' # ?b @ ?C" c] by (simp add: scan_lit_def is_prefix_def)
    moreover have "scan_lit '';o'' (CHR '';'' # ?b @ ?C) \<bind> scan_ptr = Some (o', ?C)"
      using scan_ptr_pr_ptr [OF st, of o'] by (simp add: scan_lit_def is_prefix_def)
    ultimately show ?thesis using q N k Some
      by (intro exI [of _ "?q + 1 + length ?b + 1"]) (simp add: call_pair_def)
  qed
qed

lemma scan_codes_text:
  assumes "drop p buf = tl (concat (map call_text (k # cs))) @ NUL # rest" "length (k # cs) \<le> m"
  shows "scan_codes m buf p = map call_pair (k # cs)"
  using assms
proof (induction cs arbitrary: p k m)
  case (Nil p k m)
  obtain m' where m: "m = Suc m'" using Nil.prems(2) by (cases m) auto
  show ?case using scan_codes_step [OF Nil.prems(1), of m'] m by simp
next
  case (Cons k' cs)
  obtain m' where m: "m = Suc m'" "length (k' # cs) \<le> m'" using Cons.prems(2) by (cases m) auto
  from scan_codes_step [OF Cons.prems(1), of m'] obtain p' where
    p: "drop p' buf = tl (concat (map call_text (k' # cs))) @ NUL # rest"
    "scan_codes m buf p = call_pair k # scan_codes m' buf p'" using m(1) by auto
  with Cons.IH [OF p(1) m(2)] show ?case by simp
qed

subsection \<open>The trainer as a client\<close>

text \<open>What a line does to the search.\<close>

fun disc_handle :: "disc_params \<Rightarrow> disc_state \<Rightarrow> disc_line \<Rightarrow> disc_state" where
  "disc_handle dp s (DMalloc a n cs) =
     (if \<not> in_object (dp_in_addr dp) a n \<or> ds_left s = 0 then s
      else report_match dp a n (if dp_stage dp \<in> {CHR ''3'', CHR ''4''} then map call_pair cs else [])
             (s\<lparr>ds_left := ds_left s - 1\<rparr>))"
| "disc_handle dp s _ = s"

fun disc_ok :: "disc_line \<Rightarrow> bool" where
  "disc_ok (DMalloc a n cs) \<longleftrightarrow> length cs \<le> MAX_BT" | "disc_ok _ \<longleftrightarrow> True"

lemma disc_text_plain: "partial_msg (disc_text l)"
  by (cases l) (auto simp: partial_msg_def no_marks)

lemma disc_parse:
  assumes ok: "disc_ok l"
  shows "parse_msg (Some (disc_cb dp)) PARSE_S co (pre @ disc_text l @ NUL # rest) (length pre)
    (length pre + length (disc_text l)) s = Inr (disc_handle dp s l)"
proof -
  let ?buf = "pre @ disc_text l @ NUL # rest"
  have cs: "cstr (drop (length pre) ?buf) = disc_text l"
    using disc_text_plain [of l] by (simp add: cstr_text partial_msg_def)
  show ?thesis
  proof (cases l)
    case (DMalloc a n cs)
    let ?C = "concat (map call_text cs)" and ?h = "CHR ''m'' # pr_ptr a"
    have t: "drop (length pre + 1) ?buf = pr_ptr a @ CHR '';'' # CHR ''s'' # pr_zd n @ ?C @ NUL # rest"
      using DMalloc by simp
    have nn: "\<forall>x \<in> set (pr_ptr a @ CHR '';'' # CHR ''s'' # pr_zd n @ ?C). x \<noteq> NUL"
      "\<forall>x \<in> set (pr_zd n @ ?C). x \<noteq> NUL" by (auto simp: no_marks)
    have sp: "scan_ptr (cstr (drop (length pre + 1) ?buf)) = Some (a, CHR '';'' # CHR ''s'' # pr_zd n @ ?C)"
      unfolding t using cstr_text [OF nn(1), of rest] scan_ptr_pr_ptr [of "CHR '';'' # CHR ''s'' # pr_zd n @ ?C" a]
      by simp
    let ?p = "length pre + 1 + length (pr_ptr a) + 2"
    have f: "parse_field ?buf (length pre + 1) (CHR ''s'') (scan_ul 10) = Inr (n, ?p)"
      by (rule parse_field_at [OF t])
        (use pr_plain(2) cstr_text [OF nn(2), of rest] scan_ul_pr_zd [OF calls_num_stop, of n cs] in simp_all)
    have d: "drop ?p ?buf = pr_zd n @ ?C @ NUL # rest"
      using t drop_add [of "length pre + 1" ?buf "pr_ptr a @ '';s''" "pr_zd n @ ?C @ NUL # rest"] by simp
    note N = next_call [OF d pr_zd_plain]
    have sep: "(case strchr ?buf ?p (CHR '';'') of None \<Rightarrow> [] | Some q \<Rightarrow> scan_codes MAX_BT ?buf (q + 1)) = map call_pair cs"
    proof (cases cs)
      case Nil
      with N(1) show ?thesis by simp
    next
      case (Cons k cs')
      with N(3) have dq: "drop (?p + length (pr_zd n) + 1) ?buf = tl (concat (map call_text (k # cs'))) @ NUL # rest"
        by simp
      have le: "length (k # cs') \<le> MAX_BT" using ok DMalloc Cons by simp
      from scan_codes_text [OF dq le] N(2) Cons show ?thesis by (simp del: scan_codes.simps)
    qed
    have m: "PARSE_S AND PARSE_S \<noteq> 0" "PARSE_S AND PARSE_C = 0" "PARSE_S AND PARSE_O = 0"
      by (simp_all add: PARSE_S_def PARSE_C_def PARSE_O_def)
    have "parse_msg (Some (disc_cb dp)) PARSE_S co ?buf (length pre) (length pre + length (disc_text l)) s =
      Inr (process_disc1234_malloc dp s \<lparr>pp_ibuf = ?buf, pp_pos = ?p, pp_msg_end = length pre + length (disc_text l)\<rparr> a n co 0 0)"
      using cs sp f m unfolding parse_msg_def
      by (simp add: DMalloc disc_cb_def Let_def parse_m_def opt_field_def)
    moreover have "process_disc1234_malloc dp s \<lparr>pp_ibuf = ?buf, pp_pos = ?p,
        pp_msg_end = length pre + length (disc_text l)\<rparr> a n co 0 0 = disc_handle dp s (DMalloc a n cs)"
      unfolding process_disc1234_malloc_def Let_def post_parse.select_convs sep by simp
    ultimately show ?thesis using DMalloc by simp
  next
    case (DFree a)
    with cs show ?thesis by (simp add: parse_msg_def disc_cb_def Let_def)
  next
    case (DPtr a)
    with cs show ?thesis by (simp add: parse_msg_def disc_cb_def Let_def)
  qed
qed

interpretation df: rev_client "Some (disc_cb dp)" PARSE_S co disc_text "disc_handle dp" disc_ok for dp co
  by unfold_locales (auto intro: disc_parse disc_text_plain)


subsection \<open>From the hooks to the result\<close>

text \<open>
  \<open>postproc_stage1234\<close>: \<open>st\<close> are the static variables of the reader, \<open>file\<close> the discovery file
  (\<open>None\<close>: it cannot be opened). The outer \<open>None\<close> is an undefined access, the inner one an error.
\<close>

definition postproc_stage1234 ::
  "disc_params \<Rightarrow> fifo_static \<Rightarrow> string option \<Rightarrow> disc_state \<Rightarrow> disc_state option option" where
  "postproc_stage1234 dp st file s =
     (case file of
        None \<Rightarrow> Some None
      | Some bytes \<Rightarrow>
          if dp_in_addr dp = 0 then Some None
          else map_option (\<lambda>(st', f', s'). Some s')
                 (read_reverse (Some (disc_cb dp)) PARSE_S (dp_code_offs dp) st \<lparr>f_data = bytes, f_pos = 0\<rparr> s))"

definition postproc_discovery ::
  "string \<Rightarrow> disc_params \<Rightarrow> fifo_static \<Rightarrow> string option \<Rightarrow> disc_state \<Rightarrow> disc_state option option" where
  "postproc_discovery disc_str dp st file s =
     (case disc_str of
        [] \<Rightarrow> None
      | ch # _ \<Rightarrow> if CHR ''1'' \<le> ch \<and> ch \<le> CHR ''4'' then postproc_stage1234 dp st file s else Some None)"

text \<open>The hooks of the game, one at a time, and the line each of them writes.\<close>

datatype disc_event = EMalloc hook_env "64 word" ptr | EFree ptr

fun disc_step :: "ptr \<Rightarrow> disc_event \<Rightarrow> memdisc \<Rightarrow> memdisc option" where
  "disc_step se (EMalloc e sz a) = md_postprocess_malloc e se sz a"
| "disc_step se (EFree a) = md_preprocess_free True a"

fun event_line :: "memdisc \<Rightarrow> ptr \<Rightarrow> disc_event \<Rightarrow> disc_line option" where
  "event_line d se (EMalloc e sz a) =
     (if \<not> wanted_size sz d then None
      else if md_stage d < 3 then Some (DMalloc a sz [])
      else if found_calls d e se = [] then None
      else Some (DMalloc a sz (found_calls d e se)))"
| "event_line d se (EFree a) = (if md_stage d = 1 then Some (DFree a) else None)"

fun event_ok :: "disc_event \<Rightarrow> bool" where
  "event_ok (EMalloc e sz a) \<longleftrightarrow> he_write_ok e" | "event_ok (EFree a) \<longleftrightarrow> True"

definition disc_lines :: "memdisc \<Rightarrow> ptr \<Rightarrow> disc_event list \<Rightarrow> disc_line list" where
  "disc_lines d se evs = List.map_filter (event_line d se) evs"

definition searching :: "memdisc \<Rightarrow> bool" where
  "searching d \<longleftrightarrow> md_active d \<and> \<not> md_use_gbt d \<and> \<not> md_discover_ptr d"

lemma report_plain:
  assumes "md_active d" "wanted_size sz d" "md_stage d < 3" "\<not> md_discover_ptr d" "he_write_ok e"
  shows "md_postprocess_malloc e se sz a d = Some (d\<lparr>md_out := md_out d @ [disc_text (DMalloc a sz []) @ [NL]]\<rparr>)"
proof -
  let ?h = "''m'' @ pr_ptr a @ '';s'' @ pr_zd sz"
  have h: "obuf_printf ?h ([], 0) = Some (full ?h)" "obuf_printf [NL] (full ?h) = Some (full (?h @ [NL]))"
    using obuf_printf_fits [of "[]" ?h] obuf_printf_fits [of ?h "[NL]"] length_head [of a sz]
    by (simp_all add: BUF_SIZE_def)
  have "send_disc e d (full (?h @ [NL])) = Some (d\<lparr>md_out := md_out d @ [?h @ [NL]]\<rparr>)"
    using length_head [of a sz] assms(5) by (simp add: send_disc_def nth_append BUF_SIZE_def)
  with h assms(1-4) show ?thesis by (simp add: md_postprocess_malloc_def del: append_assoc)
qed

lemma event_line_out: "event_line (d\<lparr>md_out := x\<rparr>) se = event_line d se"
proof -
  have "found_call (d\<lparr>md_out := x\<rparr>) = found_call d" "in_range (d\<lparr>md_out := x\<rparr>) = in_range d"
    by (simp_all add: found_call_def in_range_def fun_eq_iff)
  then have "event_line (d\<lparr>md_out := x\<rparr>) se ev = event_line d se ev" for ev
    by (cases ev) (simp_all add: wanted_size_def found_calls_def)
  then show ?thesis by blast
qed

lemma disc_step_line:
  assumes "searching d" "event_ok ev" "8 \<le> se"
  shows "disc_step se ev d =
    Some (d\<lparr>md_out := md_out d @ map (\<lambda>l. disc_text l @ [NL]) (List.map_filter (event_line d se) [ev])\<rparr>)"
proof (cases ev)
  case (EMalloc e sz a)
  have s: "md_active d" "\<not> md_use_gbt d" "\<not> md_discover_ptr d" using assms(1) by (simp_all add: searching_def)
  have w: "he_write_ok e" using assms(2) EMalloc by simp
  consider "\<not> wanted_size sz d" | "wanted_size sz d" "md_stage d < 3" | "wanted_size sz d" "3 \<le> md_stage d"
    by linarith
  then show ?thesis
  proof cases
    case 1
    with EMalloc show ?thesis by (simp add: md_postprocess_malloc_def List.map_filter_def)
  next
    case 2
    with report_plain [OF s(1) 2 s(3) w] EMalloc show ?thesis by (simp add: List.map_filter_def)
  next
    case 3
    with report_calls [OF s(1) 3 s(2,3) assms(3) w] EMalloc show ?thesis by (simp add: List.map_filter_def)
  qed
next
  case (EFree a)
  with assms(1) show ?thesis
    by (simp add: md_preprocess_free_def searching_def List.map_filter_def render_def)
qed

lemma disc_run:
  assumes "searching d" "\<forall>ev \<in> set evs. event_ok ev" "8 \<le> se"
  shows "fold_opt (disc_step se) evs d =
    Some (d\<lparr>md_out := md_out d @ map (\<lambda>l. disc_text l @ [NL]) (disc_lines d se evs)\<rparr>)"
  using assms
proof (induction evs arbitrary: d)
  case Nil
  then show ?case by (simp add: disc_lines_def List.map_filter_def)
next
  case (Cons ev evs)
  let ?d = "d\<lparr>md_out := md_out d @ map (\<lambda>l. disc_text l @ [NL]) (List.map_filter (event_line d se) [ev])\<rparr>"
  have "searching ?d" using Cons.prems(1) by (simp add: searching_def)
  with Cons.IH [of ?d] Cons.prems
  have "fold_opt (disc_step se) evs ?d =
      Some (?d\<lparr>md_out := md_out ?d @ map (\<lambda>l. disc_text l @ [NL]) (disc_lines ?d se evs)\<rparr>)" by simp
  moreover have "disc_lines ?d se evs = disc_lines d se evs" by (simp only: disc_lines_def event_line_out)
  moreover have "disc_lines d se (ev # evs) = List.map_filter (event_line d se) [ev] @ disc_lines d se evs"
    by (simp add: disc_lines_def List.map_filter_def)
  moreover have "disc_step se ev d = Some ?d"
    using disc_step_line [OF Cons.prems(1) _ Cons.prems(3)] Cons.prems(2) by simp
  ultimately show ?case by simp
qed

lemma event_line_fits:
  assumes "event_line d se ev = Some l" shows "disc_ok l" "line_fits PIPE_BUF (disc_text l)"
proof -
  have "disc_ok l \<and> length (disc_text l) \<le> 482"
  proof (cases ev)
    case (EMalloc e sz a)
    with assms length_found_calls [of d e se] length_found_text [of d e se] length_head [of a sz]
    show ?thesis by (auto simp: MAX_BT_def split: if_splits)
  next
    case (EFree a)
    with assms length_pr_ptr [of a] show ?thesis by (auto split: if_splits)
  qed
  then show "disc_ok l" "line_fits PIPE_BUF (disc_text l)"
    using disc_text_plain [of l] by (simp_all add: line_fits_def PIPE_BUF_def)
qed

lemma disc_found:
  assumes d: "searching d" "md_out d = [render (MStack se)]" and se: "8 \<le> se"
    and evs: "\<forall>ev \<in> set evs. event_ok ev" and run: "fold_opt (disc_step se) evs d = Some d'"
    and len: "length (concat (md_out d')) < 2 ^ 32" and a: "dp_in_addr dp \<noteq> 0"
  shows "postproc_stage1234 dp fifo_static_init (Some (concat (md_out d'))) s =
    Some (Some (foldr (\<lambda>l s. disc_handle dp s l) (disc_lines d se evs) (discover_stack_val dp s se)))"
proof -
  let ?ls = "disc_lines d se evs" and ?f = "\<lparr>f_data = concat (md_out d'), f_pos = 0\<rparr>"
  have "f_data ?f = text_of ((''S'' @ pr_ptr se) # map disc_text ?ls)"
    using run disc_run [OF d(1) evs se] d(2) by (auto simp: render_def comp_def)
  moreover have "\<forall>l \<in> set ?ls. disc_ok l \<and> line_fits PIPE_BUF (disc_text l)"
    using event_line_fits by (auto simp: disc_lines_def List.map_filter_def)
  moreover have "line_fits PIPE_BUF (''S'' @ pr_ptr se)"
    using length_pr_ptr [of se] by (simp add: line_fits_def partial_msg_def no_marks PIPE_BUF_def) (auto simp: no_marks)
  moreover have "se \<noteq> 0" using se by auto
  ultimately have "\<exists>st' f'. read_reverse (Some (disc_cb dp)) PARSE_S (dp_code_offs dp) fifo_static_init ?f s =
      Some (st', f', foldr (\<lambda>l s. disc_handle dp s l) ?ls (discover_stack_val dp s se))"
    using len df.read_whole [of fifo_static_init PIPE_BUF ?f se ?ls dp "discover_stack_val dp" "dp_code_offs dp" s]
    by (simp add: fifo_static_init_def disc_cb_def)
  with a show ?thesis by (auto simp: postproc_stage1234_def)
qed

end
