(* ===== verification/Preload.thy ===== *)
theory Preload
  imports CText
begin

text \<open>
  The list of preloaded libraries in the environment: the trainer appends the library
  (\<open>env_append\<close> and \<open>preload_library\<close> in \<open>src/src/lib/preload_l.c\<close>), the library removes itself from
  it (\<open>rm_from_env\<close> in \<open>src/src/linuxhooking/libcommon.c\<close>), so that processes started by the game
  are not hooked. The environment is a map from names to values without zero bytes;
  \<open>secure_getenv\<close> gives the value, unless the program runs with raised privileges.
\<close>

type_synonym env = "string \<Rightarrow> string option"

definition PRELOAD_VAR :: string where "PRELOAD_VAR = ''LD_PRELOAD''"

subsection \<open>The operations\<close>

definition secure_getenv :: "bool \<Rightarrow> string \<Rightarrow> env \<Rightarrow> string option" where
  "secure_getenv secure name env = (if secure then None else env name)"

text \<open>The result 0 or -1 with the new environment; \<open>mem_ok\<close>: \<open>malloc\<close> succeeds.\<close>

definition env_append :: "bool \<Rightarrow> bool \<Rightarrow> string \<Rightarrow> string \<Rightarrow> char \<Rightarrow> env \<Rightarrow> int \<times> env" where
  "env_append secure mem_ok name val separator env =
     (if \<not> mem_ok then (- 1, env)
      else case secure_getenv secure name env of
        Some old_env \<Rightarrow> (0, env(name \<mapsto> old_env @ [separator] @ val))
      | None \<Rightarrow> (0, env(name \<mapsto> val)))"

definition preload_library :: "bool \<Rightarrow> bool \<Rightarrow> string option \<Rightarrow> env \<Rightarrow> int \<times> env" where
  "preload_library secure mem_ok lib_path env =
     (case lib_path of
        None \<Rightarrow> (0, env)
      | Some path \<Rightarrow>
          if is_prefix ''-'' path then (0, env)
          else env_append secure mem_ok PRELOAD_VAR path (CHR '':'') env)"

text \<open>
  The loop of \<open>rm_from_env\<close> from \<open>start\<close> on, in place: the first part that contains the pattern is
  removed with the separator behind it; if it is the last part, it is cleared and the separator in
  front of it stays. \<open>None\<close>: no part contains the pattern.
\<close>

function rm_part :: "string \<Rightarrow> char \<Rightarrow> string \<Rightarrow> string option" where
  "rm_part pattern separator start =
     (case index_first (\<lambda>c. c = separator) start of
        None \<Rightarrow> if strstr start pattern \<noteq> None then Some [] else None
      | Some e \<Rightarrow>
          if strstr (take e start) pattern \<noteq> None then Some (drop (e + 1) start)
          else map_option ((@) (take (e + 1) start)) (rm_part pattern separator (drop (e + 1) start)))"
  by pat_completeness auto
termination
  by (relation "measure (\<lambda>(_, _, s). length s)") (auto dest: index_first_SomeD)

declare rm_part.simps [simp del]

definition rm_from_env :: "bool \<Rightarrow> string \<Rightarrow> string \<Rightarrow> char \<Rightarrow> env \<Rightarrow> env" where
  "rm_from_env secure env_name pattern separator env =
     (case secure_getenv secure env_name env of
        None \<Rightarrow> env
      | Some env_var \<Rightarrow>
          (case rm_part pattern separator env_var of None \<Rightarrow> env | Some v \<Rightarrow> env(env_name \<mapsto> v)))"

subsection \<open>The parts of a list\<close>

text \<open>The parts joined with separators.\<close>

fun join :: "char \<Rightarrow> string list \<Rightarrow> string" where
  "join sep [] = []"
| "join sep [p] = p"
| "join sep (p # q # ps) = p @ [sep] @ join sep (q # ps)"

definition part_ok :: "char \<Rightarrow> string \<Rightarrow> bool" where "part_ok sep p \<longleftrightarrow> sep \<notin> set p"

abbreviation has :: "string \<Rightarrow> string \<Rightarrow> bool" where "has pat p \<equiv> strstr p pat \<noteq> None"

text \<open>What the removal does to the parts: a last part becomes empty instead of vanishing.\<close>

fun rm_first :: "string \<Rightarrow> string list \<Rightarrow> string list option" where
  "rm_first pat [] = None"
| "rm_first pat (p # ps) =
     (if has pat p then Some (if ps = [] then [[]] else ps) else map_option ((#) p) (rm_first pat ps))"

lemma first_sep:
  assumes "part_ok sep p"
  shows "index_first (\<lambda>c. c = sep) (p @ sep # r) = Some (length p)" "index_first (\<lambda>c. c = sep) p = None"
  using assms by (auto simp: part_ok_def index_first_None intro: index_first_skip)

lemma join_Cons: "ps \<noteq> [] \<Longrightarrow> join sep (p # ps) = p @ sep # join sep ps"
  by (cases ps) auto

lemma rm_first_not_Nil: "rm_first pat ps = Some qs \<Longrightarrow> qs \<noteq> []"
  by (induction ps arbitrary: qs) (auto split: if_splits)

lemma rm_part_join:
  "ps \<noteq> [] \<Longrightarrow> \<forall>p \<in> set ps. part_ok sep p \<Longrightarrow>
     rm_part pat sep (join sep ps) = map_option (join sep) (rm_first pat ps)"
proof (induction ps)
  case (Cons p ps)
  have ok: "part_ok sep p" "\<forall>q \<in> set ps. part_ok sep q" using Cons.prems by auto
  show ?case
  proof (cases "ps = []")
    case True
    with first_sep(2) [OF ok(1)] show ?thesis by (simp add: rm_part.simps [of _ _ p])
  next
    case False
    note j = join_Cons [OF False, of sep p]
    have "rm_part pat sep (p @ sep # join sep ps) =
        (if has pat p then Some (join sep ps)
         else map_option (\<lambda>r. p @ sep # r) (rm_part pat sep (join sep ps)))"
      using first_sep(1) [OF ok(1), of "join sep ps"]
      by (cases "rm_part pat sep (join sep ps)") (simp_all add: rm_part.simps [of _ _ "p @ sep # join sep ps"])
    moreover have "map_option (\<lambda>r. p @ sep # r) (map_option (join sep) (rm_first pat ps)) =
        map_option (join sep) (map_option ((#) p) (rm_first pat ps))"
      using rm_first_not_Nil [of pat ps] join_Cons by (cases "rm_first pat ps") auto
    ultimately show ?thesis using Cons.IH [OF False ok(2)] False j by simp
  qed
qed simp

lemma join_snoc: "ps \<noteq> [] \<Longrightarrow> join sep (ps @ [p]) = join sep ps @ [sep] @ p"
  by (induction sep ps rule: join.induct) auto

lemma rm_first_snoc:
  "\<forall>p \<in> set ps. \<not> has pat p \<Longrightarrow> has pat lib \<Longrightarrow> rm_first pat (ps @ [lib]) = Some (ps @ [[]])"
  by (induction ps) auto

text \<open>
  Preloading and removing: the libraries that were there before stay, in front of an empty part.
\<close>

lemma preload_and_remove:
  assumes "env PRELOAD_VAR = map_option (join (CHR '':'')) old" "old = None \<or> (\<exists>ps. old = Some ps \<and> ps \<noteq> [])"
    and ok: "\<forall>ps. old = Some ps \<longrightarrow> (\<forall>p \<in> set ps. part_ok (CHR '':'') p \<and> \<not> has pat p)"
    and lib: "part_ok (CHR '':'') lib" "has pat lib" "\<not> is_prefix ''-'' lib"
  shows "\<exists>env1. preload_library False True (Some lib) env = (0, env1) \<and>
    env1 PRELOAD_VAR = Some (join (CHR '':'') (case old of None \<Rightarrow> [lib] | Some ps \<Rightarrow> ps @ [lib])) \<and>
    rm_from_env False PRELOAD_VAR pat (CHR '':'') env1 =
      env(PRELOAD_VAR \<mapsto> join (CHR '':'') (case old of None \<Rightarrow> [[]] | Some ps \<Rightarrow> ps @ [[]]))"
proof (cases old)
  case None
  have "rm_part pat (CHR '':'') lib = Some []"
    using rm_part_join [of "[lib]" "CHR '':''" pat] lib by simp
  with None assms(1) lib(3) show ?thesis
    by (simp add: preload_library_def env_append_def rm_from_env_def secure_getenv_def fun_upd_upd)
next
  case (Some ps)
  then have ps: "ps \<noteq> []" "\<forall>p \<in> set ps. part_ok (CHR '':'') p \<and> \<not> has pat p" using assms(2) ok by auto
  have "rm_part pat (CHR '':'') (join (CHR '':'') (ps @ [lib])) = Some (join (CHR '':'') (ps @ [[]]))"
    using rm_part_join [of "ps @ [lib]" "CHR '':''" pat] rm_first_snoc [of ps pat lib] ps lib by auto
  with Some assms(1) lib(3) show ?thesis
    by (simp add: preload_library_def env_append_def rm_from_env_def secure_getenv_def join_snoc [OF ps(1)])
qed

end
