(* ===== verification/Memhooks.thy ===== *)
theory Memhooks
  imports Prelude
begin

text \<open>
  The hooks of the allocation functions (\<open>src/src/linuxhooking/memhooks.c\<close>), one thread. A call of a
  hooked function is a tree: which function with which arguments, what the original function
  returns, and the calls of hooked functions that happen inside, in \<open>dlsym\<close>, in the original
  function and in the code of the preloaded library. \<open>no_hook\<close> keeps the inner calls out of the
  reports. The events are the calls of \<open>preprocess_free\<close>, \<open>postprocess_malloc\<close> and
  \<open>postprocess_dlopen\<close>, whose bodies are those of \<open>libmemhack\<close> or \<open>libmemdisc\<close>.
\<close>

definition stat_calloc_size :: "64 word" where "stat_calloc_size = 4096"

text \<open>
  The instances of the template, by the name of the function: those with the type of \<open>malloc\<close>
  (\<open>malloc\<close>, \<open>_Znwm\<close>, \<open>_Znwj\<close>, \<open>g_malloc\<close>, \<open>g_malloc0\<close>, \<open>g_slice_alloc\<close>, \<open>g_slice_alloc0\<close>),
  those with two factors (\<open>g_malloc_n\<close>, \<open>g_malloc0_n\<close>), and those of \<open>free\<close> (\<open>free\<close>, \<open>g_free\<close>,
  \<open>g_slice_free1\<close>).
\<close>

datatype hfun =
    HMalloc string "64 word" | HMallocN string "64 word" "64 word" | HCalloc "64 word" "64 word"
  | HRealloc ptr "64 word" | HFree string ptr | HDlopen string

fun hfun_name :: "hfun \<Rightarrow> string" where
  "hfun_name (HMalloc n sz) = n"
| "hfun_name (HMallocN n nm sz) = n"
| "hfun_name (HCalloc nm sz) = ''calloc''"
| "hfun_name (HRealloc p sz) = ''realloc''"
| "hfun_name (HFree n p) = n"
| "hfun_name (HDlopen path) = ''dlopen''"

datatype hevent = EvMalloc "64 word" ptr | EvFree ptr | EvDlopen string

text \<open>The code in front of the original function and behind it; \<open>res\<close> is what it returns.\<close>

fun pre_code :: "hfun \<Rightarrow> hevent list" where
  "pre_code (HRealloc p sz) = [EvFree p]"
| "pre_code (HFree n p) = [EvFree p]"
| "pre_code _ = []"

fun post_code :: "hfun \<Rightarrow> ptr \<Rightarrow> hevent list" where
  "post_code (HMalloc n sz) res = [EvMalloc sz res]"
| "post_code (HMallocN n nm sz) res = [EvMalloc (nm * sz) res]"
| "post_code (HCalloc nm sz) res = [EvMalloc (nm * sz) res]"
| "post_code (HRealloc p sz) res = [EvMalloc sz res]"
| "post_code (HFree n p) res = []"
| "post_code (HDlopen path) res = [EvDlopen path]"

text \<open>A call, what the original returns, and the inner calls in the order of the template.\<close>

datatype hcall = HCall hfun ptr (in_pre: "hcall list") (in_dlsym: "hcall list") (in_orig: "hcall list")
  (in_post: "hcall list")

text \<open>
  \<open>no_hook\<close>, the functions whose original is known, the static memory (its first free byte and the
  block that has been given out), the events and what the calls at the top returned.
\<close>

record hooks =
  hk_no_hook :: bool
  hk_orig :: "string list"
  hk_stat_offs :: "64 word"
  hk_stat_addr :: "64 word option"
  hk_log :: "hevent list"

definition hooks_start :: hooks where
  "hooks_start = \<lparr>hk_no_hook = False, hk_orig = [], hk_stat_offs = 0, hk_stat_addr = None, hk_log = []\<rparr>"

text \<open>Memory for the first \<open>calloc\<close>: the offset of the block (\<open>None\<close>: \<open>NULL\<close>), the new offset.\<close>

definition stat_calloc :: "64 word \<Rightarrow> 64 word \<Rightarrow> 64 word option \<times> 64 word" where
  "stat_calloc sz offs =
     (let offs' = offs + sz
      in if stat_calloc_size \<le> offs' then (None, stat_calloc_size) else (Some offs, offs'))"

definition log_events :: "hevent list \<Rightarrow> hooks \<Rightarrow> hooks" where
  "log_events evs h = h\<lparr>hk_log := hk_log h @ evs\<rparr>"

definition know_orig :: "hfun \<Rightarrow> hooks \<Rightarrow> hooks" where
  "know_orig f h = h\<lparr>hk_orig := hfun_name f # hk_orig h\<rparr>"

definition from_static :: "hfun \<Rightarrow> hooks \<Rightarrow> bool" where
  "from_static f h \<longleftrightarrow> (case f of HCalloc nm sz \<Rightarrow> hk_stat_addr h = None | _ \<Rightarrow> False)"

definition take_static :: "hfun \<Rightarrow> hooks \<Rightarrow> hooks" where
  "take_static f h = (case f of
     HCalloc nm sz \<Rightarrow> (case stat_calloc (nm * sz) (hk_stat_offs h) of
       (a, offs) \<Rightarrow> h\<lparr>hk_stat_addr := a, hk_stat_offs := offs\<rparr>)
   | _ \<Rightarrow> h)"

text \<open>The template \<open>__HOOK_FUNCTION\<close>.\<close>

fun run_call :: "hcall \<Rightarrow> hooks \<Rightarrow> hooks" and run_calls :: "hcall list \<Rightarrow> hooks \<Rightarrow> hooks" where
  "run_call (HCall f res pre dls orig post) h =
     (if hk_no_hook h then
        if hfun_name f \<notin> set (hk_orig h) \<and> from_static f h then take_static f h
        else run_calls orig
               (if hfun_name f \<in> set (hk_orig h) then h else know_orig f (run_calls dls h))
      else
        let h = h\<lparr>hk_no_hook := True\<rparr>;
            h = run_calls pre (log_events (pre_code f) h);
            h = (if hfun_name f \<in> set (hk_orig h) then h else know_orig f (run_calls dls h));
            h = run_calls orig h;
            h = run_calls post (log_events (post_code f res) h)
        in h\<lparr>hk_no_hook := False\<rparr>)"
| "run_calls [] h = h"
| "run_calls (c # cs) h = run_calls cs (run_call c h)"

declare run_call.simps [simp del]

subsection \<open>The reports\<close>

fun call_events :: "hcall \<Rightarrow> hevent list" where
  "call_events (HCall f res pre dls orig post) = pre_code f @ post_code f res"

lemma log_events_sel [simp]:
  "hk_no_hook (log_events evs h) = hk_no_hook h" "hk_log (log_events evs h) = hk_log h @ evs"
  "hk_orig (log_events evs h) = hk_orig h" "hk_stat_addr (log_events evs h) = hk_stat_addr h"
  "hk_stat_offs (log_events evs h) = hk_stat_offs h"
  by (simp_all add: log_events_def)

lemma know_orig_sel [simp]:
  "hk_no_hook (know_orig f h) = hk_no_hook h" "hk_log (know_orig f h) = hk_log h"
  "hk_orig (know_orig f h) = hfun_name f # hk_orig h" "hk_stat_addr (know_orig f h) = hk_stat_addr h"
  "hk_stat_offs (know_orig f h) = hk_stat_offs h"
  by (simp_all add: know_orig_def)

lemma take_static_sel [simp]:
  "hk_no_hook (take_static f h) = hk_no_hook h" "hk_log (take_static f h) = hk_log h"
  "hk_orig (take_static f h) = hk_orig h"
  by (simp_all add: take_static_def stat_calloc_def Let_def split: hfun.split)

text \<open>Inside of a hook nothing is reported.\<close>

definition silent :: "hooks \<Rightarrow> hooks \<Rightarrow> bool" where
  "silent h h' \<longleftrightarrow> hk_no_hook h' \<and> hk_log h' = hk_log h"

lemma silent_refl: "hk_no_hook h \<Longrightarrow> silent h h"
  by (simp add: silent_def)

lemma silent_trans: "silent h h' \<Longrightarrow> silent h' h'' \<Longrightarrow> silent h h''"
  by (simp add: silent_def)

lemma run_calls_silent:
  "\<forall>c \<in> set cs. \<forall>h. hk_no_hook h \<longrightarrow> silent h (run_call c h) \<Longrightarrow> hk_no_hook h \<Longrightarrow>
     silent h (run_calls cs h)"
proof (induction cs arbitrary: h)
  case (Cons c cs)
  then have "silent h (run_call c h)" by simp
  with Cons silent_trans show ?case by (simp add: silent_def)
qed (simp add: silent_refl)

lemma run_call_silent: "hk_no_hook h \<Longrightarrow> silent h (run_call c h)"
proof (induction c arbitrary: h)
  case (HCall f res pre dls orig post)
  have o: "hk_no_hook g \<Longrightarrow> silent g (run_calls orig g)" for g
    by (rule run_calls_silent) (auto intro: HCall.IH)
  have d: "hk_no_hook g \<Longrightarrow> silent g (run_calls dls g)" for g
    by (rule run_calls_silent) (auto intro: HCall.IH)
  have dk: "silent h (know_orig f (run_calls dls h))"
    using d [OF HCall.prems] by (simp add: silent_def)
  show ?case
  proof (cases "hfun_name f \<in> set (hk_orig h)")
    case True
    with o HCall.prems show ?thesis by (simp add: run_call.simps)
  next
    case False
    have "silent h (run_calls orig (know_orig f (run_calls dls h)))"
      using dk o by (blast intro: silent_trans silent_def [THEN iffD1, THEN conjunct1])
    with False HCall.prems show ?thesis by (simp add: run_call.simps silent_def)
  qed
qed

lemma run_inside: "hk_no_hook h \<Longrightarrow> silent h (run_calls cs h)"
  by (rule run_calls_silent) (auto intro: run_call_silent)

text \<open>A call from outside reports itself and nothing that happens inside.\<close>

lemma run_call_outside:
  assumes "\<not> hk_no_hook h"
  shows "\<not> hk_no_hook (run_call c h) \<and> hk_log (run_call c h) = hk_log h @ call_events c"
proof (cases c)
  case (HCall f res pre dls orig post)
  define h1 where "h1 = run_calls pre (log_events (pre_code f) (h\<lparr>hk_no_hook := True\<rparr>))"
  define h2 where "h2 = (if hfun_name f \<in> set (hk_orig h1) then h1 else know_orig f (run_calls dls h1))"
  define h3 where "h3 = run_calls orig h2"
  define h4 where "h4 = run_calls post (log_events (post_code f res) h3)"
  have 1: "hk_no_hook h1 \<and> hk_log h1 = hk_log h @ pre_code f"
    using run_inside [of "log_events (pre_code f) (h\<lparr>hk_no_hook := True\<rparr>)" pre] by (simp add: h1_def silent_def)
  have 2: "hk_no_hook h2 \<and> hk_log h2 = hk_log h1"
    using run_inside [of h1 dls] 1 by (simp add: h2_def silent_def)
  have 3: "hk_no_hook h3 \<and> hk_log h3 = hk_log h2"
    using run_inside [of h2 orig] 2 by (simp add: h3_def silent_def)
  have 4: "hk_log h4 = hk_log h3 @ post_code f res"
    using run_inside [of "log_events (post_code f res) h3" post] 3 by (simp add: h4_def silent_def)
  have "run_call c h = h4\<lparr>hk_no_hook := False\<rparr>"
    using assms by (simp add: HCall run_call.simps Let_def h1_def h2_def h3_def h4_def)
  then show ?thesis using 1 2 3 4 by (simp add: HCall)
qed

lemma run_calls_report:
  "\<not> hk_no_hook h \<Longrightarrow>
     \<not> hk_no_hook (run_calls cs h) \<and>
     hk_log (run_calls cs h) = hk_log h @ concat (map call_events cs)"
proof (induction cs arbitrary: h)
  case (Cons c cs)
  show ?case using Cons.IH [of "run_call c h"] run_call_outside [OF Cons.prems, of c] by simp
qed simp

lemma run_calls_append: "run_calls (cs @ ds) h = run_calls ds (run_calls cs h)"
  by (induction cs arbitrary: h) auto

subsection \<open>The static memory\<close>

text \<open>
  The block lies inside of the array as long as the size of the request does not carry the offset
  over \<open>2^64\<close>. The first request is served if it leaves a byte free.
\<close>

lemma stat_calloc_inside:
  assumes "stat_calloc sz offs = (Some a, offs')" "offs \<le> stat_calloc_size"
    "unat offs + unat sz < 2 ^ 64"
  shows "a = offs \<and> unat a + unat sz < 4096 \<and> offs' < stat_calloc_size \<and> unat offs' = unat a + unat sz"
proof -
  have "unat (offs + sz) = unat offs + unat sz"
    using assms(3) by (simp add: unat_word_ariths)
  with assms(1) show ?thesis
    by (auto simp: stat_calloc_def stat_calloc_size_def Let_def word_le_nat_alt word_less_nat_alt
        not_le split: if_splits)
qed

lemma stat_calloc_first:
  "stat_calloc sz 0 = (if unat sz < 4096 then (Some 0, sz) else (None, stat_calloc_size))"
  by (auto simp: stat_calloc_def stat_calloc_size_def Let_def word_le_nat_alt)

text \<open>
  After a request that was refused, a size near \<open>2^64\<close> is granted at the end of the array. The
  product of the two factors is taken in 64 bits, so that such a size need not be what was asked
  for.
\<close>

lemma stat_calloc_behind_array:
  "0 < k \<Longrightarrow> k \<le> (4096 :: 64 word) \<Longrightarrow>
     stat_calloc (- k) stat_calloc_size = (Some stat_calloc_size, stat_calloc_size - k)"
proof -
  assume k: "0 < k" "k \<le> 4096"
  have "unat ((4096 :: 64 word) - k) = 4096 - unat k"
    using k by (simp add: unat_sub word_le_nat_alt)
  moreover have "0 < unat k" using k by (simp add: word_less_nat_alt)
  ultimately have "\<not> 4096 \<le> (4096 :: 64 word) - k" by (simp add: word_le_nat_alt)
  then show ?thesis by (simp add: stat_calloc_def stat_calloc_size_def Let_def)
qed

end
