(* ===== verification/Dump.thy ===== *)
theory Dump
  imports Process MemmgmtInv
begin

text \<open>
  Dumping memory into files (\<open>src/src/dump.cpp\<close>): the objects of the classes, the memory behind
  settled pointers and the areas of static memory that the config lists, each with a backup of
  the dump before. The files of the working directory are a map from names to bytes.
\<close>

type_synonym files = "string \<Rightarrow> byte list option"

text \<open>
  What the operating system does, by the name of the dump: attaching to the game, renaming, opening
  the new file, and how many bytes \<open>write\<close> takes (nothing if it fails).
\<close>

record dump_env =
  de_attach :: "string \<Rightarrow> bool"
  de_rename :: "string \<Rightarrow> bool"
  de_open :: "string \<Rightarrow> bool"
  de_write :: "string \<Rightarrow> nat"

definition dump_name :: "string \<Rightarrow> u32 \<Rightarrow> u32 \<Rightarrow> string" where
  "dump_name prefix main_id obj_id =
     prefix @ pr_u32 main_id @ ''_'' @ (if obj_id < 100 then ''0'' else []) @ (if obj_id < 10 then ''0'' else []) @
     pr_u32 obj_id"

text \<open>An existing file is kept under the other name; \<open>None\<close>: it could not be renamed.\<close>

definition back_up :: "dump_env \<Rightarrow> string \<Rightarrow> string \<Rightarrow> files \<Rightarrow> files option" where
  "back_up env fname backup fs =
     (case fs fname of
        None \<Rightarrow> Some fs
      | Some old \<Rightarrow> if de_rename env fname then Some ((fs(backup \<mapsto> old))(fname := None)) else None)"

definition dump_mem_obj :: "dump_env \<Rightarrow> gmem \<Rightarrow> string \<Rightarrow> u32 \<Rightarrow> u32 \<Rightarrow> ptr \<Rightarrow> 64 word \<Rightarrow> files \<Rightarrow> files" where
  "dump_mem_obj env mem prefix main_id obj_id mem_addr msize fs =
     (let name = dump_name prefix main_id obj_id;
          fname = name @ ''.dump'';
          backup = name @ ''~.dump''
      in if \<not> de_attach env fname then fs
         else case memread mem mem_addr (unat msize) of (bs, ok) \<Rightarrow>
           if \<not> ok then fs
           else case back_up env fname backup fs of
             None \<Rightarrow> fs
           | Some fs' \<Rightarrow> if de_open env fname then fs'(fname \<mapsto> take (de_write env fname) bs) else fs')"

text \<open>The memory maps; \<open>maps\<close> is what \<open>write_maps_to_file\<close> writes.\<close>

definition dump_maps :: "dump_env \<Rightarrow> byte list \<Rightarrow> files \<Rightarrow> files" where
  "dump_maps env maps fs =
     (case back_up env ''maps.dump.txt'' ''maps~.dump.txt'' fs of
        None \<Rightarrow> fs
      | Some fs' \<Rightarrow> if de_open env ''maps.dump.txt'' then fs'(''maps.dump.txt'' \<mapsto> maps) else fs')"

subsection \<open>The three loops\<close>

primrec dump_objs :: "dump_env \<Rightarrow> gmem \<Rightarrow> u32 \<Rightarrow> ptr list \<Rightarrow> 64 word list \<Rightarrow> nat list \<Rightarrow> files \<Rightarrow> files option" where
  "dump_objs env mem main_id maddr msize [] fs = Some fs"
| "dump_objs env mem main_id maddr msize (i # is) fs = do {
     a \<leftarrow> vget maddr i;
     n \<leftarrow> vget msize i;
     dump_objs env mem main_id maddr msize is (dump_mem_obj env mem [] main_id (of_nat i) a n fs) }"

primrec dump_classes :: "dump_env \<Rightarrow> gmem \<Rightarrow> world \<Rightarrow> nat list \<Rightarrow> u32 \<Rightarrow> files \<Rightarrow> files option" where
  "dump_classes env mem w [] main_id fs = Some fs"
| "dump_classes env mem w (di # dis) main_id fs = do {
     d \<leftarrow> vget (w_dyn w) di;
     fs' \<leftarrow> dump_objs env mem main_id (d_v_maddr d) (d_v_msize d) [0..<length (d_v_maddr d)] fs;
     dump_classes env mem w dis (main_id + 1) fs' }"

text \<open>\<open>CHECK_PTR\<close> and \<open>DUMP_PTR_MEM\<close> with the old value of the entry.\<close>

definition dump_ptr :: "dump_env \<Rightarrow> gmem \<Rightarrow> u32 \<Rightarrow> nat \<Rightarrow> value_t \<Rightarrow> ptrmem_entry \<Rightarrow> files \<Rightarrow> files option" where
  "dump_ptr env mem main_id i old p fs =
     (if old = 0 then Some fs
      else do {
        st \<leftarrow> vget (p_v_state p) i;
        Some (if st = PTR_INIT then fs
              else dump_mem_obj env mem ''p'' main_id (of_nat i) old (p_mem_size p) fs) })"

primrec dump_ptr_objs ::
  "dump_env \<Rightarrow> gmem \<Rightarrow> u32 \<Rightarrow> nat \<Rightarrow> ptrmem_entry \<Rightarrow> nat list \<Rightarrow> world \<times> files \<Rightarrow> (world \<times> files) option" where
  "dump_ptr_objs env mem main_id ci p [] s = Some s"
| "dump_ptr_objs env mem main_id ci p (i # is) s = do {
     c \<leftarrow> vget (w_cfg (fst s)) ci;
     old \<leftarrow> vget (c_v_oldval c) i;
     w \<leftarrow> mod_cfg ci (\<lambda>c. Some (c\<lparr>c_old_val := old\<rparr>)) (fst s);
     fs \<leftarrow> dump_ptr env mem main_id i old p (snd s);
     dump_ptr_objs env mem main_id ci p is (w, fs) }"

primrec dump_ptrs ::
  "dump_env \<Rightarrow> gmem \<Rightarrow> nat list \<Rightarrow> u32 \<Rightarrow> world \<times> files \<Rightarrow> (world \<times> files) option" where
  "dump_ptrs env mem [] main_id s = Some s"
| "dump_ptrs env mem (ci # cis) main_id s = do {
     c \<leftarrow> vget (w_cfg (fst s)) ci;
     case c_ptrtgt c of
       None \<Rightarrow> dump_ptrs env mem cis main_id s
     | Some pi \<Rightarrow> do {
         p \<leftarrow> vget (w_ptr (fst s)) pi;
         s' \<leftarrow> (case c_dynmem c of
            None \<Rightarrow> map_option (Pair (fst s)) (dump_ptr env mem main_id 0 (c_old_val c) p (snd s))
          | Some di \<Rightarrow> do {
              d \<leftarrow> vget (w_dyn (fst s)) di;
              dump_ptr_objs env mem main_id ci p [0..<length (d_v_maddr d)] s });
         dump_ptrs env mem cis (main_id + 1) s' } }"

primrec dump_areas :: "dump_env \<Rightarrow> gmem \<Rightarrow> world \<Rightarrow> dump_entry list \<Rightarrow> u32 \<Rightarrow> files \<Rightarrow> files option" where
  "dump_areas env mem w [] main_id fs = Some fs"
| "dump_areas env mem w (u # us) main_id fs = do {
     loaded \<leftarrow> (case u_lib u of None \<Rightarrow> Some True | Some li \<Rightarrow> map_option l_is_loaded (vget (w_lib w) li));
     dump_areas env mem w us (main_id + 1)
       (if loaded then dump_mem_obj env mem ''s'' main_id 0 (u_addr u) (u_mem_size u) fs else fs) }"

definition dump_all_mem_obj :: "dump_env \<Rightarrow> gmem \<Rightarrow> byte list \<Rightarrow> world \<times> files \<Rightarrow> (world \<times> files) option" where
  "dump_all_mem_obj env mem maps s = do {
     let w = fst s;
     fs1 \<leftarrow> dump_classes env mem w (dyn_visits None (w_cfg w)) 0 (dump_maps env maps (snd s));
     s2 \<leftarrow> dump_ptrs env mem [0..<length (w_cfg w)] 0 (w, fs1);
     fs3 \<leftarrow> dump_areas env mem (fst s2) (w_dump (fst s2)) 0 (snd s2);
     Some (fst s2, fs3) }"

end
