(* ===== verification/Control.thy ===== *)
theory Control
  imports Dump CfgparserInv
begin

text \<open>
  The keys of the user (\<open>src/src/control.cpp\<close>): activating and deactivating config entries,
  choosing the object that is shown, and dumping. The activated entries are kept in several lists
  at once: the entries of static memory and of classes in \<open>cfg_act\<close>, those of a class in the list
  of the class as well, and those behind a pointer in the list of the pointer. The invariant
  \<open>act_inv\<close> says how the lists fit together; the parser establishes it and the keys keep it.
\<close>

section \<open>Input of the user\<close>

datatype chgmode_e = INCREMENT | DECREMENT

definition change_mvec_pridx :: "chgmode_e \<Rightarrow> world \<Rightarrow> world option" where
  "change_mvec_pridx mode w =
     fold_opt (\<lambda>di. mod_dyn di (\<lambda>d. Some (d\<lparr>d_pr_idx := (if mode = INCREMENT then d_pr_idx d + 1
        else if 0 < d_pr_idx d then d_pr_idx d - 1 else d_pr_idx d)\<rparr>)))
       (dyn_visits None (w_cfg w)) w"

text \<open>The list that holds the entry when it is activated, and a change of it.\<close>

definition used_cfg_act :: "cfg_entry \<Rightarrow> world \<Rightarrow> nat list option" where
  "used_cfg_act c w = (case c_ptrmem c of
     Some pi \<Rightarrow> map_option p_cfg_act (vget (w_ptr w) pi) | None \<Rightarrow> Some (w_cfg_act w))"

definition upd_used :: "cfg_entry \<Rightarrow> (nat list \<Rightarrow> nat list) \<Rightarrow> world \<Rightarrow> world option" where
  "upd_used c f w = (case c_ptrmem c of
     Some pi \<Rightarrow> mod_ptr pi (\<lambda>p. Some (p\<lparr>p_cfg_act := f (p_cfg_act p)\<rparr>)) w
   | None \<Rightarrow> Some (w\<lparr>w_cfg_act := f (w_cfg_act w)\<rparr>))"

definition upd_class_act :: "cfg_entry \<Rightarrow> (nat list \<Rightarrow> nat list) \<Rightarrow> world \<Rightarrow> world option" where
  "upd_class_act c f w = (case c_dynmem c of
     Some di \<Rightarrow> mod_dyn di (\<lambda>d. Some (d\<lparr>d_cfg_act := f (d_cfg_act d)\<rparr>)) w
   | None \<Rightarrow> Some w)"

definition toggle_entry :: "nat \<Rightarrow> world \<Rightarrow> world option" where
  "toggle_entry ci w = do {
     c \<leftarrow> vget (w_cfg w) ci;
     act \<leftarrow> used_cfg_act c w;
     if ci \<in> set act then upd_used c (remove1 ci) w \<bind> upd_class_act c (remove1 ci)
     else upd_used c (\<lambda>l. l @ [ci]) w \<bind> upd_class_act c (\<lambda>l. l @ [ci]) }"

definition toggle_cfg :: "nat list \<Rightarrow> world \<Rightarrow> world option" where
  "toggle_cfg key_cfg = fold_opt toggle_entry key_cfg"

text \<open>The files change only by a dump.\<close>

definition handle_input_char ::
  "dump_env \<Rightarrow> gmem \<Rightarrow> byte list \<Rightarrow> (char \<Rightarrow> nat list option) \<Rightarrow> char \<Rightarrow> world \<times> files \<Rightarrow> (world \<times> files) option" where
  "handle_input_char env mem maps keys ch s =
     (if ch = CHR ''>'' then dump_all_mem_obj env mem maps s
      else map_option (\<lambda>w. (w, snd s))
        (if ch = CHR ''+'' then change_mvec_pridx INCREMENT (fst s)
         else if ch = CHR ''-'' then change_mvec_pridx DECREMENT (fst s)
         else case keys ch of None \<Rightarrow> Some (fst s) | Some l \<Rightarrow> toggle_cfg l (fst s)))"

section \<open>The activated entries\<close>

definition act_inv :: "world \<Rightarrow> bool" where
  "act_inv w \<longleftrightarrow>
     distinct (w_cfg_act w) \<and>
     (\<forall>ci \<in> set (w_cfg_act w). ci < length (w_cfg w) \<and> c_ptrmem (w_cfg w ! ci) = None) \<and>
     (\<forall>ci < length (w_cfg w). \<forall>di. c_dynmem (w_cfg w ! ci) = Some di \<longrightarrow>
        di < length (w_dyn w) \<and> c_ptrmem (w_cfg w ! ci) = None) \<and>
     (\<forall>ci < length (w_cfg w). \<forall>pi. c_ptrmem (w_cfg w ! ci) = Some pi \<longrightarrow> pi < length (w_ptr w)) \<and>
     (\<forall>di < length (w_dyn w).
        d_cfg_act (w_dyn w ! di) = filter (\<lambda>ci. c_dynmem (w_cfg w ! ci) = Some di) (w_cfg_act w)) \<and>
     (\<forall>pi < length (w_ptr w). distinct (p_cfg_act (w_ptr w ! pi)) \<and>
        (\<forall>ci \<in> set (p_cfg_act (w_ptr w ! pi)). ci < length (w_cfg w) \<and> c_ptrmem (w_cfg w ! ci) = Some pi))"

text \<open>Whether an entry is activated, by the list that the processing of values goes through.\<close>

definition is_active :: "world \<Rightarrow> nat \<Rightarrow> bool" where
  "is_active w ci \<longleftrightarrow> (case c_ptrmem (w_cfg w ! ci) of
     None \<Rightarrow> ci \<in> set (w_cfg_act w) | Some pi \<Rightarrow> ci \<in> set (p_cfg_act (w_ptr w ! pi)))"

text \<open>What a toggle leaves alone.\<close>

definition same_links :: "world \<Rightarrow> world \<Rightarrow> bool" where
  "same_links w w' \<longleftrightarrow> w_cfg w' = w_cfg w \<and> length (w_dyn w') = length (w_dyn w) \<and> length (w_ptr w') = length (w_ptr w)"

lemma act_invD:
  assumes "act_inv w"
  shows "distinct (w_cfg_act w)"
    "ci \<in> set (w_cfg_act w) \<Longrightarrow> ci < length (w_cfg w)" "ci \<in> set (w_cfg_act w) \<Longrightarrow> c_ptrmem (w_cfg w ! ci) = None"
    "ci < length (w_cfg w) \<Longrightarrow> c_dynmem (w_cfg w ! ci) = Some di \<Longrightarrow> di < length (w_dyn w)"
    "ci < length (w_cfg w) \<Longrightarrow> c_dynmem (w_cfg w ! ci) = Some di \<Longrightarrow> c_ptrmem (w_cfg w ! ci) = None"
    "ci < length (w_cfg w) \<Longrightarrow> c_ptrmem (w_cfg w ! ci) = Some pi \<Longrightarrow> pi < length (w_ptr w)"
    "di < length (w_dyn w) \<Longrightarrow>
       d_cfg_act (w_dyn w ! di) = filter (\<lambda>ci. c_dynmem (w_cfg w ! ci) = Some di) (w_cfg_act w)"
    "pi < length (w_ptr w) \<Longrightarrow> distinct (p_cfg_act (w_ptr w ! pi))"
    "pi < length (w_ptr w) \<Longrightarrow> ci \<in> set (p_cfg_act (w_ptr w ! pi)) \<Longrightarrow> ci < length (w_cfg w)"
    "pi < length (w_ptr w) \<Longrightarrow> ci \<in> set (p_cfg_act (w_ptr w ! pi)) \<Longrightarrow> c_ptrmem (w_cfg w ! ci) = Some pi"
  using assms unfolding act_inv_def by blast+

lemma act_invI:
  assumes "distinct (w_cfg_act w)"
    and "\<And>ci. ci \<in> set (w_cfg_act w) \<Longrightarrow> ci < length (w_cfg w) \<and> c_ptrmem (w_cfg w ! ci) = None"
    and "\<And>ci di. ci < length (w_cfg w) \<Longrightarrow> c_dynmem (w_cfg w ! ci) = Some di \<Longrightarrow>
      di < length (w_dyn w) \<and> c_ptrmem (w_cfg w ! ci) = None"
    and "\<And>ci pi. ci < length (w_cfg w) \<Longrightarrow> c_ptrmem (w_cfg w ! ci) = Some pi \<Longrightarrow> pi < length (w_ptr w)"
    and "\<And>di. di < length (w_dyn w) \<Longrightarrow>
      d_cfg_act (w_dyn w ! di) = filter (\<lambda>ci. c_dynmem (w_cfg w ! ci) = Some di) (w_cfg_act w)"
    and "\<And>pi. pi < length (w_ptr w) \<Longrightarrow> distinct (p_cfg_act (w_ptr w ! pi)) \<and>
      (\<forall>ci \<in> set (p_cfg_act (w_ptr w ! pi)). ci < length (w_cfg w) \<and> c_ptrmem (w_cfg w ! ci) = Some pi)"
  shows "act_inv w"
  using assms unfolding act_inv_def by blast

subsection \<open>Toggling\<close>

text \<open>The change of one list.\<close>

definition toggle_in :: "nat \<Rightarrow> nat list \<Rightarrow> nat list" where
  "toggle_in x l = (if x \<in> set l then remove1 x l else l @ [x])"

lemma toggle_in_distinct [simp]: "distinct l \<Longrightarrow> distinct (toggle_in x l)"
  by (simp add: toggle_in_def)

lemma toggle_in_set: "distinct l \<Longrightarrow> y \<in> set (toggle_in x l) \<longleftrightarrow> (y \<in> set l) \<noteq> (y = x)"
  by (auto simp: toggle_in_def)

lemma filter_remove1_other: "\<not> P x \<Longrightarrow> filter P (remove1 x l) = filter P l"
  by (induction l) auto

lemma toggle_in_filter:
  "distinct l \<Longrightarrow> filter P (toggle_in x l) = (if P x then toggle_in x (filter P l) else filter P l)"
  by (simp add: toggle_in_def filter_remove1 filter_remove1_other)

text \<open>A change of the list of a pointer, and of the other lists.\<close>

lemma toggle_ptr:
  assumes inv: "act_inv w" and ci: "ci < length (w_cfg w)" and p: "c_ptrmem (w_cfg w ! ci) = Some pi"
  shows "toggle_entry ci w = Some (w\<lparr>w_ptr := (w_ptr w)[pi := (w_ptr w ! pi)
    \<lparr>p_cfg_act := toggle_in ci (p_cfg_act (w_ptr w ! pi))\<rparr>]\<rparr>)"
proof -
  have "c_dynmem (w_cfg w ! ci) = None" using act_invD(5) [OF inv ci] p by (cases "c_dynmem (w_cfg w ! ci)") auto
  with act_invD(6) [OF inv ci p] ci p show ?thesis
    by (simp add: toggle_entry_def used_cfg_act_def upd_used_def upd_class_act_def vget_def mod_ptr_def toggle_in_def)
qed

lemma toggle_list:
  assumes inv: "act_inv w" and ci: "ci < length (w_cfg w)" and p: "c_ptrmem (w_cfg w ! ci) = None"
  shows "toggle_entry ci w = Some (w\<lparr>w_cfg_act := toggle_in ci (w_cfg_act w),
    w_dyn := (case c_dynmem (w_cfg w ! ci) of None \<Rightarrow> w_dyn w
      | Some di \<Rightarrow> (w_dyn w)[di := (w_dyn w ! di)\<lparr>d_cfg_act := toggle_in ci (d_cfg_act (w_dyn w ! di))\<rparr>])\<rparr>)"
proof (cases "c_dynmem (w_cfg w ! ci)")
  case None
  with ci p show ?thesis
    by (simp add: toggle_entry_def used_cfg_act_def upd_used_def upd_class_act_def vget_def toggle_in_def)
next
  case (Some di)
  have di: "di < length (w_dyn w)" using act_invD(4) [OF inv ci Some] .
  have "ci \<in> set (d_cfg_act (w_dyn w ! di)) \<longleftrightarrow> ci \<in> set (w_cfg_act w)"
    using act_invD(7) [OF inv di] Some by auto
  with ci p Some di show ?thesis
    by (simp add: toggle_entry_def used_cfg_act_def upd_used_def upd_class_act_def vget_def mod_dyn_def toggle_in_def)
qed

lemma toggle_entry_inv:
  assumes inv: "act_inv w" and ci: "ci < length (w_cfg w)"
  shows "\<exists>w'. toggle_entry ci w = Some w' \<and> act_inv w' \<and> same_links w w' \<and>
    (\<forall>cj < length (w_cfg w). is_active w' cj \<longleftrightarrow> is_active w cj \<noteq> (cj = ci))"
proof (cases "c_ptrmem (w_cfg w ! ci)")
  case (Some pi)
  have pi: "pi < length (w_ptr w)" using act_invD(6) [OF inv ci Some] .
  let ?l = "p_cfg_act (w_ptr w ! pi)"
  let ?w = "w\<lparr>w_ptr := (w_ptr w)[pi := (w_ptr w ! pi)\<lparr>p_cfg_act := toggle_in ci ?l\<rparr>]\<rparr>"
  have l: "distinct ?l" using act_invD(8) [OF inv pi] .
  have sel: "p_cfg_act (w_ptr ?w ! pj) = (if pj = pi then toggle_in ci ?l else p_cfg_act (w_ptr w ! pj))"
    if "pj < length (w_ptr w)" for pj
    using that by (simp add: nth_list_update)
  have ptr: "distinct (p_cfg_act (w_ptr ?w ! pj)) \<and>
      (\<forall>cj \<in> set (p_cfg_act (w_ptr ?w ! pj)). cj < length (w_cfg w) \<and> c_ptrmem (w_cfg w ! cj) = Some pj)"
    if pj: "pj < length (w_ptr w)" for pj
  proof (cases "pj = pi")
    case True
    have "cj < length (w_cfg w) \<and> c_ptrmem (w_cfg w ! cj) = Some pi" if "cj \<in> set (toggle_in ci ?l)" for cj
      using that act_invD(9,10) [OF inv pi, of cj] ci Some unfolding toggle_in_set [OF l] by blast
    with l True show ?thesis unfolding sel [OF pj] by simp
  next
    case False
    with act_invD(8-10) [OF inv pj] show ?thesis unfolding sel [OF pj] by simp
  qed
  have inv': "act_inv ?w"
  proof (rule act_invI)
    fix pj assume "pj < length (w_ptr ?w)"
    then have "pj < length (w_ptr w)" by simp
    from ptr [OF this] show "distinct (p_cfg_act (w_ptr ?w ! pj)) \<and>
      (\<forall>cj \<in> set (p_cfg_act (w_ptr ?w ! pj)). cj < length (w_cfg ?w) \<and> c_ptrmem (w_cfg ?w ! cj) = Some pj)"
      by simp
  qed (use act_invD(1-7) [OF inv] in simp_all)
  have "is_active ?w cj \<longleftrightarrow> is_active w cj \<noteq> (cj = ci)" if cj: "cj < length (w_cfg w)" for cj
  proof (cases "c_ptrmem (w_cfg w ! cj)")
    case None
    with Some show ?thesis by (auto simp: is_active_def)
  next
    case (Some pj)
    note pj = act_invD(6) [OF inv cj Some]
    have "is_active ?w cj \<longleftrightarrow> cj \<in> set (p_cfg_act (w_ptr ?w ! pj))" using Some by (simp add: is_active_def)
    then show ?thesis
      using l \<open>c_ptrmem (w_cfg w ! ci) = Some pi\<close> Some unfolding sel [OF pj]
      by (auto simp: is_active_def toggle_in_set)
  qed
  with inv' toggle_ptr [OF inv ci Some] show ?thesis by (simp add: same_links_def)
next
  case None
  let ?dyn = "case c_dynmem (w_cfg w ! ci) of None \<Rightarrow> w_dyn w
      | Some di \<Rightarrow> (w_dyn w)[di := (w_dyn w ! di)\<lparr>d_cfg_act := toggle_in ci (d_cfg_act (w_dyn w ! di))\<rparr>]"
  let ?w = "w\<lparr>w_cfg_act := toggle_in ci (w_cfg_act w), w_dyn := ?dyn\<rparr>"
  have l: "distinct (w_cfg_act w)" using act_invD(1) [OF inv] .
  have len: "length ?dyn = length (w_dyn w)" by (simp split: option.split)
  have dyn: "d_cfg_act (?dyn ! dj) = filter (\<lambda>cj. c_dynmem (w_cfg w ! cj) = Some dj) (toggle_in ci (w_cfg_act w))"
    if dj: "dj < length (w_dyn w)" for dj
    using act_invD(7) [OF inv dj] dj toggle_in_filter [OF l, of "\<lambda>cj. c_dynmem (w_cfg w ! cj) = Some dj" ci]
    by (auto simp: nth_list_update split: option.split)
  have act: "cj < length (w_cfg w) \<and> c_ptrmem (w_cfg w ! cj) = None" if "cj \<in> set (toggle_in ci (w_cfg_act w))" for cj
    using that act_invD(2,3) [OF inv] ci None l by (auto simp: toggle_in_set)
  have inv': "act_inv ?w"
  proof (rule act_invI)
    fix dj assume "dj < length (w_dyn ?w)"
    then have "dj < length (w_dyn w)" using len by simp
    from dyn [OF this] show "d_cfg_act (w_dyn ?w ! dj) = filter (\<lambda>ci. c_dynmem (w_cfg ?w ! ci) = Some dj) (w_cfg_act ?w)"
      by simp
  next
    fix cj di assume "cj < length (w_cfg ?w)" "c_dynmem (w_cfg ?w ! cj) = Some di"
    with act_invD(4,5) [OF inv, of cj di] len show "di < length (w_dyn ?w) \<and> c_ptrmem (w_cfg ?w ! cj) = None" by simp
  next
    fix cj assume "cj \<in> set (w_cfg_act ?w)"
    then have "cj \<in> set (toggle_in ci (w_cfg_act w))" by simp
    from act [OF this] show "cj < length (w_cfg ?w) \<and> c_ptrmem (w_cfg ?w ! cj) = None" by simp
  next
    fix cj pi assume "cj < length (w_cfg ?w)" "c_ptrmem (w_cfg ?w ! cj) = Some pi"
    with act_invD(6) [OF inv, of cj pi] show "pi < length (w_ptr ?w)" by simp
  next
    fix pi assume "pi < length (w_ptr ?w)"
    then have "pi < length (w_ptr w)" by simp
    from act_invD(8-10) [OF inv this] show "distinct (p_cfg_act (w_ptr ?w ! pi)) \<and>
      (\<forall>ci \<in> set (p_cfg_act (w_ptr ?w ! pi)). ci < length (w_cfg ?w) \<and> c_ptrmem (w_cfg ?w ! ci) = Some pi)"
      by simp
  qed (use l in simp)
  have "is_active ?w cj \<longleftrightarrow> is_active w cj \<noteq> (cj = ci)" if cj: "cj < length (w_cfg w)" for cj
    using l None by (cases "c_ptrmem (w_cfg w ! cj)") (auto simp: is_active_def toggle_in_set)
  with inv' len toggle_list [OF inv ci None] show ?thesis by (simp add: same_links_def)
qed

text \<open>The keys of a config: every entry that is bound exists.\<close>

definition keys_ok :: "(char \<Rightarrow> nat list option) \<Rightarrow> nat \<Rightarrow> bool" where
  "keys_ok keys n \<longleftrightarrow> (\<forall>ch l. keys ch = Some l \<longrightarrow> (\<forall>ci \<in> set l. ci < n))"

lemma toggle_cfg_inv:
  assumes "act_inv w" "\<forall>ci \<in> set l. ci < length (w_cfg w)"
  shows "\<exists>w'. toggle_cfg l w = Some w' \<and> act_inv w' \<and> same_links w w' \<and>
    (\<forall>cj < length (w_cfg w). is_active w' cj \<longleftrightarrow> is_active w cj \<noteq> odd (count_list l cj))"
  using assms
proof (induction l arbitrary: w)
  case Nil
  then show ?case by (simp add: toggle_cfg_def same_links_def)
next
  case (Cons ci l)
  from toggle_entry_inv [OF Cons.prems(1), of ci] Cons.prems(2) obtain w1 where
    w1: "toggle_entry ci w = Some w1" "act_inv w1" "same_links w w1"
      "\<forall>cj < length (w_cfg w). is_active w1 cj \<longleftrightarrow> is_active w cj \<noteq> (cj = ci)" by auto
  have cfg: "w_cfg w1 = w_cfg w" using w1(3) by (simp add: same_links_def)
  from Cons.IH [OF w1(2)] Cons.prems(2) cfg obtain w2 where
    w2: "toggle_cfg l w1 = Some w2" "act_inv w2" "same_links w1 w2"
      "\<forall>cj < length (w_cfg w). is_active w2 cj \<longleftrightarrow> is_active w1 cj \<noteq> odd (count_list l cj)" by auto
  have "toggle_cfg (ci # l) w = Some w2" using w1(1) w2(1) by (simp add: toggle_cfg_def)
  with w2 w1 show ?case by (auto simp: same_links_def)
qed

end
