(* ===== verification/CfgActive.thy ===== *)
theory CfgActive
  imports Control
begin

text \<open>
  The parser builds the lists of activated entries (\<open>src/src/cfgparser.cpp\<close>) so that they satisfy
  \<open>act_inv\<close>, and binds keys to entries that exist; so every sequence of keys toggles exactly the
  entries it is bound to.
\<close>

subsection \<open>Changes that leave the lists alone\<close>

definition act_view where
  "act_view w = (map c_dynmem (w_cfg w), map c_ptrmem (w_cfg w), w_cfg_act w, map d_cfg_act (w_dyn w), map p_cfg_act (w_ptr w))"

definition calm :: "world \<Rightarrow> world \<Rightarrow> bool" where "calm w w' \<longleftrightarrow> act_view w' = act_view w"

named_theorems calms "operations that do not change the lists of activated entries"

lemma calm_refl [simp]: "calm w w"
  by (simp add: calm_def)

lemma calm_trans: "calm w w' \<Longrightarrow> calm w' w'' \<Longrightarrow> calm w w''"
  by (simp add: calm_def)

lemma calmD:
  assumes "calm w w'"
  shows "length (w_cfg w') = length (w_cfg w)" "length (w_dyn w') = length (w_dyn w)" "length (w_ptr w') = length (w_ptr w)"
    "w_cfg_act w' = w_cfg_act w"
    "i < length (w_cfg w) \<Longrightarrow> c_dynmem (w_cfg w' ! i) = c_dynmem (w_cfg w ! i)"
    "i < length (w_cfg w) \<Longrightarrow> c_ptrmem (w_cfg w' ! i) = c_ptrmem (w_cfg w ! i)"
    "i < length (w_dyn w) \<Longrightarrow> d_cfg_act (w_dyn w' ! i) = d_cfg_act (w_dyn w ! i)"
    "i < length (w_ptr w) \<Longrightarrow> p_cfg_act (w_ptr w' ! i) = p_cfg_act (w_ptr w ! i)"
proof -
  have m: "map c_dynmem (w_cfg w') = map c_dynmem (w_cfg w)" "map c_ptrmem (w_cfg w') = map c_ptrmem (w_cfg w)"
    "w_cfg_act w' = w_cfg_act w" "map d_cfg_act (w_dyn w') = map d_cfg_act (w_dyn w)"
    "map p_cfg_act (w_ptr w') = map p_cfg_act (w_ptr w)"
    using assms by (simp_all add: calm_def act_view_def)
  show l: "length (w_cfg w') = length (w_cfg w)" "length (w_dyn w') = length (w_dyn w)"
    "length (w_ptr w') = length (w_ptr w)" "w_cfg_act w' = w_cfg_act w"
    using m(1,4,5) [THEN arg_cong [where f = length]] m(3) by simp_all
  show "i < length (w_cfg w) \<Longrightarrow> c_dynmem (w_cfg w' ! i) = c_dynmem (w_cfg w ! i)"
    using arg_cong [OF m(1), of "\<lambda>l. l ! i"] l by simp
  show "i < length (w_cfg w) \<Longrightarrow> c_ptrmem (w_cfg w' ! i) = c_ptrmem (w_cfg w ! i)"
    using arg_cong [OF m(2), of "\<lambda>l. l ! i"] l by simp
  show "i < length (w_dyn w) \<Longrightarrow> d_cfg_act (w_dyn w' ! i) = d_cfg_act (w_dyn w ! i)"
    using arg_cong [OF m(4), of "\<lambda>l. l ! i"] l by simp
  show "i < length (w_ptr w) \<Longrightarrow> p_cfg_act (w_ptr w' ! i) = p_cfg_act (w_ptr w ! i)"
    using arg_cong [OF m(5), of "\<lambda>l. l ! i"] l by simp
qed

lemma act_inv_calm:
  assumes c: "calm w w'" and inv: "act_inv w" shows "act_inv w'"
proof (rule act_invI)
  note D = calmD [OF c] and I = act_invD [OF inv]
  show "distinct (w_cfg_act w')" using D(4) I(1) by simp
  fix i
  show "i < length (w_cfg w') \<and> c_ptrmem (w_cfg w' ! i) = None" if "i \<in> set (w_cfg_act w')"
    using that D(1,4) D(6) [of i] I(2,3) [of i] by simp
  show "di < length (w_dyn w') \<and> c_ptrmem (w_cfg w' ! i) = None"
    if "i < length (w_cfg w')" "c_dynmem (w_cfg w' ! i) = Some di" for di
    using that D(1,2) D(5,6) [of i] I(4,5) [of i di] by simp
  show "pi < length (w_ptr w')" if "i < length (w_cfg w')" "c_ptrmem (w_cfg w' ! i) = Some pi" for pi
    using that D(1,3) D(6) [of i] I(6) [of i pi] by simp
  show "d_cfg_act (w_dyn w' ! i) = filter (\<lambda>ci. c_dynmem (w_cfg w' ! ci) = Some i) (w_cfg_act w')"
    if "i < length (w_dyn w')"
  proof -
    have "filter (\<lambda>ci. c_dynmem (w_cfg w' ! ci) = Some i) (w_cfg_act w) =
        filter (\<lambda>ci. c_dynmem (w_cfg w ! ci) = Some i) (w_cfg_act w)"
      using I(2) D(5) by (intro filter_cong refl) simp
    with that D(2,4) D(7) [of i] I(7) [of i] show ?thesis by simp
  qed
  show "distinct (p_cfg_act (w_ptr w' ! i)) \<and>
      (\<forall>ci \<in> set (p_cfg_act (w_ptr w' ! i)). ci < length (w_cfg w') \<and> c_ptrmem (w_cfg w' ! ci) = Some i)"
    if "i < length (w_ptr w')"
  proof -
    have i: "i < length (w_ptr w)" using that D(3) by simp
    have "ci < length (w_cfg w') \<and> c_ptrmem (w_cfg w' ! ci) = Some i" if "ci \<in> set (p_cfg_act (w_ptr w ! i))" for ci
      using I(9,10) [OF i that] D(1) D(6) [of ci] by simp
    with I(8) [OF i] D(8) [OF i] show ?thesis by simp
  qed
qed

lemma mod_cfg_calm:
  assumes m: "mod_cfg ci f w = Some w'"
    and f: "\<And>c c'. f c = Some c' \<Longrightarrow> c_dynmem c' = c_dynmem c \<and> c_ptrmem c' = c_ptrmem c"
  shows "calm w w'"
proof -
  from m obtain c' where c': "ci < length (w_cfg w)" "f (w_cfg w ! ci) = Some c'" "w' = w\<lparr>w_cfg := (w_cfg w)[ci := c']\<rparr>"
    by (auto simp: mod_cfg_def bind_eq_Some_conv vget_Some_iff)
  with f [OF c'(2)] show ?thesis by (simp add: calm_def act_view_def map_update list_update_same_conv)
qed

lemma mod_dyn_calm:
  assumes m: "mod_dyn di f w = Some w'" and f: "\<And>d d'. f d = Some d' \<Longrightarrow> d_cfg_act d' = d_cfg_act d"
  shows "calm w w'"
proof -
  from m obtain d' where d': "di < length (w_dyn w)" "f (w_dyn w ! di) = Some d'" "w' = w\<lparr>w_dyn := (w_dyn w)[di := d']\<rparr>"
    by (auto simp: mod_dyn_def bind_eq_Some_conv vget_Some_iff)
  with f [OF d'(2)] show ?thesis by (simp add: calm_def act_view_def map_update list_update_same_conv)
qed

lemma mod_ptr_calm:
  assumes m: "mod_ptr pi f w = Some w'" and f: "\<And>p p'. f p = Some p' \<Longrightarrow> p_cfg_act p' = p_cfg_act p"
  shows "calm w w'"
proof -
  from m obtain p' where p': "pi < length (w_ptr w)" "f (w_ptr w ! pi) = Some p'" "w' = w\<lparr>w_ptr := (w_ptr w)[pi := p']\<rparr>"
    by (auto simp: mod_ptr_def bind_eq_Some_conv vget_Some_iff)
  with f [OF p'(2)] show ?thesis by (simp add: calm_def act_view_def map_update list_update_same_conv)
qed

lemma calm_same:
  "w_cfg w' = w_cfg w \<Longrightarrow> w_cfg_act w' = w_cfg_act w \<Longrightarrow> w_dyn w' = w_dyn w \<Longrightarrow> w_ptr w' = w_ptr w \<Longrightarrow> calm w w'"
  by (simp add: calm_def act_view_def)

lemma find_add_lib_calm [calms]: "find_add_lib l w = (i, w') \<Longrightarrow> calm w w'"
  by (auto simp: find_add_lib_def split: option.splits intro: calm_same)

lemma find_cache_start_calm [calms]: "find_cache_start own a w = Some w' \<Longrightarrow> calm w w'"
  by (cases own)
    (auto simp: find_cache_start_def bind_eq_Some_conv intro: calm_same elim!: mod_dyn_calm mod_ptr_calm)

lemma place_type_calm [calms]: "place_type out ty w = Some (ty', w') \<Longrightarrow> calm w w'"
  by (auto simp: place_type_def split: if_splits option.splits prod.splits intro: calm_same find_add_lib_calm)

lemma link_ptr_calm [calms]: "link_ptr s name w = Some (pi, w') \<Longrightarrow> calm w w'"
  by (auto simp: link_ptr_def bind_eq_Some_conv elim!: mod_ptr_calm split: if_splits)

lemma entry_kind_calm: "entry_kind s line start c w = Some (c', w', p) \<Longrightarrow> calm w w'"
  by (auto simp: entry_kind_def Let_def bind_eq_Some_conv split: if_splits intro: link_ptr_calm)

lemma add_check_calm:
  assumes "add_check ci k w s = Some s'"
  shows "calm w (s_w s') \<and> o_keys (s_opt s') = o_keys (s_opt s)"
proof -
  let ?w1 = "if k_is_heapchk k then w\<lparr>w_heap_checks := True\<rparr> else w"
  from assms obtain c w2 w3 where
    w2: "(if k_cfg_ref k \<noteq> None then Some ?w1
      else chk_owner s c (k_type k) \<bind> (\<lambda>own. find_cache_start own (k_addr k) ?w1)) = Some w2"
    and w3: "mod_cfg ci (\<lambda>c. Some (c\<lparr>c_checks := c_checks c @ heap_pair k\<rparr>)) w2 = Some w3"
    and s': "s' = (set_w w3 s)\<lparr>s_chk := List.last (heap_pair k)\<rparr>"
    by (auto simp: add_check_def Let_def bind_eq_Some_conv)
  have "calm w ?w1" by (simp add: calm_def act_view_def)
  moreover have "calm ?w1 w2"
    using w2 find_cache_start_calm by (auto simp: bind_eq_Some_conv split: if_split_asm)
  moreover have "calm w2 w3" using w3 by (rule mod_cfg_calm) auto
  ultimately have "calm w w3" by (blast intro: calm_trans)
  with s' show ?thesis by (simp add: set_w_def)
qed

lemma build_caches_calm:
  assumes "build_caches w = Some w'" shows "calm w w'"
proof (rule fold_opt_pres [where I = "calm w"])
  show "fold_opt build_cache (addr_list (w_cfg w)) w = Some w'" using assms by (simp add: build_caches_def)
  show "calm w w2" if i: "calm w w1" and b: "build_cache a w1 = Some w2" for a w1 w2
  proof -
    from b obtain cl k offs cl' where cl: "cache_list (a_own a) w1 = Some cl"
      and as: "assign_cache a k offs (set_cache_list (a_own a) cl' w1) = Some w2"
      by (auto simp: build_cache_def bind_eq_Some_conv Let_def)
    have "calm w1 (set_cache_list (a_own a) cl' w1)"
      using cl by (cases "a_own a")
        (simp_all add: set_cache_list_def calm_def act_view_def map_update list_update_same_conv cache_list_def
          vget_def split: if_splits)
    moreover have "calm w0 w2" if "assign_cache a k offs w0 = Some w2" for w0
      using that unfolding assign_cache_def Let_def
      by (auto simp: bind_eq_Some_conv split: prod.splits option.splits elim!: mod_cfg_calm)
    ultimately show ?thesis using i as calm_trans by blast
  qed
qed simp

subsection \<open>New classes, pointers and entries\<close>

lemma act_inv_append_dyn:
  assumes inv: "act_inv w" and d: "d_cfg_act d = []"
  shows "act_inv (w\<lparr>w_dyn := w_dyn w @ [d]\<rparr>)" (is "act_inv ?w")
proof (rule act_invI)
  note I = act_invD [OF inv]
  show "distinct (w_cfg_act ?w)" using I(1) by simp
  fix i
  show "i < length (w_cfg ?w) \<and> c_ptrmem (w_cfg ?w ! i) = None" if "i \<in> set (w_cfg_act ?w)"
    using that I(2,3) [of i] by simp
  show "di < length (w_dyn ?w) \<and> c_ptrmem (w_cfg ?w ! i) = None"
    if "i < length (w_cfg ?w)" "c_dynmem (w_cfg ?w ! i) = Some di" for di
    using that I(4,5) [of i di] by simp
  show "pi < length (w_ptr ?w)" if "i < length (w_cfg ?w)" "c_ptrmem (w_cfg ?w ! i) = Some pi" for pi
    using that I(6) [of i pi] by simp
  show "distinct (p_cfg_act (w_ptr ?w ! i)) \<and>
      (\<forall>ci \<in> set (p_cfg_act (w_ptr ?w ! i)). ci < length (w_cfg ?w) \<and> c_ptrmem (w_cfg ?w ! ci) = Some i)"
    if "i < length (w_ptr ?w)"
    using that I(8) [of i] I(9,10) [of i] by simp
  show "d_cfg_act (w_dyn ?w ! i) = filter (\<lambda>ci. c_dynmem (w_cfg ?w ! ci) = Some i) (w_cfg_act ?w)"
    if "i < length (w_dyn ?w)"
  proof (cases "i < length (w_dyn w)")
    case True
    with I(7) [of i] show ?thesis by (simp add: nth_append)
  next
    case False
    with that have i: "i = length (w_dyn w)" by simp
    have "c_dynmem (w_cfg w ! ci) \<noteq> Some i" if "ci \<in> set (w_cfg_act w)" for ci
      using I(2) [OF that] I(4) [of ci i] i by auto
    then have "filter (\<lambda>ci. c_dynmem (w_cfg w ! ci) = Some i) (w_cfg_act w) = []"
      by (simp add: filter_empty_conv)
    with i d show ?thesis by simp
  qed
qed

lemma act_inv_append_ptr:
  assumes inv: "act_inv w" and p: "p_cfg_act p = []"
  shows "act_inv (w\<lparr>w_ptr := w_ptr w @ [p]\<rparr>)" (is "act_inv ?w")
proof (rule act_invI)
  note I = act_invD [OF inv]
  show "distinct (w_cfg_act ?w)" using I(1) by simp
  fix i
  show "i < length (w_cfg ?w) \<and> c_ptrmem (w_cfg ?w ! i) = None" if "i \<in> set (w_cfg_act ?w)"
    using that I(2,3) [of i] by simp
  show "di < length (w_dyn ?w) \<and> c_ptrmem (w_cfg ?w ! i) = None"
    if "i < length (w_cfg ?w)" "c_dynmem (w_cfg ?w ! i) = Some di" for di
    using that I(4,5) [of i di] by simp
  show "pi < length (w_ptr ?w)" if "i < length (w_cfg ?w)" "c_ptrmem (w_cfg ?w ! i) = Some pi" for pi
    using that I(6) [of i pi] by simp
  show "d_cfg_act (w_dyn ?w ! i) = filter (\<lambda>ci. c_dynmem (w_cfg ?w ! ci) = Some i) (w_cfg_act ?w)"
    if "i < length (w_dyn ?w)"
    using that I(7) [of i] by simp
  show "distinct (p_cfg_act (w_ptr ?w ! i)) \<and>
      (\<forall>ci \<in> set (p_cfg_act (w_ptr ?w ! i)). ci < length (w_cfg ?w) \<and> c_ptrmem (w_cfg ?w ! ci) = Some i)"
    if "i < length (w_ptr ?w)"
  proof (cases "i < length (w_ptr w)")
    case True
    with I(8) [of i] I(9,10) [of i] show ?thesis by (simp add: nth_append)
  next
    case False
    with that have "i = length (w_ptr w)" by simp
    with p show ?thesis by simp
  qed
qed

lemma act_inv_append_cfg:
  assumes inv: "act_inv w"
    and d: "\<And>di. c_dynmem c = Some di \<Longrightarrow> di < length (w_dyn w) \<and> c_ptrmem c = None"
    and p: "\<And>pi. c_ptrmem c = Some pi \<Longrightarrow> pi < length (w_ptr w)"
  shows "act_inv (w\<lparr>w_cfg := w_cfg w @ [c]\<rparr>) \<and> \<not> is_active (w\<lparr>w_cfg := w_cfg w @ [c]\<rparr>) (length (w_cfg w))"
    (is "act_inv ?w \<and> _")
proof
  note I = act_invD [OF inv]
  have old: "w_cfg ?w ! i = w_cfg w ! i" if "i < length (w_cfg w)" for i using that by (simp add: nth_append)
  have new: "w_cfg ?w ! length (w_cfg w) = c" by simp
  have idx: "i < length (w_cfg w) \<or> i = length (w_cfg w)" if "i < length (w_cfg ?w)" for i using that by auto
  show "act_inv ?w"
  proof (rule act_invI)
    show "distinct (w_cfg_act ?w)" using I(1) by simp
    fix i
    show "i < length (w_cfg ?w) \<and> c_ptrmem (w_cfg ?w ! i) = None" if "i \<in> set (w_cfg_act ?w)"
      using that I(2,3) [of i] old [of i] by simp
    show "di < length (w_dyn ?w) \<and> c_ptrmem (w_cfg ?w ! i) = None"
      if "i < length (w_cfg ?w)" "c_dynmem (w_cfg ?w ! i) = Some di" for di
      using idx [OF that(1)] that(2) I(4,5) [of i di] old [of i] new d [of di] by auto
    show "pi < length (w_ptr ?w)" if "i < length (w_cfg ?w)" "c_ptrmem (w_cfg ?w ! i) = Some pi" for pi
      using idx [OF that(1)] that(2) I(6) [of i pi] old [of i] new p [of pi] by auto
    have "filter (\<lambda>ci. c_dynmem (w_cfg ?w ! ci) = Some i) (w_cfg_act w) =
        filter (\<lambda>ci. c_dynmem (w_cfg w ! ci) = Some i) (w_cfg_act w)"
      using I(2) old by (intro filter_cong refl) simp
    then show "d_cfg_act (w_dyn ?w ! i) = filter (\<lambda>ci. c_dynmem (w_cfg ?w ! ci) = Some i) (w_cfg_act ?w)"
      if "i < length (w_dyn ?w)"
      using that I(7) [of i] by simp
    show "distinct (p_cfg_act (w_ptr ?w ! i)) \<and>
        (\<forall>ci \<in> set (p_cfg_act (w_ptr ?w ! i)). ci < length (w_cfg ?w) \<and> c_ptrmem (w_cfg ?w ! ci) = Some i)"
      if "i < length (w_ptr ?w)"
    proof -
      have i: "i < length (w_ptr w)" using that by simp
      have "ci < length (w_cfg ?w) \<and> c_ptrmem (w_cfg ?w ! ci) = Some i" if "ci \<in> set (p_cfg_act (w_ptr w ! i))" for ci
        using I(9,10) [OF i that] old [of ci] by simp
      with I(8) [OF i] show ?thesis by simp
    qed
  qed
  have "length (w_cfg w) \<notin> set (w_cfg_act w)" using I(2) [of "length (w_cfg w)"] by auto
  moreover have "length (w_cfg w) \<notin> set (p_cfg_act (w_ptr w ! pi))" if "c_ptrmem c = Some pi" for pi
    using I(9) [OF p [OF that], of "length (w_cfg w)"] by auto
  ultimately show "\<not> is_active ?w (length (w_cfg w))"
    by (simp add: is_active_def split: option.split)
qed

lemma activate_is_toggle:
  assumes "ci < length (w_cfg w)" "\<not> is_active w ci" "c_dynmem c = c_dynmem (w_cfg w ! ci)"
    "c_ptrmem c = c_ptrmem (w_cfg w ! ci)" "activate ci c w = Some w'"
  shows "toggle_entry ci w = Some w'"
proof -
  let ?c = "w_cfg w ! ci"
  have act: "activate ci c w = upd_used ?c (\<lambda>l. l @ [ci]) w \<bind> upd_class_act ?c (\<lambda>l. l @ [ci])"
    using assms(3,4) unfolding activate_def upd_used_def upd_class_act_def by (simp cong: option.case_cong)
  from assms(5) act obtain w1 where "upd_used ?c (\<lambda>l. l @ [ci]) w = Some w1" by (auto simp: bind_eq_Some_conv)
  then obtain l where "used_cfg_act ?c w = Some l" "ci \<notin> set l"
    using assms(2) by (auto simp: upd_used_def used_cfg_act_def is_active_def mod_ptr_def bind_eq_Some_conv
        vget_Some_iff split: option.splits)
  with assms(1,5) act show ?thesis by (simp add: toggle_entry_def vget_def)
qed

subsection \<open>The lines of the config file\<close>

definition state_act :: "pstate \<Rightarrow> bool" where
  "state_act s \<longleftrightarrow> act_inv (s_w s) \<and> keys_ok (o_keys (s_opt s)) (length (w_cfg (s_w s)))"

lemma state_act_calm:
  assumes "state_act s" "calm (s_w s) (s_w s')" "o_keys (s_opt s') = o_keys (s_opt s)"
  shows "state_act s'"
  using assms act_inv_calm calmD(1) by (simp add: state_act_def)

lemma bind_key_ok: "keys_ok keys n \<Longrightarrow> ci < n \<Longrightarrow> keys_ok (bind_key ci c keys) n"
  by (auto simp: keys_ok_def bind_key_def split: option.splits if_splits)

lemma parse_keys_ok:
  "parse_keys ci line cs lidx start keys = Some (keys', p) \<Longrightarrow> keys_ok keys n \<Longrightarrow> ci < n \<Longrightarrow> keys_ok keys' n"
proof (induction ci line cs lidx start keys rule: parse_keys.induct)
  case (2 ci line c cs lidx start keys)
  then show ?case using bind_key_ok by (auto simp: Let_def split: if_splits)
qed simp

lemma activate_act:
  assumes "act_inv w" "ci < length (w_cfg w)" "\<not> is_active w ci" "c_dynmem c = c_dynmem (w_cfg w ! ci)"
    "c_ptrmem c = c_ptrmem (w_cfg w ! ci)" "activate ci c w = Some w'"
  shows "act_inv w' \<and> length (w_cfg w') = length (w_cfg w)"
  using activate_is_toggle [OF assms(2-6)] toggle_entry_inv [OF assms(1,2)] by (auto simp: same_links_def)

lemma finish_entry_act:
  assumes f: "finish_entry line start ci s = Some s'" and s: "state_act s"
    and ci: "ci < length (w_cfg (s_w s))" "\<not> is_active (s_w s) ci"
  shows "state_act s'"
proof -
  let ?c = "w_cfg (s_w s) ! ci"
  have c: "vget (w_cfg (s_w s)) ci = Some ?c" using ci by (simp add: vget_def)
  have inv: "act_inv (s_w s)" using s by (simp add: state_act_def)
  show ?thesis
  proof (cases "c_dynval ?c = DYN_VAL_WATCH \<or> c_ptrtgt ?c \<noteq> None")
    case True
    with f c obtain w where "activate ci ?c (s_w s) = Some w" "s' = set_w w s"
      by (auto simp: finish_entry_def bind_eq_Some_conv)
    with activate_act [OF inv ci refl refl] s show ?thesis by (simp add: state_act_def set_w_def)
  next
    case False
    with f c obtain keys p where k: "parse_key_bindings ci line start (o_keys (s_opt s)) = Some (keys, p)"
      by (auto simp: finish_entry_def bind_eq_Some_conv)
    have ko: "keys_ok keys (length (w_cfg (s_w s)))"
      using k parse_keys_ok s ci(1) unfolding parse_key_bindings_def state_act_def by blast
    let ?s = "upd_opt (\<lambda>opt. opt\<lparr>o_keys := keys\<rparr>) s"
    from f c False k obtain x where x: "vget line p = Some x" by (auto simp: finish_entry_def Let_def bind_eq_Some_conv)
    consider "x = CHR ''a''" | "x = CHR ''w''" | "x \<noteq> CHR ''a''" "x \<noteq> CHR ''w''" by blast
    then show ?thesis
    proof cases
      case 1
      with f c False k x obtain w where "activate ci ?c (s_w s) = Some w" "s' = set_w w ?s"
        by (auto simp: finish_entry_def bind_eq_Some_conv)
      with activate_act [OF inv ci refl refl] ko show ?thesis by (simp add: state_act_def set_w_def upd_opt_def)
    next
      case 2
      with f c False k x obtain w1 w2 where w1: "mod_cfg ci (\<lambda>c. Some (c\<lparr>c_dynval := DYN_VAL_WATCH\<rparr>)) (s_w s) = Some w1"
        and w2: "activate ci ?c w1 = Some w2" and s': "s' = set_w w2 ?s"
        by (auto simp: finish_entry_def bind_eq_Some_conv)
      have calm: "calm (s_w s) w1" using w1 by (rule mod_cfg_calm) auto
      note D = calmD [OF calm]
      have ptr: "w_ptr w1 = w_ptr (s_w s)" using w1 by (auto simp: mod_cfg_def bind_eq_Some_conv)
      have "\<not> is_active w1 ci" using ci(2) D(4) D(6) [OF ci(1)] ptr by (simp add: is_active_def cong: option.case_cong)
      with activate_act [OF act_inv_calm [OF calm inv], of ci ?c w2] ci(1) D(1) D(5,6) [OF ci(1)] w2
      have "act_inv w2 \<and> length (w_cfg w2) = length (w_cfg (s_w s))" by simp
      with s' ko show ?thesis by (simp add: state_act_def set_w_def upd_opt_def)
    next
      case 3
      with f c False k x have "s' = ?s" by (simp add: finish_entry_def)
      with ko inv show ?thesis by (simp add: state_act_def upd_opt_def)
    qed
  qed
qed

lemma store_entry_act:
  assumes st: "store_entry s c w = Some w'" and inv: "act_inv w"
    and d: "\<And>di. c_dynmem c = Some di \<Longrightarrow> di < length (w_dyn w) \<and> \<not> s_in_ptrmem s"
    and p: "\<And>pi. s_in_ptrmem s \<Longrightarrow> s_ptr s = Some pi \<Longrightarrow> pi < length (w_ptr w)"
  shows "act_inv w' \<and> length (w_cfg w') = Suc (length (w_cfg w)) \<and> \<not> is_active w' (length (w_cfg w))"
proof -
  let ?cached = "\<not> t_is_cstr (c_type c)"
  let ?c = "c\<lparr>c_ptrmem := (if s_in_ptrmem s then s_ptr s else None)\<rparr>"
  from st obtain w1 w2 where
    w1: "(if s_in_dynmem s \<and> ?cached then s_dyn s \<bind> (\<lambda>di. find_cache_start (CDyn di) (c_addr c) w) else Some w) = Some w1"
    and w2: "(if s_in_ptrmem s then do {
            pi \<leftarrow> s_ptr s;
            w' \<leftarrow> (if ?cached then find_cache_start (CPtr pi) (c_addr c) w1 else Some w1);
            mod_ptr pi (\<lambda>p. Some (p\<lparr>p_cfg := p_cfg p @ [length (w_cfg w)]\<rparr>)) w' }
          else if s_in_dynmem s \<or> \<not> ?cached then Some w1
          else find_cache_start (static_owner (c_type c)) (c_addr c) w1) = Some w2"
    and w': "w' = w2\<lparr>w_cfg := w_cfg w2 @ [?c]\<rparr>"
    by (auto simp: store_entry_def Let_def bind_eq_Some_conv)
  have "calm w w1" using w1 find_cache_start_calm by (auto simp: bind_eq_Some_conv split: if_split_asm)
  moreover have "calm w1 w2"
  proof (cases "s_in_ptrmem s")
    case True
    with w2 obtain pi w0 where "(if ?cached then find_cache_start (CPtr pi) (c_addr c) w1 else Some w1) = Some w0"
      and m: "mod_ptr pi (\<lambda>p. Some (p\<lparr>p_cfg := p_cfg p @ [length (w_cfg w)]\<rparr>)) w0 = Some w2"
      by (auto simp: bind_eq_Some_conv)
    then have "calm w1 w0" using find_cache_start_calm by (auto split: if_split_asm)
    moreover have "calm w0 w2" using m by (rule mod_ptr_calm) auto
    ultimately show ?thesis by (rule calm_trans)
  next
    case False
    with w2 find_cache_start_calm show ?thesis by (auto split: if_split_asm)
  qed
  ultimately have calm: "calm w w2" by (rule calm_trans)
  note D = calmD [OF calm]
  have "act_inv (w2\<lparr>w_cfg := w_cfg w2 @ [?c]\<rparr>) \<and> \<not> is_active (w2\<lparr>w_cfg := w_cfg w2 @ [?c]\<rparr>) (length (w_cfg w2))"
  proof (rule act_inv_append_cfg [OF act_inv_calm [OF calm inv]])
    show "di < length (w_dyn w2) \<and> c_ptrmem ?c = None" if "c_dynmem ?c = Some di" for di
      using that d [of di] D(2) by simp
    show "pi < length (w_ptr w2)" if "c_ptrmem ?c = Some pi" for pi
      using that p [of pi] D(3) by (simp split: if_splits)
  qed
  with w' D(1) show ?thesis by simp
qed

lemma parse_entry_line_act:
  assumes p: "parse_entry_line name line start s = Some s'" and s: "state_act s" and i: "state_inv s"
  shows "state_act s'"
proof -
  let ?w = "s_w s"
  from p obtain r where r: "parse_addr ACfg False ?w no_type line start = Some r"
    by (auto simp: parse_entry_line_def bind_eq_Some_conv)
  from p r obtain ty w1 where pt: "place_type (outside s) (r_type r) ?w = Some (ty, w1)"
    by (auto simp: parse_entry_line_def bind_eq_Some_conv)
  from p r pt obtain ty2 p2 where dt: "parse_data_type line (r_next r) ty = Some (ty2, p2)"
    by (auto simp: parse_entry_line_def bind_eq_Some_conv)
  let ?c1 = "(fresh_cfg name (s_cfg s))\<lparr>c_addr := r_addr r, c_type := ty2, c_ptrtgt := None, c_cstr := None\<rparr>"
  from p r pt dt obtain c2 w2 p3 where ek: "entry_kind s line p2 ?c1 w1 = Some (c2, w2, p3)"
    by (auto simp: parse_entry_line_def bind_eq_Some_conv Let_def)
  from p r pt dt ek obtain c3 p4 where cv: "parse_cfg_value line p3 (w_cfg w2) c2 = Some (c3, p4)"
    by (auto simp: parse_entry_line_def bind_eq_Some_conv Let_def)
  let ?c5 = "(if c_dynval c3 = DYN_VAL_ADDR then c3\<lparr>c_val_addr := c_value c3\<rparr> else c3)
    \<lparr>c_dynmem := (if s_in_dynmem s then s_dyn s else None)\<rparr>"
  from p r pt dt ek cv obtain w3 where st: "store_entry s ?c5 w2 = Some w3"
    and f: "finish_entry line p4 (length (w_cfg w2)) ((set_w w3 s)\<lparr>s_cfg := ?c5\<rparr>) = Some s'"
    by (auto simp: parse_entry_line_def bind_eq_Some_conv Let_def)
  have calm: "calm ?w w2" using place_type_calm [OF pt] entry_kind_calm [OF ek] by (rule calm_trans)
  note D = calmD [OF calm]
  have c5: "c_dynmem ?c5 = (if s_in_dynmem s then s_dyn s else None)" by simp
  have w3: "act_inv w3 \<and> length (w_cfg w3) = Suc (length (w_cfg w2)) \<and> \<not> is_active w3 (length (w_cfg w2))"
  proof (rule store_entry_act [OF st])
    show "act_inv w2" using act_inv_calm [OF calm] s by (simp add: state_act_def)
    show "di < length (w_dyn w2) \<and> \<not> s_in_ptrmem s" if "c_dynmem ?c5 = Some di" for di
      using that i D(2) unfolding c5 by (auto simp: state_inv_def split: if_splits)
    show "pi < length (w_ptr w2)" if "s_in_ptrmem s" "s_ptr s = Some pi" for pi
      using that i D(3) by (auto simp: state_inv_def)
  qed
  have "keys_ok (o_keys (s_opt s)) (length (w_cfg w3))"
    using s w3 D(1) by (auto simp: state_act_def keys_ok_def intro: less_SucI)
  with w3 have "state_act ((set_w w3 s)\<lparr>s_cfg := ?c5\<rparr>)" by (simp add: state_act_def set_w_def)
  from finish_entry_act [OF f this] w3 show ?thesis by (simp add: set_w_def)
qed

lemma parse_check_line_act:
  assumes p: "parse_check_line is_obj line start s = Some s'" and s: "state_act s"
  shows "state_act s'"
proof -
  from p obtain k ty ty' w1 ci where pt: "place_type (outside s) ty (s_w s) = Some (ty', w1)"
    and a: "add_check ci k w1 s = Some s'"
    by (auto simp: parse_check_line_def Let_def bind_eq_Some_conv)
  have "calm (s_w s) w1" using pt by (rule place_type_calm)
  with add_check_calm [OF a] have "calm (s_w s) (s_w s')" "o_keys (s_opt s') = o_keys (s_opt s)"
    by (auto intro: calm_trans)
  with s show ?thesis by (rule state_act_calm)
qed

lemma start_dynmem_act:
  assumes "start_dynmem from_grow line lnr start s = Some (s', p)" "state_act s"
  shows "state_act s'"
proof -
  from assms(1) obtain d q where d: "parse_dynmem from_grow (s_w s) line lnr start = Some (d, q)"
    and s': "s' = (set_w (s_w s\<lparr>w_dyn := w_dyn (s_w s) @ [d]\<rparr>) s)\<lparr>s_in_dynmem := True, s_dyn := Some (length (w_dyn (s_w s)))\<rparr>"
    by (auto simp: start_dynmem_def bind_eq_Some_conv Let_def)
  have "d_cfg_act d = []"
    using d by (auto simp: parse_dynmem_def new_dynmem_def bind_eq_Some_conv split: if_splits)
  from act_inv_append_dyn [OF _ this] assms(2) s' show ?thesis by (simp add: state_act_def set_w_def)
qed

lemma mod_dyn_line_act:
  assumes "mod_dyn di f (s_w s) = Some w" "\<And>d d'. f d = Some d' \<Longrightarrow> d_cfg_act d' = d_cfg_act d" "state_act s"
  shows "state_act (set_w w s)"
  by (rule state_act_calm [OF assms(3)]) (use mod_dyn_calm [OF assms(1,2)] in \<open>simp_all add: set_w_def\<close>)

lemma parse_const_line_act: "parse_const_line line start s = Some s' \<Longrightarrow> state_act s \<Longrightarrow> state_act s'"
  by (auto simp: parse_const_line_def bind_eq_Some_conv elim!: mod_dyn_line_act)

lemma parse_grow_line_act:
  assumes p: "parse_grow_line line lnr start s = Some s'" and s: "state_act s"
  shows "state_act s'"
proof -
  from p obtain s1 p1 di gr w where
    s1: "(if s_in_dynmem s then Some (s, start) else start_dynmem True line lnr start s) = Some (s1, p1)"
    and m: "mod_dyn di (\<lambda>d. Some (d\<lparr>d_v_msize := [], d_grow := Some gr\<rparr>)) (s_w s1) = Some w" and s': "s' = set_w w s1"
    by (auto simp: parse_grow_line_def bind_eq_Some_conv split: prod.splits)
  have "state_act s1" using s1 s start_dynmem_act by (auto split: if_split_asm)
  from mod_dyn_line_act [OF m _ this] s' show ?thesis by auto
qed

lemma parse_ptr_line_act: "parse_ptr_line line start s = Some s' \<Longrightarrow> state_act s \<Longrightarrow> state_act s'"
  by (auto simp: parse_ptr_line_def bind_eq_Some_conv Let_def state_act_def set_w_def intro!: act_inv_append_ptr)

lemma parse_dump_line_act:
  assumes p: "parse_dump_line line start s = Some s'" and s: "state_act s"
  shows "state_act s'"
proof -
  from p obtain li w1 u where
    l: "(if parse_pic_lib line u = [] then (None, s_w s) else case find_add_lib (parse_pic_lib line u) (s_w s) of (i, w') \<Rightarrow> (Some i, w')) = (li, w1)"
    and s': "\<exists>us. s' = set_w (w1\<lparr>w_dump := us\<rparr>) s"
    by (fastforce simp: parse_dump_line_def bind_eq_Some_conv Let_def split: prod.splits)
  have "calm (s_w s) w1" using l find_add_lib_calm by (auto split: if_splits prod.splits)
  then have "calm (s_w s) (w1\<lparr>w_dump := us\<rparr>)" for us by (rule calm_trans) (simp add: calm_same)
  with s' s show ?thesis by (auto intro: state_act_calm simp: set_w_def)
qed

lemma parse_option_line_keys: "parse_option_line t line lnr start opt = Some opt' \<Longrightarrow> o_keys opt' = o_keys opt"
  by (cases t) (auto simp: parse_option_line_def bind_eq_Some_conv)

lemma parse_line_act:
  assumes p: "parse_line lnr line0 s = Some s'" and s: "state_act s" and i: "state_inv s"
  shows "state_act s'"
proof (cases "line0 = [] \<or> hd line0 = CHR ''#''")
  case True
  with p s show ?thesis by (simp add: parse_line_def)
next
  case False
  with p obtain name t line start where n: "value_name (s_macros s) line0 0 = Some (name, t, line, start)"
    by (auto simp: parse_line_def bind_eq_Some_conv)
  have opt: "state_act (s\<lparr>s_opt := opt\<rparr>)" if "parse_option_line t line lnr start (s_opt s) = Some opt" for opt
    using s parse_option_line_keys [OF that] parse_option_line_w [OF that] by (simp add: state_act_def)
  have act: "state_act (s\<lparr>s_in_dynmem := False, s_dyn := None\<rparr>)" "state_act (s\<lparr>s_in_ptrmem := False, s_ptr := None\<rparr>)"
    "\<And>m. state_act (s\<lparr>s_macros := m\<rparr>)"
    using s by (simp_all add: state_act_def)
  note p' = p [unfolded parse_line_def, simplified False n if_False bind.bind_lunit prod.case]
  note lines = parse_check_line_act parse_const_line_act parse_grow_line_act parse_ptr_line_act
    parse_entry_line_act parse_dump_line_act
  show ?thesis
  proof (cases t)
    case NAME_DYNMEM_START
    with p' s start_dynmem_act [OF _ s] show ?thesis by (auto simp: bind_eq_Some_conv)
  next
    case NAME_DEFINE
    with p' act(3) show ?thesis by (auto simp: bind_eq_Some_conv parse_define_line_def)
  qed (use p' s i opt act lines in \<open>auto simp: bind_eq_Some_conv\<close>)
qed

lemma parse_lines_act:
  assumes "parse_lines ls s = Some s'" "state_act s" "state_inv s"
  shows "state_act s'"
proof -
  have "state_act s' \<and> state_inv s'"
  proof (rule fold_opt_pres [of _ "\<lambda>s. state_act s \<and> state_inv s"])
    show "fold_opt (\<lambda>(lnr, l). parse_line lnr l) (enumerate 1 ls) s = Some s'"
      using assms(1) by (simp add: parse_lines_def)
  qed (use assms(2,3) parse_line_inv parse_line_act in auto)
  then show ?thesis ..
qed

subsection \<open>A parsed config and its keys\<close>

lemma parse_config_act:
  assumes p: "parse_config c0 k0 ls opt = Some opt'" and b: "blank (o_w opt)" "w_cfg_act (o_w opt) = []" "o_keys opt = Map.empty"
    and c0: "c_v_value c0 = []" "c_v_oldval c0 = []" "c_v_cstr c0 = []"
  shows "act_inv (o_w opt') \<and> keys_ok (o_keys opt') (length (w_cfg (o_w opt')))"
proof -
  from p obtain name s w where
    s: "parse_lines (tl ls) \<lparr>s_opt = opt\<lparr>o_w := init_caches (o_w opt), o_proc_name := name, o_game_call := name\<rparr>,
       s_macros = Map.empty, s_in_dynmem = False, s_in_ptrmem = False,
       s_dyn = None, s_ptr = None, s_cfg = c0, s_chk = k0\<rparr> = Some s" (is "parse_lines _ ?s0 = _")
    and w: "build_caches (s_w s) = Some w" "opt' = (s_opt s)\<lparr>o_w := w\<rparr>"
    by (auto simp: parse_config_def bind_eq_Some_conv)
  have i: "state_inv ?s0" using blank_tables [OF b(1)] c0 by (simp add: state_inv_def)
  have "state_act ?s0"
    using b by (simp add: state_act_def act_inv_def keys_ok_def blank_def init_caches_def)
  from parse_lines_act [OF s this i] have "state_act s" .
  with build_caches_calm [OF w(1)] act_inv_calm calmD(1) w(2) show ?thesis by (simp add: state_act_def)
qed

text \<open>The entries that a key toggles.\<close>

definition pressed :: "(char \<Rightarrow> nat list option) \<Rightarrow> char \<Rightarrow> nat list" where
  "pressed keys ch = (if ch = CHR ''+'' \<or> ch = CHR ''-'' \<or> ch = CHR ''>'' then []
     else case keys ch of None \<Rightarrow> [] | Some l \<Rightarrow> l)"

lemma dyn_visits_valid: "di \<in> set (dyn_visits old cs) \<Longrightarrow> \<exists>c \<in> set cs. c_dynmem c = Some di"
  by (induction old cs rule: dyn_visits.induct) (auto split: option.splits if_splits)

lemma change_mvec_pridx_calm:
  assumes "act_inv w" shows "\<exists>w'. change_mvec_pridx mode w = Some w' \<and> calm w w'"
  unfolding change_mvec_pridx_def
proof (rule fold_opt_inv)
  fix di w1 assume di: "di \<in> set (dyn_visits None (w_cfg w))" and c: "calm w w1"
  from dyn_visits_valid [OF di] obtain ci where "ci < length (w_cfg w)" "c_dynmem (w_cfg w ! ci) = Some di"
    by (auto simp: in_set_conv_nth)
  from act_invD(4) [OF assms this] calmD(2) [OF c] have "di < length (w_dyn w1)" by simp
  then obtain w2 where w2: "mod_dyn di (\<lambda>d. Some (d\<lparr>d_pr_idx := (if mode = INCREMENT then d_pr_idx d + 1
        else if 0 < d_pr_idx d then d_pr_idx d - 1 else d_pr_idx d)\<rparr>)) w1 = Some w2"
    by (simp add: mod_dyn_def vget_def)
  then have "calm w1 w2" by (rule mod_dyn_calm) auto
  with w2 c show "\<exists>w'. mod_dyn di (\<lambda>d. Some (d\<lparr>d_pr_idx := (if mode = INCREMENT then d_pr_idx d + 1
        else if 0 < d_pr_idx d then d_pr_idx d - 1 else d_pr_idx d)\<rparr>)) w1 = Some w' \<and> calm w w'"
    by (blast intro: calm_trans)
qed simp

lemma is_active_calm:
  assumes "calm w w'" "act_inv w" "ci < length (w_cfg w)"
  shows "is_active w' ci = is_active w ci"
  using calmD(4) [OF assms(1)] calmD(6,8) [OF assms(1)] act_invD(6) [OF assms(2,3)] assms(3)
  by (auto simp: is_active_def split: option.split)

lemma handle_input_char_act:
  assumes "act_inv w" "keys_ok keys (length (w_cfg w))" "ch \<noteq> CHR ''>''"
  shows "\<exists>w'. handle_input_char env mem maps keys ch (w, fs) = Some (w', fs) \<and> act_inv w' \<and>
    length (w_cfg w') = length (w_cfg w) \<and>
    (\<forall>ci < length (w_cfg w). is_active w' ci \<longleftrightarrow> is_active w ci \<noteq> odd (count_list (pressed keys ch) ci))"
proof (cases "ch = CHR ''+'' \<or> ch = CHR ''-''")
  case True
  obtain w1 w2 where w: "change_mvec_pridx INCREMENT w = Some w1" "calm w w1"
    "change_mvec_pridx DECREMENT w = Some w2" "calm w w2"
    using change_mvec_pridx_calm [OF assms(1)] by blast
  have keep: "act_inv w' \<and> length (w_cfg w') = length (w_cfg w) \<and> (\<forall>ci < length (w_cfg w). is_active w' ci = is_active w ci)"
    if "calm w w'" for w'
    using act_inv_calm [OF that assms(1)] calmD(1) [OF that] is_active_calm [OF that assms(1)] by blast
  from True w keep [OF w(2)] keep [OF w(4)] show ?thesis
    by (auto simp: handle_input_char_def pressed_def)
next
  case False
  show ?thesis
  proof (cases "keys ch")
    case None
    with False assms show ?thesis by (auto simp: handle_input_char_def pressed_def)
  next
    case (Some l)
    then have "\<forall>ci \<in> set l. ci < length (w_cfg w)" using assms(2) by (simp add: keys_ok_def)
    from toggle_cfg_inv [OF assms(1) this] Some False assms(3) show ?thesis
      by (auto simp: handle_input_char_def pressed_def same_links_def)
  qed
qed

lemma handle_input_act:
  assumes "act_inv w" "keys_ok keys (length (w_cfg w))" "CHR ''>'' \<notin> set chs"
  shows "\<exists>w'. fold_opt (handle_input_char env mem maps keys) chs (w, fs) = Some (w', fs) \<and> act_inv w' \<and>
    (\<forall>ci < length (w_cfg w). is_active w' ci \<longleftrightarrow> is_active w ci \<noteq> odd (count_list (concat (map (pressed keys) chs)) ci))"
  using assms
proof (induction chs arbitrary: w)
  case (Cons ch chs)
  then have ch: "ch \<noteq> CHR ''>''" by auto
  from handle_input_char_act [OF Cons.prems(1,2) ch] obtain w1 where
    w1: "handle_input_char env mem maps keys ch (w, fs) = Some (w1, fs)" "act_inv w1" "length (w_cfg w1) = length (w_cfg w)"
      "\<forall>ci < length (w_cfg w). is_active w1 ci \<longleftrightarrow> is_active w ci \<noteq> odd (count_list (pressed keys ch) ci)" by blast
  from Cons.IH [OF w1(2)] Cons.prems(2,3) w1(3) obtain w2 where
    w2: "fold_opt (handle_input_char env mem maps keys) chs (w1, fs) = Some (w2, fs)" "act_inv w2"
      "\<forall>ci < length (w_cfg w). is_active w2 ci \<longleftrightarrow> is_active w1 ci \<noteq> odd (count_list (concat (map (pressed keys) chs)) ci)"
    by auto
  have "is_active w2 ci \<longleftrightarrow> is_active w ci \<noteq> odd (count_list (concat (map (pressed keys) (ch # chs))) ci)"
    if "ci < length (w_cfg w)" for ci
  proof -
    have "is_active w2 ci \<longleftrightarrow> (is_active w ci \<noteq> odd (count_list (pressed keys ch) ci)) \<noteq>
        odd (count_list (concat (map (pressed keys) chs)) ci)"
      using w1(4) w2(3) that by blast
    then show ?thesis by (auto simp: count_list_append)
  qed
  with w1(1) w2(1,2) show ?case by auto
qed simp

end
