(* ===== verification/Options.thy ===== *)
theory Options
  imports Cfgparser
begin

text \<open>
  The options of the command line (\<open>src/src/options.cpp\<close>, \<open>src/src/options.h\<close>) on top of those of
  the config file. What \<open>getopt_long\<close> returns is an argument: per call the character of the option,
  its argument and the index of the next element of \<open>argv\<close>. \<open>None\<close> is the end of the program
  after the help or the version.
\<close>

record cli = popts +
  o_do_adapt :: bool
  o_disc_str :: string
  o_run_scanmem :: bool
  o_pre_cmd :: "string option"

definition LDISC_PRE :: string where "LDISC_PRE = ''libmemdisc''"
definition LHACK_PRE :: string where "LHACK_PRE = ''libmemhack''"
definition LIB_END :: string where "LIB_END = ''.so''"

text \<open>Pointers have eight bytes.\<close>

definition use_libmemdisc :: "cli \<Rightarrow> cli" where
  "use_libmemdisc opt = opt\<lparr>o_preload_lib := Some (LDISC_PRE @ ''64'' @ LIB_END)\<rparr>"

definition use_libmemhack :: "cli \<Rightarrow> cli" where
  "use_libmemhack opt = opt\<lparr>o_preload_lib := Some (LHACK_PRE @ ''64'' @ LIB_END)\<rparr>"

definition do_assumptions :: "cli \<Rightarrow> cli" where
  "do_assumptions opt =
     (let opt = (if o_disc_str opt \<noteq> [] \<or> o_run_scanmem opt then opt\<lparr>o_do_adapt := False\<rparr> else opt)
      in case o_preload_lib opt of
           None \<Rightarrow>
             if o_disc_str opt \<noteq> [] then use_libmemdisc opt
             else if o_run_scanmem opt \<or> o_pre_cmd opt \<noteq> None \<or> o_do_adapt opt then use_libmemhack opt
             else opt
         | Some lib \<Rightarrow>
             if o_disc_str opt \<noteq> [] \<and> is_prefix LHACK_PRE lib then use_libmemdisc opt else opt)"

datatype opt_char = OptHelp | OptVersion | OptAdapt | OptDiscover | OptPreload | OptScanmem | OptPreCmd
  | OptOther \<comment> \<open>an argument that is no option, or an unknown option\<close>

record getopt_res =
  go_ch :: opt_char
  go_optarg :: "string option"
  go_optind :: nat

text \<open>One round of the loop; \<open>prev\<close> is the option before.\<close>

definition parse_opt :: "string list \<Rightarrow> opt_char option \<Rightarrow> getopt_res \<Rightarrow> cli \<Rightarrow> cli option" where
  "parse_opt argv prev g opt =
     (let no_arg = (go_optind g = length argv \<or> go_optarg g = None) in
      case go_ch g of
        OptHelp \<Rightarrow> None
      | OptVersion \<Rightarrow> None
      | OptAdapt \<Rightarrow> Some (opt\<lparr>o_do_adapt := True\<rparr>)
      | OptDiscover \<Rightarrow> Some (opt\<lparr>o_disc_str := (if no_arg then ''2'' else the (go_optarg g))\<rparr>)
      | OptPreload \<Rightarrow> Some (if no_arg then use_libmemhack opt else opt\<lparr>o_preload_lib := go_optarg g\<rparr>)
      | OptScanmem \<Rightarrow> Some (opt\<lparr>o_run_scanmem := True\<rparr>)
      | OptPreCmd \<Rightarrow> Some (opt\<lparr>o_pre_cmd := go_optarg g\<rparr>)
      | OptOther \<Rightarrow> do {
          arg \<leftarrow> vget argv (go_optind g - 1);
          if go_optind g = length argv then Some (opt\<lparr>o_cfg_path := arg\<rparr>)
          else case prev of
            Some OptDiscover \<Rightarrow> Some (opt\<lparr>o_disc_str := arg\<rparr>)
          | Some OptPreload \<Rightarrow> Some (opt\<lparr>o_preload_lib := Some arg\<rparr>)
          | _ \<Rightarrow> None })"

primrec parse_opts :: "string list \<Rightarrow> opt_char option \<Rightarrow> getopt_res list \<Rightarrow> cli \<Rightarrow> cli option" where
  "parse_opts argv prev [] opt = Some opt"
| "parse_opts argv prev (g # gs) opt = parse_opt argv prev g opt \<bind> parse_opts argv (Some (go_ch g)) gs"

definition init_options :: "cli \<Rightarrow> cli" where
  "init_options opt = opt\<lparr>o_cfg_path := [], o_proc_name := [], o_game_call := [], o_game_binpath := [],
     o_game_params := [], o_disc_str := [], o_dynmem_file := ''/tmp/memdisc_file'', o_adp_script := [],
     o_w := (o_w opt)\<lparr>w_cache_list := [], w_stack_cache := [], w_lib := [], w_dump := []\<rparr>\<rparr>"

definition parse_options :: "string list \<Rightarrow> getopt_res list \<Rightarrow> cli \<Rightarrow> cli option" where
  "parse_options argv gs opt =
     (if length argv < 2 then None
      else do {
        opt' \<leftarrow> parse_opts argv None gs (init_options opt);
        if o_cfg_path opt' = [] then None else Some (do_assumptions opt') })"

end
