(* ===== verification/Adapt.thy ===== *)
theory Adapt
  imports Options
begin

text \<open>
  Adaptation of the config to another version of the game (\<open>src/src/adapt.cpp\<close>): a script prints
  new sizes and code addresses of the classes, which are stored in the classes, and the config
  file is written back with new lines for them. An unsuccessful script is run once more in debug
  mode, which never succeeds: its output is not read again, and a buffer that could not be parsed
  cannot be parsed a second time, as the names in it have been cut off.
\<close>

section \<open>The result of the script\<close>

text \<open>The text up to the next semicolon, and what is behind it.\<close>

definition parse_adp_string :: "string \<Rightarrow> (string \<times> string) option" where
  "parse_adp_string start =
     map_option (\<lambda>e. (take e start, drop (e + 1) start)) (index_first (\<lambda>c. c = CHR '';'') start)"

lemma parse_adp_string_shorter: "parse_adp_string s = Some (x, r) \<Longrightarrow> length r < length s"
  by (auto simp: parse_adp_string_def dest: index_first_SomeD)

definition set_line :: "nat \<Rightarrow> string \<Rightarrow> string list \<Rightarrow> string list option" where
  "set_line lnr line ls = vset ls lnr line"

text \<open>
  The result of the parser: a value, a parse error with the options and lines as they are by then,
  or an exception (\<open>None\<close>) of \<open>at()\<close>.
\<close>

type_synonym 'a adp = "((cli \<times> string list) + 'a) option"

text \<open>The name of the next object; the reserved names in front of it change options and lines.\<close>

function adp_name :: "string \<Rightarrow> cli \<Rightarrow> string list \<Rightarrow> (string \<times> string \<times> cli \<times> string list) adp" where
  "adp_name start opt ls =
     (case parse_adp_string start of
        None \<Rightarrow> Some (Inl (opt, ls))
      | Some (name, r) \<Rightarrow>
          if is_prefix ''proc_name'' name then
            (case parse_adp_string r of
               None \<Rightarrow> Some (Inl (opt, ls))
             | Some (v, r') \<Rightarrow>
                 let opt' = (if o_game_call opt = o_proc_name opt then opt\<lparr>o_proc_name := v, o_game_call := v\<rparr>
                             else opt\<lparr>o_proc_name := v\<rparr>)
                 in set_line 0 v ls \<bind> adp_name r' opt')
          else if is_prefix ''game_binpath'' name then
            (case parse_adp_string r of
               None \<Rightarrow> Some (Inl (opt, ls))
             | Some (v, r') \<Rightarrow>
                 if o_binpath_line opt = 0 then adp_name r' opt ls
                 else let opt' = opt\<lparr>o_game_binpath := v\<rparr>
                   in if cppbasename v \<noteq> o_proc_name opt then Some (Inl (opt', ls))
                      else set_line (o_binpath_line opt) (''game_binpath '' @ v) ls \<bind> adp_name r' opt')
          else Some (Inr (name, r, opt, ls)))"
  by pat_completeness auto
termination
  by (relation "measure (\<lambda>(s, _, _). length s)")
    (auto dest!: parse_adp_string_shorter)

declare adp_name.simps [simp del]

text \<open>The first class with that name that is not adapted yet, in the order of the entries.\<close>

definition adp_class :: "world \<Rightarrow> string \<Rightarrow> nat option" where
  "adp_class w name =
     (case index_first (\<lambda>c. case c_dynmem c of None \<Rightarrow> False
          | Some di \<Rightarrow> d_adp_addr (w_dyn w ! di) = 0 \<and> d_name (w_dyn w ! di) = name) (w_cfg w) of
        None \<Rightarrow> None | Some ci \<Rightarrow> c_dynmem (w_cfg w ! ci))"

definition adp_object :: "string \<Rightarrow> cli \<Rightarrow> string list \<Rightarrow> (string \<times> cli \<times> string list) adp" where
  "adp_object start opt ls =
     (case adp_name start opt ls of
        None \<Rightarrow> None
      | Some (Inl e) \<Rightarrow> Some (Inl e)
      | Some (Inr (name, r, opt, ls)) \<Rightarrow>
          (case (scan_u32 16 r, parse_adp_string r) of
             (Some (malloc_size, _), Some (_, r')) \<Rightarrow>
               (case scan_ptr r' of
                  None \<Rightarrow> Some (Inl (opt, ls))
                | Some (code_addr, _) \<Rightarrow>
                    (case adp_class (o_w opt) name of
                       None \<Rightarrow> Some (Inl (opt, ls))
                     | Some di \<Rightarrow> do {
                         w \<leftarrow> mod_dyn di (\<lambda>d. Some (d\<lparr>d_adp_size := malloc_size, d_adp_addr := code_addr\<rparr>)) (o_w opt);
                         Some (Inr (r', opt\<lparr>o_w := w\<rparr>, ls)) }))
           | _ \<Rightarrow> Some (Inl (opt, ls))))"

text \<open>The objects, with a semicolon between them.\<close>

fun adp_objects :: "nat \<Rightarrow> string \<Rightarrow> cli \<Rightarrow> string list \<Rightarrow> (cli \<times> string list) adp" where
  "adp_objects 0 start opt ls = Some (Inr (opt, ls))"
| "adp_objects (Suc n) start opt ls =
     (case adp_object start opt ls of
        None \<Rightarrow> None
      | Some (Inl e) \<Rightarrow> Some (Inl e)
      | Some (Inr (r, opt, ls)) \<Rightarrow>
          if n = 0 then Some (Inr (opt, ls))
          else (case parse_adp_string r of
                  None \<Rightarrow> Some (Inl (opt, ls))
                | Some (_, r') \<Rightarrow> adp_objects n r' opt ls))"

definition parse_adapt_result :: "string \<Rightarrow> cli \<Rightarrow> string list \<Rightarrow> (cli \<times> string list) adp" where
  "parse_adapt_result buf opt ls =
     (case (parse_adp_string buf, scan_u32 10 buf) of
        (Some (_, r), Some (num_obj, _)) \<Rightarrow> adp_objects (unat num_obj) r opt ls
      | _ \<Rightarrow> Some (Inl (opt, ls)))"

section \<open>Writing the config\<close>

text \<open>\<open>None\<close>: \<open>pop_back\<close> of an empty vector. Otherwise the contents of the file.\<close>

definition write_config_vect :: "string list \<Rightarrow> string option" where
  "write_config_vect ls = (if ls = [] then None else Some (concat (map (\<lambda>l. l @ [NL]) (butlast ls))))"

definition dynmem_line :: "dynmem_entry \<Rightarrow> string" where
  "dynmem_line d = ''dynmemstart '' @ d_name d @ '' '' @ pr_ul (e_mem_size d) @ '' 0x'' @ pr_hex (e_code_addr d) @
     '' 0x'' @ pr_hex (e_stack_offs d)"

definition take_over_class :: "nat \<Rightarrow> world \<times> string list \<Rightarrow> (world \<times> string list) option" where
  "take_over_class di s = do {
     w \<leftarrow> mod_dyn di (\<lambda>d. Some (d\<lparr>e_mem_size := ucast (d_adp_size d), e_code_addr := d_adp_addr d\<rparr>)) (fst s);
     d \<leftarrow> vget (w_dyn w) di;
     ls \<leftarrow> set_line (unat (d_cfg_line d)) (dynmem_line d) (snd s);
     Some (w, ls) }"

text \<open>The result, and the file if it could be opened.\<close>

definition take_over_config :: "bool \<Rightarrow> cli \<Rightarrow> string list \<Rightarrow> (int \<times> string option \<times> cli) option" where
  "take_over_config can_open opt ls = do {
     (w, ls1) \<leftarrow> fold_opt take_over_class (dyn_visits None (w_cfg (o_w opt))) (o_w opt, ls);
     ls2 \<leftarrow> (if 0 < o_adp_req_line opt then set_line (o_adp_req_line opt) ''adapt_required 0'' ls1 else Some ls1);
     txt \<leftarrow> write_config_vect ls2;
     let opt1 = opt\<lparr>o_w := w\<rparr>;
     Some (if can_open then (0, Some txt, use_libmemhack (opt1\<lparr>o_do_adapt := False, o_disc_str := []\<rparr>))
           else (- 1, None, opt1)) }"

section \<open>The adaptation\<close>

text \<open>
  \<open>output\<close> is what the script has printed when it has ended, without zero bytes; nothing if it
  fails. (A script that prints more than the pipe holds does not end.) \<open>run_cmd_pipe\<close>
  (\<open>lib/system_l.c\<close>) reads it once, after the script has ended, into a buffer of \<open>PIPE_BUF\<close> bytes with
  room for the final zero: what is longer is cut off. Output of one byte is an error like none at all.
\<close>

definition run_cmd_pipe :: "string \<Rightarrow> nat \<Rightarrow> string option" where
  "run_cmd_pipe output pbuf_size =
     (let pbuf = take (pbuf_size - 1) output in if length pbuf \<le> 1 then None else Some pbuf)"

definition adapt_config :: "bool \<Rightarrow> string \<Rightarrow> cli \<Rightarrow> string list \<Rightarrow> (int \<times> cli \<times> string list) option" where
  "adapt_config is_root output opt ls =
     (if is_root then Some (- 1, opt, ls)
      else case run_cmd_pipe output PIPE_BUF of
        None \<Rightarrow> Some (- 1, opt, ls)
      | Some pbuf \<Rightarrow>
          (case parse_adapt_result pbuf opt ls of
             None \<Rightarrow> None
           | Some (Inl (opt', ls')) \<Rightarrow> Some (- 1, opt', ls')
           | Some (Inr (opt', ls')) \<Rightarrow> Some (0, opt', ls')))"

definition process_adaptation ::
  "bool \<Rightarrow> char \<Rightarrow> string \<Rightarrow> bool \<Rightarrow> cli \<Rightarrow> string list \<Rightarrow> (int \<times> string option \<times> cli) option" where
  "process_adaptation is_root answer output can_open opt ls =
     (let ask = (o_adp_required opt \<and> \<not> o_do_adapt opt \<and> o_disc_str opt = [] \<and> \<not> o_run_scanmem opt)
      in if ask \<and> o_adp_script opt = [] then Some (- 1, None, opt)
         else let opt1 = (if ask \<and> answer = CHR ''y'' then do_assumptions (opt\<lparr>o_do_adapt := True\<rparr>) else opt)
           in if \<not> o_do_adapt opt1 then Some (0, None, opt1)
              else if o_adp_script opt1 = [] then Some (- 1, None, opt1)
              else do {
                (ret, opt2, ls2) \<leftarrow> adapt_config is_root output opt1 ls;
                if ret \<noteq> 0 then Some (ret, None, opt2) else take_over_config can_open opt2 ls2 })"

end
