(* ===== verification/AdaptInv.thy ===== *)
theory AdaptInv
  imports Adapt CfgText MemmgmtInv
begin

text \<open>
  Adaptation from end to end: the output of a script in its documented form is read, taken over
  and written back, and the new lines are read as the adapted classes.
\<close>

subsection \<open>The output of the script\<close>

type_synonym adp_res = "string \<times> u32 \<times> ptr"

definition adp_item :: "adp_res \<Rightarrow> string" where
  "adp_item x = (case x of (n, sz, a) \<Rightarrow> n @ '';0x'' @ pr_hex (ucast sz) @ '';'' @ pr_ptr a)"

fun adp_items :: "adp_res list \<Rightarrow> string" where
  "adp_items [] = []"
| "adp_items [x] = adp_item x"
| "adp_items (x # y # xs) = adp_item x @ '';'' @ adp_items (y # xs)"

text \<open>The name of the process and its path, which scripts print in front.\<close>

definition adp_head :: "(string \<times> string) option \<Rightarrow> string" where
  "adp_head hdr = (case hdr of None \<Rightarrow> [] | Some (p, b) \<Rightarrow> ''proc_name;'' @ p @ '';game_binpath;'' @ b @ '';'')"

definition adp_output :: "(string \<times> string) option \<Rightarrow> adp_res list \<Rightarrow> string" where
  "adp_output hdr rs = pr_dec (length rs) @ '';'' @ adp_head hdr @ adp_items rs @ [NL]"

definition no_semi :: "string \<Rightarrow> bool" where "no_semi s \<longleftrightarrow> CHR '';'' \<notin> set s"

lemma parse_adp_tok: "no_semi t \<Longrightarrow> parse_adp_string (t @ CHR '';'' # r) = Some (t, r)"
proof -
  assume "no_semi t"
  then have "\<forall>c \<in> set t. c \<noteq> CHR '';''" by (auto simp: no_semi_def)
  then have "index_first (\<lambda>c. c = CHR '';'') (t @ CHR '';'' # r) = Some (length t)" by (rule index_first_skip) simp
  then show ?thesis by (simp add: parse_adp_string_def)
qed

lemma no_semi_nums: "no_semi (pr_dec n)" "no_semi (pr_hex w)" "no_semi (''0x'' @ pr_hex w)" "no_semi (pr_ptr w)"
  using pr_dec_digits [of n] pr_hex_chars [of "CHR '';''" w] digit_not_special(6)
  by (auto simp: no_semi_def pr_ptr_def c_isdigit_def)

lemma scan_0x_hex: "num_stop r \<Longrightarrow> scan_num 16 (''0x'' @ pr_hex w @ r) = Some (False, unat w, r)"
proof -
  assume r: "num_stop r"
  obtain d ds where d: "pr_hex w = d # ds" using pr_dec_not_Nil(2) [of w] by (cases "pr_hex w") auto
  then have "is_digit 16 d" using pr_hex_chars [of d w] by simp
  then have "skip_0x 16 (''0x'' @ pr_hex w @ r) = pr_hex w @ r" by (simp add: skip_0x_def d)
  moreover have "scan_sign (dropWhile c_isspace (''0x'' @ pr_hex w @ r)) = (False, ''0x'' @ pr_hex w @ r)"
    by (simp add: scan_sign_def c_isspace_def)
  moreover have all: "\<forall>c \<in> set (pr_hex w). is_digit 16 c" using pr_hex_chars by blast
  ultimately show ?thesis
    using r pr_dec_not_Nil(2) [of w] num_value_digits [of 16 "unat w"]
    by (simp add: scan_num_def num_stop_digits pr_hex_def [symmetric])
qed

lemma ucast_up_down: "ucast (ucast (w :: u32) :: 64 word) = w"
  by (rule bit_word_eqI) (simp add: bit_simps)

lemma scan_u32_0x: "num_stop r \<Longrightarrow> scan_u32 16 (''0x'' @ pr_hex (ucast (w :: u32)) @ r) = Some (w, r)"
  using scan_0x_hex [of r "ucast w"] by (simp add: scan_u32_def scan_ul_def ucast_up_down)

lemma scan_u32_dec: "num_stop r \<Longrightarrow> n < 2 ^ 32 \<Longrightarrow> scan_u32 10 (pr_dec n @ r) = Some (of_nat n, r)"
proof -
  assume r: "num_stop r" and n: "n < 2 ^ 32"
  have "unat (of_nat n :: u32) = n" using n by (simp add: unat_of_nat)
  with scan_u32_pr_u32 [OF r, of "of_nat n"] show ?thesis by (simp add: pr_u32_def)
qed

subsection \<open>The classes\<close>

text \<open>Names of classes that can be told from the other entries of the output.\<close>

definition adp_name_ok :: "string \<Rightarrow> bool" where
  "adp_name_ok n \<longleftrightarrow> name_ok n \<and> \<not> is_prefix ''proc_name'' n \<and> \<not> is_prefix ''game_binpath'' n"

lemma adp_name_no_semi: "adp_name_ok n \<Longrightarrow> no_semi n"
proof -
  assume n: "adp_name_ok n"
  have "\<not> name_char (CHR '';'')"
    by (simp add: name_char_def c_isalnum_def c_isalpha_def c_isupper_def c_islower_def c_isdigit_def)
  with n show ?thesis unfolding adp_name_ok_def name_ok_def no_semi_def by blast
qed

definition set_adp :: "adp_res \<Rightarrow> dynmem_entry \<Rightarrow> dynmem_entry" where
  "set_adp x d = (case x of (n, sz, a) \<Rightarrow> if d_name d = n then d\<lparr>d_adp_size := sz, d_adp_addr := a\<rparr> else d)"

text \<open>Every class has an entry, a name of its own and has not been adapted yet.\<close>

definition classes_ok :: "world \<Rightarrow> bool" where
  "classes_ok w \<longleftrightarrow> distinct (map d_name (w_dyn w)) \<and>
     (\<forall>di < length (w_dyn w). \<exists>c \<in> set (w_cfg w). c_dynmem c = Some di) \<and>
     (\<forall>c \<in> set (w_cfg w). \<forall>di. c_dynmem c = Some di \<longrightarrow> di < length (w_dyn w))"

lemma classes_ok_dyn: "classes_ok (w\<lparr>w_dyn := map f (w_dyn w)\<rparr>) = classes_ok w" if "\<And>d. d_name (f d) = d_name d"
  using that by (simp add: classes_ok_def comp_def)

lemma set_adp_name [simp]: "d_name (set_adp x d) = d_name d"
  by (cases x) (simp add: set_adp_def)

lemma adp_class_found:
  assumes ok: "classes_ok w" and di: "di < length (w_dyn w)" and d: "d_adp_addr (w_dyn w ! di) = 0"
  shows "adp_class w (d_name (w_dyn w ! di)) = Some di"
proof -
  let ?P = "\<lambda>c. case c_dynmem c of None \<Rightarrow> False
    | Some dj \<Rightarrow> d_adp_addr (w_dyn w ! dj) = 0 \<and> d_name (w_dyn w ! dj) = d_name (w_dyn w ! di)"
  obtain c where c: "c \<in> set (w_cfg w)" "c_dynmem c = Some di" using ok di by (auto simp: classes_ok_def)
  then have "?P c" using d by simp
  with c(1) have "index_first ?P (w_cfg w) \<noteq> None" unfolding index_first_None by blast
  then obtain ci where ci: "index_first ?P (w_cfg w) = Some ci" by blast
  from index_first_SomeD [OF ci] have i: "ci < length (w_cfg w)" "?P (w_cfg w ! ci)" by auto
  then obtain dj where dj: "c_dynmem (w_cfg w ! ci) = Some dj" "d_name (w_dyn w ! dj) = d_name (w_dyn w ! di)"
    by (auto split: option.splits)
  have "dj < length (w_dyn w)" using ok dj(1) nth_mem [OF i(1)] by (auto simp: classes_ok_def)
  then have "dj = di" using ok dj(2) di by (auto simp: classes_ok_def distinct_conv_nth)
  with ci dj(1) show ?thesis by (simp add: adp_class_def)
qed

lemma set_adp_update:
  assumes "distinct (map d_name ds)" "di < length ds" "d_name (ds ! di) = n"
  shows "ds[di := (ds ! di)\<lparr>d_adp_size := sz, d_adp_addr := a\<rparr>] = map (set_adp (n, sz, a)) ds"
proof (rule nth_equalityI)
  fix i assume "i < length (ds[di := (ds ! di)\<lparr>d_adp_size := sz, d_adp_addr := a\<rparr>])"
  then have i: "i < length ds" by simp
  have "d_name (ds ! i) = n \<longleftrightarrow> i = di" using assms i by (auto simp: distinct_conv_nth)
  with i show "ds[di := (ds ! di)\<lparr>d_adp_size := sz, d_adp_addr := a\<rparr>] ! i = map (set_adp (n, sz, a)) ds ! i"
    by (auto simp: set_adp_def nth_list_update)
qed simp

subsection \<open>Reading the output\<close>

lemma adp_name_object:
  assumes "adp_name_ok n" shows "adp_name (n @ CHR '';'' # r) opt ls = Some (Inr (n, r, opt, ls))"
  using assms adp_name_no_semi [OF assms]
  by (subst adp_name.simps) (simp add: parse_adp_tok adp_name_ok_def)

lemma adp_object_at:
  fixes sz :: u32
  assumes nm: "adp_name start opt0 ls0 = Some (Inr (n, ''0x'' @ pr_hex (ucast sz) @ CHR '';'' # pr_ptr a @ r, opt, ls))"
    and r: "num_stop r" and ok: "classes_ok (o_w opt)"
    and di: "di < length (w_dyn (o_w opt))" "d_name (w_dyn (o_w opt) ! di) = n" "d_adp_addr (w_dyn (o_w opt) ! di) = 0"
  shows "adp_object start opt0 ls0 =
    Some (Inr (pr_ptr a @ r, opt\<lparr>o_w := (o_w opt)\<lparr>w_dyn := map (set_adp (n, sz, a)) (w_dyn (o_w opt))\<rparr>\<rparr>, ls))"
proof -
  let ?r = "''0x'' @ pr_hex (ucast sz) @ CHR '';'' # pr_ptr a @ r"
  have s: "scan_u32 16 ?r = Some (sz, CHR '';'' # pr_ptr a @ r)" by (rule scan_u32_0x) simp
  have p: "parse_adp_string ?r = Some (''0x'' @ pr_hex (ucast sz), pr_ptr a @ r)"
    using parse_adp_tok [OF no_semi_nums(3)] by simp
  have c: "scan_ptr (pr_ptr a @ r) = Some (a, r)" using r by (rule scan_ptr_pr_ptr)
  have f: "adp_class (o_w opt) n = Some di" using adp_class_found [OF ok di(1,3)] di(2) by simp
  have "distinct (map d_name (w_dyn (o_w opt)))" using ok by (simp add: classes_ok_def)
  note u = set_adp_update [OF this di(1,2), where sz = sz and a = a]
  show ?thesis
    unfolding adp_object_def nm option.case sum.case prod.case s p c f
    using di(1) u by (simp add: mod_dyn_def vget_def)
qed

text \<open>What the entries in front of the first object do.\<close>

definition head_ok :: "(string \<times> string) option \<Rightarrow> cli \<Rightarrow> string list \<Rightarrow> bool" where
  "head_ok hdr opt ls \<longleftrightarrow> (case hdr of None \<Rightarrow> True
     | Some (p, b) \<Rightarrow> no_semi p \<and> no_semi b \<and> ls \<noteq> [] \<and>
         (0 < o_binpath_line opt \<longrightarrow> cppbasename b = p \<and> o_binpath_line opt < length ls))"

definition head_opt :: "(string \<times> string) option \<Rightarrow> cli \<Rightarrow> cli" where
  "head_opt hdr opt = (case hdr of None \<Rightarrow> opt
     | Some (p, b) \<Rightarrow>
         let opt1 = (if o_game_call opt = o_proc_name opt then opt\<lparr>o_proc_name := p, o_game_call := p\<rparr>
                     else opt\<lparr>o_proc_name := p\<rparr>)
         in if 0 < o_binpath_line opt then opt1\<lparr>o_game_binpath := b\<rparr> else opt1)"

definition head_lines :: "(string \<times> string) option \<Rightarrow> cli \<Rightarrow> string list \<Rightarrow> string list" where
  "head_lines hdr opt ls = (case hdr of None \<Rightarrow> ls
     | Some (p, b) \<Rightarrow> if 0 < o_binpath_line opt then ls[0 := p, o_binpath_line opt := ''game_binpath '' @ b] else ls[0 := p])"

lemma head_opt_sel [simp]: "o_w (head_opt hdr opt) = o_w opt" "o_adp_req_line (head_opt hdr opt) = o_adp_req_line opt"
  "length (head_lines hdr opt ls) = length ls"
  by (auto simp: head_opt_def head_lines_def Let_def split: option.split prod.split)

lemma adp_name_head:
  assumes h: "head_ok hdr opt ls" and n: "adp_name_ok n"
  shows "adp_name (adp_head hdr @ n @ CHR '';'' # r) opt ls = Some (Inr (n, r, head_opt hdr opt, head_lines hdr opt ls))"
proof (cases hdr)
  case None
  with adp_name_object [OF n] show ?thesis by (simp add: adp_head_def head_opt_def head_lines_def)
next
  case (Some x)
  obtain p b where x: "x = (p, b)" by (cases x)
  have pb: "no_semi p" "no_semi b" "ls \<noteq> []"
    "0 < o_binpath_line opt \<Longrightarrow> cppbasename b = p \<and> o_binpath_line opt < length ls"
    using h Some x by (simp_all add: head_ok_def)
  have ns: "no_semi ''proc_name''" "no_semi ''game_binpath''" by (simp_all add: no_semi_def)
  let ?o1 = "if o_game_call opt = o_proc_name opt then opt\<lparr>o_proc_name := p, o_game_call := p\<rparr> else opt\<lparr>o_proc_name := p\<rparr>"
  let ?t = "''game_binpath'' @ CHR '';'' # b @ CHR '';'' # n @ CHR '';'' # r"
  have tx: "adp_head hdr @ n @ CHR '';'' # r = ''proc_name'' @ CHR '';'' # p @ CHR '';'' # ?t"
    by (simp add: adp_head_def Some x)
  have 1: "adp_name (''proc_name'' @ CHR '';'' # p @ CHR '';'' # ?t) opt ls = adp_name ?t ?o1 (ls[0 := p])"
    unfolding adp_name.simps [of "''proc_name'' @ CHR '';'' # p @ CHR '';'' # ?t"] parse_adp_tok [OF ns(1)]
      option.case prod.case parse_adp_tok [OF pb(1)]
    using pb(3) by (simp add: is_prefix_def set_line_def vset_def Let_def)
  have o1: "o_binpath_line ?o1 = o_binpath_line opt" "o_proc_name ?o1 = p" by simp_all
  have 2: "adp_name ?t ?o1 (ls[0 := p]) = adp_name (n @ CHR '';'' # r) (head_opt hdr opt) (head_lines hdr opt ls)"
    unfolding adp_name.simps [of ?t] parse_adp_tok [OF ns(2)] option.case prod.case parse_adp_tok [OF pb(2)] o1
    using pb(4) by (simp add: is_prefix_def set_line_def vset_def Let_def head_opt_def head_lines_def Some x)
  show ?thesis unfolding tx 1 2 by (rule adp_name_object [OF n])
qed

text \<open>All objects.\<close>

lemma num_stop_semi: "num_stop (CHR '';'' # r)" by simp

lemma adp_objects_read:
  assumes ok: "classes_ok (o_w opt0)"
    and o: "o_w opt = (o_w opt0)\<lparr>w_dyn := map f (w_dyn (o_w opt0))\<rparr>" "\<And>d. d_name (f d) = d_name d"
    and nm: "\<And>r. adp_name (pre @ fst x @ CHR '';'' # r) opt1 ls1 = Some (Inr (fst x, r, opt, ls))"
    and rs: "distinct (map fst (x # xs))"
      "\<forall>y \<in> set (x # xs). adp_name_ok (fst y) \<and> (\<exists>di < length (w_dyn (o_w opt0)).
         d_name (w_dyn (o_w opt0) ! di) = fst y \<and> d_adp_addr (f (w_dyn (o_w opt0) ! di)) = 0)"
  shows "adp_objects (length (x # xs)) (pre @ adp_items (x # xs) @ [NL]) opt1 ls1 =
    Some (Inr (opt\<lparr>o_w := (o_w opt0)\<lparr>w_dyn := map (\<lambda>d. fold set_adp (x # xs) (f d)) (w_dyn (o_w opt0))\<rparr>\<rparr>, ls))"
  using o nm rs
proof (induction xs arbitrary: x f opt pre opt1 ls1)
  case Nil
  obtain n sz a where x: "x = (n, sz, a)" by (cases x)
  have ok': "classes_ok (o_w opt)" using ok classes_ok_dyn [of f "o_w opt0"] Nil.prems(1,2) by simp
  obtain di where di: "di < length (w_dyn (o_w opt0))" "d_name (w_dyn (o_w opt0) ! di) = n"
    "d_adp_addr (f (w_dyn (o_w opt0) ! di)) = 0"
    using Nil.prems(5) x by auto
  have t: "pre @ adp_items [x] @ [NL] = pre @ fst x @ CHR '';'' # (''0x'' @ pr_hex (ucast sz) @ CHR '';'' # pr_ptr a @ [NL])"
    by (simp add: adp_item_def x)
  have "adp_name (pre @ adp_items [x] @ [NL]) opt1 ls1 =
      Some (Inr (n, ''0x'' @ pr_hex (ucast sz) @ CHR '';'' # pr_ptr a @ [NL], opt, ls))"
    unfolding t Nil.prems(3) by (simp add: x)
  from adp_object_at [OF this _ ok'] di Nil.prems(1,2)
  have "adp_object (pre @ adp_items [x] @ [NL]) opt1 ls1 =
      Some (Inr (pr_ptr a @ [NL], opt\<lparr>o_w := (o_w opt)\<lparr>w_dyn := map (set_adp x) (w_dyn (o_w opt))\<rparr>\<rparr>, ls))"
    by (simp add: x)
  then show ?case using Nil.prems(1) by (simp add: comp_def)
next
  case (Cons y ys)
  obtain n sz a where x: "x = (n, sz, a)" by (cases x)
  have ok': "classes_ok (o_w opt)" using ok classes_ok_dyn [of f "o_w opt0"] Cons.prems(1,2) by simp
  obtain di where di: "di < length (w_dyn (o_w opt0))" "d_name (w_dyn (o_w opt0) ! di) = n"
    "d_adp_addr (f (w_dyn (o_w opt0) ! di)) = 0"
    using Cons.prems(5) x by auto
  let ?rest = "CHR '';'' # adp_items (y # ys) @ [NL]"
  have t: "pre @ adp_items (x # y # ys) @ [NL] =
      pre @ fst x @ CHR '';'' # (''0x'' @ pr_hex (ucast sz) @ CHR '';'' # pr_ptr a @ ?rest)"
    by (simp add: adp_item_def x)
  have nm: "adp_name (pre @ adp_items (x # y # ys) @ [NL]) opt1 ls1 =
      Some (Inr (n, ''0x'' @ pr_hex (ucast sz) @ CHR '';'' # pr_ptr a @ ?rest, opt, ls))"
    unfolding t Cons.prems(3) by (simp add: x)
  let ?opt = "opt\<lparr>o_w := (o_w opt)\<lparr>w_dyn := map (set_adp x) (w_dyn (o_w opt))\<rparr>\<rparr>"
  from adp_object_at [OF nm num_stop_semi ok'] di Cons.prems(1,2)
  have ob: "adp_object (pre @ adp_items (x # y # ys) @ [NL]) opt1 ls1 = Some (Inr (pr_ptr a @ ?rest, ?opt, ls))"
    by (simp add: x)
  have tok: "parse_adp_string (pr_ptr a @ ?rest) = Some (pr_ptr a, adp_items (y # ys) @ [NL])"
    by (rule parse_adp_tok [OF no_semi_nums(4)])
  have other: "d_adp_addr (set_adp x (f d)) = d_adp_addr (f d)" if "d_name d = fst z" "z \<in> set (y # ys)" for d z
    using that Cons.prems(2,4) x by (auto simp: set_adp_def)
  have "adp_objects (length (y # ys)) ([] @ adp_items (y # ys) @ [NL]) ?opt ls =
    Some (Inr (?opt\<lparr>o_w := (o_w opt0)\<lparr>w_dyn := map (\<lambda>d. fold set_adp (y # ys) (set_adp x (f d))) (w_dyn (o_w opt0))\<rparr>\<rparr>, ls))"
  proof (rule Cons.IH [where f = "\<lambda>d. set_adp x (f d)"])
    show "o_w ?opt = (o_w opt0)\<lparr>w_dyn := map (\<lambda>d. set_adp x (f d)) (w_dyn (o_w opt0))\<rparr>"
      using Cons.prems(1) by (simp add: comp_def)
    show "adp_name ([] @ fst y @ CHR '';'' # r) ?opt ls = Some (Inr (fst y, r, ?opt, ls))" for r
      using adp_name_object [of "fst y"] Cons.prems(5) by simp
    show "\<forall>z \<in> set (y # ys). adp_name_ok (fst z) \<and> (\<exists>di < length (w_dyn (o_w opt0)).
         d_name (w_dyn (o_w opt0) ! di) = fst z \<and> d_adp_addr (set_adp x (f (w_dyn (o_w opt0) ! di))) = 0)"
    proof
      fix z assume z: "z \<in> set (y # ys)"
      then obtain dj where "adp_name_ok (fst z)" "dj < length (w_dyn (o_w opt0))"
        "d_name (w_dyn (o_w opt0) ! dj) = fst z" "d_adp_addr (f (w_dyn (o_w opt0) ! dj)) = 0"
        using Cons.prems(5) by (meson list.set_intros(2))
      with other [OF this(3) z] show "adp_name_ok (fst z) \<and> (\<exists>di < length (w_dyn (o_w opt0)).
         d_name (w_dyn (o_w opt0) ! di) = fst z \<and> d_adp_addr (set_adp x (f (w_dyn (o_w opt0) ! di))) = 0)" by auto
    qed
  qed (use Cons.prems(2,4) in simp_all)
  then show ?case using ob tok by simp
qed

lemma adapt_result_read:
  assumes ok: "classes_ok (o_w opt)" and hd: "head_ok hdr opt ls"
    and rs: "rs \<noteq> []" "length rs < 2 ^ 32" "distinct (map fst rs)"
      "\<forall>y \<in> set rs. adp_name_ok (fst y) \<and> (\<exists>di < length (w_dyn (o_w opt)).
         d_name (w_dyn (o_w opt) ! di) = fst y \<and> d_adp_addr (w_dyn (o_w opt) ! di) = 0)"
  shows "parse_adapt_result (adp_output hdr rs) opt ls =
    Some (Inr ((head_opt hdr opt)\<lparr>o_w := (o_w opt)\<lparr>w_dyn := map (fold set_adp rs) (w_dyn (o_w opt))\<rparr>\<rparr>,
      head_lines hdr opt ls))"
proof -
  obtain x xs where x: "rs = x # xs" using rs(1) by (cases rs) auto
  let ?r = "adp_head hdr @ adp_items rs @ [NL]"
  have t: "adp_output hdr rs = pr_dec (length rs) @ CHR '';'' # ?r" by (simp add: adp_output_def)
  have p: "parse_adp_string (adp_output hdr rs) = Some (pr_dec (length rs), ?r)"
    unfolding t by (rule parse_adp_tok [OF no_semi_nums(1)])
  have s: "scan_u32 10 (adp_output hdr rs) = Some (of_nat (length rs), CHR '';'' # ?r)"
    unfolding t by (rule scan_u32_dec [OF num_stop_semi rs(2)])
  have len: "unat (of_nat (length rs) :: u32) = length rs" using rs(2) by (simp add: unat_of_nat)
  have "adp_objects (length (x # xs)) (adp_head hdr @ adp_items (x # xs) @ [NL]) opt ls =
    Some (Inr ((head_opt hdr opt)\<lparr>o_w := (o_w opt)\<lparr>w_dyn := map (\<lambda>d. fold set_adp (x # xs) d) (w_dyn (o_w opt))\<rparr>\<rparr>,
      head_lines hdr opt ls))"
  proof (rule adp_objects_read [OF ok, where f = "\<lambda>d. d"])
    show "adp_name (adp_head hdr @ fst x @ CHR '';'' # r) opt ls =
        Some (Inr (fst x, r, head_opt hdr opt, head_lines hdr opt ls))" for r
      using adp_name_head [OF hd] rs(4) x by simp
  qed (use rs x in simp_all)
  then show ?thesis using p s len x by (simp add: parse_adapt_result_def)
qed

subsection \<open>Taking over the result\<close>

definition taken :: "dynmem_entry \<Rightarrow> dynmem_entry" where
  "taken d = d\<lparr>e_mem_size := ucast (d_adp_size d), e_code_addr := d_adp_addr d\<rparr>"

definition line_of :: "world \<Rightarrow> nat \<Rightarrow> nat" where "line_of w di = unat (d_cfg_line (w_dyn w ! di))"

lemma take_over_class_at:
  assumes "di < length (w_dyn w)" "line_of w di < length ls"
  shows "take_over_class di (w, ls) = Some (w\<lparr>w_dyn := (w_dyn w)[di := taken (w_dyn w ! di)]\<rparr>,
    ls[line_of w di := dynmem_line (taken (w_dyn w ! di))])"
  using assms by (simp add: take_over_class_def mod_dyn_def vget_def set_line_def vset_def taken_def line_of_def)

lemma take_over_classes:
  assumes "distinct dis" "\<forall>di \<in> set dis. di < length (w_dyn w) \<and> line_of w di < length ls" "inj_on (line_of w) (set dis)"
  shows "\<exists>ds ls'. fold_opt take_over_class dis (w, ls) = Some (w\<lparr>w_dyn := ds\<rparr>, ls') \<and>
    length ds = length (w_dyn w) \<and> length ls' = length ls \<and>
    (\<forall>i < length (w_dyn w). ds ! i = (if i \<in> set dis then taken (w_dyn w ! i) else w_dyn w ! i)) \<and>
    (\<forall>di \<in> set dis. ls' ! line_of w di = dynmem_line (taken (w_dyn w ! di))) \<and>
    (\<forall>j. j \<notin> line_of w ` set dis \<longrightarrow> ls' ! j = ls ! j)"
  using assms
proof (induction dis arbitrary: w ls)
  case Nil
  have "w = w\<lparr>w_dyn := w_dyn w\<rparr>" by simp
  then show ?case by (metis fold_opt.simps(1) empty_iff empty_set list.set(1))
next
  case (Cons di dis)
  let ?w = "w\<lparr>w_dyn := (w_dyn w)[di := taken (w_dyn w ! di)]\<rparr>"
  let ?ls = "ls[line_of w di := dynmem_line (taken (w_dyn w ! di))]"
  have di: "di < length (w_dyn w)" "line_of w di < length ls" "di \<notin> set dis" using Cons.prems by auto
  have line: "line_of ?w dj = line_of w dj" for dj
    by (cases "dj = di") (use di in \<open>simp_all add: line_of_def taken_def\<close>)
  have other: "w_dyn ?w ! dj = w_dyn w ! dj" if "dj \<noteq> di" for dj using that by simp
  have "\<exists>ds ls'. fold_opt take_over_class dis (?w, ?ls) = Some (?w\<lparr>w_dyn := ds\<rparr>, ls') \<and>
    length ds = length (w_dyn ?w) \<and> length ls' = length ?ls \<and>
    (\<forall>i < length (w_dyn ?w). ds ! i = (if i \<in> set dis then taken (w_dyn ?w ! i) else w_dyn ?w ! i)) \<and>
    (\<forall>di \<in> set dis. ls' ! line_of ?w di = dynmem_line (taken (w_dyn ?w ! di))) \<and>
    (\<forall>j. j \<notin> line_of ?w ` set dis \<longrightarrow> ls' ! j = ?ls ! j)"
  proof (rule Cons.IH)
    show "inj_on (line_of ?w) (set dis)" using Cons.prems(3) unfolding line by simp
    show "\<forall>dj \<in> set dis. dj < length (w_dyn ?w) \<and> line_of ?w dj < length ?ls"
      using Cons.prems(2) unfolding line by simp
  qed (use Cons.prems(1) in simp)
  then obtain ds ls' where r: "fold_opt take_over_class dis (?w, ?ls) = Some (?w\<lparr>w_dyn := ds\<rparr>, ls')"
    and len: "length ds = length (w_dyn w)" "length ls' = length ls"
    and ds: "\<And>i. i < length (w_dyn w) \<Longrightarrow> ds ! i = (if i \<in> set dis then taken (w_dyn ?w ! i) else w_dyn ?w ! i)"
    and ls': "\<And>dj. dj \<in> set dis \<Longrightarrow> ls' ! line_of w dj = dynmem_line (taken (w_dyn ?w ! dj))"
      "\<And>j. j \<notin> line_of w ` set dis \<Longrightarrow> ls' ! j = ?ls ! j"
    unfolding line by auto
  have "fold_opt take_over_class (di # dis) (w, ls) = Some (w\<lparr>w_dyn := ds\<rparr>, ls')"
    using r take_over_class_at [OF di(1,2)] by simp
  moreover have "ds ! i = (if i \<in> set (di # dis) then taken (w_dyn w ! i) else w_dyn w ! i)" if "i < length (w_dyn w)" for i
    using ds [OF that] di(1,3) by (cases "i = di") auto
  moreover have "line_of w di \<notin> line_of w ` set dis" using Cons.prems(3) di(3) by auto
  then have new: "ls' ! line_of w di = dynmem_line (taken (w_dyn w ! di))" using ls'(2) di(2) by simp
  have "ls' ! line_of w dj = dynmem_line (taken (w_dyn w ! dj))" if "dj \<in> set (di # dis)" for dj
    using that new ls'(1) [of dj] other [of dj] di(3) by (cases "dj = di") auto
  moreover have "ls' ! j = ls ! j" if "j \<notin> line_of w ` set (di # dis)" for j
    using that ls'(2) [of j] by simp
  ultimately show ?case using len by blast
qed

subsection \<open>Writing and reading the file\<close>

lemma split_lines_tok: "NL \<notin> set l \<Longrightarrow> split_lines acc (l @ NL # r) = (acc @ l) # split_lines [] r"
  by (induction l arbitrary: acc) auto

lemma split_written: "\<forall>l \<in> set ls. NL \<notin> set l \<Longrightarrow> split_lines [] (concat (map (\<lambda>l. l @ [NL]) ls)) = ls @ [[]]"
  by (induction ls) (simp_all add: split_lines_tok)

lemma parse_hex_end:
  assumes "drop p line = pr_hex a" shows "parse_hex line p = Some (a, length line)"
proof -
  have tw: "takeWhile c_isxdigit (pr_hex a) = pr_hex a"
    using pr_hex_chars [of _ a]
    by (auto simp: takeWhile_eq_all_conv is_digit_def digit_val_def c_isdigit_def c_isupper_def c_islower_def)
  have "p + length (pr_hex a) = length line"
    using assms pr_dec_not_Nil(2) [of a] by (metis drop_eq_Nil length_drop le_add_diff_inverse nat_le_linear)
  with assms tw pr_dec_not_Nil(2) [of a] show ?thesis
    by (simp add: parse_hex_def Let_def strtoul_pr_hex del: takeWhile_eq_all_conv)
qed

lemma parse_addr_end:
  assumes "drop p line = ''0x'' @ pr_hex a"
  shows "parse_addr ctx u w ty line p = Some \<lparr>r_addr = a, r_type = ty, r_ref = None, r_next = length line\<rparr>"
proof -
  have 0: "line ! p = CHR ''0''" "p < length line" using drop_at [of p line] assms by auto
  have d1: "drop (p + 1) line = CHR ''x'' # pr_hex a" using drop_tok [of p line "''0''"] assms by simp
  have 1: "line ! (p + 1) = CHR ''x''" "p + 1 < length line" using drop_at [OF d1] by auto
  have "drop (p + 2) line = pr_hex a" using drop_tok [of p line "''0x''"] assms by simp
  from parse_hex_end [OF this] 0 1 show ?thesis by (subst parse_addr.simps) simp
qed

lemma parse_u32_tok:
  assumes d: "drop p line = pr_dec v @ CHR '' '' # r" and v: "v < 2 ^ 32"
  shows "parse_u32_value line p = Some (of_nat v, p + length (pr_dec v) + 1)"
proof -
  have t: "takeWhile (\<lambda>c. c \<noteq> CHR '' '') (pr_dec v @ CHR '' '' # r) = pr_dec v"
    using pr_dec_digits digit_is_not(1) by (blast intro: takeWhile_tok)
  have "filter (\<lambda>c. \<not> num_char ty0 neg c) (pr_dec v) = []" for ty0 neg
    using pr_dec_digits [of v] by (auto simp: filter_empty_conv num_char_def)
  moreover have "p \<le> length line"
    using d by (metis drop_eq_Nil append_is_Nil_conv list.distinct(1) linear)
  ultimately have w: "parse_word (no_type\<lparr>t_size := 32\<rparr>) False line p = Some (Num 10 (pr_dec v) (p + length (pr_dec v) + 1))"
    using dec_no_0x by (simp add: parse_word_def d t Let_def)
  have "ucast (num_of (no_type\<lparr>t_size := 32\<rparr>) 10 (pr_dec v)) = (of_nat v :: u32)"
  proof -
    have "ucast (of_nat v :: 64 word) = (of_nat v :: u32)" by (rule bit_word_eqI) (simp add: bit_simps)
    moreover have "put 32 0 (of_nat v) = of_nat v" using v by (intro put_of_nat) simp_all
    moreover have "strtoul 10 (pr_dec v) = of_nat v" using v by (intro strtoul_pr_dec) simp
    ultimately show ?thesis by (simp add: num_of_def no_type_def Let_def)
  qed
  with w show ?thesis by (simp add: parse_u32_value_def)
qed

text \<open>The new line is read as a class with the size and the code address in it.\<close>

definition read_class :: "dynmem_entry \<Rightarrow> nat \<Rightarrow> dynmem_entry" where
  "read_class d lnr = new_dynmem (d_name d) \<lparr>e_mem_size = e_mem_size d, e_code_addr = e_code_addr d,
     e_code_offs = e_code_addr d, e_stack_offs = e_stack_offs d, e_lib = Some []\<rparr> lnr"

definition add_class :: "dynmem_entry \<Rightarrow> pstate \<Rightarrow> pstate" where
  "add_class d s = (set_w ((s_w s)\<lparr>w_dyn := w_dyn (s_w s) @ [d]\<rparr>) s)
     \<lparr>s_in_dynmem := True, s_dyn := Some (length (w_dyn (s_w s)))\<rparr>"

lemma dynmem_line_read:
  assumes n: "name_ok (d_name d)" and sz: "unat (e_mem_size d) < 2 ^ 32" and s: "outside s"
  shows "parse_line lnr (dynmem_line d) s = Some (add_class (read_class d lnr) s)"
proof -
  let ?l = "dynmem_line d" and ?v = "unat (e_mem_size d)"
  let ?t4 = "''0x'' @ pr_hex (e_stack_offs d)"
  let ?t3 = "''0x'' @ pr_hex (e_code_addr d) @ CHR '' '' # ?t4"
  let ?t2 = "pr_dec ?v @ CHR '' '' # ?t3"
  have d0: "drop 0 ?l = ''dynmemstart'' @ CHR '' '' # d_name d @ CHR '' '' # ?t2"
    by (simp add: dynmem_line_def pr_ul_def)
  have key: "name_ok ''dynmemstart''"
    by (simp add: name_ok_def name_char_def c_isalnum_def c_isalpha_def c_islower_def c_isupper_def c_isdigit_def)
  from d0 have d1: "drop 12 ?l = d_name d @ CHR '' '' # ?t2" by simp
  let ?p2 = "12 + length (d_name d) + 1"
  let ?p3 = "?p2 + length (pr_dec ?v) + 1"
  let ?p4 = "?p3 + 2 + length (pr_hex (e_code_addr d)) + 1"
  from drop_tok1 [OF d1] have d2: "drop ?p2 ?l = ?t2" .
  from drop_tok1 [OF d2] have d3: "drop ?p3 ?l = ?t3" .
  from drop_tok1 [of ?p3 ?l "''0x'' @ pr_hex (e_code_addr d)" "CHR '' ''" ?t4] d3
  have d4: "drop ?p4 ?l = ?t4" by (simp add: add.assoc)
  have nm: "parse_name False ?l 0 = Some (''dynmemstart'', 12)" using parse_name_tok [OF d0 key] by simp
  have pv: "value_name (s_macros s) ?l 0 = Some (''dynmemstart'', NAME_DYNMEM_START, ?l, 12)"
    by (subst value_name_unfold) (simp add: nm classify_def is_prefix_def)
  have p1: "parse_name False ?l 12 = Some (d_name d, ?p2)" by (rule parse_name_tok [OF d1 n])
  have p2: "parse_u32_value ?l ?p2 = Some (of_nat ?v, ?p3)" by (rule parse_u32_tok [OF d2 sz])
  have p3: "parse_plain_addr w ?l ?p3 = Some (e_code_addr d, ?p4)" for w
    using parse_addr_tok [OF d3] by (simp add: parse_plain_addr_def)
  have p4: "parse_plain_addr w ?l ?p4 = Some (e_stack_offs d, length ?l)" for w
    using parse_addr_end [OF d4] by (simp add: parse_plain_addr_def)
  have lib: "parse_pic_lib ?l (length ?l) = []" by (simp add: parse_pic_lib_def)
  have cast: "ucast (of_nat ?v :: u32) = e_mem_size d"
  proof -
    have "ucast (of_nat n :: u32) = (of_nat n :: 64 word)" if "n < 2 ^ 32" for n
      using that by (simp add: unsigned_of_nat take_bit_nat_eq_self)
    from this [OF sz] show ?thesis by simp
  qed
  have es: "parse_essentials w ?l ?p2 = Some \<lparr>e_mem_size = e_mem_size d, e_code_addr = e_code_addr d,
     e_code_offs = e_code_addr d, e_stack_offs = e_stack_offs d, e_lib = Some []\<rparr>" for w
    unfolding parse_essentials_def p2 parse_site_def bind.bind_lunit prod.case p3 p4 lib cast ..
  have pd: "parse_dynmem False (s_w s) ?l lnr 12 = Some (read_class d lnr, ?p2)"
    using es by (simp add: parse_dynmem_def p1 read_class_def)
  have ne: "?l \<noteq> [] \<and> hd ?l \<noteq> CHR ''#''" by (simp add: dynmem_line_def)
  show ?thesis
    using ne s unfolding parse_line_def
    by (simp add: pv check_that_def start_dynmem_def pd add_class_def Let_def)
qed

subsection \<open>From end to end\<close>

text \<open>The script reports every class; the lines of the classes and options are not the last one.\<close>

definition reported :: "adp_res list \<Rightarrow> world \<Rightarrow> bool" where
  "reported rs w \<longleftrightarrow> rs \<noteq> [] \<and> length rs < 2 ^ 32 \<and> distinct (map fst rs) \<and> fst ` set rs = d_name ` set (w_dyn w) \<and>
     (\<forall>d \<in> set (w_dyn w). adp_name_ok (d_name d) \<and> d_adp_addr d = 0)"

definition lines_ok :: "cli \<Rightarrow> (string \<times> string) option \<Rightarrow> string list \<Rightarrow> bool" where
  "lines_ok opt hdr ls \<longleftrightarrow> ls \<noteq> [] \<and> List.last ls = [] \<and> (\<forall>l \<in> set (head_lines hdr opt ls). NL \<notin> set l) \<and>
     distinct (map d_cfg_line (w_dyn (o_w opt))) \<and>
     (\<forall>d \<in> set (w_dyn (o_w opt)). Suc (unat (d_cfg_line d)) < length ls \<and> unat (d_cfg_line d) \<noteq> o_adp_req_line opt) \<and>
     Suc (o_adp_req_line opt) < length ls \<and> Suc (o_binpath_line opt) < length ls"

definition adaptable :: "cli \<Rightarrow> (string \<times> string) option \<Rightarrow> adp_res list \<Rightarrow> string list \<Rightarrow> bool" where
  "adaptable opt hdr rs ls \<longleftrightarrow> o_do_adapt opt \<and> o_adp_script opt \<noteq> [] \<and> classes_ok (o_w opt) \<and>
     distinct (dyn_visits None (w_cfg (o_w opt))) \<and> reported rs (o_w opt) \<and> head_ok hdr opt ls \<and> lines_ok opt hdr ls"

lemma fold_set_adp:
  assumes "distinct (map fst rs)" "(d_name d, sz, a) \<in> set rs"
  shows "fold set_adp rs d = d\<lparr>d_adp_size := sz, d_adp_addr := a\<rparr>"
proof -
  have keep: "d_name e \<notin> fst ` set xs \<Longrightarrow> fold set_adp xs e = e" for xs e
    by (induction xs) (auto simp: set_adp_def)
  show ?thesis
    using assms
  proof (induction rs arbitrary: d)
    case Nil
    from Nil.prems(2) show ?case by (simp only: list.set empty_iff)
  next
    case (Cons x rs)
    show ?case
    proof (cases "x = (d_name d, sz, a)")
      case True
      with Cons.prems(1) have "d_name d \<notin> fst ` set rs" by simp
      then have "fold set_adp rs (d\<lparr>d_adp_size := sz, d_adp_addr := a\<rparr>) = d\<lparr>d_adp_size := sz, d_adp_addr := a\<rparr>"
        by (intro keep) simp
      moreover have "set_adp x d = d\<lparr>d_adp_size := sz, d_adp_addr := a\<rparr>" using True by (simp add: set_adp_def)
      ultimately show ?thesis by simp
    next
      case False
      with Cons.prems(2) have m: "(d_name d, sz, a) \<in> set rs" by auto
      with Cons.prems(1) have "fst x \<noteq> d_name d" by (force simp: rev_image_eqI)
      then have "set_adp x d = d" by (cases x) (auto simp: set_adp_def)
      with Cons.IH [OF _ m] Cons.prems(1) show ?thesis by simp
    qed
  qed
qed

lemma fold_set_adp_static:
  "d_cfg_line (fold set_adp rs d) = d_cfg_line d \<and> d_name (fold set_adp rs d) = d_name d \<and>
   e_stack_offs (fold set_adp rs d) = e_stack_offs d"
proof (induction rs arbitrary: d)
  case (Cons x rs)
  have "d_cfg_line (set_adp x d) = d_cfg_line d \<and> d_name (set_adp x d) = d_name d \<and> e_stack_offs (set_adp x d) = e_stack_offs d"
    by (cases x) (simp add: set_adp_def)
  with Cons [of "set_adp x d"] show ?case by simp
qed simp

lemma dynmem_line_NL: "name_ok (d_name d) \<Longrightarrow> NL \<notin> set (dynmem_line d)"
proof -
  assume "name_ok (d_name d)"
  moreover have "\<not> name_char NL" by (simp add: name_char_def c_isalnum_def c_isalpha_def c_isupper_def c_islower_def c_isdigit_def)
  ultimately have "NL \<notin> set (d_name d)" unfolding name_ok_def by blast
  moreover have "NL \<notin> set (pr_dec n)" for n using pr_dec_digits [of n] by (auto simp: c_isdigit_def)
  moreover have "NL \<notin> set (pr_hex w)" for w using pr_hex_chars [of NL w] digit_not_special(8) by blast
  ultimately show ?thesis by (simp add: dynmem_line_def pr_ul_def)
qed

text \<open>The lines that are written and read again.\<close>

lemma adaptation_run:
  assumes A: "adaptable opt hdr rs ls" and short: "length (adp_output hdr rs) < PIPE_BUF"
  shows "\<exists>txt opt' ls'. process_adaptation False ch (adp_output hdr rs) True opt ls = Some (0, Some txt, opt') \<and>
    split_lines [] txt = ls' \<and> length ls' = length ls \<and>
    o_preload_lib opt' = Some ''libmemhack64.so'' \<and> \<not> o_do_adapt opt' \<and>
    length (w_dyn (o_w opt')) = length (w_dyn (o_w opt)) \<and>
    (\<forall>di < length (w_dyn (o_w opt)). \<exists>sz a. (d_name (w_dyn (o_w opt) ! di), sz, a) \<in> set rs \<and>
       w_dyn (o_w opt') ! di = taken ((w_dyn (o_w opt) ! di)\<lparr>d_adp_size := sz, d_adp_addr := a\<rparr>) \<and>
       ls' ! line_of (o_w opt) di = dynmem_line (w_dyn (o_w opt') ! di)) \<and>
    (\<forall>j < length ls. j \<notin> line_of (o_w opt) ` {..<length (w_dyn (o_w opt))} \<and> j \<noteq> o_adp_req_line opt \<longrightarrow>
       ls' ! j = head_lines hdr opt ls ! j) \<and>
    (0 < o_adp_req_line opt \<longrightarrow> ls' ! o_adp_req_line opt = ''adapt_required 0'')"
proof -
  let ?w = "o_w opt" and ?dyn = "w_dyn (o_w opt)" and ?hl = "head_lines hdr opt ls" and ?req = "o_adp_req_line opt"
  have ok: "classes_ok ?w" and hd: "head_ok hdr opt ls" and rep: "reported rs ?w" and lo: "lines_ok opt hdr ls"
    and dv: "distinct (dyn_visits None (w_cfg ?w))" and da: "o_do_adapt opt" "o_adp_script opt \<noteq> []"
    using A by (simp_all add: adaptable_def)
  have hit: "\<exists>di < length ?dyn. d_name (?dyn ! di) = fst y \<and> d_adp_addr (?dyn ! di) = 0" "adp_name_ok (fst y)"
    if "y \<in> set rs" for y
  proof -
    have "fst y \<in> d_name ` set ?dyn" using rep that by (auto simp: reported_def)
    then obtain di where di: "di < length ?dyn" "d_name (?dyn ! di) = fst y" by (auto simp: in_set_conv_nth)
    have "adp_name_ok (d_name (?dyn ! di)) \<and> d_adp_addr (?dyn ! di) = 0"
      using rep nth_mem [OF di(1)] by (simp add: reported_def)
    with di show "\<exists>di < length ?dyn. d_name (?dyn ! di) = fst y \<and> d_adp_addr (?dyn ! di) = 0"
      "adp_name_ok (fst y)" by auto
  qed
  have pr: "parse_adapt_result (adp_output hdr rs) opt ls =
      Some (Inr ((head_opt hdr opt)\<lparr>o_w := ?w\<lparr>w_dyn := map (fold set_adp rs) ?dyn\<rparr>\<rparr>, ?hl))"
    using adapt_result_read [OF ok hd] rep hit by (simp add: reported_def)
  let ?w1 = "?w\<lparr>w_dyn := map (fold set_adp rs) ?dyn\<rparr>"
  let ?dis = "dyn_visits None (w_cfg ?w)"
  have dis: "set ?dis = {..<length ?dyn}"
    using set_dyn_visits [of None "w_cfg ?w"] ok by (auto simp: classes_ok_def)
  have line: "line_of ?w1 di = line_of ?w di" if "di < length ?dyn" for di
    using that fold_set_adp_static [of rs "?dyn ! di"] by (simp add: line_of_def)
  have lt: "Suc (line_of ?w di) < length ls" "line_of ?w di \<noteq> ?req" if "di < length ?dyn" for di
    using lo nth_mem [OF that] by (auto simp: lines_ok_def line_of_def)
  have inj: "inj_on (line_of ?w) (set ?dis)"
  proof (rule inj_onI)
    fix i j assume ij: "i \<in> set ?dis" "j \<in> set ?dis" "line_of ?w i = line_of ?w j"
    then have "d_cfg_line (?dyn ! i) = d_cfg_line (?dyn ! j)" by (simp add: line_of_def word_unat_eq_iff)
    with ij dis lo show "i = j" by (auto simp: lines_ok_def distinct_conv_nth)
  qed
  have "\<exists>ds ls'. fold_opt take_over_class ?dis (?w1, ?hl) = Some (?w1\<lparr>w_dyn := ds\<rparr>, ls') \<and>
    length ds = length (w_dyn ?w1) \<and> length ls' = length ?hl \<and>
    (\<forall>i < length (w_dyn ?w1). ds ! i = (if i \<in> set ?dis then taken (w_dyn ?w1 ! i) else w_dyn ?w1 ! i)) \<and>
    (\<forall>di \<in> set ?dis. ls' ! line_of ?w1 di = dynmem_line (taken (w_dyn ?w1 ! di))) \<and>
    (\<forall>j. j \<notin> line_of ?w1 ` set ?dis \<longrightarrow> ls' ! j = ?hl ! j)"
  proof (rule take_over_classes [OF dv])
    show "\<forall>di \<in> set ?dis. di < length (w_dyn ?w1) \<and> line_of ?w1 di < length ?hl"
      using dis line lt(1) by (auto dest: Suc_lessD)
    show "inj_on (line_of ?w1) (set ?dis)" using inj dis line by (simp add: inj_on_def)
  qed
  then obtain ds ls1 where f: "fold_opt take_over_class ?dis (?w1, ?hl) = Some (?w1\<lparr>w_dyn := ds\<rparr>, ls1)"
    and len: "length ds = length ?dyn" "length ls1 = length ls"
    and ds: "\<And>i. i < length ?dyn \<Longrightarrow> ds ! i = taken (fold set_adp rs (?dyn ! i))"
    and ls1: "\<And>di. di < length ?dyn \<Longrightarrow> ls1 ! line_of ?w di = dynmem_line (ds ! di)"
      "\<And>j. j \<notin> line_of ?w ` {..<length ?dyn} \<Longrightarrow> ls1 ! j = ?hl ! j"
    unfolding dis using line by (auto simp: image_iff)
  define nls where "nls = (if 0 < ?req then ls1[?req := ''adapt_required 0''] else ls1)"
  let ?txt = "concat (map (\<lambda>l. l @ [NL]) (butlast nls))"
  have req: "Suc ?req < length ls" using lo by (simp add: lines_ok_def)
  have ls2: "length nls = length ls" "nls ! j = (if 0 < ?req \<and> j = ?req then ''adapt_required 0'' else ls1 ! j)"
    if "j < length ls" for j
    using that len(2) by (auto simp: nth_list_update nls_def)
  have len2: "length nls = length ls" using len(2) by (simp add: nls_def)
  have ne1: "ls1 \<noteq> []" using len(2) req by auto
  have ne: "nls \<noteq> []" using len2 lo unfolding lines_ok_def by (metis length_0_conv)
  have NLs: "NL \<notin> set (nls ! j)" if j: "j < length ls" for j
  proof -
    have "NL \<notin> set (ls1 ! j)"
    proof (cases "j \<in> line_of ?w ` {..<length ?dyn}")
      case True
      then obtain di where di: "di < length ?dyn" "j = line_of ?w di" by auto
      have "d_name (ds ! di) = d_name (?dyn ! di)"
        using ds [OF di(1)] fold_set_adp_static [of rs "?dyn ! di"] by (simp add: taken_def)
      then have "name_ok (d_name (ds ! di))"
        using rep nth_mem [OF di(1)] by (simp add: reported_def adp_name_ok_def)
      from dynmem_line_NL [OF this] show ?thesis using ls1(1) [OF di(1)] di(2) by simp
    next
      case False
      with ls1(2) lo j show ?thesis by (simp add: lines_ok_def)
    qed
    then show ?thesis using ls2(2) [OF j] by simp
  qed
  let ?last = "length ls - 1"
  have "nls ! ?last = []"
  proof -
    have l: "?last < length ls" "?last \<noteq> ?req" "0 < ?last" using req by auto
    have "?last \<notin> line_of ?w ` {..<length ?dyn}" using lt(1) by fastforce
    then have "ls1 ! ?last = ?hl ! ?last" by (rule ls1(2))
    also have "\<dots> = ls ! ?last"
      using l(3) lo by (auto simp: head_lines_def lines_ok_def split: option.split)
    also have "\<dots> = []" using lo last_conv_nth [of ls] by (simp add: lines_ok_def)
    finally show ?thesis using ls2(2) [OF l(1)] l(2) by simp
  qed
  then have last: "List.last nls = []" using ne len2 by (simp add: last_conv_nth)
  have "\<forall>l \<in> set (butlast nls). NL \<notin> set l"
    using NLs len2 by (metis in_set_butlastD in_set_conv_nth)
  from split_written [OF this] have sp: "split_lines [] ?txt = nls"
    using append_butlast_last_id [OF ne] last by simp
  have to: "take_over_config True ((head_opt hdr opt)\<lparr>o_w := ?w1\<rparr>) ?hl =
      Some (0, Some ?txt, use_libmemhack (((head_opt hdr opt)\<lparr>o_w := ?w1\<lparr>w_dyn := ds\<rparr>\<rparr>)\<lparr>o_do_adapt := False, o_disc_str := []\<rparr>))"
    using f req len(2) ne1 by (simp add: take_over_config_def set_line_def vset_def write_config_vect_def Let_def nls_def)
  let ?opt' = "use_libmemhack (((head_opt hdr opt)\<lparr>o_w := ?w1\<lparr>w_dyn := ds\<rparr>\<rparr>)\<lparr>o_do_adapt := False, o_disc_str := []\<rparr>)"
  have "1 < length (adp_output hdr rs)" by (simp add: adp_output_def)
  then have out: "run_cmd_pipe (adp_output hdr rs) PIPE_BUF = Some (adp_output hdr rs)"
    using short by (simp add: run_cmd_pipe_def)
  have run: "process_adaptation False ch (adp_output hdr rs) True opt ls = Some (0, Some ?txt, ?opt')"
    using da pr to out by (simp add: process_adaptation_def adapt_config_def Let_def)
  have dyn': "w_dyn (o_w ?opt') = ds" by (simp add: use_libmemhack_def)
  have c1: "\<exists>sz a. (d_name (?dyn ! di), sz, a) \<in> set rs \<and> ds ! di = taken ((?dyn ! di)\<lparr>d_adp_size := sz, d_adp_addr := a\<rparr>) \<and>
       nls ! line_of ?w di = dynmem_line (ds ! di)" if di: "di < length ?dyn" for di
  proof -
    have "d_name (?dyn ! di) \<in> fst ` set rs" using rep nth_mem [OF di] by (auto simp: reported_def)
    then obtain sz a where m: "(d_name (?dyn ! di), sz, a) \<in> set rs" by auto
    have "distinct (map fst rs)" using rep by (simp add: reported_def)
    from fold_set_adp [OF this m] ds [OF di] ls1(1) [OF di] ls2(2) [of "line_of ?w di"] lt [OF di] m show ?thesis by auto
  qed
  have c2: "nls ! j = ?hl ! j" if "j < length ls" "j \<notin> line_of ?w ` {..<length ?dyn} \<and> j \<noteq> ?req" for j
    using that ls2(2) [of j] ls1(2) [of j] by simp
  have c3: "0 < ?req \<Longrightarrow> nls ! ?req = ''adapt_required 0''" using ls2(2) [of ?req] req by simp
  have lib: "o_preload_lib ?opt' = Some ''libmemhack64.so''" "\<not> o_do_adapt ?opt'"
    by (simp_all add: use_libmemhack_def LHACK_PRE_def LIB_END_def)
  show ?thesis
  proof (rule exI [of _ ?txt], rule exI [of _ ?opt'], rule exI [of _ nls], intro conjI allI impI)
    show "process_adaptation False ch (adp_output hdr rs) True opt ls = Some (0, Some ?txt, ?opt')" by (rule run)
    show "split_lines [] ?txt = nls" by (rule sp)
    show "length nls = length ls" by (rule len2)
    show "o_preload_lib ?opt' = Some ''libmemhack64.so''" "\<not> o_do_adapt ?opt'" by (rule lib)+
    show "length (w_dyn (o_w ?opt')) = length ?dyn" unfolding dyn' by (rule len(1))
    show "\<exists>sz a. (d_name (?dyn ! di), sz, a) \<in> set rs \<and>
        w_dyn (o_w ?opt') ! di = taken ((?dyn ! di)\<lparr>d_adp_size := sz, d_adp_addr := a\<rparr>) \<and>
        nls ! line_of ?w di = dynmem_line (w_dyn (o_w ?opt') ! di)" if "di < length ?dyn" for di
      unfolding dyn' by (rule c1 [OF that])
  qed (rule c2 c3; assumption)+
qed

text \<open>The class that has been taken over, and its line.\<close>

lemma taken_class_read:
  assumes A: "adaptable opt hdr rs ls" and di: "di < length (w_dyn (o_w opt))"
    and ex: "\<exists>sz a. (d_name (w_dyn (o_w opt) ! di), sz, a) \<in> set rs \<and>
       d' = taken ((w_dyn (o_w opt) ! di)\<lparr>d_adp_size := sz, d_adp_addr := a\<rparr>) \<and> l = dynmem_line d'"
  shows "\<exists>sz a. (d_name (w_dyn (o_w opt) ! di), sz, a) \<in> set rs \<and>
     d_name d' = d_name (w_dyn (o_w opt) ! di) \<and> e_mem_size d' = ucast sz \<and>
     e_code_addr d' = a \<and> e_stack_offs d' = e_stack_offs (w_dyn (o_w opt) ! di) \<and>
     (\<forall>lnr s. outside s \<longrightarrow> parse_line lnr l s = Some (add_class (read_class d' lnr) s))"
proof -
  from ex obtain sz a where x: "(d_name (w_dyn (o_w opt) ! di), sz, a) \<in> set rs"
    "d' = taken ((w_dyn (o_w opt) ! di)\<lparr>d_adp_size := sz, d_adp_addr := a\<rparr>)" "l = dynmem_line d'" by blast
  have "adp_name_ok (d_name (w_dyn (o_w opt) ! di))"
    using A nth_mem [OF di] by (simp add: adaptable_def reported_def)
  then have n: "name_ok (d_name d')" using x(2) by (simp add: taken_def adp_name_ok_def)
  have "unat (ucast sz :: 64 word) \<le> unat sz" by (simp add: unsigned_ucast_eq)
  then have "unat (ucast sz :: 64 word) < 2 ^ 32" using unat_lt_32 [of sz] by simp
  then have "unat (e_mem_size d') < 2 ^ 32" using x(2) by (simp add: taken_def)
  from dynmem_line_read [OF n this] x show ?thesis by (intro exI [of _ sz] exI [of _ a]) (simp add: taken_def)
qed

lemma adaptation_read:
  assumes "adaptable opt hdr rs ls" "length (adp_output hdr rs) < PIPE_BUF"
  shows "\<exists>tx opt' ls'. process_adaptation False ch (adp_output hdr rs) True opt ls = Some (0, Some tx, opt') \<and>
    split_lines [] tx = ls' \<and> length ls' = length ls \<and> o_preload_lib opt' = Some ''libmemhack64.so'' \<and>
    (\<forall>di < length (w_dyn (o_w opt)). \<exists>sz a. (d_name (w_dyn (o_w opt) ! di), sz, a) \<in> set rs \<and>
       d_name (w_dyn (o_w opt') ! di) = d_name (w_dyn (o_w opt) ! di) \<and> e_mem_size (w_dyn (o_w opt') ! di) = ucast sz \<and>
       e_code_addr (w_dyn (o_w opt') ! di) = a \<and> e_stack_offs (w_dyn (o_w opt') ! di) = e_stack_offs (w_dyn (o_w opt) ! di) \<and>
       (\<forall>lnr s. outside s \<longrightarrow> parse_line lnr (ls' ! line_of (o_w opt) di) s =
          Some (add_class (read_class (w_dyn (o_w opt') ! di) lnr) s))) \<and>
    (\<forall>j < length ls. j \<notin> line_of (o_w opt) ` {..<length (w_dyn (o_w opt))} \<and> j \<noteq> o_adp_req_line opt \<longrightarrow>
       ls' ! j = head_lines hdr opt ls ! j) \<and>
    (0 < o_adp_req_line opt \<longrightarrow> ls' ! o_adp_req_line opt = ''adapt_required 0'')"
proof -
  define P where "P tx opt' ls' \<longleftrightarrow> process_adaptation False ch (adp_output hdr rs) True opt ls = Some (0, Some tx, opt') \<and>
    split_lines [] tx = ls' \<and> length ls' = length ls \<and>
    o_preload_lib opt' = Some ''libmemhack64.so'' \<and> \<not> o_do_adapt opt' \<and>
    length (w_dyn (o_w opt')) = length (w_dyn (o_w opt)) \<and>
    (\<forall>di < length (w_dyn (o_w opt)). \<exists>sz a. (d_name (w_dyn (o_w opt) ! di), sz, a) \<in> set rs \<and>
       w_dyn (o_w opt') ! di = taken ((w_dyn (o_w opt) ! di)\<lparr>d_adp_size := sz, d_adp_addr := a\<rparr>) \<and>
       ls' ! line_of (o_w opt) di = dynmem_line (w_dyn (o_w opt') ! di)) \<and>
    (\<forall>j < length ls. j \<notin> line_of (o_w opt) ` {..<length (w_dyn (o_w opt))} \<and> j \<noteq> o_adp_req_line opt \<longrightarrow>
       ls' ! j = head_lines hdr opt ls ! j) \<and>
    (0 < o_adp_req_line opt \<longrightarrow> ls' ! o_adp_req_line opt = ''adapt_required 0'')" for tx opt' ls'
  obtain tx opt' ls' where "P tx opt' ls'"
    using adaptation_run [OF assms, of ch] unfolding P_def [symmetric] by (elim exE)
  then have run: "process_adaptation False ch (adp_output hdr rs) True opt ls = Some (0, Some tx, opt')"
      "split_lines [] tx = ls'" "length ls' = length ls" "o_preload_lib opt' = Some ''libmemhack64.so''"
    and cl: "\<forall>di < length (w_dyn (o_w opt)). \<exists>sz a. (d_name (w_dyn (o_w opt) ! di), sz, a) \<in> set rs \<and>
       w_dyn (o_w opt') ! di = taken ((w_dyn (o_w opt) ! di)\<lparr>d_adp_size := sz, d_adp_addr := a\<rparr>) \<and>
       ls' ! line_of (o_w opt) di = dynmem_line (w_dyn (o_w opt') ! di)"
    and rest: "\<forall>j < length ls. j \<notin> line_of (o_w opt) ` {..<length (w_dyn (o_w opt))} \<and> j \<noteq> o_adp_req_line opt \<longrightarrow>
       ls' ! j = head_lines hdr opt ls ! j" "0 < o_adp_req_line opt \<longrightarrow> ls' ! o_adp_req_line opt = ''adapt_required 0''"
    unfolding P_def by - (elim conjE, assumption)+
  show ?thesis
  proof (rule exI [of _ tx], rule exI [of _ opt'], rule exI [of _ ls'], intro conjI)
    show "\<forall>di < length (w_dyn (o_w opt)). \<exists>sz a. (d_name (w_dyn (o_w opt) ! di), sz, a) \<in> set rs \<and>
       d_name (w_dyn (o_w opt') ! di) = d_name (w_dyn (o_w opt) ! di) \<and> e_mem_size (w_dyn (o_w opt') ! di) = ucast sz \<and>
       e_code_addr (w_dyn (o_w opt') ! di) = a \<and> e_stack_offs (w_dyn (o_w opt') ! di) = e_stack_offs (w_dyn (o_w opt) ! di) \<and>
       (\<forall>lnr s. outside s \<longrightarrow> parse_line lnr (ls' ! line_of (o_w opt) di) s =
          Some (add_class (read_class (w_dyn (o_w opt') ! di) lnr) s))"
    proof (intro allI impI)
      fix di assume di: "di < length (w_dyn (o_w opt))"
      show "\<exists>sz a. (d_name (w_dyn (o_w opt) ! di), sz, a) \<in> set rs \<and>
         d_name (w_dyn (o_w opt') ! di) = d_name (w_dyn (o_w opt) ! di) \<and> e_mem_size (w_dyn (o_w opt') ! di) = ucast sz \<and>
         e_code_addr (w_dyn (o_w opt') ! di) = a \<and> e_stack_offs (w_dyn (o_w opt') ! di) = e_stack_offs (w_dyn (o_w opt) ! di) \<and>
         (\<forall>lnr s. outside s \<longrightarrow> parse_line lnr (ls' ! line_of (o_w opt) di) s =
            Some (add_class (read_class (w_dyn (o_w opt') ! di) lnr) s))"
        by (rule taken_class_read [OF assms(1) di cl [rule_format, OF di]])
    qed
  qed (fact run rest)+
qed

end
