(* ===== verification/DumpInv.thy ===== *)
theory DumpInv
  imports Dump ProcessFun
begin

text \<open>
  What a dump leaves behind: the list of the memory areas that are to be dumped, and the proof that
  each of them ends up in a file of its own, with the dump before kept as its backup. This is
  about the names of the files as much as about the loops.
\<close>

subsection \<open>The names are different\<close>

abbreviation dump_file :: "string \<Rightarrow> u32 \<Rightarrow> u32 \<Rightarrow> string" where
  "dump_file prefix m i \<equiv> dump_name prefix m i @ ''.dump''"

abbreviation dump_backup :: "string \<Rightarrow> u32 \<Rightarrow> u32 \<Rightarrow> string" where
  "dump_backup prefix m i \<equiv> dump_name prefix m i @ ''~.dump''"

text \<open>The number of the object with at least three digits.\<close>

definition pad3 :: "u32 \<Rightarrow> string" where
  "pad3 i = (if i < 100 then ''0'' else []) @ (if i < 10 then ''0'' else []) @ pr_u32 i"

lemma dump_name_parts: "dump_name prefix m i = prefix @ pr_u32 m @ CHR ''_'' # pad3 i"
  by (simp add: dump_name_def pad3_def)

lemma num_value_0: "num_value 10 (CHR ''0'' # s) = num_value 10 s"
  by (simp add: num_value_def digit_val_def c_isdigit_def)

lemma num_value_names: "num_value 10 (pr_u32 m) = unat m" "num_value 10 (pad3 i) = unat i"
  by (simp_all add: pad3_def num_value_0 pr_u32_def pr_dec_def num_value_digits)

lemma name_digits: "\<forall>c \<in> set (pr_u32 m). is_digit 10 c" "\<forall>c \<in> set (pad3 i). is_digit 10 c"
proof -
  have "is_digit 10 (CHR ''0'')" by (simp add: is_digit_def digit_val_def c_isdigit_def)
  with digits_are_digits [of 10]
  show "\<forall>c \<in> set (pr_u32 m). is_digit 10 c" "\<forall>c \<in> set (pad3 i). is_digit 10 c"
    by (auto simp: pad3_def pr_u32_def pr_dec_def)
qed

lemma name_not_Nil: "pr_u32 m \<noteq> []" "pad3 i \<noteq> []"
  by (simp_all add: pad3_def pr_u32_def pr_dec_def)

lemma digit_others: "is_digit 10 c \<Longrightarrow> c \<noteq> CHR ''_'' \<and> c \<noteq> CHR ''~'' \<and> c \<noteq> CHR ''m'' \<and> c \<noteq> CHR ''p'' \<and> c \<noteq> CHR ''s''"
  by (auto simp: is_digit_def digit_val_def c_isdigit_def c_isupper_def c_islower_def)

definition kinds :: "string set" where "kinds = {[], ''p'', ''s''}"

lemma dump_name_inj:
  assumes eq: "dump_name p m i = dump_name p' m' i'" and k: "p \<in> kinds" "p' \<in> kinds"
  shows "p = p' \<and> m = m' \<and> i = i'"
proof -
  have d: "hd (pr_u32 x) \<noteq> CHR ''p'' \<and> hd (pr_u32 x) \<noteq> CHR ''s''" for x
    using name_digits(1) [of x] name_not_Nil(1) [of x] digit_others by (cases "pr_u32 x") auto
  have p: "p = p'"
    using eq k d [of m] d [of m'] name_not_Nil(1) [of m] name_not_Nil(1) [of m']
    by (cases "pr_u32 m"; cases "pr_u32 m'") (auto simp: kinds_def dump_name_parts)
  then have e: "pr_u32 m @ CHR ''_'' # pad3 i = pr_u32 m' @ CHR ''_'' # pad3 i'" using eq by (simp add: dump_name_parts)
  have n: "CHR ''_'' \<notin> set (pr_u32 x)" for x using name_digits(1) [of x] digit_others by auto
  have m: "pr_u32 m = pr_u32 m'"
    using arg_cong [OF e, of "takeWhile (\<lambda>c. c \<noteq> CHR ''_'')"] takeWhile_stop [OF n] by simp
  with e have "pad3 i = pad3 i'" by simp
  with m num_value_names(1) [of m] num_value_names(1) [of m'] num_value_names(2) [of i] num_value_names(2) [of i']
  have "unat m = unat m'" "unat i = unat i'" by simp_all
  with p show ?thesis by (simp add: word_unat_eq_iff)
qed

lemma dump_name_last: "last (dump_name p m i) \<noteq> CHR ''~''"
  using name_digits(2) [of i] name_not_Nil(2) [of i] digit_others last_in_set [of "pad3 i"]
  by (auto simp: dump_name_parts)

lemma file_not_backup: "dump_file p m i \<noteq> dump_backup p' m' i'"
proof
  assume "dump_file p m i = dump_backup p' m' i'"
  then have "dump_name p m i @ ''.dump'' = (dump_name p' m' i' @ ''~'') @ ''.dump''" by simp
  then have "dump_name p m i = dump_name p' m' i' @ ''~''" by (simp only: append_same_eq)
  with dump_name_last [of p m i] show False by simp
qed

text \<open>The files of different areas, and those of the memory maps, have nothing in common.\<close>

definition dump_files :: "string \<Rightarrow> u32 \<Rightarrow> u32 \<Rightarrow> string set" where
  "dump_files p m i = {dump_file p m i, dump_backup p m i}"

lemma dump_files_disjoint:
  assumes "p \<in> kinds" "p' \<in> kinds" "(p, m, i) \<noteq> (p', m', i')"
  shows "dump_files p m i \<inter> dump_files p' m' i' = {}"
  using assms dump_name_inj [of p m i p' m' i'] file_not_backup [of p m i p' m' i']
    file_not_backup [of p' m' i' p m i] by (auto simp: dump_files_def)

lemma maps_not_dump: "f \<in> dump_files p m i \<Longrightarrow> p \<in> kinds \<Longrightarrow> f \<noteq> ''maps.dump.txt'' \<and> f \<noteq> ''maps~.dump.txt''"
proof -
  assume f: "f \<in> dump_files p m i" and p: "p \<in> kinds"
  have "hd (dump_name p m i) \<noteq> CHR ''m''" "dump_name p m i \<noteq> []"
    using p name_digits(1) [of m] name_not_Nil(1) [of m] digit_others
    by (cases "pr_u32 m"; auto simp: dump_name_parts kinds_def)+
  with f have "hd f \<noteq> CHR ''m''" by (auto simp: dump_files_def)
  then show ?thesis by auto
qed

subsection \<open>One dump\<close>

lemma back_up_frame: "back_up env f b fs = Some fs' \<Longrightarrow> x \<notin> {f, b} \<Longrightarrow> fs' x = fs x"
  by (auto simp: back_up_def split: option.splits if_splits)

lemma dump_mem_obj_frame: "x \<notin> dump_files p m i \<Longrightarrow> dump_mem_obj env mem p m i a n fs x = fs x"
  using back_up_frame [of env "dump_file p m i" "dump_backup p m i" fs _ x]
  by (auto simp: dump_mem_obj_def Let_def dump_files_def split: prod.split option.split)

lemma dump_maps_frame: "x \<notin> {''maps.dump.txt'', ''maps~.dump.txt''} \<Longrightarrow> dump_maps env maps fs x = fs x"
  using back_up_frame [of env "''maps.dump.txt''" "''maps~.dump.txt''" fs _ x]
  by (auto simp: dump_maps_def split: option.split)

text \<open>An area of mapped memory, and an operating system that does what it is asked for its file.\<close>

definition can_dump :: "dump_env \<Rightarrow> gmem \<Rightarrow> string \<Rightarrow> ptr \<Rightarrow> 64 word \<Rightarrow> bool" where
  "can_dump env mem f a n \<longleftrightarrow> a \<noteq> 0 \<and> n \<noteq> 0 \<and> mapped mem a (unat n) \<and>
     de_attach env f \<and> de_rename env f \<and> de_open env f \<and> unat n \<le> de_write env f"

lemma dump_mem_obj_at:
  assumes "can_dump env mem (dump_file p m i) a n"
  shows "dump_mem_obj env mem p m i a n fs (dump_file p m i) = Some (mem_at mem a (unat n))"
    "dump_mem_obj env mem p m i a n fs (dump_backup p m i) =
       (if fs (dump_file p m i) = None then fs (dump_backup p m i) else fs (dump_file p m i))"
proof -
  have r: "memread mem a (unat n) = (mem_at mem a (unat n), True)"
    using assms by (simp add: can_dump_def memread_def read_upto_mapped unat_eq_zero Let_def)
  have b: "back_up env (dump_file p m i) (dump_backup p m i) fs =
      Some (case fs (dump_file p m i) of None \<Rightarrow> fs
        | Some old \<Rightarrow> (fs(dump_backup p m i \<mapsto> old))(dump_file p m i := None))"
    using assms by (simp add: can_dump_def back_up_def split: option.split)
  show "dump_mem_obj env mem p m i a n fs (dump_file p m i) = Some (mem_at mem a (unat n))"
    using assms r b by (simp add: dump_mem_obj_def Let_def can_dump_def)
  show "dump_mem_obj env mem p m i a n fs (dump_backup p m i) =
       (if fs (dump_file p m i) = None then fs (dump_backup p m i) else fs (dump_file p m i))"
    using assms r b file_not_backup [of p m i p m i] by (auto simp: dump_mem_obj_def Let_def can_dump_def split: option.split)
qed

subsection \<open>All dumps\<close>

text \<open>
  The areas in the order of the loops: kind, number of the class, the pointer or the area, number
  of the object, address and size. Classes are numbered by their first entry, pointers by the
  entries that are one; a pointer counts if its value is known and has settled.
\<close>

type_synonym dump_job = "string \<times> u32 \<times> u32 \<times> ptr \<times> 64 word"

definition class_job :: "world \<Rightarrow> nat \<Rightarrow> nat \<Rightarrow> dump_job list" where
  "class_job w k di = (let d = w_dyn w ! di in
     map (\<lambda>i. ([], of_nat k, of_nat i, d_v_maddr d ! i, d_v_msize d ! i)) [0..<length (d_v_maddr d)])"

definition ptr_job :: "ptrmem_entry \<Rightarrow> nat \<Rightarrow> nat \<Rightarrow> value_t \<Rightarrow> dump_job list" where
  "ptr_job p k i v = (if v \<noteq> 0 \<and> p_v_state p ! i \<noteq> PTR_INIT then [(''p'', of_nat k, of_nat i, v, p_mem_size p)] else [])"

definition ptr_jobs :: "world \<Rightarrow> nat \<Rightarrow> nat \<Rightarrow> dump_job list" where
  "ptr_jobs w k ci = (let c = w_cfg w ! ci; p = w_ptr w ! the (c_ptrtgt c) in
     case c_dynmem c of
       None \<Rightarrow> ptr_job p k 0 (c_old_val c)
     | Some di \<Rightarrow> concat (map (\<lambda>i. ptr_job p k i (c_v_oldval c ! i)) [0..<length (d_v_maddr (w_dyn w ! di))]))"

definition area_job :: "world \<Rightarrow> nat \<Rightarrow> dump_entry \<Rightarrow> dump_job list" where
  "area_job w k u = (if (case u_lib u of None \<Rightarrow> True | Some li \<Rightarrow> l_is_loaded (w_lib w ! li))
     then [(''s'', of_nat k, 0, u_addr u, u_mem_size u)] else [])"

primrec numbered :: "(nat \<Rightarrow> 'a \<Rightarrow> dump_job list) \<Rightarrow> nat \<Rightarrow> 'a list \<Rightarrow> dump_job list" where
  "numbered f k [] = []"
| "numbered f k (x # xs) = f k x @ numbered f (Suc k) xs"

definition ptr_entries :: "world \<Rightarrow> nat list" where
  "ptr_entries w = filter (\<lambda>ci. c_ptrtgt (w_cfg w ! ci) \<noteq> None) [0..<length (w_cfg w)]"

definition dump_jobs :: "world \<Rightarrow> dump_job list" where
  "dump_jobs w = numbered (class_job w) 0 (dyn_visits None (w_cfg w)) @ numbered (ptr_jobs w) 0 (ptr_entries w) @
     numbered (area_job w) 0 (w_dump w)"

fun do_job :: "dump_env \<Rightarrow> gmem \<Rightarrow> dump_job \<Rightarrow> files \<Rightarrow> files" where
  "do_job env mem (p, m, i, a, n) fs = dump_mem_obj env mem p m i a n fs"

abbreviation do_jobs :: "dump_env \<Rightarrow> gmem \<Rightarrow> dump_job list \<Rightarrow> files \<Rightarrow> files" where
  "do_jobs env mem \<equiv> fold (do_job env mem)"

subsubsection \<open>The loops do these jobs\<close>

lemma dump_objs_jobs:
  "dump_objs env mem m va vs is fs = Some fs' \<Longrightarrow>
     fs' = do_jobs env mem (map (\<lambda>i. ([], m, of_nat i, va ! i, vs ! i)) is) fs"
  by (induction "is" arbitrary: fs) (auto simp: bind_eq_Some_conv vget_Some_iff)

lemma dump_classes_jobs:
  "dump_classes env mem w dis (of_nat k) fs = Some fs' \<Longrightarrow> fs' = do_jobs env mem (numbered (class_job w) k dis) fs"
proof (induction dis arbitrary: k fs)
  case (Cons di dis)
  from Cons.prems obtain d fs1 where d: "vget (w_dyn w) di = Some d"
    and o1: "dump_objs env mem (of_nat k) (d_v_maddr d) (d_v_msize d) [0..<length (d_v_maddr d)] fs = Some fs1"
    and c: "dump_classes env mem w dis (of_nat (Suc k)) fs1 = Some fs'"
    by (auto simp: bind_eq_Some_conv algebra_simps)
  from dump_objs_jobs [OF o1] d have "fs1 = do_jobs env mem (class_job w k di) fs"
    by (simp add: class_job_def Let_def vget_Some_iff)
  with Cons.IH [OF c] show ?case by simp
qed simp

lemma dump_ptr_jobs:
  "dump_ptr env mem (of_nat k) i v p fs = Some fs' \<Longrightarrow> fs' = do_jobs env mem (ptr_job p k i v) fs"
  by (auto simp: dump_ptr_def ptr_job_def bind_eq_Some_conv vget_Some_iff split: if_splits)

text \<open>Showing the old values of the objects changes nothing else.\<close>

definition old_only :: "nat \<Rightarrow> world \<Rightarrow> world \<Rightarrow> bool" where
  "old_only ci w w' \<longleftrightarrow> (\<exists>v. w' = w\<lparr>w_cfg := (w_cfg w)[ci := (w_cfg w ! ci)\<lparr>c_old_val := v\<rparr>]\<rparr>)"

lemma old_only_refl: "old_only ci w w"
  unfolding old_only_def by (rule exI [of _ "c_old_val (w_cfg w ! ci)"]) simp

lemma dump_ptr_objs_jobs:
  assumes "dump_ptr_objs env mem (of_nat k) ci p is (w, fs) = Some (w', fs')" "old_only ci w0 w" "ci < length (w_cfg w0)"
  shows "old_only ci w0 w' \<and> fs' = do_jobs env mem (concat (map (\<lambda>i. ptr_job p k i (c_v_oldval (w_cfg w0 ! ci) ! i)) is)) fs"
  using assms
proof (induction "is" arbitrary: w fs)
  case (Cons i "is")
  from Cons.prems(1) obtain c old w1 fs1 where c: "vget (w_cfg w) ci = Some c" "vget (c_v_oldval c) i = Some old"
    and w1: "mod_cfg ci (\<lambda>c. Some (c\<lparr>c_old_val := old\<rparr>)) w = Some w1"
    and f1: "dump_ptr env mem (of_nat k) i old p fs = Some fs1"
    and r: "dump_ptr_objs env mem (of_nat k) ci p is (w1, fs1) = Some (w', fs')"
    by (auto simp: bind_eq_Some_conv)
  have "old_only ci w0 w1" using w1 Cons.prems(2,3) by (auto simp: old_only_def mod_cfg_def bind_eq_Some_conv vget_Some_iff)
  note IH = Cons.IH [OF r this Cons.prems(3)]
  have "old = c_v_oldval (w_cfg w0 ! ci) ! i" using c Cons.prems(2,3) by (auto simp: old_only_def vget_Some_iff)
  with IH dump_ptr_jobs [OF f1] show ?case by simp
qed simp

text \<open>The entries that are still to come are those of the beginning.\<close>

lemma dump_ptrs_jobs:
  assumes "dump_ptrs env mem cis (of_nat k) (w, fs) = Some (w', fs')" "distinct cis"
    "w_dyn w = w_dyn w0" "w_ptr w = w_ptr w0" "w_dump w = w_dump w0" "w_lib w = w_lib w0"
    "\<forall>ci \<in> set cis. w_cfg w ! ci = w_cfg w0 ! ci"
  shows "fs' = do_jobs env mem (numbered (ptr_jobs w0) k (filter (\<lambda>ci. c_ptrtgt (w_cfg w0 ! ci) \<noteq> None) cis)) fs \<and>
    w_dump w' = w_dump w0 \<and> w_lib w' = w_lib w0"
  using assms
proof (induction cis arbitrary: k w fs)
  case (Cons ci cis)
  from Cons.prems(1) obtain c where c: "vget (w_cfg w) ci = Some c" by (auto simp: bind_eq_Some_conv)
  then have c0: "c = w_cfg w0 ! ci" "ci < length (w_cfg w)" using Cons.prems(7) by (auto simp: vget_Some_iff)
  show ?case
  proof (cases "c_ptrtgt c")
    case None
    with Cons c c0 show ?thesis by simp
  next
    case (Some pi)
    with Cons.prems(1) c obtain p s1 where p: "vget (w_ptr w) pi = Some p"
      and s1: "(case c_dynmem c of
            None \<Rightarrow> map_option (Pair w) (dump_ptr env mem (of_nat k) 0 (c_old_val c) p fs)
          | Some di \<Rightarrow> do {
              d \<leftarrow> vget (w_dyn w) di;
              dump_ptr_objs env mem (of_nat k) ci p [0..<length (d_v_maddr d)] (w, fs) }) = Some s1"
      and r: "dump_ptrs env mem cis (of_nat (Suc k)) s1 = Some (w', fs')"
      by (auto simp: bind_eq_Some_conv algebra_simps cong: option.case_cong)
    obtain w1 fs1 where s: "s1 = (w1, fs1)" by (cases s1)
    have p0: "p = w_ptr w0 ! pi" using p Cons.prems(4) by (simp add: vget_Some_iff)
    have "old_only ci w w1 \<and> fs1 = do_jobs env mem (ptr_jobs w0 k ci) fs"
    proof (cases "c_dynmem c")
      case None
      with s1 s Some c0 p0 dump_ptr_jobs [of env mem k 0 "c_old_val c" p fs fs1] old_only_refl
      show ?thesis by (auto simp: ptr_jobs_def Let_def)
    next
      case (Some di)
      with s1 s obtain d where d: "vget (w_dyn w) di = Some d"
        and o1: "dump_ptr_objs env mem (of_nat k) ci p [0..<length (d_v_maddr d)] (w, fs) = Some (w1, fs1)"
        by (auto simp: bind_eq_Some_conv)
      from dump_ptr_objs_jobs [OF o1 old_only_refl c0(2)] d c0 p0 Some \<open>c_ptrtgt c = Some pi\<close> Cons.prems(3,7) show ?thesis
        by (simp add: ptr_jobs_def Let_def vget_Some_iff)
    qed
    moreover from this have "w_dyn w1 = w_dyn w0" "w_ptr w1 = w_ptr w0" "w_dump w1 = w_dump w0" "w_lib w1 = w_lib w0"
      using Cons.prems(3-6) by (auto simp: old_only_def)
    moreover have "w_cfg w1 ! ci' = w_cfg w0 ! ci'" if "ci' \<in> set cis" for ci'
    proof -
      have "ci \<noteq> ci'" using that Cons.prems(2) by auto
      with calculation(1) have "w_cfg w1 ! ci' = w_cfg w ! ci'" by (auto simp: old_only_def)
      with that Cons.prems(7) show ?thesis by simp
    qed
    ultimately show ?thesis using Cons.IH [of "Suc k" w1 fs1] r s Cons.prems(2) c0 Some by simp
  qed
qed simp

lemma dump_areas_jobs:
  assumes "dump_areas env mem w us (of_nat k) fs = Some fs'"
  shows "fs' = do_jobs env mem (numbered (area_job w) k us) fs"
  using assms
proof (induction us arbitrary: k fs)
  case (Cons u us)
  let ?loaded = "case u_lib u of None \<Rightarrow> True | Some li \<Rightarrow> l_is_loaded (w_lib w ! li)"
  have "dump_areas env mem w us (of_nat (Suc k))
      (if ?loaded then dump_mem_obj env mem ''s'' (of_nat k) 0 (u_addr u) (u_mem_size u) fs else fs) = Some fs'"
    using Cons.prems by (cases "u_lib u") (auto simp: bind_eq_Some_conv vget_Some_iff algebra_simps)
  from Cons.IH [OF this] show ?case by (simp add: area_job_def)
qed simp

text \<open>The whole function does the jobs after the dump of the memory maps.\<close>

lemma dump_all_jobs:
  assumes "dump_all_mem_obj env mem maps (w, fs) = Some (w', fs')"
  shows "fs' = do_jobs env mem (dump_jobs w) (dump_maps env maps fs)"
proof -
  from assms obtain fs1 w2 fs2 where
    c: "dump_classes env mem w (dyn_visits None (w_cfg w)) (of_nat 0) (dump_maps env maps fs) = Some fs1"
    and p: "dump_ptrs env mem [0..<length (w_cfg w)] (of_nat 0) (w, fs1) = Some (w2, fs2)"
    and a: "dump_areas env mem w2 (w_dump w2) (of_nat 0) fs2 = Some fs'"
    by (auto simp: dump_all_mem_obj_def Let_def bind_eq_Some_conv)
  note p' = dump_ptrs_jobs [OF p, of w, simplified]
  have "area_job w2 = area_job w" using p' by (intro ext) (simp add: area_job_def split: option.split)
  with dump_classes_jobs [OF c] p' dump_areas_jobs [OF a] show ?thesis
    by (simp add: dump_jobs_def ptr_entries_def)
qed

subsubsection \<open>Every job has a file of its own\<close>

definition job_id :: "dump_job \<Rightarrow> string \<times> u32 \<times> u32" where
  "job_id j = (case j of (p, m, i, _) \<Rightarrow> (p, m, i))"

lemma do_jobs_frame:
  "\<forall>(p, m, i, a, n) \<in> set js. x \<notin> dump_files p m i \<Longrightarrow> do_jobs env mem js fs x = fs x"
  by (induction js arbitrary: fs) (auto simp: dump_mem_obj_frame)

lemma do_jobs_at:
  assumes d: "distinct (map job_id js)" and k: "fst ` set js \<subseteq> kinds"
    and j: "(p, m, i, a, n) \<in> set js" and can: "can_dump env mem (dump_file p m i) a n"
  shows "do_jobs env mem js fs (dump_file p m i) = Some (mem_at mem a (unat n))"
    "do_jobs env mem js fs (dump_backup p m i) =
       (if fs (dump_file p m i) = None then fs (dump_backup p m i) else fs (dump_file p m i))"
proof -
  from j obtain xs ys where js: "js = xs @ (p, m, i, a, n) # ys" by (meson split_list)
  have away: "\<forall>(p', m', i', a', n') \<in> set xs \<union> set ys. x \<notin> dump_files p' m' i'" if "x \<in> dump_files p m i" for x
  proof clarify
    fix p' m' i' a' n' assume j': "(p', m', i', a', n') \<in> set xs \<union> set ys" and x: "x \<in> dump_files p' m' i'"
    have "(p, m, i) \<noteq> (p', m', i')" using d j' by (force simp: js job_id_def)
    moreover have "p \<in> kinds" "p' \<in> kinds" using k j' by (force simp: js)+
    ultimately show False using dump_files_disjoint x that by blast
  qed
  let ?fs = "do_jobs env mem xs fs"
  have x: "?fs x = fs x" "do_jobs env mem js fs x = dump_mem_obj env mem p m i a n ?fs x" if "x \<in> dump_files p m i" for x
  proof -
    have xy: "\<forall>(p', m', i', a', n') \<in> set xs. x \<notin> dump_files p' m' i'"
      "\<forall>(p', m', i', a', n') \<in> set ys. x \<notin> dump_files p' m' i'" using away [OF that] by auto
    show "?fs x = fs x" by (rule do_jobs_frame [OF xy(1)])
    show "do_jobs env mem js fs x = dump_mem_obj env mem p m i a n ?fs x"
      using do_jobs_frame [OF xy(2)] by (simp add: js)
  qed
  from x [of "dump_file p m i"] x [of "dump_backup p m i"] dump_mem_obj_at [OF can, of ?fs]
  show "do_jobs env mem js fs (dump_file p m i) = Some (mem_at mem a (unat n))"
    "do_jobs env mem js fs (dump_backup p m i) =
       (if fs (dump_file p m i) = None then fs (dump_backup p m i) else fs (dump_file p m i))"
    by (simp_all add: dump_files_def)
qed

text \<open>The numbers fit: so many classes, pointers, areas and objects of a class.\<close>

definition numbers_fit :: "world \<Rightarrow> bool" where
  "numbers_fit w \<longleftrightarrow> length (dyn_visits None (w_cfg w)) \<le> 2 ^ 32 \<and> length (w_cfg w) \<le> 2 ^ 32 \<and>
     length (w_dump w) \<le> 2 ^ 32 \<and>
     (\<forall>c \<in> set (w_cfg w). \<forall>di. c_dynmem c = Some di \<longrightarrow> length (d_v_maddr (w_dyn w ! di)) \<le> 2 ^ 32)"

lemma of_nat_u32_inj: "i < 2 ^ 32 \<Longrightarrow> j < 2 ^ 32 \<Longrightarrow> (of_nat i :: u32) = of_nat j \<longleftrightarrow> i = j"
proof -
  have "unat (of_nat k :: u32) = k" if "k < 2 ^ 32" for k
    using that by (simp add: unat_of_nat take_bit_nat_eq_self)
  then show "i < 2 ^ 32 \<Longrightarrow> j < 2 ^ 32 \<Longrightarrow> (of_nat i :: u32) = of_nat j \<longleftrightarrow> i = j" by metis
qed

text \<open>The ids of the jobs with the number \<open>k\<close>, and of one loop.\<close>

definition own_ids :: "string \<Rightarrow> nat \<Rightarrow> dump_job list \<Rightarrow> bool" where
  "own_ids p k js \<longleftrightarrow> distinct (map job_id js) \<and> (\<forall>j \<in> set js. fst j = p \<and> fst (snd j) = of_nat k)"

lemma distinct_ids:
  "distinct (map f xs) \<Longrightarrow> distinct (map f ys) \<Longrightarrow> (\<And>x y. x \<in> set xs \<Longrightarrow> y \<in> set ys \<Longrightarrow> f x \<noteq> f y) \<Longrightarrow>
     distinct (map f (xs @ ys))"
  by (auto simp: image_iff)

lemma numbered_ids:
  assumes "\<And>k x. x \<in> set xs \<Longrightarrow> own_ids p k (f k x)" "k + length xs \<le> 2 ^ 32"
  shows "distinct (map job_id (numbered f k xs)) \<and>
    (\<forall>j \<in> set (numbered f k xs). fst j = p \<and> (\<exists>k'. k \<le> k' \<and> k' < k + length xs \<and> fst (snd j) = of_nat k'))"
  using assms
proof (induction xs arbitrary: k)
  case (Cons x xs)
  have f: "own_ids p k (f k x)" by (rule Cons.prems) simp
  have IH: "distinct (map job_id (numbered f (Suc k) xs)) \<and>
    (\<forall>j \<in> set (numbered f (Suc k) xs). fst j = p \<and>
       (\<exists>k'. Suc k \<le> k' \<and> k' < Suc k + length xs \<and> fst (snd j) = of_nat k'))"
    by (rule Cons.IH) (use Cons.prems in auto)
  have "job_id j \<noteq> job_id j'" if j: "j \<in> set (f k x)" "j' \<in> set (numbered f (Suc k) xs)" for j j'
  proof -
    from bspec [OF conjunct2 [OF IH] j(2)] obtain k' where "k < k'" "k' < Suc k + length xs" "fst (snd j') = of_nat k'"
      by (auto simp: Suc_le_eq)
    moreover have "fst (snd j) = of_nat k" using f j(1) by (simp add: own_ids_def)
    ultimately have "fst (snd j) \<noteq> fst (snd j')" using Cons.prems(2) of_nat_u32_inj [of k k'] by simp
    then show ?thesis by (auto simp: job_id_def split: prod.splits)
  qed
  then have "distinct (map job_id (f k x @ numbered f (Suc k) xs))"
    using f IH by (intro distinct_ids) (auto simp: own_ids_def)
  moreover have "fst j = p \<and> (\<exists>k'. k \<le> k' \<and> k' < k + length (x # xs) \<and> fst (snd j) = of_nat k')"
    if "j \<in> set (numbered f k (x # xs))" for j
  proof (cases "j \<in> set (f k x)")
    case True
    with f show ?thesis by (intro conjI exI [of _ k]) (simp_all add: own_ids_def)
  next
    case False
    with that have "j \<in> set (numbered f (Suc k) xs)" by simp
    from bspec [OF conjunct2 [OF IH] this] obtain k' where "fst j = p" "Suc k \<le> k'" "k' < Suc k + length xs"
      "fst (snd j) = of_nat k'" by blast
    then show ?thesis by (intro conjI exI [of _ k']) simp_all
  qed
  ultimately show ?case by simp
qed simp

lemma map_ids:
  assumes "n \<le> 2 ^ 32" shows "own_ids p k (map (\<lambda>i. (p, of_nat k, of_nat i, a i, s i)) [0..<n])"
  using assms of_nat_u32_inj by (auto simp: own_ids_def job_id_def distinct_map inj_on_def comp_def)

lemma ptr_job_ids: "own_ids ''p'' k (ptr_job p k i v)"
  by (simp add: own_ids_def ptr_job_def)

lemma ptr_objs_ids:
  assumes "n \<le> 2 ^ 32" shows "own_ids ''p'' k (concat (map (\<lambda>i. ptr_job p k i (v i)) [0..<n]))"
  using assms
proof (induction n)
  case (Suc n)
  have "job_id j \<noteq> job_id j'" if j: "j \<in> set (ptr_job p k n (v n))" "i < n" "j' \<in> set (ptr_job p k i (v i))" for i j j'
    using that Suc.prems of_nat_u32_inj [of i n] by (auto simp: ptr_job_def job_id_def split: if_splits)
  with Suc ptr_job_ids [of k p n "v n"] show ?case by (fastforce simp: own_ids_def)
qed (simp add: own_ids_def)

lemma dyn_visits_from: "di \<in> set (dyn_visits old cs) \<Longrightarrow> \<exists>c \<in> set cs. c_dynmem c = Some di"
  by (induction old cs rule: dyn_visits.induct) (auto split: option.splits if_splits)

lemma dump_jobs_ids:
  assumes "numbers_fit w"
  shows "distinct (map job_id (dump_jobs w)) \<and> fst ` set (dump_jobs w) \<subseteq> kinds"
proof -
  have c: "own_ids [] k (class_job w k di)" if di: "di \<in> set (dyn_visits None (w_cfg w))" for k di
    unfolding class_job_def Let_def
    by (rule map_ids) (use dyn_visits_from [OF di] assms in \<open>auto simp: numbers_fit_def\<close>)
  have p: "own_ids ''p'' k (ptr_jobs w k ci)" if ci: "ci \<in> set (ptr_entries w)" for k ci
  proof (cases "c_dynmem (w_cfg w ! ci)")
    case (Some di)
    moreover have "w_cfg w ! ci \<in> set (w_cfg w)" using ci by (simp add: ptr_entries_def)
    ultimately have "length (d_v_maddr (w_dyn w ! di)) \<le> 2 ^ 32" using assms by (simp add: numbers_fit_def)
    from ptr_objs_ids [OF this] Some show ?thesis by (simp add: ptr_jobs_def Let_def)
  qed (simp add: ptr_jobs_def Let_def ptr_job_ids)
  have a: "own_ids ''s'' k (area_job w k u)" for k u
    by (simp add: own_ids_def area_job_def)
  have "length (ptr_entries w) \<le> length (w_cfg w)" by (simp add: ptr_entries_def le_trans [OF length_filter_le])
  with assms have l: "length (ptr_entries w) \<le> 2 ^ 32" by (simp add: numbers_fit_def)
  note ids = numbered_ids [of "dyn_visits None (w_cfg w)" "[]" "class_job w" 0, OF c]
    numbered_ids [of "ptr_entries w" "''p''" "ptr_jobs w" 0, OF p]
    numbered_ids [of "w_dump w" "''s''" "area_job w" 0, OF a]
  let ?A = "numbered (class_job w) 0 (dyn_visits None (w_cfg w))" and ?B = "numbered (ptr_jobs w) 0 (ptr_entries w)"
  let ?C = "numbered (area_job w) 0 (w_dump w)"
  have d: "distinct (map job_id ?A)" "distinct (map job_id ?B)" "distinct (map job_id ?C)"
    using ids l assms by (simp_all add: numbers_fit_def)
  have k: "j \<in> set ?A \<Longrightarrow> fst j = []" "j \<in> set ?B \<Longrightarrow> fst j = ''p''" "j \<in> set ?C \<Longrightarrow> fst j = ''s''" for j
    using ids l assms by (simp_all add: numbers_fit_def)
  have f: "job_id j = job_id j' \<Longrightarrow> fst j = fst j'" for j j' by (simp add: job_id_def split: prod.splits)
  have other: "job_id j \<noteq> job_id j'"
    if "j \<in> set ?A \<and> j' \<in> set ?B \<or> j \<in> set ?A \<and> j' \<in> set ?C \<or> j \<in> set ?B \<and> j' \<in> set ?C" for j j'
  proof
    assume "job_id j = job_id j'"
    from f [OF this] that k [of j] k [of j'] show False by auto
  qed
  have bc: "distinct (map job_id (?B @ ?C))" by (rule distinct_ids [OF d(2,3)]) (use other in blast)
  have "distinct (map job_id (?A @ ?B @ ?C))" by (rule distinct_ids [OF d(1) bc]) (use other in auto)
  then have "distinct (map job_id (dump_jobs w))" by (simp only: dump_jobs_def)
  moreover have "fst ` set (dump_jobs w) \<subseteq> kinds" using k by (auto simp: dump_jobs_def kinds_def)
  ultimately show ?thesis by blast
qed

text \<open>A dump of everything.\<close>

theorem dump_all_files:
  assumes run: "dump_all_mem_obj env mem maps (w, fs) = Some (w', fs')" and fit: "numbers_fit w"
    and j: "(p, m, i, a, n) \<in> set (dump_jobs w)" and can: "can_dump env mem (dump_file p m i) a n"
  shows "fs' (dump_file p m i) = Some (mem_at mem a (unat n)) \<and>
    fs' (dump_backup p m i) = (if fs (dump_file p m i) = None then fs (dump_backup p m i) else fs (dump_file p m i))"
proof -
  note ids = dump_jobs_ids [OF fit]
  note at = do_jobs_at [OF conjunct1 [OF ids] conjunct2 [OF ids] j can, of "dump_maps env maps fs"]
  have "p \<in> kinds" using ids j by force
  then have "dump_maps env maps fs x = fs x" if "x \<in> dump_files p m i" for x
    using maps_not_dump [OF that] by (simp add: dump_maps_frame)
  with at dump_all_jobs [OF run] show ?thesis by (simp add: dump_files_def)
qed

end
