(* ===== verification/Examples.thy ===== *)
theory Examples
  imports Trainer Handshake MemhackInv MapsInv ProcessFun CfgparserInv CfgText Clist DiscHandshake DiscFind Preload Memhooks CfgActive AdaptInv DumpInv
begin

text \<open>
  A small state: a class with three objects, one of them released, two config entries of the
  class, the second of which is a pointer to a field of its own.
\<close>

definition ex_type :: val_type where
  "ex_type = \<lparr>t_lib_name = None, t_lib = None, t_on_stack = False, t_is_signed = False,
     t_is_float = False, t_is_cstr = False, t_is_cstrp = False, t_size = 32\<rparr>"

definition ex_cfg :: "nat option \<Rightarrow> nat option \<Rightarrow> nat option \<Rightarrow> value_t list \<Rightarrow> cfg_entry" where
  "ex_cfg dyn pm tgt ov = \<lparr>c_name = ''hp'', c_addr = 8, c_type = ex_type, c_check = CHECK_OFF,
     c_dynval = DYN_VAL_OFF, c_val_addr = 0, c_value = 99, c_old_val = 0, c_cstr = None,
     c_val_set = False, c_cfg_ref = None, c_cfg_ref_add = 0, c_checks = [], c_dynmem = dyn,
     c_v_value = map (\<lambda>_. 99) ov, c_v_oldval = ov, c_v_cstr = map (\<lambda>_. None) ov, c_cache = None,
     c_cache_data = 0, c_ptrmem = pm, c_ptrtgt = tgt\<rparr>"

definition ex_dyn :: "ptr list \<Rightarrow> dynmem_entry" where
  "ex_dyn addrs = \<lparr>e_mem_size = 64, e_code_addr = 4198400, e_code_offs = 4198400, e_stack_offs = 0,
     e_lib = Some '''', d_name = ''Unit'', d_consts = [], d_grow = None, d_cfg_act = [],
     d_v_maddr = addrs, d_v_msize = map (\<lambda>_. 64) addrs, d_num_alloc = 0, d_num_freed = 0,
     d_obj_idx = 0, d_pr_idx = 0, d_cache_list = [], d_adp_size = 0, d_adp_addr = 0, d_cfg_line = 0\<rparr>"

definition ex_ptr :: "nat \<Rightarrow> ptrmem_entry" where
  "ex_ptr n = \<lparr>p_name = ''Weapon'', p_mem_size = 32, p_cfg = [2], p_cfg_act = [], p_dynmem = Some 0,
     p_v_state = replicate n PTR_INIT, p_v_offs = replicate n 0, p_cache_list = []\<rparr>"

definition ex_world :: world where
  "ex_world = \<lparr>w_cfg = [ex_cfg (Some 0) None None [1, 2], ex_cfg (Some 0) None (Some 0) [3, 4],
       ex_cfg None (Some 0) None [5, 6]],
     w_cfg_act = [], w_dyn = [ex_dyn [4096, 0, 8192]], w_ptr = [ex_ptr 2], w_lib = [], w_dump = [],
     w_cache_list = [], w_stack_cache = [], w_mq = \<lparr>mq_data = replicate 64 NUL, mq_end = 0\<rparr>,
     w_pure_statmem = False, w_val_on_stack = False, w_heap_checks = False, w_code_offs = 0,
     w_stack_rstart = 0, w_stack_rend = 0, w_stack_end = 0, w_heap_start = 0, w_heap_end = 0\<rparr>"

lemmas ex_defs = ex_world_def ex_cfg_def ex_ptr_def ex_dyn_def ex_type_def

lemma ex_world_wf: "mem_wf ex_world"
  by (simp add: mem_wf_def ex_defs row_ok_def foot_def tgt_fields_def pfoot_def
    cfg_n_def ptr_n_def less_Suc_eq all_conj_distrib numeral_eq_Suc)

lemma ex_queue: "mq_holds (w_mq ex_world) []"
  by (simp add: mq_holds_def ex_world_def numeral_eq_Suc)

lemma ex_world_inv: "mem_inv ex_world"
  using ex_world_wf ex_queue by (auto simp: mem_inv_def)

text \<open>Two messages of the game, and a state in which nothing has been read.\<close>

definition ex_msgs :: "msg list" where
  "ex_msgs = [MMalloc 12288 64 4198400, MFree 8192]"

definition ex_file :: ffile where "ex_file = \<lparr>f_data = stream ex_msgs, f_pos = 0\<rparr>"

lemma digit_chars:
  "digit_char 0 = CHR ''0''" "digit_char 1 = CHR ''1''" "digit_char 2 = CHR ''2''"
  "digit_char 3 = CHR ''3''" "digit_char 4 = CHR ''4''" "digit_char 5 = CHR ''5''"
  "digit_char 6 = CHR ''6''" "digit_char 7 = CHR ''7''" "digit_char 8 = CHR ''8''"
  "digit_char 9 = CHR ''9''" "digit_char 10 = CHR ''a''" "digit_char 11 = CHR ''b''"
  "digit_char 12 = CHR ''c''" "digit_char 13 = CHR ''d''" "digit_char 14 = CHR ''e''"
  "digit_char 15 = CHR ''f''" "digit_char (Suc 0) = CHR ''1''"
  by code_simp+

lemmas print_simps = pr_ptr_def pr_ul_def pr_u32_def pr_hex_def pr_dec_def digits.simps digit_chars

lemma ex_msgs_render:
  "render (MMalloc 12288 64 4198400) = ''m0x3000;s64;c0x401000'' @ [NL]"
  "render (MFree 8192) = ''f0x2000'' @ [NL]"
  by (simp_all add: render_def print_simps)

lemma ex_msgs_wf: "\<forall>m \<in> set ex_msgs. wf_msg m \<and> length (render m) < PIPE_BUF"
  using ex_msgs_render [THEN arg_cong [where f = length]] by (simp add: ex_msgs_def PIPE_BUF_def)


text \<open>The memory map of the game: its executable, as a map and as a region.\<close>

definition ex_map :: region_map where
  "ex_map = \<lparr>rm_start = 65536, rm_end = 69632, rm_read = CHR ''r'', rm_write = CHR ''-'',
     rm_exec = CHR ''x'', rm_cow = CHR ''p'', rm_file_path = ''/g''\<rparr>"

text \<open>The line of the heap in the documentation (\<open>doc/ugtrain-dynmem.md\<close>).\<close>

definition ex_heap_map :: region_map where
  "ex_heap_map = \<lparr>rm_start = 0xfc3000, rm_end = 0xac3d000, rm_read = CHR ''r'', rm_write = CHR ''w'',
     rm_exec = CHR ''-'', rm_cow = CHR ''p'', rm_file_path = ''[heap]''\<rparr>"

definition ex_heap_text :: string where
  "ex_heap_text = ''00fc3000-0ac3d000 rw-p 00000000 00:00 0                                  [heap]'' @ [NL]"

lemma replicate_literals:
  "replicate (Suc 0) x = [x]" "replicate 2 x = [x, x]" "replicate 7 x = [x, x, x, x, x, x, x]"
  "replicate 32 x = [x, x, x, x, x, x, x, x, x, x, x, x, x, x, x, x, x, x, x, x, x, x, x, x, x, x, x, x, x, x, x, x]"
  by (simp_all add: numeral_eq_Suc)

lemma ex_heap_line: "render_map ex_heap_map 0 0 0 0 = ex_heap_text"
proof -
  have "map_numbers ex_heap_map 0 0 0 0 = ''00fc3000-0ac3d000 rw-p 00000000 00:00 0 ''"
    by (simp add: map_numbers_def pad0_def ex_heap_map_def print_simps replicate_literals)
  moreover have "replicate (72 - length ''00fc3000-0ac3d000 rw-p 00000000 00:00 0 '') CHR '' '' =
      ''                                ''"
    by (simp add: replicate_literals)
  ultimately show ?thesis by (simp add: render_map_def ex_heap_text_def ex_heap_map_def)
qed

definition ex_exe :: region where
  "ex_exe = \<lparr>rg_start = 65536, rg_size = 4096, rg_type = REGION_TYPE_EXE, rg_load_addr = 65536,
     rg_read = True, rg_write = True, rg_exec = True, rg_shared = False, rg_priv = True,
     rg_id = 0, rg_file_path = ''/g''\<rparr>"

text \<open>The configuration of the sample class can be sent.\<close>

lemma ex_visits: "dyn_visits None (w_cfg ex_world) = [0]"
  by (simp add: ex_defs)

lemma ex_sendable: "\<forall>d \<in> set (w_dyn ex_world). sendable d"
  by (simp add: ex_defs sendable_def libs_set_def class_cfgs_def ess_cfg_def item_ok_def addrs_set_def
      lib_ok_def dyn_essentials.truncate_def)

lemma ex_prepare: "\<exists>txt. prepare_dynmem '''' False ex_world = Some (Inr txt)"
  by (simp add: ex_defs prepare_dynmem_def prep_cfg_def vget_def prep_init_def prep_class_def lib_obj_def
      add_essentials_def emit_def PIPE_BUF_def print_simps Let_def)

lemma ex_aslr:
  "\<exists>w' offs. handle_aslr '''' '''' [ex_exe] ex_world = Some (w', Some offs) \<and> length offs < BUF_SIZE \<and>
     e_code_addr (w_dyn w' ! 0) = 4263936 \<and> d_consts (w_dyn w' ! 0) = [] \<and> d_grow (w_dyn w' ! 0) = None \<and>
     e_mem_size (w_dyn w' ! 0) = 64 \<and> e_stack_offs (w_dyn w' ! 0) = 0"
proof -
  have ex: "find_exe_region [ex_exe] = (65536, 69632, 65536)"
    by (simp add: ex_exe_def calc_exe_offs_def)
  let ?w1 = "(find_lib_regions [ex_exe] ex_world)\<lparr>w_code_offs := 65536\<rparr>"
  have w1: "?w1 = ex_world\<lparr>w_code_offs := 65536\<rparr>"
    by (simp add: find_lib_regions_def ex_exe_def ex_world_def)
  have "w_dyn ?w1 = [ex_dyn [4096, 0, 8192]]" "w_cfg ?w1 = w_cfg ex_world" "w_pure_statmem ex_world = False"
    unfolding w1 by (simp_all add: ex_world_def)
  with ex ex_visits show ?thesis
    by (simp add: handle_aslr_def vget_def aslr_dynmem_def ex_dyn_def lib_offs_def emit_def sent_text_def
        PIPE_BUF_def BUF_SIZE_def print_simps)
qed


text \<open>
  A game with one page of zeros and one activated entry: if the number at 4104 is below 99, it is
  set to 99.
\<close>

definition ex_entry :: cfg_entry where
  "ex_entry = (ex_cfg None None None [])\<lparr>c_addr := 4104, c_check := CHECK_LT, c_cache := Some (COpt, 0),
     c_cache_data := 8\<rparr>"

definition ex_cache :: cache_entry where
  "ex_cache = \<lparr>ca_offs = 4096, ca_start = PTR_MAX, ca_data = replicate MEM_CHUNK 0, ca_is_dirty = False\<rparr>"

definition ex_page :: gmem where
  "ex_page = (\<lambda>a. if 4096 \<le> a \<and> a < 6144 then Some 0 else None)"

definition ex_game :: game where
  "ex_game = \<lparr>gw = ex_world\<lparr>w_cfg := [ex_entry], w_cfg_act := [0], w_dyn := [], w_ptr := [],
     w_cache_list := [ex_cache]\<rparr>, gmem = ex_page\<rparr>"

lemmas ex_game_defs = ex_game_def ex_entry_def ex_cache_def ex_world_def ex_cfg_def ex_type_def

lemma ex_page_mapped: "mapped ex_page 4096 MEM_CHUNK"
proof -
  have "ex_page (4096 + of_nat i) \<noteq> None" if "i < 2048" for i
  proof -
    have "unat (4096 + of_nat i :: 64 word) = 4096 + i"
      using that by (simp add: unat_word_ariths unat_of_nat take_bit_nat_eq_self)
    with that show ?thesis by (simp add: ex_page_def word_le_nat_alt word_less_nat_alt)
  qed
  then show ?thesis by (simp add: mapped_def MEM_CHUNK_def)
qed

lemma ex_game_clean: "all_clean (gw ex_game)"
  by (auto simp: all_clean_def clean_def ex_game_defs cache_list_def vget_def split: cache_owner.splits)

lemma ex_game_plain: "plain_entry (Uns 32) 4 ex_entry"
  by (simp add: plain_entry_def ex_game_defs value_type_def)

lemma ex_game_covered: "covered 4 (gw ex_game) ex_entry 0 ex_cache"
  by (simp add: covered_def ex_game_defs MEM_CHUNK_def)

lemma ex_game_fields: "w_cfg_act (gw ex_game) = [0]" "w_cfg (gw ex_game) = [ex_entry]"
  "gmem ex_game = ex_page" "w_dyn (gw ex_game) = []" "ca_offs ex_cache = 4096"
  by (simp_all add: ex_game_def ex_cache_def)


text \<open>A class with two objects, one of which has a settled pointer into the page, and its old dump.\<close>

definition ex_dump_world :: world where
  "ex_dump_world = ex_world\<lparr>w_cfg := [ex_cfg (Some 0) None None [1, 2], ex_cfg (Some 0) None (Some 0) [3, 4128],
       ex_cfg None (Some 0) None [5, 6]], w_dyn := [ex_dyn [4096, 4160]],
     w_ptr := [(ex_ptr 2)\<lparr>p_v_state := [PTR_INIT, PTR_SETTLED]\<rparr>]\<rparr>"

definition ex_dump_env :: dump_env where
  "ex_dump_env = \<lparr>de_attach = \<lambda>_. True, de_rename = \<lambda>_. True, de_open = \<lambda>_. True, de_write = \<lambda>_. 4096\<rparr>"

definition ex_files :: files where "ex_files = [''p0_001.dump'' \<mapsto> [7]]"

lemmas ex_dump_defs = ex_dump_world_def ex_defs

lemma ex_dump_runs: "\<exists>w' fs'. dump_all_mem_obj ex_dump_env ex_page [] (ex_dump_world, ex_files) = Some (w', fs')"
  by (simp add: dump_all_mem_obj_def dump_ptr_def mod_cfg_def vget_def ex_dump_defs Let_def upt_conv_Cons
      cong: bind_option_cong)

lemma ex_dump_job: "(''p'', 0, 1, 4128, 32) \<in> set (dump_jobs ex_dump_world)"
  by (simp add: dump_jobs_def ptr_entries_def ptr_jobs_def ptr_job_def ex_dump_defs Let_def upt_conv_Cons)

lemma ex_dump_fits: "numbers_fit ex_dump_world"
  by (simp add: numbers_fit_def ex_dump_defs)

lemma ex_dump_name: "dump_name ''p'' 0 1 = ''p0_001''"
  by (simp add: dump_name_def print_simps)

lemma ex_page_part: "mapped ex_page 4128 32" "mem_at ex_page 4128 32 = replicate 32 0"
proof -
  have "ex_page (4128 + of_nat i) = Some 0" if "i < 32" for i
  proof -
    have "unat (4128 + of_nat i :: 64 word) = 4128 + i"
      using that by (simp add: unat_word_ariths unat_of_nat take_bit_nat_eq_self)
    with that show ?thesis by (simp add: ex_page_def word_le_nat_alt word_less_nat_alt)
  qed
  then show "mapped ex_page 4128 32" "mem_at ex_page 4128 32 = replicate 32 0"
    by (auto simp: mapped_def mem_at_def list_eq_iff_nth_eq)
qed


text \<open>A config file with one entry, and a trainer that knows nothing yet.\<close>

definition ex_blank :: world where
  "ex_blank = ex_world\<lparr>w_cfg := [], w_dyn := [], w_ptr := []\<rparr>"

definition ex_opts :: popts where
  "ex_opts = \<lparr>o_w = ex_blank, o_keys = Map.empty, o_proc_name = [], o_game_call = [], o_game_path = None,
     o_game_binpath = [], o_binpath_line = 0, o_game_params = [], o_dynmem_file = [], o_adp_script = [],
     o_adp_required = False, o_adp_req_line = 0, o_use_gbt = False, o_preload_lib = None, o_cfg_path = []\<rparr>"

definition ex_chk :: check_entry where
  "ex_chk = \<lparr>k_addr = 0, k_cfg_ref = None, k_is_objcheck = False, k_is_heapchk = False,
     k_check_obj_num = False, k_type = no_type, k_check = replicate 5 CHECK_OFF, k_value = replicate 4 0,
     k_cache = None, k_cache_data = 0\<rparr>"

definition ex_conf :: "string list" where
  "ex_conf = [''Game'', plain_line ''gold'' 4096 32 99 (CHR ''g'') (CHR ''a'')]"

abbreviation ex_cfg0 :: cfg_entry where "ex_cfg0 \<equiv> ex_cfg None None None []"

definition ex_start :: pstate where
  "ex_start = \<lparr>s_opt = ex_opts\<lparr>o_w := init_caches ex_blank, o_proc_name := ''Game'', o_game_call := ''Game''\<rparr>,
     s_macros = Map.empty, s_in_dynmem = False, s_in_ptrmem = False, s_dyn = None, s_ptr = None, s_cfg = ex_cfg0,
     s_chk = ex_chk\<rparr>"

lemma ex_blank: "blank (o_w ex_opts)" "c_v_value ex_cfg0 = []" "c_v_oldval ex_cfg0 = []" "c_v_cstr ex_cfg0 = []"
  by (simp_all add: blank_def ex_opts_def ex_blank_def ex_world_def ex_cfg_def)

lemma ex_gold_ok: "name_ok ''gold''" "classify ''gold'' = None" "c_isalnum (CHR ''g'')"
  by (simp_all add: name_ok_def name_char_def c_isalnum_def c_isalpha_def c_islower_def c_isupper_def c_isdigit_def
      classify_def is_prefix_def)

lemma ex_lines: "parse_lines (tl ex_conf) ex_start =
    Some (plain_step ''gold'' 4096 32 99 (CHR ''g'') (CHR ''a'') ex_start)"
  using plain_line_parses [of ex_start "''gold''" 32 99 "CHR ''g''" "CHR ''a''" 1 4096] ex_gold_ok
  by (simp add: parse_lines_def ex_conf_def) (simp add: ex_start_def)

lemma ex_conf_parses:
  "\<exists>opt'. parse_config ex_cfg0 ex_chk ex_conf ex_opts = Some opt' \<and>
     map bare (w_cfg (o_w opt')) = map bare [(plain_cfg ''gold'' 4096 32 99 ex_cfg0)\<lparr>c_ptrmem := None\<rparr>]"
proof -
  let ?s = "plain_step ''gold'' 4096 32 99 (CHR ''g'') (CHR ''a'') ex_start"
  have "state_inv ex_start" using blank_tables [OF ex_blank(1)] ex_blank(2-4)
    by (simp add: state_inv_def ex_start_def ex_opts_def)
  from parse_lines_inv [OF ex_lines this] have "tables_inv (s_w ?s)" by (simp add: state_inv_def)
  with build_caches_covers [of "s_w ?s"] addr_list_owned obtain w where
    w: "build_caches (s_w ?s) = Some w" "same_bare (s_w ?s) w" by blast
  have "parse_proc_name ''Game'' = Some ''Game''"
    by (simp add: parse_proc_name_def proc_name_char_def c_isalnum_def c_isalpha_def c_islower_def c_isupper_def c_isdigit_def)
  moreover have "s_dyn ?s = None" "outside ?s"
    by (simp_all add: plain_step_def outside_def ex_start_def Let_def)
  ultimately have "parse_config ex_cfg0 ex_chk ex_conf ex_opts = Some ((s_opt ?s)\<lparr>o_w := w\<rparr>)"
    using ex_lines w(1) by (simp add: parse_config_def ex_start_def ex_conf_def vget_def check_that_def ex_opts_def)
  moreover have "w_cfg (s_w ?s) = [(plain_cfg ''gold'' 4096 32 99 ex_cfg0)\<lparr>c_ptrmem := None\<rparr>]"
    by (simp add: plain_step_def ex_start_def init_caches_def ex_opts_def ex_blank_def Let_def)
  ultimately show ?thesis using w(2) by (auto simp: same_bare_def)
qed



text \<open>A macro for a check, and an address below a cache.\<close>

lemmas ex_name_simps = parse_name_def check_that_def name_char_def c_isalnum_def c_isalpha_def c_islower_def
  c_isupper_def c_isdigit_def macro_of_def classify_def is_prefix_def Let_def

lemma ex_macro:
  "parse_name False ''check 0x70 u16 g 2'' 0 = Some (''check'', 6)"
  "macro_of [''B'' \<mapsto> ''check 0x70 u16 g 2''] ''check 0x70 u16 g 2'' 0 = None"
  "parse_name False ''B'' 0 = Some (''B'', 2)" "parse_name False ''B 0x8'' 0 = Some (''B'', 2)"
  "macro_of [''B'' \<mapsto> ''B u32 1''] ''B 0x8'' 0 = Some ''B''" "macro_of [''B'' \<mapsto> ''B u32 1''] ''B u32 1'' 0 = Some ''B''"
  by (simp_all add: ex_name_simps)

definition ex_low :: addr_entry where
  "ex_low = \<lparr>a_addr = 8, a_size = 4, a_own = COpt, a_elem = (0, None)\<rparr>"

lemma ex_low:
  "cache_list (a_own ex_low) (gw ex_game) = Some [ex_cache]" "valid_elem (a_elem ex_low) (gw ex_game)"
  by (simp_all add: ex_low_def ex_game_defs cache_list_def valid_elem_def)



text \<open>A list of one node, and two more nodes.\<close>

definition ex_heap :: lheap where
  "ex_heap = [16 \<mapsto> \<lparr>n_next = 32, n_prev = 32\<rparr>, 32 \<mapsto> \<lparr>n_next = 16, n_prev = 16\<rparr>,
     48 \<mapsto> \<lparr>n_next = 0, n_prev = 0\<rparr>, 64 \<mapsto> \<lparr>n_next = 0, n_prev = 0\<rparr>]"

lemma ex_heap: "ring ex_heap 16 [32]" "dom ex_heap = {16, 32, 48, 64}"
  by (auto simp: ring_def ex_heap_def get_next_def get_prev_def split: if_splits)


subsection \<open>Discovery\<close>

text \<open>A request of the documentation, a game with two words on its stack, and an allocation in it.\<close>

definition ex_request :: disc_req where "ex_request = Offsets Exe 288 (Some 0x40f4e7)"

definition ex_disc_opts :: disc_opts where
  "ex_disc_opts = \<lparr>do_str = req_text ex_request, do_lib = [], do_offs = 0, do_code_addr = 0,
     do_run_scanmem = False, do_have_objdump = False\<rparr>"

definition ex_hook :: hook_env where
  "ex_hook = \<lparr>he_ffp = 0x7000, he_stack = (\<lambda>a. if a = 0x7008 then 0x40f4e7 else 0), he_trace = [],
     he_write_ok = True, he_mem_ok = True\<rparr>"

definition ex_stage4 :: "ptr \<Rightarrow> ptr \<Rightarrow> ptr \<Rightarrow> memdisc" where
  "ex_stage4 s e c = memdisc_start\<lparr>md_active := True, md_stage := 4, md_malloc_size := 288, md_bt_saddr := s,
     md_bt_eaddr := e, md_code_addr := c, md_out := [render (MStack 0x7010)]\<rparr>"

lemma ex_searching: "searching (ex_stage4 s e c)" "md_out (ex_stage4 s e c) = [render (MStack 0x7010)]"
  by (simp_all add: searching_def ex_stage4_def memdisc_start_def)

lemma ex_wanted: "wanted_size 288 (ex_stage4 s e c)"
  by (simp add: wanted_size_def ex_stage4_def memdisc_start_def)

lemma ex_calls: "found_calls (ex_stage4 0x400000 0x500000 0) ex_hook 0x7010 = [(0x40f4e7, Some 8)]"
proof -
  have "word_count (0x7008 :: ptr) 0x7000 = Suc (Suc 0)" by (simp add: word_count_def)
  then show ?thesis
    by (simp add: found_calls_def stack_words_def ex_hook_def ex_stage4_def memdisc_start_def in_range_def
        found_call_def MAX_BT_def List.map_filter_def)
qed

text \<open>
  The library with the configuration of the sample class, and a run of it: an object is allocated at
  the site of the class and released again.
\<close>

definition ex_caller :: hook_env where
  "ex_caller = \<lparr>he_ffp = 0x7000, he_stack = (\<lambda>_. 4263936), he_trace = [], he_write_ok = True, he_mem_ok = True\<rparr>"

lemma ex_hack:
  "\<exists>tx offs h c. h = memhack_init None ''game'' 0x7010 (Some tx) (Some offs) memhack_start \<and> h_active h \<and>
     \<not> h_use_gbt h \<and> h_config h = [c] \<and> m_mem_size c = 64 \<and> m_code_addr c = 4263936 \<and> m_stack_offs c = 0"
proof -
  obtain tx where t: "prepare_dynmem '''' False ex_world = Some (Inr tx)" using ex_prepare by blast
  obtain w' offs where a: "handle_aslr '''' '''' [ex_exe] ex_world = Some (w', Some offs)" "length offs < BUF_SIZE"
    and c: "e_code_addr (w_dyn w' ! 0) = 4263936" "d_consts (w_dyn w' ! 0) = []" "d_grow (w_dyn w' ! 0) = None"
      "e_mem_size (w_dyn w' ! 0) = 64" "e_stack_offs (w_dyn w' ! 0) = 0"
    using ex_aslr by auto
  let ?h = "memhack_init None ''game'' 0x7010 (Some tx) (Some offs) memhack_start"
  from memhack_handshake [OF ex_sendable _ t a refl] ex_visits
  have act: "h_active ?h" "\<not> h_use_gbt ?h"
    and m: "map code_view (h_config ?h) = map code_view (all_cfgs (w_dyn w') [0])" by simp_all
  have "all_cfgs (w_dyn w') [0] = [ess_cfg (dyn_essentials.truncate (w_dyn w' ! 0)) None]"
    using c by (simp add: class_cfgs_def)
  with m obtain cf where "h_config ?h = [cf]" "m_code_addr cf = 4263936" "m_mem_size cf = 64" "m_stack_offs cf = 0"
    using c by (auto simp: code_view_def ess_cfg_def dyn_essentials.truncate_def)
  with act show ?thesis by blast
qed

lemma ex_hack_run:
  "\<exists>tx offs h1 h2. hook_step True 0x7010 (memhack_init None ''game'' 0x7010 (Some tx) (Some offs) memhack_start) h1 \<and>
     hook_step True 0x7010 h1 h2 \<and> sent (is_malloc_of 12288) h1 = 1 \<and> sent (is_free_of 12288) h1 = 0 \<and>
     sent (is_malloc_of 12288) h2 = 1 \<and> (tracks 12288 h1 = 1 \<longrightarrow> sent (is_free_of 12288) h2 = 1)"
proof -
  obtain tx offs h c where h: "h = memhack_init None ''game'' 0x7010 (Some tx) (Some offs) memhack_start"
    and act: "h_active h" "\<not> h_use_gbt h" "h_config h = [c]" "m_mem_size c = 64" "m_code_addr c = 4263936" "m_stack_offs c = 0"
    using ex_hack by blast
  let ?c = "store_mem_addr True 12288 c"
  let ?h1 = "h\<lparr>h_config := [?c], h_out := h_out h @ [render (MMalloc 12288 64 4263936)]\<rparr>"
  let ?h2 = "preprocess_free True 12288 ?h1"
  have "find_cfg ex_caller 0x7010 False 64 [c] = Some (Some (0, 4263936))"
    using act by (simp add: size_match_def caller_match_def ex_caller_def)
  with act have "postprocess_malloc ex_caller 0x7010 64 12288 h = Some ?h1"
    by (simp add: postprocess_malloc_def) (simp add: ex_caller_def)
  then have s1: "hook_step True 0x7010 h ?h1" by (rule hs_malloc [rotated 2]) (simp_all add: ex_caller_def)
  have s2: "hook_step True 0x7010 ?h1 ?h2" by (rule hs_free) simp
  have "hack_inv True ?h1" using hook_step_inv [OF s1] hack_inv_init unfolding h by blast
  then have ok: "addrs_ok ?c" by (simp add: hack_inv_def)
  have zero: "sent (is_free_of 12288) h = 0" "sent (is_malloc_of 12288) h = 0" unfolding h by (rule init_nothing_sent)+
  have 1: "sent (is_malloc_of 12288) ?h1 = 1" "sent (is_free_of 12288) ?h1 = 0" using zero by (simp_all add: sent_def)
  have "sent (is_malloc_of 12288) ?h2 = 1"
    using zero by (auto simp: preprocess_free_def sent_def split: option.split)
  moreover have "sent (is_free_of 12288) ?h2 = 1" if "tracks 12288 ?h1 = 1"
  proof -
    have "tracked_at 12288 ?c \<noteq> None" using that tracked_at_iff [OF ok, of 12288] by (auto simp: tracks_def not_in_iff)
    then show ?thesis using zero act(1) by (auto simp: preprocess_free_def sent_def)
  qed
  ultimately show ?thesis using s1 s2 1 unfolding h by blast
qed

definition ex_search :: disc_params where
  "ex_search = \<lparr>dp_in_addr = 0x87ad00, dp_stage = CHR ''4'', dp_code_offs = 0, dp_stack_rstart = 0,
     dp_have_objdump = False, dp_rlist = [], dp_func = (\<lambda>_ _. [])\<rparr>"

text \<open>An operating system that lets every dump succeed.\<close>

definition ex_dump :: dump_env where
  "ex_dump = \<lparr>de_attach = (\<lambda>_. True), de_rename = (\<lambda>_. True), de_open = (\<lambda>_. True), de_write = (\<lambda>_. 1000000)\<rparr>"

subsection \<open>Adaptation\<close>

text \<open>A class of a config with three lines, the second of which is about the class.\<close>

definition ex_adapt_world :: world where
  "ex_adapt_world = ex_world\<lparr>w_dyn := [(ex_dyn [])\<lparr>d_cfg_line := 1\<rparr>]\<rparr>"

definition ex_cli :: cli where
  "ex_cli = \<lparr>o_w = ex_adapt_world, o_keys = Map.empty, o_proc_name = ''Game'', o_game_call = ''Game'', o_game_path = None,
     o_game_binpath = [], o_binpath_line = 0, o_game_params = [], o_dynmem_file = [], o_adp_script = ''adapt.sh'',
     o_adp_required = True, o_adp_req_line = 2, o_use_gbt = False, o_preload_lib = None, o_cfg_path = [],
     o_do_adapt = True, o_disc_str = [], o_run_scanmem = False, o_pre_cmd = None\<rparr>"

definition ex_cfg_lines :: "string list" where
  "ex_cfg_lines = [''Game'', ''dynmemstart Unit 64 0x400000 0x0'', ''adapt_required 1'', []]"

lemma ex_adaptable: "adaptable ex_cli None [(''Unit'', 72, 0x401234)] ex_cfg_lines"
proof -
  have "classes_ok ex_adapt_world"
    by (simp add: classes_ok_def ex_adapt_world_def ex_defs)
  moreover have "adp_name_ok ''Unit''"
    by (simp add: adp_name_ok_def name_ok_def name_char_def c_isalnum_def c_isalpha_def c_islower_def c_isupper_def
        is_prefix_def)
  moreover have "dyn_visits None (w_cfg ex_adapt_world) = [0]" by (simp add: ex_adapt_world_def ex_defs)
  ultimately show ?thesis
    by (simp add: adaptable_def ex_cli_def reported_def head_ok_def lines_ok_def head_lines_def ex_cfg_lines_def
        ex_adapt_world_def ex_dyn_def)
qed

end
