(* ===== verification/ValOutput.thy ===== *)
theory ValOutput
  imports Process CText
begin

text \<open>
  Showing the values of the activated entries (\<open>src/src/valoutput.cpp\<close>). One object of each class
  is shown, the one with the index \<open>pr_idx\<close>, which the user moves. The text is what C++ streams
  print; on the way the shown values of the object become the values of the entry itself, the index
  is cut off at the last object, and a library that has just been moved is skipped once.
\<close>

subsection \<open>Numbers on a C++ stream\<close>

definition pr_int :: "int \<Rightarrow> string" where
  "pr_int k = (if k < 0 then ''-'' else []) @ pr_dec (nat \<bar>k\<bar>)"

text \<open>
  The positive number \<open>p / q\<close>: the exponent of its first decimal digit, and the six digits that are
  printed with their exponent; halves are rounded to the even digit.
\<close>

definition dec_exp :: "nat \<Rightarrow> nat \<Rightarrow> int" where
  "dec_exp p q = (if q \<le> p then int (length (pr_dec (p div q))) - 1
     else - int (length (pr_dec ((q + p - 1) div p - 1))))"

definition round_even :: "nat \<Rightarrow> nat \<Rightarrow> nat" where
  "round_even p q = (let k = p div q; r = p mod q in if q < 2 * r \<or> q = 2 * r \<and> odd k then k + 1 else k)"

definition six_digits :: "nat \<Rightarrow> nat \<Rightarrow> nat \<times> int" where
  "six_digits p q =
     (let e = dec_exp p q; m = round_even (p * 10 ^ nat (5 - e)) (q * 10 ^ nat (e - 5))
      in if m = 1000000 then (100000, e + 1) else (m, e))"

definition strip_zeros :: "string \<Rightarrow> string" where
  "strip_zeros ds = rev (dropWhile (\<lambda>c. c = CHR ''0'') (rev ds))"

definition point :: "string \<Rightarrow> string \<Rightarrow> string" where
  "point i f = (let f' = strip_zeros f in if f' = [] then i else i @ ''.'' @ f')"

definition pr_general :: "nat \<Rightarrow> nat \<Rightarrow> string" where
  "pr_general p q = (case six_digits p q of (m, e) \<Rightarrow>
     let ds = pr_dec m
     in if e < - 4 \<or> 6 \<le> e then
          point (take 1 ds) (drop 1 ds) @ ''e'' @ (if e < 0 then ''-'' else ''+'') @
          (if \<bar>e\<bar> < 10 then ''0'' else []) @ pr_dec (nat \<bar>e\<bar>)
        else if e < 0 then point ''0'' (replicate (nat (- e - 1)) CHR ''0'' @ ds)
        else point (take (nat e + 1) ds) (drop (nat e + 1) ds))"

text \<open>The default format of a floating point number of \<open>n\<close> bits.\<close>

definition pr_float :: "nat \<Rightarrow> value_t \<Rightarrow> string" where
  "pr_float n v = (if fp_neg n v then ''-'' else []) @
     (if fp_nan n v then ''nan'' else if fp_mag n v = fp_inf n then ''inf''
      else case fp_decode n v of (N, E) \<Rightarrow>
        if N = 0 then ''0'' else pr_general (nat \<bar>N\<bar> * 2 ^ nat E) (2 ^ nat (- E)))"

subsection \<open>One entry\<close>

definition UGT_PFX :: string where "UGT_PFX = ''[ugt] ''"

definition place_text :: "ptr \<Rightarrow> string" where
  "place_text a = '' at 0x'' @ pr_hex a @ '', Data: 0x''"

definition idx_text :: "u32 \<Rightarrow> string" where
  "idx_text i = ''['' @ pr_u32 i @ '']''"

text \<open>In parentheses: the string, or the number as its type says.\<close>

definition paren_text :: "string \<Rightarrow> string" where
  "paren_text s = '' ('' @ s @ '')'' @ [NL]"

definition quoted :: "string \<Rightarrow> string" where
  "quoted s = ''\"'' @ cstr s @ ''\"''"

definition value_text :: "cfg_entry \<Rightarrow> string" where
  "value_text c =
     (let ty = c_type c; v = c_old_val c; n = t_size ty;
          raw_text = pr_hex (if n = 64 then v else put 32 0 v)
      in case (if t_is_cstrp ty \<or> t_is_cstr ty then c_cstr c else None) of
           Some s \<Rightarrow> (if t_is_cstrp ty then pr_hex v else ''0'') @ paren_text (quoted s)
         | None \<Rightarrow>
             if t_is_float ty then
               (if n = 32 then pr_hex (put 32 0 v) @ paren_text (pr_float 32 v)
                else pr_hex v @ paren_text (pr_float 64 v))
             else let k = (if n \<in> {64, 32, 16} then nat n else 8)
                  in raw_text @ paren_text (pr_int (val_key (if t_is_signed ty then Sgn k else Uns k) v)))"

definition output_mem_val :: "nat \<Rightarrow> ptr \<Rightarrow> bool \<Rightarrow> world \<Rightarrow> string option" where
  "output_mem_val ci mem_offs is_dynmem w = do {
     c \<leftarrow> vget (w_cfg w) ci;
     let rest = place_text (c_addr c + mem_offs) @ value_text c;
     case c_ptrmem c of
       Some pi \<Rightarrow> do {
         p \<leftarrow> vget (w_ptr w) pi;
         idx \<leftarrow> (case p_dynmem p of
            None \<Rightarrow> Some []
          | Some di \<Rightarrow> map_option (\<lambda>d. if 1 < length (d_v_maddr d) then idx_text (d_pr_idx d) else [])
              (vget (w_dyn w) di));
         Some ('' -> '' @ c_name c @ idx @ rest) }
     | None \<Rightarrow> do {
         idx \<leftarrow> (if \<not> is_dynmem then Some []
           else do {
             di \<leftarrow> c_dynmem c;
             d \<leftarrow> vget (w_dyn w) di;
             Some (if 1 < length (d_v_maddr d) then idx_text (d_pr_idx d) else []) });
         Some (UGT_PFX @ c_name c @ idx @ rest) } }"

text \<open>The values of one object become those of the entry.\<close>

definition show_obj :: "nat \<Rightarrow> cfg_entry \<Rightarrow> cfg_entry option" where
  "show_obj i c = do {
     ov \<leftarrow> vget (c_v_oldval c) i;
     v \<leftarrow> vget (c_v_value c) i;
     s \<leftarrow> vget (c_v_cstr c) i;
     Some (c\<lparr>c_old_val := ov, c_value := v, c_cstr := s\<rparr>) }"

subsection \<open>The memory behind a pointer\<close>

primrec output_fields ::
  "nat option \<Rightarrow> ptr \<Rightarrow> nat list \<Rightarrow> string \<times> world \<Rightarrow> (string \<times> world) option" where
  "output_fields i mem_offs [] s = Some s"
| "output_fields i mem_offs (ci # cis) s = do {
     w \<leftarrow> (case i of None \<Rightarrow> Some (snd s) | Some i \<Rightarrow> mod_cfg ci (show_obj i) (snd s));
     txt \<leftarrow> output_mem_val ci mem_offs False w;
     output_fields i mem_offs cis (fst s @ txt, w) }"

definition output_ptrmem_values :: "nat \<Rightarrow> string \<times> world \<Rightarrow> (string \<times> world) option" where
  "output_ptrmem_values pi s = do {
     p \<leftarrow> vget (w_ptr (snd s)) pi;
     i \<leftarrow> (case p_dynmem p of
        None \<Rightarrow> Some None | Some di \<Rightarrow> map_option (\<lambda>d. Some (d_pr_idx d)) (vget (w_dyn (snd s)) di));
     let pr_idx = (case i of None \<Rightarrow> 0 | Some k \<Rightarrow> k);
     mem_offs \<leftarrow> vget (p_v_offs p) (unat pr_idx);
     if mem_offs = 0 then Some s
     else do {
       st \<leftarrow> vget (p_v_state p) (unat pr_idx);
       if st = PTR_INIT then Some s
       else output_fields (map_option unat i) mem_offs (p_cfg_act p)
         (fst s @ '' -> *'' @ p_name p @ idx_text pr_idx @ '' = 0x'' @ pr_hex mem_offs @ [NL], snd s) } }"

subsection \<open>All activated entries\<close>

text \<open>
  What is shown of an entry: its object or static memory with its address, or nothing. The index of
  the object is moved back to the last object first.
\<close>

definition clamp_idx :: "dynmem_entry \<Rightarrow> dynmem_entry" where
  "clamp_idx d = (if length (d_v_maddr d) \<le> unat (d_pr_idx d)
     then d\<lparr>d_pr_idx := of_nat (length (d_v_maddr d) - 1)\<rparr> else d)"

definition show_class ::
  "nat \<Rightarrow> nat \<Rightarrow> nat option \<Rightarrow> string \<times> world \<Rightarrow> ((ptr \<times> nat option) option \<times> string \<times> world) option" where
  "show_class ci di old s = do {
     d \<leftarrow> vget (w_dyn (snd s)) di;
     if d_v_maddr d = [] then Some (None, s)
     else do {
       w1 \<leftarrow> mod_dyn di (\<lambda>d. Some (clamp_idx d)) (snd s);
       d \<leftarrow> vget (w_dyn w1) di;
       mem_offs \<leftarrow> vget (d_v_maddr d) (unat (d_pr_idx d));
       w2 \<leftarrow> mod_cfg ci (show_obj (unat (d_pr_idx d))) w1;
       Some (Some (mem_offs, Some di),
         fst s @ (if old = Some di then []
           else UGT_PFX @ ''*'' @ d_name d @ idx_text (d_pr_idx d) @ '' = 0x'' @ pr_hex mem_offs @ '', '' @
                pr_dec (length (d_v_maddr d)) @ '' obj.'' @ [NL]), w2) } }"

definition show_static ::
  "cfg_entry \<Rightarrow> nat option \<Rightarrow> string \<times> world \<Rightarrow> ((ptr \<times> nat option) option \<times> string \<times> world) option" where
  "show_static c old s =
     (if t_on_stack (c_type c) then Some (None, s)
      else case t_lib (c_type c) of
        None \<Rightarrow> Some (Some (0, old), s)
      | Some li \<Rightarrow> do {
          l \<leftarrow> vget (w_lib (snd s)) li;
          Some (if l_start l = 0 then (None, s)
            else if l_skip_val l
            then (None, fst s, (snd s)\<lparr>w_lib := (w_lib (snd s))[li := l\<lparr>l_skip_val := False\<rparr>]\<rparr>)
            else (Some (0, old), s)) })"

text \<open>
  \<open>fails ci\<close>: the stream is broken after the entry \<open>ci\<close>, which ends the output with -1. \<open>old\<close> is the
  class that has been named last.
\<close>

primrec output_entries ::
  "(nat \<Rightarrow> bool) \<Rightarrow> nat list \<Rightarrow> nat option \<Rightarrow> string \<times> world \<Rightarrow> (int \<times> string \<times> world) option" where
  "output_entries fails [] old s = Some (0, s)"
| "output_entries fails (ci # cis) old s = do {
     c \<leftarrow> vget (w_cfg (snd s)) ci;
     (shown, s1) \<leftarrow> (case c_dynmem c of
        Some di \<Rightarrow> show_class ci di old s
      | None \<Rightarrow> show_static c old s);
     case shown of
       None \<Rightarrow> output_entries fails cis old s1
     | Some (mem_offs, old') \<Rightarrow> do {
         txt \<leftarrow> output_mem_val ci mem_offs (c_dynmem c \<noteq> None) (snd s1);
         s2 \<leftarrow> (case c_ptrtgt c of
            None \<Rightarrow> Some (fst s1 @ txt, snd s1)
          | Some pi \<Rightarrow> output_ptrmem_values pi (fst s1 @ txt, snd s1));
         if fails ci then Some (- 1, s2) else output_entries fails cis old' s2 } }"

definition output_mem_values :: "(nat \<Rightarrow> bool) \<Rightarrow> world \<Rightarrow> (int \<times> string \<times> world) option" where
  "output_mem_values fails w = output_entries fails (w_cfg_act w) None ([], w)"

end
