(* ===== verification/MainLoop.thy ===== *)
theory MainLoop
  imports ValOutput Control Trainer
begin

text \<open>
  The main loop of the trainer (\<open>src/src/ugtrain.cpp\<close>) with everything it calls: the keys of the
  user, the FIFO, the object tables, the values of the game and their output. One round is a
  function of the state and of what the round finds outside: the key, the bytes in the FIFO at both
  reads, the memory map, and whether the operating system lets it attach, write and print (each of the
  three reports of a round on its own). \<open>None\<close>
  is undefined behaviour, an exception, or the end of the program.
\<close>

record trainer =
  tr_game :: game
  tr_fifo :: fifo_static
  tr_sent :: "string list"
  tr_files :: files

record cycle_in =
  ci_key :: char
  ci_fifo1 :: string
  ci_fifo2 :: string
  ci_rlist1 :: "region list"
  ci_rlist2 :: "region list"
  ci_attached :: bool
  ci_detached :: bool
  ci_rlist :: "region list"
  ci_junk :: value_t
  ci_dyn_fails :: "nat \<Rightarrow> nat \<Rightarrow> bool"
  ci_val_fails :: "nat \<Rightarrow> bool"
  ci_env :: dump_env
  ci_maps :: "byte list"

abbreviation tr_world :: "trainer \<Rightarrow> world" where "tr_world t \<equiv> gw (tr_game t)"

definition on_game :: "(game \<Rightarrow> game option) \<Rightarrow> trainer \<Rightarrow> trainer option" where
  "on_game f t = map_option (\<lambda>g. t\<lparr>tr_game := g\<rparr>) (f (tr_game t))"

definition on_world :: "(world \<Rightarrow> world option) \<Rightarrow> trainer \<Rightarrow> trainer option" where
  "on_world f t = map_option (\<lambda>w. t\<lparr>tr_game := (tr_game t)\<lparr>gw := w\<rparr>\<rparr>) (f (tr_world t))"

subsection \<open>The steps\<close>

definition handle_key :: "(char \<Rightarrow> nat list option) \<Rightarrow> cycle_in \<Rightarrow> trainer \<Rightarrow> trainer option" where
  "handle_key keys i t =
     (let ch = ci_key i
      in if 0 < (of_char ch :: nat) \<and> (of_char ch :: nat) < 128 then
           map_option (\<lambda>(w, fs). t\<lparr>tr_game := (tr_game t)\<lparr>gw := w\<rparr>, tr_files := fs\<rparr>)
             (handle_input_char (ci_env i) (gmem (tr_game t)) (ci_maps i) keys ch (tr_world t, tr_files t))
         else Some t)"

text \<open>The callbacks end the program if the stack end of the game is not the one expected.\<close>

definition read_fifo :: "region list \<Rightarrow> string \<Rightarrow> trainer \<Rightarrow> trainer option" where
  "read_fifo rlist bs t =
     (case read_trainer_fifo rlist (tr_fifo t) \<lparr>f_data = bs, f_pos = 0\<rparr> (TRun (tr_world t) (tr_sent t)) of
        Some (st, _, TRun w out) \<Rightarrow> Some (t\<lparr>tr_game := (tr_game t)\<lparr>gw := w\<rparr>, tr_fifo := st, tr_sent := out\<rparr>)
      | _ \<Rightarrow> None)"

definition unless_pure :: "(trainer \<Rightarrow> trainer option) \<Rightarrow> trainer \<Rightarrow> trainer option" where
  "unless_pure f t = (if w_pure_statmem (tr_world t) then Some t else f t)"

definition report :: "(nat \<Rightarrow> bool) \<Rightarrow> trainer \<Rightarrow> trainer option" where
  "report fails = on_world (\<lambda>w. map_option snd (output_dynmem_changes fails w))"

definition check_heap :: "region list \<Rightarrow> world \<Rightarrow> world option" where
  "check_heap rlist w = Some (if w_heap_checks w then handle_heap_checks (get_heap_region rlist w) else w)"

definition late_pic :: "region list \<Rightarrow> world \<Rightarrow> world option" where
  "late_pic rlist w = fold_opt (\<lambda>li w. do {
     l \<leftarrow> vget (w_lib w) li;
     if l_is_loaded l then Some w else handle_statmem_pic True (find_lib_regions rlist w) })
       [0..<length (w_lib w)] w"

definition output_values :: "(nat \<Rightarrow> bool) \<Rightarrow> world \<Rightarrow> world option" where
  "output_values fails w = map_option (\<lambda>(_, _, w'). w') (output_mem_values fails w)"

subsection \<open>One round\<close>

text \<open>What follows the detaching from the game.\<close>

definition after_detach :: "cycle_in \<Rightarrow> trainer \<Rightarrow> trainer option" where
  "after_detach i t = do {
     t1 \<leftarrow> on_world (check_heap (ci_rlist i)) t;
     t2 \<leftarrow> on_world (late_pic (ci_rlist i)) t1;
     t3 \<leftarrow> unless_pure (\<lambda>t. report (ci_dyn_fails i 1) t \<bind> on_world free_dynmem) t2;
     t4 \<leftarrow> on_world (output_values (ci_val_fails i)) t3;
     unless_pure (\<lambda>t. do {
       t \<leftarrow> on_world (process_mallocs (PARSE_S OR PARSE_C)) t;
       t \<leftarrow> report (ci_dyn_fails i 2) t;
       on_world alloc_dynmem t }) t4 }"

definition main_cycle :: "(char \<Rightarrow> nat list option) \<Rightarrow> cycle_in \<Rightarrow> trainer \<Rightarrow> trainer option" where
  "main_cycle keys i t = do {
     t1 \<leftarrow> handle_key keys i t;
     t2 \<leftarrow> unless_pure (\<lambda>t. read_fifo (ci_rlist1 i) (ci_fifo1 i) t \<bind> report (ci_dyn_fails i 0)) t1;
     if w_cfg_act (tr_world t2) = [] then Some t2
     else do {
       t3 \<leftarrow> unless_pure (on_world free_dynmem) t2;
       if \<not> ci_attached i then Some t3
       else do {
         t4 \<leftarrow> unless_pure (read_fifo (ci_rlist2 i) (ci_fifo2 i)) t3;
         t5 \<leftarrow> on_game (process_act_cfg (ci_junk i)) t4;
         if \<not> ci_detached i then Some t5 else after_detach i t5 } } }"

subsection \<open>From the config to the loop\<close>

text \<open>
  The queue, of memory that is not initialised, and the handling of the addresses once the game
  runs; \<open>pure\<close>: no class has to be sent to the game. What has been sent is the reply to the
  notification.
\<close>

definition init_mq :: "string \<Rightarrow> mqueue" where
  "init_mq junk = \<lparr>mq_data = (take (4 * PIPE_BUF) junk)[0 := NUL, 4 * PIPE_BUF - 1 := NUL], mq_end = 0\<rparr>"

definition prepare_loop ::
  "bool \<Rightarrow> string \<Rightarrow> region list \<Rightarrow> region list \<Rightarrow> string option \<Rightarrow> world \<Rightarrow> (world \<times> string list) option" where
  "prepare_loop pure junk rlist1 rlist2 stat w = do {
     (w1, offs) \<leftarrow> handle_aslr [] [] rlist1 (w\<lparr>w_mq := init_mq junk, w_pure_statmem := pure\<rparr>);
     w2 \<leftarrow> handle_statmem_pie w1;
     w3 \<leftarrow> handle_statmem_pic False w2;
     case handle_stack_end stat rlist2 w3 of
       TRun w4 _ \<Rightarrow> Some (w4, case offs of None \<Rightarrow> [] | Some s \<Rightarrow> [s])
     | _ \<Rightarrow> None }"

definition start_trainer :: "gmem \<Rightarrow> files \<Rightarrow> world \<times> string list \<Rightarrow> trainer" where
  "start_trainer mem fs s = \<lparr>tr_game = \<lparr>gw = fst s, gmem = mem\<rparr>, tr_fifo = fifo_static_init,
     tr_sent = snd s, tr_files = fs\<rparr>"

end
