(* ===== verification/MainLoopInv.thy ===== *)
theory MainLoopInv
  imports MainLoop CfgActive ProcessInv
begin

text \<open>
  The whole main loop keeps what its parts rely on: the invariant of the object tables and of the
  queue, the lists of activated entries, and that every object of every class has its values. Most
  steps change values, addresses and caches only; they keep the \<open>shape\<close> of the tables.
\<close>

subsection \<open>The shape of the tables\<close>

definition cshape where
  "cshape c = (c_dynmem c, c_ptrtgt c, c_ptrmem c, length (c_v_oldval c), length (c_v_value c), length (c_v_cstr c))"

definition dshape where "dshape d = (length (d_v_maddr d), length (d_v_msize d), d_cfg_act d)"

definition pshape where "pshape p = (p_cfg p, p_cfg_act p, length (p_v_state p), length (p_v_offs p))"

definition shape where
  "shape w = (map cshape (w_cfg w), map dshape (w_dyn w), map pshape (w_ptr w), w_cfg_act w)"

lemma shapeD:
  assumes "shape w' = shape w"
  shows "length (w_cfg w') = length (w_cfg w)" "length (w_dyn w') = length (w_dyn w)"
    "length (w_ptr w') = length (w_ptr w)" "w_cfg_act w' = w_cfg_act w"
    "i < length (w_cfg w) \<Longrightarrow> cshape (w_cfg w' ! i) = cshape (w_cfg w ! i)"
    "i < length (w_dyn w) \<Longrightarrow> dshape (w_dyn w' ! i) = dshape (w_dyn w ! i)"
    "i < length (w_ptr w) \<Longrightarrow> pshape (w_ptr w' ! i) = pshape (w_ptr w ! i)"
proof -
  from assms have m: "map cshape (w_cfg w') = map cshape (w_cfg w)" "map dshape (w_dyn w') = map dshape (w_dyn w)"
    "map pshape (w_ptr w') = map pshape (w_ptr w)" "w_cfg_act w' = w_cfg_act w"
    by (simp_all add: shape_def)
  show l: "length (w_cfg w') = length (w_cfg w)" "length (w_dyn w') = length (w_dyn w)"
    "length (w_ptr w') = length (w_ptr w)" "w_cfg_act w' = w_cfg_act w"
    using m(1-3) [THEN arg_cong [where f = length]] m(4) by simp_all
  show "i < length (w_cfg w) \<Longrightarrow> cshape (w_cfg w' ! i) = cshape (w_cfg w ! i)"
    using arg_cong [OF m(1), of "\<lambda>l. l ! i"] l by simp
  show "i < length (w_dyn w) \<Longrightarrow> dshape (w_dyn w' ! i) = dshape (w_dyn w ! i)"
    using arg_cong [OF m(2), of "\<lambda>l. l ! i"] l by simp
  show "i < length (w_ptr w) \<Longrightarrow> pshape (w_ptr w' ! i) = pshape (w_ptr w ! i)"
    using arg_cong [OF m(3), of "\<lambda>l. l ! i"] l by simp
qed

lemma shape_calm:
  assumes s: "shape w' = shape w" shows "calm w w'"
proof -
  note D = shapeD [OF s]
  have "map c_dynmem (w_cfg w') = map c_dynmem (w_cfg w)" "map c_ptrmem (w_cfg w') = map c_ptrmem (w_cfg w)"
    using D(1,5) by (simp_all add: list_eq_iff_nth_eq cshape_def)
  moreover have "map d_cfg_act (w_dyn w') = map d_cfg_act (w_dyn w)"
    using D(2,6) by (simp add: list_eq_iff_nth_eq dshape_def)
  moreover have "map p_cfg_act (w_ptr w') = map p_cfg_act (w_ptr w)"
    using D(3,7) by (simp add: list_eq_iff_nth_eq pshape_def)
  ultimately show ?thesis by (simp add: calm_def act_view_def D(4))
qed

lemma shape_row:
  assumes s: "shape w' = shape w" and ok: "row_ok w k n"
  shows "row_ok w' k n" "foot w' k = foot w k" "pfoot w' k = pfoot w k"
proof -
  note D = row_okD [OF ok] and S = shapeD [OF s]
  have k: "c_ptrtgt (w_cfg w' ! k) = c_ptrtgt (w_cfg w ! k)"
    using S(5) [OF D(1)] by (simp add: cshape_def)
  then show pf: "pfoot w' k = pfoot w k" by (simp add: pfoot_def)
  have tf: "tgt_fields w' k = tgt_fields w k"
  proof (cases "c_ptrtgt (w_cfg w ! k)")
    case (Some pi)
    with D(3) [of pi] S(7) [of pi] k show ?thesis by (simp add: pfoot_def tgt_fields_def pshape_def)
  qed (simp add: tgt_fields_def k)
  then show "foot w' k = foot w k" by (simp add: foot_def)
  have cn: "cfg_n n (w_cfg w' ! i) = cfg_n n (w_cfg w ! i)" if "i < length (w_cfg w)" for i
    using S(5) [OF that] by (simp add: cfg_n_def cshape_def)
  have pn: "ptr_n n (w_ptr w' ! i) = ptr_n n (w_ptr w ! i)" if "i < length (w_ptr w)" for i
    using S(7) [OF that] by (simp add: ptr_n_def pshape_def)
  show "row_ok w' k n" using ok cn pn unfolding row_ok_def tf pf S(1,3) by auto
qed

lemma shape_wf:
  assumes s: "shape w' = shape w" and wf: "mem_wf w" shows "mem_wf w'"
proof -
  note S = shapeD [OF s]
  have dyn: "c_dynmem (w_cfg w' ! ci) = c_dynmem (w_cfg w ! ci)" if "ci < length (w_cfg w)" for ci
    using S(5) [OF that] by (simp add: cshape_def)
  have "\<forall>d \<in> set (w_dyn w'). length (d_v_msize d) = length (d_v_maddr d)"
  proof -
    have "length (d_v_msize (w_dyn w' ! i)) = length (d_v_maddr (w_dyn w' ! i))" if "i < length (w_dyn w)" for i
      using S(6) [OF that] wf that by (simp add: mem_wf_def dshape_def)
    then show ?thesis using S(2) by (auto simp: in_set_conv_nth)
  qed
  moreover have "di < length (w_dyn w') \<and> row_ok w' ci (length (c_v_oldval (w_cfg w' ! ci))) \<and>
      length (c_v_oldval (w_cfg w' ! ci)) \<le> length (d_v_maddr (w_dyn w' ! di))"
    if ci: "ci < length (w_cfg w)" "c_dynmem (w_cfg w' ! ci) = Some di" for ci di
  proof -
    have di: "c_dynmem (w_cfg w ! ci) = Some di" using ci dyn by simp
    note W = mem_wfD [OF wf ci(1) di]
    show ?thesis using W(1,3) shape_row(1) [OF s W(2)] S(2) S(5) [OF ci(1)] S(6) [OF W(1)]
      by (simp add: cshape_def dshape_def)
  qed
  moreover have "foot w' ci \<inter> foot w' cj = {} \<and> pfoot w' ci \<inter> pfoot w' cj = {}"
    if c: "ci < length (w_cfg w)" "cj < length (w_cfg w)" "ci \<noteq> cj"
      "c_dynmem (w_cfg w' ! ci) \<noteq> None" "c_dynmem (w_cfg w' ! cj) \<noteq> None" for ci cj
  proof -
    from c dyn obtain di dj where d: "c_dynmem (w_cfg w ! ci) = Some di" "c_dynmem (w_cfg w ! cj) = Some dj" by auto
    show ?thesis
      using mem_wf_disjoint [OF wf c(1-3) d] shape_row(2,3) [OF s mem_wfD(2) [OF wf c(1) d(1)]]
        shape_row(2,3) [OF s mem_wfD(2) [OF wf c(2) d(2)]] by simp
  qed
  ultimately show ?thesis by (simp add: mem_wf_def S(1))
qed

lemma shape_sync:
  assumes s: "shape w' = shape w" and wf: "mem_wf w" and sync: "in_sync w" shows "in_sync w'"
  unfolding in_sync_def
proof (intro allI impI ballI)
  note S = shapeD [OF s]
  fix ci di assume ci: "ci < length (w_cfg w')" and di: "di \<in> set_option (c_dynmem (w_cfg w' ! ci))"
  have ci': "ci < length (w_cfg w)" using ci S(1) by simp
  with di S(5) have di': "c_dynmem (w_cfg w ! ci) = Some di" by (simp add: cshape_def)
  have "row_ok w ci (length (d_v_maddr (w_dyn w ! di)))" using sync ci' di' by (simp add: in_sync_def)
  from shape_row(1) [OF s this] S(6) [OF mem_wfD(1) [OF wf ci' di']]
  show "row_ok w' ci (length (d_v_maddr (w_dyn w' ! di)))" by (simp add: dshape_def)
qed

subsection \<open>Steps that keep the shape and the queue\<close>

definition tview where "tview w = (shape w, w_mq w)"

lemma tviewD: "tview w' = tview w \<Longrightarrow> shape w' = shape w" "tview w' = tview w \<Longrightarrow> w_mq w' = w_mq w"
  by (simp_all add: tview_def)

lemma tame_fold:
  "fold_opt f xs w = Some w' \<Longrightarrow> (\<And>x v v'. f x v = Some v' \<Longrightarrow> tview v' = tview v) \<Longrightarrow> tview w' = tview w"
  by (rule fold_opt_pres [where I = "\<lambda>v. tview v = tview w" and f = f]) auto

lemma mod_cfg_tame:
  "mod_cfg ci f w = Some w' \<Longrightarrow> (\<And>c c'. f c = Some c' \<Longrightarrow> cshape c' = cshape c) \<Longrightarrow> tview w' = tview w"
  by (auto simp: mod_cfg_def bind_eq_Some_conv tview_def shape_def vec_simps intro!: map_update_same)

lemma mod_dyn_tame:
  "mod_dyn di f w = Some w' \<Longrightarrow> (\<And>d d'. f d = Some d' \<Longrightarrow> dshape d' = dshape d) \<Longrightarrow> tview w' = tview w"
  by (auto simp: mod_dyn_def bind_eq_Some_conv tview_def shape_def vec_simps intro!: map_update_same)

lemma mod_ptr_tame:
  "mod_ptr pi f w = Some w' \<Longrightarrow> (\<And>p p'. f p = Some p' \<Longrightarrow> pshape p' = pshape p) \<Longrightarrow> tview w' = tview w"
  by (auto simp: mod_ptr_def bind_eq_Some_conv tview_def shape_def vec_simps intro!: map_update_same)

lemma tame_same:
  "w_cfg w' = w_cfg w \<Longrightarrow> w_dyn w' = w_dyn w \<Longrightarrow> w_ptr w' = w_ptr w \<Longrightarrow> w_cfg_act w' = w_cfg_act w \<Longrightarrow>
     w_mq w' = w_mq w \<Longrightarrow> tview w' = tview w"
  by (simp add: tview_def shape_def)

named_theorems tames "operations that keep the shape and the queue"

lemma set_cache_tame [simp]: "tview (set_cache_list own cl w) = tview w"
  by (auto simp: set_cache_list_def tview_def shape_def dshape_def pshape_def split: cache_owner.split
      intro!: map_update_same)

lemma mod_cache_tame [tames]: "mod_cache r f w = Some w' \<Longrightarrow> tview w' = tview w"
  by (auto simp: mod_cache_def bind_eq_Some_conv)

lemma move_cache_tame [tames]: "move_cache r f w = Some w' \<Longrightarrow> tview w' = tview w"
  by (auto simp: move_cache_def bind_eq_Some_conv dest: mod_cache_tame)

lemma mod_check_tame [tames]: "mod_check ci ki f w = Some w' \<Longrightarrow> tview w' = tview w"
  unfolding mod_check_def by (erule mod_cfg_tame) (auto simp: bind_eq_Some_conv cshape_def)

subsubsection \<open>Processing the values\<close>

lemma upd_slot_length: "upd_slot i f x xs = Some (y, ys) \<Longrightarrow> length ys = length xs"
  by (auto simp: upd_slot_def bind_eq_Some_conv split: option.splits)

lemma upd_tame [tames]:
  "upd_old ci i f w = Some w' \<Longrightarrow> tview w' = tview w" "upd_value ci i f w = Some w' \<Longrightarrow> tview w' = tview w"
  "upd_cstr ci i f' w = Some w' \<Longrightarrow> tview w' = tview w"
  unfolding upd_old_def upd_value_def upd_cstr_def
  by (erule mod_cfg_tame; force simp: bind_eq_Some_conv cshape_def dest: upd_slot_length)+

lemma fill_buf_tame [tames]: "fill_buf ty cache p mo buf g = Some (ok, buf', g') \<Longrightarrow> tview (gw g') = tview (gw g)"
  by (auto simp: fill_buf_def bind_eq_Some_conv Let_def split: if_splits prod.splits dest: mod_cache_tame)

lemma kick_obj_tame [tames]: "kick_obj di w = Some w' \<Longrightarrow> tview w' = tview w"
  by (auto simp: kick_obj_def bind_eq_Some_conv dshape_def vec_simps split: option.splits elim!: mod_dyn_tame)

lemma check_buf_tame [tames]: "check_buf di k mo buf g = Some (r, g') \<Longrightarrow> tview (gw g') = tview (gw g)"
  by (auto simp: check_buf_def bind_eq_Some_conv split: if_splits option.splits prod.splits dest!: tames)

lemma process_checks_tame [tames]:
  "process_checks di ks mo buf g = Some (b, g') \<Longrightarrow> tview (gw g') = tview (gw g)"
proof (induction ks arbitrary: buf g)
  case (Cons k ks)
  from Cons.prems obtain missing where m: "lib_missing (k_type k) (gw g) = Some missing"
    by (auto simp: bind_eq_Some_conv)
  show ?case
  proof (cases "t_on_stack (k_type k) \<or> missing")
    case False
    with Cons.prems m obtain r g1 where r: "check_buf di k mo buf g = Some (r, g1)"
      by (auto simp: bind_eq_Some_conv)
    note v = check_buf_tame [OF r]
    consider "r = Inl ()" | "r = Inr None" | buf' where "r = Inr (Some buf')" by (cases r) auto
    then show ?thesis
    proof cases
      case (3 buf')
      with Cons.prems m False r v Cons.IH [of buf' g1] show ?thesis
        by (auto simp: bind_eq_Some_conv split: if_splits dest: kick_obj_tame)
    qed (use Cons.prems m False r v Cons.IH [of buf g1] in auto)
  qed (use Cons.prems m in auto)
qed simp

lemma handle_dynval_tame [tames]:
  "handle_dynval ct ci i rv mo g = Some g' \<Longrightarrow> tview (gw g') = tview (gw g)"
  using handle_dynval_effect [of ct ci i rv mo g g'] upd_tame by auto

lemma store_value_tame [tames]: "store_value ct c v w = Some w' \<Longrightarrow> tview w' = tview w"
  by (auto simp: store_value_def bind_eq_Some_conv Let_def split: if_splits dest!: tames)

lemma val_set_tame [tames]: "mod_cfg ci (\<lambda>c. Some (c\<lparr>c_val_set := b\<rparr>)) w = Some w' \<Longrightarrow> tview w' = tview w"
  by (erule mod_cfg_tame) (auto simp: cshape_def)

lemma change_mem_val_tame [tames]:
  "change_mem_val ct ci rv v mo junk g = Some g' \<Longrightarrow> tview (gw g') = tview (gw g)"
  by (auto simp: change_mem_val_def bind_eq_Some_conv split: if_splits prod.splits dest!: tames)

lemma change_memory_tame [tames]:
  "change_memory ci i buf mo junk g = Some g' \<Longrightarrow> tview (gw g') = tview (gw g)"
proof -
  assume h: "change_memory ci i buf mo junk g = Some g'"
  then obtain w1 c where w1: "mod_cfg ci (\<lambda>c. Some (c\<lparr>c_val_set := False\<rparr>)) (gw g) = Some w1"
    and c: "vget (w_cfg w1) ci = Some c" by (auto simp: change_memory_def bind_eq_Some_conv)
  show ?thesis
  proof (cases "value_type (c_type c)")
    case None
    with h w1 c val_set_tame [OF w1] show ?thesis by (auto simp: change_memory_def bind_eq_Some_conv)
  next
    case (Some ct)
    with h w1 c obtain w2 g3 v where "upd_old ci i (\<lambda>ov. put (width ct) ov buf) w1 = Some w2"
      and "handle_dynval ct ci i buf mo (g\<lparr>gw := w2\<rparr>) = Some g3"
      and "change_mem_val ct ci buf v mo junk g3 = Some g'"
      by (auto simp: change_memory_def bind_eq_Some_conv)
    then show ?thesis using val_set_tame [OF w1] by (auto dest!: tames)
  qed
qed

subsubsection \<open>Pointers and objects\<close>

lemma write_cache_tame: "write_cache i own g = Some g' \<Longrightarrow> tview (gw g') = tview (gw g)"
  by (auto simp: write_cache_def bind_eq_Some_conv split: if_splits dest: mod_cache_tame)

lemma game_fold_tame:
  "fold_opt f xs g = Some g' \<Longrightarrow> (\<And>x v v'. f x v = Some v' \<Longrightarrow> tview (gw v') = tview (gw v)) \<Longrightarrow>
     tview (gw g') = tview (gw g)"
  by (rule fold_opt_pres [where I = "\<lambda>v. tview (gw v) = tview (gw g)" and f = f]) auto

lemma buf_fold_tame:
  assumes f: "fold_opt f xs (buf, g) = Some (buf', g')"
    and step: "\<And>x v v'. f x v = Some v' \<Longrightarrow> tview (gw (snd v')) = tview (gw (snd v))"
  shows "tview (gw g') = tview (gw g)"
proof -
  have "tview (gw (snd (buf', g'))) = tview (gw g)"
    by (rule fold_opt_pres [where I = "\<lambda>v. tview (gw (snd v)) = tview (gw g)", OF _ _ f]) (simp_all add: step)
  then show ?thesis by simp
qed

lemma write_caches_tame [tames]: "write_caches own g = Some g' \<Longrightarrow> tview (gw g') = tview (gw g)"
  by (auto simp: write_caches_def bind_eq_Some_conv dest!: game_fold_tame [OF _ write_cache_tame])

lemma invalidate_caches_tame [tames]: "invalidate_caches own g = Some g' \<Longrightarrow> tview (gw g') = tview (gw g)"
  by (auto simp: invalidate_caches_def bind_eq_Some_conv)

lemma settle_tame [tames]: "settle pi i st a w = Some w' \<Longrightarrow> tview w' = tview w"
  unfolding settle_def by (erule mod_ptr_tame) (auto simp: bind_eq_Some_conv pshape_def vec_simps)

lemma process_field_tame:
  "process_field mi i junk ci st = Some st' \<Longrightarrow> tview (gw (snd st')) = tview (gw (snd st))"
  by (cases st) (auto simp: process_field_def bind_eq_Some_conv split: if_splits dest!: tames)

lemma follow_ptr_tame:
  assumes h: "follow_ptr pi c mi i mo junk (buf, g) = Some (buf', g')"
  shows "tview (gw g') = tview (gw g)"
proof -
  from h obtain passed g1 where g1: "process_checks (c_dynmem c) (c_checks c) mo junk g = Some (passed, g1)"
    by (auto simp: follow_ptr_def bind_eq_Some_conv)
  show ?thesis
  proof (cases passed)
    case True
    with h g1 process_checks_tame [OF g1] show ?thesis
      by (auto simp: follow_ptr_def bind_eq_Some_conv
          dest!: buf_fold_tame [OF _ process_field_tame] settle_tame invalidate_caches_tame write_caches_tame)
  qed (use h g1 process_checks_tame [OF g1] in \<open>auto simp: follow_ptr_def\<close>)
qed

lemma process_ptrmem_tame [tames]:
  assumes h: "process_ptrmem ci mi junk (buf, g) = Some (buf', g')"
  shows "tview (gw g') = tview (gw g)"
proof -
  from h obtain c pi p i mo old where "vget (w_cfg (gw g)) ci = Some c" "c_ptrtgt c = Some pi"
    "vget (w_ptr (gw g)) pi = Some p"
    and r: "(if mo = Some 0 \<or> buf = 0 then Some (buf, g)
     else do {
       ps \<leftarrow> vget (p_v_state p) mi;
       if ps = PTR_DONE then Some (buf, g)
       else if buf = old
       then follow_ptr pi c mi i (case mo of None \<Rightarrow> 0 | Some a \<Rightarrow> a) junk (buf, g)
       else do {
         w' \<leftarrow> upd_old ci i (\<lambda>_. buf) (gw g);
         Some (buf, g\<lparr>gw := w'\<rparr>) } }) = Some (buf', g')"
    unfolding process_ptrmem_def by (auto simp only: bind_eq_Some_conv prod.case)
  from r show ?thesis
    by (auto simp: bind_eq_Some_conv split: if_splits dest!: upd_tame(1) follow_ptr_tame)
qed

lemma process_obj_cfg_tame:
  assumes h: "process_obj_cfg di mi junk ci (buf, g) = Some (buf', g')"
  shows "tview (gw g') = tview (gw g)"
proof -
  have idx: "mod_dyn di (\<lambda>d. Some (d\<lparr>d_obj_idx := of_nat mi\<rparr>)) w = Some w1 \<Longrightarrow> tview w1 = tview w" for w w1
    by (erule mod_dyn_tame) (auto simp: dshape_def)
  from h show ?thesis
    by (auto simp: process_obj_cfg_def bind_eq_Some_conv split: if_splits
        dest!: idx fill_buf_tame process_ptrmem_tame change_memory_tame)
qed

lemma process_obj_tame:
  "process_obj di junk act mi (buf, g) = Some (buf', g') \<Longrightarrow> tview (gw g') = tview (gw g)"
  using process_obj_cfg_tame
  by (auto simp: process_obj_def bind_eq_Some_conv
      dest!: buf_fold_tame invalidate_caches_tame write_caches_tame)

lemma process_dynmem_tame [tames]:
  "process_dynmem_cfg_act di junk g = Some g' \<Longrightarrow> tview (gw g') = tview (gw g)"
  using process_obj_tame by (auto simp: process_dynmem_cfg_act_def bind_eq_Some_conv dest!: buf_fold_tame)

lemma process_static_tame [tames]:
  "process_static ci junk (buf, g) = Some (buf', g') \<Longrightarrow> tview (gw g') = tview (gw g)"
  by (auto simp: process_static_def bind_eq_Some_conv split: if_splits
      dest!: fill_buf_tame process_ptrmem_tame change_memory_tame)

lemma process_entries_tame [tames]:
  "process_entries junk old cis (buf, g) = Some (buf', g') \<Longrightarrow> tview (gw g') = tview (gw g)"
proof (induction cis arbitrary: old buf g)
  case (Cons ci cis)
  from Cons.prems obtain c where c: "vget (w_cfg (gw g)) ci = Some c" by (auto simp: bind_eq_Some_conv)
  show ?case
  proof (cases "c_dynmem c")
    case None
    with Cons.prems c Cons.IH show ?thesis by (auto simp: bind_eq_Some_conv dest!: process_static_tame)
  next
    case (Some di)
    with Cons.prems c Cons.IH show ?thesis
      by (auto simp: bind_eq_Some_conv split: if_splits dest!: process_dynmem_tame)
  qed
qed simp

lemma process_act_cfg_tame [tames]:
  assumes h: "process_act_cfg junk g = Some g'" shows "tview (gw g') = tview (gw g)"
proof -
  from h obtain l l' g1 buf g2 where i: "fold_opt invalidate_caches l g = Some g1"
    and e: "process_entries junk None (w_cfg_act (gw g1)) (0, g1) = Some (buf, g2)"
    and c: "fold_opt write_caches l' g2 = Some g'"
    unfolding process_act_cfg_def Let_def by (simp only: bind_eq_Some_conv) (auto simp del: fold_opt.simps)
  have "tview (gw g1) = tview (gw g)" by (rule game_fold_tame [OF i invalidate_caches_tame])
  moreover have "tview (gw g2) = tview (gw g1)" by (rule process_entries_tame [OF e])
  moreover have "tview (gw g') = tview (gw g2)" by (rule game_fold_tame [OF c write_caches_tame])
  ultimately show ?thesis by simp
qed

subsubsection \<open>The other steps of a round\<close>

lemma show_obj_tame: "mod_cfg ci (show_obj i) w = Some w' \<Longrightarrow> tview w' = tview w"
  by (erule mod_cfg_tame) (auto simp: show_obj_def bind_eq_Some_conv cshape_def)

lemma output_fields_tame: "output_fields i mo cis (tx, w) = Some (tx', w') \<Longrightarrow> tview w' = tview w"
proof (induction cis arbitrary: tx w)
  case (Cons ci cis)
  then show ?case by (cases i) (auto simp: bind_eq_Some_conv dest!: show_obj_tame)
qed simp

lemma output_ptrmem_tame: "output_ptrmem_values pi (tx, w) = Some (tx', w') \<Longrightarrow> tview w' = tview w"
  by (auto simp: output_ptrmem_values_def bind_eq_Some_conv Let_def split: if_splits dest!: output_fields_tame)

lemma clamp_tame: "mod_dyn di (\<lambda>d. Some (clamp_idx d)) w = Some w' \<Longrightarrow> tview w' = tview w"
  by (erule mod_dyn_tame) (auto simp: clamp_idx_def dshape_def)

lemma show_class_tame: "show_class ci di old (tx, w) = Some (r, tx', w') \<Longrightarrow> tview w' = tview w"
  by (auto simp: show_class_def bind_eq_Some_conv split: if_splits dest!: clamp_tame show_obj_tame)

lemma show_static_tame: "show_static c old (tx, w) = Some (r, tx', w') \<Longrightarrow> tview w' = tview w"
  by (auto simp: show_static_def bind_eq_Some_conv split: if_splits option.splits intro!: tame_same)

lemma output_entries_tame: "output_entries fails cis old (tx, w) = Some (r, tx', w') \<Longrightarrow> tview w' = tview w"
proof (induction cis arbitrary: old tx w)
  case (Cons ci cis)
  from Cons.prems obtain c shown t1 w1 where c: "vget (w_cfg w) ci = Some c"
    and s: "(case c_dynmem c of Some di \<Rightarrow> show_class ci di old (tx, w) | None \<Rightarrow> show_static c old (tx, w)) =
      Some (shown, t1, w1)" by (auto simp: bind_eq_Some_conv)
  have v: "tview w1 = tview w" using s show_class_tame show_static_tame by (cases "c_dynmem c") auto
  show ?case
  proof (cases shown)
    case None
    with Cons.prems c s v Cons.IH show ?thesis by (auto simp: bind_eq_Some_conv)
  next
    case (Some sh)
    obtain mo old' where sh: "sh = (mo, old')" by (cases sh)
    with Some Cons.prems c s obtain t2 t3 w3 where
      "(case c_ptrtgt c of None \<Rightarrow> Some (t2, w1) | Some pi \<Rightarrow> output_ptrmem_values pi (t2, w1)) = Some (t3, w3)"
      and k: "(if fails ci then Some (- 1, t3, w3) else output_entries fails cis old' (t3, w3)) = Some (r, tx', w')"
      by (auto simp: bind_eq_Some_conv cong: option.case_cong)
    then have "tview w3 = tview w" using v output_ptrmem_tame by (cases "c_ptrtgt c") auto
    with k Cons.IH show ?thesis by (auto split: if_splits)
  qed
qed simp

lemma output_values_tame [tames]: "output_values fails w = Some w' \<Longrightarrow> tview w' = tview w"
  by (auto simp: output_values_def output_mem_values_def dest: output_entries_tame)

lemma check_heap_tame [tames]: "check_heap rlist w = Some w' \<Longrightarrow> tview w' = tview w"
  by (auto simp: check_heap_def get_heap_region_def handle_heap_checks_def tview_def shape_def cshape_def
      split: prod.splits)

lemma mod_cfg_addr_tame [tames]:
  "mod_cfg ci (\<lambda>c. Some (c\<lparr>c_addr := a c\<rparr>)) w = Some w' \<Longrightarrow> tview w' = tview w"
  by (erule mod_cfg_tame) (auto simp: cshape_def)

lemma pic_check_tame: "pic_check ci ki w = Some w' \<Longrightarrow> tview w' = tview w"
  by (auto simp: pic_check_def bind_eq_Some_conv split: option.splits dest!: tames)

lemma pic_cfg_tame: "pic_cfg ci w = Some w' \<Longrightarrow> tview w' = tview w"
  by (auto simp: pic_cfg_def bind_eq_Some_conv split: if_splits option.splits
      dest!: tame_fold [OF _ pic_check_tame] mod_cfg_addr_tame move_cache_tame)

lemma pic_dump_tame: "pic_dump ui w = Some w' \<Longrightarrow> tview w' = tview w"
proof -
  assume "pic_dump ui w = Some w'"
  then obtain u le where "(case (le, u_lib u) of
       (Some le, Some li) \<Rightarrow>
         Some (w\<lparr>w_dump := (w_dump w)[ui := u\<lparr>u_addr := u_addr u + l_start le\<rparr>],
                 w_lib := (w_lib w)[li := le\<lparr>l_is_loaded := True\<rparr>]\<rparr>)
     | _ \<Rightarrow> Some w) = Some w'"
    unfolding pic_dump_def by (auto simp only: bind_eq_Some_conv)
  then show ?thesis by (cases le; cases "u_lib u") (auto intro!: tame_same)
qed

lemma handle_statmem_pic_tame: "handle_statmem_pic late w = Some w' \<Longrightarrow> tview w' = tview w"
proof -
  assume "handle_statmem_pic late w = Some w'"
  then obtain w1 w2 where w1: "fold_opt pic_cfg [0..<length (w_cfg w)] w = Some w1"
    and w2: "fold_opt pic_dump [0..<length (w_dump w1)] w1 = Some w2"
    and w': "w' = w2\<lparr>w_lib := map (pic_flags late) (w_lib w2)\<rparr>"
    by (auto simp: handle_statmem_pic_def bind_eq_Some_conv)
  have "tview w' = tview w2" by (rule tame_same) (simp_all add: w')
  with tame_fold [OF w1 pic_cfg_tame] tame_fold [OF w2 pic_dump_tame] show ?thesis by simp
qed

lemma find_lib_regions_tame: "tview (find_lib_regions rlist w) = tview w"
  by (rule tame_same) (simp_all add: find_lib_regions_def)

lemma late_pic_tame [tames]: "late_pic rlist w = Some w' \<Longrightarrow> tview w' = tview w"
  unfolding late_pic_def
  by (erule tame_fold) (auto simp: bind_eq_Some_conv find_lib_regions_tame split: if_splits
      dest!: handle_statmem_pic_tame)

lemma output_dynmem_loop_tame: "output_dynmem_loop fails dis w = Some (r, w') \<Longrightarrow> tview w' = tview w"
proof (induction dis arbitrary: w)
  case (Cons di dis)
  have "tview w2 = tview w1" if "mod_dyn di (\<lambda>d. Some (d\<lparr>d_num_alloc := 0\<rparr>)) w1 = Some w2" for w1 w2
    using that by (rule mod_dyn_tame) (auto simp: dshape_def)
  with Cons show ?case by (fastforce simp: bind_eq_Some_conv split: if_splits)
qed simp

subsection \<open>The steps that change the shape\<close>

text \<open>What has to hold at the start of every round.\<close>

definition tables_ready :: "world \<Rightarrow> bool" where
  "tables_ready w \<longleftrightarrow> mem_inv w \<and> in_sync w \<and> act_inv w"

lemma tables_ready_tame: "tview w' = tview w \<Longrightarrow> tables_ready w \<Longrightarrow> tables_ready w'"
  unfolding tables_ready_def mem_inv_def
  using shape_wf shape_sync act_inv_calm [OF shape_calm] tviewD by metis

lemma static_ptrmem: "static hc \<Longrightarrow> c_ptrmem (hc c) = c_ptrmem c"
proof -
  assume "static hc"
  then obtain f g h where "hc c = edit_cfg f g h c" unfolding static_def by blast
  then show ?thesis by (simp add: edit_cfg_def)
qed

lemma pstatic_act: "pstatic hp \<Longrightarrow> p_cfg_act (hp p) = p_cfg_act p"
proof -
  assume "pstatic hp"
  then obtain f g where "hp p = edit_ptr f g p" unfolding pstatic_def by blast
  then show ?thesis by (simp add: edit_ptr_def)
qed

lemma wmap_calm:
  assumes "\<And>k. static (F k)" "\<And>k. pstatic (G k)" shows "calm w (wmap F G w)"
proof -
  have "w_cfg_act (wmap F G w) = w_cfg_act w" by (simp add: wmap_def)
  with assms show ?thesis
    by (simp add: calm_def act_view_def list_eq_iff_nth_eq static_sel static_ptrmem pstatic_act)
qed

lemma free_dynmem_calm: assumes wf: "mem_wf w" and f: "free_dynmem w = Some w'" shows "calm w w'"
proof -
  obtain F G where fg: "fold_opt free_cfg [0..<length (w_cfg w)] w = Some (wmap F G w)"
    and e: "free_rows.edited w (length (w_cfg w)) F G" using free_rows.rows_loop [OF wf] by blast
  have "calm w (wmap F G w)" using e by (intro wmap_calm) (simp_all add: free_rows.edited_def)
  moreover have "calm (wmap F G w) w'"
  proof (rule fold_opt_pres [where I = "calm (wmap F G w)"])
    show "fold_opt (\<lambda>di. mod_dyn di purge_dyn) (dyn_visits None (w_cfg (wmap F G w))) (wmap F G w) = Some w'"
      using f fg by (simp add: free_dynmem_def)
    fix di v v' assume c: "calm (wmap F G w) v" and m: "mod_dyn di purge_dyn v = Some v'"
    from m have "calm v v'" by (rule mod_dyn_calm) (auto simp: purge_dyn_def bind_eq_Some_conv)
    with c show "calm (wmap F G w) v'" by (rule calm_trans)
  qed simp
  ultimately show ?thesis by (rule calm_trans)
qed

lemma free_dynmem_sync:
  assumes wf: "mem_wf w" and sync: "in_sync w" and f: "free_dynmem w = Some w'"
  shows "in_sync w'"
  unfolding in_sync_def
proof (intro allI impI ballI)
  have wf': "mem_wf w'" using free_dynmem_rows [OF wf] f by auto
  note C = calmD [OF free_dynmem_calm [OF wf f]]
  fix ci di assume ci: "ci < length (w_cfg w')" and "di \<in> set_option (c_dynmem (w_cfg w' ! ci))"
  then have di': "c_dynmem (w_cfg w' ! ci) = Some di" by simp
  have ci0: "ci < length (w_cfg w)" using ci C(1) by simp
  have di0: "c_dynmem (w_cfg w ! ci) = Some di" using di' C(5) [OF ci0] by simp
  let ?a = "d_v_maddr (w_dyn w ! di)" and ?a' = "d_v_maddr (w_dyn w' ! di)"
  have a': "?a' = filter (\<lambda>a. a \<noteq> 0) ?a" and r: "rows w' di ci = filter (\<lambda>r. fst r \<noteq> 0) (rows w di ci)"
    using free_dynmem_rows [OF wf] f ci0 di0 by (auto simp: foot_def)
  have n: "cfg_n (length ?a) (w_cfg w ! ci)"
    using sync ci0 di0 row_okD(2) [of w ci "length ?a" ci] by (simp add: in_sync_def foot_def)
  have "map fst (rows w di ci) = ?a" using n by (simp add: rows_def cfg_n_def)
  moreover have "length (filter (\<lambda>r. fst r \<noteq> 0) (rows w di ci)) =
      length (filter (\<lambda>a. a \<noteq> 0) (map fst (rows w di ci)))"
    by (simp add: filter_map comp_def)
  ultimately have len: "length (rows w' di ci) = length ?a'" unfolding r a' by simp
  note W = mem_wfD [OF wf' ci di']
  have "cfg_n (length (c_v_oldval (w_cfg w' ! ci))) (w_cfg w' ! ci)"
    using row_okD(2) [OF W(2), of ci] by (simp add: foot_def)
  then have "length (rows w' di ci) = length (c_v_oldval (w_cfg w' ! ci))"
    using W(3) by (simp add: rows_def cfg_n_def)
  with len W(2) show "row_ok w' ci (length ?a')" by simp
qed

lemma free_dynmem_inv:
  assumes inv: "tables_ready w" and f: "free_dynmem w = Some w'" shows "tables_ready w'"
proof -
  have wf: "mem_wf w" and sync: "in_sync w" and act: "act_inv w" using inv by (auto simp: tables_ready_def mem_inv_def)
  have "mem_inv w'" using mem_step_inv [OF step_gc [OF f]] inv by (simp add: tables_ready_def)
  with free_dynmem_sync [OF wf sync f] act_inv_calm [OF free_dynmem_calm [OF wf f] act] show ?thesis
    by (simp add: tables_ready_def)
qed

text \<open>Processing the queue appends addresses, and the allocation of the values catches up.\<close>

lemma alloc_addr_in_calm: "alloc_addr_in a n code cs w = Some w' \<Longrightarrow> calm w w'"
proof (induction cs)
  case (Cons c cs)
  have "calm w w2" if "mod_dyn di (\<lambda>d. Some (d\<lparr>d_v_maddr := d_v_maddr d @ [a],
      d_v_msize := d_v_msize d @ [n], d_num_alloc := d_num_alloc d + 1\<rparr>)) w = Some w2" for di w2
    using that by (rule mod_dyn_calm) auto
  with Cons show ?case by (auto simp: bind_eq_Some_conv split: option.splits if_splits)
qed simp

lemma process_mallocs_calm:
  assumes "mem_inv w" "process_mallocs (PARSE_S OR PARSE_C) w = Some w'" shows "calm w w'"
proof -
  obtain ms where "mq_holds (w_mq w) ms" using assms(1) by (auto simp: mem_inv_def)
  from process_mallocs_eq [OF this] assms(2) obtain w1 where w1: "alloc_all ms w = Some w1"
    and w': "w' = w1\<lparr>w_mq := mq_reset (w_mq w)\<rparr>" by (cases "alloc_all ms w") simp_all
  have "calm w w1"
    by (rule fold_opt_pres [where I = "calm w", OF _ _ w1 [unfolded alloc_all_def]])
      (auto simp: alloc_dynmem_addr_def elim!: calm_trans [OF _ alloc_addr_in_calm])
  moreover have "calm w1 w'" by (rule calm_same) (simp_all add: w')
  ultimately show ?thesis by (rule calm_trans)
qed

lemma alloc_dynmem_calm: assumes wf: "mem_wf w" and a: "alloc_dynmem w = Some w'" shows "calm w w'"
proof -
  obtain F G where fg: "fold_opt alloc_cfg [0..<length (w_cfg w)] w = Some (wmap F G w)"
    and e: "alloc_rows.edited w (length (w_cfg w)) F G" using alloc_rows.rows_loop [OF wf] by blast
  have "calm w (wmap F G w)" using e by (intro wmap_calm) (simp_all add: alloc_rows.edited_def)
  with a fg show ?thesis by (simp add: alloc_dynmem_def)
qed

lemma alloc_queued_wf:
  assumes "mem_inv w" "process_mallocs (PARSE_S OR PARSE_C) w = Some w1" "tview w2 = tview w1"
  shows "mem_wf w2" "mq_holds (w_mq w2) []"
proof -
  obtain ms where "mq_holds (w_mq w) ms" using assms(1) by (auto simp: mem_inv_def)
  with process_mallocs_wf [of w ms] assms(1,2) have "mem_wf w1" "mq_holds (w_mq w1) []"
    by (auto simp: mem_inv_def)
  with shape_wf tviewD [OF assms(3)] show "mem_wf w2" "mq_holds (w_mq w2) []" by auto
qed

lemma alloc_queued_inv:
  assumes inv: "mem_inv w" "act_inv w" and p: "process_mallocs (PARSE_S OR PARSE_C) w = Some w1"
    and v: "tview w2 = tview w1" and a: "alloc_dynmem w2 = Some w3"
  shows "tables_ready w3" "mq_holds (w_mq w3) []"
proof -
  note w2 = alloc_queued_wf [OF inv(1) p v]
  have act: "act_inv w3"
    using act_inv_calm [OF process_mallocs_calm [OF inv(1) p] inv(2)] act_inv_calm [OF shape_calm [OF tviewD(1) [OF v]]]
      act_inv_calm [OF alloc_dynmem_calm [OF w2(1) a]] by simp
  show "mq_holds (w_mq w3) []" using alloc_dynmem_mq [OF w2(1) a] w2(2) by simp
  with alloc_dynmem_rows [OF w2(1)] a act show "tables_ready w3" by (auto simp: tables_ready_def mem_inv_def)
qed

subsection \<open>Messages\<close>

lemma stack_check_tame: "stack_check e ci ki w = Some w' \<Longrightarrow> tview w' = tview w"
  by (auto simp: stack_check_def bind_eq_Some_conv split: if_splits dest!: tames)

lemma stack_cfg_tame: "stack_cfg e ci w = Some w' \<Longrightarrow> tview w' = tview w"
proof -
  assume a: "stack_cfg e ci w = Some w'"
  have m: "tview v = tview u" if "mod_cfg ci (\<lambda>c. Some (c\<lparr>c_addr := e - c_addr c,
      c_type := (c_type c)\<lparr>t_on_stack := False\<rparr>\<rparr>)) u = Some v" for u v
    using that by (rule mod_cfg_tame) (auto simp: cshape_def)
  from a show ?thesis
    by (auto simp: stack_cfg_def bind_eq_Some_conv split: if_splits
        dest!: tame_fold [OF _ stack_check_tame] move_cache_tame m)
qed

lemma stack_end_tame: "process_stack_end w = Some w' \<Longrightarrow> tview w' = tview w"
  by (auto simp: process_stack_end_def bind_eq_Some_conv tview_def shape_def split: if_splits
      dest!: tame_fold [OF _ stack_cfg_tame])

lemma lib_addr_tame:
  "get_lib_load_addr rlist name w out = TRun w' out' \<Longrightarrow> tview w' = tview w"
  by (auto simp: get_lib_load_addr_def t_opt_def late_code_def dshape_def
      split: prod.splits option.splits if_splits dest!: tame_fold intro: mod_dyn_tame)

text \<open>A message keeps the shape; an allocation only goes into the queue.\<close>

lemma clear_shape:
  assumes wf: "mem_wf w" and c: "clear_dynmem_addr x w = Some w'" shows "shape w' = shape w"
proof -
  have v: "\<forall>c \<in> set (w_cfg w). \<forall>di. c_dynmem c = Some di \<longrightarrow> di < length (w_dyn w)"
    using mem_wfD(1) [OF wf] by (auto simp: in_set_conv_nth)
  from clear_addr_in_effect [OF wf v, of x] obtain w1 where
    w1: "clear_addr_in x (w_cfg w) w = Some w1" "clear_effect x (set (w_cfg w)) w w1" by blast
  have "shape w1 = shape w"
    using w1(2) by (auto simp: clear_effect_def shape_def dshape_def cleared_def intro!: map_update_same)
  with c w1(1) show ?thesis
    by (auto simp: clear_dynmem_addr_def bind_eq_Some_conv shape_def split: if_splits)
qed

lemma handle_msg_shape:
  assumes wf: "mem_wf w" and h: "handle_msg rlist (TRun w out) m = TRun w' out'"
  shows "shape w' = shape w"
proof (cases m)
  case (MMalloc a n c)
  with h show ?thesis
    by (auto simp: handle_msg_def trainer_mfm_def t_upd_def t_opt_def shape_def bind_eq_Some_conv split: option.splits)
next
  case (MFree a)
  with h clear_shape [OF wf, of a] show ?thesis
    by (auto simp: handle_msg_def trainer_ff_def t_upd_def t_opt_def split: option.splits)
next
  case (MLib name)
  with h have "get_lib_load_addr rlist name w out = TRun w' out'"
    by (simp add: handle_msg_def trainer_lf_def t_upd_def)
  from tviewD(1) [OF lib_addr_tame [OF this]] show ?thesis .
next
  case (MStack a)
  with h have v: "verify_stack_end a w out = TRun w' out'"
    by (simp add: handle_msg_def trainer_sf_def t_upd_def)
  show ?thesis
  proof (cases "w_stack_end w = a")
    case False
    with v have "process_stack_end (w\<lparr>w_stack_end := a\<rparr>) = Some w'"
      by (auto simp: verify_stack_end_def t_opt_def split: if_splits option.splits)
    from tviewD(1) [OF stack_end_tame [OF this]] show ?thesis by (simp add: shape_def)
  qed (use v in \<open>simp add: verify_stack_end_def\<close>)
qed

lemma tables_ready_msg:
  assumes inv: "tables_ready w" and h: "handle_msg rlist (TRun w out) m = TRun w' out'"
    and room: "\<And>a n c. m = MMalloc a n c \<Longrightarrow> mq_room (w_mq w) (a, n, c)"
  shows "tables_ready w'"
proof -
  have wf: "mem_wf w" and m: "mem_inv w" and sync: "in_sync w" and act: "act_inv w"
    using inv by (auto simp: tables_ready_def mem_inv_def)
  note s = handle_msg_shape [OF wf h]
  from handle_msg_inv [OF m h room] shape_sync [OF s wf sync] act_inv_calm [OF shape_calm [OF s] act] show ?thesis
    by (simp add: tables_ready_def)
qed

text \<open>The queue holds a round if it has room for the text of all allocations.\<close>

definition queue_text :: "msg list \<Rightarrow> nat" where
  "queue_text ms = sum_list (map (\<lambda>m. case m of MMalloc a n c \<Rightarrow> length (render m) | _ \<Rightarrow> 0) ms)"

definition queue_fits :: "mqueue \<Rightarrow> msg list \<Rightarrow> bool" where
  "queue_fits mq ms \<longleftrightarrow> mq_end mq + queue_text ms < length (mq_data mq)"

lemma fits_view: "queue_fits q (m # ms) \<Longrightarrow> mq_end q' = mq_end q \<Longrightarrow> mq_data q' = mq_data q \<Longrightarrow> queue_fits q' ms"
  by (auto simp: queue_fits_def queue_text_def split: msg.splits)

lemma queue_msg_fits:
  assumes "queue_fits q (MMalloc a n c # ms)" "queue_msg (render (MMalloc a n c)) q = Some q'"
  shows "queue_fits q' ms"
  using assms
  by (auto simp: queue_fits_def queue_text_def queue_msg_def snprintf_s_def overwrite_def Let_def
      simp del: length_render split: if_splits)

lemma rm_malloc_fits:
  "rm_malloc_from x ps q = Some (b, q') \<Longrightarrow> ps \<noteq> 0 \<Longrightarrow> mq_end q' \<le> mq_end q \<and> length (mq_data q') = length (mq_data q)"
proof (induction x ps q rule: rm_malloc_from.induct)
  case (1 x ps q)
  show ?case
  proof (cases "strchr (mq_data q) ps NL")
    case None
    with 1(2) show ?thesis by (simp add: rm_malloc_from.simps)
  next
    case (Some nl)
    note nl = strchr_SomeD(1,2) [OF Some]
    show ?thesis
    proof (cases "scan_ptr (cstr (drop ps (mq_data q)))")
      case None
      with 1(2) Some show ?thesis by (simp add: rm_malloc_from.simps Let_def)
    next
      case (Some r)
      then obtain a rest where s: "scan_ptr (cstr (drop ps (mq_data q))) = Some (a, rest)" by (cases r) auto
      show ?thesis
      proof (cases "a = x")
        case True
        with 1(2,3) \<open>strchr (mq_data q) ps NL = Some nl\<close> s nl show ?thesis
          by (auto simp: rm_malloc_from.simps [of x ps q] Let_def overwrite_def split: if_splits)
      next
        case False
        with 1 \<open>strchr (mq_data q) ps NL = Some nl\<close> s show ?thesis
          by (auto simp: rm_malloc_from.simps [of x ps q] Let_def split: if_splits)
      qed
    qed
  qed
qed

lemma clear_fits: "clear_dynmem_addr x w = Some w' \<Longrightarrow> mem_wf w \<Longrightarrow> queue_fits (w_mq w) ms \<Longrightarrow> queue_fits (w_mq w') ms"
proof -
  assume c: "clear_dynmem_addr x w = Some w'" and wf: "mem_wf w" and f: "queue_fits (w_mq w) ms"
  obtain b q where q: "remove_malloc_from_queue (w_mq w) x = Some (b, q)"
    using c by (auto simp: clear_dynmem_addr_def bind_eq_Some_conv)
  have len: "mq_end q \<le> mq_end (w_mq w) \<and> length (mq_data q) = length (mq_data (w_mq w))"
    using q rm_malloc_fits [of x 1 "w_mq w" b q] by (auto simp: remove_malloc_from_queue_def split: if_splits)
  show ?thesis
  proof (cases b)
    case True
    with c q len f show ?thesis by (auto simp: clear_dynmem_addr_def queue_fits_def)
  next
    case False
    have v: "\<forall>c \<in> set (w_cfg w). \<forall>di. c_dynmem c = Some di \<longrightarrow> di < length (w_dyn w)"
      using mem_wfD(1) [OF wf] by (auto simp: in_set_conv_nth)
    from clear_addr_in_effect [OF wf v, of x] clear_effect_wf(2) [OF wf] False c q f show ?thesis
      by (auto simp: clear_dynmem_addr_def)
  qed
qed

lemma handle_msg_fits:
  assumes wf: "mem_wf w" and h: "handle_msg rlist (TRun w out) m = TRun w' out'" and f: "queue_fits (w_mq w) (m # ms)"
  shows "queue_fits (w_mq w') ms"
proof (cases m)
  case (MMalloc a n c)
  have "cstr (render (MMalloc a n c)) = render (MMalloc a n c)"
    using msg_body_chars [of "MMalloc a n c"] by (simp add: render_def cstr_append cstr_Cons)
  with h MMalloc obtain q where "queue_msg (render (MMalloc a n c)) (w_mq w) = Some q" "w' = w\<lparr>w_mq := q\<rparr>"
    by (auto simp: handle_msg_def trainer_mfm_def t_upd_def t_opt_def bind_eq_Some_conv split: option.splits)
  with queue_msg_fits f MMalloc show ?thesis by auto
next
  case (MFree a)
  with f have "queue_fits (w_mq w) ms" by (simp add: queue_fits_def queue_text_def)
  with clear_fits [OF _ wf, of a w' ms] h MFree show ?thesis
    by (auto simp: handle_msg_def trainer_ff_def t_upd_def t_opt_def split: option.splits)
next
  case (MLib name)
  with h have "get_lib_load_addr rlist name w out = TRun w' out'"
    by (simp add: handle_msg_def trainer_lf_def t_upd_def)
  from tviewD(2) [OF lib_addr_tame [OF this]] f MLib show ?thesis by (simp add: queue_fits_def queue_text_def)
next
  case (MStack a)
  with h have v: "verify_stack_end a w out = TRun w' out'"
    by (simp add: handle_msg_def trainer_sf_def t_upd_def)
  have "w_mq w' = w_mq w"
  proof (cases "w_stack_end w = a")
    case False
    with v have "process_stack_end (w\<lparr>w_stack_end := a\<rparr>) = Some w'"
      by (auto simp: verify_stack_end_def t_opt_def split: if_splits option.splits)
    from tviewD(2) [OF stack_end_tame [OF this]] show ?thesis by simp
  qed (use v in \<open>simp add: verify_stack_end_def\<close>)
  with f MStack show ?thesis by (simp add: queue_fits_def queue_text_def)
qed

lemma handle_msgs_ready:
  "tables_ready w \<Longrightarrow> queue_fits (w_mq w) (ms @ ms') \<Longrightarrow> foldl (handle_msg rlist) (TRun w out) ms = TRun w' out' \<Longrightarrow>
     tables_ready w' \<and> queue_fits (w_mq w') ms' \<and> length (w_cfg w') = length (w_cfg w)"
proof (induction ms arbitrary: w out)
  case (Cons m ms)
  have wf: "mem_wf w" using Cons.prems(1) by (simp add: tables_ready_def mem_inv_def)
  show ?case
  proof (cases "handle_msg rlist (TRun w out) m")
    case (TRun w1 out1)
    have room: "mq_room (w_mq w) (a, n, c)" if "m = MMalloc a n c" for a n c
      using Cons.prems(2) that by (simp add: queue_fits_def queue_text_def mq_room_def del: length_render)
    have 1: "tables_ready w1" by (rule tables_ready_msg [OF Cons.prems(1) TRun room])
    have 2: "queue_fits (w_mq w1) (ms @ ms')" using handle_msg_fits [OF wf TRun] Cons.prems(2) by simp
    have 3: "length (w_cfg w1) = length (w_cfg w)" using shapeD(1) [OF handle_msg_shape [OF wf TRun]] .
    from Cons.IH [OF 1 2, of out1] Cons.prems(3) TRun 3 show ?thesis by simp
  qed (use Cons.prems(3) in \<open>simp_all add: stopped_stays\<close>)
qed simp

subsection \<open>Keys\<close>

lemma dump_ptr_objs_tame: "dump_ptr_objs env mem mid ci p is (w, fs) = Some (w', fs') \<Longrightarrow> tview w' = tview w"
proof (induction "is" arbitrary: w fs)
  case (Cons i "is")
  have "tview w2 = tview w1" if "mod_cfg ci (\<lambda>c. Some (c\<lparr>c_old_val := ov\<rparr>)) w1 = Some w2" for w1 w2 ov
    using that by (rule mod_cfg_tame) (auto simp: cshape_def)
  with Cons show ?case by (fastforce simp: bind_eq_Some_conv)
qed simp

lemma dump_ptrs_tame: "dump_ptrs env mem cis mid (w, fs) = Some (w', fs') \<Longrightarrow> tview w' = tview w"
proof (induction cis arbitrary: mid w fs)
  case (Cons ci cis)
  from Cons.prems obtain c where c: "vget (w_cfg w) ci = Some c" by (auto simp: bind_eq_Some_conv)
  show ?case
  proof (cases "c_ptrtgt c")
    case None
    with Cons.prems c Cons.IH show ?thesis by simp
  next
    case (Some pi)
    with Cons.prems c obtain p w1 fs1 where
      s: "(case c_dynmem c of
            None \<Rightarrow> map_option (Pair w) (dump_ptr env mem mid 0 (c_old_val c) p fs)
          | Some di \<Rightarrow> do {
              d \<leftarrow> vget (w_dyn w) di;
              dump_ptr_objs env mem mid ci p [0..<length (d_v_maddr d)] (w, fs) }) = Some (w1, fs1)"
      and k: "dump_ptrs env mem cis (mid + 1) (w1, fs1) = Some (w', fs')"
      by (auto simp: bind_eq_Some_conv cong: option.case_cong)
    from s have "tview w1 = tview w"
      by (auto simp: bind_eq_Some_conv split: option.splits dest: dump_ptr_objs_tame)
    with Cons.IH [OF k] show ?thesis by simp
  qed
qed simp

lemma dump_all_tame: "dump_all_mem_obj env mem maps (w, fs) = Some (w', fs') \<Longrightarrow> tview w' = tview w"
  by (auto simp: dump_all_mem_obj_def bind_eq_Some_conv Let_def dest: dump_ptrs_tame)

text \<open>Toggling changes nothing but the lists.\<close>

lemma mod_ptr_view:
  "mod_ptr pi f w = Some w' \<Longrightarrow> (\<And>p p'. f p = Some p' \<Longrightarrow> ptr_part p' = ptr_part p) \<Longrightarrow> mem_view w' = mem_view w"
  by (auto simp: mod_ptr_def bind_eq_Some_conv mem_view_def vec_simps intro!: map_update_same)

lemma upd_used_view: "upd_used c f w = Some w' \<Longrightarrow> mem_view w' = mem_view w"
  by (auto simp: upd_used_def mem_view_def ptr_part_def split: option.splits dest!: mod_ptr_view)

lemma upd_class_view: "upd_class_act c f w = Some w' \<Longrightarrow> mem_view w' = mem_view w"
  by (auto simp: upd_class_act_def dyn_part_def split: option.splits dest!: mod_dyn_view)

lemma toggle_view: "toggle_cfg l w = Some w' \<Longrightarrow> mem_view w' = mem_view w"
proof (unfold toggle_cfg_def, induction l arbitrary: w)
  case (Cons ci l)
  have "mem_view w1 = mem_view w" if "toggle_entry ci w = Some w1" for w1
    using that by (auto simp: toggle_entry_def bind_eq_Some_conv split: if_splits dest!: upd_used_view upd_class_view)
  with Cons show ?case by (fastforce simp: bind_eq_Some_conv)
qed simp

lemma mem_view_sync:
  assumes v: "mem_view w' = mem_view w" and wf: "mem_wf w" and sync: "in_sync w" shows "in_sync w'"
  unfolding in_sync_def
proof (intro allI impI ballI)
  note V = mem_viewD [OF v]
  fix ci di assume "ci < length (w_cfg w')" and di: "di \<in> set_option (c_dynmem (w_cfg w' ! ci))"
  then have ci: "ci < length (w_cfg w)" using V(1) by simp
  with di V(5) have di': "c_dynmem (w_cfg w ! ci) = Some di" by (simp add: mem_part_def)
  have "row_ok w ci (length (d_v_maddr (w_dyn w ! di)))" using sync ci di' by (simp add: in_sync_def)
  from row_ok_view(1) [OF v this] V(6) [OF mem_wfD(1) [OF wf ci di']]
  show "row_ok w' ci (length (d_v_maddr (w_dyn w' ! di)))" by (simp add: dyn_part_def)
qed

lemma handle_char_ready:
  assumes inv: "tables_ready w" "keys_ok keys (length (w_cfg w))"
    and h: "handle_input_char env mem maps keys ch (w, fs) = Some (w', fs')"
  shows "tables_ready w' \<and> length (w_cfg w') = length (w_cfg w) \<and> w_mq w' = w_mq w"
proof (cases "ch = CHR ''>'' \<or> ch = CHR ''+'' \<or> ch = CHR ''-''")
  case True
  have idx: "tview w2 = tview w1" if "change_mvec_pridx mode w1 = Some w2" for mode w1 w2
    using that unfolding change_mvec_pridx_def
    by (rule tame_fold) (auto simp: dshape_def elim!: mod_dyn_tame)
  have "tview w' = tview w"
    using True h by (auto simp: handle_input_char_def split: if_splits dest: dump_all_tame idx)
  with inv show ?thesis using tables_ready_tame shapeD(1) tviewD by blast
next
  case False
  have act: "act_inv w" "mem_inv w" "in_sync w" "mem_wf w" using inv(1) by (auto simp: tables_ready_def mem_inv_def)
  have v: "mem_view w' = mem_view w"
    using False h by (auto simp: handle_input_char_def split: option.splits dest: toggle_view)
  from handle_input_char_act [OF act(1) inv(2), of ch env mem maps fs] False h
  have "act_inv w'" by auto
  with mem_inv_view [OF v act(2)] mem_view_sync [OF v act(4,3)] mem_viewD(1,4) [OF v] show ?thesis
    by (simp add: tables_ready_def)
qed

text \<open>A dump does not change which entries are active, so the keys toggle them whatever else is pressed.\<close>

lemma dump_char_act:
  assumes "act_inv w" "handle_input_char env mem maps keys CHR ''>'' (w, fs) = Some (w', fs')"
  shows "act_inv w' \<and> length (w_cfg w') = length (w_cfg w) \<and> (\<forall>ci < length (w_cfg w). is_active w' ci = is_active w ci)"
proof -
  from assms(2) have "tview w' = tview w" by (auto simp: handle_input_char_def dest: dump_all_tame)
  then have "calm w w'" using shape_calm tviewD(1) by blast
  from act_inv_calm [OF this assms(1)] is_active_calm [OF this assms(1)] calmD(1) [OF this] show ?thesis by blast
qed

lemma keys_run_act:
  assumes "act_inv w" "keys_ok keys (length (w_cfg w))"
    "fold_opt (handle_input_char env mem maps keys) chs (w, fs) = Some (w', fs')"
  shows "act_inv w' \<and>
    (\<forall>ci < length (w_cfg w). is_active w' ci \<longleftrightarrow> is_active w ci \<noteq> odd (count_list (concat (map (pressed keys) chs)) ci))"
  using assms
proof (induction chs arbitrary: w fs)
  case (Cons ch chs)
  from Cons.prems(3) obtain w1 fs1 where 1: "handle_input_char env mem maps keys ch (w, fs) = Some (w1, fs1)"
    and r: "fold_opt (handle_input_char env mem maps keys) chs (w1, fs1) = Some (w', fs')"
    by (auto simp: bind_eq_Some_conv)
  have w1: "act_inv w1 \<and> length (w_cfg w1) = length (w_cfg w) \<and>
      (\<forall>ci < length (w_cfg w). is_active w1 ci \<longleftrightarrow> is_active w ci \<noteq> odd (count_list (pressed keys ch) ci))"
  proof (cases "ch = CHR ''>''")
    case True
    with dump_char_act [OF Cons.prems(1)] 1 show ?thesis by (simp add: pressed_def)
  next
    case False
    from handle_input_char_act [OF Cons.prems(1,2) False, of env mem maps fs] 1 show ?thesis by auto
  qed
  from Cons.IH [OF _ _ r] w1 Cons.prems(2)
  have w2: "act_inv w'" "\<And>ci. ci < length (w_cfg w) \<Longrightarrow>
      is_active w' ci \<longleftrightarrow> is_active w1 ci \<noteq> odd (count_list (concat (map (pressed keys) chs)) ci)" by auto
  have "is_active w' ci \<longleftrightarrow> is_active w ci \<noteq> odd (count_list (concat (map (pressed keys) (ch # chs))) ci)"
    if "ci < length (w_cfg w)" for ci
  proof -
    have "is_active w' ci \<longleftrightarrow> (is_active w ci \<noteq> odd (count_list (pressed keys ch) ci)) \<noteq>
        odd (count_list (concat (map (pressed keys) chs)) ci)"
      using w1 w2(2) [OF that] that by blast
    then show ?thesis by (auto simp: count_list_append)
  qed
  with w2(1) show ?case by blast
qed simp

subsection \<open>Rounds\<close>

text \<open>
  What holds at the start of every round, and what a round needs from the game: complete messages up
  to a rest, which come in any pieces, and no more allocations than the queue can hold.
\<close>

definition tr_rest :: "trainer \<Rightarrow> string" where
  "tr_rest t = take (nat (fs_ilen (tr_fifo t))) (fs_ibuf (tr_fifo t))"

definition loop_inv :: "(char \<Rightarrow> nat list option) \<Rightarrow> trainer \<Rightarrow> bool" where
  "loop_inv keys t \<longleftrightarrow> tables_ready (tr_world t) \<and> keys_ok keys (length (w_cfg (tr_world t))) \<and>
     pending PIPE_BUF (tr_fifo t) (tr_rest t)"

definition cut_msgs :: "string \<Rightarrow> msg list \<Rightarrow> string \<Rightarrow> bool" where
  "cut_msgs bs ms pe \<longleftrightarrow> bs = stream ms @ pe \<and> (\<forall>m \<in> set ms. wf_msg m \<and> length (render m) < PIPE_BUF) \<and>
     partial_msg pe \<and> length pe < PIPE_BUF"

definition fed :: "cycle_in \<Rightarrow> trainer \<Rightarrow> bool" where
  "fed i t \<longleftrightarrow> (\<exists>ms1 pe1 ms2 pe2. cut_msgs (tr_rest t @ ci_fifo1 i) ms1 pe1 \<and> cut_msgs (pe1 @ ci_fifo2 i) ms2 pe2 \<and>
     queue_fits (w_mq (tr_world t)) (ms1 @ ms2))"

lemma pending_rest: "pending PIPE_BUF (tr_fifo t) p \<Longrightarrow> tr_rest t = p"
  by (simp add: pending_def tr_rest_def)

lemma read_fifo_ready:
  assumes inv: "loop_inv keys t" and c: "cut_msgs (tr_rest t @ bs) ms pe" and f: "queue_fits (w_mq (tr_world t)) (ms @ ms')"
    and r: "read_fifo rlist bs t = Some t'"
  shows "loop_inv keys t' \<and> tr_rest t' = pe \<and> queue_fits (w_mq (tr_world t')) ms'"
proof -
  have rd: "tables_ready (tr_world t)" and p: "pending PIPE_BUF (tr_fifo t) (tr_rest t)" and k: "keys_ok keys (length (w_cfg (tr_world t)))"
    using inv by (simp_all add: loop_inv_def)
  from read_trainer_stream [OF p, of "\<lparr>f_data = bs, f_pos = 0\<rparr>" ms pe rlist "TRun (tr_world t) (tr_sent t)"] c
  obtain st' f' where "read_trainer_fifo rlist (tr_fifo t) \<lparr>f_data = bs, f_pos = 0\<rparr> (TRun (tr_world t) (tr_sent t)) =
      Some (st', f', foldl (handle_msg rlist) (TRun (tr_world t) (tr_sent t)) ms)" and p': "pending PIPE_BUF st' pe"
    by (auto simp: cut_msgs_def)
  with r obtain w' out' where m: "foldl (handle_msg rlist) (TRun (tr_world t) (tr_sent t)) ms = TRun w' out'"
    and t': "t' = t\<lparr>tr_game := (tr_game t)\<lparr>gw := w'\<rparr>, tr_fifo := st', tr_sent := out'\<rparr>"
    by (auto simp: read_fifo_def split: tstate.splits)
  have p'': "pending PIPE_BUF (tr_fifo t') pe" using p' t' by simp
  from handle_msgs_ready [OF rd f m] k p'' pending_rest [OF p''] t' show ?thesis by (simp add: loop_inv_def)
qed

text \<open>A step on the world that keeps the view of the tables.\<close>

lemma on_world_loop:
  assumes inv: "loop_inv keys t" and f: "\<And>w'. f (tr_world t) = Some w' \<Longrightarrow> tables_ready w' \<and> length (w_cfg w') = length (w_cfg (tr_world t))"
    and s: "on_world f t = Some t'"
  shows "loop_inv keys t' \<and> tr_rest t' = tr_rest t"
proof -
  from s obtain w' where w': "f (tr_world t) = Some w'" "t' = t\<lparr>tr_game := (tr_game t)\<lparr>gw := w'\<rparr>\<rparr>"
    by (auto simp: on_world_def)
  with f [OF w'(1)] inv show ?thesis by (simp add: loop_inv_def tr_rest_def)
qed

lemma tame_loop:
  assumes inv: "loop_inv keys t" and f: "\<And>w'. f (tr_world t) = Some w' \<Longrightarrow> tview w' = tview (tr_world t)"
    and s: "on_world f t = Some t'"
  shows "loop_inv keys t' \<and> tr_rest t' = tr_rest t \<and> w_mq (tr_world t') = w_mq (tr_world t)"
proof -
  have "tables_ready w' \<and> length (w_cfg w') = length (w_cfg (tr_world t))" if "f (tr_world t) = Some w'" for w'
    using tables_ready_tame [OF f [OF that]] shapeD(1) [OF tviewD(1) [OF f [OF that]]] inv by (simp add: loop_inv_def)
  from on_world_loop [OF inv this s] f s show ?thesis by (auto simp: on_world_def dest: tviewD(2))
qed

lemma report_tame: "map_option snd (output_dynmem_changes fails w) = Some w' \<Longrightarrow> tview w' = tview w"
  by (auto simp: output_dynmem_changes_def dest: output_dynmem_loop_tame)

lemma report_loop:
  "loop_inv keys t \<Longrightarrow> report fails t = Some t' \<Longrightarrow>
     loop_inv keys t' \<and> tr_rest t' = tr_rest t \<and> w_mq (tr_world t') = w_mq (tr_world t)"
  unfolding report_def by (rule tame_loop [OF _ report_tame])

lemma free_loop:
  assumes inv: "loop_inv keys t" and s: "on_world free_dynmem t = Some t'"
  shows "loop_inv keys t' \<and> tr_rest t' = tr_rest t \<and> w_mq (tr_world t') = w_mq (tr_world t)"
proof -
  have r: "tables_ready (tr_world t)" using inv by (simp add: loop_inv_def)
  then have wf: "mem_wf (tr_world t)" by (simp add: tables_ready_def mem_inv_def)
  have "tables_ready w' \<and> length (w_cfg w') = length (w_cfg (tr_world t))" if "free_dynmem (tr_world t) = Some w'" for w'
    using free_dynmem_inv [OF r that] calmD(1) [OF free_dynmem_calm [OF wf that]] by simp
  from on_world_loop [OF inv this s] free_dynmem_mq [OF wf] s show ?thesis by (auto simp: on_world_def)
qed

lemma unless_pureD:
  "unless_pure f t = Some t' \<Longrightarrow> (\<And>t'. f t = Some t' \<Longrightarrow> P t') \<Longrightarrow> P t \<Longrightarrow> P t'"
  by (auto simp: unless_pure_def split: if_splits)

lemma handle_key_loop:
  assumes inv: "loop_inv keys t" and s: "handle_key keys i t = Some t'"
  shows "loop_inv keys t' \<and> tr_rest t' = tr_rest t \<and> w_mq (tr_world t') = w_mq (tr_world t)"
proof (cases "0 < (of_char (ci_key i) :: nat) \<and> (of_char (ci_key i) :: nat) < 128")
  case True
  with s obtain w' fs' where h: "handle_input_char (ci_env i) (gmem (tr_game t)) (ci_maps i) keys (ci_key i)
      (tr_world t, tr_files t) = Some (w', fs')"
    and t': "t' = t\<lparr>tr_game := (tr_game t)\<lparr>gw := w'\<rparr>, tr_files := fs'\<rparr>" by (auto simp: handle_key_def)
  from handle_char_ready [OF _ _ h] inv t' show ?thesis by (auto simp: loop_inv_def tr_rest_def)
qed (use s inv in \<open>auto simp: handle_key_def\<close>)

lemma process_loop:
  assumes inv: "loop_inv keys t" and s: "on_game (process_act_cfg junk) t = Some t'"
  shows "loop_inv keys t' \<and> tr_rest t' = tr_rest t"
proof -
  from s obtain g' where g': "process_act_cfg junk (tr_game t) = Some g'" "t' = t\<lparr>tr_game := g'\<rparr>"
    by (auto simp: on_game_def)
  note v = process_act_cfg_tame [OF g'(1)]
  from tables_ready_tame [OF v] shapeD(1) [OF tviewD(1) [OF v]] inv g'(2) show ?thesis
    by (simp add: loop_inv_def tr_rest_def)
qed

lemma queue_loop:
  assumes inv: "loop_inv keys t"
    and s: "do {
       t \<leftarrow> on_world (process_mallocs (PARSE_S OR PARSE_C)) t;
       t \<leftarrow> report fails t;
       on_world alloc_dynmem t } = Some t'"
  shows "loop_inv keys t'"
proof -
  have rd: "mem_inv (tr_world t)" "act_inv (tr_world t)" using inv by (simp_all add: loop_inv_def tables_ready_def)
  from s obtain w1 t2 w3 where w1: "process_mallocs (PARSE_S OR PARSE_C) (tr_world t) = Some w1"
    and t2: "report fails (t\<lparr>tr_game := (tr_game t)\<lparr>gw := w1\<rparr>\<rparr>) = Some t2"
    and w3: "alloc_dynmem (tr_world t2) = Some w3" "t' = t2\<lparr>tr_game := (tr_game t2)\<lparr>gw := w3\<rparr>\<rparr>"
    by (auto simp: bind_eq_Some_conv on_world_def)
  from t2 obtain w2 where "map_option snd (output_dynmem_changes fails w1) = Some w2"
    and "t2 = t\<lparr>tr_game := (tr_game t)\<lparr>gw := w2\<rparr>\<rparr>" by (auto simp: report_def on_world_def)
  with report_tame have v: "tview (tr_world t2) = tview w1" and rest: "tr_fifo t2 = tr_fifo t" by auto
  have "calm (tr_world t) w3"
    using process_mallocs_calm [OF rd(1) w1] shape_calm [OF tviewD(1) [OF v]] alloc_dynmem_calm [OF _ w3(1)]
      alloc_queued_wf [OF rd(1) w1 v] by (blast intro: calm_trans)
  with alloc_queued_inv(1) [OF rd w1 v w3(1)] calmD(1) inv w3(2) rest show ?thesis
    by (auto simp: loop_inv_def tr_rest_def)
qed

lemma after_detach_loop:
  assumes inv: "loop_inv keys t" and s: "after_detach i t = Some t'"
  shows "loop_inv keys t'"
proof -
  from s obtain t1 t2 t3 t4 where
    t1: "on_world (check_heap (ci_rlist i)) t = Some t1" and t2: "on_world (late_pic (ci_rlist i)) t1 = Some t2"
    and t3: "unless_pure (\<lambda>t. report (ci_dyn_fails i 1) t \<bind> on_world free_dynmem) t2 = Some t3"
    and t4: "on_world (output_values (ci_val_fails i)) t3 = Some t4"
    and t': "unless_pure (\<lambda>t. do {
       t \<leftarrow> on_world (process_mallocs (PARSE_S OR PARSE_C)) t;
       t \<leftarrow> report (ci_dyn_fails i 2) t;
       on_world alloc_dynmem t }) t4 = Some t'"
    unfolding after_detach_def bind_eq_Some_conv by blast
  have 1: "loop_inv keys t1" using tame_loop [OF inv check_heap_tame t1] by simp
  have 2: "loop_inv keys t2" using tame_loop [OF 1 late_pic_tame t2] by simp
  have 3: "loop_inv keys t3"
  proof (rule unless_pureD [where P = "loop_inv keys", OF t3])
    fix u assume "report (ci_dyn_fails i 1) t2 \<bind> on_world free_dynmem = Some u"
    then obtain r where r: "report (ci_dyn_fails i 1) t2 = Some r" "on_world free_dynmem r = Some u"
      by (auto simp: bind_eq_Some_conv)
    from report_loop [OF 2 r(1)] have "loop_inv keys r" by simp
    from free_loop [OF this r(2)] show "loop_inv keys u" by simp
  qed (rule 2)
  have 4: "loop_inv keys t4" using tame_loop [OF 3 output_values_tame t4] by simp
  show ?thesis
    by (rule unless_pureD [where P = "loop_inv keys", OF t' _ 4]) (rule queue_loop [OF 4])
qed

lemma main_cycle_loop:
  assumes inv: "loop_inv keys t" and fed: "fed i t" and s: "main_cycle keys i t = Some t'"
  shows "loop_inv keys t'"
proof -
  from fed obtain ms1 pe1 ms2 pe2 where c1: "cut_msgs (tr_rest t @ ci_fifo1 i) ms1 pe1"
    and c2: "cut_msgs (pe1 @ ci_fifo2 i) ms2 pe2" and f: "queue_fits (w_mq (tr_world t)) (ms1 @ ms2)"
    by (auto simp: fed_def)
  from s obtain t1 t2 where t1: "handle_key keys i t = Some t1"
    and t2: "unless_pure (\<lambda>t. read_fifo (ci_rlist1 i) (ci_fifo1 i) t \<bind> report (ci_dyn_fails i 0)) t1 = Some t2"
    by (auto simp: main_cycle_def bind_eq_Some_conv)
  have 1: "loop_inv keys t1" "tr_rest t1 = tr_rest t" "w_mq (tr_world t1) = w_mq (tr_world t)"
    using handle_key_loop [OF inv t1] by simp_all
  have 2: "loop_inv keys t2 \<and> (w_pure_statmem (tr_world t2) \<or> tr_rest t2 = pe1 \<and> queue_fits (w_mq (tr_world t2)) ms2)"
  proof (cases "w_pure_statmem (tr_world t1)")
    case True
    with t2 1 show ?thesis by (simp add: unless_pure_def)
  next
    case False
    with t2 obtain r where r: "read_fifo (ci_rlist1 i) (ci_fifo1 i) t1 = Some r" "report (ci_dyn_fails i 0) r = Some t2"
      by (auto simp: unless_pure_def bind_eq_Some_conv)
    have "loop_inv keys r \<and> tr_rest r = pe1 \<and> queue_fits (w_mq (tr_world r)) ms2"
      by (rule read_fifo_ready [OF 1(1) _ _ r(1), of ms1]) (simp_all add: 1 c1 f)
    with report_loop [OF _ r(2), of keys] show ?thesis by simp
  qed
  show ?thesis
  proof (cases "w_cfg_act (tr_world t2) = []")
    case True
    with s t1 t2 2 show ?thesis by (simp add: main_cycle_def)
  next
    case False
    with s t1 t2 obtain t3 where t3: "unless_pure (on_world free_dynmem) t2 = Some t3"
      and k: "(if \<not> ci_attached i then Some t3
       else do {
         t4 \<leftarrow> unless_pure (read_fifo (ci_rlist2 i) (ci_fifo2 i)) t3;
         t5 \<leftarrow> on_game (process_act_cfg (ci_junk i)) t4;
         if \<not> ci_detached i then Some t5 else after_detach i t5 }) = Some t'"
      by (auto simp: main_cycle_def bind_eq_Some_conv)
    have 3: "loop_inv keys t3"
      "\<not> w_pure_statmem (tr_world t3) \<Longrightarrow> tr_rest t3 = pe1 \<and> queue_fits (w_mq (tr_world t3)) ms2"
      using t3 2 free_loop [of keys t2 t3] by (auto simp: unless_pure_def split: if_splits)
    show ?thesis
    proof (cases "ci_attached i")
      case False
      with k 3 show ?thesis by simp
    next
      case True
      with k obtain t4 t5 where t4: "unless_pure (read_fifo (ci_rlist2 i) (ci_fifo2 i)) t3 = Some t4"
        and t5: "on_game (process_act_cfg (ci_junk i)) t4 = Some t5"
        and t': "(if \<not> ci_detached i then Some t5 else after_detach i t5) = Some t'"
        by (auto simp: bind_eq_Some_conv)
      have 4: "loop_inv keys t4"
        using t4 3 read_fifo_ready [OF 3(1), of "ci_fifo2 i" ms2 pe2 "[]" "ci_rlist2 i" t4] c2
        by (auto simp: unless_pure_def split: if_splits)
      have 5: "loop_inv keys t5" using process_loop [OF 4 t5] by simp
      with t' after_detach_loop show ?thesis by (auto split: if_splits)
    qed
  qed
qed

text \<open>Any number of rounds, each with its own input.\<close>

inductive loop_run :: "(char \<Rightarrow> nat list option) \<Rightarrow> trainer \<Rightarrow> cycle_in list \<Rightarrow> trainer \<Rightarrow> bool" for keys where
  run_nil: "loop_run keys t [] t"
| run_cons: "main_cycle keys i t = Some t1 \<Longrightarrow> fed i t \<Longrightarrow> loop_run keys t1 is t' \<Longrightarrow> loop_run keys t (i # is) t'"

lemma loop_run_inv: "loop_run keys t is t' \<Longrightarrow> loop_inv keys t \<Longrightarrow> loop_inv keys t'"
  by (induction rule: loop_run.induct) (auto intro: main_cycle_loop)

subsection \<open>The start\<close>

lemma aslr_dynmem_shape: "aslr_dynmem rlist offs d acc = Some (d', acc') \<Longrightarrow> dshape d' = dshape d"
  by (auto simp: aslr_dynmem_def bind_eq_Some_conv dshape_def Let_def split: option.splits)

lemma aslr_loop_tame: "aslr_loop rlist offs dis (w, acc) = Some (w', acc') \<Longrightarrow> tview w' = tview w"
proof (induction dis arbitrary: w acc)
  case (Cons di dis)
  from Cons.prems obtain d d' acc1 where d: "di < length (w_dyn w)" "d = w_dyn w ! di"
    "aslr_dynmem rlist offs d acc = Some (d', acc1)"
    and k: "aslr_loop rlist offs dis (w\<lparr>w_dyn := (w_dyn w)[di := d']\<rparr>, acc1) = Some (w', acc')"
    by (auto simp: bind_eq_Some_conv vec_simps)
  have "tview (w\<lparr>w_dyn := (w_dyn w)[di := d']\<rparr>) = tview w"
    using aslr_dynmem_shape [OF d(3)] d(1,2) by (auto simp: tview_def shape_def intro!: map_update_same)
  with Cons.IH [OF k] show ?case by simp
qed simp

lemma handle_aslr_tame: "handle_aslr [] [] rlist w = Some (w', offs) \<Longrightarrow> tview w' = tview w"
proof -
  assume h: "handle_aslr [] [] rlist w = Some (w', offs)"
  obtain s e exe where x: "find_exe_region rlist = (s, e, exe)" by (cases "find_exe_region rlist") auto
  let ?w = "(find_lib_regions rlist w)\<lparr>w_code_offs := exe\<rparr>"
  have v: "tview ?w = tview w"
    by (rule trans [OF tame_same find_lib_regions_tame [of rlist w]]) simp_all
  from h x have "w' = ?w \<or> (\<exists>acc. aslr_loop rlist exe (dyn_visits None (w_cfg ?w)) (?w, []) = Some (w', acc))"
    by (auto simp: handle_aslr_def bind_eq_Some_conv Let_def split: if_splits)
  with v aslr_loop_tame show ?thesis by auto
qed

lemma pie_check_tame: "pie_check offs ci ki w = Some w' \<Longrightarrow> tview w' = tview w"
  by (auto simp: pie_check_def bind_eq_Some_conv split: if_splits dest!: tames)

lemma pie_cfg_tame: "pie_cfg offs ci w = Some w' \<Longrightarrow> tview w' = tview w"
  by (auto simp: pie_cfg_def bind_eq_Some_conv split: if_splits
      dest!: tame_fold [OF _ pie_check_tame] mod_cfg_addr_tame move_cache_tame)

lemma handle_statmem_pie_tame: "handle_statmem_pie w = Some w' \<Longrightarrow> tview w' = tview w"
  by (auto simp: handle_statmem_pie_def bind_eq_Some_conv Let_def tview_def shape_def
      dest!: tame_fold [OF _ pie_cfg_tame])

lemma handle_stack_end_tame: "handle_stack_end stat rlist w = TRun w' out \<Longrightarrow> tview w' = tview w"
proof -
  assume h: "handle_stack_end stat rlist w = TRun w' out"
  have b: "tview ((get_stack_bounds rlist w)\<lparr>w_stack_end := x\<rparr>) = tview w" for x
    by (rule tame_same) (simp_all add: get_stack_bounds_def split: prod.split)
  from h obtain x where "w' = (get_stack_bounds rlist w)\<lparr>w_stack_end := x\<rparr> \<or>
      process_stack_end ((get_stack_bounds rlist w)\<lparr>w_stack_end := x\<rparr>) = Some w'"
    by (auto simp: handle_stack_end_def Let_def t_opt_def split: if_splits option.splits)
  with b stack_end_tame show ?thesis by auto
qed

lemma prepare_loopE:
  assumes "prepare_loop pure junk rlist1 rlist2 stat w = Some (w', out)"
  obtains w1 offs w2 w3 out' where
    "handle_aslr [] [] rlist1 (w\<lparr>w_mq := init_mq junk, w_pure_statmem := pure\<rparr>) = Some (w1, offs)"
    "handle_statmem_pie w1 = Some w2" "handle_statmem_pic False w2 = Some w3"
    "handle_stack_end stat rlist2 w3 = TRun w' out'"
proof -
  from assms [unfolded prepare_loop_def bind_eq_Some_conv] obtain r w2 w3 where
    s: "handle_aslr [] [] rlist1 (w\<lparr>w_mq := init_mq junk, w_pure_statmem := pure\<rparr>) = Some r"
    "handle_statmem_pie (fst r) = Some w2" "handle_statmem_pic False w2 = Some w3"
    and e: "(case handle_stack_end stat rlist2 w3 of
       TRun w4 _ \<Rightarrow> Some (w4, case snd r of None \<Rightarrow> [] | Some s \<Rightarrow> [s])
     | _ \<Rightarrow> None) = Some (w', out)"
    by (auto simp: split_def bind_eq_Some_conv simp del: split_paired_Ex)
  from e obtain out' where "handle_stack_end stat rlist2 w3 = TRun w' out'" by (auto split: tstate.splits)
  from that [of "fst r" "snd r", OF _ s(2,3) this] s(1) show thesis by simp
qed

lemma prepare_loop_shape:
  assumes p: "prepare_loop pure junk rlist1 rlist2 stat w = Some (w', out)"
  shows "shape w' = shape w" "w_mq w' = init_mq junk"
proof -
  let ?w = "w\<lparr>w_mq := init_mq junk, w_pure_statmem := pure\<rparr>"
  from p obtain w1 offs w2 w3 out' where s: "handle_aslr [] [] rlist1 ?w = Some (w1, offs)"
    "handle_statmem_pie w1 = Some w2" "handle_statmem_pic False w2 = Some w3" "handle_stack_end stat rlist2 w3 = TRun w' out'"
    by (rule prepare_loopE)
  have v: "tview w' = tview ?w"
    using handle_aslr_tame [OF s(1)] handle_statmem_pie_tame [OF s(2)] handle_statmem_pic_tame [OF s(3)]
      handle_stack_end_tame [OF s(4)] by simp
  have "shape ?w = shape w" by (simp add: shape_def)
  with tviewD(1) [OF v] show "shape w' = shape w" by simp
  from tviewD(2) [OF v] show "w_mq w' = init_mq junk" by simp
qed

lemma init_mq_holds:
  assumes "length junk = 4 * PIPE_BUF" shows "mq_holds (init_mq junk) []"
proof -
  have u: "take 1 (xs[0 := NUL, k := NUL]) = [NUL]" if "xs \<noteq> []" for xs k
    using that by (cases xs; cases k) simp_all
  have "take (4 * PIPE_BUF) junk \<noteq> []" using assms by (auto simp: PIPE_BUF_def)
  from u [OF this] show ?thesis by (simp add: mq_holds_def init_mq_def)
qed

lemma parsed_ready:
  assumes p: "parse_config c0 k0 ls opt = Some opt'" "blank (o_w opt)" "c_v_value c0 = []" "c_v_oldval c0 = []" "c_v_cstr c0 = []"
    and a: "w_cfg_act (o_w opt) = []" "o_keys opt = Map.empty" and o: "own_targets (o_w opt')"
    and l: "prepare_loop pure junk rlist1 rlist2 stat (o_w opt') = Some s" "length junk = 4 * PIPE_BUF"
  shows "loop_inv (o_keys opt') (start_trainer mem fs s)"
proof -
  obtain w' out where s: "s = (w', out)" by (cases s)
  note L = prepare_loop_shape [OF l(1) [unfolded s]]
  have wf: "mem_wf (o_w opt')" by (rule parsed_is_consistent [OF p o])
  have "row_ok (o_w opt') ci (length (d_v_maddr (w_dyn (o_w opt') ! di)))"
    if "ci < length (w_cfg (o_w opt'))" "c_dynmem (w_cfg (o_w opt') ! ci) = Some di" for ci di
    using mem_wfD(1,2) [OF wf that] parsed_is_empty [OF p] that(1) by simp
  then have "in_sync (o_w opt')" by (simp add: in_sync_def)
  with wf have 1: "mem_wf w'" "in_sync w'" using shape_wf [OF L(1)] shape_sync [OF L(1)] by auto
  have act: "act_inv (o_w opt')" "keys_ok (o_keys opt') (length (w_cfg (o_w opt')))"
    using parse_config_act [OF p(1,2) a p(3-5)] by simp_all
  have 2: "act_inv w'" by (rule act_inv_calm [OF shape_calm [OF L(1)] act(1)])
  have 3: "mem_inv w'" using 1(1) init_mq_holds [OF l(2)] L(2) by (auto simp: mem_inv_def)
  have "tr_rest (start_trainer mem fs s) = []"
    by (rule pending_rest) (simp add: start_trainer_def pending_init)
  with 1 2 3 act(2) shapeD(1) [OF L(1)] pending_init show ?thesis
    by (simp add: loop_inv_def tables_ready_def start_trainer_def s)
qed

end
