(* ===== verification/LoopExample.thy ===== *)
theory LoopExample
  imports Examples MainLoopInv
begin

text \<open>
  One complete round of the main loop on a small config: the trainer starts from the config file,
  reads an allocation, sets the number of the game and processes the queue.
\<close>

subsection \<open>The state at the start\<close>

abbreviation ex_parsed :: pstate where
  "ex_parsed \<equiv> plain_step ''gold'' 4096 32 99 (CHR ''g'') (CHR ''a'') ex_start"

definition ex_gold :: cfg_entry where
  "ex_gold = (plain_cfg ''gold'' 4096 32 99 ex_cfg0)\<lparr>c_ptrmem := None, c_cache := Some (COpt, 0), c_cache_data := 0\<rparr>"

definition ex_loop :: "mqueue \<Rightarrow> world" where
  "ex_loop q = ex_blank\<lparr>w_cfg := [ex_gold], w_cfg_act := [0], w_cache_list := [(init_cache PTR_MAX)\<lparr>ca_offs := 4096\<rparr>],
     w_stack_cache := [init_cache PTR_MAX], w_mq := q\<rparr>"

abbreviation ex_bare :: world where
  "ex_bare \<equiv> (ex_loop (w_mq ex_world))\<lparr>w_cfg := [(plain_cfg ''gold'' 4096 32 99 ex_cfg0)\<lparr>c_ptrmem := None\<rparr>]\<rparr>"

lemmas ex_gold_simps = ex_gold_def plain_cfg_def fresh_cfg_def no_type_def ex_cfg_def
lemmas ex_loop_simps = ex_loop_def ex_blank_def ex_world_def ex_gold_simps cache_list_def set_cache_list_def vget_def

lemma ex_parsed_world: "s_w ex_parsed = ex_bare"
  by (simp add: plain_step_def ex_start_def init_caches_def ex_opts_def ex_blank_def Let_def ex_loop_def ex_world_def
      plain_cfg_def ex_cfg_def lower_last_def init_cache_def)

lemma ex_caches_built: "build_caches ex_bare = Some (ex_loop (w_mq ex_world))"
  by (simp add: build_caches_def addr_list_def entry_addrs_def cfg_addr_def entry_owner_def static_owner_def
      build_cache_def check_that_def assign_cache_def mod_cfg_def needs_cache_def init_cache_def MEM_CHUNK_def
      ex_loop_simps)

definition ex_keyed :: popts where
  "ex_keyed = (s_opt ex_parsed)\<lparr>o_w := ex_loop (w_mq ex_world)\<rparr>"

lemma ex_keyed_parses: "parse_config ex_cfg0 ex_chk ex_conf ex_opts = Some ex_keyed"
proof -
  have "parse_proc_name ''Game'' = Some ''Game''"
    by (simp add: parse_proc_name_def proc_name_char_def c_isalnum_def c_isalpha_def c_islower_def c_isupper_def c_isdigit_def)
  moreover have "s_dyn ex_parsed = None" "outside ex_parsed"
    by (simp_all add: plain_step_def outside_def ex_start_def Let_def)
  ultimately show ?thesis
    using ex_lines ex_caches_built ex_parsed_world
    by (simp add: parse_config_def ex_start_def ex_conf_def vget_def check_that_def ex_opts_def ex_keyed_def)
qed

lemma ex_loop_prepared: "prepare_loop False junk [] [] None (ex_loop q) = Some (ex_loop (init_mq junk), [[]])"
proof -
  have "handle_aslr [] [] [] ((ex_loop q)\<lparr>w_mq := q', w_pure_statmem := False\<rparr>) = Some (ex_loop q', Some [])" for q'
    by (simp add: handle_aslr_def find_lib_regions_def ex_loop_simps sent_text_def PIPE_BUF_def)
  moreover have "handle_statmem_pie (ex_loop q') = Some (ex_loop q')" for q'
    by (simp add: handle_statmem_pie_def pie_cfg_def move_cache_def mod_cache_def mod_cfg_def clear_dirty_def
        init_cache_def ex_loop_simps)
  moreover have "handle_statmem_pic False (ex_loop q') = Some (ex_loop q')" for q'
    by (simp add: handle_statmem_pic_def pic_cfg_def pic_lib_def ex_loop_simps)
  moreover have "handle_stack_end None [] (ex_loop q') = TRun (ex_loop q') []" for q'
    by (simp add: handle_stack_end_def get_stack_bounds_def get_stack_end_def ex_loop_simps)
  ultimately show ?thesis by (simp add: prepare_loop_def)
qed

subsection \<open>The round\<close>

definition ex_junk :: string where "ex_junk = replicate (4 * PIPE_BUF) NUL"

abbreviation ex_malloc :: msg where "ex_malloc \<equiv> MMalloc 12288 64 4198400"

definition ex_in :: cycle_in where
  "ex_in = \<lparr>ci_key = NUL, ci_fifo1 = stream [ex_malloc], ci_fifo2 = [], ci_rlist1 = [], ci_rlist2 = [],
     ci_attached = True, ci_detached = True, ci_rlist = [], ci_junk = 0, ci_dyn_fails = (\<lambda>_ _. False),
     ci_val_fails = (\<lambda>_. False), ci_env = ex_dump, ci_maps = []\<rparr>"

definition ex_trainer :: trainer where
  "ex_trainer = start_trainer ex_page Map.empty (ex_loop (init_mq ex_junk), [[]])"

lemma ex_fed: "fed ex_in ex_trainer"
proof -
  have w: "wf_msg ex_malloc" "length (render ex_malloc) < PIPE_BUF"
    using ex_msgs_wf by (simp_all add: ex_msgs_def)
  have r: "tr_rest ex_trainer = []"
    by (rule pending_rest) (simp add: ex_trainer_def start_trainer_def pending_init)
  have "queue_fits (w_mq (tr_world ex_trainer)) [ex_malloc]"
    using w(2) by (simp add: queue_fits_def queue_text_def ex_trainer_def start_trainer_def ex_loop_def init_mq_def
        ex_junk_def PIPE_BUF_def del: length_render)
  with w r show ?thesis
    unfolding fed_def
    by (intro exI [of _ "[ex_malloc]"] exI [of _ "[]"]) (auto simp: cut_msgs_def ex_in_def partial_msg_def PIPE_BUF_def)
qed

lemma ex_keyed_start:
  "w_cfg_act (o_w ex_opts) = []" "o_keys ex_opts = Map.empty" "own_targets (o_w ex_keyed)"
  "prepare_loop False ex_junk [] [] None (o_w ex_keyed) = Some (ex_loop (init_mq ex_junk), [[]])"
  "length ex_junk = 4 * PIPE_BUF"
  using ex_loop_prepared
  by (simp_all add: ex_opts_def ex_keyed_def own_targets_def ex_junk_def) (simp_all add: ex_loop_simps)

lemma ex_trainer_inv: "loop_inv (o_keys ex_keyed) ex_trainer"
  unfolding ex_trainer_def by (rule parsed_ready [OF ex_keyed_parses ex_blank ex_keyed_start])

definition ex_at :: "mqueue \<Rightarrow> fifo_static \<Rightarrow> trainer" where
  "ex_at q st = \<lparr>tr_game = \<lparr>gw = ex_loop q, gmem = ex_page\<rparr>, tr_fifo = st, tr_sent = [[]], tr_files = Map.empty\<rparr>"

lemma ex_trainer_at: "ex_trainer = ex_at (init_mq ex_junk) fifo_static_init"
  by (simp add: ex_trainer_def ex_at_def start_trainer_def)

lemma ex_round_fifo:
  "\<exists>st q. read_fifo [] (stream [ex_malloc]) ex_trainer = Some (ex_at q st) \<and>
    mq_holds q [(12288, 64, 4198400)] \<and> pending PIPE_BUF st []"
proof -
  let ?q = "init_mq ex_junk"
  have w: "\<forall>m \<in> set [ex_malloc]. wf_msg m \<and> length (render m) < PIPE_BUF"
    using ex_msgs_wf by (simp add: ex_msgs_def)
  have q: "mq_holds ?q []" by (rule init_mq_holds) (simp add: ex_junk_def)
  have inv: "mem_inv (ex_loop ?q)"
    using ex_trainer_inv by (simp add: loop_inv_def tables_ready_def ex_trainer_at ex_at_def)
  have room: "mq_room (w_mq (ex_loop ?q)) (12288, 64, 4198400)"
    using w by (simp add: mq_room_def ex_loop_def init_mq_def ex_junk_def PIPE_BUF_def del: length_render)
  from handle_malloc [OF inv _ room, of "[]" "[]" "[[]]"] q obtain q' where
    h: "handle_msg [] (TRun (ex_loop ?q) [[]]) ex_malloc = TRun (ex_loop q') [[]]" "mq_holds q' [(12288, 64, 4198400)]"
    by (auto simp: ex_loop_def)
  from read_trainer_stream [OF pending_init _ w, of "\<lparr>f_data = stream [ex_malloc], f_pos = 0\<rparr>" "[]" "[]"
      "TRun (ex_loop ?q) [[]]"] h(1)
  obtain st f where "read_trainer_fifo [] fifo_static_init \<lparr>f_data = stream [ex_malloc], f_pos = 0\<rparr>
      (TRun (ex_loop ?q) [[]]) = Some (st, f, TRun (ex_loop q') [[]])" "pending PIPE_BUF st []"
    by (auto simp: partial_msg_def PIPE_BUF_def)
  with h(2) show ?thesis by (auto simp: read_fifo_def ex_trainer_at ex_at_def)
qed

lemma ex_no_fifo:
  assumes "pending PIPE_BUF st []"
  shows "\<exists>st'. read_fifo [] [] (ex_at q st) = Some (ex_at q st')"
  using read_trainer_stream [OF assms, of "\<lparr>f_data = [], f_pos = 0\<rparr>" "[]" "[]" "[]" "TRun (ex_loop q) [[]]"]
  by (auto simp: partial_msg_def PIPE_BUF_def read_fifo_def ex_at_def)

lemma ex_steps:
  "report fails (ex_at q st) = Some (ex_at q st)" "on_world free_dynmem (ex_at q st) = Some (ex_at q st)"
  "w_cfg_act (tr_world (ex_at q st)) = [0]" "\<not> w_pure_statmem (tr_world (ex_at q st))"
  by (simp_all add: report_def on_world_def ex_at_def output_dynmem_changes_def free_dynmem_def free_cfg_def ex_loop_simps)

text \<open>The number is set.\<close>

lemma ex_process:
  "\<exists>g'. process_act_cfg 0 \<lparr>gw = ex_loop q, gmem = ex_page\<rparr> = Some g' \<and> gmem g' 4096 = Some 99 \<and>
    tview (gw g') = tview (ex_loop q) \<and> w_lib (gw g') = [] \<and>
    (\<exists>v ok. w_cfg (gw g') = [entry_done (Uns 32) v ok ex_gold])"
proof -
  let ?g = "\<lparr>gw = ex_loop q, gmem = ex_page\<rparr>" and ?ce = "(init_cache PTR_MAX)\<lparr>ca_offs := 4096\<rparr>"
  have clean: "all_clean (ex_loop q)"
    by (auto simp: all_clean_def clean_def ex_loop_simps init_cache_def split: cache_owner.splits)
  have "plain_entry (Uns 32) 4 ex_gold" by (simp add: plain_entry_def ex_gold_simps value_type_def)
  moreover have "covered 4 (ex_loop q) ex_gold 0 ?ce"
    by (simp add: covered_def ex_loop_simps init_cache_def MEM_CHUNK_def)
  ultimately obtain g' where g': "process_act_cfg 0 ?g = Some g'"
    and r: "let v = value_in ex_page 4 ex_gold; ok = check_mem_val (Uns 32) v (c_value ex_gold) (c_check ex_gold)
     in w_cfg (gw g') = [entry_done (Uns 32) v ok ex_gold] \<and>
        gmem g' = (if ok then set_byte_range (c_addr ex_gold) (value_bytes 4 (c_value ex_gold)) ex_page else ex_page)"
    using single_entry_run [of ?g 0 ex_gold "Uns 32" 4 0 ?ce 0] clean ex_page_mapped
    by (auto simp: Let_def ex_loop_def ex_blank_def)
  have "world_set_up ex_page (ex_loop q)"
    by (simp add: world_set_up_def ready_def set_up_def static_base_def offs_of_def placed_def ex_loop_simps init_cache_def)
  moreover have "ex_page PTR_MAX = None"
    by (simp add: ex_page_def word_less_nat_alt unsigned_minus_1_eq_mask mask_eq_exp_minus_1)
  ultimately have "same_cfg (ex_loop q) (gw g')" using process_act_cfg_inv [OF g'] clean by simp
  then have "w_lib (gw g') = []" by (simp add: same_cfg_def ex_loop_simps)
  moreover have "check_mem_val (Uns 32) v (c_value ex_gold) (c_check ex_gold)" for v
    by (simp add: check_mem_val_def ex_gold_simps)
  then have "gmem g' 4096 = Some 99" "w_cfg (gw g') = [entry_done (Uns 32) (value_in ex_page 4 ex_gold) True ex_gold]"
    using r by (simp_all add: Let_def set_byte_range_def value_bytes_def ex_gold_simps upt_conv_Cons)
  ultimately show ?thesis using g' process_act_cfg_tame [OF g'] by auto
qed

text \<open>What remains of the round.\<close>

definition ex_state :: "world \<Rightarrow> bool" where
  "ex_state w \<longleftrightarrow> w_lib w = [] \<and> w_cfg_act w = [0] \<and> (\<exists>ms. mq_holds (w_mq w) ms) \<and>
     (\<exists>c. w_cfg w = [c] \<and> c_dynmem c = None \<and> c_ptrmem c = None \<and> c_ptrtgt c = None \<and>
        c_checks c = [] \<and> \<not> t_on_stack (c_type c) \<and> t_lib (c_type c) = None)"

lemma ex_alloc_all: "ex_state w \<Longrightarrow> alloc_all ms w = Some w"
  by (induction ms) (auto simp: alloc_all_def alloc_dynmem_addr_def ex_state_def)

lemma ex_check_heap: "ex_state w \<Longrightarrow> \<exists>w'. check_heap rlist w = Some w' \<and> ex_state w'"
  by (auto simp: ex_state_def check_heap_def get_heap_region_def handle_heap_checks_def split: prod.split)

lemma ex_state_steps:
  assumes "ex_state w"
  shows "late_pic rlist w = Some w" "output_dynmem_changes fails w = Some (0, w)"
    "free_dynmem w = Some w" "alloc_dynmem w = Some w" "output_values (\<lambda>_. False) w = Some w"
  using assms
  by (auto simp: ex_state_def late_pic_def output_dynmem_changes_def free_dynmem_def free_cfg_def alloc_dynmem_def
      alloc_cfg_def vget_def output_values_def output_mem_values_def show_static_def output_mem_val_def Let_def)

lemma ex_process_mallocs: "ex_state w \<Longrightarrow> \<exists>w'. process_mallocs (PARSE_S OR PARSE_C) w = Some w' \<and> ex_state w'"
proof -
  assume w: "ex_state w"
  then obtain ms where ms: "mq_holds (w_mq w) ms" by (auto simp: ex_state_def)
  have "process_mallocs (PARSE_S OR PARSE_C) w = Some (w\<lparr>w_mq := mq_reset (w_mq w)\<rparr>)"
    using process_mallocs_eq [OF ms] ex_alloc_all [OF w] by simp
  moreover have "ex_state (w\<lparr>w_mq := mq_reset (w_mq w)\<rparr>)"
    using w mq_reset_holds [OF ms] by (auto simp: ex_state_def)
  ultimately show ?thesis by blast
qed

lemma ex_after_detach:
  assumes "ex_state (tr_world t)"
  shows "\<exists>t'. after_detach ex_in t = Some t' \<and> gmem (tr_game t') = gmem (tr_game t)"
proof -
  let ?at = "\<lambda>w. t\<lparr>tr_game := (tr_game t)\<lparr>gw := w\<rparr>\<rparr>"
  obtain w1 where w1: "check_heap [] (tr_world t) = Some w1" "ex_state w1" using ex_check_heap [OF assms] by blast
  obtain w2 where w2: "process_mallocs (PARSE_S OR PARSE_C) w1 = Some w2" "ex_state w2"
    using ex_process_mallocs [OF w1(2)] by blast
  have "after_detach ex_in t = Some (?at (if w_pure_statmem w1 then w1 else w2))"
    using w1(1) w2(1) ex_state_steps [OF w1(2)] ex_state_steps [OF w2(2)]
    by (simp add: after_detach_def on_world_def unless_pure_def report_def ex_in_def)
  then show ?thesis by simp
qed

lemma ex_round:
  "\<exists>t'. main_cycle (o_keys ex_keyed) ex_in ex_trainer = Some t' \<and> gmem (tr_game t') 4096 = Some 99"
proof -
  obtain st q where f1: "read_fifo [] (stream [ex_malloc]) ex_trainer = Some (ex_at q st)"
    and q: "mq_holds q [(12288, 64, 4198400)]" and st: "pending PIPE_BUF st []" using ex_round_fifo by blast
  obtain st' where f2: "read_fifo [] [] (ex_at q st) = Some (ex_at q st')" using ex_no_fifo [OF st] by blast
  obtain g' v ok where g': "process_act_cfg 0 \<lparr>gw = ex_loop q, gmem = ex_page\<rparr> = Some g'" "gmem g' 4096 = Some 99"
    "tview (gw g') = tview (ex_loop q)" "w_lib (gw g') = []" "w_cfg (gw g') = [entry_done (Uns 32) v ok ex_gold]"
    using ex_process by blast
  let ?t = "(ex_at q st')\<lparr>tr_game := g'\<rparr>"
  have "w_cfg_act (gw g') = [0]" "w_mq (gw g') = q"
    using shapeD(4) [OF tviewD(1) [OF g'(3)]] tviewD(2) [OF g'(3)] by (simp_all add: ex_loop_def)
  then have "ex_state (tr_world ?t)"
    using g'(4,5) q by (auto simp: ex_state_def entry_done_def ex_gold_simps)
  from ex_after_detach [OF this] obtain t' where
    t': "after_detach ex_in ?t = Some t'" "gmem (tr_game t') = gmem g'" by auto
  have ks: "handle_key (o_keys ex_keyed) ex_in ex_trainer = Some ex_trainer" by (simp add: handle_key_def ex_in_def)
  have np: "\<not> w_pure_statmem (tr_world ex_trainer)" using ex_steps(4) by (simp add: ex_trainer_at)
  have u1: "unless_pure (\<lambda>t. read_fifo (ci_rlist1 ex_in) (ci_fifo1 ex_in) t \<bind> report (ci_dyn_fails ex_in 0)) ex_trainer
      = Some (ex_at q st)"
    using f1 np by (simp add: unless_pure_def ex_steps(1)) (simp add: ex_in_def ex_steps(1))
  have u2: "unless_pure (on_world free_dynmem) (ex_at q st) = Some (ex_at q st)"
    using ex_steps by (simp add: unless_pure_def)
  have u3: "unless_pure (read_fifo (ci_rlist2 ex_in) (ci_fifo2 ex_in)) (ex_at q st) = Some (ex_at q st')"
    using f2 by (simp add: unless_pure_def ex_steps ex_in_def)
  have pr: "on_game (process_act_cfg (ci_junk ex_in)) (ex_at q st') = Some ?t"
    using g'(1) by (simp add: on_game_def ex_at_def ex_in_def)
  have fl: "ci_attached ex_in" "ci_detached ex_in" "w_cfg_act (tr_world (ex_at q st)) \<noteq> []"
    by (simp_all add: ex_in_def ex_steps)
  have "main_cycle (o_keys ex_keyed) ex_in ex_trainer = Some t'"
    using ks u1 u2 u3 pr fl t'(1) by (simp add: main_cycle_def)
  with t'(2) g'(2) show ?thesis by simp
qed

end
