(* ===== verification/FollowExample.thy ===== *)
theory FollowExample
  imports Examples
begin

text \<open>
  A game with two pages and a pointer in the first one, which points to the second: the entry behind
  the pointer is set to 99 as soon as the pointer has been read twice.
\<close>

definition ex_ptr_mem :: gmem where
  "ex_ptr_mem = (\<lambda>a. if a = 4113 then Some 32
     else if 4096 \<le> a \<and> a < 6144 \<or> 8192 \<le> a \<and> a < 10240 then Some 0 else None)"

definition ex_ptr_entry :: cfg_entry where
  "ex_ptr_entry = (ex_cfg None None (Some 0) [])\<lparr>c_addr := 4112, c_type := ex_type\<lparr>t_size := 64\<rparr>, c_old_val := 8192,
     c_cache := Some (COpt, 0), c_cache_data := 16\<rparr>"

definition ex_field :: cfg_entry where
  "ex_field = (ex_cfg None (Some 0) None [])\<lparr>c_addr := 16, c_check := CHECK_LT, c_cache := Some (CPtr 0, 0),
     c_cache_data := 16\<rparr>"

definition ex_ptr_cache :: cache_entry where "ex_ptr_cache = ex_cache\<lparr>ca_offs := 0\<rparr>"

definition ex_target :: ptrmem_entry where
  "ex_target = (ex_ptr 1)\<lparr>p_cfg := [1], p_cfg_act := [1], p_dynmem := None, p_cache_list := [ex_ptr_cache]\<rparr>"

definition ex_follow :: game where
  "ex_follow = \<lparr>gw = ex_world\<lparr>w_cfg := [ex_ptr_entry, ex_field], w_cfg_act := [0], w_dyn := [], w_ptr := [ex_target],
     w_cache_list := [ex_cache]\<rparr>, gmem = ex_ptr_mem\<rparr>"

lemma ex_ptr_pages:
  "mapped ex_ptr_mem 4096 MEM_CHUNK" "mapped ex_ptr_mem 8192 MEM_CHUNK"
proof -
  have "ex_ptr_mem (4096 + of_nat i) \<noteq> None" "ex_ptr_mem (8192 + of_nat i) \<noteq> None" if "i < 2048" for i
  proof -
    have "unat (4096 + of_nat i :: 64 word) = 4096 + i" "unat (8192 + of_nat i :: 64 word) = 8192 + i"
      using that by (simp_all add: unat_word_ariths unat_of_nat take_bit_nat_eq_self)
    with that show "ex_ptr_mem (4096 + of_nat i) \<noteq> None" "ex_ptr_mem (8192 + of_nat i) \<noteq> None"
      by (auto simp: ex_ptr_mem_def word_le_nat_alt word_less_nat_alt)
  qed
  then show "mapped ex_ptr_mem 4096 MEM_CHUNK" "mapped ex_ptr_mem 8192 MEM_CHUNK"
    by (auto simp: mapped_def MEM_CHUNK_def)
qed

lemma ex_points_to: "points_to ex_ptr_mem 0 ex_ptr_entry = 8192"
  by (simp add: points_to_def mem_at_def ex_ptr_entry_def ex_ptr_mem_def upt_conv_Cons)

lemma ex_ptr_simps:
  "c_addr ex_ptr_entry = 4112" "c_type ex_ptr_entry = ex_type\<lparr>t_size := 64\<rparr>" "c_dynmem ex_ptr_entry = None"
  "c_ptrtgt ex_ptr_entry = Some 0" "c_cache ex_ptr_entry = Some (COpt, 0)" "c_cache_data ex_ptr_entry = 16"
  "c_checks ex_ptr_entry = []" "c_old_val ex_ptr_entry = 8192" "c_dynval ex_ptr_entry = DYN_VAL_OFF"
  "c_addr ex_field = 16" "c_type ex_field = ex_type" "c_dynmem ex_field = None" "c_ptrmem ex_field = Some 0"
  "c_ptrtgt ex_field = None" "c_cache ex_field = Some (CPtr 0, 0)" "c_cache_data ex_field = 16" "c_checks ex_field = []"
  "c_check ex_field = CHECK_LT" "c_value ex_field = 99" "c_dynval ex_field = DYN_VAL_OFF" "c_cfg_ref ex_field = None"
  "c_old_val ex_field = 0" "c_cstr ex_field = None"
  "p_cfg_act ex_target = [1]" "p_dynmem ex_target = None" "p_cache_list ex_target = [ex_ptr_cache]"
  "p_v_state ex_target = [PTR_INIT]" "p_v_offs ex_target = [0]"
  by (simp_all add: ex_ptr_entry_def ex_field_def ex_target_def ex_cfg_def ex_ptr_def)

lemma ex_cache_simps:
  "ca_offs ex_ptr_cache = 0" "ca_start ex_ptr_cache = PTR_MAX" "length (ca_data ex_ptr_cache) = MEM_CHUNK"
  "ca_offs ex_cache = 4096" "ca_start ex_cache = PTR_MAX" "length (ca_data ex_cache) = MEM_CHUNK"
  "\<not> ca_is_dirty ex_cache" "\<not> ca_is_dirty ex_ptr_cache"
  by (simp_all add: ex_ptr_cache_def ex_cache_def)

lemma ex_type_simps:
  "t_lib ex_type = None" "\<not> t_on_stack ex_type" "\<not> t_is_signed ex_type" "\<not> t_is_float ex_type" "\<not> t_is_cstr ex_type"
  "\<not> t_is_cstrp ex_type" "t_size ex_type = 32"
  by (simp_all add: ex_type_def)

lemma ex_follow_simps:
  "w_cfg (gw ex_follow) = [ex_ptr_entry, ex_field]" "w_cfg_act (gw ex_follow) = [0]" "w_dyn (gw ex_follow) = []"
  "w_ptr (gw ex_follow) = [ex_target]" "w_cache_list (gw ex_follow) = [ex_cache]" "w_lib (gw ex_follow) = []"
  "\<not> w_val_on_stack (gw ex_follow)" "gmem ex_follow = ex_ptr_mem" "w_stack_cache (gw ex_follow) = []"
  by (simp_all add: ex_follow_def ex_world_def)

lemmas follow_simps = ex_ptr_simps ex_cache_simps ex_type_simps ex_follow_simps

lemma ex_field_bytes: "written_at 8192 ex_field = {8208, 8209, 8210, 8211}"
proof -
  have "written_len (c_type ex_field) = 4" by (simp add: written_len_def value_type_def follow_simps)
  moreover have "{j. j < 4} = {0, 1, 2, 3 :: nat}" by auto
  moreover have "written_at 8192 ex_field = (\<lambda>j. 8208 + of_nat j) ` {j. j < written_len (c_type ex_field)}"
    by (auto simp: written_at_def follow_simps)
  ultimately show ?thesis by simp
qed

lemma ex_footprint: "footprint ex_ptr_mem (gw ex_follow) = {8208, 8209, 8210, 8211}"
proof -
  have "prints ex_ptr_mem (gw ex_follow) 0 ex_ptr_entry = {8208, 8209, 8210, 8211}"
    by (simp add: prints_def follow_simps ex_points_to ptr_fields_def ex_field_bytes)
  moreover have "{ci \<in> set (w_cfg_act (gw ex_follow)). static_entry (gw ex_follow) ci} = {0}"
    by (auto simp: follow_simps static_entry_def)
  ultimately show ?thesis by (simp add: footprint_def follow_simps)
qed

lemma ex_follow_ready: "world_set_up ex_ptr_mem (gw ex_follow)"
proof -
  have "4112 + of_nat j \<notin> {8208, 8209, 8210, 8211 :: ptr}" if "j < 8" for j
  proof -
    have "j \<in> {0, 1, 2, 3, 4, 5, 6, 7}" using that by auto
    then show ?thesis by auto
  qed
  moreover have "static_base (gw ex_follow) COpt = Some 0" by (simp add: static_base_def)
  ultimately show ?thesis
    unfolding world_set_up_def ex_footprint
    by (simp add: ready_def ptr_set_up_def set_up_def follow_simps ex_points_to ptr_fields_def placed_def MEM_CHUNK_def
        offs_of_def cache_list_def vget_def)
qed

lemma ex_follow_clean: "all_clean (gw ex_follow)"
  by (auto simp: all_clean_def clean_def cache_list_def vget_def follow_simps split: cache_owner.splits if_splits)

text \<open>The round, step by step: the pointer, the entry behind it, the caches.\<close>

definition ex_follow1 :: world where
  "ex_follow1 = (gw ex_follow)\<lparr>w_cache_list := [ex_cache\<lparr>ca_data := mem_at ex_ptr_mem 4096 MEM_CHUNK, ca_start := 4096\<rparr>]\<rparr>"

lemma ex_read_ptr:
  "fill_buf (c_type ex_ptr_entry) (Some (COpt, 0)) 16 0 0 ex_follow = Some (True, 8192, \<lparr>gw = ex_follow1, gmem = ex_ptr_mem\<rparr>)"
proof -
  have e: "ex_follow = \<lparr>gw = gw ex_follow, gmem = ex_ptr_mem\<rparr>" by (simp add: ex_follow_def)
  have "load_bytes (mem_at ex_ptr_mem 4112 8) 0 = 8192"
    using ex_points_to by (simp add: load_bytes_def put_64 points_to_def follow_simps)
  then show ?thesis
    using fill_buf_filled [of COpt "gw ex_follow" "[ex_cache]" 0 ex_ptr_mem 0 "c_type ex_ptr_entry" 8 16 0] ex_ptr_pages
    by (subst e) (simp add: follow_simps cache_list_def set_cache_list_def ex_follow1_def MEM_CHUNK_def)
qed

definition ex_settled :: ptrmem_entry where
  "ex_settled = ex_target\<lparr>p_v_state := [PTR_SETTLED], p_v_offs := [8192]\<rparr>"

definition ex_ptr_cache1 :: cache_entry where
  "ex_ptr_cache1 = ex_ptr_cache\<lparr>ca_data := mem_at ex_ptr_mem 8192 MEM_CHUNK, ca_start := 8192\<rparr>"

lemma ex_read_field:
  "fill_buf (c_type ex_field) (Some (CPtr 0, 0)) 16 8192 8192 \<lparr>gw = ex_follow1\<lparr>w_ptr := [ex_settled]\<rparr>, gmem = ex_ptr_mem\<rparr> =
     Some (True, 0, \<lparr>gw = ex_follow1\<lparr>w_ptr := [ex_settled\<lparr>p_cache_list := [ex_ptr_cache1]\<rparr>]\<rparr>, gmem = ex_ptr_mem\<rparr>)"
proof -
  let ?w = "ex_follow1\<lparr>w_ptr := [ex_settled]\<rparr>"
  have cl: "cache_list (CPtr 0) ?w = Some [ex_ptr_cache]" by (simp add: cache_list_def vget_def ex_settled_def follow_simps)
  have "load_bytes (mem_at ex_ptr_mem 8208 4) 8192 = 0"
    by (simp add: load_bytes_def put_def mem_at_def ex_ptr_mem_def upt_conv_Cons mask_eq_exp_minus_1)
  then show ?thesis
    using fill_buf_filled [OF cl, of 0 ex_ptr_mem 8192 "c_type ex_field" 4 16 8192] ex_ptr_pages
    by (simp add: follow_simps set_cache_list_def ex_settled_def ex_ptr_cache1_def MEM_CHUNK_def)
qed

definition ex_ptr_cache2 :: cache_entry where
  "ex_ptr_cache2 = stored 16 (value_bytes 4 99) ex_ptr_cache1"

definition ex_follow2 :: world where
  "ex_follow2 = ex_follow1\<lparr>w_cfg := [ex_ptr_entry, ex_field\<lparr>c_val_set := True\<rparr>],
     w_ptr := [ex_settled\<lparr>p_cache_list := [ex_ptr_cache2]\<rparr>]\<rparr>"

lemma ex_set_field:
  "change_memory 1 None 0 8192 0 \<lparr>gw = ex_follow1\<lparr>w_ptr := [ex_settled\<lparr>p_cache_list := [ex_ptr_cache1]\<rparr>]\<rparr>, gmem = ex_ptr_mem\<rparr> =
     Some \<lparr>gw = ex_follow2, gmem = ex_ptr_mem\<rparr>"
proof -
  have w: "w_cfg ex_follow1 = [ex_ptr_entry, ex_field]" by (simp add: ex_follow1_def follow_simps)
  have l: "length (ca_data ex_ptr_cache1) = MEM_CHUNK" by (simp add: ex_ptr_cache1_def)
  have c: "check_mem_val (Uns 32) 0 99 CHECK_LT" by (simp add: check_mem_val_def val_lt_def)
  have p: "put 32 0 0 = 0" by (simp add: put_def)
  show ?thesis
    by (simp add: change_memory_def mod_cfg_def w vget_def get_slot_def value_type_def upd_old_def upd_slot_def
        handle_dynval_def change_mem_val_def store_value_def get_cache_def mod_cache_def cache_list_def set_cache_list_def
        follow_simps c p l MEM_CHUNK_def ex_follow2_def ex_ptr_cache2_def stored_def Let_def value_bytes_def)
qed

lemma ex_field_done:
  "process_field 0 None 0 1 (8192, \<lparr>gw = ex_follow1\<lparr>w_ptr := [ex_settled]\<rparr>, gmem = ex_ptr_mem\<rparr>) =
     Some (0, \<lparr>gw = ex_follow2, gmem = ex_ptr_mem\<rparr>)"
  by (simp add: process_field_def vget_def ex_follow1_def follow_simps ex_settled_def)
    (use ex_read_field ex_set_field in \<open>simp add: ex_follow1_def ex_settled_def follow_simps\<close>)

definition ex_ptr_mem1 :: gmem where
  "ex_ptr_mem1 = set_byte_range 8208 (value_bytes 4 99) ex_ptr_mem"

lemma ex_written:
  "write_caches (CPtr 0) \<lparr>gw = ex_follow2, gmem = ex_ptr_mem\<rparr> =
     Some \<lparr>gw = ex_follow2\<lparr>w_ptr := [ex_settled\<lparr>p_cache_list := [clear_dirty ex_ptr_cache2]\<rparr>]\<rparr>, gmem = ex_ptr_mem1\<rparr>"
proof -
  have "write_upto 8192 (ca_data ex_ptr_cache2) ex_ptr_mem = ex_ptr_mem1"
    using write_changed_block [OF ex_ptr_pages(2), of 16 "value_bytes 4 99"]
    by (simp add: ex_ptr_cache2_def stored_def ex_ptr_cache1_def ex_ptr_mem1_def value_bytes_def MEM_CHUNK_def)
  moreover have "length (ca_data ex_ptr_cache2) = MEM_CHUNK" "ca_start ex_ptr_cache2 = 8192" "ca_is_dirty ex_ptr_cache2"
    by (simp_all add: ex_ptr_cache2_def stored_def ex_ptr_cache1_def value_bytes_def MEM_CHUNK_def)
  ultimately show ?thesis
    by (simp add: write_caches_def write_cache_def cache_list_def get_cache_def mod_cache_def set_cache_list_def vget_def
        ex_follow2_def ex_follow1_def memwrite_def)
qed

lemma ex_followed:
  "process_ptrmem 0 0 0 (8192, \<lparr>gw = ex_follow1, gmem = ex_ptr_mem\<rparr>) =
     Some (0, \<lparr>gw = ex_follow2\<lparr>w_ptr := [ex_settled\<lparr>p_cache_list := [clear_dirty ex_ptr_cache2]\<rparr>]\<rparr>, gmem = ex_ptr_mem1\<rparr>)"
proof -
  have s: "settle 0 0 PTR_SETTLED 8192 ex_follow1 = Some (ex_follow1\<lparr>w_ptr := [ex_settled]\<rparr>)"
    by (simp add: settle_def mod_ptr_def vget_def vset_def ex_follow1_def follow_simps ex_settled_def)
  have i: "invalidate_caches (CPtr 0) \<lparr>gw = ex_follow1\<lparr>w_ptr := [ex_settled]\<rparr>, gmem = ex_ptr_mem\<rparr> =
      Some \<lparr>gw = ex_follow1\<lparr>w_ptr := [ex_settled]\<rparr>, gmem = ex_ptr_mem\<rparr>"
    by (simp add: invalidate_caches_def cache_list_def set_cache_list_def vget_def ex_settled_def follow_simps)
  have "follow_ptr 0 ex_ptr_entry 0 None 0 0 (8192, \<lparr>gw = ex_follow1, gmem = ex_ptr_mem\<rparr>) =
     Some (0, \<lparr>gw = ex_follow2\<lparr>w_ptr := [ex_settled\<lparr>p_cache_list := [clear_dirty ex_ptr_cache2]\<rparr>]\<rparr>, gmem = ex_ptr_mem1\<rparr>)"
    using ex_field_done ex_written
    by (simp add: follow_ptr_def follow_simps s i vget_def) (simp add: ex_settled_def follow_simps)
  then show ?thesis
    by (simp add: process_ptrmem_def vget_def ex_follow1_def follow_simps get_slot_def)
qed

lemma ex_follow_runs: "\<exists>g'. process_act_cfg 0 ex_follow = Some g' \<and> gmem g' = ex_ptr_mem1"
proof -
  let ?w = "ex_follow2\<lparr>w_ptr := [ex_settled\<lparr>p_cache_list := [clear_dirty ex_ptr_cache2]\<rparr>]\<rparr>"
  have i: "invalidate_caches COpt ex_follow = Some ex_follow"
    by (simp add: invalidate_caches_def cache_list_def set_cache_list_def follow_simps)
  have st: "process_static 0 0 (0, ex_follow) = Some (0, \<lparr>gw = ?w, gmem = ex_ptr_mem1\<rparr>)"
    using ex_read_ptr ex_followed
    by (simp add: process_static_def vget_def lib_missing_def follow_simps)
  have "write_caches COpt \<lparr>gw = ?w, gmem = ex_ptr_mem1\<rparr> = Some \<lparr>gw = ?w, gmem = ex_ptr_mem1\<rparr>"
    by (rule write_caches_clean) (simp_all add: cache_list_def clean_def ex_follow2_def ex_follow1_def follow_simps)
  with i st show ?thesis
    by (simp add: process_act_cfg_def Let_def follow_simps vget_def)
qed

end
