(* ===== verification/Spec2Isabelle.thy ===== *)
theory Spec2Isabelle
  imports LoopExample FollowExample
begin

text \<open>
  ugtrain is a game trainer for Linux: a process (\<open>src/src/*.cpp\<close>) that freezes a game, reads and
  changes values in its memory as a config file says, and a library (\<open>src/src/linuxhooking/\<close>) that
  is preloaded into the game, hooks its memory functions and reports objects of interest through a
  FIFO. This library models both sides and their protocol.

  \<^bold>\<open>How the parts work together.\<close> The trainer reads the config file (\<open>Cfgparser\<close>) into the tables
  of the record \<open>world\<close> (\<open>Cfgentry\<close>): entries with checks, classes of dynamic memory, memory
  behind pointers, libraries, caches. It prints the classes for the library (\<open>Handshake\<close>) and
  sends code offsets when the memory maps of the game are known (\<open>Maps\<close>, \<open>Aslr\<close>). The library
  (\<open>Memhack\<close>) filters \<open>malloc\<close> by size, code address and stack offset, remembers the objects and
  reports allocations and releases. The trainer parses the reports (\<open>Fifoparser\<close>, \<open>FifoStream\<close>),
  queues allocations and updates its object tables (\<open>Memmgmt\<close>, \<open>MallocQueue\<close>, \<open>Trainer\<close>), and in
  every round of its main loop (\<open>MainLoop\<close>) processes the activated entries through the caches
  (\<open>Process\<close>, \<open>Values\<close>) and prints their values (\<open>ValOutput\<close>). The user toggles entries by keys
  and dumps memory (\<open>Control\<close>, \<open>Dump\<close>).

  Before classes can be configured they have to be found: in the discovery the trainer sends a
  request (\<open>Discovery\<close>) to the other library (\<open>Memdisc\<close>), which reports all allocations with the
  code addresses on the stack into a file that the trainer searches backwards. For another version
  of the game a script finds the new sizes and code addresses, and the config file is rewritten
  (\<open>Adapt\<close>). Both libraries are preloaded (\<open>Preload\<close>) and called by the same hooks of the
  allocation functions (\<open>Memhooks\<close>).

  \<^bold>\<open>Theories.\<close>
  \<^item> \<open>Prelude\<close>: types, checked vector access, loops in the option monad. \<open>CText\<close>: the C string
    and number conversions the sources use. \<open>Strtod\<close>: \<open>strtod\<close> and \<open>strtof\<close>.
  \<^item> \<open>Fifoparser\<close> (\<open>fifoparser.cpp\<close>): \<open>parse_dynmem_buf\<close>, \<open>read_dynmem_buf\<close>. \<open>FifoStream\<close>: the locale
    \<open>fifo_client\<close> and its theorem on streams of messages, interpreted in \<open>MallocQueue\<close> and \<open>Trainer\<close>.
  \<^item> \<open>Cfgentry\<close> (\<open>cfgentry.h\<close>, \<open>options.h\<close>): the data. \<open>Memmgmt\<close> (\<open>memmgmt.cpp\<close>): the object tables;
    \<open>MallocQueue\<close>: the queue as a list (locale \<open>malloc_queue\<close>); \<open>MemmgmtInv\<close>: the invariant \<open>mem_wf\<close> and
    the locale \<open>row_op\<close> for loops over entries; \<open>Trainer\<close>: the callbacks of the main loop.
  \<^item> \<open>Memhack\<close>, \<open>MemhackInv\<close> (\<open>libmemhack.c\<close>): the hooks, and the locale \<open>addr_tracker\<close> for the
    remembered addresses. \<open>Handshake\<close>: \<open>prepare_dynmem\<close> of \<open>ugtrain.cpp\<close> against \<open>memhack_init\<close>.
  \<^item> \<open>Maps\<close>, \<open>MapsInv\<close> (\<open>lib/maps_l.c\<close>, \<open>lib/maps.h\<close>): regions and the stack end. \<open>Aslr\<close>
    (\<open>aslr.cpp\<close>, \<open>aslr.h\<close>): moving addresses.
  \<^item> \<open>Values\<close>, \<open>Process\<close> (\<open>ugtrain.cpp\<close>): values of ten C++ types, checks, changes, caches, pointers
    and \<open>process_act_cfg\<close>; \<open>ProcessInv\<close>: which bytes of the game change, pointers included;
    \<open>ProcessFun\<close>: what one entry does.
  \<^item> \<open>Cfgparser\<close> (\<open>cfgparser.cpp\<close>): the whole parser; \<open>CfgCaches\<close>: building the caches;
    \<open>CfgparserInv\<close>: what a parsed file satisfies; \<open>CfgText\<close>: printed entries and macros.
  \<^item> \<open>Clist\<close> (\<open>lib/list.h\<close>, \<open>rlist_clear\<close> of \<open>lib/maps.h\<close>): intrusive lists over a heap of links, and
    the locale \<open>node_list\<close> with what the operations do to a list of nodes.
  \<^item> \<open>Memdisc\<close>, \<open>MemdiscFun\<close> (\<open>libmemdisc.c\<close>): the configuration, the hooks and their lines, and what
    they report. \<open>Discovery\<close> (\<open>discovery.cpp\<close>): the request and the search; \<open>DiscHandshake\<close>: both
    sides of a request. \<open>RevRead\<close>: the locale \<open>rev_client\<close> for reading a file of messages backwards;
    \<open>DiscFind\<close>: its interpretation on the search, and the discovery as a whole.
  \<^item> \<open>Memhooks\<close> (\<open>memhooks.c\<close>): the template of the hooks over trees of calls, and the memory for the
    first \<open>calloc\<close>. \<open>Preload\<close> (\<open>lib/preload_l.c\<close>, \<open>libcommon.c\<close>): the list of preloaded libraries.
  \<^item> \<open>Dump\<close> (\<open>dump.cpp\<close>): dumps and their backups; \<open>DumpInv\<close>: the list of areas they go through and
    their files. \<open>Control\<close> (\<open>control.cpp\<close>): keys, and the invariant
    \<open>act_inv\<close> of the lists of activated entries; \<open>CfgActive\<close>: the parser establishes it.
  \<^item> \<open>Options\<close> (\<open>options.cpp\<close>, \<open>options.h\<close>): the command line. \<open>Adapt\<close>, \<open>AdaptInv\<close> (\<open>adapt.cpp\<close>): the output of
    the adaptation script and the new config file.
  \<^item> \<open>ValOutput\<close> (\<open>valoutput.cpp\<close>): the text that shows the values, with the number format of C++
    streams. \<open>MainLoop\<close> (\<open>ugtrain.cpp\<close>): one round of the loop in \<open>main\<close> as \<open>main_cycle\<close>, and what
    comes before the first one as \<open>prepare_loop\<close>. \<open>MainLoopInv\<close>: the relation \<open>loop_run\<close> of any number
    of rounds and the invariant \<open>loop_inv\<close>, which the parser and \<open>prepare_loop\<close> establish.
  \<^item> \<open>Examples\<close>, \<open>LoopExample\<close>, \<open>FollowExample\<close>: the concrete states of the witnesses.

  \<^bold>\<open>Conventions.\<close> 64-bit Linux with \<open>/proc/$pid/mem\<close> (\<open>HAVE_PROCMEM\<close>). Machine words have their width. A
  pointer between objects of the trainer is an index into a table of \<open>world\<close>; a character buffer is
  the list of its bytes; \<open>value_t\<close> is a 64-bit word. \<open>None\<close> is undefined behaviour, an exception of
  \<open>at()\<close> or the end of the program by \<open>exit (-1)\<close>; error results of the code are values. What comes
  from outside (contents of files, region lists, what the hooks find on the stack, results of
  \<open>write\<close> and \<open>realloc\<close>, uninitialised variables) is an argument of the definition that uses it.
  Loops are folds in the option monad or structural recursion; no fuel is used. The one loop that
  may not end, the expansion of macros, is a partial function, and C27, C28 say when it ends.

  \<^bold>\<open>Properties.\<close> C1: the byte stream of the FIFO. C2: the whole main loop. C3 to C7: the object
  tables. C8 to C10: the queue. C11: configuration and code offsets. C12, C13: reports of the
  library. C14 to C19: memory maps and the stack end. C20, C21: changes of the memory of the game.
  C22: dumps of its memory. C23 to C28: the config file. C29, C30: intrusive lists. C31 to C36: the
  discovery, from the request to the objects that are found. C37: the hooks report the calls of the
  game. C38: preloading. C39: the activated entries and the keys. C40: adaptation.

  \<^bold>\<open>Not modelled.\<close> Showing the config on the terminal (\<open>cfgoutput.cpp\<close>), reading keys, starting and
  attaching to processes (\<open>lib/system_l.c\<close>), setting up FIFOs, signals and sleeping are I/O without
  state of interest; \<open>objdump\<close>, \<open>getopt_long\<close> and the adaptation scripts are programs and library
  functions whose results are arguments; freeing memory at the end of the program has no effect
  that the models could show; the tools (\<open>tools/\<close>) and the code for Windows are not part of the
  trainer on Linux; word-wise memory access by ptrace is the variant without \<open>HAVE_PROCMEM\<close>. Locks
  between hooks of several threads are left out: the hooks are taken one at a time. The list of components with the reasons is in the manifest.
\<close>

section \<open>The trainer reads the messages of the game\<close>

text \<open>C1: However the bytes in the FIFO are cut into reads, and whatever the previous call left
  in the static buffer, the trainer handles exactly the messages that are complete, each once and
  in order; the rest stays in the buffer for the next call.\<close>

theorem fifo_reassembly:
  assumes "pending n st p" "p @ drop (f_pos f) (f_data f) = stream ms @ pe"
    "\<forall>m \<in> set ms. wf_msg m \<and> length (render m) < n" "partial_msg pe" "length pe < n"
    "f_pos f \<le> length (f_data f)"
  shows "\<exists>st' f'. read_trainer_fifo rlist st f t = Some (st', f', foldl (handle_msg rlist) t ms) \<and>
    pending n st' pe \<and> f_data f' = f_data f \<and> f_pos f' = length (f_data f)"
  by (rule read_trainer_stream [OF assms])

lemma fifo_reassembly_witness:
  "\<exists>st' f'. read_trainer_fifo [] fifo_static_init ex_file (TRun ex_world []) =
     Some (st', f', foldl (handle_msg []) (TRun ex_world []) ex_msgs) \<and> pending PIPE_BUF st' []"
  using fifo_reassembly [OF pending_init, of ex_file ex_msgs "[]" "[]" "TRun ex_world []"] ex_msgs_wf
  by (auto simp: ex_file_def partial_msg_def PIPE_BUF_def)


text \<open>C2: Take any config file in which no two entries point to the same pointer memory. As long as the
  game sends whole messages, in any pieces, and the allocations of a round fit into the queue, the
  tables are in order after every number of rounds of the main loop that return, whatever the user
  presses and the operating system answers: the object tables and the queue are consistent, every
  object of every class has its values in every entry, the lists of activated entries fit together,
  and the buffer of the FIFO holds the start of at most one message. Without the condition on the
  queue this does not hold (C10). A round that is a step of \<open>loop_run\<close> satisfies these conditions.\<close>

theorem main_loop_keeps_tables:
  assumes "parse_config c0 k0 ls opt = Some opt'" "blank (o_w opt)" "c_v_value c0 = []" "c_v_oldval c0 = []"
    "c_v_cstr c0 = []" "w_cfg_act (o_w opt) = []" "o_keys opt = Map.empty" "own_targets (o_w opt')"
    "prepare_loop pure junk rlist1 rlist2 stat (o_w opt') = Some s" "length junk = 4 * PIPE_BUF"
    "loop_run (o_keys opt') (start_trainer mem fs s) is t"
  shows "mem_inv (tr_world t) \<and> in_sync (tr_world t) \<and> act_inv (tr_world t) \<and>
    (\<exists>p. pending PIPE_BUF (tr_fifo t) p)"
  using loop_run_inv [OF assms(11) parsed_ready [OF assms(1-10)]]
  by (auto simp: loop_inv_def tables_ready_def)

lemma main_loop_keeps_tables_witness:
  "\<exists>t. loop_run (o_keys ex_keyed) ex_trainer [ex_in] t \<and> gmem (tr_game t) 4096 = Some 99 \<and>
     mem_inv (tr_world t) \<and> act_inv (tr_world t)"
proof -
  obtain t where t: "main_cycle (o_keys ex_keyed) ex_in ex_trainer = Some t" "gmem (tr_game t) 4096 = Some 99"
    using ex_round by blast
  have run: "loop_run (o_keys ex_keyed) ex_trainer [ex_in] t"
    by (rule run_cons [OF t(1) ex_fed run_nil])
  from main_loop_keeps_tables [OF ex_keyed_parses ex_blank ex_keyed_start(1-3) ex_keyed_start(4) ex_keyed_start(5)
      run [unfolded ex_trainer_def]] run t(2) show ?thesis by blast
qed


text \<open>C3: Every sequence of operations on the object tables (queueing an allocation, a release,
  collecting the released objects, processing the queue, creating the rows of new objects) in which
  an allocation is queued only while it fits into the queue keeps the tables consistent: per class one size per address, per config
  entry and field of a followed pointer one value, wish value and string per row, no two entries
  sharing rows, and a queue that holds a list of complete messages.\<close>

theorem mem_steps_keep_tables:
  assumes "mem_step\<^sup>*\<^sup>* w w'" "mem_inv w" shows "mem_inv w'"
  using assms by (rule mem_steps_inv)

lemma mem_steps_keep_tables_witness: "\<exists>w'. mem_step ex_world w' \<and> mem_inv w'"
proof -
  obtain w' where "free_dynmem ex_world = Some w'" using free_dynmem_rows [OF ex_world_wf] by blast
  then have "mem_step ex_world w'" by (rule step_gc)
  with mem_steps_keep_tables [OF _ ex_world_inv, of w'] show ?thesis by blast
qed

text \<open>C4: \<open>free_dynmem\<close> returns and drops exactly the objects whose address has been zeroed: the
  addresses of a class that remain keep their order, and every config entry and every field of a
  followed pointer keeps, for the objects that remain, the value, wish value and string it had; each
  remaining object keeps its size, and each pointer in it its state and the address it led to.\<close>

theorem free_dynmem_drops_released:
  assumes "mem_wf w"
  shows "\<exists>w'. free_dynmem w = Some w' \<and> mem_wf w' \<and>
    (\<forall>ci di. ci < length (w_cfg w) \<longrightarrow> c_dynmem (w_cfg w ! ci) = Some di \<longrightarrow>
       d_v_maddr (w_dyn w' ! di) = filter (\<lambda>a. a \<noteq> 0) (d_v_maddr (w_dyn w ! di)) \<and>
       c_dynmem (w_cfg w' ! ci) = Some di \<and> foot w' ci = foot w ci \<and> pfoot w' ci = pfoot w ci \<and>
       (\<forall>k \<in> foot w ci. rows w' di k = filter (\<lambda>r. fst r \<noteq> 0) (rows w di k)) \<and>
       size_rows w' di = filter (\<lambda>r. fst r \<noteq> 0) (size_rows w di) \<and>
       (\<forall>pi \<in> pfoot w ci. ptr_rows w' di pi = filter (\<lambda>r. fst r \<noteq> 0) (ptr_rows w di pi)))"
  by (rule free_dynmem_rows [OF assms])

lemma free_dynmem_drops_released_witness:
  "\<exists>w'. free_dynmem ex_world = Some w' \<and> d_v_maddr (w_dyn w' ! 0) = [4096, 8192]"
  using free_dynmem_drops_released [OF ex_world_wf]
  by (force simp: ex_defs)

text \<open>C5: \<open>alloc_dynmem\<close> returns and gives every object of a class a row in every config entry of
  the class and in every field of a pointer it follows; the rows there are stay as they are, the
  new ones have the old value 0 and the wish value of the entry.\<close>

theorem alloc_dynmem_adds_rows:
  assumes "mem_wf w"
  shows "\<exists>w'. alloc_dynmem w = Some w' \<and> mem_wf w' \<and> in_sync w' \<and> w_dyn w' = w_dyn w \<and>
    (\<forall>ci di. ci < length (w_cfg w) \<longrightarrow> c_dynmem (w_cfg w ! ci) = Some di \<longrightarrow>
       c_dynmem (w_cfg w' ! ci) = Some di \<and> foot w' ci = foot w ci \<and>
       (\<forall>k \<in> foot w ci. rows w' di k = rows w di k @
          map (\<lambda>a. (a, 0, c_value (w_cfg w ! k), new_cstr (w_cfg w ! k)))
            (drop (length (rows w di k)) (d_v_maddr (w_dyn w ! di)))))"
  by (rule alloc_dynmem_rows [OF assms])

lemma alloc_dynmem_adds_rows_witness: "\<exists>w'. alloc_dynmem ex_world = Some w' \<and> in_sync w'"
  using alloc_dynmem_adds_rows [OF ex_world_wf] by blast


text \<open>C6: In a consistent state no operation of the main loop accesses a vector out of range or
  overruns the queue: collecting, creating rows, processing the queue and a release of any address
  all return.\<close>

theorem table_ops_are_safe:
  assumes "mem_inv w"
  shows "free_dynmem w \<noteq> None \<and> alloc_dynmem w \<noteq> None \<and>
    process_mallocs (PARSE_S OR PARSE_C) w \<noteq> None \<and> clear_dynmem_addr x w \<noteq> None"
proof -
  from assms obtain ms where wf: "mem_wf w" and q: "mq_holds (w_mq w) ms" by (auto simp: mem_inv_def)
  from free_dynmem_rows [OF wf] alloc_dynmem_rows [OF wf] process_mallocs_wf [OF wf q] clear_wf [OF wf q, of x]
  show ?thesis by (elim exE conjE) simp
qed

lemma table_ops_are_safe_witness: "clear_dynmem_addr 8192 ex_world \<noteq> None"
  using table_ops_are_safe [OF ex_world_inv] by blast

text \<open>C7: A release that does not cancel a queued allocation zeroes the address and the size of
  one object with that address, and counts it as freed in its class; nothing else
  changes. If no class knows the address, nothing changes at all.\<close>

theorem release_effect:
  assumes wf: "mem_wf w" and q: "mq_holds (w_mq w) ms" and new: "x \<notin> fst ` set ms"
  shows "\<exists>w'. clear_dynmem_addr x w = Some w' \<and> clear_effect x (set (w_cfg w)) w w'"
proof -
  obtain mq where mq: "remove_malloc_from_queue (w_mq w) x = Some (False, mq)"
    using remove_malloc_holds [OF q, of x] new by auto
  have "\<forall>c \<in> set (w_cfg w). \<forall>di. c_dynmem c = Some di \<longrightarrow> di < length (w_dyn w)"
    using mem_wfD(1) [OF wf] by (metis in_set_conv_nth)
  from clear_addr_in_effect [OF wf this, of x] mq show ?thesis
    by (simp add: clear_dynmem_addr_def)
qed

lemma release_effect_witness: "\<exists>w'. clear_dynmem_addr 8192 ex_world = Some w'"
  using release_effect [OF ex_world_wf ex_queue, of 8192] by auto

section \<open>The queue of allocations\<close>

text \<open>C8: Queueing allocations and removing them by address, in any order and as long as the text
  fits, works like a list: the buffer holds the text of the allocations that have not been
  removed, oldest first, and a removal takes away the oldest allocation of the address.\<close>

theorem queue_is_a_list:
  assumes "mq_holds mq ms"
    "q_fits mq_room (\<lambda>m. queue_msg (render (msg_of m))) (\<lambda>x mq. remove_malloc_from_queue mq x) es mq"
  shows "\<exists>mq'. q_run (\<lambda>m. queue_msg (render (msg_of m))) (\<lambda>x mq. remove_malloc_from_queue mq x) es mq = Some mq' \<and>
    mq_holds mq' (q_spec es ms)"
  using assms by (rule lmq.run_refines)

lemma queue_is_a_list_witness:
  "\<exists>mq'. q_run (\<lambda>m. queue_msg (render (msg_of m))) (\<lambda>x mq. remove_malloc_from_queue mq x)
     [Inl (12288, 64, 4198400)] (w_mq ex_world) = Some mq' \<and> mq_holds mq' [(12288, 64, 4198400)]"
proof -
  have "mq_room (w_mq ex_world) (12288, 64, 4198400)"
    using ex_msgs_render [THEN arg_cong [where f = length]] by (simp add: mq_room_def ex_world_def)
  then have "q_fits mq_room (\<lambda>m. queue_msg (render (msg_of m))) (\<lambda>x mq. remove_malloc_from_queue mq x)
      [Inl (12288, 64, 4198400)] (w_mq ex_world)" by (simp split: option.split)
  from queue_is_a_list [OF ex_queue this] show ?thesis by simp
qed

text \<open>C9: Processing the queue hands every queued allocation, oldest first, to the classes and
  empties the queue, whatever old text is behind its end.\<close>

theorem processing_allocates_all:
  assumes "mem_wf w" "mq_holds (w_mq w) ms"
  shows "\<exists>w1. alloc_all ms w = Some w1 \<and>
    process_mallocs (PARSE_S OR PARSE_C) w = Some (w1\<lparr>w_mq := mq_reset (w_mq w)\<rparr>) \<and>
    mq_holds (mq_reset (w_mq w)) []"
  using process_mallocs_eq [OF assms(2)] alloc_all_wf [OF assms(1), of ms] mq_reset_holds [OF assms(2)] by auto

lemma processing_allocates_all_witness:
  "\<exists>w1. alloc_all [] ex_world = Some w1 \<and>
     process_mallocs (PARSE_S OR PARSE_C) ex_world = Some (w1\<lparr>w_mq := mq_reset (w_mq ex_world)\<rparr>)"
  using processing_allocates_all [OF ex_world_wf ex_queue] by blast

text \<open>C10: The queue overflows by one byte: if all but the last byte are in use, an allocation
  that does not fit is cut off by writing behind the end of the buffer.\<close>

theorem queue_overflows_by_one:
  assumes "mq_end mq + 1 = length (mq_data mq)" "msg \<noteq> []"
  shows "queue_msg msg mq = None"
proof -
  have len: "length (mq_data mq) - mq_end mq = 1" and "0 < length msg" using assms by simp_all
  then show ?thesis using assms(1)
    by (auto simp: queue_msg_def Let_def snprintf_s_def overwrite_def vset_def)
qed

lemma queue_overflows_by_one_witness:
  "queue_msg ''m0x1'' \<lparr>mq_data = replicate 8 NUL, mq_end = 7\<rparr> = None"
  by (rule queue_overflows_by_one) simp_all


section \<open>The preloaded library\<close>

text \<open>C11: The trainer and \<open>libmemhack\<close> agree on the code addresses: if the classes can be sent,
  then from the text the trainer prints and the offsets it sends, the library ends up with one
  config per allocation site of the trainer, in order, with the sizes, stack offsets, libraries and
  growth parameters of the site and with the code addresses that the trainer has after its own ASLR
  handling; it keeps the unmoved code address for libraries that are loaded later.\<close>

theorem handshake_agrees:
  assumes "\<forall>d \<in> set (w_dyn w). sendable d" "distinct (dyn_visits None (w_cfg w))"
    "prepare_dynmem '''' gbt w = Some (Inr txt)"
    "handle_aslr '''' disc_lib rl w = Some (w', Some offs)" "length offs < BUF_SIZE"
    "h = memhack_init None name se (Some txt) (Some offs) memhack_start"
  shows "h_active h \<and> h_use_gbt h = gbt \<and>
    map code_view (h_config h) = map code_view (all_cfgs (w_dyn w') (dyn_visits None (w_cfg w))) \<and>
    map m_code_offs (h_config h) = map m_code_addr (all_cfgs (w_dyn w) (dyn_visits None (w_cfg w)))"
  by (rule memhack_handshake [OF assms])

lemma handshake_agrees_witness:
  "\<exists>txt offs w' h. prepare_dynmem '''' False ex_world = Some (Inr txt) \<and>
     handle_aslr '''' '''' [ex_exe] ex_world = Some (w', Some offs) \<and>
     h = memhack_init None ''game'' 0 (Some txt) (Some offs) memhack_start \<and> h_active h \<and>
     e_code_addr (w_dyn w' ! 0) = 4263936 \<and> map m_code_addr (h_config h) = [4263936]"
proof -
  obtain tx where t: "prepare_dynmem '''' False ex_world = Some (Inr tx)" using ex_prepare by blast
  obtain w' offs where a: "handle_aslr '''' '''' [ex_exe] ex_world = Some (w', Some offs)" "length offs < BUF_SIZE"
    and c: "e_code_addr (w_dyn w' ! 0) = 4263936" "d_consts (w_dyn w' ! 0) = []" "d_grow (w_dyn w' ! 0) = None"
    using ex_aslr by auto
  let ?h = "memhack_init None ''game'' 0 (Some tx) (Some offs) memhack_start"
  from handshake_agrees [OF ex_sendable _ t a refl] ex_visits
  have act: "h_active ?h" and m: "map code_view (h_config ?h) = map code_view (all_cfgs (w_dyn w') [0])" by simp_all
  have "all_cfgs (w_dyn w') [0] = [ess_cfg (dyn_essentials.truncate (w_dyn w' ! 0)) None]"
    using c by (simp add: class_cfgs_def)
  with m obtain cf where "h_config ?h = [cf]" "m_code_addr cf = 4263936"
    using c by (auto simp: code_view_def ess_cfg_def dyn_essentials.truncate_def)
  with t a c act show ?thesis by auto
qed


text \<open>C12: In every state that the hooks of \<open>libmemhack\<close> reach after its start, for every address
  the releases reported to the trainer and the objects still tracked are at most as many as the
  allocations reported: the library never reports a release of an object that it has not reported
  before. If no \<open>write\<close> or \<open>realloc\<close> fails, the numbers are equal: every reported object is tracked
  until its release is reported.\<close>

theorem reports_balance:
  assumes "(hook_step strict se)\<^sup>*\<^sup>* (memhack_init expected name se in1 in2 memhack_start) h" "1 < x"
  shows "sent (is_free_of x) h + tracks x h \<le> sent (is_malloc_of x) h \<and>
    (strict \<longrightarrow> sent (is_free_of x) h + tracks x h = sent (is_malloc_of x) h)"
  using hack_inv_reach [OF assms(1)] assms(2) by (auto simp: hack_inv_def)

lemma reports_balance_witness:
  "\<exists>tx offs h1 h2. hook_step True 0x7010 (memhack_init None ''game'' 0x7010 (Some tx) (Some offs) memhack_start) h1 \<and>
     hook_step True 0x7010 h1 h2 \<and> sent (is_malloc_of 12288) h1 = 1 \<and> tracks 12288 h1 = 1 \<and>
     sent (is_free_of 12288) h2 = 1 \<and> tracks 12288 h2 = 0"
proof -
  obtain tx offs h1 h2 where s1: "hook_step True 0x7010 (memhack_init None ''game'' 0x7010 (Some tx) (Some offs) memhack_start) h1"
    and s2: "hook_step True 0x7010 h1 h2" and 1: "sent (is_malloc_of 12288) h1 = 1" "sent (is_free_of 12288) h1 = 0"
    and 2: "sent (is_malloc_of 12288) h2 = 1" "tracks 12288 h1 = 1 \<longrightarrow> sent (is_free_of 12288) h2 = 1"
    using ex_hack_run by blast
  have r: "(hook_step True 0x7010)\<^sup>*\<^sup>* (memhack_init None ''game'' 0x7010 (Some tx) (Some offs) memhack_start) h1"
    using s1 by blast
  have big: "1 < (12288 :: ptr)" by simp
  from reports_balance [OF r big] 1 have t1: "tracks 12288 h1 = 1" by simp
  from reports_balance [OF rtranclp.rtrancl_into_rtrancl [OF r s2] big] 2 t1 have "tracks 12288 h2 = 0" by simp
  with t1 s1 s2 1 2 show ?thesis by blast
qed

text \<open>C13: The array of addresses of a config, with its growing by doubling, its end marks and its
  insertion index, behaves like a multiset: any sequence of stores and releases of addresses tracks
  exactly the addresses that have been stored more often than released.\<close>

theorem tracker_is_a_multiset:
  assumes "tracker_ok c" "\<forall>e \<in> set es. 1 < (case e of Inl a \<Rightarrow> a | Inr a \<Rightarrow> a)"
  shows "tracker_ok (track (store_mem_addr True) tracked_at forget_at es c) \<and>
    live (track (store_mem_addr True) tracked_at forget_at es c) = tracked es (live c)"
  using assms by (rule ltr.track_refines)

lemma tracker_is_a_multiset_witness:
  "live (track (store_mem_addr True) tracked_at forget_at [Inl 4096, Inl 8192, Inr 4096]
     (ess_cfg (ex_dyn []) None)) = {#8192#}"
proof -
  have "tracker_ok (ess_cfg (ex_dyn []) None)" "live (ess_cfg (ex_dyn []) None) = {#}"
    by (simp_all add: tracker_ok_def addrs_ok_def live_def ess_cfg_def ADDR_INVAL_def numeral_eq_Suc)
  from tracker_is_a_multiset [OF this(1), of "[Inl 4096, Inl 8192, Inr 4096]"] this(2)
  show ?thesis by simp
qed

section \<open>The memory map of the game\<close>

text \<open>C14: \<open>process_map\<close> keeps the maps that can be read and are writable or executable, and only
  those, in the order of the file, each with its bounds and path, and numbers them consecutively.\<close>

theorem regions_of_maps:
  assumes "scan_maps exe_path ms (s, rl) = (s', rl')" "map rg_id rl = map of_nat [0..<length rl]"
  shows "map span rl' = map span rl @ map region_of (filter wanted ms) \<and>
    map rg_id rl' = map of_nat [0..<length rl']"
  using assms by (rule scan_maps_regions)

lemma regions_of_maps_witness:
  "\<exists>s' rl'. scan_maps ''/g'' [ex_map] (map_state_init, []) = (s', rl') \<and> map span rl' = [(65536, 4096, ''/g'')]"
proof -
  obtain s' rl' where sc: "scan_maps ''/g'' [ex_map] (map_state_init, []) = (s', rl')" by fastforce
  from regions_of_maps [OF sc] have "map span rl' = [(65536, 4096, ''/g'')]"
    by (simp add: ex_map_def wanted_def region_of_def)
  with sc show ?thesis by (intro exI conjI)
qed


text \<open>C15: The maps of one ELF file (its code, and up to three more that carry its path or follow
  the previous one without a path) become regions of type exe or code, whichever the path says,
  with the start of the code as their load address.\<close>

theorem elf_file_regions:
  assumes "ms_inv s" "rm_exec m = CHR ''x''" "rm_file_path m \<noteq> []"
    "length (rm_file_path m) < MAPS_MAX_PATH"
    "length ms \<le> 3" "all_follow (rm_file_path m) (rm_end m) ms" "map rg_id rl = map of_nat [0..<length rl]"
  shows "\<exists>s' rs. scan_maps exe_path (m # ms) (s, rl) = (s', rl @ rs) \<and>
    map span rs = map region_of (filter wanted (m # ms)) \<and>
    (\<forall>r \<in> set rs. elf_region (same_path (rm_file_path m) exe_path) (rm_start m) r)"
proof -
  from elf_block [OF assms(1-6)] obtain s' rs where sc: "scan_maps exe_path (m # ms) (s, rl) = (s', rl @ rs)"
    and rs: "\<forall>r \<in> set rs. elf_region (same_path (rm_file_path m) exe_path) (rm_start m) r"
    by (metis prod.collapse)
  from scan_maps_regions [OF sc assms(7)] have "map span rs = map region_of (filter wanted (m # ms))" by simp
  with sc rs show ?thesis by blast
qed

lemma elf_file_regions_witness:
  "\<exists>s' rs. scan_maps ''/g'' [ex_map] (map_state_init, []) = (s', rs) \<and>
     (\<forall>r \<in> set rs. elf_region (same_path ''/g'' ''/g'') 65536 r)"
proof -
  have "rm_exec ex_map = CHR ''x''" "rm_file_path ex_map \<noteq> []" "length (rm_file_path ex_map) < MAPS_MAX_PATH"
    "rm_file_path ex_map = ''/g''" "rm_start ex_map = 65536"
    by (simp_all add: ex_map_def MAPS_MAX_PATH_def)
  with elf_file_regions [OF ms_inv_init, of ex_map "[]" "[]" "''/g''"] show ?thesis by auto
qed


text \<open>C16: A line of \<open>/proc/$pid/maps\<close>, in the format of the kernel with its zeros and its spaces in
  front of the path, parses to the bounds, permissions and path it was printed from. The witness is
  the line in the documentation.\<close>

theorem maps_line_roundtrip:
  assumes "path_ok (rm_file_path m)" "\<not> c_isspace (rm_read m)"
  shows "parse_map_line (render_map m offs major minor inode) = Some m"
  using assms by (rule parse_render_map)

lemma maps_line_roundtrip_witness: "parse_map_line ex_heap_text = Some ex_heap_map"
  unfolding ex_heap_line [symmetric]
  by (rule maps_line_roundtrip) (simp_all add: ex_heap_map_def path_ok_def c_isspace_def)


text \<open>C17: The stack end is found in \<open>/proc/$pid/stat\<close> for every process name without a closing
  parenthesis, spaces included.\<close>

theorem stat_line_roundtrip:
  assumes "\<forall>x \<in> set name. x \<noteq> CHR '')'' \<and> x \<noteq> NUL" "length fs = 25" "\<forall>f \<in> set fs. field_ok f"
  shows "parse_stack_end (render_stat pid name fs stack_end rest) = Some stack_end"
  using assms by (rule parse_render_stat)

lemma stat_line_roundtrip_witness:
  "parse_stack_end (render_stat 77 ''my game'' (replicate 25 ''0'') 140737488351232 []) = Some 140737488351232"
  by (rule stat_line_roundtrip) (simp_all add: field_ok_def)


text \<open>C18: Whatever the file contains, the result of \<open>get_stack_end\<close> is the start of the stack
  region (for: not found) or an address in the upper half of the region.\<close>

theorem stack_end_in_region:
  "get_stack_end stat start fin = start \<or>
     (start + drop_bit 1 (fin - start) \<le> get_stack_end stat start fin \<and>
      start \<le> get_stack_end stat start fin \<and> get_stack_end stat start fin \<le> fin)"
  by (rule get_stack_end_bounds)

text \<open>C19: \<open>write_maps_to_file\<close> does not write the maps as they are: the file it writes starts with
  them but is padded to a multiple of the buffer size, so it is always longer.\<close>

theorem maps_file_is_padded:
  assumes "length buf = BUF_SIZE"
  shows "take (length maps) (write_maps_to_file buf maps) = maps \<and>
    length (write_maps_to_file buf maps) = (length maps div BUF_SIZE + 1) * BUF_SIZE \<and>
    length maps < length (write_maps_to_file buf maps)"
proof -
  have "0 < BUF_SIZE" by (simp add: BUF_SIZE_def)
  from copy_chunks_take [OF this assms, of maps] show ?thesis
    using dividend_less_times_div [OF \<open>0 < BUF_SIZE\<close>, of "length maps"]
    by (simp add: write_maps_to_file_def BUF_SIZE_def mult.commute)
qed


lemma maps_file_is_padded_witness:
  "length (write_maps_to_file (replicate BUF_SIZE NUL) ''abc'') = BUF_SIZE"
  using maps_file_is_padded [of "replicate BUF_SIZE NUL" "''abc''"] by (simp add: BUF_SIZE_def)



text \<open>C20: One round of value processing changes the memory of the game only at the bytes of the
  activated entries: those of static memory, for each object those of its class, and for each
  activated pointer, of static memory or of an object, those of the activated entries behind it,
  at the address that the pointer has in the game. It maps and unmaps nothing, and no cache keeps a
  change back. All this although whole blocks of 2048 bytes are written. The entries and checks have
  to belong to caches that hold them, strings are only watched, and the pointers must not be among
  the bytes that are changed (\<open>world_set_up\<close>).\<close>

theorem memory_footprint:
  assumes "process_act_cfg junk g = Some g'" "world_set_up (gmem g) (gw g)" "all_clean (gw g)" "gmem g PTR_MAX = None"
  shows "(\<forall>a. a \<notin> footprint (gmem g) (gw g) \<longrightarrow> gmem g' a = gmem g a) \<and> dom (gmem g') = dom (gmem g) \<and>
    all_clean (gw g')"
  using process_act_cfg_inv [OF assms] by (simp add: mem_ok_def)

lemma memory_footprint_witness:
  "\<exists>g'. process_act_cfg 0 ex_follow = Some g' \<and> gmem g' 8208 = Some 99 \<and> gmem g' 8212 = Some 0 \<and> gmem g' 5000 = Some 0 \<and>
     8212 \<notin> footprint (gmem ex_follow) (gw ex_follow) \<and> 5000 \<notin> footprint (gmem ex_follow) (gw ex_follow) \<and>
     all_clean (gw g')"
proof -
  from ex_follow_runs obtain g' where g': "process_act_cfg 0 ex_follow = Some g'" "gmem g' = ex_ptr_mem1" by blast
  have m: "gmem ex_follow = ex_ptr_mem" "ex_ptr_mem PTR_MAX = None" "ex_ptr_mem 8212 = Some 0" "ex_ptr_mem 5000 = Some 0"
    by (simp_all add: ex_follow_simps ex_ptr_mem_def word_less_nat_alt unsigned_minus_1_eq_mask mask_eq_exp_minus_1)
  have n: "8212 \<notin> footprint (gmem ex_follow) (gw ex_follow)" "5000 \<notin> footprint (gmem ex_follow) (gw ex_follow)"
    by (simp_all add: m ex_footprint)
  have w: "gmem g' 8208 = Some 99"
    using g'(2) by (simp add: ex_ptr_mem1_def set_byte_range_def value_bytes_def upt_conv_Cons)
  from memory_footprint [OF g'(1)] m ex_follow_ready ex_follow_clean n w g'(1) show ?thesis by auto
qed


text \<open>C21: An activated entry of static memory without checks is done as configured: the number in
  the game is recorded as the old value, and exactly its bytes are overwritten by the configured
  value if the comparison holds; otherwise nothing is written.\<close>

theorem single_entry_is_set:
  assumes "w_cfg_act (gw g) = [ci]" "ci < length (w_cfg (gw g))" "w_cfg (gw g) ! ci = c" "plain_entry ct n c"
    "covered n (gw g) c k ce" "all_clean (gw g)" "mapped (gmem g) (ca_offs ce) MEM_CHUNK" "ca_offs ce \<noteq> 0"
  shows "\<exists>g'. process_act_cfg junk g = Some g' \<and>
    (let v = value_in (gmem g) n c; ok = check_mem_val ct v (c_value c) (c_check c)
     in w_cfg (gw g') = (w_cfg (gw g))[ci := entry_done ct v ok c] \<and>
        gmem g' = (if ok then set_byte_range (c_addr c) (value_bytes n (c_value c)) (gmem g) else gmem g))"
  by (rule single_entry_run [OF assms])

lemma single_entry_is_set_witness:
  "\<exists>g'. process_act_cfg 0 ex_game = Some g' \<and> gmem g' 4104 = Some 99 \<and> gmem g' 4105 = Some 0"
proof -
  have "value_in ex_page 4 ex_entry = 0"
    by (simp add: value_in_def mem_at_def ex_game_defs ex_page_def load_bytes_def put_def upt_conv_Cons)
  moreover have "check_mem_val (Uns 32) 0 (c_value ex_entry) (c_check ex_entry)"
    by (simp add: check_mem_val_def val_lt_def ex_game_defs)
  ultimately show ?thesis
    using single_entry_is_set [of ex_game 0 ex_entry "Uns 32" 4 0 ex_cache 0] ex_game_plain ex_game_covered
      ex_game_clean ex_page_mapped
    by (auto simp: ex_game_fields Let_def set_byte_range_def value_bytes_def ex_game_defs upt_conv_Cons)
qed


text \<open>C22: A dump of all memory writes every object of every class, the memory behind every settled
  pointer and every listed area of static memory that is mapped and for whose file the operating
  system does what it is asked into a file of its own, which no other dump of the run overwrites,
  and keeps the file of the dump before as its backup; failures of other dumps do not matter. There
  may be as many of each kind as a number of 32 bits can count.\<close>

theorem dumps_are_kept:
  assumes "dump_all_mem_obj env mem maps (w, fs) = Some (w', fs')" "numbers_fit w"
    "(p, m, i, a, n) \<in> set (dump_jobs w)" "can_dump env mem (dump_name p m i @ ''.dump'') a n"
  shows "fs' (dump_name p m i @ ''.dump'') = Some (mem_at mem a (unat n)) \<and>
    fs' (dump_name p m i @ ''~.dump'') =
      (if fs (dump_name p m i @ ''.dump'') = None then fs (dump_name p m i @ ''~.dump'')
       else fs (dump_name p m i @ ''.dump''))"
  by (rule dump_all_files [OF assms])

lemma dumps_are_kept_witness:
  "\<exists>w' fs'. dump_all_mem_obj ex_dump_env ex_page [] (ex_dump_world, ex_files) = Some (w', fs') \<and>
     fs' ''p0_001.dump'' = Some (replicate 32 0) \<and> fs' ''p0_001~.dump'' = Some [7]"
proof -
  from ex_dump_runs obtain w' fs' where
    r: "dump_all_mem_obj ex_dump_env ex_page [] (ex_dump_world, ex_files) = Some (w', fs')" by blast
  have "can_dump ex_dump_env ex_page (dump_name ''p'' 0 1 @ ''.dump'') 4128 32"
    using ex_page_part by (simp add: can_dump_def ex_dump_env_def)
  from dumps_are_kept [OF r ex_dump_fits ex_dump_job this] r ex_page_part show ?thesis
    by (simp add: ex_dump_name ex_files_def)
qed



section \<open>The config file\<close>

text \<open>C23: The tables that the parser builds from any config file are consistent, as the trainer
  needs them for its object tables, if no two entries point to the same pointer memory.\<close>

theorem config_tables_consistent:
  assumes "parse_config c0 k0 ls opt = Some opt'" "blank (o_w opt)"
    "c_v_value c0 = []" "c_v_oldval c0 = []" "c_v_cstr c0 = []" "own_targets (o_w opt')"
  shows "mem_wf (o_w opt')"
  by (rule parsed_is_consistent [OF assms])

lemma config_tables_consistent_witness:
  "\<exists>opt'. parse_config ex_cfg0 ex_chk ex_conf ex_opts = Some opt' \<and> mem_wf (o_w opt')"
proof -
  from ex_conf_parses obtain opt' where p: "parse_config ex_cfg0 ex_chk ex_conf ex_opts = Some opt'"
    and b: "map bare (w_cfg (o_w opt')) = map bare [(plain_cfg ''gold'' 4096 32 99 ex_cfg0)\<lparr>c_ptrmem := None\<rparr>]" by blast
  from map_eq_imp_length_eq [OF b] obtain c where "w_cfg (o_w opt') = [c]" by (auto simp: length_Suc_conv)
  then have "own_targets (o_w opt')" by (simp add: own_targets_def)
  with config_tables_consistent [OF p ex_blank] p show ?thesis by blast
qed





text \<open>C25: The printed line of a number in static memory is read as that entry: its name, address,
  type and value, its key and its state; its address becomes the start of the cache if it is
  lower, and nothing else changes.\<close>

theorem plain_entry_roundtrip:
  assumes "\<not> s_in_dynmem s" "\<not> s_in_ptrmem s" "name_ok name" "hd name \<noteq> CHR ''#''" "classify name = None"
    "s_macros s name = None" "n \<in> {8, 16, 32, 64}" "v < 2 ^ n" "c_isalnum key" "act \<noteq> CHR ''w''"
  shows "parse_line lnr (plain_line name a n v key act) s = Some (plain_step name a n v key act s)"
  by (rule plain_line_parses [OF assms])

lemma plain_entry_roundtrip_witness:
  "parse_line 7 (plain_line ''gold'' 4096 32 99 (CHR ''g'') (CHR ''a'')) ex_start =
     Some (plain_step ''gold'' 4096 32 99 (CHR ''g'') (CHR ''a'') ex_start)"
  by (rule plain_entry_roundtrip) (use ex_gold_ok in \<open>simp_all add: ex_start_def\<close>)


text \<open>C26: An address below the last cache of its owner gets this cache, and a pointer in front of
  its buffer. This happens to a check behind the end of its class: its address lowers the caches
  of static memory, but it is cached with the class.\<close>

theorem address_below_cache:
  assumes "cache_list (a_own a) w = Some cl" "cl \<noteq> []" "valid_elem (a_elem a) w"
    "a_addr a < ca_offs (List.last cl)" "unat (ca_offs (List.last cl)) + MEM_CHUNK < 2 ^ 64"
    "unat (a_size a) \<le> MEM_CHUNK"
  shows "\<exists>w'. build_cache a w = Some w' \<and>
    elem_cache (a_elem a) w' = (Some (a_own a, length cl - 1), 2 ^ 64 + unat (a_addr a) - unat (ca_offs (List.last cl)))"
  by (rule build_cache_below [OF assms])

lemma address_below_cache_witness:
  "\<exists>w'. build_cache ex_low (gw ex_game) = Some w' \<and>
     elem_cache (a_elem ex_low) w' = (Some (COpt, 0), 2 ^ 64 + 8 - 4096)"
  using address_below_cache [OF ex_low(1) _ ex_low(2)]
  by (simp add: ex_low_def ex_cache_def MEM_CHUNK_def)


text \<open>C27: Macros are expanded in the end if each starts with a macro of lower rank at most: then
  the loop is left, and the first name of a line is found.\<close>

theorem macros_are_expanded:
  assumes "\<And>s l. macros s = Some l \<Longrightarrow> parse_name False l 0 \<noteq> None \<and>
      (\<forall>s'. macro_of macros l 0 = Some s' \<longrightarrow> rank s' < (rank s :: nat))"
    and "parse_name False line p \<noteq> None"
  shows "\<exists>r. parse_value_name macros line p = Some (Some r)"
  by (rule macros_return [OF assms])

lemma macros_are_expanded_witness:
  "\<exists>r. parse_value_name [''B'' \<mapsto> ''check 0x70 u16 g 2''] ''B'' 0 = Some (Some r)"
  by (rule macros_are_expanded [where rank = "\<lambda>_. 0"]) (use ex_macro in \<open>auto split: if_splits\<close>)


text \<open>C28: A macro that starts with itself is never left: the loop does not end. This is not a parse
  error, whose result is \<open>Some None\<close>.\<close>

theorem macro_of_itself_loops:
  assumes "macro_of macros line p = Some s" "macros s = Some l" "macro_of macros l 0 = Some s"
  shows "parse_value_name macros line p = None"
  by (rule macro_loops [OF assms])

lemma macro_of_itself_loops_witness:
  "parse_name False ''B 0x8'' 0 = Some (''B'', 2) \<and> parse_value_name [''B'' \<mapsto> ''B u32 1''] ''B 0x8'' 0 = None"
  by (intro conjI macro_of_itself_loops [where s = "''B''" and l = "''B u32 1''"]) (simp_all add: ex_macro)



section \<open>The intrusive list\<close>

text \<open>C29: Any sequence of list operations on nodes in memory does what it says to the list that
  the ring of nodes represents: it never follows a wild pointer, and the loops over the list visit
  the resulting elements in order, forwards and backwards.\<close>

theorem list_operations_refine:
  assumes "ring h head xs" "cops_ok head (dom h) ops xs"
  shows "\<exists>h'. fold_opt (cop_heap head) ops h = Some h' \<and>
    clist_entries head h' = Some (fold cop_list ops xs) \<and>
    clist_entries_reverse head h' = Some (rev (fold cop_list ops xs)) \<and>
    clist_empty head h' = Some (fold cop_list ops xs = [])"
  using cops_refine [OF assms] clist_entries_ring clist_entries_reverse_ring clist_empty_ring by blast

lemma list_operations_refine_witness:
  "\<exists>h'. fold_opt (cop_heap 16) [CAddTail 48, CMoveTail 32, CReplace 48 64, CRotate] ex_heap = Some h' \<and>
     clist_entries 16 h' = Some [32, 64]"
  using list_operations_refine [OF ex_heap(1), of "[CAddTail 48, CMoveTail 32, CReplace 48 64, CRotate]"]
  by (auto simp: ex_heap(2))


text \<open>C30: Scanning the memory maps again frees exactly the nodes of the old region list, and the
  new nodes are read in the order in which they were added at the end.\<close>

theorem region_list_is_rebuilt:
  assumes "ring h head xs" "distinct es" "set es \<subseteq> dom h - set (head # xs)"
  shows "\<exists>h1 h2. rlist_clear head h = Some h1 \<and> fold_opt (\<lambda>e. clist_add_tail e head) es h1 = Some h2 \<and>
    clist_entries head h2 = Some es \<and> dom h2 = dom h - set xs"
  by (rule clist.rebuild [OF assms])

lemma region_list_is_rebuilt_witness:
  "\<exists>h1 h2. rlist_clear 16 ex_heap = Some h1 \<and> fold_opt (\<lambda>e. clist_add_tail e 16) [64, 48] h1 = Some h2 \<and>
     clist_entries 16 h2 = Some [64, 48] \<and> dom h2 = {16, 48, 64}"
  using region_list_is_rebuilt [OF ex_heap(1), of "[64, 48]"] by (simp add: ex_heap(2) insert_Diff_if)


section \<open>Discovery of objects\<close>

text \<open>C31: A discovery request of any of the documented forms is accepted by the trainer, sent to the
  preloaded library and read there as the same request: stage, size, GNU backtrace; after the
  trainer has sent the bounds of the executable or of the library in the filter, the library uses
  the documented range of code addresses, and the wanted code address is moved to where the code is
  loaded. The exception is stage 4 with a code address but no filter, where the range is the address
  0 (C32). A size is not 0 in stages 3 and 4; a library is named by letters, digits and the like, from
  a letter on, and not by a name that begins with \<open>exe\<close> or \<open>gbt\<close> (C33).\<close>

theorem discovery_requests_agree:
  assumes "req_ok q" "do_str o' = req_text q" "do_lib o' = []" "do_offs o' = 0"
    "length (sent_req q) + 2 \<le> PIPE_BUF" "\<not> w_pure_statmem w"
    "case expected of Some e \<Rightarrow> e = progname | None \<Rightarrow> True"
  shows "\<exists>o1 msg w' reply. prepare_discovery o' = Some o1 \<and>
    do_code_addr o1 = (if 3 \<le> req_stage q then trainer_code q else do_code_addr o') \<and>
    prepare_dynmem (do_str o1) gbt w = Some (Inr msg) \<and>
    handle_aslr (do_str o1) (do_lib o1) rl w = Some (w', reply) \<and>
    agrees rl q (memdisc_init expected progname stack_end (Some msg) True reply memdisc_start)"
  by (rule disc_handshake [OF assms])

lemma discovery_requests_agree_witness:
  "\<exists>o1 msg w' reply. prepare_discovery ex_disc_opts = Some o1 \<and> do_code_addr o1 = 0x40f4e7 \<and>
    prepare_dynmem (do_str o1) False ex_world = Some (Inr msg) \<and>
    handle_aslr (do_str o1) (do_lib o1) [] ex_world = Some (w', reply) \<and>
    agrees [] ex_request (memdisc_init None ''game'' 0x7010 (Some msg) True reply memdisc_start)"
proof -
  have "length (sent_req ex_request) \<le> 49"
    using length_digits [of 10 288 20] length_pr_ptr [of "0x40f4e7"]
    by (simp add: sent_req_def ex_request_def code_text_def pr_ul_def pr_dec_def)
  then have "length (sent_req ex_request) + 2 \<le> PIPE_BUF" by (simp add: PIPE_BUF_def)
  from discovery_requests_agree [OF _ _ _ _ this, where o' = ex_disc_opts and w = ex_world and expected = None
      and progname = "''game''" and gbt = False and rl = "[]" and stack_end = "0x7010"]
  show ?thesis by (simp add: ex_request_def ex_disc_opts_def ex_world_def)
qed


text \<open>C32: In stage 4 with a code address but without a filter, a request that the documentation
  allows, the library is active but never reports anything, whatever the game allocates: its range
  of code addresses is the address 0.\<close>

theorem stage4_without_filter_is_silent:
  assumes "do_str o' = ''4;'' @ pr_ul n @ '';'' @ pr_ptr a" "do_lib o' = []" "do_offs o' = 0"
    "a \<noteq> 0" "n \<noteq> 0" "unat n < 2 ^ 63" "\<not> w_pure_statmem w"
    "case expected of Some e \<Rightarrow> e = progname | None \<Rightarrow> True" "he_write_ok e" "8 \<le> se"
  shows "\<exists>o1 msg w' reply d. prepare_discovery o' = Some o1 \<and> prepare_dynmem (do_str o1) gbt w = Some (Inr msg) \<and>
    handle_aslr (do_str o1) (do_lib o1) rl w = Some (w', reply) \<and>
    d = memdisc_init expected progname stack_end (Some msg) True reply memdisc_start \<and>
    md_active d \<and> md_stage d = 4 \<and> md_code_addr d = a \<and> md_postprocess_malloc e se sz m d = Some d"
  by (rule unfiltered_request_silent [OF assms])

lemma stage4_without_filter_is_silent_witness:
  "\<exists>o1 msg d. prepare_discovery (ex_disc_opts\<lparr>do_str := ''4;288;0x40f4e7''\<rparr>) = Some o1 \<and>
    prepare_dynmem (do_str o1) False ex_world = Some (Inr msg) \<and> md_active d \<and>
    md_postprocess_malloc ex_hook 0x7010 288 0x87acd0 d = Some d"
proof -
  have "''4;288;0x40f4e7'' = ''4;'' @ pr_ul 288 @ '';'' @ pr_ptr 0x40f4e7" by (simp add: print_simps)
  with stage4_without_filter_is_silent [where o' = "ex_disc_opts\<lparr>do_str := ''4;288;0x40f4e7''\<rparr>" and n = 288
      and a = "0x40f4e7" and w = ex_world and expected = None and progname = "''game''" and e = ex_hook and se = "0x7010"
      and gbt = False and rl = "[]" and stack_end = "0x7010" and sz = 288 and m = "0x87acd0"]
  show ?thesis by (simp add: ex_disc_opts_def ex_world_def ex_hook_def) blast
qed


text \<open>C33: A library whose name begins with \<open>exe\<close> is the executable for the trainer and a library
  for the preloaded library, so that the bounds that are sent belong to another file.\<close>

theorem exe_like_library_differs:
  assumes "l = ''exe'' @ x # l'" "\<forall>c \<in> set l. plain_char c"
  shows "do_parse_bt_filter (CHR '';'' # l @ CHR '';'' # r) o' = Some (o'\<lparr>do_lib := [SOH]\<rparr>, CHR '';'' # r) \<and>
    md_parse_bt_filter (CHR '';'' # l @ CHR '';'' # r) d = Some (d\<lparr>md_bt_filter := Some l\<rparr>, CHR '';'' # r)"
  using exe_like_name [OF assms] by blast

lemma exe_like_library_differs_witness:
  "do_parse_bt_filter '';exec.so;8'' ex_disc_opts = Some (ex_disc_opts\<lparr>do_lib := [SOH]\<rparr>, '';8'') \<and>
   md_parse_bt_filter '';exec.so;8'' memdisc_start = Some (memdisc_start\<lparr>md_bt_filter := Some ''exec.so''\<rparr>, '';8'')"
  using exe_like_library_differs [where l = "''exec.so''" and x = "CHR ''c''" and l' = "''.so''" and r = "''8''"]
  by (simp add: plain_char_def)


text \<open>C34: The search for code addresses on the stack is equivalent to its reference: of the words
  between the frame pointer and the end of the stack take the first eleven in the range, and report
  those that are asked for; nothing is sent if there is none.\<close>

theorem report_is_backtrace:
  assumes "md_active d" "wanted_size sz d" "3 \<le> md_stage d" "\<not> md_use_gbt d" "\<not> md_discover_ptr d"
    "8 \<le> stack_end" "he_write_ok e"
  shows "md_postprocess_malloc e stack_end sz a d =
    Some (if found_calls d e stack_end = [] then d
          else d\<lparr>md_out := md_out d @ [disc_text (DMalloc a sz (found_calls d e stack_end)) @ [NL]]\<rparr>)"
  by (rule report_calls [OF assms])

lemma report_is_backtrace_witness:
  "md_postprocess_malloc ex_hook 0x7010 288 0x87acd0 (ex_stage4 0x400000 0x500000 0) =
     Some ((ex_stage4 0x400000 0x500000 0)\<lparr>md_out := [render (MStack 0x7010),
       disc_text (DMalloc 0x87acd0 288 [(0x40f4e7, Some 8)]) @ [NL]]\<rparr>)"
proof -
  let ?d = "ex_stage4 0x400000 0x500000 0"
  have "md_active ?d" "3 \<le> md_stage ?d" "\<not> md_use_gbt ?d" "\<not> md_discover_ptr ?d" "he_write_ok ex_hook"
    by (simp_all add: ex_stage4_def memdisc_start_def ex_hook_def)
  with report_is_backtrace [of ?d 288 "0x7010" ex_hook "0x87acd0"] ex_wanted ex_calls ex_searching(2)
  show ?thesis by simp
qed


text \<open>C35: The lines for allocations: whatever an allocation and its stack are, in every stage and with
  every kind of backtrace the line fits into the buffer, and only whole lines are sent.\<close>

theorem report_fits_buffer:
  assumes "he_write_ok e" "8 \<le> stack_end" "length (he_trace e) \<le> 4"
  shows "\<exists>d'. md_postprocess_malloc e stack_end sz a d = Some d' \<and>
    (md_out d' = md_out d \<or>
     (\<exists>s. md_out d' = md_out d @ [s] \<and> s \<noteq> [] \<and> List.last s = NL \<and> length s < BUF_SIZE))"
  by (rule report_fits [OF assms])

lemma report_fits_buffer_witness:
  "\<exists>d'. md_postprocess_malloc ex_hook 0x7010 288 0x87acd0 (ex_stage4 0x400000 0x500000 0) = Some d'"
proof -
  have "he_write_ok ex_hook" "8 \<le> (0x7010 :: ptr)" "length (he_trace ex_hook) \<le> 4" by (simp_all add: ex_hook_def)
  from report_fits_buffer [OF this] show ?thesis by blast
qed


text \<open>C36: The discovery as a whole: the lines that the hooks of the game have written are searched
  by the trainer from the last one back to the first, chunk by chunk; every allocation that contains
  the address is reported with exactly the calls that were found on the stack, up to the limit
  of matches, and the end of the stack is taken from the first line.\<close>

theorem discovery_finds_objects:
  assumes "searching d" "md_out d = [render (MStack se)]" "8 \<le> se" "\<forall>ev \<in> set evs. event_ok ev"
    "fold_opt (disc_step se) evs d = Some d'" "length (concat (md_out d')) < 2 ^ 32" "dp_in_addr dp \<noteq> 0"
  shows "postproc_stage1234 dp fifo_static_init (Some (concat (md_out d'))) s =
    Some (Some (foldr (\<lambda>l s. disc_handle dp s l) (disc_lines d se evs) (discover_stack_val dp s se)))"
  by (rule disc_found [OF assms])

lemma discovery_finds_objects_witness:
  "\<exists>d' s. fold_opt (disc_step 0x7010) [EMalloc ex_hook 288 0x87acd0] (ex_stage4 0x400000 0x500000 0) = Some d' \<and>
     postproc_stage1234 ex_search fifo_static_init (Some (concat (md_out d'))) disc_state_init = Some (Some s)"
proof -
  let ?d = "ex_stage4 0x400000 0x500000 0" and ?evs = "[EMalloc ex_hook 288 0x87acd0]"
  have ok: "\<forall>ev \<in> set ?evs. event_ok ev" "8 \<le> (0x7010 :: ptr)" by (simp_all add: ex_hook_def)
  note run = disc_run [OF ex_searching(1) ok]
  have "disc_lines ?d 0x7010 ?evs = [] \<or> (\<exists>l. disc_lines ?d 0x7010 ?evs = [l] \<and> line_fits PIPE_BUF (disc_text l))"
    using event_line_fits(2) [of ?d "0x7010" "EMalloc ex_hook 288 0x87acd0"]
    by (cases "event_line ?d 0x7010 (EMalloc ex_hook 288 0x87acd0)") (simp_all add: disc_lines_def List.map_filter_def)
  then have "length (concat (md_out ?d @ map (\<lambda>l. disc_text l @ [NL]) (disc_lines ?d 0x7010 ?evs))) < 2 ^ 32"
    using length_pr_ptr [of "0x7010"] ex_searching(2) by (auto simp: line_fits_def PIPE_BUF_def render_def)
  then show ?thesis
    using discovery_finds_objects [OF ex_searching ok(2,1) run, where dp = ex_search and s = disc_state_init] run
    by (simp add: ex_search_def)
qed

section \<open>The preloaded library and its process\<close>

text \<open>C37: Whatever the functions do inside (they may call hooked functions before, in and after the
  original, and the first \<open>calloc\<close> may be served from static memory), the hooks report exactly the
  calls of the game itself, each once and in order: the release before the original is called, the
  allocation with its result behind it. Every call ends with the hooks on, so the next one is
  reported again.\<close>

theorem hooks_report_outer_calls:
  "hk_log (run_calls cs hooks_start) = concat (map call_events cs) \<and>
   \<not> hk_no_hook (run_calls cs hooks_start) \<and>
   hk_log (run_calls (cs @ [c]) hooks_start) = hk_log (run_calls cs hooks_start) @ call_events c"
proof -
  have "\<not> hk_no_hook hooks_start" "hk_log hooks_start = []" by (simp_all add: hooks_start_def)
  with run_calls_report [of hooks_start] show ?thesis by simp
qed


text \<open>C38: Preloading a library and removing it again: the trainer puts it behind the libraries that
  are there, and the library, if its pattern is in no other part, leaves those as they were, in
  front of an empty part.\<close>

theorem preload_is_removed:
  assumes "env PRELOAD_VAR = Some (join (CHR '':'') ps)" "ps \<noteq> []"
    and "\<forall>p \<in> set ps. part_ok (CHR '':'') p \<and> \<not> has pat p"
    and "part_ok (CHR '':'') lib" "has pat lib" "\<not> is_prefix ''-'' lib"
  shows "\<exists>env1. preload_library False True (Some lib) env = (0, env1) \<and>
    env1 PRELOAD_VAR = Some (join (CHR '':'') (ps @ [lib])) \<and>
    rm_from_env False PRELOAD_VAR pat (CHR '':'') env1 = env(PRELOAD_VAR \<mapsto> join (CHR '':'') ps @ '':'')"
  using preload_and_remove [of env "Some ps" pat lib] assms by (simp add: join_snoc)

lemma preload_is_removed_witness:
  "\<exists>env1. preload_library False True (Some ''libmemhack64.so'') [PRELOAD_VAR \<mapsto> ''a.so:b.so''] = (0, env1) \<and>
     rm_from_env False PRELOAD_VAR ''libmemhack'' (CHR '':'') env1 = [PRELOAD_VAR \<mapsto> ''a.so:b.so:'']"
  using preload_is_removed [where env = "[PRELOAD_VAR \<mapsto> ''a.so:b.so'']" and ps = "[''a.so'', ''b.so'']"
      and pat = "''libmemhack''" and lib = "''libmemhack64.so''"]
  by (simp add: part_ok_def is_prefix_def) blast

section \<open>The keys of the user\<close>

text \<open>C39: From any config file on, the lists of activated entries are well-formed whatever keys are
  pressed: no entry is in a list twice, the list of a class holds exactly its entries of the main
  list, in the order of that list, and entries behind a pointer are in the list of the pointer only.
  An entry is active after the keys iff it was active before and they toggle it an even number of
  times, or it was not and they toggle it an odd number of times. The key for a dump is among them;
  without it the keys always return, and no file is written.\<close>

theorem keys_toggle_entries:
  assumes "parse_config c0 k0 ls opt = Some opt'" "blank (o_w opt)" "w_cfg_act (o_w opt) = []" "o_keys opt = Map.empty"
    "c_v_value c0 = []" "c_v_oldval c0 = []" "c_v_cstr c0 = []"
  shows "act_inv (o_w opt') \<and>
    (\<forall>w' fs'. fold_opt (handle_input_char env mem maps (o_keys opt')) chs (o_w opt', fs) = Some (w', fs') \<longrightarrow> act_inv w' \<and>
      (\<forall>ci < length (w_cfg (o_w opt')). is_active w' ci \<longleftrightarrow>
         is_active (o_w opt') ci \<noteq> odd (count_list (concat (map (pressed (o_keys opt')) chs)) ci))) \<and>
    (CHR ''>'' \<notin> set chs \<longrightarrow>
      (\<exists>w'. fold_opt (handle_input_char env mem maps (o_keys opt')) chs (o_w opt', fs) = Some (w', fs)))"
proof -
  from parse_config_act [OF assms] have a: "act_inv (o_w opt')" "keys_ok (o_keys opt') (length (w_cfg (o_w opt')))" by simp_all
  show ?thesis using a(1) keys_run_act [OF a] handle_input_act [OF a] by blast
qed

lemma keys_toggle_entries_witness:
  "\<exists>opt' w'. parse_config ex_cfg0 ex_chk ex_conf ex_opts = Some opt' \<and> act_inv (o_w opt') \<and>
     fold_opt (handle_input_char ex_dump (\<lambda>_. None) [] (o_keys opt')) ''g+g'' (o_w opt', Map.empty) = Some (w', Map.empty) \<and>
     act_inv w' \<and> is_active w' 0 = is_active (o_w opt') 0"
proof -
  from ex_conf_parses obtain opt' where p: "parse_config ex_cfg0 ex_chk ex_conf ex_opts = Some opt'"
    and b: "map bare (w_cfg (o_w opt')) = map bare [(plain_cfg ''gold'' 4096 32 99 ex_cfg0)\<lparr>c_ptrmem := None\<rparr>]" by blast
  from map_eq_imp_length_eq [OF b] have l: "0 < length (w_cfg (o_w opt'))" by simp
  have s: "w_cfg_act (o_w ex_opts) = []" "o_keys ex_opts = Map.empty"
    by (simp_all add: ex_opts_def ex_blank_def ex_world_def)
  note keys = keys_toggle_entries [OF p ex_blank(1) s ex_blank(2-4), of ex_dump "\<lambda>_. None" "[]" "''g+g''" Map.empty]
  obtain w' where w': "fold_opt (handle_input_char ex_dump (\<lambda>_. None) [] (o_keys opt')) ''g+g'' (o_w opt', Map.empty) =
      Some (w', Map.empty)" using keys by auto
  then have "act_inv w'" "is_active w' 0 = is_active (o_w opt') 0"
    using keys l by (auto simp: count_list_append pressed_def)
  with keys w' p show ?thesis by blast
qed

section \<open>Adaptation to another version of the game\<close>

text \<open>C40: If the adaptation script reports every class once, in the format of the scripts that come with
  ugtrain, and its output fits into the buffer of 4096 bytes with the final zero, the classes get the
  reported sizes and code addresses, the library for the trainer is preloaded, and the config file is
  written back so that reading it again gives, for every class, a line that the parser takes for that
  class with the new size and code address and the old stack offset; apart from the name and the path
  of the process in front of the report and the line that asks for the adaptation, all other lines are
  the ones that were there.\<close>

theorem adaptation_is_taken_over:
  assumes "adaptable opt hdr rs ls" "length (adp_output hdr rs) < PIPE_BUF"
  shows "\<exists>tx opt' ls'. process_adaptation False ch (adp_output hdr rs) True opt ls = Some (0, Some tx, opt') \<and>
    split_lines [] tx = ls' \<and> length ls' = length ls \<and> o_preload_lib opt' = Some ''libmemhack64.so'' \<and>
    (\<forall>di < length (w_dyn (o_w opt)). \<exists>sz a. (d_name (w_dyn (o_w opt) ! di), sz, a) \<in> set rs \<and>
       d_name (w_dyn (o_w opt') ! di) = d_name (w_dyn (o_w opt) ! di) \<and> e_mem_size (w_dyn (o_w opt') ! di) = ucast sz \<and>
       e_code_addr (w_dyn (o_w opt') ! di) = a \<and> e_stack_offs (w_dyn (o_w opt') ! di) = e_stack_offs (w_dyn (o_w opt) ! di) \<and>
       (\<forall>lnr s. outside s \<longrightarrow> parse_line lnr (ls' ! line_of (o_w opt) di) s =
          Some (add_class (read_class (w_dyn (o_w opt') ! di) lnr) s))) \<and>
    (\<forall>j < length ls. j \<notin> line_of (o_w opt) ` {..<length (w_dyn (o_w opt))} \<and> j \<noteq> o_adp_req_line opt \<longrightarrow>
       ls' ! j = head_lines hdr opt ls ! j) \<and>
    (0 < o_adp_req_line opt \<longrightarrow> ls' ! o_adp_req_line opt = ''adapt_required 0'')"
  by (rule adaptation_read [OF assms])

lemma adaptation_is_taken_over_witness:
  "adp_output None [(''Unit'', 72, 0x401234)] = ''1;Unit;0x48;0x401234'' @ [NL] \<and>
   (\<exists>tx opt'. process_adaptation False (CHR ''y'') (''1;Unit;0x48;0x401234'' @ [NL]) True ex_cli ex_cfg_lines =
      Some (0, Some tx, opt') \<and> e_mem_size (w_dyn (o_w opt') ! 0) = 72 \<and> e_code_addr (w_dyn (o_w opt') ! 0) = 0x401234)"
proof -
  have t: "adp_output None [(''Unit'', 72, 0x401234)] = ''1;Unit;0x48;0x401234'' @ [NL]"
    by (simp add: adp_output_def adp_head_def adp_item_def print_simps)
  have "length (w_dyn (o_w ex_cli)) = 1" "d_name (w_dyn (o_w ex_cli) ! 0) = ''Unit''"
    by (simp_all add: ex_cli_def ex_adapt_world_def ex_dyn_def)
  with adaptation_is_taken_over [OF ex_adaptable, of "CHR ''y''"] t show ?thesis by (fastforce simp: PIPE_BUF_def)
qed

end
